(* ===== verification/Go_Base.thy ===== *)
theory Go_Base
  imports Main "HOL-Library.AList" "HOL-Library.Sublist" "HOL-Library.Char_ord" "HOL-Library.List_Lexorder"
begin

section \<open>Prelude: the Go values, strings, clocks and identifiers the components share\<close>

text \<open>
  Go strings are byte sequences: a \<open>string\<close> here is a list of 8-bit \<open>char\<close>s, and \<open>length\<close>
  is Go's \<open>len\<close>. A Go \<open>map\<close> is an association list with distinct keys (\<open>mget\<close> reads it with
  the zero value as default, \<^const>\<open>AList.update\<close> writes it); a nil map and a nil slice read like
  empty ones and are both \<open>[]\<close>. A \<open>time.Time\<close> is the number of nanoseconds since Go's zero time, so
  \<open>IsZero\<close> is equality with 0 and \<open>UTC()\<close> is the identity. Go's \<open>int\<close> is \<open>int\<close>; where the 64-bit
  width matters the wrap-around is written with \<open>wrap64\<close>.
\<close>

named_theorems go_simps \<open>unfolding rules of the small string helpers\<close>

type_synonym gtime = int
type_synonym smap = "(string \<times> string) list"

abbreviation is_zero :: "gtime \<Rightarrow> bool" where
  "is_zero t \<equiv> t = 0"

definition wrap64 :: "int \<Rightarrow> int" where
  "wrap64 x = (x + 2 ^ 63) mod 2 ^ 64 - 2 ^ 63"

lemma wrap64_id: "- (2 ^ 63) \<le> x \<Longrightarrow> x < 2 ^ 63 \<Longrightarrow> wrap64 x = x"
  unfolding wrap64_def by (subst mod_pos_pos_trivial) auto

subsection \<open>Maps\<close>

definition mget :: "smap \<Rightarrow> string \<Rightarrow> string" where
  "mget m k = (case map_of m k of None \<Rightarrow> [] | Some v \<Rightarrow> v)"

definition mset_kv :: "smap \<Rightarrow> string \<Rightarrow> string \<Rightarrow> smap" where
  "mset_kv m k v = AList.update k v m"

lemma mget_mset_kv [simp]: "mget (mset_kv m k v) k' = (if k' = k then v else mget m k')"
  by (simp add: mget_def mset_kv_def update_conv')

lemma mget_Nil [simp]: "mget [] k = []"
  by (simp add: mget_def)

lemma distinct_mset_kv [simp]: "distinct (map fst m) \<Longrightarrow> distinct (map fst (mset_kv m k v))"
  by (simp add: mset_kv_def distinct_update)

subsection \<open>Strings: prefixes, search, replacement\<close>

fun has_prefix :: "string \<Rightarrow> string \<Rightarrow> bool" where
  "has_prefix [] s = True"
| "has_prefix (p # ps) [] = False"
| "has_prefix (p # ps) (c # cs) = (p = c \<and> has_prefix ps cs)"

lemma has_prefix_iff: "has_prefix p s \<longleftrightarrow> prefix p s"
  by (induction p s rule: has_prefix.induct) auto

definition trim_prefix :: "string \<Rightarrow> string \<Rightarrow> string" where
  "trim_prefix p s = (if has_prefix p s then drop (length p) s else s)"

definition has_suffix :: "string \<Rightarrow> string \<Rightarrow> bool" where
  "has_suffix p s = has_prefix (rev p) (rev s)"

definition trim_suffix :: "string \<Rightarrow> string \<Rightarrow> string" where
  "trim_suffix p s = (if has_suffix p s then take (length s - length p) s else s)"

text \<open>\<open>strings.Contains\<close>, \<open>strings.Count\<close> and \<open>strings.Replace\<close> (the callers never pass an empty pattern).\<close>

fun contains :: "string \<Rightarrow> string \<Rightarrow> bool" where
  "contains [] p = (p = [])"
| "contains (c # s) p = (has_prefix p (c # s) \<or> contains s p)"

lemma contains_iff: "contains s p \<longleftrightarrow> sublist p s"
  by (induction s p rule: contains.induct) (auto simp: has_prefix_iff sublist_Cons_right)

function count_sub :: "string \<Rightarrow> string \<Rightarrow> nat" where
  "count_sub s p =
     (if s = [] \<or> p = [] then 0
      else if has_prefix p s then Suc (count_sub (drop (length p) s) p)
      else count_sub (tl s) p)"
  by pat_completeness auto
termination
  by (relation "measure (\<lambda>(s, p). length s)") auto

function replace_n :: "string \<Rightarrow> string \<Rightarrow> string \<Rightarrow> nat \<Rightarrow> string" where
  "replace_n s p r n =
     (if s = [] \<or> p = [] \<or> n = 0 then s
      else if has_prefix p s then r @ replace_n (drop (length p) s) p r (n - 1)
      else hd s # replace_n (tl s) p r n)"
  by pat_completeness auto
termination
  by (relation "measure (\<lambda>(s, p, r, n). length s)") auto

declare count_sub.simps [simp del] replace_n.simps [simp del]

lemma count_sub_contains: "p \<noteq> [] \<Longrightarrow> (0 < count_sub s p) = contains s p"
proof (induction s p rule: count_sub.induct)
  case (1 s p)
  then show ?case
    by (cases s) (auto simp: count_sub.simps [of "_ # _"] count_sub.simps [of "[]"])
qed

definition replace_all :: "string \<Rightarrow> string \<Rightarrow> string \<Rightarrow> string" where
  "replace_all s p r = replace_n s p r (length s)"

fun split_on :: "char \<Rightarrow> string \<Rightarrow> string list" where
  "split_on c [] = [[]]"
| "split_on c (x # xs) =
     (if x = c then [] # split_on c xs
      else (case split_on c xs of [] \<Rightarrow> [[x]] | y # ys \<Rightarrow> (x # y) # ys))"

fun join :: "string \<Rightarrow> string list \<Rightarrow> string" where
  "join sep [] = []"
| "join sep [x] = x"
| "join sep (x # y # ys) = x @ sep @ join sep (y # ys)"

lemma split_on_nonempty [simp]: "split_on c s \<noteq> []"
  by (induction s) (auto split: list.splits)

lemma join_split_on: "join [c] (split_on c s) = s"
proof (induction s)
  case (Cons x xs)
  obtain y ys where "split_on c xs = y # ys"
    by (cases "split_on c xs") auto
  with Cons.IH show ?case by (cases ys) auto
qed simp

lemma split_on_no_sep: "p \<in> set (split_on c s) \<Longrightarrow> c \<notin> set p"
  by (induction s arbitrary: p) (auto split: if_splits list.splits)

text \<open>\<open>strings.Cut\<close> at a one-byte separator.\<close>

fun cut_at :: "char \<Rightarrow> string \<Rightarrow> (string \<times> string) option" where
  "cut_at c [] = None"
| "cut_at c (x # xs) =
     (if x = c then Some ([], xs)
      else (case cut_at c xs of None \<Rightarrow> None | Some (a, b) \<Rightarrow> Some (x # a, b)))"

lemma cut_at_Some: "cut_at c s = Some (a, b) \<longleftrightarrow> s = a @ c # b \<and> c \<notin> set a"
proof (induction s arbitrary: a b)
  case (Cons x xs)
  show ?case
  proof (cases "x = c")
    case True
    then show ?thesis by (cases a) auto
  next
    case False
    then have "cut_at c (x # xs) = Some (a, b) \<longleftrightarrow> (\<exists>a'. a = x # a' \<and> cut_at c xs = Some (a', b))"
      by (auto split: option.splits)
    also have "\<dots> \<longleftrightarrow> (\<exists>a'. a = x # a' \<and> xs = a' @ c # b \<and> c \<notin> set a')"
      using Cons.IH by simp
    also have "\<dots> \<longleftrightarrow> x # xs = a @ c # b \<and> c \<notin> set a"
      using False by (cases a) auto
    finally show ?thesis .
  qed
qed simp

lemma cut_at_None: "cut_at c s = None \<longleftrightarrow> c \<notin> set s"
  by (induction s) (auto split: option.splits)

subsection \<open>\<open>strings.TrimSpace\<close>\<close>

text \<open>
  \<open>TrimSpace\<close> cuts the code points with Unicode's White\_Space property at both ends. Their UTF-8
  encodings are listed here; none is a proper prefix or suffix of another, so cutting encodings is
  what decoding rune by rune does.
\<close>

definition go_spaces :: "string list" where
  "go_spaces =
     [[CHR 0x20], [CHR 0x09], [CHR 0x0A], [CHR 0x0B], [CHR 0x0C], [CHR 0x0D],
      [CHR 0xC2, CHR 0x85], [CHR 0xC2, CHR 0xA0], [CHR 0xE1, CHR 0x9A, CHR 0x80],
      [CHR 0xE2, CHR 0x80, CHR 0x80], [CHR 0xE2, CHR 0x80, CHR 0x81], [CHR 0xE2, CHR 0x80, CHR 0x82],
      [CHR 0xE2, CHR 0x80, CHR 0x83], [CHR 0xE2, CHR 0x80, CHR 0x84], [CHR 0xE2, CHR 0x80, CHR 0x85],
      [CHR 0xE2, CHR 0x80, CHR 0x86], [CHR 0xE2, CHR 0x80, CHR 0x87], [CHR 0xE2, CHR 0x80, CHR 0x88],
      [CHR 0xE2, CHR 0x80, CHR 0x89], [CHR 0xE2, CHR 0x80, CHR 0x8A], [CHR 0xE2, CHR 0x80, CHR 0xA8],
      [CHR 0xE2, CHR 0x80, CHR 0xA9], [CHR 0xE2, CHR 0x80, CHR 0xAF], [CHR 0xE2, CHR 0x81, CHR 0x9F],
      [CHR 0xE3, CHR 0x80, CHR 0x80]]"

definition go_spaces_rev :: "string list" where
  "go_spaces_rev = map rev go_spaces"

definition starts_with_any :: "string list \<Rightarrow> string \<Rightarrow> bool" where
  "starts_with_any ps s = list_ex (\<lambda>p. p \<noteq> [] \<and> has_prefix p s) ps"

function strip :: "string list \<Rightarrow> string \<Rightarrow> string" where
  "strip ps s =
     (case find (\<lambda>p. p \<noteq> [] \<and> has_prefix p s) ps of
        None \<Rightarrow> s
      | Some p \<Rightarrow> strip ps (drop (length p) s))"
  by pat_completeness auto
termination
proof (relation "measure (\<lambda>(ps, s). length s)")
  fix ps s p
  assume "find (\<lambda>p. p \<noteq> [] \<and> has_prefix p s) ps = Some p"
  then have "p \<noteq> []" and "prefix p s"
    by (auto simp: find_Some_iff has_prefix_iff)
  then have "length p \<le> length s" and "0 < length p"
    by (auto dest: prefix_length_le)
  then have "length s - length p < length s" by linarith
  then show "((ps, drop (length p) s), (ps, s)) \<in> measure (\<lambda>(ps, s). length s)"
    by simp
qed simp

declare strip.simps [simp del]

definition trim_space :: "string \<Rightarrow> string" where
  "trim_space s = rev (strip go_spaces_rev (rev (strip go_spaces s)))"

lemma strip_none: "\<not> starts_with_any ps (strip ps s)"
proof (induction ps s rule: strip.induct)
  case (1 ps s)
  show ?case
  proof (cases "find (\<lambda>p. p \<noteq> [] \<and> has_prefix p s) ps")
    case None
    then have "strip ps s = s" by (simp add: strip.simps [of ps s])
    moreover have "\<not> starts_with_any ps s"
      using None by (auto simp: starts_with_any_def find_None_iff list_ex_iff)
    ultimately show ?thesis by simp
  next
    case (Some p)
    with 1 show ?thesis by (simp add: strip.simps [of ps s])
  qed
qed

lemma strip_fix:
  assumes "\<not> starts_with_any ps s"
  shows "strip ps s = s"
proof -
  have "find (\<lambda>p. p \<noteq> [] \<and> has_prefix p s) ps = None"
    using assms by (auto simp: starts_with_any_def list_ex_iff find_None_iff)
  then show ?thesis by (subst strip.simps) simp
qed

lemma strip_suffix: "suffix (strip ps s) s"
proof (induction ps s rule: strip.induct)
  case (1 ps s)
  show ?case
  proof (cases "find (\<lambda>p. p \<noteq> [] \<and> has_prefix p s) ps")
    case None
    then show ?thesis by (simp add: strip.simps [of ps s])
  next
    case (Some p)
    with 1 show ?thesis
      by (auto simp: strip.simps [of ps s] intro: suffix_order.trans suffix_drop)
  qed
qed

lemma starts_with_any_prefix: "prefix u t \<Longrightarrow> starts_with_any ps u \<Longrightarrow> starts_with_any ps t"
  by (auto simp: starts_with_any_def list_ex_iff has_prefix_iff intro: prefix_order.trans)

lemma trim_space_prefix: "prefix (trim_space s) (strip go_spaces s)"
  using strip_suffix [of go_spaces_rev "rev (strip go_spaces s)"]
  by (simp add: trim_space_def suffix_to_prefix)

lemma trim_space_idem [simp]: "trim_space (trim_space s) = trim_space s"
proof -
  have "\<not> starts_with_any go_spaces (trim_space s)"
    using strip_none [of go_spaces s] starts_with_any_prefix [OF trim_space_prefix] by blast
  then have left: "strip go_spaces (trim_space s) = trim_space s"
    by (rule strip_fix)
  have "strip go_spaces_rev (rev (trim_space s)) = rev (trim_space s)"
    by (simp add: trim_space_def strip_none strip_fix)
  with left show ?thesis by (simp add: trim_space_def [of "trim_space s"])
qed

lemma trim_space_length: "length (trim_space s) \<le> length s"
  using prefix_length_le [OF trim_space_prefix [of s]] suffix_length_le [OF strip_suffix [of go_spaces s]]
  by simp

lemma trim_space_Nil [simp]: "trim_space [] = []"
  using trim_space_length [of "[]"] by simp

lemma set_trim_space: "set (trim_space s) \<subseteq> set s"
proof -
  have "set (trim_space s) \<subseteq> set (strip go_spaces s)"
    using set_mono_prefix [OF trim_space_prefix] .
  also have "\<dots> \<subseteq> set s"
    using set_mono_suffix [OF strip_suffix] .
  finally show ?thesis .
qed

text \<open>A string whose first and last bytes are not the ends of a space encoding is left alone.\<close>

definition space_heads :: "char list" where
  "space_heads = map hd go_spaces"

definition space_lasts :: "char list" where
  "space_lasts = map last go_spaces"

lemma starts_with_any_hd: "starts_with_any ps (c # cs) \<Longrightarrow> c \<in> hd ` set ps"
  by (force simp: starts_with_any_def list_ex_iff neq_Nil_conv image_iff)

lemma trim_space_id:
  assumes "s \<noteq> []" and "hd s \<notin> set space_heads" and "last s \<notin> set space_lasts"
  shows "trim_space s = s"
proof -
  have "\<not> starts_with_any go_spaces s"
    using assms(1,2) starts_with_any_hd [of go_spaces "hd s" "tl s"] by (auto simp: space_heads_def)
  moreover have "hd ` set go_spaces_rev = last ` set go_spaces"
    by (auto simp: go_spaces_rev_def hd_rev image_iff)
  then have "\<not> starts_with_any go_spaces_rev (rev s)"
    using assms(1,3) starts_with_any_hd [of go_spaces_rev "hd (rev s)" "tl (rev s)"]
    by (cases "rev s") (auto simp: space_lasts_def hd_rev [symmetric])
  ultimately show ?thesis by (simp add: trim_space_def strip_fix)
qed

subsection \<open>Numbers as text\<close>

fun dec_nat :: "nat \<Rightarrow> string" where
  "dec_nat n = (if n < 10 then [char_of (48 + n)] else dec_nat (n div 10) @ [char_of (48 + n mod 10)])"

declare dec_nat.simps [simp del]

definition dec_int :: "int \<Rightarrow> string" where
  "dec_int i = (if i < 0 then CHR ''-'' # dec_nat (nat (- i)) else dec_nat (nat i))"

definition hex_digit :: "nat \<Rightarrow> char" where
  "hex_digit n = (if n < 10 then char_of (48 + n) else char_of (87 + n))"

definition hex_encode :: "string \<Rightarrow> string" where
  "hex_encode bs = concat (map (\<lambda>b. [hex_digit (of_char b div 16), hex_digit (of_char b mod 16)]) bs)"

subsection \<open>The process environment: clock and random source\<close>

text \<open>
  \<open>time.Now\<close> and \<open>rand.Read\<close> read two streams of the environment at increasing positions. A
  \<open>None\<close> in the random stream is a failing \<open>rand.Read\<close>.
\<close>

record world =
  clock :: "nat \<Rightarrow> gtime"
  tpos :: nat
  rnd :: "nat \<Rightarrow> string option"
  rpos :: nat

definition now :: "world \<Rightarrow> gtime \<times> world" where
  "now w = (clock w (tpos w), w\<lparr>tpos := Suc (tpos w)\<rparr>)"

text \<open>Nanoseconds between Go's zero time and the Unix epoch, for \<open>UnixNano\<close>.\<close>

definition unix_epoch :: gtime where
  "unix_epoch = 62135596800 * 1000000000"

definition new_id :: "string \<Rightarrow> world \<Rightarrow> string \<times> world" where
  "new_id pre w =
     (case rnd w (rpos w) of
        Some bs \<Rightarrow> (pre @ ''_'' @ hex_encode bs, w\<lparr>rpos := Suc (rpos w)\<rparr>)
      | None \<Rightarrow>
          (let (t, w') = now (w\<lparr>rpos := Suc (rpos w)\<rparr>)
           in (pre @ ''_'' @ dec_int (wrap64 (t - unix_epoch)), w')))"

lemma new_id_nonempty [simp]: "fst (new_id p w) \<noteq> []"
  by (simp add: new_id_def now_def split: option.splits prod.splits)

lemma new_id_not_Nil [simp]: "new_id p w \<noteq> ([], w')"
  using new_id_nonempty [of p w] by (metis fst_conv)

text \<open>A concrete environment, used where a property is applied to concrete values.\<close>

definition demo_world :: world where
  "demo_world = \<lparr>clock = (\<lambda>n. 1000 + int n), tpos = 0, rnd = (\<lambda>n. Some (dec_nat n)), rpos = 0\<rparr>"

subsection \<open>\<open>time.RFC3339Nano\<close>\<close>

text \<open>
  The text of a UTC time, as \<open>Format(time.RFC3339Nano)\<close> writes it: trailing zeros of the fraction
  are dropped, and the whole fraction when it is zero. The calendar date is counted from
  1 March of year 0, whose 400-year cycles have 146097 days.
\<close>

definition pad :: "nat \<Rightarrow> string \<Rightarrow> string" where
  "pad n s = replicate (n - length s) (CHR ''0'') @ s"

definition civil :: "int \<Rightarrow> int \<times> int \<times> int" where
  "civil days =
     (let z = days + 306;
          era = z div 146097;
          doe = z mod 146097;
          yoe = (doe - doe div 1460 + doe div 36524 - doe div 146096) div 365;
          doy = doe - (365 * yoe + yoe div 4 - yoe div 100);
          mp = (5 * doy + 2) div 153;
          d = doy - (153 * mp + 2) div 5 + 1;
          m = (if mp < 10 then mp + 3 else mp - 9);
          y = yoe + era * 400
      in (if m \<le> 2 then y + 1 else y, m, d))"

definition frac_text :: "int \<Rightarrow> string" where
  "frac_text ns =
     (if ns = 0 then []
      else CHR ''.'' # rev (dropWhile (\<lambda>c. c = CHR ''0'') (rev (pad 9 (dec_nat (nat ns))))))"

definition rfc3339nano :: "gtime \<Rightarrow> string" where
  "rfc3339nano t =
     (let ns = t mod 1000000000;
          secs = t div 1000000000;
          day = secs div 86400;
          sod = secs mod 86400;
          (y, m, d) = civil day;
          p2 = (\<lambda>i. pad 2 (dec_nat (nat i)))
      in pad 4 (dec_nat (nat y)) @ ''-'' @ p2 m @ ''-'' @ p2 d @ ''T'' @
         p2 (sod div 3600) @ '':'' @ p2 (sod mod 3600 div 60) @ '':'' @ p2 (sod mod 60) @
         frac_text ns @ ''Z'')"

end
