(* ===== verification/Llm_Types.thy ===== *)
theory Llm_Types
  imports Go_Base "HOL-Library.Word"
begin

section \<open>Package llm: requests, responses, validation, prompts, the model registry\<close>

text \<open>
  The provider-neutral values of \<open>llm/types.go\<close>, one record per struct with the fields in the code's
  order, and the small pure operations over them: \<open>Capabilities.ToMap\<close>, \<open>TextResponse\<close>
  (\<open>types.go\<close>), \<open>Request.Validate\<close> (\<open>validate.go\<close>), the prompt helpers (\<open>prompt.go\<close>) and
  the model registry (\<open>model.go\<close>). A pointer field is an \<open>option\<close>; \<open>json.RawMessage\<close> is the
  raw bytes; an \<open>any\<close> is a \<open>jval\<close>, in which an \<open>int\<close> and a \<open>float64\<close> differ; a \<open>float64\<close> is only carried along
  and is its 64 bits.
\<close>

datatype jval = JNull | JBool bool | JInt int | JNum "64 word" | JStr string | JArr "jval list" | JObj "(string \<times> jval) list"

type_synonym jmap = "(string \<times> jval) list"
type_synonym f64 = "64 word"
type_synonym raw = string

record capabilities =
  cap_tools :: bool
  cap_custom_tools :: bool
  cap_reasoning :: bool
  cap_reasoning_summaries :: bool
  cap_structured_output :: bool
  cap_streaming :: bool
  cap_tool_choice :: bool
  cap_parallel_tool_calls :: bool
  cap_prompt_refs :: bool
  cap_previous_response_id :: bool
  cap_mcp :: bool
  cap_skills :: bool
  cap_custom_agents :: bool
  cap_a2a :: bool
  cap_routing :: bool

definition cap_add :: "string \<Rightarrow> bool \<Rightarrow> jmap \<Rightarrow> jmap" where
  "cap_add name enabled out = (if enabled then AList.update name (JBool True) out else out)"

definition cap_fields :: "capabilities \<Rightarrow> (string \<times> bool) list" where
  "cap_fields c =
     [(''tools'', cap_tools c), (''custom_tools'', cap_custom_tools c),
      (''reasoning'', cap_reasoning c), (''reasoning_summaries'', cap_reasoning_summaries c),
      (''structured_output'', cap_structured_output c), (''streaming'', cap_streaming c),
      (''tool_choice'', cap_tool_choice c), (''parallel_tool_calls'', cap_parallel_tool_calls c),
      (''prompt_refs'', cap_prompt_refs c), (''previous_response_id'', cap_previous_response_id c),
      (''mcp'', cap_mcp c), (''skills'', cap_skills c), (''custom_agents'', cap_custom_agents c),
      (''a2a'', cap_a2a c), (''routing'', cap_routing c)]"

definition to_map :: "capabilities \<Rightarrow> jmap" where
  "to_map c = fold (\<lambda>(name, enabled). cap_add name enabled) (cap_fields c) []"

record auth =
  au_type :: string
  au_token :: string
  au_headers :: smap

definition AuthNone :: string where "AuthNone = ''none''"
definition AuthBearer :: string where "AuthBearer = ''bearer''"
definition AuthAPIKey :: string where "AuthAPIKey = ''api_key''"
definition AuthOAuth :: string where "AuthOAuth = ''oauth''"
definition AuthLocal :: string where "AuthLocal = ''local''"

record prompt_ref =
  pr_id :: string
  pr_version :: string
  pr_variables :: jmap

record content_part =
  part_type :: string
  part_text :: string
  part_image_url :: string
  part_file_id :: string
  part_raw :: raw

record message =
  m_role :: string
  m_content :: string
  m_parts :: "content_part list"

definition RoleSystem :: string where "RoleSystem = ''system''"
definition RoleDeveloper :: string where "RoleDeveloper = ''developer''"
definition RoleUser :: string where "RoleUser = ''user''"
definition RoleAssistant :: string where "RoleAssistant = ''assistant''"
definition RoleTool :: string where "RoleTool = ''tool''"

definition ToolFunction :: string where "ToolFunction = ''function''"
definition ToolCustom :: string where "ToolCustom = ''custom''"
definition ToolBuiltin :: string where "ToolBuiltin = ''builtin''"

record grammar =
  g_syntax :: string
  g_definition :: string

record tool =
  t_kind :: string
  t_name :: string
  t_description :: string
  t_parameters :: "jmap option"
  t_strict :: "bool option"
  t_grammar :: "grammar option"
  t_provider_options :: jmap

definition ToolChoiceAuto :: string where "ToolChoiceAuto = ''auto''"
definition ToolChoiceNone :: string where "ToolChoiceNone = ''none''"
definition ToolChoiceRequired :: string where "ToolChoiceRequired = ''required''"
definition ToolChoiceFunction :: string where "ToolChoiceFunction = ''function''"
definition ToolChoiceAllowed :: string where "ToolChoiceAllowed = ''allowed_tools''"

record tool_choice =
  tch_mode :: string
  tch_name :: string
  tch_allowed_tools :: "string list"

record reasoning_config =
  rc_effort :: string
  rc_summary :: string

record text_format =
  tf_type :: string
  tf_name :: string
  tf_description :: string
  tf_schema :: jmap
  tf_strict :: bool

definition ItemMessage :: string where "ItemMessage = ''message''"
definition ItemFunctionCall :: string where "ItemFunctionCall = ''function_call''"
definition ItemCustomToolCall :: string where "ItemCustomToolCall = ''custom_tool_call''"
definition ItemFunctionOutput :: string where "ItemFunctionOutput = ''function_call_output''"
definition ItemCustomToolOutput :: string where "ItemCustomToolOutput = ''custom_tool_call_output''"
definition ItemReasoning :: string where "ItemReasoning = ''reasoning''"
definition ItemUnknown :: string where "ItemUnknown = ''unknown''"

record tool_call =
  tc_id :: string
  tc_call_id :: string
  tc_name :: string
  tc_arguments :: raw
  tc_custom :: bool

record tool_result =
  tr_call_id :: string
  tr_name :: string
  tr_output :: string
  tr_error :: string
  tr_custom :: bool
  tr_raw_json :: raw

definition zero_result :: tool_result where
  "zero_result = \<lparr>tr_call_id = [], tr_name = [], tr_output = [], tr_error = [], tr_custom = False, tr_raw_json = []\<rparr>"

record reasoning_item =
  ri_id :: string
  ri_summary :: "string list"
  ri_text :: "string list"
  ri_encrypted_content :: string
  ri_raw :: raw

record item =
  i_type :: string
  i_role :: string
  i_content :: string
  i_tool_call :: "tool_call option"
  i_tool_result :: "tool_result option"
  i_reasoning :: "reasoning_item option"
  i_provider_raw :: raw

definition zero_item :: item where
  "zero_item = \<lparr>i_type = [], i_role = [], i_content = [], i_tool_call = None, i_tool_result = None,
     i_reasoning = None, i_provider_raw = []\<rparr>"

record usage =
  u_input :: int
  u_output :: int
  u_total :: int
  u_reasoning :: int

definition zero_usage :: usage where
  "zero_usage = \<lparr>u_input = 0, u_output = 0, u_total = 0, u_reasoning = 0\<rparr>"

record request =
  q_model :: string
  q_instructions :: string
  q_messages :: "message list"
  q_input_items :: "item list"
  q_prompt :: "prompt_ref option"
  q_tools :: "tool list"
  q_tool_choice :: tool_choice
  q_reasoning :: "reasoning_config option"
  q_text_format :: "text_format option"
  q_max_output_tokens :: int
  q_max_tool_calls :: int
  q_temperature :: "f64 option"
  q_top_p :: "f64 option"
  q_store :: "bool option"
  q_previous_response_id :: string
  q_include :: "string list"
  q_metadata :: smap
  q_parallel_tool_calls :: "bool option"
  q_safety_identifier :: string
  q_prompt_cache_key :: string

definition zero_request :: request where
  "zero_request =
     \<lparr>q_model = [], q_instructions = [], q_messages = [], q_input_items = [], q_prompt = None, q_tools = [],
      q_tool_choice = \<lparr>tch_mode = [], tch_name = [], tch_allowed_tools = []\<rparr>, q_reasoning = None,
      q_text_format = None, q_max_output_tokens = 0, q_max_tool_calls = 0, q_temperature = None,
      q_top_p = None, q_store = None, q_previous_response_id = [], q_include = [], q_metadata = [],
      q_parallel_tool_calls = None, q_safety_identifier = [], q_prompt_cache_key = []\<rparr>"

record response =
  p_id :: string
  p_provider :: string
  p_model :: string
  p_status :: string
  p_text :: string
  p_output :: "item list"
  p_tool_calls :: "tool_call list"
  p_reasoning :: "reasoning_item list"
  p_usage :: usage
  p_previous_response_id :: string
  p_raw :: raw

definition zero_response :: response where
  "zero_response =
     \<lparr>p_id = [], p_provider = [], p_model = [], p_status = [], p_text = [], p_output = [], p_tool_calls = [],
      p_reasoning = [], p_usage = zero_usage, p_previous_response_id = [], p_raw = []\<rparr>"

definition text_response :: "string \<Rightarrow> string \<Rightarrow> string \<Rightarrow> response" where
  "text_response provider model text =
     zero_response\<lparr>p_provider := provider, p_model := model, p_status := ''completed'', p_text := text,
       p_output := [zero_item\<lparr>i_type := ItemMessage, i_role := RoleAssistant, i_content := text\<rparr>]\<rparr>"

subsection \<open>\<open>Request.Validate\<close>\<close>

datatype validate_error =
    ModelRequired
  | NoInput
  | ToolNameRequired
  | ParametersRequired string

fun validate_tools :: "tool list \<Rightarrow> validate_error option" where
  "validate_tools [] = None"
| "validate_tools (t # ts) =
     (if t_name t = [] then Some ToolNameRequired
      else if t_kind t = ToolFunction \<and> t_parameters t = None then Some (ParametersRequired (t_name t))
      else validate_tools ts)"

definition validate :: "request \<Rightarrow> validate_error option" where
  "validate r =
     (if q_model r = [] then Some ModelRequired
      else if q_messages r = [] \<and> q_input_items r = [] \<and> q_prompt r = None then Some NoInput
      else validate_tools (q_tools r))"

lemma validate_tools_None:
  "validate_tools ts = None \<longleftrightarrow>
     (\<forall>t \<in> set ts. t_name t \<noteq> [] \<and> (t_kind t = ToolFunction \<longrightarrow> t_parameters t \<noteq> None))"
  by (induction ts) auto

subsection \<open>Prompt helpers\<close>

definition user_text :: "string \<Rightarrow> message" where
  "user_text text = \<lparr>m_role = RoleUser, m_content = text, m_parts = []\<rparr>"

definition developer_text :: "string \<Rightarrow> message" where
  "developer_text text = \<lparr>m_role = RoleDeveloper, m_content = text, m_parts = []\<rparr>"

definition system_text :: "string \<Rightarrow> message" where
  "system_text text = \<lparr>m_role = RoleSystem, m_content = text, m_parts = []\<rparr>"

definition newline :: string where "newline = [CHR 0x0A]"

text \<open>The loop runs over the messages from the last one, so it recurses over the reversed list.\<close>

fun last_user_prompt_rev :: "message list \<Rightarrow> string" where
  "last_user_prompt_rev [] = []"
| "last_user_prompt_rev (m # ms) =
     (if m_role m = RoleUser then
        (if m_content m \<noteq> [] then m_content m
         else join newline (filter (\<lambda>t. t \<noteq> []) (map part_text (m_parts m))))
      else last_user_prompt_rev ms)"

definition last_user_prompt :: "message list \<Rightarrow> string" where
  "last_user_prompt ms = last_user_prompt_rev (rev ms)"

text \<open>
  \<open>strings.ToUpper\<close> and \<open>strings.ToLower\<close>: exact on ASCII text; the Unicode case tables of the
  standard library are the parameter \<open>u\<close>, used for text with other bytes only.
\<close>

definition is_ascii :: "string \<Rightarrow> bool" where
  "is_ascii s = list_all (\<lambda>c. (of_char c :: nat) < 128) s"

definition upper_char :: "char \<Rightarrow> char" where
  "upper_char c = (if CHR ''a'' \<le> c \<and> c \<le> CHR ''z'' then char_of (of_char c - 32 :: nat) else c)"

definition lower_char :: "char \<Rightarrow> char" where
  "lower_char c = (if CHR ''A'' \<le> c \<and> c \<le> CHR ''Z'' then char_of (of_char c + 32 :: nat) else c)"

definition go_upper :: "(string \<Rightarrow> string) \<Rightarrow> string \<Rightarrow> string" where
  "go_upper u s = (if is_ascii s then map upper_char s else u s)"

definition go_lower :: "(string \<Rightarrow> string) \<Rightarrow> string \<Rightarrow> string" where
  "go_lower u s = (if is_ascii s then map lower_char s else u s)"

definition render_transcript_prompt :: "(string \<Rightarrow> string) \<Rightarrow> request \<Rightarrow> string \<Rightarrow> string" where
  "render_transcript_prompt u req header =
     trim_space
       ((if q_instructions req \<noteq> [] then
           (if header \<noteq> [] then header @ newline else []) @ q_instructions req @ newline @ newline
         else []) @
        concat (map (\<lambda>m. if m_content m = [] then [] else go_upper u (m_role m) @ '': '' @ m_content m @ newline)
          (q_messages req)) @
        concat (map (\<lambda>i. if i_content i \<noteq> [] then i_content i @ newline else []) (q_input_items req)))"

subsection \<open>Model registry\<close>

record model_context =
  mc_input_tokens :: int
  mc_output_tokens :: int

record model_pricing =
  mp_input :: f64
  mp_cached_input :: f64
  mp_output :: f64
  mp_reasoning_output :: f64
  mp_currency :: string

record model =
  mo_id :: string
  mo_provider :: string
  mo_display_name :: string
  mo_family :: string
  mo_capabilities :: capabilities
  mo_context :: model_context
  mo_pricing :: "model_pricing option"

type_synonym registry = "(string \<times> model) list"

definition registry_key :: "string \<Rightarrow> string \<Rightarrow> string" where
  "registry_key provider mid = provider @ '':'' @ mid"

definition register_model :: "registry \<Rightarrow> model \<Rightarrow> registry" where
  "register_model r m = AList.update (registry_key (mo_provider m) (mo_id m)) m r"

definition new_model_registry :: "model list \<Rightarrow> registry" where
  "new_model_registry ms = fold (\<lambda>m r. register_model r m) ms []"

definition get_model :: "registry \<Rightarrow> string \<Rightarrow> string \<Rightarrow> model option" where
  "get_model r provider mid = map_of r (registry_key provider mid)"

datatype 'a or_panic = Returns 'a | Panics string

definition must_get_model :: "registry \<Rightarrow> string \<Rightarrow> string \<Rightarrow> model or_panic" where
  "must_get_model r provider mid =
     (case get_model r provider mid of
        None \<Rightarrow> Panics (''model '' @ provider @ '':'' @ mid @ '' not registered'')
      | Some m \<Rightarrow> Returns m)"

lemma get_register_same: "get_model (register_model r m) (mo_provider m) (mo_id m) = Some m"
  by (simp add: get_model_def register_model_def update_conv')

lemma get_register_other:
  "registry_key p i \<noteq> registry_key (mo_provider m) (mo_id m) \<Longrightarrow>
     get_model (register_model r m) p i = get_model r p i"
  by (simp add: get_model_def register_model_def update_conv')

text \<open>
  The last registered model with a key wins. The key joins provider and id with a colon, so two pairs
  can share one: \<open>registry_key_clash\<close>; without colons in the provider names they do not.
\<close>

lemma registry_key_inject:
  assumes "CHR '':'' \<notin> set p" and "CHR '':'' \<notin> set p'"
  shows "registry_key p i = registry_key p' i' \<longleftrightarrow> p = p' \<and> i = i'"
proof
  assume "registry_key p i = registry_key p' i'"
  then have "cut_at CHR '':'' (registry_key p i) = Some (p, i)"
    and "cut_at CHR '':'' (registry_key p i) = Some (p', i')"
    using assms by (simp_all add: registry_key_def cut_at_Some)
  then show "p = p' \<and> i = i'" by simp
qed simp

lemma get_new_model_registry_fold:
  "get_model (fold (\<lambda>m r. register_model r m) ms r0) p i =
     (case find (\<lambda>m. registry_key (mo_provider m) (mo_id m) = registry_key p i) (rev ms) of
        Some m \<Rightarrow> Some m
      | None \<Rightarrow> get_model r0 p i)"
proof (induction ms arbitrary: r0)
  case (Cons m ms)
  have app: "find P (xs @ [x]) = (case find P xs of Some y \<Rightarrow> Some y | None \<Rightarrow> if P x then Some x else None)"
    for P :: "model \<Rightarrow> bool" and xs x by (induction xs) auto
  show ?case
    by (simp add: Cons.IH app split: option.splits)
       (auto simp: get_model_def register_model_def update_conv')
qed simp

end
