(* ===== verification/Session_Types.thy ===== *)
theory Session_Types
  imports Llm_Types "HOL-Library.Multiset"
begin

section \<open>Package session: the session tree, runs, and the tables that store them\<close>

text \<open>
  \<open>session/session.go\<close>, \<open>run.go\<close>, \<open>artifact.go\<close>, \<open>resource.go\<close>: one record per struct, its
  fields prefixed, and the constructors and mutators of \<open>Session\<close>. The last part is the schema of
  \<open>session/sqlite_store.go\<close>: a table is the list of its rows in rowid order. A JSON column holds the
  Go value it encodes and a time column the time, since both encodings are inverted by the standard
  library on the values the program stores.
\<close>

subsection \<open>Sessions\<close>

definition AgentModeBuild :: string where "AgentModeBuild = ''build''"
definition AgentModePlan :: string where "AgentModePlan = ''plan''"
definition AgentModeAsk :: string where "AgentModeAsk = ''ask''"

record turn =
  tn_id :: string
  tn_prompt :: string
  tn_request :: request
  tn_response :: "response option"
  tn_started :: gtime
  tn_ended :: gtime
  tn_error :: string

record event =
  e_id :: string
  e_session :: string
  e_turn :: string
  e_at :: gtime
  e_type :: string
  e_tool :: string
  e_payload :: raw
  e_error :: string

definition TodoPending :: string where "TodoPending = ''pending''"
definition TodoInProgress :: string where "TodoInProgress = ''in_progress''"
definition TodoCompleted :: string where "TodoCompleted = ''completed''"
definition TodoCancelled :: string where "TodoCancelled = ''cancelled''"

record todo =
  td_id :: string
  td_content :: string
  td_status :: string
  td_priority :: string
  td_updated :: gtime

record checkpoint =
  cp_id :: string
  cp_session :: string
  cp_turn :: string
  cp_created :: gtime
  cp_payload :: raw

record session =
  s_id :: string
  s_root :: string
  s_provider :: string
  s_model :: string
  s_agent :: string
  s_mode :: string
  s_created :: gtime
  s_updated :: gtime
  s_turns :: "turn list"
  s_events :: "event list"
  s_todos :: "todo list"
  s_summary :: string
  s_last_response :: string
  s_last_items :: "item list"
  s_metadata :: smap

definition new_session :: "string \<Rightarrow> string \<Rightarrow> string \<Rightarrow> string \<Rightarrow> string \<Rightarrow> world \<Rightarrow> session \<times> world" where
  "new_session root provider model agent mode w =
     (let (t, w1) = now w;
          mode' = (if mode = [] then AgentModeBuild else mode);
          agent' = (if agent = [] then ''kkode-agent'' else agent);
          (i, w2) = new_id ''sess'' w1
      in (\<lparr>s_id = i, s_root = root, s_provider = provider, s_model = model, s_agent = agent', s_mode = mode',
           s_created = t, s_updated = t, s_turns = [], s_events = [], s_todos = [], s_summary = [],
           s_last_response = [], s_last_items = [], s_metadata = []\<rparr>, w2))"

definition new_turn :: "string \<Rightarrow> request \<Rightarrow> world \<Rightarrow> turn \<times> world" where
  "new_turn prompt req w =
     (let (t, w1) = now w; (i, w2) = new_id ''turn'' w1
      in (\<lparr>tn_id = i, tn_prompt = prompt, tn_request = req, tn_response = None, tn_started = t, tn_ended = 0,
           tn_error = []\<rparr>, w2))"

definition new_event :: "string \<Rightarrow> string \<Rightarrow> string \<Rightarrow> world \<Rightarrow> event \<times> world" where
  "new_event sid tid typ w =
     (let (i, w1) = new_id ''ev'' w; (t, w2) = now w1
      in (\<lparr>e_id = i, e_session = sid, e_turn = tid, e_at = t, e_type = typ, e_tool = [], e_payload = [],
           e_error = []\<rparr>, w2))"

definition touch :: "session \<Rightarrow> world \<Rightarrow> session \<times> world" where
  "touch s w = (let (t, w1) = now w in (s\<lparr>s_updated := t\<rparr>, w1))"

definition append_turn :: "session \<Rightarrow> turn \<Rightarrow> world \<Rightarrow> session \<times> world" where
  "append_turn s t w =
     (let s1 = s\<lparr>s_turns := s_turns s @ [t]\<rparr>;
          s2 = (case tn_response t of
                  None \<Rightarrow> s1
                | Some r \<Rightarrow> s1\<lparr>s_last_response := p_id r, s_last_items := p_output r\<rparr>)
      in touch s2 w)"

definition append_event :: "session \<Rightarrow> event \<Rightarrow> world \<Rightarrow> session \<times> world" where
  "append_event s ev w =
     (let (ev1, w1) = (if e_id ev = [] then (let (i, w') = new_id ''ev'' w in (ev\<lparr>e_id := i\<rparr>, w')) else (ev, w));
          ev2 = (if e_session ev1 = [] then ev1\<lparr>e_session := s_id s\<rparr> else ev1);
          (ev3, w2) = (if is_zero (e_at ev2) then (let (t, w') = now w1 in (ev2\<lparr>e_at := t\<rparr>, w')) else (ev2, w1))
      in touch (s\<lparr>s_events := s_events s @ [ev3]\<rparr>) w2)"

lemma append_turn_turns: "s_turns (fst (append_turn s t w)) = s_turns s @ [t]"
  by (simp add: append_turn_def touch_def Let_def split: prod.splits option.splits)

lemma append_event_events:
  "\<exists>ev'. s_events (fst (append_event s ev w)) = s_events s @ [ev'] \<and> e_id ev' \<noteq> [] \<and>
     e_type ev' = e_type ev \<and> (e_session ev = [] \<longrightarrow> e_session ev' = s_id s)"
  by (auto simp: append_event_def touch_def Let_def split: prod.splits)

subsection \<open>Runs\<close>

record run =
  r_id :: string
  r_session :: string
  r_turn :: string
  r_status :: string
  r_prompt :: string
  r_provider :: string
  r_model :: string
  r_workdir :: string
  r_max_tokens :: int
  r_mcp :: "string list"
  r_skills :: "string list"
  r_subagents :: "string list"
  r_enabled :: "string list"
  r_disabled :: "string list"
  r_blocks :: "string list"
  r_events_url :: string
  r_started :: gtime
  r_ended :: gtime
  r_error :: string
  r_usage :: usage
  r_metadata :: smap
  r_created :: gtime
  r_updated :: gtime

definition zero_run :: run where
  "zero_run =
     \<lparr>r_id = [], r_session = [], r_turn = [], r_status = [], r_prompt = [], r_provider = [], r_model = [],
      r_workdir = [], r_max_tokens = 0, r_mcp = [], r_skills = [], r_subagents = [], r_enabled = [],
      r_disabled = [], r_blocks = [], r_events_url = [], r_started = 0, r_ended = 0, r_error = [],
      r_usage = zero_usage, r_metadata = [], r_created = 0, r_updated = 0\<rparr>"

record run_query =
  rq_session :: string
  rq_turn :: string
  rq_status :: string
  rq_provider :: string
  rq_model :: string
  rq_request_id :: string
  rq_idempotency :: string
  rq_limit :: int
  rq_offset :: int

definition all_runs :: run_query where
  "all_runs = \<lparr>rq_session = [], rq_turn = [], rq_status = [], rq_provider = [], rq_model = [],
     rq_request_id = [], rq_idempotency = [], rq_limit = 0, rq_offset = 0\<rparr>"

definition RequestIDMetadataKey :: string where "RequestIDMetadataKey = ''request_id''"
definition IdempotencyMetadataKey :: string where "IdempotencyMetadataKey = ''idempotency_key''"

record run_event =
  re_id :: string
  re_run_id :: string
  re_seq :: int
  re_type :: string
  re_at :: gtime
  re_tool :: string
  re_message :: string
  re_error :: string
  re_payload :: raw
  re_run :: run

definition zero_run_event :: run_event where
  "zero_run_event = \<lparr>re_id = [], re_run_id = [], re_seq = 0, re_type = [], re_at = 0, re_tool = [],
     re_message = [], re_error = [], re_payload = [], re_run = zero_run\<rparr>"

record run_event_query =
  req_run_id :: string
  req_after :: int
  req_type :: string
  req_limit :: int

subsection \<open>Artifacts and resources\<close>

record artifact =
  a_id :: string
  a_session :: string
  a_run :: string
  a_turn :: string
  a_kind :: string
  a_name :: string
  a_mime :: string
  a_content :: raw
  a_metadata :: smap
  a_created :: gtime
  a_updated :: gtime

record artifact_query =
  aq_session :: string
  aq_run :: string
  aq_turn :: string
  aq_kind :: string
  aq_limit :: int
  aq_offset :: int

record resource =
  rs_id :: string
  rs_kind :: string
  rs_name :: string
  rs_description :: string
  rs_enabled :: bool
  rs_config :: raw
  rs_created :: gtime
  rs_updated :: gtime

record resource_query =
  rsq_kind :: string
  rsq_name :: string
  rsq_enabled :: "bool option"
  rsq_limit :: int
  rsq_offset :: int

subsection \<open>Queries and records of the timeline\<close>

record session_query =
  sq_root :: string
  sq_provider :: string
  sq_model :: string
  sq_mode :: string
  sq_limit :: int
  sq_offset :: int

record session_summary =
  ss_id :: string
  ss_root :: string
  ss_provider :: string
  ss_model :: string
  ss_agent :: string
  ss_mode :: string
  ss_turn_count :: nat
  ss_updated :: gtime
  ss_summary :: string

record checkpoint_query =
  cq_session :: string
  cq_turn :: string
  cq_limit :: int
  cq_offset :: int

record event_query =
  eq_session :: string
  eq_after :: int
  eq_type :: string
  eq_limit :: int

record turn_query =
  tq_session :: string
  tq_after :: int
  tq_limit :: int

subsection \<open>The tables\<close>

record session_row =
  sr_id :: string
  sr_root :: string
  sr_provider :: string
  sr_model :: string
  sr_agent :: string
  sr_mode :: string
  sr_summary :: string
  sr_last_response :: string
  sr_last_items :: "item list"
  sr_metadata :: smap
  sr_created :: gtime
  sr_updated :: gtime

record turn_row =
  tw_session :: string
  tw_ordinal :: int
  tw_turn :: turn

record event_row =
  ew_ordinal :: int
  ew_event :: event

record todo_row =
  dw_session :: string
  dw_ordinal :: int
  dw_todo :: todo

record db =
  t_sessions :: "session_row list"
  t_turns :: "turn_row list"
  t_events :: "event_row list"
  t_runs :: "run list"
  t_run_events :: "run_event list"
  t_todos :: "todo_row list"
  t_checkpoints :: "checkpoint list"
  t_artifacts :: "artifact list"
  t_resources :: "resource list"

definition empty_db :: db where
  "empty_db = \<lparr>t_sessions = [], t_turns = [], t_events = [], t_runs = [], t_run_events = [], t_todos = [],
     t_checkpoints = [], t_artifacts = [], t_resources = []\<rparr>"

definition has_session :: "db \<Rightarrow> string \<Rightarrow> bool" where
  "has_session d i = list_ex (\<lambda>r. sr_id r = i) (t_sessions d)"

text \<open>
  The constraints of the schema: primary and unique keys, and the foreign keys (\<open>foreign_keys = ON\<close>).
\<close>

definition run_tables_ok :: "db \<Rightarrow> bool" where
  "run_tables_ok d \<longleftrightarrow>
     distinct (map r_id (t_runs d)) \<and>
     list_all (\<lambda>r. has_session d (r_session r)) (t_runs d) \<and>
     distinct (map re_id (t_run_events d)) \<and>
     distinct (map (\<lambda>e. (re_run_id e, re_seq e)) (t_run_events d)) \<and>
     list_all (\<lambda>e. re_run_id e \<in> r_id ` set (t_runs d)) (t_run_events d)"

definition session_tables_ok :: "db \<Rightarrow> bool" where
  "session_tables_ok d \<longleftrightarrow>
     distinct (map sr_id (t_sessions d)) \<and>
     distinct (map (\<lambda>r. tn_id (tw_turn r)) (t_turns d)) \<and>
     distinct (map (\<lambda>r. (tw_session r, tw_ordinal r)) (t_turns d)) \<and>
     list_all (\<lambda>r. has_session d (tw_session r)) (t_turns d) \<and>
     distinct (map (\<lambda>r. e_id (ew_event r)) (t_events d)) \<and>
     distinct (map (\<lambda>r. (e_session (ew_event r), ew_ordinal r)) (t_events d)) \<and>
     list_all (\<lambda>r. has_session d (e_session (ew_event r))) (t_events d) \<and>
     distinct (map (\<lambda>r. (dw_session r, td_id (dw_todo r))) (t_todos d)) \<and>
     list_all (\<lambda>r. has_session d (dw_session r)) (t_todos d) \<and>
     distinct (map cp_id (t_checkpoints d)) \<and>
     list_all (\<lambda>c. has_session d (cp_session c)) (t_checkpoints d) \<and>
     distinct (map a_id (t_artifacts d)) \<and>
     list_all (\<lambda>a. has_session d (a_session a)) (t_artifacts d) \<and>
     distinct (map (\<lambda>r. (rs_kind r, rs_id r)) (t_resources d))"

lemma run_tables_ok_empty: "run_tables_ok empty_db"
  by (simp add: run_tables_ok_def empty_db_def)

lemma session_tables_ok_empty: "session_tables_ok empty_db"
  by (simp add: session_tables_ok_def empty_db_def)

subsection \<open>Errors of the store, and the retry of a colliding sequence number\<close>

text \<open>
  The errors the store returns: SQLite's constraint failures, the store's own texts, the context's
  error, and \<open>DbFail\<close> for anything the driver reports that no operation here produces by itself.
\<close>

datatype store_error =
    UniqueFailed string
  | ForeignKeyFailed
  | StoreErr string
  | CtxErr string
  | DbFail string

definition is_unique_error :: "store_error option \<Rightarrow> bool" where
  "is_unique_error e = (case e of Some (UniqueFailed _) \<Rightarrow> True | Some (DbFail m) \<Rightarrow> contains m ''UNIQUE constraint failed'' | _ \<Rightarrow> False)"

text \<open>
  \<open>retrySQLiteSequence\<close>: \<open>ctx i\<close> is the context's error before attempt \<open>i\<close>; an attempt is one
  transaction over the state and returns its error. A failing attempt has rolled back, so its state
  is what other writers see, but the clock has moved.
\<close>

definition retry_limit :: nat where "retry_limit = 4"

fun retry_from :: "nat \<Rightarrow> (nat \<Rightarrow> string option) \<Rightarrow> ('s \<Rightarrow> store_error option \<times> 'b \<times> 's) \<Rightarrow> nat \<Rightarrow>
    (store_error option \<times> 'b) \<Rightarrow> 's \<Rightarrow> (store_error option \<times> 'b) \<times> 's" where
  "retry_from i ctx fn 0 prev s = (prev, s)"
| "retry_from i ctx fn (Suc n) prev s =
     (case ctx i of
        Some m \<Rightarrow> ((Some (CtxErr m), snd prev), s)
      | None \<Rightarrow>
          (case fn s of (e, x, s') \<Rightarrow>
             if is_unique_error e then retry_from (Suc i) ctx fn n (e, x) s' else ((e, x), s')))"

definition retry_sequence :: "(nat \<Rightarrow> string option) \<Rightarrow> ('s \<Rightarrow> store_error option \<times> 'b \<times> 's) \<Rightarrow> 'b \<Rightarrow> 's \<Rightarrow>
    (store_error option \<times> 'b) \<times> 's" where
  "retry_sequence ctx fn dflt s = retry_from 0 ctx fn retry_limit (None, dflt) s"

text \<open>
  What a retried transaction returns is what one of its attempts returned, from a state that satisfies
  whatever the failed attempts before it kept; or the context's error.
\<close>

lemma retry_from_attempt:
  assumes "\<And>s e x s'. P s \<Longrightarrow> fn s = (e, x, s') \<Longrightarrow> is_unique_error e \<Longrightarrow> P s'" and "P s"
    and "retry_from i ctx fn (Suc n) prev s = ((e, x), s')"
  shows "(\<exists>s0. P s0 \<and> fn s0 = (e, x, s')) \<or> (P s' \<and> (\<exists>m. e = Some (CtxErr m)))"
  using assms(2,3)
proof (induction n arbitrary: i prev s)
  case (0 i prev s)
  obtain e1 x1 s1 where f: "fn s = (e1, x1, s1)" by (metis prod_cases3)
  with 0 show ?case by (auto split: option.splits if_splits)
next
  case (Suc n i prev s)
  obtain e1 x1 s1 where f: "fn s = (e1, x1, s1)" by (metis prod_cases3)
  show ?case
  proof (cases "ctx i")
    case (Some m)
    with Suc.prems show ?thesis by auto
  next
    case None
    show ?thesis
    proof (cases "is_unique_error e1")
      case True
      have "P s1" using assms(1) [OF Suc.prems(1) f True] .
      moreover have "retry_from (Suc i) ctx fn (Suc n) (e1, x1) s1 = ((e, x), s')"
        using Suc.prems(2) None f True by (simp del: retry_from.simps(2) add: retry_from.simps(2) [of i])
      ultimately show ?thesis by (rule Suc.IH)
    next
      case False
      with Suc.prems None f show ?thesis by auto
    qed
  qed
qed

lemma retry_sequence_attempt:
  assumes "\<And>s e x s'. P s \<Longrightarrow> fn s = (e, x, s') \<Longrightarrow> is_unique_error e \<Longrightarrow> P s'" and "P s"
    and "retry_sequence ctx fn dflt s = ((e, x), s')"
  shows "(\<exists>s0. P s0 \<and> fn s0 = (e, x, s')) \<or> (P s' \<and> (\<exists>m. e = Some (CtxErr m)))"
  using assms(3) unfolding retry_sequence_def retry_limit_def
  by (intro retry_from_attempt [where n = 3]) (auto simp: assms(2) numeral_eq_Suc intro: assms(1))

lemma retry_sequence_inv:
  assumes "\<And>s e x s'. P s \<Longrightarrow> fn s = (e, x, s') \<Longrightarrow> P s'" and "P s"
    and "retry_sequence ctx fn dflt s = (r, s')"
  shows "P s'"
proof -
  obtain e x where "r = (e, x)" by fastforce
  with assms(3) have "retry_sequence ctx fn dflt s = ((e, x), s')" by simp
  from retry_sequence_attempt [where P = P, OF _ assms(2) this] assms(1) show ?thesis by blast
qed

subsection \<open>Ordering and paging of query results\<close>

text \<open>
  \<open>ORDER BY t DESC\<close> on a text column compares bytes. Rows with equal keys keep their rowid order
  here; SQLite leaves that order open, and nothing below depends on it.
\<close>

definition sort_desc :: "('a \<Rightarrow> 'k::linorder) \<Rightarrow> 'a list \<Rightarrow> 'a list" where
  "sort_desc f xs = rev (sort_key f (rev xs))"

lemma mset_sort_desc [simp]: "mset (sort_desc f xs) = mset xs"
  by (simp add: sort_desc_def)

lemma set_sort_desc [simp]: "set (sort_desc f xs) = set xs"
  by (simp add: sort_desc_def)

lemma length_sort_desc [simp]: "length (sort_desc f xs) = length xs"
  by (simp add: sort_desc_def)

lemma sorted_sort_desc: "sorted_wrt (\<lambda>a b. f b \<le> f a) (sort_desc f xs)"
proof -
  have "sorted_wrt (\<lambda>a b. f a \<le> f b) (sort_key f (rev xs))"
    using sorted_sort_key [of f "rev xs"] by (simp add: sorted_wrt_map)
  then show ?thesis by (simp add: sort_desc_def sorted_wrt_rev)
qed

definition page :: "int \<Rightarrow> int \<Rightarrow> 'a list \<Rightarrow> 'a list" where
  "page lim off xs = take (nat lim) (drop (nat off) xs)"

definition default_limit :: "int \<Rightarrow> int \<Rightarrow> int" where
  "default_limit dflt n = (if n \<le> 0 then dflt else n)"

lemma set_page: "set (page l n xs) \<subseteq> set xs"
  unfolding page_def by (meson order_trans set_drop_subset set_take_subset)

lemma length_page: "length (page l n xs) \<le> nat l"
  by (simp add: page_def)

lemma page_append:
  assumes "0 \<le> l" and "0 \<le> n"
  shows "page l n xs @ page l (n + l) xs = page (2 * l) n xs"
proof -
  have "nat (n + l) = nat l + nat n" "nat (2 * l) = nat l + nat l" using assms by auto
  then show ?thesis by (simp add: page_def take_add drop_drop)
qed

end
