(* ===== verification/Run_Store.thy ===== *)
theory Run_Store
  imports Session_Types
begin

section \<open>Package session: the run tables of the SQLite store\<close>

text \<open>
  The part of \<open>session/sqlite_store.go\<close> behind \<open>RunStore\<close>, \<open>RunEventStore\<close>,
  \<open>RunSnapshotStore\<close> and \<open>RunClaimStore\<close>: the tables \<open>runs\<close> and \<open>run_events\<close>. A write returns
  the error, the value the Go function returns beside it, and the new tables; a failing statement leaves
  the tables as they were, since every caller rolls its transaction back.
\<close>

type_synonym ctx = "nat \<Rightarrow> string option"

subsection \<open>Normalisation\<close>

definition normalize_run :: "run \<Rightarrow> world \<Rightarrow> run \<times> world" where
  "normalize_run r w =
     (let (t, w1) = now w;
          (r1, w2) = (if r_id r = [] then (let (i, w') = new_id ''run'' w1 in (r\<lparr>r_id := i\<rparr>, w')) else (r, w1));
          r2 = (if r_status r1 = [] then r1\<lparr>r_status := ''queued''\<rparr> else r1);
          r3 = (if is_zero (r_created r2) then r2\<lparr>r_created := t\<rparr> else r2)
      in (r3\<lparr>r_updated := t\<rparr>, w2))"

definition normalize_run_event :: "run_event \<Rightarrow> world \<Rightarrow> run_event \<times> world" where
  "normalize_run_event ev w =
     (let (ev1, w1) = (if re_id ev = [] then (let (i, w') = new_id ''runev'' w in (ev\<lparr>re_id := i\<rparr>, w')) else (ev, w));
          ev2 = (if re_run_id ev1 = [] then ev1\<lparr>re_run_id := r_id (re_run ev1)\<rparr> else ev1);
          ev3 = (if re_type ev2 = [] then ev2\<lparr>re_type := ''run.'' @ r_status (re_run ev2)\<rparr> else ev2)
      in if is_zero (re_at ev3) then (let (t, w2) = now w1 in (ev3\<lparr>re_at := t\<rparr>, w2)) else (ev3, w1))"

lemma normalize_run_id: "r_id r \<noteq> [] \<Longrightarrow> r_id (fst (normalize_run r w)) = r_id r"
  by (simp add: normalize_run_def Let_def split: prod.splits)

lemma normalize_run_id_nonempty: "r_id (fst (normalize_run r w)) \<noteq> []"
  by (auto simp: normalize_run_def Let_def split: prod.splits)

lemma normalize_run_fields:
  "r_session (fst (normalize_run r w)) = r_session r"
  "r_status (fst (normalize_run r w)) = (if r_status r = [] then ''queued'' else r_status r)"
  "r_metadata (fst (normalize_run r w)) = r_metadata r"
  by (auto simp: normalize_run_def Let_def split: prod.splits)

lemma normalize_run_event_fields:
  "re_run (fst (normalize_run_event ev w)) = re_run ev"
  "re_seq (fst (normalize_run_event ev w)) = re_seq ev"
  "re_run_id (fst (normalize_run_event ev w)) = (if re_run_id ev = [] then r_id (re_run ev) else re_run_id ev)"
  "re_type (fst (normalize_run_event ev w)) =
     (if re_type ev = [] then ''run.'' @ r_status (re_run ev) else re_type ev)"
  "re_id (fst (normalize_run_event ev w)) \<noteq> []"
  by (cases "re_id ev = []"; cases "re_run_id ev = []"; cases "re_type ev = []"; cases "re_at ev = 0";
      simp add: normalize_run_event_def Let_def split_beta)+

subsection \<open>Statements on the two tables\<close>

definition find_run :: "db \<Rightarrow> string \<Rightarrow> run option" where
  "find_run d i = find (\<lambda>r. r_id r = i) (t_runs d)"

text \<open>\<open>INSERT INTO runs ... ON CONFLICT(id) DO UPDATE\<close>: every column but \<open>created_at\<close> is replaced.\<close>

definition replace_run :: "run \<Rightarrow> run \<Rightarrow> run" where
  "replace_run r x = (if r_id x = r_id r then r\<lparr>r_created := r_created x\<rparr> else x)"

definition save_run_row :: "run \<Rightarrow> db \<Rightarrow> store_error option \<times> db" where
  "save_run_row r d =
     (if \<not> has_session d (r_session r) then (Some ForeignKeyFailed, d)
      else if find_run d (r_id r) = None then (None, d\<lparr>t_runs := t_runs d @ [r]\<rparr>)
      else (None, d\<lparr>t_runs := map (replace_run r) (t_runs d)\<rparr>))"

text \<open>\<open>INSERT INTO runs ... ON CONFLICT(id) DO NOTHING\<close>, and whether a row was inserted.\<close>

definition insert_run_if_absent :: "run \<Rightarrow> db \<Rightarrow> (store_error + bool) \<times> db" where
  "insert_run_if_absent r d =
     (if find_run d (r_id r) \<noteq> None then (Inr False, d)
      else if \<not> has_session d (r_session r) then (Inl ForeignKeyFailed, d)
      else (Inr True, d\<lparr>t_runs := t_runs d @ [r]\<rparr>))"

definition run_log :: "db \<Rightarrow> string \<Rightarrow> run_event list" where
  "run_log d i = filter (\<lambda>e. re_run_id e = i) (t_run_events d)"

definition next_run_seq :: "db \<Rightarrow> string \<Rightarrow> int" where
  "next_run_seq d i = (case run_log d i of [] \<Rightarrow> 0 | es \<Rightarrow> Max (set (map re_seq es))) + 1"

definition append_run_event_row :: "run_event \<Rightarrow> db \<Rightarrow> store_error option \<times> run_event \<times> db" where
  "append_run_event_row ev d =
     (let ev1 = (if re_seq ev \<le> 0 then ev\<lparr>re_seq := next_run_seq d (re_run_id ev)\<rparr> else ev)
      in if list_ex (\<lambda>e. re_id e = re_id ev1) (t_run_events d)
         then (Some (UniqueFailed ''run_events.id''), ev1, d)
         else if list_ex (\<lambda>e. re_run_id e = re_run_id ev1 \<and> re_seq e = re_seq ev1) (t_run_events d)
         then (Some (UniqueFailed ''run_events.run_id, run_events.seq''), ev1, d)
         else if find_run d (re_run_id ev1) = None then (Some ForeignKeyFailed, ev1, d)
         else (None, ev1, d\<lparr>t_run_events := t_run_events d @ [ev1]\<rparr>))"

definition load_run_row :: "db \<Rightarrow> string \<Rightarrow> store_error + run" where
  "load_run_row d i = (case find_run d i of None \<Rightarrow> Inl (StoreErr ''run not found'') | Some r \<Rightarrow> Inr r)"

subsection \<open>The operations\<close>

definition sq_save_run :: "ctx \<Rightarrow> run \<Rightarrow> db \<times> world \<Rightarrow> (store_error option \<times> run) \<times> db \<times> world" where
  "sq_save_run c r s =
     (let (d, w) = s; (r1, w1) = normalize_run r w; (e, d1) = save_run_row r1 d in ((e, r1), d1, w1))"

definition save_with_event_tx :: "run \<Rightarrow> run_event \<Rightarrow> db \<Rightarrow> store_error option \<times> run_event \<times> db" where
  "save_with_event_tx r ev d =
     (case save_run_row r d of
        (Some e, _) \<Rightarrow> (Some e, ev, d)
      | (None, d1) \<Rightarrow>
          (case append_run_event_row ev d1 of
             (Some e, _, _) \<Rightarrow> (Some e, ev, d)
           | (None, ev1, d2) \<Rightarrow> (None, ev1, d2)))"

definition sq_save_run_with_event ::
  "ctx \<Rightarrow> run \<Rightarrow> run_event \<Rightarrow> db \<times> world \<Rightarrow> (store_error option \<times> run \<times> run_event) \<times> db \<times> world" where
  "sq_save_run_with_event c r ev s =
     (let (d, w) = s;
          (r1, w1) = normalize_run r w;
          (ev1, w2) = normalize_run_event (ev\<lparr>re_run := r1\<rparr>) w1;
          ((e, saved), d1) = retry_sequence c (save_with_event_tx r1 ev1) ev1 d
      in case e of
           Some e' \<Rightarrow> ((Some e', r1, ev1), d1, w2)
         | None \<Rightarrow> ((None, r1, saved), d1, w2))"

definition claim_tx ::
  "run \<Rightarrow> run_event \<Rightarrow> db \<Rightarrow> store_error option \<times> (run \<times> run_event \<times> bool) \<times> db" where
  "claim_tx r ev d =
     (case insert_run_if_absent r d of
        (Inl e, _) \<Rightarrow> (Some e, (r, ev, False), d)
      | (Inr False, _) \<Rightarrow>
          (case load_run_row d (r_id r) of
             Inl e \<Rightarrow> (Some e, (r, ev, False), d)
           | Inr existing \<Rightarrow> (None, (existing, zero_run_event, False), d))
      | (Inr True, d1) \<Rightarrow>
          (case append_run_event_row ev d1 of
             (Some e, _, _) \<Rightarrow> (Some e, (r, ev, False), d)
           | (None, ev1, d2) \<Rightarrow> (None, (r, ev1, True), d2)))"

definition sq_claim_run_with_event ::
  "ctx \<Rightarrow> run \<Rightarrow> run_event \<Rightarrow> db \<times> world \<Rightarrow>
     (store_error option \<times> run \<times> run_event \<times> bool) \<times> db \<times> world" where
  "sq_claim_run_with_event c r ev s =
     (let (d, w) = s;
          (r1, w1) = normalize_run r w;
          (ev1, w2) = normalize_run_event (ev\<lparr>re_run := r1\<rparr>) w1;
          ((e, x), d1) = retry_sequence c (claim_tx r1 ev1) (r1, ev1, False) d
      in case e of
           Some e' \<Rightarrow> ((Some e', r1, ev1, False), d1, w2)
         | None \<Rightarrow> ((None, x), d1, w2))"

definition sq_append_run_event ::
  "ctx \<Rightarrow> run_event \<Rightarrow> db \<times> world \<Rightarrow> (store_error option \<times> run_event) \<times> db \<times> world" where
  "sq_append_run_event c ev s =
     (let (d, w) = s;
          (ev1, w1) = normalize_run_event ev w;
          ((e, saved), d1) = retry_sequence c (append_run_event_row ev1) ev1 d
      in case e of
           Some e' \<Rightarrow> ((Some e', ev1), d1, w1)
         | None \<Rightarrow> ((None, saved), d1, w1))"

definition sq_load_run :: "string \<Rightarrow> db \<Rightarrow> store_error + run" where
  "sq_load_run i d = load_run_row d i"

text \<open>\<open>json_extract(metadata, '$.key') = ?\<close> is NULL, so not true, when the key is absent.\<close>

definition run_where :: "run_query \<Rightarrow> run \<Rightarrow> bool" where
  "run_where q r \<longleftrightarrow>
     (rq_session q \<noteq> [] \<longrightarrow> r_session r = rq_session q) \<and>
     (rq_turn q \<noteq> [] \<longrightarrow> r_turn r = rq_turn q) \<and>
     (rq_status q \<noteq> [] \<longrightarrow> r_status r = rq_status q) \<and>
     (rq_provider q \<noteq> [] \<longrightarrow> r_provider r = rq_provider q) \<and>
     (rq_model q \<noteq> [] \<longrightarrow> r_model r = rq_model q) \<and>
     (rq_request_id q \<noteq> [] \<longrightarrow> map_of (r_metadata r) RequestIDMetadataKey = Some (rq_request_id q)) \<and>
     (rq_idempotency q \<noteq> [] \<longrightarrow> map_of (r_metadata r) IdempotencyMetadataKey = Some (rq_idempotency q))"

definition sq_list_runs :: "run_query \<Rightarrow> db \<Rightarrow> store_error + run list" where
  "sq_list_runs q d =
     Inr (page (default_limit 50 (rq_limit q)) (rq_offset q)
           (sort_desc (\<lambda>r. rfc3339nano (r_updated r)) (filter (run_where q) (t_runs d))))"

definition sq_count_runs :: "run_query \<Rightarrow> db \<Rightarrow> store_error + int" where
  "sq_count_runs q d = Inr (int (length (filter (run_where q) (t_runs d))))"

definition sq_list_run_events :: "run_event_query \<Rightarrow> db \<Rightarrow> store_error + run_event list" where
  "sq_list_run_events q d =
     Inr (take (nat (default_limit 200 (req_limit q)))
           (sort_key re_seq
             (filter (\<lambda>e. re_run_id e = req_run_id q \<and> (0 < req_after q \<longrightarrow> req_after q < re_seq e) \<and>
                        (req_type q \<noteq> [] \<longrightarrow> re_type e = req_type q)) (t_run_events d))))"

subsection \<open>What one statement does\<close>

lemma find_run_None: "find_run d i = None \<longleftrightarrow> i \<notin> r_id ` set (t_runs d)"
  by (auto simp: find_run_def find_None_iff)

lemma find_run_Some: "find_run d i = Some r \<Longrightarrow> r \<in> set (t_runs d) \<and> r_id r = i"
  by (auto simp: find_run_def find_Some_iff)

lemma find_run_cong: "t_runs d' = t_runs d \<Longrightarrow> find_run d' = find_run d"
  by (rule ext) (simp add: find_run_def)

lemma has_session_cong: "t_sessions d' = t_sessions d \<Longrightarrow> has_session d' = has_session d"
  by (rule ext) (simp add: has_session_def)

lemma find_append: "find P (xs @ ys) = (case find P xs of Some x \<Rightarrow> Some x | None \<Rightarrow> find P ys)"
  by (induction xs) auto

lemma find_map_update:
  "find (\<lambda>x. r_id x = i) (map (replace_run r) xs) =
     map_option (replace_run r) (find (\<lambda>x. r_id x = i) xs)"
  by (induction xs) (auto simp: replace_run_def)

lemma replace_run_id [simp]: "r_id (replace_run r x) = r_id x"
  by (simp add: replace_run_def)

lemma replace_run_ids [simp]: "map r_id (map (replace_run r) xs) = map r_id xs"
  by simp

lemma save_run_row_cases:
  assumes "save_run_row r d = (None, d')"
  obtains (insert) "has_session d (r_session r)" "find_run d (r_id r) = None"
      "d' = d\<lparr>t_runs := t_runs d @ [r]\<rparr>"
    | (replace) old where "has_session d (r_session r)" "find_run d (r_id r) = Some old"
      "d' = d\<lparr>t_runs := map (replace_run r) (t_runs d)\<rparr>"
  using assms by (auto simp: save_run_row_def split: if_splits)

text \<open>What a saved run reads back as: the saved value, but for the first \<open>created_at\<close>.\<close>

definition stored_as :: "db \<Rightarrow> run \<Rightarrow> run" where
  "stored_as d r = (case find_run d (r_id r) of None \<Rightarrow> r | Some old \<Rightarrow> r\<lparr>r_created := r_created old\<rparr>)"

lemma save_run_row_lookup:
  assumes "save_run_row r d = (None, d')"
  shows "find_run d' i = (if i = r_id r then Some (stored_as d r) else find_run d i)"
  using assms
proof (cases rule: save_run_row_cases)
  case insert
  then show ?thesis by (auto simp: find_run_def find_append stored_as_def split: option.splits)
next
  case (replace old)
  have "find_run d' i = map_option (replace_run r) (find_run d i)"
    by (simp add: find_run_def replace find_map_update)
  then show ?thesis
    using replace(2) find_run_Some [of d i] by (cases "find_run d i") (auto simp: stored_as_def replace_run_def)
qed

lemma save_run_row_frame:
  "save_run_row r d = (e, d') \<Longrightarrow>
     t_sessions d' = t_sessions d \<and> t_run_events d' = t_run_events d \<and> (e \<noteq> None \<longrightarrow> d' = d)"
  by (auto simp: save_run_row_def split: if_splits)

lemma save_run_row_ids:
  assumes "save_run_row r d = (None, d')"
  shows "r_id ` set (t_runs d') = insert (r_id r) (r_id ` set (t_runs d))"
  using assms
proof (cases rule: save_run_row_cases)
  case (replace old)
  then have "\<not> find_run d (r_id r) = None" by simp
  then have "r_id r \<in> r_id ` set (t_runs d)" by (simp only: find_run_None not_not)
  with replace show ?thesis by (auto simp: image_image)
qed auto

lemma save_run_row_ok:
  assumes "run_tables_ok d" and "save_run_row r d = (e, d')"
  shows "run_tables_ok d'"
proof (cases "e = None")
  case False
  then show ?thesis using assms save_run_row_frame by blast
next
  case True
  with assms(2) have s: "save_run_row r d = (None, d')" by simp
  have "t_sessions d' = t_sessions d" "t_run_events d' = t_run_events d"
    using save_run_row_frame [OF s] by auto
  moreover from this have "has_session d' = has_session d" by (intro has_session_cong)
  moreover have "distinct (map r_id (t_runs d')) \<and> (\<forall>x\<in>set (t_runs d'). has_session d (r_session x))"
    using s
  proof (cases rule: save_run_row_cases)
    case insert
    then show ?thesis using assms(1) by (auto simp: run_tables_ok_def find_run_None list_all_iff)
  next
    case (replace old)
    then have "map r_id (t_runs d') = map r_id (t_runs d)" by simp
    moreover have "has_session d (r_session x)" if "x \<in> set (t_runs d')" for x
      using that replace assms(1) by (auto simp: run_tables_ok_def list_all_iff replace_run_def)
    ultimately show ?thesis using assms(1) by (simp only: run_tables_ok_def) blast
  qed
  ultimately show ?thesis
    using assms(1) save_run_row_ids [OF s] by (auto simp: run_tables_ok_def list_all_iff)
qed

lemma insert_run_if_absent_cases:
  "insert_run_if_absent r d = (x, d') \<Longrightarrow>
     (find_run d (r_id r) \<noteq> None \<and> x = Inr False \<and> d' = d) \<or>
     (find_run d (r_id r) = None \<and> x = Inl ForeignKeyFailed \<and> d' = d) \<or>
     (find_run d (r_id r) = None \<and> x = Inr True \<and> save_run_row r d = (None, d'))"
  by (auto simp: insert_run_if_absent_def save_run_row_def split: if_splits)

lemma run_log_append: "run_log (d\<lparr>t_run_events := t_run_events d @ [ev]\<rparr>) i =
    run_log d i @ (if re_run_id ev = i then [ev] else [])"
  by (simp add: run_log_def)

definition assigned_seq :: "run_event \<Rightarrow> db \<Rightarrow> run_event" where
  "assigned_seq ev d = (if re_seq ev \<le> 0 then ev\<lparr>re_seq := next_run_seq d (re_run_id ev)\<rparr> else ev)"

lemma append_run_event_row_ok:
  "append_run_event_row ev d = (None, ev1, d') \<longleftrightarrow>
     ev1 = assigned_seq ev d \<and> d' = d\<lparr>t_run_events := t_run_events d @ [ev1]\<rparr> \<and>
     re_id ev1 \<notin> re_id ` set (t_run_events d) \<and>
     (re_run_id ev1, re_seq ev1) \<notin> (\<lambda>e. (re_run_id e, re_seq e)) ` set (t_run_events d) \<and>
     find_run d (re_run_id ev1) \<noteq> None"
proof -
  have a: "list_ex (\<lambda>e. re_id e = i) xs \<longleftrightarrow> i \<in> re_id ` set xs" for i xs
    by (auto simp: list_ex_iff)
  have b: "list_ex (\<lambda>e. re_run_id e = i \<and> re_seq e = n) xs \<longleftrightarrow>
      (i, n) \<in> (\<lambda>e. (re_run_id e, re_seq e)) ` set xs" for i n xs
    by (auto simp: list_ex_iff)
  show ?thesis
    unfolding append_run_event_row_def assigned_seq_def [symmetric] Let_def a b by auto
qed

lemma append_run_event_row_err:
  "append_run_event_row ev d = (Some e, ev1, d') \<Longrightarrow> d' = d"
  by (auto simp: append_run_event_row_def Let_def split: if_splits)

lemma append_run_event_row_tables:
  assumes "run_tables_ok d" and "append_run_event_row ev d = (e, ev1, d')"
  shows "run_tables_ok d'"
proof (cases e)
  case None
  then show ?thesis
    using assms append_run_event_row_ok [of ev d ev1 d'] has_session_cong [of d' d]
    by (auto simp: run_tables_ok_def find_run_None list_all_iff)
next
  case (Some x)
  then show ?thesis using assms append_run_event_row_err by blast
qed

lemma next_run_seq_gt:
  assumes "e \<in> set (run_log d i)"
  shows "re_seq e < next_run_seq d i"
proof -
  have "next_run_seq d i = Max (re_seq ` set (run_log d i)) + 1"
    using assms by (auto simp: next_run_seq_def split: list.splits)
  moreover have "re_seq e \<le> Max (re_seq ` set (run_log d i))" using assms by simp
  ultimately show ?thesis by simp
qed

text \<open>
  An appended event always gets the next sequence number of its run, so only a repeated event id or a
  missing run can reject it.
\<close>

lemma append_run_event_row_fresh:
  assumes "re_seq ev \<le> 0" and "re_id ev \<notin> re_id ` set (t_run_events d)" and "find_run d (re_run_id ev) \<noteq> None"
  shows "append_run_event_row ev d =
    (None, assigned_seq ev d, d\<lparr>t_run_events := t_run_events d @ [assigned_seq ev d]\<rparr>)"
proof -
  let ?ev = "assigned_seq ev d"
  have "(re_run_id ?ev, re_seq ?ev) \<notin> (\<lambda>e. (re_run_id e, re_seq e)) ` set (t_run_events d)"
    using assms(1) next_run_seq_gt [of _ d "re_run_id ev"] by (fastforce simp: assigned_seq_def run_log_def)
  then show ?thesis using assms unfolding append_run_event_row_ok by (simp add: assigned_seq_def)
qed

subsection \<open>What a transaction does\<close>

lemma save_with_event_tx_ok:
  "run_tables_ok d \<Longrightarrow> save_with_event_tx r ev d = (e, x, d') \<Longrightarrow> run_tables_ok d'"
  by (auto simp: save_with_event_tx_def split: prod.splits option.splits
      dest: save_run_row_ok append_run_event_row_tables)

lemma claim_tx_ok: "run_tables_ok d \<Longrightarrow> claim_tx r ev d = (e, x, d') \<Longrightarrow> run_tables_ok d'"
  by (auto simp: claim_tx_def split: prod.splits option.splits sum.splits bool.splits
      dest!: insert_run_if_absent_cases dest: save_run_row_ok append_run_event_row_tables)

lemma save_with_event_tx_fail: "save_with_event_tx r ev d = (Some e, x, d') \<Longrightarrow> d' = d"
  by (auto simp: save_with_event_tx_def split: prod.splits option.splits)

lemma claim_tx_fail: "claim_tx r ev d = (Some e, x, d') \<Longrightarrow> d' = d"
  by (auto simp: claim_tx_def split: prod.splits option.splits sum.splits bool.splits)

lemma is_unique_errorE: "is_unique_error e \<Longrightarrow> (\<And>e'. e = Some e' \<Longrightarrow> P) \<Longrightarrow> P"
  by (cases e) (auto simp: is_unique_error_def)

text \<open>
  A retried transaction whose failures leave the tables alone either succeeded once on the tables it
  was given, or left them as they were.
\<close>

lemma retry_tx:
  assumes "\<And>d e x d'. fn d = (Some e, x, d') \<Longrightarrow> d' = d"
    and "retry_sequence c fn dflt d = ((e, x), d')"
  shows "fn d = (e, x, d') \<or> (d' = d \<and> (\<exists>m. e = Some (CtxErr m)))"
proof -
  have "(\<exists>s0. s0 = d \<and> fn s0 = (e, x, d')) \<or> (d' = d \<and> (\<exists>m. e = Some (CtxErr m)))"
  proof (rule retry_sequence_attempt [where P = "\<lambda>s. s = d", OF _ refl assms(2)])
    fix s e x s'
    assume "s = d" "fn s = (e, x, s')" "is_unique_error e"
    then show "s' = d" using assms(1) by (auto elim: is_unique_errorE)
  qed
  then show ?thesis by blast
qed

lemma sq_save_run_with_event_cases:
  assumes "sq_save_run_with_event c r ev (d, w) = ((e, r', ev'), d', w')"
  obtains (failed) e' where "e = Some e'" "d' = d"
    | (saved) w1 w2 d1 ev1 where "e = None" "normalize_run r w = (r', w1)"
        "normalize_run_event (ev\<lparr>re_run := r'\<rparr>) w1 = (ev1, w2)" "save_run_row r' d = (None, d1)"
        "append_run_event_row ev1 d1 = (None, ev', d')"
proof -
  obtain r1 w1 where n: "normalize_run r w = (r1, w1)" by fastforce
  obtain ev1 w2 where m: "normalize_run_event (ev\<lparr>re_run := r1\<rparr>) w1 = (ev1, w2)" by fastforce
  obtain e1 x d1 where q: "retry_sequence c (save_with_event_tx r1 ev1) ev1 d = ((e1, x), d1)"
    by (metis prod.collapse)
  have tx: "save_with_event_tx r1 ev1 d = (e1, x, d1) \<or> (d1 = d \<and> (\<exists>m. e1 = Some (CtxErr m)))"
    by (rule retry_tx [OF _ q]) (rule save_with_event_tx_fail)
  show thesis
  proof (cases e1)
    case (Some e')
    with tx have "d1 = d" using save_with_event_tx_fail [of r1 ev1 d e' x d1] by auto
    then show thesis using failed [of e'] assms n m q Some by (auto simp: sq_save_run_with_event_def)
  next
    case None
    with tx have "save_with_event_tx r1 ev1 d = (None, x, d1)" by simp
    then obtain d2 where "save_run_row r1 d = (None, d2)" "append_run_event_row ev1 d2 = (None, x, d1)"
      by (auto simp: save_with_event_tx_def split: prod.splits option.splits)
    then show thesis using saved assms n m q None by (simp add: sq_save_run_with_event_def)
  qed
qed

lemma sq_claim_cases:
  assumes "sq_claim_run_with_event c r ev (d, w) = ((e, r', ev', claimed), d', w')"
  obtains (failed) e' where "e = Some e'" "d' = d" "claimed = False"
    | (present) w1 where "e = None" "find_run d (r_id (fst (normalize_run r w))) = Some r'" "d' = d"
        "claimed = False"
    | (claimed) w1 w2 d1 ev1 where "e = None" "claimed = True" "normalize_run r w = (r', w1)"
        "find_run d (r_id r') = None"
        "normalize_run_event (ev\<lparr>re_run := r'\<rparr>) w1 = (ev1, w2)" "save_run_row r' d = (None, d1)"
        "append_run_event_row ev1 d1 = (None, ev', d')"
proof -
  obtain r1 w1 where n: "normalize_run r w = (r1, w1)" by fastforce
  obtain ev1 w2 where m: "normalize_run_event (ev\<lparr>re_run := r1\<rparr>) w1 = (ev1, w2)" by fastforce
  obtain e1 x d1 where q: "retry_sequence c (claim_tx r1 ev1) (r1, ev1, False) d = ((e1, x), d1)"
    by (metis prod.collapse)
  have tx: "claim_tx r1 ev1 d = (e1, x, d1) \<or> (d1 = d \<and> (\<exists>m. e1 = Some (CtxErr m)))"
    by (rule retry_tx [OF _ q]) (rule claim_tx_fail)
  show thesis
  proof (cases e1)
    case (Some e')
    with tx have "d1 = d" using claim_tx_fail [of r1 ev1 d e' x d1] by auto
    then show thesis using failed [of e'] assms n m q Some by (auto simp: sq_claim_run_with_event_def)
  next
    case None
    with tx have t: "claim_tx r1 ev1 d = (None, x, d1)" by simp
    from None assms n m q have out: "e = None" "(r', ev', claimed) = x" "d' = d1"
      by (simp_all add: sq_claim_run_with_event_def)
    obtain y d2 where i: "insert_run_if_absent r1 d = (y, d2)" by fastforce
    from insert_run_if_absent_cases [OF i] show thesis
    proof (elim disjE conjE)
      assume "find_run d (r_id r1) \<noteq> None" "y = Inr False" "d2 = d"
      then show thesis using t i out n present
        by (auto simp: claim_tx_def load_run_row_def split: option.splits)
    next
      assume "y = Inl ForeignKeyFailed"
      then show thesis using t i by (simp add: claim_tx_def)
    next
      assume f: "find_run d (r_id r1) = None" and y: "y = Inr True" and s: "save_run_row r1 d = (None, d2)"
      with t i obtain ev2 where a: "append_run_event_row ev1 d2 = (None, ev2, d1)" and x: "x = (r1, ev2, True)"
        by (auto simp: claim_tx_def split: prod.splits option.splits)
      show thesis using claimed [of w1 ev1 w2 d2] out n m f s a x by simp
    qed
  qed
qed

lemma sq_append_cases:
  assumes "sq_append_run_event c ev (d, w) = ((e, ev'), d', w')"
  obtains (failed) e' where "e = Some e'" "d' = d"
    | (appended) w1 ev1 where "e = None" "normalize_run_event ev w = (ev1, w1)"
        "append_run_event_row ev1 d = (None, ev', d')"
proof -
  obtain ev1 w1 where n: "normalize_run_event ev w = (ev1, w1)" by fastforce
  obtain e1 x d1 where q: "retry_sequence c (append_run_event_row ev1) ev1 d = ((e1, x), d1)"
    by (metis prod.collapse)
  have tx: "append_run_event_row ev1 d = (e1, x, d1) \<or> (d1 = d \<and> (\<exists>m. e1 = Some (CtxErr m)))"
    by (rule retry_tx [OF _ q]) (rule append_run_event_row_err)
  show thesis
    using failed appended assms n q tx append_run_event_row_err [of ev1 d]
    by (cases e1) (auto simp: sq_append_run_event_def)
qed

subsection \<open>The tables stay well formed\<close>

lemma sq_save_run_ok:
  "run_tables_ok d \<Longrightarrow> sq_save_run c r (d, w) = (x, d', w') \<Longrightarrow> run_tables_ok d'"
  by (auto simp: sq_save_run_def split: prod.splits dest: save_run_row_ok)

lemma sq_save_run_with_event_ok:
  assumes "run_tables_ok d" and "sq_save_run_with_event c r ev (d, w) = (x, d', w')"
  shows "run_tables_ok d'"
proof -
  obtain e r' ev' where "x = (e, r', ev')" by (metis prod_cases3)
  with assms(2) have "sq_save_run_with_event c r ev (d, w) = ((e, r', ev'), d', w')" by simp
  then show ?thesis
    using assms(1)
    by (cases rule: sq_save_run_with_event_cases) (auto dest: save_run_row_ok append_run_event_row_tables)
qed

lemma sq_claim_ok:
  assumes "run_tables_ok d" and "sq_claim_run_with_event c r ev (d, w) = (x, d', w')"
  shows "run_tables_ok d'"
proof -
  obtain e r' ev' cl where "x = (e, r', ev', cl)" by (metis prod_cases4)
  with assms(2) have "sq_claim_run_with_event c r ev (d, w) = ((e, r', ev', cl), d', w')" by simp
  then show ?thesis
    using assms(1)
    by (cases rule: sq_claim_cases) (auto dest: save_run_row_ok append_run_event_row_tables)
qed

lemma sq_append_ok:
  assumes "run_tables_ok d" and "sq_append_run_event c ev (d, w) = (x, d', w')"
  shows "run_tables_ok d'"
proof -
  obtain e ev' where "x = (e, ev')" by fastforce
  with assms(2) have "sq_append_run_event c ev (d, w) = ((e, ev'), d', w')" by simp
  then show ?thesis
    using assms(1) by (cases rule: sq_append_cases) (auto dest: append_run_event_row_tables)
qed

subsection \<open>Sequence numbers of a run's log\<close>

text \<open>
  A log whose events were all appended without a sequence number of their own is numbered
  1, 2, 3, ... in insertion order; this is what the gateway does.
\<close>

definition dense_log :: "db \<Rightarrow> string \<Rightarrow> bool" where
  "dense_log d i \<longleftrightarrow> map re_seq (run_log d i) = map int [1..<Suc (length (run_log d i))]"

lemma next_run_seq_dense:
  assumes "dense_log d i"
  shows "next_run_seq d i = int (length (run_log d i)) + 1"
proof (cases "run_log d i")
  case (Cons e es)
  let ?n = "length (run_log d i)"
  have "set (map re_seq (run_log d i)) = int ` {1..<Suc ?n}"
    using assms unfolding dense_log_def by (metis list.set_map set_upt)
  moreover have "Max (int ` {1..<Suc ?n}) = int ?n"
    using Cons by (intro Max_eqI) (auto intro!: image_eqI [of _ int ?n])
  ultimately show ?thesis using Cons by (simp add: next_run_seq_def)
qed (simp add: next_run_seq_def)

lemma dense_log_append:
  assumes "dense_log d i" and "re_seq ev \<le> 0"
    and "append_run_event_row ev d = (None, ev1, d')"
  shows "dense_log d' i"
proof -
  have e: "ev1 = assigned_seq ev d" "d' = d\<lparr>t_run_events := t_run_events d @ [ev1]\<rparr>"
    using assms(3) by (simp_all add: append_run_event_row_ok)
  show ?thesis
  proof (cases "re_run_id ev = i")
    case True
    then have "re_run_id ev1 = i" "re_seq ev1 = int (length (run_log d i)) + 1"
      using assms(2) next_run_seq_dense [OF assms(1)] by (auto simp: e assigned_seq_def)
    moreover from this have "run_log d' i = run_log d i @ [ev1]"
      by (simp add: e(2) run_log_append)
    ultimately show ?thesis using assms(1) by (simp add: dense_log_def)
  next
    case False
    then have "run_log d' i = run_log d i" by (simp add: e(2) run_log_append) (simp add: e(1) assigned_seq_def)
    then show ?thesis using assms(1) by (simp add: dense_log_def)
  qed
qed

subsection \<open>Reading the log in pages\<close>

definition event_match :: "run_event_query \<Rightarrow> run_event \<Rightarrow> bool" where
  "event_match q e \<longleftrightarrow> re_run_id e = req_run_id q \<and> (req_type q \<noteq> [] \<longrightarrow> re_type e = req_type q)"

lemma sq_list_run_events_alt:
  "sq_list_run_events q d =
     Inr (take (nat (default_limit 200 (req_limit q)))
           (filter (\<lambda>e. 0 < req_after q \<longrightarrow> req_after q < re_seq e)
             (sort_key re_seq (filter (event_match q) (t_run_events d)))))"
  unfolding sq_list_run_events_def filter_sort filter_filter event_match_def
  by (rule arg_cong [where f = Inr], rule arg_cong2 [where f = take], simp,
      rule arg_cong [where f = "sort_key re_seq"], rule filter_cong) auto

lemma sorted_log:
  assumes "run_tables_ok d"
  shows "sorted_wrt (\<lambda>a b. re_seq a < re_seq b) (sort_key re_seq (filter (event_match q) (t_run_events d)))"
proof -
  let ?xs = "filter (event_match q) (t_run_events d)"
  have "distinct (map (\<lambda>e. (re_run_id e, re_seq e)) ?xs)"
    using assms by (auto simp: run_tables_ok_def distinct_map inj_on_def)
  then have "distinct (map re_seq ?xs)"
    by (auto simp: distinct_map inj_on_def event_match_def)
  moreover have "mset (map re_seq (sort_key re_seq ?xs)) = mset (map re_seq ?xs)" by simp
  then have "distinct (map re_seq (sort_key re_seq ?xs)) = distinct (map re_seq ?xs)"
    by (rule mset_eq_imp_distinct_iff)
  ultimately have "distinct (map re_seq (sort_key re_seq ?xs))" by simp
  then have "sorted_wrt (<) (map re_seq (sort_key re_seq ?xs))"
    by (simp add: strict_sorted_iff)
  then show ?thesis by (simp add: sorted_wrt_map)
qed

lemma sorted_filter_after:
  fixes f :: "'a \<Rightarrow> int"
  assumes "sorted_wrt (\<lambda>a b. f a < f b) xs" and "k < length xs"
  shows "filter (\<lambda>e. f (xs ! k) < f e) xs = drop (Suc k) xs"
  using assms
proof (induction xs arbitrary: k)
  case (Cons x xs)
  show ?case
  proof (cases k)
    case 0
    with Cons.prems show ?thesis by (auto simp: filter_id_conv)
  next
    case (Suc j)
    with Cons.prems have "j < length xs" by simp
    then have "f x < f (xs ! j)" using Cons.prems(1) by simp
    then have "\<not> f (xs ! j) < f x" by simp
    with Suc Cons.IH [of j] Cons.prems \<open>j < length xs\<close> show ?thesis by simp
  qed
qed simp

lemma sq_list_run_events_sorted:
  assumes "run_tables_ok d" and "sq_list_run_events q d = Inr es"
  shows "sorted_wrt (\<lambda>a b. re_seq a < re_seq b) es"
  using assms sorted_log [OF assms(1), of q]
  by (auto simp: sq_list_run_events_alt intro!: sorted_wrt_take sorted_wrt_filter)

text \<open>
  Resuming after the last sequence number of a page continues exactly where the page ended.
\<close>

lemma sq_list_run_events_resume:
  assumes ok: "run_tables_ok d" and q: "0 < req_limit q" "0 < n" "0 \<le> req_after q"
    and pos: "\<forall>e \<in> set (t_run_events d). 0 < re_seq e"
    and p1: "sq_list_run_events q d = Inr es" and ne: "es \<noteq> []"
    and p2: "sq_list_run_events (q\<lparr>req_after := re_seq (last es), req_limit := n\<rparr>) d = Inr es'"
  shows "sq_list_run_events (q\<lparr>req_limit := req_limit q + n\<rparr>) d = Inr (es @ es')"
proof -
  let ?L = "sort_key re_seq (filter (event_match q) (t_run_events d))"
  let ?xs = "filter (\<lambda>e. 0 < req_after q \<longrightarrow> req_after q < re_seq e) ?L"
  let ?l = "nat (req_limit q)"
  have em: "event_match (q\<lparr>req_after := a, req_limit := b\<rparr>) = event_match q"
    "event_match (q\<lparr>req_limit := b\<rparr>) = event_match q" for a b
    by (rule ext, simp add: event_match_def)+
  have srt: "sorted_wrt (\<lambda>a b. re_seq a < re_seq b) ?xs"
    by (rule sorted_wrt_filter [OF sorted_log [OF ok]])
  have es: "es = take ?l ?xs" using p1 q by (simp add: sq_list_run_events_alt default_limit_def)
  then have len: "length es \<le> ?l" "length es \<le> length ?xs" by auto
  moreover have "0 < length es" using ne by simp
  ultimately have k: "length es - 1 < length ?xs" by linarith
  have "es ! (length es - 1) = ?xs ! (length es - 1)"
    using es len \<open>0 < length es\<close> by (metis diff_less less_le_trans nth_take zero_less_one)
  then have lst: "last es = ?xs ! (length es - 1)" using ne by (simp add: last_conv_nth)
  have "last es \<in> set ?xs" using ne es by (metis in_set_takeD last_in_set)
  then have in_es: "last es \<in> set (t_run_events d)" and gt: "0 < req_after q \<Longrightarrow> req_after q < re_seq (last es)"
    by auto
  then have pos1: "0 < re_seq (last es)" using pos by blast
  have "filter (\<lambda>e. re_seq (last es) < re_seq e) ?L = filter (\<lambda>e. re_seq (last es) < re_seq e) ?xs"
    unfolding filter_filter using gt by (intro filter_cong) auto
  also have "\<dots> = drop (length es) ?xs"
    using sorted_filter_after [OF srt k] ne by (simp add: lst Suc_diff_Suc)
  finally have es': "es' = take (nat n) (drop (length es) ?xs)"
    using p2 q pos1 by (simp add: sq_list_run_events_alt default_limit_def em)
  have "take (nat (req_limit q + n)) ?xs = es @ es'"
  proof (cases "length ?xs \<le> ?l")
    case True
    then have "es = ?xs" by (simp add: es)
    moreover from this have "es' = []" using es' by simp
    ultimately show ?thesis using True q by simp
  next
    case False
    then have "length es = ?l" by (simp add: es)
    moreover have "nat (req_limit q + n) = ?l + nat n" using q by simp
    ultimately show ?thesis by (simp add: es' take_add) (simp add: es)
  qed
  then show ?thesis using q by (simp add: sq_list_run_events_alt default_limit_def em)
qed

subsection \<open>The contract of a run store\<close>

text \<open>
  What the gateway needs of \<open>RunSnapshotStore\<close>, \<open>RunClaimStore\<close> and \<open>RunStore.LoadRun\<close>, over a
  store state of any type: \<open>look\<close> is the run a load returns and \<open>hist\<close> the event history of a run.
  Two runs are the same record when they differ in the two row timestamps at most.
\<close>

definition same_run :: "run \<Rightarrow> run \<Rightarrow> bool" where
  "same_run a b \<longleftrightarrow> a\<lparr>r_created := 0, r_updated := 0\<rparr> = b\<lparr>r_created := 0, r_updated := 0\<rparr>"

lemma same_run_refl [simp]: "same_run a a"
  by (simp add: same_run_def)

lemma same_run_trans: "same_run a b \<Longrightarrow> same_run b c \<Longrightarrow> same_run a c"
  by (simp add: same_run_def)

lemma same_run_sym: "same_run a b \<Longrightarrow> same_run b a"
  by (simp add: same_run_def)

lemma same_run_created [simp]: "same_run (a\<lparr>r_created := t\<rparr>) b = same_run a b"
  by (simp add: same_run_def)

lemma same_run_normalize: "r_id r \<noteq> [] \<Longrightarrow> r_status r \<noteq> [] \<Longrightarrow> same_run (fst (normalize_run r w)) r"
  by (simp add: normalize_run_def same_run_def Let_def now_def)

locale durable_runs =
  fixes save :: "ctx \<Rightarrow> run \<Rightarrow> run_event \<Rightarrow> 's \<times> world \<Rightarrow> (store_error option \<times> run \<times> run_event) \<times> 's \<times> world"
    and claim :: "ctx \<Rightarrow> run \<Rightarrow> run_event \<Rightarrow> 's \<times> world \<Rightarrow>
      (store_error option \<times> run \<times> run_event \<times> bool) \<times> 's \<times> world"
    and load :: "string \<Rightarrow> 's \<Rightarrow> store_error + run"
    and look :: "'s \<Rightarrow> string \<Rightarrow> run option"
    and hist :: "'s \<Rightarrow> string \<Rightarrow> run_event list"
  assumes load_look: "load i s = Inr r \<longleftrightarrow> look s i = Some r"
    and save_failed: "save c r ev (s, w) = ((Some e, x), s', w') \<Longrightarrow> s' = s"
    and save_done: "r_id r \<noteq> [] \<Longrightarrow> r_status r \<noteq> [] \<Longrightarrow> re_run_id ev = r_id r \<Longrightarrow>
      save c r ev (s, w) = ((None, r', ev'), s', w') \<Longrightarrow>
        same_run r' r \<and> re_run ev' = r' \<and>
        (\<exists>x. look s' = (look s)(r_id r \<mapsto> x) \<and> same_run x r) \<and>
        hist s' = (hist s)(r_id r := hist s (r_id r) @ [ev'])"
    and claim_failed: "claim c r ev (s, w) = ((Some e, y), s', w') \<Longrightarrow> s' = s"
    and claim_present: "r_id r \<noteq> [] \<Longrightarrow> claim c r ev (s, w) = ((None, r', ev', False), s', w') \<Longrightarrow>
        s' = s \<and> look s (r_id r) = Some r'"
    and claim_done: "r_id r \<noteq> [] \<Longrightarrow> r_status r \<noteq> [] \<Longrightarrow> re_run_id ev = r_id r \<Longrightarrow>
      claim c r ev (s, w) = ((None, r', ev', True), s', w') \<Longrightarrow>
        look s (r_id r) = None \<and> same_run r' r \<and> re_run ev' = r' \<and>
        look s' = (look s)(r_id r \<mapsto> r') \<and>
        hist s' = (hist s)(r_id r := hist s (r_id r) @ [ev'])"
begin

text \<open>A claim that succeeds has stored the run, under an id that was free.\<close>

lemma claim_stores:
  assumes "r_id r \<noteq> []" and "r_status r \<noteq> []" and "re_run_id ev = r_id r"
    and "claim c r ev (s, w) = ((None, r', ev', True), s', w')"
  shows "look s (r_id r) = None \<and> look s' (r_id r) = Some r' \<and> same_run r' r"
  using claim_done [OF assms] by simp

text \<open>A saved run is what a load returns, and no other run or history is touched.\<close>

lemma save_load:
  assumes "r_id r \<noteq> []" and "r_status r \<noteq> []" and "re_run_id ev = r_id r"
    and "save c r ev (s, w) = ((None, r', ev'), s', w')"
  obtains x where "load (r_id r) s' = Inr x" "same_run x r"
  using save_done [OF assms] by (auto simp: load_look)

lemma save_frame:
  assumes "r_id r \<noteq> []" and "r_status r \<noteq> []" and "re_run_id ev = r_id r" and "i \<noteq> r_id r"
    and "save c r ev (s, w) = ((e, r', ev'), s', w')"
  shows "look s' i = look s i \<and> hist s' i = hist s i"
proof (cases e)
  case None
  then have "save c r ev (s, w) = ((None, r', ev'), s', w')" using assms(5) by simp
  from save_done [OF assms(1-3) this] assms(4) show ?thesis by auto
next
  case (Some e')
  then have "save c r ev (s, w) = ((Some e', r', ev'), s', w')" using assms(5) by simp
  from save_failed [OF this] show ?thesis by simp
qed

end

lemma append_row_log:
  assumes "append_run_event_row ev d = (None, ev1, d')"
  shows "run_log d' = (run_log d)(re_run_id ev := run_log d (re_run_id ev) @ [ev1]) \<and>
     re_run_id ev1 = re_run_id ev \<and> re_run ev1 = re_run ev \<and> t_runs d' = t_runs d"
proof -
  have e: "ev1 = assigned_seq ev d" "d' = d\<lparr>t_run_events := t_run_events d @ [ev1]\<rparr>"
    using assms by (simp_all add: append_run_event_row_ok)
  moreover from e(1) have "re_run_id ev1 = re_run_id ev \<and> re_run ev1 = re_run ev"
    by (simp add: assigned_seq_def)
  ultimately show ?thesis by (auto simp: fun_eq_iff run_log_append)
qed

lemma save_run_row_log: "save_run_row r d = (e, d') \<Longrightarrow> run_log d' = run_log d"
  by (rule ext) (auto simp: run_log_def dest: save_run_row_frame)

interpretation sq: durable_runs sq_save_run_with_event sq_claim_run_with_event sq_load_run find_run run_log
proof
  show "sq_load_run i s = Inr r \<longleftrightarrow> find_run s i = Some r" for i s r
    by (simp add: sq_load_run_def load_run_row_def split: option.splits)
next
  fix c r ev s w e x s' w'
  assume "sq_save_run_with_event c r ev (s, w) = ((Some e, x), s', w')"
  moreover obtain r1 e1 where "x = (r1, e1)" by fastforce
  ultimately have "sq_save_run_with_event c r ev (s, w) = ((Some e, r1, e1), s', w')" by simp
  then show "s' = s" by (cases rule: sq_save_run_with_event_cases) auto
next
  fix c r ev s w r' ev' s' w'
  assume h: "r_id r \<noteq> []" "r_status r \<noteq> []" "re_run_id ev = r_id r"
    and s: "sq_save_run_with_event c r ev (s, w) = ((None, r', ev'), s', w')"
  from s show "same_run r' r \<and> re_run ev' = r' \<and>
        (\<exists>x. find_run s' = (find_run s)(r_id r \<mapsto> x) \<and> same_run x r) \<and>
        run_log s' = (run_log s)(r_id r := run_log s (r_id r) @ [ev'])"
  proof (cases rule: sq_save_run_with_event_cases)
    case (saved w1 w2 d1 ev1)
    have r': "same_run r' r" "r_id r' = r_id r"
      using same_run_normalize [OF h(1,2), of w] normalize_run_id [OF h(1), of w] saved(2) by auto
    have ev1: "re_run ev1 = r'" "re_run_id ev1 = r_id r"
      using normalize_run_event_fields [of "ev\<lparr>re_run := r'\<rparr>" w1] saved(3) h by auto
    have "find_run s' = find_run d1"
      using append_row_log [OF saved(5)] by (intro find_run_cong) simp
    then have "find_run s' = (find_run s)(r_id r \<mapsto> stored_as s r')"
      using save_run_row_lookup [OF saved(4)] r'(2) by (auto simp: fun_eq_iff)
    moreover have "same_run (stored_as s r') r" using r' by (simp add: stored_as_def split: option.splits)
    ultimately show ?thesis
      using r' append_row_log [OF saved(5)] save_run_row_log [OF saved(4)] ev1 by auto
  qed simp
next
  fix c r ev s w e x s' w'
  assume "sq_claim_run_with_event c r ev (s, w) = ((Some e, x), s', w')"
  moreover obtain r1 e1 b where "x = (r1, e1, b)" by (metis prod_cases3)
  ultimately have "sq_claim_run_with_event c r ev (s, w) = ((Some e, r1, e1, b), s', w')" by simp
  then show "s' = s" by (cases rule: sq_claim_cases) auto
next
  fix c r ev s w r' ev' s' w'
  assume "r_id r \<noteq> []" and "sq_claim_run_with_event c r ev (s, w) = ((None, r', ev', False), s', w')"
  from this(2,1) show "s' = s \<and> find_run s (r_id r) = Some r'"
    by (cases rule: sq_claim_cases) (auto simp: normalize_run_id)
next
  fix c r ev s w r' ev' s' w'
  assume h: "r_id r \<noteq> []" "r_status r \<noteq> []" "re_run_id ev = r_id r"
    and s: "sq_claim_run_with_event c r ev (s, w) = ((None, r', ev', True), s', w')"
  from s show "find_run s (r_id r) = None \<and> same_run r' r \<and> re_run ev' = r' \<and>
        find_run s' = (find_run s)(r_id r \<mapsto> r') \<and>
        run_log s' = (run_log s)(r_id r := run_log s (r_id r) @ [ev'])"
  proof (cases rule: sq_claim_cases)
    case (claimed w1 w2 d1 ev1)
    have r': "same_run r' r" "r_id r' = r_id r"
      using same_run_normalize [OF h(1,2), of w] normalize_run_id [OF h(1), of w] claimed(3) by auto
    have ev1: "re_run ev1 = r'" "re_run_id ev1 = r_id r"
      using normalize_run_event_fields [of "ev\<lparr>re_run := r'\<rparr>" w1] claimed(5) h by auto
    have "find_run s' = find_run d1"
      using append_row_log [OF claimed(7)] by (intro find_run_cong) simp
    then have "find_run s' = (find_run s)(r_id r \<mapsto> r')"
      using save_run_row_lookup [OF claimed(6)] claimed(4) r'(2) by (auto simp: fun_eq_iff stored_as_def)
    then show ?thesis
      using r' append_row_log [OF claimed(7)] save_run_row_log [OF claimed(6)] ev1 claimed(4) by auto
  qed simp_all
qed

subsection \<open>Reachable tables\<close>

text \<open>
  The tables after any sequence of the four writing operations, from tables without runs. An event's
  \<open>Seq\<close> is left to the store, as every caller in the repository does.
\<close>

inductive run_reach :: "db \<Rightarrow> db \<Rightarrow> bool" for d0 where
  reach_start: "run_reach d0 d0"
| reach_save: "run_reach d0 d \<Longrightarrow> sq_save_run c r (d, w) = (x, d', w') \<Longrightarrow> run_reach d0 d'"
| reach_save_event: "run_reach d0 d \<Longrightarrow> re_seq ev \<le> 0 \<Longrightarrow>
    sq_save_run_with_event c r ev (d, w) = (y, d', w') \<Longrightarrow> run_reach d0 d'"
| reach_claim: "run_reach d0 d \<Longrightarrow> re_seq ev \<le> 0 \<Longrightarrow>
    sq_claim_run_with_event c r ev (d, w) = (z, d', w') \<Longrightarrow> run_reach d0 d'"
| reach_append: "run_reach d0 d \<Longrightarrow> re_seq ev \<le> 0 \<Longrightarrow>
    sq_append_run_event c ev (d, w) = (u, d', w') \<Longrightarrow> run_reach d0 d'"

lemma dense_log_save: "save_run_row r d = (e, d') \<Longrightarrow> dense_log d i \<Longrightarrow> dense_log d' i"
  by (simp add: dense_log_def save_run_row_log)

lemma sq_save_run_with_event_dense:
  assumes "dense_log d i" and "re_seq ev \<le> 0" and "sq_save_run_with_event c r ev (d, w) = (x, d', w')"
  shows "dense_log d' i"
proof -
  obtain e r' ev' where "x = (e, r', ev')" by (metis prod_cases3)
  with assms(3) have "sq_save_run_with_event c r ev (d, w) = ((e, r', ev'), d', w')" by simp
  then show ?thesis
  proof (cases rule: sq_save_run_with_event_cases)
    case (saved w1 w2 d1 ev1)
    have "re_seq ev1 \<le> 0"
      using normalize_run_event_fields(2) [of "ev\<lparr>re_run := r'\<rparr>" w1] saved(3) assms(2) by simp
    from dense_log_append [OF dense_log_save [OF saved(4) assms(1)] this saved(5)] show ?thesis .
  qed (simp add: assms(1))
qed

lemma sq_claim_dense:
  assumes "dense_log d i" and "re_seq ev \<le> 0" and "sq_claim_run_with_event c r ev (d, w) = (x, d', w')"
  shows "dense_log d' i"
proof -
  obtain e r' ev' cl where "x = (e, r', ev', cl)" by (metis prod_cases4)
  with assms(3) have "sq_claim_run_with_event c r ev (d, w) = ((e, r', ev', cl), d', w')" by simp
  then show ?thesis
  proof (cases rule: sq_claim_cases)
    case (claimed w1 w2 d1 ev1)
    have "re_seq ev1 \<le> 0"
      using normalize_run_event_fields(2) [of "ev\<lparr>re_run := r'\<rparr>" w1] claimed(5) assms(2) by simp
    from dense_log_append [OF dense_log_save [OF claimed(6) assms(1)] this claimed(7)] show ?thesis .
  qed (simp_all add: assms(1))
qed

lemma sq_append_dense:
  assumes "dense_log d i" and "re_seq ev \<le> 0" and "sq_append_run_event c ev (d, w) = (x, d', w')"
  shows "dense_log d' i"
proof -
  obtain e ev' where "x = (e, ev')" by fastforce
  with assms(3) have "sq_append_run_event c ev (d, w) = ((e, ev'), d', w')" by simp
  then show ?thesis
  proof (cases rule: sq_append_cases)
    case (appended w1 ev1)
    have "re_seq ev1 \<le> 0" using normalize_run_event_fields(2) [of ev w] appended(2) assms(2) by simp
    from dense_log_append [OF assms(1) this appended(3)] show ?thesis .
  qed (simp add: assms(1))
qed

lemma run_reach_inv:
  "run_reach d0 d \<Longrightarrow> run_tables_ok d0 \<Longrightarrow> \<forall>i. dense_log d0 i \<Longrightarrow> run_tables_ok d \<and> (\<forall>i. dense_log d i)"
proof (induction rule: run_reach.induct)
  case (reach_save d c r w x d' w')
  then have "save_run_row (fst (normalize_run r w)) d = (fst x, d')"
    by (auto simp: sq_save_run_def split: prod.splits)
  then show ?case using reach_save by (metis dense_log_save sq_save_run_ok)
next
  case (reach_save_event d ev c r w y d' w')
  then show ?case by (metis sq_save_run_with_event_dense sq_save_run_with_event_ok)
next
  case (reach_claim d ev c r w z d' w')
  then show ?case by (metis sq_claim_dense sq_claim_ok)
next
  case (reach_append d ev c w u d' w')
  then show ?case by (metis sq_append_dense sq_append_ok)
qed simp

subsection \<open>Properties\<close>

text \<open>No run write removes a run.\<close>

lemma save_run_row_keeps: "save_run_row r d = (e, d') \<Longrightarrow> find_run d i \<noteq> None \<Longrightarrow> find_run d' i \<noteq> None"
  using save_run_row_frame [of r d e d'] save_run_row_lookup [of r d d' i] by (cases e) auto

lemma append_run_event_row_keeps: "append_run_event_row ev d = (e, ev1, d') \<Longrightarrow> find_run d' = find_run d"
  by (intro find_run_cong) (auto simp: append_run_event_row_def Let_def split: if_splits)

lemma run_reach_keeps: "run_reach d0 d \<Longrightarrow> find_run d0 i \<noteq> None \<Longrightarrow> find_run d i \<noteq> None"
proof (induction rule: run_reach.induct)
  case (reach_save d c r w x d' w')
  then show ?case by (auto simp: sq_save_run_def split: prod.splits dest: save_run_row_keeps)
next
  case (reach_save_event d ev c r w y d' w')
  obtain e r' ev' where "y = (e, r', ev')" by (metis prod_cases3)
  with reach_save_event.hyps(3) have "sq_save_run_with_event c r ev (d, w) = ((e, r', ev'), d', w')" by simp
  then show ?case
    using reach_save_event.IH [OF reach_save_event.prems]
    by (cases rule: sq_save_run_with_event_cases) (metis save_run_row_keeps append_run_event_row_keeps)+
next
  case (reach_claim d ev c r w z d' w')
  obtain e r' ev' cl where "z = (e, r', ev', cl)" by (metis prod_cases4)
  with reach_claim.hyps(3) have "sq_claim_run_with_event c r ev (d, w) = ((e, r', ev', cl), d', w')" by simp
  then show ?case
    using reach_claim.IH [OF reach_claim.prems]
    by (cases rule: sq_claim_cases) (metis save_run_row_keeps append_run_event_row_keeps)+
next
  case (reach_append d ev c w u d' w')
  obtain e ev' where "u = (e, ev')" by (rule prod.exhaust)
  with reach_append.hyps(3) have "sq_append_run_event c ev (d, w) = ((e, ev'), d', w')" by simp
  then show ?case
    using reach_append.IH [OF reach_append.prems]
    by (cases rule: sq_append_cases) (metis append_run_event_row_keeps)+
qed

text \<open>A claim of a run that is stored loses.\<close>

lemma claim_loses:
  assumes "r_id r \<noteq> []" and "find_run d (r_id r) \<noteq> None"
    and "sq_claim_run_with_event c r ev (d, w) = ((e, r', ev', b), d', w')"
  shows "\<not> b \<and> d' = d \<and> (e = None \<longrightarrow> find_run d (r_id r) = Some r')"
  using assms(3)
proof (cases rule: sq_claim_cases)
  case (claimed w1 w2 d1 ev1)
  have "r_id r' = r_id r" using normalize_run_id [OF assms(1), of w] claimed(3) by simp
  with claimed(4) assms(2) show ?thesis by simp
qed (use normalize_run_id [OF assms(1), of w] in simp_all)

definition demo_db :: db where
  "demo_db = empty_db\<lparr>t_sessions :=
     [\<lparr>sr_id = ''s'', sr_root = [], sr_provider = [], sr_model = [], sr_agent = [], sr_mode = [],
       sr_summary = [], sr_last_response = [], sr_last_items = [], sr_metadata = [], sr_created = 1,
       sr_updated = 1\<rparr>]\<rparr>"

definition demo_run :: run where
  "demo_run = zero_run\<lparr>r_id := ''r1'', r_session := ''s'', r_status := ''queued''\<rparr>"

definition demo_run_event :: run_event where
  "demo_run_event = zero_run_event\<lparr>re_run_id := ''r1'', re_type := ''run.queued'', re_at := 5\<rparr>"

text \<open>
  C6: whatever sequence of run writes is executed, the run tables satisfy every key and foreign-key
  constraint, and the events of each run are numbered 1, 2, 3, ... without gaps in insertion order.
\<close>

theorem run_history_dense:
  assumes "run_reach d0 d" and "t_runs d0 = []" and "t_run_events d0 = []"
  shows "run_tables_ok d \<and> (\<forall>i. map re_seq (run_log d i) = map int [1..<Suc (length (run_log d i))])"
proof -
  have "run_tables_ok d0" using assms(2,3) by (simp add: run_tables_ok_def)
  moreover have "\<forall>i. dense_log d0 i" using assms(3) by (simp add: dense_log_def run_log_def)
  ultimately show ?thesis using run_reach_inv [OF assms(1)] by (simp add: dense_log_def)
qed

definition demo_db1 :: db where
  "demo_db1 = fst (snd (sq_claim_run_with_event (\<lambda>_. None) demo_run demo_run_event (demo_db, demo_world)))"

theorem run_history_dense_witness:
  "run_tables_ok demo_db1 \<and> length (run_log demo_db1 ''r1'') = 1 \<and> map re_seq (run_log demo_db1 ''r1'') = [1]"
proof -
  let ?x = "sq_claim_run_with_event (\<lambda>_. None) demo_run demo_run_event (demo_db, demo_world)"
  have "run_reach demo_db demo_db1"
    by (rule reach_claim [where d = demo_db and c = "\<lambda>_. None" and r = demo_run and ev = demo_run_event
          and w = demo_world and z = "fst ?x" and w' = "snd (snd ?x)"])
      (simp_all add: reach_start demo_run_event_def zero_run_event_def demo_db1_def)
  moreover have "t_runs demo_db = []" "t_run_events demo_db = []" by (simp_all add: demo_db_def empty_db_def)
  ultimately have "run_tables_ok demo_db1 \<and>
      (\<forall>i. map re_seq (run_log demo_db1 i) = map int [1..<Suc (length (run_log demo_db1 i))])"
    by (rule run_history_dense)
  moreover have "length (run_log demo_db1 ''r1'') = 1" by code_simp
  ultimately show ?thesis by simp
qed

text \<open>
  C7: a run id is claimed at most once. A successful claim found the id free and stored the run. From
  then on, whatever runs and events are written in between (the run may have started, ended or been
  claimed again meanwhile), any claim of the same id, by whichever gateway process, does not succeed,
  changes neither table and, unless it fails with an error, is handed the run that is stored.
\<close>

theorem run_claim_exclusive:
  assumes "r_id r \<noteq> []" and "r_status r \<noteq> []" and "re_run_id ev = r_id r" and "r_id r2 = r_id r"
    and "sq_claim_run_with_event c r ev (d, w) = ((None, r1, e1, True), d1, w1)"
    and "run_reach d1 d2"
    and "sq_claim_run_with_event c2 r2 ev2 (d2, w2) = ((e, r3, e3, b), d3, w3)"
  shows "find_run d (r_id r) = None \<and> find_run d1 (r_id r) = Some r1 \<and> same_run r1 r \<and>
    \<not> b \<and> d3 = d2 \<and> find_run d2 (r_id r) \<noteq> None \<and>
    (e = None \<longrightarrow> find_run d2 (r_id r) = Some r3)"
proof -
  have first: "find_run d (r_id r) = None \<and> find_run d1 (r_id r) = Some r1 \<and> same_run r1 r"
    by (rule sq.claim_stores [OF assms(1-3,5)])
  then have stored: "find_run d2 (r_id r) \<noteq> None" by (intro run_reach_keeps [OF assms(6)]) simp
  have "r_id r2 \<noteq> []" "find_run d2 (r_id r2) \<noteq> None" using assms(1,4) stored by simp_all
  from claim_loses [OF this assms(7)] first stored assms(4) show ?thesis by simp
qed

text \<open>The claimed run has ended before the second claim.\<close>

definition demo_ended :: run where
  "demo_ended = demo_run\<lparr>r_status := ''completed''\<rparr>"

definition demo_db2 :: db where
  "demo_db2 = fst (snd (sq_save_run_with_event (\<lambda>_. None) demo_ended demo_run_event (demo_db1, snd (snd
     (sq_claim_run_with_event (\<lambda>_. None) demo_run demo_run_event (demo_db, demo_world))))))"

theorem run_claim_exclusive_witness:
  "\<exists>r1 e1 w1 r3 e3 w3.
     sq_claim_run_with_event (\<lambda>_. None) demo_run demo_run_event (demo_db, demo_world) =
       ((None, r1, e1, True), demo_db1, w1) \<and>
     sq_claim_run_with_event (\<lambda>_. None) demo_run demo_run_event (demo_db2, demo_world) =
       ((None, r3, e3, False), demo_db2, w3) \<and>
     r_status r1 = ''queued'' \<and> find_run demo_db2 ''r1'' = Some r3 \<and> r_status r3 = ''completed''"
proof -
  let ?x = "sq_claim_run_with_event (\<lambda>_. None) demo_run demo_run_event (demo_db, demo_world)"
  let ?y = "sq_claim_run_with_event (\<lambda>_. None) demo_run demo_run_event (demo_db2, demo_world)"
  let ?s = "sq_save_run_with_event (\<lambda>_. None) demo_ended demo_run_event (demo_db1, snd (snd ?x))"
  obtain e r1 e1 b d1 w1 where x: "?x = ((e, r1, e1, b), d1, w1)" by (metis prod.collapse)
  obtain f r3 e3 b' d3 w3 where y: "?y = ((f, r3, e3, b'), d3, w3)" by (metis prod.collapse)
  have c: "fst (fst ?x) = None \<and> snd (snd (snd (fst ?x))) = True \<and> r_status (fst (snd (fst ?x))) = ''queued'' \<and>
      fst (fst ?y) = None \<and> r_status (fst (snd (fst ?y))) = ''completed''"
    by code_simp
  have x': "?x = ((None, r1, e1, True), demo_db1, w1)" using x c by (simp add: demo_db1_def)
  have y': "?y = ((None, r3, e3, b'), d3, w3)" using y c by simp
  have reach: "run_reach demo_db1 demo_db2"
    by (rule reach_save_event [where d = demo_db1 and c = "\<lambda>_. None" and r = demo_ended and ev = demo_run_event
          and w = "snd (snd ?x)" and y = "fst ?s" and w' = "snd (snd ?s)"])
      (simp_all add: reach_start demo_run_event_def zero_run_event_def demo_db2_def)
  have "find_run demo_db (r_id demo_run) = None \<and> find_run demo_db1 (r_id demo_run) = Some r1 \<and>
      same_run r1 demo_run \<and> \<not> b' \<and> d3 = demo_db2 \<and> find_run demo_db2 (r_id demo_run) \<noteq> None \<and>
      (None = (None :: store_error option) \<longrightarrow> find_run demo_db2 (r_id demo_run) = Some r3)"
    by (rule run_claim_exclusive [OF _ _ _ _ x' reach y'])
      (simp_all add: demo_run_def demo_run_event_def zero_run_def zero_run_event_def)
  moreover have "r_id demo_run = ''r1''" by (simp add: demo_run_def zero_run_def)
  ultimately show ?thesis using x x' y' y c by auto
qed

text \<open>
  saving a run together with its event is atomic: a failed save leaves both tables as they were,
  and a successful one stores the run (all of its fields but the row timestamps) and appends exactly one
  event, carrying that run, to that run's history only.
\<close>

theorem run_save_atomic:
  assumes "r_id r \<noteq> []" and "r_status r \<noteq> []" and "re_run_id ev = r_id r"
    and "sq_save_run_with_event c r ev (d, w) = ((e, r', ev'), d', w')"
  shows "(e \<noteq> None \<and> d' = d) \<or>
    (e = None \<and> re_run ev' = r' \<and> same_run r' r \<and>
     (\<exists>x. sq_load_run (r_id r) d' = Inr x \<and> same_run x r) \<and>
     (\<forall>i. i \<noteq> r_id r \<longrightarrow> find_run d' i = find_run d i) \<and>
     run_log d' = (run_log d)(r_id r := run_log d (r_id r) @ [ev']))"
proof (cases e)
  case None
  with assms(4) have s: "sq_save_run_with_event c r ev (d, w) = ((None, r', ev'), d', w')" by simp
  have "\<exists>x. sq_load_run (r_id r) d' = Inr x \<and> same_run x r"
    using sq.save_load [OF assms(1-3) s] by metis
  then show ?thesis using sq.save_done [OF assms(1-3) s] None by auto
next
  case (Some e')
  with assms(4) have "sq_save_run_with_event c r ev (d, w) = ((Some e', r', ev'), d', w')" by simp
  from sq.save_failed [OF this] Some show ?thesis by simp
qed

theorem run_save_atomic_witness:
  "\<exists>x. sq_load_run ''r1'' (fst (snd (sq_save_run_with_event (\<lambda>_. None) demo_run demo_run_event (demo_db, demo_world)))) =
     Inr x \<and> same_run x demo_run"
proof -
  let ?x = "sq_save_run_with_event (\<lambda>_. None) demo_run demo_run_event (demo_db, demo_world)"
  obtain e r' ev' d' w' where x: "?x = ((e, r', ev'), d', w')" by (metis prod.collapse)
  have "fst (fst ?x) = None" by code_simp
  then have "e = None" using x by simp
  moreover have "r_id demo_run = ''r1''" by (simp add: demo_run_def zero_run_def)
  ultimately show ?thesis
    using run_save_atomic [OF _ _ _ x] x
    by (simp add: demo_run_def demo_run_event_def zero_run_def zero_run_event_def)
qed

text \<open>
  an event history read in pages is read completely and once: a page lists the events in order of
  their sequence numbers, and asking again after the last number of a page continues exactly where that
  page ended, so that the two pages together are the one larger page.
\<close>

theorem run_events_pages:
  assumes "run_reach d0 d" and "t_runs d0 = []" and "t_run_events d0 = []"
    and "0 < req_limit q" and "0 < n" and "0 \<le> req_after q"
    and "sq_list_run_events q d = Inr es" and "es \<noteq> []"
    and "sq_list_run_events (q\<lparr>req_after := re_seq (last es), req_limit := n\<rparr>) d = Inr es'"
  shows "sorted_wrt (\<lambda>a b. re_seq a < re_seq b) (es @ es') \<and>
    sq_list_run_events (q\<lparr>req_limit := req_limit q + n\<rparr>) d = Inr (es @ es')"
proof -
  have "run_tables_ok d0" using assms(2,3) by (simp add: run_tables_ok_def)
  moreover have "\<forall>i. dense_log d0 i" using assms(3) by (simp add: dense_log_def run_log_def)
  ultimately have ok: "run_tables_ok d" and dense: "\<forall>i. dense_log d i" using run_reach_inv [OF assms(1)] by auto
  have pos: "\<forall>e \<in> set (t_run_events d). 0 < re_seq e"
  proof
    fix e assume "e \<in> set (t_run_events d)"
    then have "re_seq e \<in> set (map re_seq (run_log d (re_run_id e)))" by (simp add: run_log_def)
    moreover have "map re_seq (run_log d i) = map int [1..<Suc (length (run_log d i))]" for i
      using dense by (simp only: dense_log_def)
    ultimately have "re_seq e \<in> set (map int [1..<Suc (length (run_log d (re_run_id e)))])" by metis
    then show "0 < re_seq e" by (auto simp del: upt_Suc)
  qed
  from sq_list_run_events_resume [OF ok assms(4-6) pos assms(7-9)] sq_list_run_events_sorted [OF ok]
  show ?thesis by blast
qed

theorem run_events_pages_witness:
  "\<exists>es es'. sq_list_run_events \<lparr>req_run_id = ''r1'', req_after = 0, req_type = [], req_limit = 1\<rparr> demo_db1 = Inr es \<and>
     length es = 1 \<and>
     sq_list_run_events \<lparr>req_run_id = ''r1'', req_after = 0, req_type = [], req_limit = 3\<rparr> demo_db1 = Inr (es @ es')"
proof -
  let ?q = "\<lparr>req_run_id = ''r1'', req_after = 0, req_type = [], req_limit = 1\<rparr>"
  let ?x = "sq_claim_run_with_event (\<lambda>_. None) demo_run demo_run_event (demo_db, demo_world)"
  have r: "run_reach demo_db demo_db1"
    by (rule reach_claim [where d = demo_db and c = "\<lambda>_. None" and r = demo_run and ev = demo_run_event
          and w = demo_world and z = "fst ?x" and w' = "snd (snd ?x)"])
      (simp_all add: reach_start demo_run_event_def zero_run_event_def demo_db1_def)
  have e: "t_runs demo_db = []" "t_run_events demo_db = []" by (simp_all add: demo_db_def empty_db_def)
  obtain es where es: "sq_list_run_events ?q demo_db1 = Inr es" by (simp add: sq_list_run_events_def)
  have "(case sq_list_run_events ?q demo_db1 of Inr xs \<Rightarrow> length xs = 1 | Inl _ \<Rightarrow> False)" by code_simp
  then have l: "length es = 1" by (simp add: es)
  obtain es' where "sq_list_run_events (?q\<lparr>req_after := re_seq (last es), req_limit := 2\<rparr>) demo_db1 = Inr es'"
    by (simp add: sq_list_run_events_def)
  then have "sorted_wrt (\<lambda>a b. re_seq a < re_seq b) (es @ es') \<and>
      sq_list_run_events (?q\<lparr>req_limit := req_limit ?q + 2\<rparr>) demo_db1 = Inr (es @ es')"
    using l by (intro run_events_pages [OF r e _ _ _ es]) auto
  then show ?thesis using l es by auto
qed

text \<open>
  the run list and the run count agree: a page of \<open>ListRuns\<close> has as many runs as the count, the
  offset and the limit leave, each of them satisfies the query, and they come newest update first (in
  the order of the stored timestamp text).
\<close>

theorem run_list_counts:
  "\<exists>xs n. sq_list_runs q d = Inr xs \<and> sq_count_runs q d = Inr n \<and>
     int (length xs) = min (default_limit 50 (rq_limit q)) (max 0 (n - max 0 (rq_offset q))) \<and>
     list_all (\<lambda>r. run_where q r \<and> r \<in> set (t_runs d)) xs \<and>
     sorted_wrt (\<lambda>a b. rfc3339nano (r_updated b) \<le> rfc3339nano (r_updated a)) xs"
proof -
  let ?ys = "sort_desc (\<lambda>r. rfc3339nano (r_updated r)) (filter (run_where q) (t_runs d))"
  let ?xs = "page (default_limit 50 (rq_limit q)) (rq_offset q) ?ys"
  have "list_all (\<lambda>r. run_where q r \<and> r \<in> set (t_runs d)) ?xs"
    using set_page [of "default_limit 50 (rq_limit q)" "rq_offset q" ?ys] by (auto simp: list_all_iff)
  moreover have "sorted_wrt (\<lambda>a b. rfc3339nano (r_updated b) \<le> rfc3339nano (r_updated a)) ?xs"
    unfolding page_def by (intro sorted_wrt_take sorted_wrt_drop sorted_sort_desc)
  moreover have "int (length ?xs) = min (default_limit 50 (rq_limit q))
      (max 0 (int (length (filter (run_where q) (t_runs d))) - max 0 (rq_offset q)))"
    unfolding page_def default_limit_def by (simp add: min_def max_def) arith
  ultimately show ?thesis by (auto simp: sq_list_runs_def sq_count_runs_def)
qed

end
