(* ===== verification/Redact.thy ===== *)
theory Redact
  imports Llm_Types
begin

section \<open>Package llm: removing secrets from text\<close>

text \<open>
  \<open>llm/redact.go\<close>: three regular expressions, each replaced everywhere in turn. The patterns are
  matched here the way Go's \<open>regexp\<close> does, leftmost and greedy; every one of them is
  deterministic, so greedy matching never has to back up. A match is given by its length in bytes.
  Under \<open>(?i)\<close>, \<open>k\<close> also matches the Kelvin sign (E2 84 AA) and \<open>s\<close> the long s (C5 BF).
\<close>

definition redacted :: string where
  "redacted = ''[REDACTED]''"

subsection \<open>The patterns\<close>

definition word_char :: "char \<Rightarrow> bool" where
  "word_char c \<longleftrightarrow>
     (let n = of_char c :: nat
      in 48 \<le> n \<and> n \<le> 57 \<or> 65 \<le> n \<and> n \<le> 90 \<or> 97 \<le> n \<and> n \<le> 122 \<or> n = 95)"

lemma word_char_bracket [simp]: "\<not> word_char (CHR ''['')"
  by (simp add: word_char_def)

text \<open>\<open>sk-[A-Za-z0-9_-]{20,}\<close>\<close>

definition match_sk :: "string \<Rightarrow> nat option" where
  "match_sk s =
     (if has_prefix ''sk-'' s then
        (let n = length (takeWhile (\<lambda>c. word_char c \<or> c = CHR ''-'') (drop 3 s))
         in if 20 \<le> n then Some (3 + n) else None)
      else None)"

text \<open>\<open>gh[pousr]_[A-Za-z0-9_]{20,}\<close>\<close>

definition match_gh :: "string \<Rightarrow> nat option" where
  "match_gh s =
     (if list_ex (\<lambda>x. has_prefix (''gh'' @ [x] @ ''_'') s) ''pousr'' then
        (let n = length (takeWhile word_char (drop 4 s)) in if 20 \<le> n then Some (4 + n) else None)
      else None)"

text \<open>\<open>(?i)(api[_-]?key|token|secret)\s*[:=]\s*['"]?[^\s'"]+\<close>\<close>

definition fold1 :: "char \<Rightarrow> string \<Rightarrow> string option" where
  "fold1 p s =
     (case s of
        [] \<Rightarrow> None
      | c # cs \<Rightarrow>
          (if lower_char c = p then Some cs
           else if p = CHR ''k'' \<and> has_prefix [CHR 0xE2, CHR 0x84, CHR 0xAA] s then Some (drop 3 s)
           else if p = CHR ''s'' \<and> has_prefix [CHR 0xC5, CHR 0xBF] s then Some (drop 2 s)
           else None))"

fun lit_ci :: "string \<Rightarrow> string \<Rightarrow> string option" where
  "lit_ci [] s = Some s"
| "lit_ci (p # ps) s = (case fold1 p s of None \<Rightarrow> None | Some r \<Rightarrow> lit_ci ps r)"

definition opt_sep :: "string \<Rightarrow> string" where
  "opt_sep s = (case s of [] \<Rightarrow> [] | c # cs \<Rightarrow> if c = CHR ''_'' \<or> c = CHR ''-'' then cs else s)"

definition keyword :: "string \<Rightarrow> string option" where
  "keyword s =
     (case Option.bind (lit_ci ''api'' s) (\<lambda>r. lit_ci ''key'' (opt_sep r)) of
        Some r \<Rightarrow> Some r
      | None \<Rightarrow> (case lit_ci ''token'' s of Some r \<Rightarrow> Some r | None \<Rightarrow> lit_ci ''secret'' s))"

definition re_space :: "char \<Rightarrow> bool" where
  "re_space c \<longleftrightarrow> c \<in> {CHR 0x09, CHR 0x0A, CHR 0x0C, CHR 0x0D, CHR 0x20}"

definition re_quote :: "char \<Rightarrow> bool" where
  "re_quote c \<longleftrightarrow> c \<in> {CHR 0x27, CHR 0x22}"

definition re_value :: "char \<Rightarrow> bool" where
  "re_value c \<longleftrightarrow> \<not> re_space c \<and> \<not> re_quote c"

definition opt_quote :: "string \<Rightarrow> string" where
  "opt_quote s = (case s of [] \<Rightarrow> [] | c # cs \<Rightarrow> if re_quote c then cs else s)"

definition match_kv :: "string \<Rightarrow> nat option" where
  "match_kv s =
     (case keyword s of
        None \<Rightarrow> None
      | Some r \<Rightarrow>
          (case dropWhile re_space r of
             [] \<Rightarrow> None
           | c # r2 \<Rightarrow>
               (if c = CHR '':'' \<or> c = CHR ''='' then
                  (let r4 = opt_quote (dropWhile re_space r2); v = takeWhile re_value r4
                   in if v = [] then None else Some (length s - length r4 + length v))
                else None)))"

subsection \<open>\<open>ReplaceAllString\<close> and \<open>RedactSecrets\<close>\<close>

fun redact_with :: "(string \<Rightarrow> nat option) \<Rightarrow> string \<Rightarrow> string" where
  "redact_with m [] = []"
| "redact_with m (c # cs) =
     (case m (c # cs) of
        None \<Rightarrow> c # redact_with m cs
      | Some n \<Rightarrow> redacted @ redact_with m (drop (n - 1) cs))"

definition redact_secrets :: "string \<Rightarrow> string" where
  "redact_secrets s = redact_with match_kv (redact_with match_gh (redact_with match_sk s))"

subsection \<open>Text in which a pattern matches nowhere\<close>

fun clean :: "(string \<Rightarrow> nat option) \<Rightarrow> string \<Rightarrow> bool" where
  "clean m [] = True"
| "clean m (c # cs) = (m (c # cs) = None \<and> clean m cs)"

lemma redact_with_clean: "clean m s \<Longrightarrow> redact_with m s = s"
  by (induction s) auto

text \<open>Up to its first match the text is unchanged; a replacement starts with a bracket.\<close>

lemma redact_with_split:
  "\<exists>p t. s = p @ t \<and> redact_with m s = p @ redact_with m t \<and> (t = [] \<or> m t \<noteq> None)"
proof (induction s)
  case Nil
  show ?case by (intro exI [of _ "[]"]) simp
next
  case (Cons c s)
  show ?case
  proof (cases "m (c # s)")
    case None
    obtain p t where "s = p @ t" "redact_with m s = p @ redact_with m t" "t = [] \<or> m t \<noteq> None"
      using Cons.IH by blast
    then show ?thesis using None by (intro exI [of _ "c # p"] exI [of _ t]) simp
  next
    case (Some n)
    then show ?thesis by (intro exI [of _ "[]"] exI [of _ "c # s"]) simp
  qed
qed

lemma redact_with_match: "t \<noteq> [] \<Longrightarrow> m t \<noteq> None \<Longrightarrow> \<exists>u. redact_with m t = CHR ''['' # u"
  by (cases t) (auto simp: redacted_def)

lemma redact_with_prefix:
  assumes "redact_with m s = p @ u" and "CHR ''['' \<notin> set p"
  obtains t where "s = p @ t"
proof -
  obtain p' t where s: "s = p' @ t" "redact_with m s = p' @ redact_with m t" "t = [] \<or> m t \<noteq> None"
    using redact_with_split by blast
  show thesis
  proof (cases "length p \<le> length p'")
    case True
    then have "take (length p) p' = p" using s(2) assms(1) by (metis append_eq_conv_conj append_take_drop_id take_append take_all_iff diff_is_0_eq take0 append_Nil2)
    then show thesis using s(1) that by (metis append_take_drop_id append_assoc)
  next
    case False
    then obtain x y where p: "p = p' @ x # y" "x # y @ u = redact_with m t"
      using s(2) assms(1) by (auto simp: append_eq_append_conv2 neq_Nil_conv)
    then have "t \<noteq> []" by auto
    then obtain v where "redact_with m t = CHR ''['' # v" using s(3) redact_with_match by blast
    then have "x = CHR ''[''" using p(2) by simp
    then show thesis using assms(2) p(1) by simp
  qed
qed

subsection \<open>Keys: the two fixed patterns\<close>

text \<open>
  A pattern is fixed by the texts \<open>P\<close> when it matches exactly where one of them starts. Another
  pattern's replacement cannot create such a text when none contains a bracket and none starts with
  a letter of the replacement.
\<close>

definition fixed_by :: "(string \<Rightarrow> nat option) \<Rightarrow> (string \<Rightarrow> bool) \<Rightarrow> bool" where
  "fixed_by m P \<longleftrightarrow>
     (\<forall>s. m s \<noteq> None \<longleftrightarrow> (\<exists>p. P p \<and> prefix p s)) \<and>
     (\<forall>p. P p \<longrightarrow> p \<noteq> [] \<and> CHR ''['' \<notin> set p \<and> hd p \<notin> set redacted)"

definition starts_word :: "string \<Rightarrow> (char \<Rightarrow> bool) \<Rightarrow> string \<Rightarrow> bool" where
  "starts_word a Q p \<longleftrightarrow> (\<exists>v. p = a @ v \<and> length v = 20 \<and> list_all Q v)"

definition sk_text :: "string \<Rightarrow> bool" where
  "sk_text = starts_word ''sk-'' (\<lambda>c. word_char c \<or> c = CHR ''-'')"

definition gh_text :: "string \<Rightarrow> bool" where
  "gh_text p \<longleftrightarrow> (\<exists>x \<in> set ''pousr''. starts_word (''gh'' @ [x] @ ''_'') word_char p)"

lemma takeWhile_length_iff:
  "n \<le> length (takeWhile P s) \<longleftrightarrow> (\<exists>v. prefix v s \<and> length v = n \<and> list_all P v)"
proof
  assume "n \<le> length (takeWhile P s)"
  moreover have "prefix (take n (takeWhile P s)) s"
    by (meson take_is_prefix takeWhile_is_prefix prefix_order.trans)
  moreover have "list_all P (take n (takeWhile P s))"
    by (auto simp: list_all_iff dest!: in_set_takeD dest: set_takeWhileD)
  ultimately show "\<exists>v. prefix v s \<and> length v = n \<and> list_all P v"
    by (intro exI [of _ "take n (takeWhile P s)"]) auto
next
  assume "\<exists>v. prefix v s \<and> length v = n \<and> list_all P v"
  then obtain v w where "s = v @ w" "length v = n" "list_all P v" by (auto simp: prefix_def)
  then show "n \<le> length (takeWhile P s)" by (simp add: takeWhile_append2 list_all_iff)
qed

lemma starts_word_prefix:
  "(\<exists>p. starts_word a Q p \<and> prefix p s) \<longleftrightarrow> prefix a s \<and> 20 \<le> length (takeWhile Q (drop (length a) s))"
  unfolding starts_word_def takeWhile_length_iff by (auto simp: prefix_def) (metis append_assoc)+

lemma starts_word_bracket:
  "starts_word a Q p \<Longrightarrow> CHR ''['' \<notin> set a \<Longrightarrow> \<not> Q (CHR ''['') \<Longrightarrow> a \<noteq> [] \<Longrightarrow>
     p \<noteq> [] \<and> CHR ''['' \<notin> set p \<and> hd p = hd a"
  by (auto simp: starts_word_def list_all_iff)

lemma drop_3_4: "drop 3 s = drop (Suc (Suc (Suc 0))) s" "drop 4 s = drop (Suc (Suc (Suc (Suc 0)))) s"
  by (simp_all add: eval_nat_numeral)

lemma match_sk_fixed: "fixed_by match_sk sk_text"
  unfolding fixed_by_def sk_text_def
proof (intro conjI allI)
  show "match_sk s \<noteq> None \<longleftrightarrow> (\<exists>p. starts_word ''sk-'' (\<lambda>c. word_char c \<or> c = CHR ''-'') p \<and> prefix p s)" for s
    unfolding starts_word_prefix by (simp add: match_sk_def has_prefix_iff Let_def drop_3_4)
  show "starts_word ''sk-'' (\<lambda>c. word_char c \<or> c = CHR ''-'') p \<longrightarrow>
      p \<noteq> [] \<and> CHR ''['' \<notin> set p \<and> hd p \<notin> set redacted" for p
    using starts_word_bracket [of "''sk-''" "\<lambda>c. word_char c \<or> c = CHR ''-''" p] by (auto simp: redacted_def)
qed

lemma match_gh_fixed: "fixed_by match_gh gh_text"
  unfolding fixed_by_def gh_text_def
proof (intro conjI allI)
  fix s
  have "(\<exists>p. (\<exists>x\<in>set ''pousr''. starts_word (''gh'' @ [x] @ ''_'') word_char p) \<and> prefix p s) \<longleftrightarrow>
      (\<exists>x\<in>set ''pousr''. \<exists>p. starts_word (''gh'' @ [x] @ ''_'') word_char p \<and> prefix p s)"
    by blast
  also have "\<dots> \<longleftrightarrow> (\<exists>x\<in>set ''pousr''. prefix (''gh'' @ [x] @ ''_'') s) \<and> 20 \<le> length (takeWhile word_char (drop 4 s))"
    unfolding starts_word_prefix by (auto simp: drop_3_4)
  also have "\<dots> \<longleftrightarrow> match_gh s \<noteq> None"
    unfolding match_gh_def list_ex_iff has_prefix_iff Let_def by (simp only: split: if_split) blast
  finally show "match_gh s \<noteq> None \<longleftrightarrow>
      (\<exists>p. (\<exists>x\<in>set ''pousr''. starts_word (''gh'' @ [x] @ ''_'') word_char p) \<and> prefix p s)" ..
next
  fix p
  show "(\<exists>x\<in>set ''pousr''. starts_word (''gh'' @ [x] @ ''_'') word_char p) \<longrightarrow>
      p \<noteq> [] \<and> CHR ''['' \<notin> set p \<and> hd p \<notin> set redacted"
  proof
    assume "\<exists>x\<in>set ''pousr''. starts_word (''gh'' @ [x] @ ''_'') word_char p"
    then obtain x where x: "x \<in> set ''pousr''" "starts_word (''gh'' @ [x] @ ''_'') word_char p" by blast
    then show "p \<noteq> [] \<and> CHR ''['' \<notin> set p \<and> hd p \<notin> set redacted"
      using starts_word_bracket [OF x(2)] by (auto simp: redacted_def)
  qed
qed

lemma clean_append_redacted:
  assumes "fixed_by m P" and "clean m u" and "set r \<subseteq> set redacted"
  shows "clean m (r @ u)"
  using assms(3)
proof (induction r)
  case (Cons c r)
  have "m (c # (r @ u)) = None"
  proof (rule ccontr)
    assume "m (c # (r @ u)) \<noteq> None"
    then obtain p where p: "P p" "prefix p (c # (r @ u))" using assms(1) unfolding fixed_by_def by blast
    then have "p \<noteq> []" "hd p \<notin> set redacted" using assms(1) by (simp_all add: fixed_by_def)
    moreover from this p(2) have "hd p = c" by (cases p) auto
    ultimately show False using Cons.prems by simp
  qed
  with Cons show ?case by simp
qed (simp add: assms(2))

lemma clean_drop: "clean m s \<Longrightarrow> clean m (drop n s)"
proof (induction s arbitrary: n)
  case (Cons c s)
  then show ?case by (cases n) auto
qed simp

lemma fixed_clean_redact:
  assumes "fixed_by m P" and "m' = m \<or> clean m s"
  shows "clean m (redact_with m' s)"
  using assms(2)
proof (induction m' s rule: redact_with.induct)
  case (2 m' c cs)
  show ?case
  proof (cases "m' (c # cs)")
    case None
    have "m (c # redact_with m' cs) = None"
    proof (rule ccontr)
      assume "m (c # redact_with m' cs) \<noteq> None"
      then obtain p where p: "P p" "prefix p (c # redact_with m' cs)"
        using assms(1) unfolding fixed_by_def by blast
      then have "CHR ''['' \<notin> set p" using assms(1) by (simp add: fixed_by_def)
      moreover obtain u where "redact_with m' (c # cs) = p @ u" using p(2) None by (auto simp: prefix_def)
      ultimately obtain v where "c # cs = p @ v" using redact_with_prefix by metis
      then have "m (c # cs) \<noteq> None" using p(1) assms(1) unfolding fixed_by_def by (metis prefixI)
      then show False using 2(3) None by auto
    qed
    moreover have "clean m (redact_with m' cs)" using 2(1) [OF None] 2(3) by auto
    ultimately show ?thesis using None by simp
  next
    case (Some n)
    have "m' = m \<or> clean m (drop (n - 1) cs)" using 2(3) by (auto simp: clean_drop)
    then have "clean m (redact_with m' (drop (n - 1) cs))" using 2(2) [OF Some] by simp
    then have "clean m (redacted @ redact_with m' (drop (n - 1) cs))"
      by (rule clean_append_redacted [OF assms(1)]) simp
    then show ?thesis using Some by simp
  qed
qed simp

subsection \<open>Named secrets\<close>

text \<open>
  A match of the third pattern is a keyword, blanks, a separator, blanks, an optional quote (the
  \<open>kv_text\<close>), and a value character. The parts of the \<open>kv_text\<close> are read the same whatever follows.
\<close>

definition stable :: "(string \<Rightarrow> string option) \<Rightarrow> string \<Rightarrow> bool" where
  "stable f k \<longleftrightarrow> k \<noteq> [] \<and> CHR ''['' \<notin> set k \<and> (\<forall>r. f (k @ r) = Some r)"

lemma fold1_stable:
  assumes "fold1 p s = Some r" and "p \<in> set ''apikeytokensecret''"
  obtains k where "s = k @ r" "stable (fold1 p) k" "re_value (hd k)" "hd k \<notin> set ''_-''"
proof -
  obtain c cs where s: "s = c # cs" using assms(1) by (cases s) (auto simp: fold1_def)
  have e: "(if lower_char c = p then Some cs
      else if p = CHR ''k'' \<and> has_prefix [CHR 0xE2, CHR 0x84, CHR 0xAA] s then Some (drop 3 s)
      else if p = CHR ''s'' \<and> has_prefix [CHR 0xC5, CHR 0xBF] s then Some (drop 2 s) else None) = Some r"
    using assms(1) by (simp only: fold1_def s list.case)
  consider (plain) "lower_char c = p" "r = cs"
    | (kelvin) "p = CHR ''k''" "has_prefix [CHR 0xE2, CHR 0x84, CHR 0xAA] s" "r = drop 3 s"
    | (long_s) "p = CHR ''s''" "has_prefix [CHR 0xC5, CHR 0xBF] s" "r = drop 2 s"
    using e by (simp only: split: if_splits) blast+
  then show thesis
  proof cases
    case plain
    have "c \<noteq> CHR ''[''" using plain(1) assms(2) by (auto simp: lower_char_def)
    moreover have "c \<notin> set ''_-''" using plain(1) assms(2) by (auto simp: lower_char_def)
    moreover have "re_value c"
      using plain(1) assms(2) by (auto simp: re_value_def re_space_def re_quote_def lower_char_def)
    ultimately show thesis using that [of "[c]"] plain s by (simp add: stable_def fold1_def)
  next
    case kelvin
    then show thesis using that [of "[CHR 0xE2, CHR 0x84, CHR 0xAA]"]
      by (auto simp: stable_def fold1_def lower_char_def has_prefix_iff prefix_def re_value_def re_space_def re_quote_def)
  next
    case long_s
    then show thesis using that [of "[CHR 0xC5, CHR 0xBF]"]
      by (auto simp: stable_def fold1_def lower_char_def has_prefix_iff prefix_def re_value_def re_space_def re_quote_def)
  qed
qed

lemma lit_ci_stable:
  assumes "lit_ci ps s = Some r" and "set ps \<subseteq> set ''apikeytokensecret''" and "ps \<noteq> []"
  shows "\<exists>k. s = k @ r \<and> stable (lit_ci ps) k \<and> re_value (hd k) \<and> hd k \<notin> set ''_-''"
  using assms
proof (induction ps arbitrary: s)
  case (Cons p ps)
  obtain s1 where s1: "fold1 p s = Some s1" "lit_ci ps s1 = Some r"
    using Cons.prems(1) by (auto split: option.splits)
  obtain k1 where k1: "s = k1 @ s1" "stable (fold1 p) k1" "re_value (hd k1)" "hd k1 \<notin> set ''_-''"
    using fold1_stable [OF s1(1)] Cons.prems(2) by auto
  show ?case
  proof (cases "ps = []")
    case True
    then show ?thesis using k1 s1(2) by (intro exI [of _ k1]) (auto simp: stable_def)
  next
    case False
    then obtain k2 where k2: "s1 = k2 @ r" "stable (lit_ci ps) k2"
      using Cons.IH [OF s1(2)] Cons.prems(2) by auto
    have "stable (lit_ci (p # ps)) (k1 @ k2)" using k1(2) k2(2) by (simp add: stable_def)
    then show ?thesis using k1 k2 by (intro exI [of _ "k1 @ k2"]) (auto simp: stable_def)
  qed
qed simp

lemma fold1_exclusive:
  assumes "fold1 p s = Some r" and "p \<noteq> q" and "p \<in> set ''ats''" and "q \<in> set ''ats''"
  shows "fold1 q s = None"
proof -
  have l: "lower_char (CHR 0xE2) = CHR 0xE2" "lower_char (CHR 0xC5) = CHR 0xC5" by (simp_all add: lower_char_def)
  show ?thesis
    using assms by (auto simp: fold1_def l split: list.splits if_splits)
qed

lemma lit_ci_exclusive:
  assumes "lit_ci (p # ps) s = Some r" and "p \<noteq> q" and "p \<in> set ''ats''" and "q \<in> set ''ats''"
  shows "lit_ci (q # qs) s = None"
proof -
  obtain s1 where "fold1 p s = Some s1" using assms(1) by (auto split: option.splits)
  then have "fold1 q s = None" using assms(2-4) by (rule fold1_exclusive)
  then show ?thesis by simp
qed

definition api_key :: "string \<Rightarrow> string option" where
  "api_key s = Option.bind (lit_ci ''api'' s) (\<lambda>r. lit_ci ''key'' (opt_sep r))"

lemma api_key_stable:
  assumes "api_key s = Some r"
  shows "\<exists>k. s = k @ r \<and> stable api_key k \<and> re_value (hd k)"
proof -
  obtain s1 where s1: "lit_ci ''api'' s = Some s1" "lit_ci ''key'' (opt_sep s1) = Some r"
    using assms by (auto simp: api_key_def bind_eq_Some_conv)
  obtain k1 where k1: "s = k1 @ s1" "stable (lit_ci ''api'') k1" "re_value (hd k1)"
    using lit_ci_stable [OF s1(1)] by auto
  obtain k2 where k2: "opt_sep s1 = k2 @ r" "stable (lit_ci ''key'') k2" "hd k2 \<notin> set ''_-''"
    using lit_ci_stable [OF s1(2)] by auto
  have ne: "k2 \<noteq> []" using k2(2) by (simp add: stable_def)
  have o2: "opt_sep (k2 @ x) = k2 @ x" for x
    using ne k2(3) by (cases k2) (auto simp: opt_sep_def)
  have "\<exists>sep. s1 = sep @ k2 @ r \<and> CHR ''['' \<notin> set sep \<and> (\<forall>x. opt_sep (sep @ k2 @ x) = k2 @ x)"
  proof (cases "\<exists>c cs. s1 = c # cs \<and> (c = CHR ''_'' \<or> c = CHR ''-'')")
    case True
    then obtain c cs where "s1 = c # cs" "c = CHR ''_'' \<or> c = CHR ''-''" by blast
    then show ?thesis using k2(1) by (intro exI [of _ "[c]"]) (auto simp: opt_sep_def)
  next
    case False
    then have "opt_sep s1 = s1" by (auto simp: opt_sep_def split: list.splits)
    then show ?thesis using k2(1) o2 by (intro exI [of _ "[]"]) auto
  qed
  then obtain sep where sep: "s1 = sep @ k2 @ r" "CHR ''['' \<notin> set sep" "\<And>x. opt_sep (sep @ k2 @ x) = k2 @ x"
    by blast
  have "stable api_key (k1 @ sep @ k2)"
    using k1(2) k2(2) sep by (simp add: stable_def api_key_def)
  then show ?thesis using k1 sep(1) by (intro exI [of _ "k1 @ sep @ k2"]) (auto simp: stable_def)
qed

lemma keyword_alt:
  "keyword s = (case api_key s of Some r \<Rightarrow> Some r
     | None \<Rightarrow> (case lit_ci ''token'' s of Some r \<Rightarrow> Some r | None \<Rightarrow> lit_ci ''secret'' s))"
  by (simp add: keyword_def api_key_def)

lemma api_key_None: "lit_ci ''api'' s = None \<Longrightarrow> api_key s = None"
  by (simp add: api_key_def)

lemma keyword_stable:
  assumes "keyword s = Some r"
  shows "\<exists>k. s = k @ r \<and> stable keyword k \<and> re_value (hd k)"
proof -
  consider (a) "api_key s = Some r" | (t) "lit_ci ''token'' s = Some r" | (s) "lit_ci ''secret'' s = Some r"
    using assms by (auto simp: keyword_alt split: option.splits)
  then show ?thesis
  proof cases
    case a
    then obtain k where "s = k @ r" "stable api_key k" "re_value (hd k)" using api_key_stable by blast
    then show ?thesis by (intro exI [of _ k]) (simp add: stable_def keyword_alt)
  next
    case t
    then obtain k where k: "s = k @ r" "stable (lit_ci ''token'') k" "re_value (hd k)"
      using lit_ci_stable [OF t] by auto
    have "keyword (k @ x) = Some x" for x
    proof -
      have "lit_ci ''token'' (k @ x) = Some x" using k(2) by (simp add: stable_def)
      moreover from this have "lit_ci ''api'' (k @ x) = None" by (rule lit_ci_exclusive) auto
      ultimately show ?thesis by (simp add: keyword_alt api_key_None del: lit_ci.simps)
    qed
    then show ?thesis using k by (intro exI [of _ k]) (simp add: stable_def)
  next
    case s
    then obtain k where k: "s = k @ r" "stable (lit_ci ''secret'') k" "re_value (hd k)"
      using lit_ci_stable [OF s] by auto
    have "keyword (k @ x) = Some x" for x
    proof -
      have l: "lit_ci ''secret'' (k @ x) = Some x" using k(2) by (simp add: stable_def)
      have "lit_ci ''api'' (k @ x) = None" by (rule lit_ci_exclusive [OF l]) auto
      moreover have "lit_ci ''token'' (k @ x) = None" by (rule lit_ci_exclusive [OF l]) auto
      ultimately show ?thesis using l by (simp add: keyword_alt api_key_None del: lit_ci.simps)
    qed
    then show ?thesis using k by (intro exI [of _ k]) (simp add: stable_def)
  qed
qed

definition kv_text :: "string \<Rightarrow> bool" where
  "kv_text d \<longleftrightarrow>
     (\<exists>k b1 c b2 q. d = k @ b1 @ c # b2 @ q \<and> stable keyword k \<and> list_all re_space b1 \<and>
        (c = CHR '':'' \<or> c = CHR ''='') \<and> list_all re_space b2 \<and> (q = [] \<or> (\<exists>x. q = [x] \<and> re_quote x)))"

lemma list_all_notin: "list_all P b \<Longrightarrow> \<not> P x \<Longrightarrow> x \<notin> set b"
  by (auto simp: list_all_iff)

lemma kv_text_bracket:
  assumes "kv_text d"
  shows "CHR ''['' \<notin> set d"
proof -
  obtain k b1 c b2 q where d: "d = k @ b1 @ c # b2 @ q" "stable keyword k" "list_all re_space b1"
    "c = CHR '':'' \<or> c = CHR ''=''" "list_all re_space b2" "q = [] \<or> (\<exists>x. q = [x] \<and> re_quote x)"
    using assms unfolding kv_text_def by blast
  have "\<not> re_space (CHR ''['')" "\<not> re_quote (CHR ''['')" by (simp_all add: re_space_def re_quote_def)
  moreover from this have "CHR ''['' \<notin> set b1" "CHR ''['' \<notin> set b2"
    using d(3,5) by (blast dest: list_all_notin)+
  moreover have "CHR ''['' \<notin> set k" using d(2) by (simp add: stable_def)
  moreover have "c \<noteq> CHR ''[''" using d(4) by auto
  ultimately show ?thesis using d(6) unfolding d(1) by auto
qed

lemma dropWhile_space: "list_all re_space b \<Longrightarrow> (r = [] \<or> \<not> re_space (hd r)) \<Longrightarrow> dropWhile re_space (b @ r) = r"
  by (induction b) (cases r; simp)+

lemma match_kv_intro:
  assumes "kv_text d" and "re_value v"
  shows "match_kv (d @ v # r) \<noteq> None"
proof -
  obtain k b1 c b2 q where d: "d = k @ b1 @ c # b2 @ q" "stable keyword k" "list_all re_space b1"
    "c = CHR '':'' \<or> c = CHR ''=''" "list_all re_space b2" "q = [] \<or> (\<exists>x. q = [x] \<and> re_quote x)"
    using assms(1) unfolding kv_text_def by blast
  have "keyword (d @ v # r) = Some (b1 @ c # b2 @ q @ v # r)"
    using d(2) by (simp add: d(1) stable_def)
  moreover have "dropWhile re_space (b1 @ c # b2 @ q @ v # r) = c # b2 @ q @ v # r"
    by (rule dropWhile_space) (use d(3,4) in \<open>auto simp: re_space_def\<close>)
  moreover have "dropWhile re_space (b2 @ q @ v # r) = q @ v # r"
    by (rule dropWhile_space) (use d(5,6) assms(2) in \<open>auto simp: re_value_def re_quote_def re_space_def\<close>)
  moreover have "opt_quote (q @ v # r) = v # r"
    using d(6) assms(2) by (auto simp: opt_quote_def re_value_def)
  ultimately show ?thesis
    using d(4) assms(2) by (auto simp: match_kv_def)
qed

lemma match_kv_elim:
  assumes "match_kv s \<noteq> None"
  obtains d v r where "s = d @ v # r" "kv_text d" "re_value v" "re_value (hd s)"
proof -
  obtain r0 where k: "keyword s = Some r0" using assms by (auto simp: match_kv_def split: option.splits)
  obtain c r2 where c: "dropWhile re_space r0 = c # r2" "c = CHR '':'' \<or> c = CHR ''=''"
    using assms k by (auto simp: match_kv_def split: list.splits if_splits)
  let ?r3 = "dropWhile re_space r2"
  obtain v r where v: "opt_quote ?r3 = v # r" "re_value v"
    using assms k c by (cases "opt_quote ?r3") (auto simp: match_kv_def Let_def split: if_splits)
  obtain ky where ky: "s = ky @ r0" "stable keyword ky" "re_value (hd ky)" using keyword_stable [OF k] by blast
  have r0: "r0 = takeWhile re_space r0 @ c # r2" by (metis takeWhile_dropWhile_id c(1))
  have r2: "r2 = takeWhile re_space r2 @ ?r3" by simp
  obtain q where q: "?r3 = q @ v # r" "q = [] \<or> (\<exists>x. q = [x] \<and> re_quote x)"
    using v(1) by (cases ?r3) (auto simp: opt_quote_def split: if_splits)
  let ?d = "ky @ takeWhile re_space r0 @ c # takeWhile re_space r2 @ q"
  have "s = ?d @ v # r" using ky(1) r0 r2 q(1) by (metis append.assoc append_Cons)
  moreover have "kv_text ?d"
    unfolding kv_text_def using ky(2) c(2) q(2)
    by (intro exI [of _ ky] exI [of _ "takeWhile re_space r0"] exI [of _ c] exI [of _ "takeWhile re_space r2"]
        exI [of _ q]) (auto simp: list_all_iff dest: set_takeWhileD)
  moreover have "re_value (hd s)" using ky by (auto simp: stable_def)
  ultimately show thesis using that v(2) by blast
qed

text \<open>Replacing the named secrets leaves none.\<close>

lemma match_kv_after:
  assumes "match_kv s = None"
  shows "match_kv (hd s # redact_with match_kv (tl s)) = None"
proof (cases s)
  case (Cons c cs)
  show ?thesis
  proof (rule ccontr)
    assume "\<not> ?thesis"
    then obtain d v r where d: "c # redact_with match_kv cs = d @ v # r" "kv_text d" "re_value v"
      using match_kv_elim Cons by (metis list.sel(1,3))
    have "redact_with match_kv s = d @ v # r" using d(1) assms Cons by simp
    moreover obtain p t where p: "s = p @ t" "redact_with match_kv s = p @ redact_with match_kv t"
      "t = [] \<or> match_kv t \<noteq> None"
      using redact_with_split by blast
    ultimately have eq: "d @ v # r = p @ redact_with match_kv t" by simp
    consider (inside) u where "p = d @ v # u" | (edge) "p = d" | (beyond) x y where "d = p @ x # y"
      using eq by (auto simp: append_eq_append_conv2 Cons_eq_append_conv) (metis append_Nil2 neq_Nil_conv)+
    then show False
    proof cases
      case inside
      then have "match_kv s \<noteq> None" using match_kv_intro [OF d(2,3)] p(1) by simp
      then show False using assms by simp
    next
      case edge
      then have "redact_with match_kv t = v # r" using eq by simp
      then have "t \<noteq> []" by auto
      then obtain x y where t: "t = x # y" by (cases t) auto
      then have "re_value x" using p(3) match_kv_elim by (metis list.distinct(1) list.sel(1))
      then have "match_kv s \<noteq> None" using match_kv_intro [OF d(2)] p(1) edge t by simp
      then show False using assms by simp
    next
      case beyond
      then have u: "redact_with match_kv t = x # y @ v # r" using eq by simp
      then have "t \<noteq> []" by auto
      then have "x = CHR ''[''" using redact_with_match [of t match_kv] p(3) u by auto
      then show False using beyond kv_text_bracket [OF d(2)] by simp
    qed
  qed
qed (simp add: match_kv_def keyword_def fold1_def)

lemma match_kv_no_keyword: "keyword s = None \<Longrightarrow> match_kv s = None"
  by (simp add: match_kv_def)

lemma keyword_other:
  "lower_char c \<notin> set ''ats'' \<Longrightarrow> c \<noteq> CHR 0xC5 \<Longrightarrow> keyword (c # r) = None"
  by (simp add: keyword_def fold1_def)

lemma match_kv_redacted:
  assumes "clean match_kv u"
  shows "clean match_kv (redacted @ u)"
proof -
  have "list_all (\<lambda>c. lower_char c \<notin> set ''ats'' \<and> c \<noteq> CHR 0xC5) ''[REDC]''" by code_simp
  then have other: "match_kv (c # r) = None" if "c \<in> set ''[REDC]''" for c r
    using that unfolding list_all_iff by (intro match_kv_no_keyword keyword_other) blast+
  have low: "lower_char (CHR ''A'') = CHR ''a''" "lower_char (CHR ''C'') = CHR ''c''"
    "lower_char (CHR ''T'') = CHR ''t''" "lower_char (CHR ''E'') = CHR ''e''"
    by code_simp+
  have "match_kv (CHR ''A'' # CHR ''C'' # r) = None" "match_kv (CHR ''T'' # CHR ''E'' # r) = None" for r
    by (rule match_kv_no_keyword, simp add: keyword_def fold1_def low)+
  then show ?thesis using assms other by (simp add: redacted_def)
qed

lemma clean_kv_redact: "clean match_kv (redact_with match_kv s)"
proof (induction "length s" arbitrary: s rule: less_induct)
  case less
  show ?case
  proof (cases s)
    case (Cons c cs)
    show ?thesis
    proof (cases "match_kv s")
      case None
      have "match_kv (c # redact_with match_kv cs) = None" using match_kv_after [OF None] Cons by simp
      moreover have "clean match_kv (redact_with match_kv cs)" using less Cons by simp
      ultimately show ?thesis using None Cons by simp
    next
      case (Some n)
      have "clean match_kv (redact_with match_kv (drop (n - 1) cs))" using less Cons by simp
      then have "clean match_kv (redacted @ redact_with match_kv (drop (n - 1) cs))"
        by (rule match_kv_redacted)
      then show ?thesis using Some Cons by simp
    qed
  qed simp
qed

subsection \<open>Redacted text\<close>

definition secret_free :: "string \<Rightarrow> bool" where
  "secret_free s \<longleftrightarrow> clean match_sk s \<and> clean match_gh s \<and> clean match_kv s"

lemma redact_secret_free [simp]: "secret_free (redact_secrets s)"
proof -
  let ?a = "redact_with match_sk s"
  let ?b = "redact_with match_gh ?a"
  have "clean match_sk ?a" by (rule fixed_clean_redact [OF match_sk_fixed]) simp
  then have "clean match_sk ?b" by (intro fixed_clean_redact [OF match_sk_fixed, where m' = match_gh]) simp
  then have sk: "clean match_sk (redact_secrets s)"
    unfolding redact_secrets_def by (intro fixed_clean_redact [OF match_sk_fixed, where m' = match_kv]) simp
  have "clean match_gh ?b" by (rule fixed_clean_redact [OF match_gh_fixed]) simp
  then have gh: "clean match_gh (redact_secrets s)"
    unfolding redact_secrets_def by (intro fixed_clean_redact [OF match_gh_fixed, where m' = match_kv]) simp
  have "clean match_kv (redact_secrets s)" by (simp add: redact_secrets_def clean_kv_redact)
  with sk gh show ?thesis by (simp add: secret_free_def)
qed

lemma redact_secret_free_id: "secret_free s \<Longrightarrow> redact_secrets s = s"
  by (simp add: secret_free_def redact_secrets_def redact_with_clean)

subsection \<open>Properties\<close>

text \<open>
  C17: no secret survives: in what \<open>RedactSecrets\<close> returns, none of the three patterns matches at
  any position, neither one that was there nor one the replacements could have put together; and
  redacting again changes nothing.
\<close>

theorem redact_secrets_clean:
  "clean match_sk (redact_secrets s) \<and> clean match_gh (redact_secrets s) \<and> clean match_kv (redact_secrets s) \<and>
   redact_secrets (redact_secrets s) = redact_secrets s"
  using redact_secret_free [of s] redact_secret_free_id [of "redact_secrets s"] by (simp add: secret_free_def)

end
