(* ===== verification/Gateway_Types.thy ===== *)
theory Gateway_Types
  imports Session_Types Redact
begin

section \<open>Package gateway: run requests, run records and their conversions\<close>

text \<open>
  The records of \<open>gateway/dto.go\<close> that the run manager works with, and the conversions of
  \<open>gateway/run_manager.go\<close> between them and \<open>session.Run\<close>. Cloning a slice or a map copies
  a value, so \<open>cloneRun\<close> only recomputes the derived duration.
\<close>

record start_request =
  g_session :: string
  g_prompt :: string
  g_provider :: string
  g_model :: string
  g_workdir :: string
  g_metadata :: smap
  g_mcp :: "string list"
  g_skills :: "string list"
  g_subagents :: "string list"
  g_enabled :: "string list"
  g_disabled :: "string list"
  g_blocks :: "string list"
  g_preview_stream :: bool
  g_max_preview :: int
  g_max_tokens :: int
  g_run_id :: string

definition zero_start_request :: start_request where
  "zero_start_request =
     \<lparr>g_session = [], g_prompt = [], g_provider = [], g_model = [], g_workdir = [], g_metadata = [],
      g_mcp = [], g_skills = [], g_subagents = [], g_enabled = [], g_disabled = [], g_blocks = [],
      g_preview_stream = False, g_max_preview = 0, g_max_tokens = 0, g_run_id = []\<rparr>"

record run_dto =
  d_id :: string
  d_session :: string
  d_turn :: string
  d_status :: string
  d_prompt :: string
  d_provider :: string
  d_model :: string
  d_workdir :: string
  d_max_tokens :: int
  d_mcp :: "string list"
  d_skills :: "string list"
  d_subagents :: "string list"
  d_enabled :: "string list"
  d_disabled :: "string list"
  d_blocks :: "string list"
  d_events_url :: string
  d_started :: gtime
  d_ended :: gtime
  d_duration :: int
  d_error :: string
  d_usage :: "usage option"
  d_metadata :: smap

definition zero_dto :: run_dto where
  "zero_dto =
     \<lparr>d_id = [], d_session = [], d_turn = [], d_status = [], d_prompt = [], d_provider = [], d_model = [],
      d_workdir = [], d_max_tokens = 0, d_mcp = [], d_skills = [], d_subagents = [], d_enabled = [],
      d_disabled = [], d_blocks = [], d_events_url = [], d_started = 0, d_ended = 0, d_duration = 0,
      d_error = [], d_usage = None, d_metadata = []\<rparr>"

record run_event_dto =
  v_seq :: int
  v_at :: gtime
  v_type :: string
  v_tool :: string
  v_message :: string
  v_error :: string
  v_payload :: raw
  v_run :: run_dto

definition zero_event_dto :: run_event_dto where
  "zero_event_dto = \<lparr>v_seq = 0, v_at = 0, v_type = [], v_tool = [], v_message = [], v_error = [],
     v_payload = [], v_run = zero_dto\<rparr>"

subsection \<open>Statuses, event types and urls\<close>

definition is_terminal :: "string \<Rightarrow> bool" where
  "is_terminal st \<longleftrightarrow> st = ''completed'' \<or> st = ''failed'' \<or> st = ''cancelled''"

definition is_valid_status :: "string \<Rightarrow> bool" where
  "is_valid_status st \<longleftrightarrow>
     st = ''queued'' \<or> st = ''running'' \<or> st = ''cancelling'' \<or> st = ''completed'' \<or> st = ''failed'' \<or>
     st = ''cancelled''"

definition run_event_type :: "string \<Rightarrow> string" where
  "run_event_type st = (if st = [] then ''run.updated'' else ''run.'' @ st)"

definition run_events_url :: "string \<Rightarrow> string" where
  "run_events_url run_id =
     (let i = trim_space run_id in if i = [] then [] else ''/api/v1/runs/'' @ i @ ''/events'')"

lemma terminal_valid: "is_terminal st \<Longrightarrow> is_valid_status st"
  by (auto simp: is_terminal_def is_valid_status_def)

lemma active_not_terminal [simp]:
  "\<not> is_terminal ''queued''" "\<not> is_terminal ''running''" "\<not> is_terminal ''cancelling''" "\<not> is_terminal []"
  "is_terminal ''completed''" "is_terminal ''failed''" "is_terminal ''cancelled''"
  by (simp_all add: is_terminal_def)

lemma run_event_type_nonempty [simp]: "run_event_type st \<noteq> []"
  by (simp add: run_event_type_def)

subsection \<open>Durations and clones\<close>

text \<open>\<open>Time.Sub\<close> saturates at the largest \<open>Duration\<close>; \<open>Milliseconds\<close> divides.\<close>

definition run_duration_ms :: "gtime \<Rightarrow> gtime \<Rightarrow> int" where
  "run_duration_ms started ended =
     (if is_zero started \<or> is_zero ended \<or> ended < started then 0
      else min (ended - started) (2 ^ 63 - 1) div 1000000)"

definition apply_derived :: "run_dto \<Rightarrow> run_dto" where
  "apply_derived d = d\<lparr>d_duration := run_duration_ms (d_started d) (d_ended d)\<rparr>"

definition clone_run :: "run_dto \<Rightarrow> run_dto" where
  "clone_run d = apply_derived d"

lemma run_duration_ms_nonneg: "0 \<le> run_duration_ms a b"
  by (simp add: run_duration_ms_def pos_imp_zdiv_nonneg_iff)

lemma apply_derived_idem [simp]: "apply_derived (apply_derived d) = apply_derived d"
  by (simp add: apply_derived_def)

lemma apply_derived_fields [simp]:
  "d_id (apply_derived d) = d_id d" "d_status (apply_derived d) = d_status d"
  "d_session (apply_derived d) = d_session d" "d_metadata (apply_derived d) = d_metadata d"
  "d_ended (apply_derived d) = d_ended d" "d_error (apply_derived d) = d_error d"
  "d_started (apply_derived d) = d_started d"
  by (simp_all add: apply_derived_def)

lemma clone_run_fields [simp]:
  "d_id (clone_run d) = d_id d" "d_status (clone_run d) = d_status d"
  "d_session (clone_run d) = d_session d" "d_metadata (clone_run d) = d_metadata d"
  "d_ended (clone_run d) = d_ended d" "d_error (clone_run d) = d_error d"
  "d_started (clone_run d) = d_started d" "clone_run (clone_run d) = clone_run d"
  by (simp_all add: clone_run_def)

subsection \<open>Conversions to and from the stored run\<close>

definition usage_from_dto :: "usage option \<Rightarrow> usage" where
  "usage_from_dto u = (case u of None \<Rightarrow> zero_usage | Some x \<Rightarrow> x)"

definition to_usage_dto :: "usage \<Rightarrow> usage option" where
  "to_usage_dto u = (if u = zero_usage then None else Some u)"

definition run_from_dto :: "run_dto \<Rightarrow> run" where
  "run_from_dto d =
     \<lparr>r_id = d_id d, r_session = d_session d, r_turn = d_turn d, r_status = d_status d, r_prompt = d_prompt d,
      r_provider = d_provider d, r_model = d_model d, r_workdir = d_workdir d, r_max_tokens = d_max_tokens d,
      r_mcp = d_mcp d, r_skills = d_skills d, r_subagents = d_subagents d, r_enabled = d_enabled d,
      r_disabled = d_disabled d, r_blocks = d_blocks d, r_events_url = d_events_url d,
      r_started = d_started d, r_ended = d_ended d, r_error = d_error d, r_usage = usage_from_dto (d_usage d),
      r_metadata = d_metadata d, r_created = 0, r_updated = 0\<rparr>"

definition dto_from_run :: "run \<Rightarrow> run_dto" where
  "dto_from_run r = apply_derived
     \<lparr>d_id = r_id r, d_session = r_session r, d_turn = r_turn r, d_status = r_status r, d_prompt = r_prompt r,
      d_provider = r_provider r, d_model = r_model r, d_workdir = r_workdir r, d_max_tokens = r_max_tokens r,
      d_mcp = r_mcp r, d_skills = r_skills r, d_subagents = r_subagents r, d_enabled = r_enabled r,
      d_disabled = r_disabled r, d_blocks = r_blocks r, d_events_url = r_events_url r,
      d_started = r_started r, d_ended = r_ended r, d_duration = 0, d_error = r_error r,
      d_usage = to_usage_dto (r_usage r), d_metadata = r_metadata r\<rparr>"

lemma run_from_dto_fields [simp]:
  "r_id (run_from_dto d) = d_id d" "r_status (run_from_dto d) = d_status d" "r_session (run_from_dto d) = d_session d"
  by (simp_all add: run_from_dto_def)

lemma dto_from_run_fields [simp]:
  "d_id (dto_from_run r) = r_id r" "d_status (dto_from_run r) = r_status r" "d_session (dto_from_run r) = r_session r"
  "d_metadata (dto_from_run r) = r_metadata r" "d_ended (dto_from_run r) = r_ended r"
  by (simp_all add: dto_from_run_def)

text \<open>
  Storing a run and reading it back loses only the distinction between no usage and a usage of zeros,
  and recomputes the duration.
\<close>

lemma dto_from_run_from_dto:
  "d_usage d \<noteq> Some zero_usage \<Longrightarrow> dto_from_run (run_from_dto d) = apply_derived d"
  by (cases "d_usage d") (auto simp: dto_from_run_def run_from_dto_def apply_derived_def usage_from_dto_def to_usage_dto_def)

subsection \<open>Redaction of what leaves the process\<close>

definition redact_string_map :: "smap \<Rightarrow> smap" where
  "redact_string_map m = map (\<lambda>(k, v). (k, redact_secrets v)) m"

definition redact_raw_json :: "raw \<Rightarrow> raw" where
  "redact_raw_json r = (if r = [] then [] else redact_secrets r)"

definition redact_event_snapshot :: "run_dto \<Rightarrow> run_dto" where
  "redact_event_snapshot d =
     d\<lparr>d_prompt := redact_secrets (d_prompt d), d_error := redact_secrets (d_error d),
       d_metadata := redact_string_map (d_metadata d), d_blocks := map redact_secrets (d_blocks d)\<rparr>"

definition redact_run_event :: "run_event_dto \<Rightarrow> run_event_dto" where
  "redact_run_event e =
     e\<lparr>v_message := redact_secrets (v_message e), v_error := redact_secrets (v_error e),
       v_payload := redact_raw_json (v_payload e), v_run := redact_event_snapshot (v_run e)\<rparr>"

lemma redact_event_snapshot_fields [simp]:
  "d_id (redact_event_snapshot d) = d_id d" "d_status (redact_event_snapshot d) = d_status d"
  "d_session (redact_event_snapshot d) = d_session d"
  by (simp_all add: redact_event_snapshot_def)

end
