(* ===== verification/Event_Bus.thy ===== *)
theory Event_Bus
  imports Gateway_Types
begin

section \<open>Package gateway: the run event bus\<close>

text \<open>
  \<open>gateway/event_bus.go\<close>: buffered Go channels per run id, 16 messages for run snapshots and 32 for
  events. A channel is its capacity, its buffer and whether it is closed; channels are numbered in the
  order they are made. Publishing takes the list of channels under the lock and sends outside it, so other
  goroutines move between its steps: \<open>pub_step\<close> is the publishing goroutine, one \<open>select\<close> at a time,
  \<open>bus_step\<close> interleaves any number of them with the subscribers, and \<open>publish\<close> is the publication that
  nothing interrupts (proved to be what the steps of one goroutine alone amount to).
\<close>

subsection \<open>Channels\<close>

record 'a chan =
  ch_cap :: nat
  ch_buf :: "'a list"
  ch_closed :: bool

definition make_chan :: "nat \<Rightarrow> 'a chan" where
  "make_chan n = \<lparr>ch_cap = n, ch_buf = [], ch_closed = False\<rparr>"

text \<open>\<open>select \{ case ch <- m: default: \}\<close> on an open channel without a waiting receiver.\<close>

definition try_send :: "'a \<Rightarrow> 'a chan \<Rightarrow> bool \<times> 'a chan" where
  "try_send m c = (if length (ch_buf c) < ch_cap c then (True, c\<lparr>ch_buf := ch_buf c @ [m]\<rparr>) else (False, c))"

text \<open>\<open>select \{ case <-ch: default: \}\<close>\<close>

definition try_recv :: "'a chan \<Rightarrow> 'a option \<times> 'a chan" where
  "try_recv c = (case ch_buf c of [] \<Rightarrow> (None, c) | m # ms \<Rightarrow> (Some m, c\<lparr>ch_buf := ms\<rparr>))"

text \<open>
  Sending one message to one channel, \<open>publishRunToChannel\<close> and \<open>publishEventToChannel\<close>: three \<open>select\<close>
  statements, each of them one step, with no lock held over them. \<open>Attempt\<close> is the goroutine before the
  first, \<open>Drain\<close> before the second (the buffer was full and the message is terminal), \<open>Again\<close> before the
  third and \<open>Sent\<close> after the function has returned. A send on a closed channel panics and the deferred
  \<open>recover\<close> ends the function; a receive from a closed channel does not panic.
\<close>

datatype 'a sender = Attempt 'a | Drain 'a | Again 'a | Sent

fun send_step :: "('a \<Rightarrow> bool) \<Rightarrow> 'a sender \<times> 'a chan \<Rightarrow> 'a sender \<times> 'a chan" where
  "send_step terminal (Attempt m, c) =
     (if ch_closed c then (Sent, c)
      else (case try_send m c of
              (True, c') \<Rightarrow> (Sent, c')
            | (False, c') \<Rightarrow> (if terminal m then Drain m else Sent, c')))"
| "send_step terminal (Drain m, c) = (Again m, snd (try_recv c))"
| "send_step terminal (Again m, c) = (Sent, if ch_closed c then c else snd (try_send m c))"
| "send_step terminal (Sent, c) = (Sent, c)"

text \<open>The sending that no other goroutine interrupts.\<close>

definition publish_to_channel :: "('a \<Rightarrow> bool) \<Rightarrow> 'a \<Rightarrow> 'a chan \<Rightarrow> 'a chan" where
  "publish_to_channel terminal m c = snd ((send_step terminal ^^ 3) (Attempt m, c))"

definition chan_ok :: "'a chan \<Rightarrow> bool" where
  "chan_ok c \<longleftrightarrow> length (ch_buf c) \<le> ch_cap c"

text \<open>What it leaves in the buffer: the oldest message gives way to a terminal one, to no other.\<close>

definition after_publish :: "nat \<Rightarrow> bool \<Rightarrow> 'a \<Rightarrow> 'a list \<Rightarrow> 'a list" where
  "after_publish cap final m buf =
     (if length buf < cap then buf @ [m] else if final then tl buf @ [m] else buf)"

lemma three_steps: "(f ^^ 3) x = f (f (f x))"
  by (simp add: eval_nat_numeral)

lemma publish_closed: "ch_closed c \<Longrightarrow> publish_to_channel t m c = c"
  by (simp add: publish_to_channel_def three_steps)

lemma publish_exact:
  assumes "\<not> ch_closed c" and "chan_ok c" and "0 < ch_cap c"
  shows "publish_to_channel t m c = c\<lparr>ch_buf := after_publish (ch_cap c) (t m) m (ch_buf c)\<rparr>"
  using assms
  by (cases c; cases "ch_buf c")
    (auto simp: publish_to_channel_def three_steps after_publish_def try_send_def try_recv_def chan_ok_def)

lemma send_step_kept:
  "ch_cap (snd (send_step t (s, c))) = ch_cap c" "ch_closed (snd (send_step t (s, c))) = ch_closed c"
  "chan_ok c \<Longrightarrow> chan_ok (snd (send_step t (s, c)))"
  by (cases s; auto simp: try_send_def try_recv_def chan_ok_def split: list.splits)+

lemma publish_kept:
  "ch_cap (publish_to_channel t m c) = ch_cap c" "ch_closed (publish_to_channel t m c) = ch_closed c"
  "chan_ok c \<Longrightarrow> chan_ok (publish_to_channel t m c)"
  unfolding publish_to_channel_def three_steps by (metis send_step_kept prod.collapse)+

lemma publish_terminal:
  "\<not> ch_closed c \<Longrightarrow> t m \<Longrightarrow> 0 < ch_cap c \<Longrightarrow> chan_ok c \<Longrightarrow>
     ch_buf (publish_to_channel t m c) \<noteq> [] \<and> last (ch_buf (publish_to_channel t m c)) = m"
  by (simp add: publish_exact after_publish_def)

text \<open>
  What other goroutines do to a channel between two steps of a publication, with the messages they put
  into it.
\<close>

inductive others :: "'a list \<Rightarrow> 'a chan \<Rightarrow> 'a chan \<Rightarrow> bool" where
  nothing: "others [] c c"
| sent: "others ms c c' \<Longrightarrow> \<not> ch_closed c' \<Longrightarrow> length (ch_buf c') < ch_cap c' \<Longrightarrow>
    others (ms @ [x]) c (c'\<lparr>ch_buf := ch_buf c' @ [x]\<rparr>)"
| received: "others ms c c' \<Longrightarrow> others ms c (snd (try_recv c'))"
| closed: "others ms c c' \<Longrightarrow> others ms c (c'\<lparr>ch_closed := True\<rparr>)"

lemma others_length: "others ms c c' \<Longrightarrow> ch_cap c' = ch_cap c \<and> length (ch_buf c') \<le> length (ch_buf c) + length ms"
  by (induction rule: others.induct) (auto simp: try_recv_def split: list.splits)

text \<open>
  A terminal message sent in three steps with anything in between: it is in the buffer as soon as it is
  sent, unless the channel is closed or another publisher has put a message into the slot that the
  second step freed.
\<close>

lemma interrupted_delivery:
  assumes "t m" "0 < ch_cap c" "chan_ok c"
    and s1: "send_step t (Attempt m, c) = (s1, c1)" and o1: "others xs c1 c2"
    and s2: "send_step t (s1, c2) = (s2, c3)" and o2: "others ys c3 c4"
    and s3: "send_step t (s2, c4) = (s3, c5)"
  shows "s3 = Sent \<and>
    (ch_closed c \<or> ch_closed c4 \<or> ys \<noteq> [] \<or> c1 = c\<lparr>ch_buf := ch_buf c @ [m]\<rparr> \<or> c5 = c4\<lparr>ch_buf := ch_buf c4 @ [m]\<rparr>)"
proof (cases "ch_closed c \<or> length (ch_buf c) < ch_cap c")
  case True
  then have "s1 = Sent \<and> (ch_closed c \<or> c1 = c\<lparr>ch_buf := ch_buf c @ [m]\<rparr>)"
    using s1 by (auto simp: try_send_def split: if_splits)
  then show ?thesis using s2 s3 by auto
next
  case False
  then have s1': "s1 = Drain m" "c1 = c" using s1 assms(1) by (auto simp: try_send_def)
  then have s2': "s2 = Again m" "c3 = snd (try_recv c2)" using s2 by auto
  then have "s3 = Sent" using s3 by auto
  moreover have "c5 = c4\<lparr>ch_buf := ch_buf c4 @ [m]\<rparr>" if "\<not> ch_closed c4" "ys = []"
  proof -
    have cap: "ch_cap c2 = ch_cap c" using others_length [OF o1] s1' by simp
    have "length (ch_buf c2) \<le> ch_cap c2"
      using o1 assms(3) s1'(2) by (induction rule: others.induct) (auto simp: chan_ok_def try_recv_def split: list.splits)
    then have "length (ch_buf c3) < ch_cap c" and "ch_cap c3 = ch_cap c"
      using assms(2) cap s2'(2) by (auto simp: try_recv_def split: list.splits)
    then have "length (ch_buf c4) < ch_cap c4" using others_length [OF o2] that(2) by simp
    then show ?thesis using s3 s2'(1) that(1) by (simp add: try_send_def)
  qed
  ultimately show ?thesis by blast
qed

definition delivered :: "('a \<Rightarrow> bool) \<Rightarrow> 'a \<Rightarrow> bool" where
  "delivered t m \<longleftrightarrow>
     (\<forall>c c1 c2 c3 c4 c5 s1 s2 s3 xs ys.
        chan_ok c \<and> 0 < ch_cap c \<and>
        send_step t (Attempt m, c) = (s1, c1) \<and> others xs c1 c2 \<and>
        send_step t (s1, c2) = (s2, c3) \<and> others ys c3 c4 \<and>
        send_step t (s2, c4) = (s3, c5) \<longrightarrow>
        s3 = Sent \<and>
        (ch_closed c \<or> ch_closed c4 \<or> ys \<noteq> [] \<or>
         c1 = c\<lparr>ch_buf := ch_buf c @ [m]\<rparr> \<or> c5 = c4\<lparr>ch_buf := ch_buf c4 @ [m]\<rparr>))"

lemma terminal_delivered: "t m \<Longrightarrow> delivered t m"
  unfolding delivered_def by (intro allI impI, elim conjE) (rule interrupted_delivery)

subsection \<open>The bus\<close>

record bus =
  b_subs :: "(string \<times> nat list) list"
  b_event_subs :: "(string \<times> nat list) list"
  b_chans :: "run_dto chan list"
  b_event_chans :: "run_event_dto chan list"

definition new_bus :: bus where
  "new_bus = \<lparr>b_subs = [], b_event_subs = [], b_chans = [], b_event_chans = []\<rparr>"

definition subs_of :: "(string \<times> nat list) list \<Rightarrow> string \<Rightarrow> nat list" where
  "subs_of m i = (case map_of m i of None \<Rightarrow> [] | Some cs \<Rightarrow> cs)"

definition add_sub :: "string \<Rightarrow> nat \<Rightarrow> (string \<times> nat list) list \<Rightarrow> (string \<times> nat list) list" where
  "add_sub i c m = AList.update i (subs_of m i @ [c]) m"

definition remove_sub :: "string \<Rightarrow> nat \<Rightarrow> (string \<times> nat list) list \<Rightarrow> (string \<times> nat list) list" where
  "remove_sub i c m =
     (case map_of m i of
        None \<Rightarrow> m
      | Some cs \<Rightarrow> (let cs' = removeAll c cs in if cs' = [] then AList.delete i m else AList.update i cs' m))"

definition subscribe :: "string \<Rightarrow> bus \<Rightarrow> nat \<times> bus" where
  "subscribe i b =
     (let c = length (b_chans b)
      in (c, b\<lparr>b_chans := b_chans b @ [make_chan 16], b_subs := add_sub i c (b_subs b)\<rparr>))"

definition subscribe_events :: "string \<Rightarrow> bus \<Rightarrow> nat \<times> bus" where
  "subscribe_events i b =
     (let c = length (b_event_chans b)
      in (c, b\<lparr>b_event_chans := b_event_chans b @ [make_chan 32], b_event_subs := add_sub i c (b_event_subs b)\<rparr>))"

definition close_chan :: "nat \<Rightarrow> 'a chan list \<Rightarrow> 'a chan list" where
  "close_chan c cs = (if c < length cs then cs[c := (cs ! c)\<lparr>ch_closed := True\<rparr>] else cs)"

text \<open>The function \<open>Subscribe\<close> returns; \<open>sync.Once\<close> makes the second call do nothing.\<close>

definition unsubscribe :: "string \<Rightarrow> nat \<Rightarrow> bus \<Rightarrow> bus" where
  "unsubscribe i c b =
     (if c < length (b_chans b) \<and> ch_closed (b_chans b ! c) then b
      else b\<lparr>b_subs := remove_sub i c (b_subs b), b_chans := close_chan c (b_chans b)\<rparr>)"

definition unsubscribe_events :: "string \<Rightarrow> nat \<Rightarrow> bus \<Rightarrow> bus" where
  "unsubscribe_events i c b =
     (if c < length (b_event_chans b) \<and> ch_closed (b_event_chans b ! c) then b
      else b\<lparr>b_event_subs := remove_sub i c (b_event_subs b), b_event_chans := close_chan c (b_event_chans b)\<rparr>)"

definition publish_to_all :: "('a \<Rightarrow> bool) \<Rightarrow> 'a \<Rightarrow> nat list \<Rightarrow> 'a chan list \<Rightarrow> 'a chan list" where
  "publish_to_all t m ids cs =
     fold (\<lambda>c cs. if c < length cs then cs[c := publish_to_channel t m (cs ! c)] else cs) ids cs"

definition run_terminal :: "run_dto \<Rightarrow> bool" where
  "run_terminal d = is_terminal (d_status d)"

definition event_terminal :: "run_event_dto \<Rightarrow> bool" where
  "event_terminal e = is_terminal (d_status (v_run e))"

definition copied_event :: "run_event_dto \<Rightarrow> run_event_dto" where
  "copied_event e = e\<lparr>v_run := clone_run (v_run e)\<rparr>"

definition publish_event :: "run_event_dto \<Rightarrow> bus \<Rightarrow> bus" where
  "publish_event e b =
     (if d_id (v_run e) = [] then b
      else b\<lparr>b_event_chans := publish_to_all event_terminal (copied_event e)
               (subs_of (b_event_subs b) (d_id (v_run e))) (b_event_chans b)\<rparr>)"

text \<open>The event that \<open>Publish\<close> makes of a run.\<close>

definition status_event :: "run_dto \<Rightarrow> run_event_dto" where
  "status_event d = zero_event_dto\<lparr>v_type := run_event_type (d_status d), v_run := d\<rparr>"

definition publish :: "run_dto \<Rightarrow> bus \<Rightarrow> bus" where
  "publish d b =
     (if d_id d = [] then b
      else publish_event (status_event d)
             (b\<lparr>b_chans := publish_to_all run_terminal (clone_run d)
                  (subs_of (b_subs b) (d_id d)) (b_chans b)\<rparr>))"

subsection \<open>The bus invariant\<close>

text \<open>
  Subscribed channels exist, are open and are subscribed once and to one run only; no channel holds
  more than its capacity.
\<close>

definition subs_ok :: "(string \<times> nat list) list \<Rightarrow> 'a chan list \<Rightarrow> bool" where
  "subs_ok m cs \<longleftrightarrow>
     distinct (map fst m) \<and>
     (\<forall>i. \<forall>c \<in> set (subs_of m i). c < length cs \<and> \<not> ch_closed (cs ! c)) \<and>
     (\<forall>i. distinct (subs_of m i)) \<and>
     (\<forall>i j c. c \<in> set (subs_of m i) \<longrightarrow> c \<in> set (subs_of m j) \<longrightarrow> i = j) \<and>
     (\<forall>c \<in> set cs. chan_ok c \<and> 0 < ch_cap c)"

definition bus_ok :: "bus \<Rightarrow> bool" where
  "bus_ok b \<longleftrightarrow> subs_ok (b_subs b) (b_chans b) \<and> subs_ok (b_event_subs b) (b_event_chans b)"

lemma new_bus_ok: "bus_ok new_bus"
  by (simp add: bus_ok_def new_bus_def subs_ok_def subs_of_def)

lemma subs_of_add [simp]: "subs_of (add_sub i c m) j = (if j = i then subs_of m i @ [c] else subs_of m j)"
  by (simp add: subs_of_def add_sub_def update_conv')

lemma subs_of_remove:
  "distinct (map fst m) \<Longrightarrow> subs_of (remove_sub i c m) j = (if j = i then removeAll c (subs_of m i) else subs_of m j)"
  by (auto simp: subs_of_def remove_sub_def update_conv' delete_conv' Let_def split: option.splits)

lemma subs_ok_add:
  assumes "subs_ok m cs" and "0 < n"
  shows "subs_ok (add_sub i (length cs) m) (cs @ [make_chan n])"
proof -
  have lt: "\<And>j c. c \<in> set (subs_of m j) \<Longrightarrow> c < length cs" using assms(1) by (simp add: subs_ok_def)
  then have "\<And>j. length cs \<notin> set (subs_of m j)" by blast
  then show ?thesis
    using assms lt less_SucI [OF lt]
    by (auto simp: subs_ok_def add_sub_def [symmetric] nth_append make_chan_def chan_ok_def split: if_splits)
      (auto simp: add_sub_def distinct_update)
qed

lemma subs_ok_remove:
  assumes "subs_ok m cs" and "c \<in> set (subs_of m i)"
  shows "subs_ok (remove_sub i c m) (close_chan c cs)"
proof -
  have d: "distinct (map fst m)" using assms(1) by (simp add: subs_ok_def)
  then have "distinct (map fst (remove_sub i c m))"
    by (auto simp: remove_sub_def Let_def distinct_update distinct_delete split: option.splits)
  moreover have "j \<noteq> i \<Longrightarrow> c \<notin> set (subs_of m j)" for j
    using assms by (auto simp: subs_ok_def)
  moreover have "\<forall>x \<in> set (close_chan c cs). chan_ok x \<and> 0 < ch_cap x"
    using assms(1) by (auto simp: subs_ok_def close_chan_def chan_ok_def dest: set_update_subset_insert [THEN subsetD])
  moreover have "\<not> ch_closed (close_chan c cs ! c')" if "c' \<in> set (subs_of m j)" "c' \<noteq> c" for c' j
    using that assms(1) by (auto simp: subs_ok_def close_chan_def)
  moreover have "length (close_chan c cs) = length cs" by (simp add: close_chan_def)
  ultimately show ?thesis
    using assms(1) by (auto simp: subs_ok_def subs_of_remove [OF d] distinct_removeAll split: if_splits)
qed

lemma publish_to_all_length [simp]: "length (publish_to_all t m ids cs) = length cs"
  unfolding publish_to_all_def by (induction ids arbitrary: cs) auto

lemma publish_to_all_nth:
  assumes "distinct ids" and "c < length cs"
  shows "publish_to_all t m ids cs ! c = (if c \<in> set ids then publish_to_channel t m (cs ! c) else cs ! c)"
  using assms unfolding publish_to_all_def
proof (induction ids arbitrary: cs)
  case (Cons i ids)
  let ?cs = "if i < length cs then cs[i := publish_to_channel t m (cs ! i)] else cs"
  have "length ?cs = length cs" by simp
  then have "fold (\<lambda>c cs. if c < length cs then cs[c := publish_to_channel t m (cs ! c)] else cs) ids ?cs ! c =
      (if c \<in> set ids then publish_to_channel t m (?cs ! c) else ?cs ! c)"
    using Cons by (intro Cons.IH) auto
  then show ?case using Cons.prems by (auto simp: nth_list_update)
qed simp

lemma subs_ok_publish:
  assumes "subs_ok m cs"
  shows "subs_ok m (publish_to_all t x (subs_of m i) cs)"
proof -
  let ?cs = "publish_to_all t x (subs_of m i) cs"
  have d: "distinct (subs_of m i)" using assms by (simp add: subs_ok_def)
  have n: "\<And>c. c < length cs \<Longrightarrow> ?cs ! c = (if c \<in> set (subs_of m i) then publish_to_channel t x (cs ! c) else cs ! c)"
    by (rule publish_to_all_nth [OF d])
  have "\<And>c. c < length cs \<Longrightarrow> ch_closed (?cs ! c) = ch_closed (cs ! c)" using n publish_kept(2) by metis
  moreover have "\<forall>c \<in> set ?cs. chan_ok c \<and> 0 < ch_cap c"
  proof
    fix x' assume "x' \<in> set ?cs"
    then obtain c where c: "c < length cs" "x' = ?cs ! c" by (auto simp: in_set_conv_nth)
    then have "chan_ok (cs ! c) \<and> 0 < ch_cap (cs ! c)" using assms by (simp add: subs_ok_def)
    then show "chan_ok x' \<and> 0 < ch_cap x'" using n [OF c(1)] c(2) publish_kept by (metis (full_types))
  qed
  ultimately show ?thesis using assms by (simp add: subs_ok_def)
qed

lemma subscribe_ok: "bus_ok b \<Longrightarrow> bus_ok (snd (subscribe i b))"
  by (simp add: bus_ok_def subscribe_def Let_def subs_ok_add)

lemma subscribe_events_ok: "bus_ok b \<Longrightarrow> bus_ok (snd (subscribe_events i b))"
  by (simp add: bus_ok_def subscribe_events_def Let_def subs_ok_add)

lemma unsubscribe_ok:
  "bus_ok b \<Longrightarrow> c \<in> set (subs_of (b_subs b) i) \<Longrightarrow> bus_ok (unsubscribe i c b)"
  by (auto simp: bus_ok_def unsubscribe_def subs_ok_remove)

lemma unsubscribe_events_ok:
  "bus_ok b \<Longrightarrow> c \<in> set (subs_of (b_event_subs b) i) \<Longrightarrow> bus_ok (unsubscribe_events i c b)"
  by (auto simp: bus_ok_def unsubscribe_events_def subs_ok_remove)

lemma publish_event_bus_ok: "bus_ok b \<Longrightarrow> bus_ok (publish_event e b)"
  by (auto simp: bus_ok_def publish_event_def subs_ok_publish)

lemma publish_bus_ok: "bus_ok b \<Longrightarrow> bus_ok (publish d b)"
proof (cases "d_id d = []")
  case False
  assume "bus_ok b"
  then have "bus_ok (b\<lparr>b_chans := publish_to_all run_terminal (clone_run d)
                  (subs_of (b_subs b) (d_id d)) (b_chans b)\<rparr>)"
    by (simp add: bus_ok_def subs_ok_publish)
  with False show ?thesis by (simp add: publish_def publish_event_bus_ok)
qed (simp add: publish_def)

lemma publish_frame:
  "b_subs (publish d b) = b_subs b" "b_event_subs (publish d b) = b_event_subs b"
  by (simp_all add: publish_def publish_event_def)

text \<open>What a publication leaves in the channels of the run.\<close>

lemma publish_chan:
  assumes "bus_ok b" and "d_id d \<noteq> []" and "c < length (b_chans b)"
  shows "b_chans (publish d b) ! c =
    (if c \<in> set (subs_of (b_subs b) (d_id d))
     then publish_to_channel run_terminal (clone_run d) (b_chans b ! c) else b_chans b ! c)"
  using assms publish_to_all_nth [of "subs_of (b_subs b) (d_id d)" c "b_chans b"]
  by (simp add: publish_def publish_event_def bus_ok_def subs_ok_def)

lemma publish_event_chan:
  assumes "bus_ok b" and "d_id (v_run e) \<noteq> []" and "c < length (b_event_chans b)"
  shows "b_event_chans (publish_event e b) ! c =
    (if c \<in> set (subs_of (b_event_subs b) (d_id (v_run e)))
     then publish_to_channel event_terminal (copied_event e) (b_event_chans b ! c)
     else b_event_chans b ! c)"
  using assms publish_to_all_nth [of "subs_of (b_event_subs b) (d_id (v_run e))" c "b_event_chans b"]
  by (simp add: publish_event_def bus_ok_def subs_ok_def)

subsection \<open>Publishing, step by step\<close>

text \<open>
  \<open>Publish\<close> and \<open>PublishEvent\<close> as the goroutine that runs them: the channels of the run are listed under
  the read lock (one step), then the loop over the list sends to one channel after the other, and every
  \<open>select\<close> is a step of its own. \<open>(ids, s)\<close> is such a loop: the channels left, the first of them being
  sent to.
\<close>

definition send_on :: "('a \<Rightarrow> bool) \<Rightarrow> nat \<Rightarrow> 'a sender \<Rightarrow> 'a chan list \<Rightarrow> 'a sender \<times> 'a chan list" where
  "send_on t c s cs =
     (if c < length cs then (case send_step t (s, cs ! c) of (s', ch) \<Rightarrow> (s', cs[c := ch])) else (Sent, cs))"

fun loop_step ::
  "('a \<Rightarrow> bool) \<Rightarrow> 'a \<Rightarrow> (nat list \<times> 'a sender) \<times> 'a chan list \<Rightarrow> (nat list \<times> 'a sender) \<times> 'a chan list" where
  "loop_step t m (([], s), cs) = (([], s), cs)"
| "loop_step t m ((c # ids, s), cs) =
     (if s = Sent then ((ids, Attempt m), cs)
      else (case send_on t c s cs of (s', cs') \<Rightarrow> ((c # ids, s'), cs')))"

datatype publisher =
    Publish run_dto
  | Run_Loop run_dto "nat list \<times> run_dto sender"
  | Publish_Event run_event_dto
  | Event_Loop run_event_dto "nat list \<times> run_event_dto sender"
  | Published

fun pub_step :: "publisher \<times> bus \<Rightarrow> publisher \<times> bus" where
  "pub_step (Publish d, b) =
     (if d_id d = [] then (Published, b)
      else (Run_Loop d (subs_of (b_subs b) (d_id d), Attempt (clone_run d)), b))"
| "pub_step (Run_Loop d l, b) =
     (if fst l = [] then (Publish_Event (status_event d), b)
      else (case loop_step run_terminal (clone_run d) (l, b_chans b) of
              (l', cs) \<Rightarrow> (Run_Loop d l', b\<lparr>b_chans := cs\<rparr>)))"
| "pub_step (Publish_Event e, b) =
     (if d_id (v_run e) = [] then (Published, b)
      else (Event_Loop e (subs_of (b_event_subs b) (d_id (v_run e)), Attempt (copied_event e)), b))"
| "pub_step (Event_Loop e l, b) =
     (if fst l = [] then (Published, b)
      else (case loop_step event_terminal (copied_event e) (l, b_event_chans b) of
              (l', cs) \<Rightarrow> (Event_Loop e l', b\<lparr>b_event_chans := cs\<rparr>)))"
| "pub_step (Published, b) = (Published, b)"

text \<open>Alone, the goroutine does what \<^const>\<open>publish\<close> says.\<close>

definition reaches :: "('s \<Rightarrow> 's) \<Rightarrow> 's \<Rightarrow> 's \<Rightarrow> bool" where
  "reaches f x y \<longleftrightarrow> (\<exists>n. (f ^^ n) x = y)"

lemma reaches_refl: "reaches f x x"
  unfolding reaches_def by (rule exI [of _ 0]) simp

lemma reaches_trans: "reaches f x y \<Longrightarrow> reaches f y z \<Longrightarrow> reaches f x z"
  unfolding reaches_def by (metis comp_apply funpow_add)

lemma reaches_step: "reaches f (f x) y \<Longrightarrow> reaches f x y"
  unfolding reaches_def by (metis funpow_Suc_right comp_apply)

lemma loop_channel:
  assumes "c < length cs"
  shows "reaches (loop_step t m) ((c # ids, Attempt m), cs) ((ids, Attempt m), cs[c := publish_to_channel t m (cs ! c)])"
proof -
  let ?f = "loop_step t m"
  have stay: "reaches ?f ((c # ids, Sent), cs') ((ids, Attempt m), cs')" for cs'
    by (rule reaches_step) (simp add: reaches_refl)
  have again: "reaches ?f ((c # ids, Again m), cs') ((ids, Attempt m), cs'[c := snd (send_step t (Again m, cs' ! c))])"
    if "c < length cs'" for cs'
    using that stay by (intro reaches_step [of ?f "((c # ids, Again m), cs')"]) (simp add: send_on_def)
  have drain: "reaches ?f ((c # ids, Drain m), cs') ((ids, Attempt m), cs'[c := snd (send_step t (Again m, snd (try_recv (cs' ! c))))])"
    if "c < length cs'" for cs'
    using that again [of "cs'[c := snd (try_recv (cs' ! c))]"]
    by (intro reaches_step [of ?f "((c # ids, Drain m), cs')"]) (simp add: send_on_def)
  obtain s ch where s: "send_step t (Attempt m, cs ! c) = (s, ch)" by force
  then have first: "?f ((c # ids, Attempt m), cs) = ((c # ids, s), cs[c := ch])"
    using assms by (simp add: send_on_def)
  consider "s = Sent" | "s = Drain m" "ch = cs ! c"
    using s by (auto simp: try_send_def split: if_splits)
  then show ?thesis
  proof cases
    case 1
    then have "publish_to_channel t m (cs ! c) = ch" using s by (simp add: publish_to_channel_def three_steps)
    then show ?thesis using first 1 stay by (intro reaches_step [of ?f "((c # ids, Attempt m), cs)"]) simp
  next
    case 2
    then have "publish_to_channel t m (cs ! c) = snd (send_step t (Again m, snd (try_recv (cs ! c))))"
      using s by (simp add: publish_to_channel_def three_steps)
    then show ?thesis using first 2 drain [OF assms]
      by (intro reaches_step [of ?f "((c # ids, Attempt m), cs)"]) simp
  qed
qed

lemma loop_all:
  "(\<And>c. c \<in> set ids \<Longrightarrow> c < length cs) \<Longrightarrow>
     reaches (loop_step t m) ((ids, Attempt m), cs) (([], Attempt m), publish_to_all t m ids cs)"
proof (induction ids arbitrary: cs)
  case (Cons c ids)
  let ?cs = "cs[c := publish_to_channel t m (cs ! c)]"
  have c: "c < length cs" using Cons.prems by simp
  have "reaches (loop_step t m) ((ids, Attempt m), ?cs) (([], Attempt m), publish_to_all t m ids ?cs)"
    using Cons.prems by (intro Cons.IH) simp
  then show ?case using reaches_trans [OF loop_channel [OF c]] c by (simp add: publish_to_all_def)
qed (simp add: publish_to_all_def reaches_refl)

lemma loop_done: "fst l = [] \<Longrightarrow> (loop_step t m ^^ n) (l, cs) = (l, cs)"
  by (induction n) (cases l; simp)+

lemma bus_same:
  "b_chans b = cs \<Longrightarrow> b\<lparr>b_chans := cs\<rparr> = b" "b_event_chans b = es \<Longrightarrow> b\<lparr>b_event_chans := es\<rparr> = b"
  by auto

lemma run_loop_reaches:
  "(loop_step run_terminal (clone_run d) ^^ n) (l, b_chans b) = (l', cs') \<Longrightarrow>
     reaches pub_step (Run_Loop d l, b) (Run_Loop d l', b\<lparr>b_chans := cs'\<rparr>)"
proof (induction n arbitrary: l b)
  case (Suc n)
  show ?case
  proof (cases "fst l = []")
    case True
    then show ?thesis using Suc.prems by (simp add: loop_done bus_same reaches_refl del: funpow.simps)
  next
    case False
    obtain l1 cs1 where st: "loop_step run_terminal (clone_run d) (l, b_chans b) = (l1, cs1)" by (rule prod.exhaust)
    have "(loop_step run_terminal (clone_run d) ^^ n) (l1, b_chans (b\<lparr>b_chans := cs1\<rparr>)) = (l', cs')"
      using Suc.prems by (simp add: funpow_Suc_right st del: funpow.simps)
    from Suc.IH [OF this] show ?thesis
      using False st by (intro reaches_step [of pub_step "(Run_Loop d l, b)"]) simp
  qed
qed (simp add: reaches_refl bus_same)

lemma event_loop_reaches:
  "(loop_step event_terminal (copied_event e) ^^ n) (l, b_event_chans b) = (l', cs') \<Longrightarrow>
     reaches pub_step (Event_Loop e l, b) (Event_Loop e l', b\<lparr>b_event_chans := cs'\<rparr>)"
proof (induction n arbitrary: l b)
  case (Suc n)
  show ?case
  proof (cases "fst l = []")
    case True
    then show ?thesis using Suc.prems by (simp add: loop_done bus_same reaches_refl del: funpow.simps)
  next
    case False
    obtain l1 cs1 where st: "loop_step event_terminal (copied_event e) (l, b_event_chans b) = (l1, cs1)" by (rule prod.exhaust)
    have "(loop_step event_terminal (copied_event e) ^^ n) (l1, b_event_chans (b\<lparr>b_event_chans := cs1\<rparr>)) = (l', cs')"
      using Suc.prems by (simp add: funpow_Suc_right st del: funpow.simps)
    from Suc.IH [OF this] show ?thesis
      using False st by (intro reaches_step [of pub_step "(Event_Loop e l, b)"]) simp
  qed
qed (simp add: reaches_refl bus_same)

lemma publish_event_reaches:
  assumes "bus_ok b"
  shows "reaches pub_step (Publish_Event e, b) (Published, publish_event e b)"
proof (cases "d_id (v_run e) = []")
  case False
  let ?ids = "subs_of (b_event_subs b) (d_id (v_run e))"
  let ?cs = "publish_to_all event_terminal (copied_event e) ?ids (b_event_chans b)"
  obtain n where "(loop_step event_terminal (copied_event e) ^^ n) ((?ids, Attempt (copied_event e)), b_event_chans b) =
      (([], Attempt (copied_event e)), ?cs)"
    using assms loop_all [of ?ids "b_event_chans b" event_terminal "copied_event e"]
    by (auto simp: reaches_def bus_ok_def subs_ok_def)
  from event_loop_reaches [OF this]
  have "reaches pub_step (Publish_Event e, b) (Event_Loop e ([], Attempt (copied_event e)), b\<lparr>b_event_chans := ?cs\<rparr>)"
    using False by (intro reaches_step [of pub_step "(Publish_Event e, b)"]) simp
  moreover have "reaches pub_step (Event_Loop e ([], Attempt (copied_event e)), b\<lparr>b_event_chans := ?cs\<rparr>)
      (Published, publish_event e b)"
    using False by (intro reaches_step [of pub_step "(Event_Loop e ([], Attempt (copied_event e)), b\<lparr>b_event_chans := ?cs\<rparr>)"])
      (simp add: publish_event_def copied_event_def reaches_refl)
  ultimately show ?thesis by (rule reaches_trans)
qed (auto intro: reaches_step [of pub_step "(Publish_Event e, b)"] simp: publish_event_def reaches_refl)

lemma publish_reaches:
  assumes "bus_ok b"
  shows "reaches pub_step (Publish d, b) (Published, publish d b)"
proof (cases "d_id d = []")
  case False
  let ?ids = "subs_of (b_subs b) (d_id d)"
  let ?b = "b\<lparr>b_chans := publish_to_all run_terminal (clone_run d) ?ids (b_chans b)\<rparr>"
  have "bus_ok ?b" using assms by (simp add: bus_ok_def subs_ok_publish)
  from publish_event_reaches [OF this]
  have event: "reaches pub_step (Publish_Event (status_event d), ?b) (Published, publish d b)"
    using False by (simp add: publish_def)
  obtain n where "(loop_step run_terminal (clone_run d) ^^ n) ((?ids, Attempt (clone_run d)), b_chans b) =
      (([], Attempt (clone_run d)), b_chans ?b)"
    using assms loop_all [of ?ids "b_chans b" run_terminal "clone_run d"]
    by (auto simp: reaches_def bus_ok_def subs_ok_def)
  from run_loop_reaches [OF this]
  have "reaches pub_step (Publish d, b) (Run_Loop d ([], Attempt (clone_run d)), ?b)"
    using False by (intro reaches_step [of pub_step "(Publish d, b)"]) simp
  moreover have "reaches pub_step (Run_Loop d ([], Attempt (clone_run d)), ?b) (Published, publish d b)"
    using event by (intro reaches_step [of pub_step "(Run_Loop d ([], Attempt (clone_run d)), ?b)"]) simp
  ultimately show ?thesis by (rule reaches_trans)
qed (auto intro: reaches_step [of pub_step "(Publish d, b)"] simp: publish_def reaches_refl)

subsection \<open>Publishers, subscribers and receivers interleaved\<close>

text \<open>
  Any number of goroutines publish on one bus: one of them makes a step, a receiver takes a message, a
  subscription is made or given up, or a new publication begins.
\<close>

inductive bus_step :: "publisher list \<times> bus \<Rightarrow> publisher list \<times> bus \<Rightarrow> bool" where
  publisher: "i < length ps \<Longrightarrow> pub_step (ps ! i, b) = (p, b') \<Longrightarrow> bus_step (ps, b) (ps[i := p], b')"
| run_published: "bus_step (ps, b) (ps @ [Publish d], b)"
| event_published: "bus_step (ps, b) (ps @ [Publish_Event e], b)"
| run_received: "c < length (b_chans b) \<Longrightarrow>
    bus_step (ps, b) (ps, b\<lparr>b_chans := (b_chans b)[c := snd (try_recv (b_chans b ! c))]\<rparr>)"
| event_received: "c < length (b_event_chans b) \<Longrightarrow>
    bus_step (ps, b) (ps, b\<lparr>b_event_chans := (b_event_chans b)[c := snd (try_recv (b_event_chans b ! c))]\<rparr>)"
| run_subscribed: "bus_step (ps, b) (ps, snd (subscribe i b))"
| event_subscribed: "bus_step (ps, b) (ps, snd (subscribe_events i b))"
| run_unsubscribed: "c \<in> set (subs_of (b_subs b) i) \<Longrightarrow> bus_step (ps, b) (ps, unsubscribe i c b)"
| event_unsubscribed: "c \<in> set (subs_of (b_event_subs b) i) \<Longrightarrow> bus_step (ps, b) (ps, unsubscribe_events i c b)"

inductive bus_reach :: "publisher list \<times> bus \<Rightarrow> bool" where
  start: "bus_reach ([], new_bus)"
| step: "bus_reach x \<Longrightarrow> bus_step x y \<Longrightarrow> bus_reach y"

text \<open>What a step may change in a list of channels without harm to the invariant.\<close>

lemma subs_ok_update:
  assumes "subs_ok m cs" and "ch_cap x = ch_cap (cs ! c)" "ch_closed x = ch_closed (cs ! c)"
    and "c < length cs \<Longrightarrow> chan_ok (cs ! c) \<Longrightarrow> chan_ok x"
  shows "subs_ok m (cs[c := x])"
proof (cases "c < length cs")
  case True
  then have "chan_ok x \<and> 0 < ch_cap x" using assms by (simp add: subs_ok_def)
  then have "\<forall>y \<in> set (cs[c := x]). chan_ok y \<and> 0 < ch_cap y"
    using assms(1) set_update_subset_insert [of cs c x] by (auto simp: subs_ok_def)
  moreover have "ch_closed (cs[c := x] ! c') = ch_closed (cs ! c')" if "c' < length cs" for c'
    using assms(3) that by (cases "c' = c") simp_all
  ultimately show ?thesis using assms(1) by (simp add: subs_ok_def)
qed (use assms(1) in \<open>simp add: not_less list_update_beyond\<close>)

lemma try_recv_kept:
  "ch_cap (snd (try_recv c)) = ch_cap c" "ch_closed (snd (try_recv c)) = ch_closed c"
  "chan_ok c \<Longrightarrow> chan_ok (snd (try_recv c))"
  by (auto simp: try_recv_def chan_ok_def split: list.splits)

lemma subs_ok_loop:
  assumes "subs_ok m cs" and "loop_step t x (l, cs) = (l', cs')"
  shows "subs_ok m cs'"
proof -
  obtain ids s where l: "l = (ids, s)" by (rule prod.exhaust)
  show ?thesis
  proof (cases ids)
    case (Cons c ids')
    obtain s' ch where st: "send_step t (s, cs ! c) = (s', ch)" by (rule prod.exhaust)
    have "cs' = cs \<or> cs' = cs[c := ch]"
      using assms(2) l Cons st by (auto simp: send_on_def split: if_splits)
    moreover have "subs_ok m (cs[c := ch])"
      using send_step_kept(1,2) [of t s "cs ! c"] send_step_kept(3) [of "cs ! c" t s] st by (intro subs_ok_update assms(1)) simp_all
    ultimately show ?thesis using assms(1) by auto
  qed (use assms l in simp)
qed

lemma pub_step_ok:
  assumes "bus_ok b" and "pub_step (p, b) = (p', b')"
  shows "bus_ok b'"
proof (cases p)
  case (Run_Loop d l)
  obtain l' cs where st: "loop_step run_terminal (clone_run d) (l, b_chans b) = (l', cs)" by (rule prod.exhaust)
  then show ?thesis using assms Run_Loop subs_ok_loop [OF _ st] by (auto simp: bus_ok_def split: if_splits)
next
  case (Event_Loop e l)
  obtain l' cs where st: "loop_step event_terminal (copied_event e) (l, b_event_chans b) = (l', cs)" by (rule prod.exhaust)
  then show ?thesis using assms Event_Loop subs_ok_loop [OF _ st] by (auto simp: bus_ok_def split: if_splits)
qed (use assms in \<open>auto split: if_splits\<close>)

lemma bus_step_ok: "bus_step x y \<Longrightarrow> bus_ok (snd x) \<Longrightarrow> bus_ok (snd y)"
proof (induction rule: bus_step.induct)
  case (run_received c b ps)
  then show ?case by (simp add: bus_ok_def subs_ok_update try_recv_kept)
next
  case (event_received c b ps)
  then show ?case by (simp add: bus_ok_def subs_ok_update try_recv_kept)
qed (simp_all add: pub_step_ok subscribe_ok subscribe_events_ok unsubscribe_ok unsubscribe_events_ok)

lemma bus_reach_ok: "bus_reach x \<Longrightarrow> bus_ok (snd x)"
  by (induction rule: bus_reach.induct) (simp_all add: new_bus_ok bus_step_ok)

text \<open>A publication that nothing interrupts, and a schedule of publishers only.\<close>

lemma alone:
  "bus_reach (ps @ [p], b) \<Longrightarrow> (pub_step ^^ n) (p, b) = (p', b') \<Longrightarrow> bus_reach (ps @ [p'], b')"
proof (induction n arbitrary: p b)
  case (Suc n)
  obtain p1 b1 where st: "pub_step (p, b) = (p1, b1)" by (rule prod.exhaust)
  then have "bus_step (ps @ [p], b) (ps @ [p1], b1)"
    using bus_step.publisher [of "length ps" "ps @ [p]" b p1 b1] by simp
  then have "bus_reach (ps @ [p1], b1)" by (rule bus_reach.step [OF Suc.prems(1)])
  then show ?case using Suc.prems(2) st by (intro Suc.IH) (simp_all add: funpow_Suc_right del: funpow.simps)
qed simp

lemma published_alone: "bus_reach (ps, b) \<Longrightarrow> bus_reach (ps @ [Published], publish d b)"
  using alone [OF bus_reach.step [OF _ run_published]] publish_reaches bus_reach_ok
  unfolding reaches_def by (metis snd_conv)

fun pub_moves :: "nat list \<Rightarrow> publisher list \<times> bus \<Rightarrow> publisher list \<times> bus" where
  "pub_moves [] x = x"
| "pub_moves (i # sched) (ps, b) =
     (case pub_step (ps ! i, b) of (p, b') \<Rightarrow> pub_moves sched (ps[i := p], b'))"

lemma pub_moves_steps:
  "\<forall>i \<in> set sched. i < length (fst x) \<Longrightarrow> bus_step\<^sup>*\<^sup>* x (pub_moves sched x)"
proof (induction sched x rule: pub_moves.induct)
  case (2 i sched ps b)
  obtain p b' where st: "pub_step (ps ! i, b) = (p, b')" by (rule prod.exhaust)
  have "bus_step (ps, b) (ps[i := p], b')" using 2(2) st by (intro bus_step.publisher) simp_all
  then show ?case using 2 st by (auto intro: converse_rtranclp_into_rtranclp)
qed simp

subsection \<open>Properties\<close>

text \<open>
  C18: a subscriber gets the end of a run. Published without interruption, a run changes the channels
  subscribed to its id and no other: each of them holds the run last if it had room; if it was full, a
  terminal run takes the place of the oldest message and a run that is not terminal is dropped, and
  nothing else in the buffer changes. The same holds of the event channels and the event made of the
  run. This is what the publishing goroutine does step by step when it is alone. When other goroutines
  move between its steps, a terminal message still gets into every channel that stays open unless another
  publisher puts a message into the slot that was freed for it.
\<close>

theorem bus_delivers_terminal:
  assumes "bus_ok b" and "d_id d \<noteq> []"
  shows "(\<forall>c < length (b_chans b). b_chans (publish d b) ! c =
       (if c \<in> set (subs_of (b_subs b) (d_id d))
        then (b_chans b ! c)\<lparr>ch_buf := after_publish (ch_cap (b_chans b ! c)) (is_terminal (d_status d))
               (clone_run d) (ch_buf (b_chans b ! c))\<rparr>
        else b_chans b ! c)) \<and>
    (\<forall>c < length (b_event_chans b). b_event_chans (publish d b) ! c =
       (if c \<in> set (subs_of (b_event_subs b) (d_id d))
        then (b_event_chans b ! c)\<lparr>ch_buf := after_publish (ch_cap (b_event_chans b ! c)) (is_terminal (d_status d))
               (zero_event_dto\<lparr>v_type := run_event_type (d_status d), v_run := clone_run d\<rparr>)
               (ch_buf (b_event_chans b ! c))\<rparr>
        else b_event_chans b ! c)) \<and>
    bus_ok (publish d b) \<and> b_subs (publish d b) = b_subs b \<and> b_event_subs (publish d b) = b_event_subs b \<and>
    length (b_chans (publish d b)) = length (b_chans b) \<and>
    length (b_event_chans (publish d b)) = length (b_event_chans b) \<and>
    reaches pub_step (Publish d, b) (Published, publish d b) \<and>
    (is_terminal (d_status d) \<longrightarrow>
       delivered run_terminal (clone_run d) \<and>
       delivered event_terminal (zero_event_dto\<lparr>v_type := run_event_type (d_status d), v_run := clone_run d\<rparr>))"
proof -
  let ?b = "b\<lparr>b_chans := publish_to_all run_terminal (clone_run d) (subs_of (b_subs b) (d_id d)) (b_chans b)\<rparr>"
  have b: "bus_ok ?b" using assms(1) by (simp add: bus_ok_def subs_ok_publish)
  have p: "publish d b = publish_event (status_event d) ?b" using assms(2) by (simp add: publish_def)
  have copy: "copied_event (status_event d) = zero_event_dto\<lparr>v_type := run_event_type (d_status d), v_run := clone_run d\<rparr>"
    by (simp add: copied_event_def status_event_def)
  have id: "d_id (v_run (status_event d)) = d_id d" by (simp add: status_event_def)
  have fin: "event_terminal (zero_event_dto\<lparr>v_type := run_event_type (d_status d), v_run := clone_run d\<rparr>) = is_terminal (d_status d)"
    by (simp add: event_terminal_def)
  have runs: "b_chans (publish d b) ! c =
       (if c \<in> set (subs_of (b_subs b) (d_id d))
        then (b_chans b ! c)\<lparr>ch_buf := after_publish (ch_cap (b_chans b ! c)) (is_terminal (d_status d))
               (clone_run d) (ch_buf (b_chans b ! c))\<rparr>
        else b_chans b ! c)" if "c < length (b_chans b)" for c
    using assms(1) that publish_exact [of "b_chans b ! c" run_terminal "clone_run d"]
    by (auto simp: publish_chan [OF assms that] bus_ok_def subs_ok_def run_terminal_def)
  have events: "b_event_chans (publish d b) ! c =
       (if c \<in> set (subs_of (b_event_subs b) (d_id d))
        then (b_event_chans b ! c)\<lparr>ch_buf := after_publish (ch_cap (b_event_chans b ! c)) (is_terminal (d_status d))
               (zero_event_dto\<lparr>v_type := run_event_type (d_status d), v_run := clone_run d\<rparr>)
               (ch_buf (b_event_chans b ! c))\<rparr>
        else b_event_chans b ! c)" if "c < length (b_event_chans b)" for c
    using assms that publish_event_chan [OF b, of "status_event d" c]
      publish_exact [of "b_event_chans b ! c" event_terminal "copied_event (status_event d)"]
    by (auto simp: p copy id fin bus_ok_def subs_ok_def)
  have lens: "length (b_chans (publish d b)) = length (b_chans b)"
      "length (b_event_chans (publish d b)) = length (b_event_chans b)"
    by (simp_all add: publish_def publish_event_def)
  have sent: "is_terminal (d_status d) \<longrightarrow>
       delivered run_terminal (clone_run d) \<and>
       delivered event_terminal (zero_event_dto\<lparr>v_type := run_event_type (d_status d), v_run := clone_run d\<rparr>)"
    by (simp add: terminal_delivered fin run_terminal_def)
  show ?thesis
    by (intro conjI sent lens publish_bus_ok publish_frame publish_reaches assms(1)) (use runs events in blast)+
qed

definition demo_done :: run_dto where
  "demo_done = zero_dto\<lparr>d_id := ''r1'', d_status := ''completed''\<rparr>"

definition demo_going :: run_dto where
  "demo_going = zero_dto\<lparr>d_id := ''r1'', d_status := ''running''\<rparr>"

definition watched_bus :: bus where
  "watched_bus = snd (subscribe ''r1'' new_bus)"

text \<open>The bus after the subscriber has slept through \<open>n\<close> messages.\<close>

definition slept_bus :: "nat \<Rightarrow> bus" where
  "slept_bus n = (publish demo_going ^^ n) watched_bus"

lemma watched_bus_ok: "bus_ok watched_bus"
  unfolding watched_bus_def by (intro subscribe_ok new_bus_ok)

lemma slept_bus_reach: "bus_reach (replicate n Published, slept_bus n)"
proof (induction n)
  case 0
  have "bus_step ([], new_bus) ([], watched_bus)" unfolding watched_bus_def by (rule run_subscribed)
  then show ?case by (simp add: slept_bus_def bus_reach.step [OF bus_reach.start])
next
  case (Suc n)
  from published_alone [OF this, of demo_going] show ?case
    by (simp add: slept_bus_def replicate_append_same)
qed

lemma slept_bus_buffers:
  "n \<le> 16 \<Longrightarrow> slept_bus n =
     \<lparr>b_subs = [(''r1'', [0])], b_event_subs = [],
      b_chans = [\<lparr>ch_cap = 16, ch_buf = replicate n (clone_run demo_going), ch_closed = False\<rparr>], b_event_chans = []\<rparr>"
proof (induction n)
  case 0
  then show ?case
    by (simp add: slept_bus_def watched_bus_def subscribe_def new_bus_def add_sub_def subs_of_def make_chan_def Let_def)
next
  case (Suc n)
  then have "slept_bus (Suc n) = publish demo_going (slept_bus n)" and "n < 16" by (simp_all add: slept_bus_def)
  then show ?case using Suc
    by (simp add: publish_def publish_event_def publish_to_all_def subs_of_def demo_going_def status_event_def
        publish_exact chan_ok_def after_publish_def replicate_append_same)
qed

theorem bus_delivers_terminal_witness:
  "b_chans (publish demo_done (slept_bus 16)) ! 0 =
     \<lparr>ch_cap = 16, ch_buf = replicate 15 (clone_run demo_going) @ [clone_run demo_done], ch_closed = False\<rparr>"
proof -
  have b: "bus_ok (slept_bus 16)" using bus_reach_ok [OF slept_bus_reach] by simp
  have "d_id demo_done \<noteq> []" by (simp add: demo_done_def)
  note bus_delivers_terminal [OF b this, THEN conjunct1]
  then show ?thesis
    by (simp add: slept_bus_buffers demo_done_def subs_of_def after_publish_def eval_nat_numeral)
qed

text \<open>
  C0: the end of a run can be lost. Two goroutines publish on one run, one of them its end, while a
  subscriber that has not read yet has a full channel. The sender of the end frees a slot, the other
  sender takes it, and the last \<open>select\<close> drops the end: the channel is still open and subscribed, nobody has
  received from it, the publication is over and no message in it is terminal.
\<close>

theorem terminal_message_lost:
  "\<exists>ps b b'. bus_reach (ps @ [Publish demo_done, Publish demo_going], b) \<and>
     pub_moves (map (\<lambda>k. length ps + k) [0, 0, 0, 1, 1, 0, 0, 0, 0, 0, 1, 1, 1, 1])
       (ps @ [Publish demo_done, Publish demo_going], b) = (ps @ [Published, Published], b') \<and>
     is_terminal (d_status demo_done) \<and> 0 \<in> set (subs_of (b_subs b') (d_id demo_done)) \<and>
     \<not> ch_closed (b_chans b' ! 0) \<and> length (ch_buf (b_chans b' ! 0)) = 16 \<and>
     (\<forall>m \<in> set (ch_buf (b_chans b' ! 0)). \<not> is_terminal (d_status m))"
proof -
  let ?ps = "replicate 16 Published" and ?b = "slept_bus 16"
  have "bus_reach (?ps @ [Publish demo_done], ?b)" by (rule bus_reach.step [OF slept_bus_reach run_published])
  from bus_reach.step [OF this run_published [where d = demo_going]]
  have reach: "bus_reach (?ps @ [Publish demo_done, Publish demo_going], ?b)" by simp
  have moves: "pub_moves (map (\<lambda>k. length ?ps + k) [0, 0, 0, 1, 1, 0, 0, 0, 0, 0, 1, 1, 1, 1])
       (?ps @ [Publish demo_done, Publish demo_going], ?b) = (?ps @ [Published, Published], ?b)"
    unfolding slept_bus_buffers [OF order_refl]
    by (simp add: nth_append list_update_append subs_of_def demo_done_def demo_going_def send_on_def try_send_def
        try_recv_def run_terminal_def eval_nat_numeral)
  have "is_terminal (d_status demo_done) \<and> 0 \<in> set (subs_of (b_subs ?b) (d_id demo_done)) \<and>
     \<not> ch_closed (b_chans ?b ! 0) \<and> length (ch_buf (b_chans ?b ! 0)) = 16 \<and>
     (\<forall>m \<in> set (ch_buf (b_chans ?b ! 0)). \<not> is_terminal (d_status m))"
    unfolding slept_bus_buffers [OF order_refl] by (simp add: subs_of_def demo_done_def demo_going_def is_terminal_def)
  with reach moves show ?thesis by blast
qed

end
