(* ===== verification/Sha256.thy ===== *)
theory Sha256
  imports Go_Base "HOL-Library.Word"
begin

section \<open>crypto/sha256, as the gateway uses it\<close>

text \<open>
  The gateway derives the id of an idempotent run from \<open>sha256.Sum256\<close>. The function is the standard
  library's and is fully specified by FIPS 180-4; it is defined here on 32-bit words so that the ids
  of the model are the ids of the code.
\<close>

unbundle bit_operations_syntax

type_synonym w32 = "32 word"

definition rotr :: "nat \<Rightarrow> w32 \<Rightarrow> w32" where
  "rotr n x = word_rotr n x"

text \<open>
  The constants are computed as the standard defines them: the first 32 bits of the fractional parts of
  the cube roots (round constants) and square roots (initial state) of the first primes. \<open>iroot k b n\<close>
  is the integer \<open>k\<close>-th root of \<open>n\<close>, found bit by bit from bit \<open>b - 1\<close> down.
\<close>

fun iroot_bits :: "nat \<Rightarrow> nat \<Rightarrow> int \<Rightarrow> int \<Rightarrow> int" where
  "iroot_bits k 0 n r = r"
| "iroot_bits k (Suc b) n r = iroot_bits k b n (if (r + 2 ^ b) ^ k \<le> n then r + 2 ^ b else r)"

definition root_fraction :: "nat \<Rightarrow> int \<Rightarrow> w32" where
  "root_fraction k p = word_of_int (iroot_bits k 40 (p * 2 ^ (32 * k)) 0)"

definition first_primes :: "nat \<Rightarrow> int list" where
  "first_primes n =
     map int (take n (filter (\<lambda>p. list_all (\<lambda>q. p mod q \<noteq> 0) [2..<p]) [2..<312]))"

definition sha_k :: "w32 list" where
  "sha_k = map (root_fraction 3) (first_primes 64)"

definition sha_init :: "w32 list" where
  "sha_init = map (root_fraction 2) [2, 3, 5, 7, 11, 13, 17, 19]"

definition be_bytes :: "nat \<Rightarrow> int \<Rightarrow> string" where
  "be_bytes k n = map (\<lambda>i. char_of (n div 256 ^ (k - 1 - i) mod 256)) [0..<k]"

definition sha_pad :: "string \<Rightarrow> string" where
  "sha_pad s = s @ CHR 0x80 # replicate ((119 - length s mod 64) mod 64) (CHR 0x00) @ be_bytes 8 (8 * int (length s))"

fun be_words :: "string \<Rightarrow> w32 list" where
  "be_words (a # b # c # d # s) =
     word_of_int (((of_char a * 256 + of_char b) * 256 + of_char c) * 256 + of_char d) # be_words s"
| "be_words _ = []"

definition small_sigma0 :: "w32 \<Rightarrow> w32" where
  "small_sigma0 x = rotr 7 x XOR rotr 18 x XOR drop_bit 3 x"

definition small_sigma1 :: "w32 \<Rightarrow> w32" where
  "small_sigma1 x = rotr 17 x XOR rotr 19 x XOR drop_bit 10 x"

definition big_sigma0 :: "w32 \<Rightarrow> w32" where
  "big_sigma0 x = rotr 2 x XOR rotr 13 x XOR rotr 22 x"

definition big_sigma1 :: "w32 \<Rightarrow> w32" where
  "big_sigma1 x = rotr 6 x XOR rotr 11 x XOR rotr 25 x"

text \<open>The message schedule; the newest word is at the head while it grows.\<close>

fun sha_schedule :: "nat \<Rightarrow> w32 list \<Rightarrow> w32 list" where
  "sha_schedule 0 ws = rev ws"
| "sha_schedule (Suc n) ws =
     sha_schedule n ((small_sigma1 (ws ! 1) + ws ! 6 + small_sigma0 (ws ! 14) + ws ! 15) # ws)"

definition sha_round :: "w32 \<times> w32 \<Rightarrow> w32 list \<Rightarrow> w32 list" where
  "sha_round km hs =
     (case hs of
        [a, b, c, d, e, f, g, h] \<Rightarrow>
          (let t1 = h + big_sigma1 e + ((e AND f) XOR (NOT e AND g)) + fst km + snd km;
               t2 = big_sigma0 a + ((a AND b) XOR (a AND c) XOR (b AND c))
           in [t1 + t2, a, b, c, d + t1, e, f, g])
      | _ \<Rightarrow> hs)"

definition sha_rounds :: "(w32 \<times> w32) list \<Rightarrow> w32 list \<Rightarrow> w32 list" where
  "sha_rounds kms hs = fold sha_round kms hs"

fun sha_blocks :: "nat \<Rightarrow> string \<Rightarrow> w32 list \<Rightarrow> w32 list" where
  "sha_blocks 0 s hs = hs"
| "sha_blocks (Suc n) s hs =
     sha_blocks n (drop 64 s)
       (map2 (+) hs (sha_rounds (zip sha_k (sha_schedule 48 (rev (be_words (take 64 s))))) hs))"

definition sha256 :: "string \<Rightarrow> string" where
  "sha256 s =
     (let p = sha_pad s
      in concat (map (\<lambda>w. be_bytes 4 (uint w)) (sha_blocks (length p div 64) p sha_init)))"

lemma sha_pad_length: "64 dvd length (sha_pad s)"
proof -
  define m q where "m = length s mod 64" and "q = length s div 64"
  have ls: "length s = q * 64 + m" and m: "m < 64" by (simp_all add: m_def q_def)
  have "(119 - m) mod 64 + m + 9 = (if m \<le> 55 then 64 else 128)"
  proof (cases "m \<le> 55")
    case True
    then have "(119 - m) mod 64 = (119 - m - 64) mod 64" by (intro le_mod_geq) simp
    also have "\<dots> = 55 - m" using True by simp
    finally show ?thesis using True by simp
  qed (use m in simp)
  moreover have "length (sha_pad s) = q * 64 + ((119 - m) mod 64 + m + 9)"
    unfolding sha_pad_def be_bytes_def using ls m by simp
  ultimately show ?thesis by simp
qed

lemma length_be_bytes [simp]: "length (be_bytes k n) = k"
  by (simp add: be_bytes_def)

lemma sha_round_length [simp]: "length (sha_round km hs) = length hs"
  by (simp add: sha_round_def Let_def split: list.split)

lemma sha_rounds_length: "length (sha_rounds kms hs) = length hs"
  unfolding sha_rounds_def by (induction kms arbitrary: hs) simp_all

lemma sha_blocks_length: "length (sha_blocks n s hs) = length hs"
  by (induction n s hs rule: sha_blocks.induct) (auto simp: sha_rounds_length)

lemma sha256_length: "length (sha256 s) = 32"
proof -
  have "length (concat (map (\<lambda>w. be_bytes 4 (uint w)) ws)) = 4 * length ws" for ws :: "w32 list"
    by (induction ws) auto
  then show ?thesis by (simp add: sha256_def Let_def sha_blocks_length sha_init_def)
qed

end
