(* ===== verification/Go_Runes.thy ===== *)
theory Go_Runes
  imports Go_Base
begin

section \<open>Prelude: UTF-8\<close>

text \<open>
  The runes of a Go string: what \<open>range\<close> over a string, \<open>utf8.Valid\<close> and the regular expressions
  of package \<open>regexp\<close> see. A byte that starts no valid encoding is the replacement character.
\<close>

definition cont_byte :: "char \<Rightarrow> bool" where
  "cont_byte c \<longleftrightarrow> 0x80 \<le> (of_char c :: nat) \<and> (of_char c :: nat) \<le> 0xBF"

definition in_range :: "nat \<Rightarrow> nat \<Rightarrow> char \<Rightarrow> bool" where
  "in_range a b c \<longleftrightarrow> a \<le> of_char c \<and> of_char c \<le> b"

text \<open>The width of the valid encoding at the head of a text, if there is one.\<close>

fun utf8_width :: "string \<Rightarrow> nat option" where
  "utf8_width [] = None"
| "utf8_width (a # s) =
     (if in_range 0 0x7F a then Some 1
      else (case s of
              [] \<Rightarrow> None
            | b # s \<Rightarrow>
                (if in_range 0xC2 0xDF a then (if cont_byte b then Some 2 else None)
                 else (case s of
                         [] \<Rightarrow> None
                       | c # s \<Rightarrow>
                           (if in_range 0xE0 0xEF a then
                              (if (if a = CHR 0xE0 then in_range 0xA0 0xBF b
                                   else if a = CHR 0xED then in_range 0x80 0x9F b else cont_byte b) \<and> cont_byte c
                               then Some 3 else None)
                            else (case s of
                                    [] \<Rightarrow> None
                                  | d # _ \<Rightarrow>
                                      (if in_range 0xF0 0xF4 a \<and>
                                          (if a = CHR 0xF0 then in_range 0x90 0xBF b
                                           else if a = CHR 0xF4 then in_range 0x80 0x8F b else cont_byte b) \<and>
                                          cont_byte c \<and> cont_byte d
                                       then Some 4 else None)))))))"

text \<open>
  What \<open>for i, r := range text\<close> advances by, and \<open>utf8.RuneLen\<close> of the rune: an invalid byte
  advances by one but is the replacement character, whose length is three.
\<close>

definition rune_advance :: "string \<Rightarrow> nat" where
  "rune_advance s = (case utf8_width s of Some n \<Rightarrow> n | None \<Rightarrow> 1)"

definition rune_size :: "string \<Rightarrow> nat" where
  "rune_size s = (case utf8_width s of Some n \<Rightarrow> n | None \<Rightarrow> 3)"

lemma utf8_width_bounds: "utf8_width s = Some n \<Longrightarrow> 0 < n \<and> n \<le> length s"
  by (induction s rule: utf8_width.induct) (auto split: if_splits list.splits)

lemma rune_advance_pos: "0 < rune_advance s"
  using utf8_width_bounds by (auto simp: rune_advance_def split: option.splits)

lemma rune_advance_le_size: "rune_advance s \<le> rune_size s"
  by (auto simp: rune_advance_def rune_size_def split: option.splits)

text \<open>The value of the rune at the head of a text.\<close>

definition rune_value :: "string \<Rightarrow> nat" where
  "rune_value s =
     (let b = (\<lambda>i. of_char (s ! i)) in
      case utf8_width s of
        None \<Rightarrow> 0xFFFD
      | Some n \<Rightarrow>
          if n = 1 then b 0
          else if n = 2 then (b 0 - 0xC0) * 64 + (b 1 - 0x80)
          else if n = 3 then ((b 0 - 0xE0) * 64 + (b 1 - 0x80)) * 64 + (b 2 - 0x80)
          else (((b 0 - 0xF0) * 64 + (b 1 - 0x80)) * 64 + (b 2 - 0x80)) * 64 + (b 3 - 0x80))"

function runes :: "string \<Rightarrow> nat list" where
  "runes s = (if s = [] then [] else rune_value s # runes (drop (rune_advance s) s))"
  by pat_completeness auto
termination
  by (relation "measure length") (auto simp: rune_advance_pos intro!: diff_less)

function utf8_valid :: "string \<Rightarrow> bool" where
  "utf8_valid s = (if s = [] then True else if utf8_width s = None then False else utf8_valid (drop (rune_advance s) s))"
  by pat_completeness auto
termination
  by (relation "measure length") (auto simp: rune_advance_pos intro!: diff_less)

declare runes.simps [simp del] utf8_valid.simps [simp del]

lemma runes_ascii: "list_all (in_range 0 0x7F) s \<Longrightarrow> runes s = map of_char s"
proof (induction s)
  case (Cons c s)
  then have "utf8_width (c # s) = Some 1" by simp
  then show ?case using Cons by (subst runes.simps) (simp add: rune_value_def rune_advance_def)
qed (simp add: runes.simps)

end
