(* ===== verification/Gateway_Request.thy ===== *)
theory Gateway_Request
  imports Gateway_Types Sha256 Go_Runes
begin

section \<open>Package gateway: sanitizing and validating a run request\<close>

text \<open>
  \<open>gateway/context_blocks.go\<close>, \<open>gateway/request_id.go\<close> and \<open>validateRunStartRequest\<close> of
  \<open>gateway/server.go\<close>. An error is a constructor carrying what the Go text is made from; validating a
  map visits its keys in an order Go leaves open, so \<open>validate_run_metadata\<close> reports some offending
  entry of the list.
\<close>

subsection \<open>Context blocks\<close>

function truncate_scan :: "nat \<Rightarrow> nat \<Rightarrow> nat \<Rightarrow> nat \<Rightarrow> string \<Rightarrow> nat" where
  "truncate_scan mx i used fin s =
     (if s = [] then fin
      else if mx < used + rune_size s then fin
      else truncate_scan mx (i + rune_advance s) (used + rune_size s) (i + rune_size s) (drop (rune_advance s) s))"
  by pat_completeness auto
termination
  by (relation "measure (\<lambda>(mx, i, used, fin, s). length s)") (auto simp: rune_advance_pos)

declare truncate_scan.simps [simp del]

definition truncate_context_block :: "string \<Rightarrow> int \<Rightarrow> string" where
  "truncate_context_block text max_bytes =
     (if max_bytes \<le> 0 then []
      else if int (length text) \<le> max_bytes then text
      else (let fin = truncate_scan (nat max_bytes) 0 0 0 text in if fin = 0 then [] else take fin text))"

lemma truncate_scan_le: "fin \<le> mx \<Longrightarrow> i \<le> used \<Longrightarrow> truncate_scan mx i used fin s \<le> mx"
proof (induction mx i used fin s rule: truncate_scan.induct)
  case (1 mx i used fin s)
  show ?case
  proof (cases "s = [] \<or> mx < used + rune_size s")
    case True
    with 1 show ?thesis by (subst truncate_scan.simps) auto
  next
    case False
    then have "i + rune_size s \<le> mx" "i + rune_advance s \<le> used + rune_size s"
      using 1(3) rune_advance_le_size [of s] by linarith+
    with 1(1) False show ?thesis by (subst truncate_scan.simps) auto
  qed
qed

lemma truncate_context_block_length: "0 \<le> n \<Longrightarrow> int (length (truncate_context_block s n)) \<le> n"
  using truncate_scan_le [of 0 "nat n" 0 0 s] by (auto simp: truncate_context_block_def Let_def)

definition maxRunContextBlockBytes :: int where "maxRunContextBlockBytes = 32768"
definition maxRunContextBlocks :: int where "maxRunContextBlocks = 64"
definition maxRunMetadataEntries :: int where "maxRunMetadataEntries = 64"
definition maxRunMetadataKeyBytes :: int where "maxRunMetadataKeyBytes = 128"
definition maxRunMetadataValueBytes :: int where "maxRunMetadataValueBytes = 1024"
definition maxRunPromptBytes :: int where "maxRunPromptBytes = 262144"
definition maxRunProviderModelBytes :: int where "maxRunProviderModelBytes = 128"
definition maxRunSelectorItems :: int where "maxRunSelectorItems = 256"
definition maxRunSelectorItemBytes :: int where "maxRunSelectorItemBytes = 128"

text \<open>The notice appended to a shortened block, in UTF-8.\<close>

definition truncation_notice :: string where
  "truncation_notice =
     CHR 0x0A # ''[context block'' @
     [CHR 0xEC, CHR 0x9D, CHR 0xB4, CHR 0x20,
      CHR 0xEA, CHR 0xB8, CHR 0xB8, CHR 0xEC, CHR 0x96, CHR 0xB4, CHR 0xEC, CHR 0x84, CHR 0x9C, CHR 0x20,
      CHR 0xEC, CHR 0x9D, CHR 0xBC, CHR 0xEB, CHR 0xB6, CHR 0x80, CHR 0xEB, CHR 0xA7, CHR 0x8C, CHR 0x20,
      CHR 0xEC, CHR 0xA0, CHR 0x80, CHR 0xEC, CHR 0x9E, CHR 0xA5, CHR 0xED, CHR 0x96, CHR 0x88,
      CHR 0xEC, CHR 0x96, CHR 0xB4, CHR 0xEC, CHR 0x9A, CHR 0x94] @ '']''"

definition sanitize_block :: "string \<Rightarrow> string option" where
  "sanitize_block block =
     (let text = trim_space (redact_secrets block)
      in if text = [] then None
         else if maxRunContextBlockBytes < int (length text) then
           (let cut = truncate_context_block text maxRunContextBlockBytes
            in if cut = [] then None else Some (cut @ truncation_notice))
         else Some text)"

definition sanitize_context_blocks :: "string list \<Rightarrow> string list" where
  "sanitize_context_blocks blocks = List.map_filter sanitize_block blocks"

lemma sanitize_block_bounds:
  "sanitize_block b = Some t \<Longrightarrow>
     t \<noteq> [] \<and> int (length t) \<le> maxRunContextBlockBytes + int (length truncation_notice)"
  using truncate_context_block_length [of maxRunContextBlockBytes "trim_space (redact_secrets b)"]
  by (auto simp: sanitize_block_def Let_def maxRunContextBlockBytes_def split: if_splits)

subsection \<open>Lists of names, metadata, the working directory\<close>

fun sanitize_unique :: "string list \<Rightarrow> string list \<Rightarrow> string list" where
  "sanitize_unique seen [] = []"
| "sanitize_unique seen (n # ns) =
     (let name = trim_space n
      in if name = [] \<or> name \<in> set seen then sanitize_unique seen ns
         else name # sanitize_unique (name # seen) ns)"

definition sanitize_unique_strings :: "string list \<Rightarrow> string list" where
  "sanitize_unique_strings names = sanitize_unique [] names"

lemma sanitize_unique_set: "set (sanitize_unique seen ns) = trim_space ` set ns - {[]} - set seen"
  by (induction seen ns rule: sanitize_unique.induct) (auto simp: Let_def)

lemma sanitize_unique_distinct: "distinct (sanitize_unique seen ns)"
  by (induction seen ns rule: sanitize_unique.induct) (auto simp: Let_def sanitize_unique_set)

lemma sanitize_unique_fix:
  "list_all (\<lambda>n. trim_space n = n \<and> n \<noteq> []) ns \<Longrightarrow> distinct ns \<Longrightarrow> set ns \<inter> set seen = {} \<Longrightarrow>
     sanitize_unique seen ns = ns"
  by (induction seen ns rule: sanitize_unique.induct) (auto simp: Let_def)

lemma sanitize_unique_strings_idem:
  "sanitize_unique_strings (sanitize_unique_strings ns) = sanitize_unique_strings ns"
  unfolding sanitize_unique_strings_def
  by (rule sanitize_unique_fix)
    (auto simp: list_all_iff sanitize_unique_set sanitize_unique_distinct)

definition sanitize_run_metadata :: "smap \<Rightarrow> smap" where
  "sanitize_run_metadata m =
     fold (\<lambda>key out.
             let k = trim_space key; v = trim_space (mget m key)
             in if k = [] \<or> v = [] then out else mset_kv out k v)
       (sort (map fst m)) []"

lemma sanitize_run_metadata_inv:
  "distinct (map fst out) \<Longrightarrow> list_all (\<lambda>(k, v). k \<noteq> [] \<and> v \<noteq> [] \<and> trim_space k = k \<and> trim_space v = v) out \<Longrightarrow>
   out' = fold (\<lambda>key out. let k = trim_space key; v = trim_space (mget m key)
             in if k = [] \<or> v = [] then out else mset_kv out k v) keys out \<Longrightarrow>
   distinct (map fst out') \<and> list_all (\<lambda>(k, v). k \<noteq> [] \<and> v \<noteq> [] \<and> trim_space k = k \<and> trim_space v = v) out'"
proof (induction keys arbitrary: out)
  case (Cons key keys)
  let ?k = "trim_space key" and ?v = "trim_space (mget m key)"
  let ?out = "if ?k = [] \<or> ?v = [] then out else mset_kv out ?k ?v"
  have "set (mset_kv out ?k ?v) \<subseteq> insert (?k, ?v) (set out)"
    unfolding mset_kv_def by (induction out) auto
  then have "list_all (\<lambda>(k, v). k \<noteq> [] \<and> v \<noteq> [] \<and> trim_space k = k \<and> trim_space v = v) ?out"
    using Cons.prems(2) by (fastforce simp: list_all_iff)
  moreover have "distinct (map fst ?out)" using Cons.prems(1) by simp
  ultimately show ?case using Cons.IH [of ?out] Cons.prems(3) by (simp add: Let_def)
qed simp

lemma sanitize_run_metadata_ok:
  "distinct (map fst (sanitize_run_metadata m)) \<and>
   list_all (\<lambda>(k, v). k \<noteq> [] \<and> v \<noteq> [] \<and> trim_space k = k \<and> trim_space v = v) (sanitize_run_metadata m)"
  by (rule sanitize_run_metadata_inv [where out = "[]"]) (simp_all add: sanitize_run_metadata_def)

text \<open>The loop that collapses double slashes; each round shortens the text.\<close>

fun collapse_pass :: "string \<Rightarrow> string" where
  "collapse_pass [] = []"
| "collapse_pass [c] = [c]"
| "collapse_pass (c # d # s) =
     (if c = CHR ''/'' \<and> d = CHR ''/'' then CHR ''/'' # collapse_pass s else c # collapse_pass (d # s))"

lemma collapse_pass_length: "length (collapse_pass s) \<le> length s"
  by (induction s rule: collapse_pass.induct) auto

lemma collapse_pass_shorter: "contains s ''//'' \<Longrightarrow> length (collapse_pass s) < length s"
proof (induction s rule: collapse_pass.induct)
  case (3 c d s)
  then show ?case using collapse_pass_length [of s] by (auto split: if_splits)
qed auto

function collapse_slashes :: "string \<Rightarrow> string" where
  "collapse_slashes s = (if contains s ''//'' then collapse_slashes (collapse_pass s) else s)"
  by pat_completeness auto
termination
  by (relation "measure length") (auto simp: collapse_pass_shorter)

declare collapse_slashes.simps [simp del]

definition trim_slashes :: "string \<Rightarrow> string" where
  "trim_slashes s = rev (dropWhile (\<lambda>c. c = CHR ''/'') (rev (dropWhile (\<lambda>c. c = CHR ''/'') s)))"

definition backslash_to_slash :: "string \<Rightarrow> string" where
  "backslash_to_slash s = map (\<lambda>c. if c = CHR 0x5C then CHR ''/'' else c) s"

definition sanitize_working_directory :: "string \<Rightarrow> string" where
  "sanitize_working_directory value =
     (let v = trim_space value
      in if v = [] then []
         else (let v1 = trim_slashes (trim_prefix ''./'' (collapse_slashes (backslash_to_slash v)))
               in if v1 = ''.'' then [] else v1))"

definition working_directory_escapes_root :: "string \<Rightarrow> bool" where
  "working_directory_escapes_root value = (value \<noteq> [] \<and> list_ex (\<lambda>p. p = ''..'') (split_on (CHR ''/'') value))"

subsection \<open>Validation\<close>

datatype request_error =
    SessionPromptRequired
  | PreviewNegative
  | PreviewTooLarge
  | TokensNegative
  | TokensTooLarge
  | FieldTooLong string
  | WorkdirEscapes
  | SelectorTooMany string
  | SelectorTooLong string nat
  | SelectorBadChars string nat
  | TooManyBlocks
  | MetadataTooMany
  | MetadataKeyTooLong string
  | MetadataKeyBad string
  | MetadataValueTooLong string
  | RequestIdTooLong
  | RequestIdRequired
  | IdempotencyTooLong

definition key_char :: "char \<Rightarrow> bool" where
  "key_char c \<longleftrightarrow>
     in_range 97 122 c \<or> in_range 65 90 c \<or> in_range 48 57 c \<or> c = CHR ''_'' \<or> c = CHR ''-'' \<or> c = CHR ''.''"

text \<open>Every rune outside ASCII is rejected, and so is each of its bytes.\<close>

definition valid_metadata_key :: "string \<Rightarrow> bool" where
  "valid_metadata_key k = (k \<noteq> [] \<and> list_all key_char k)"

fun selector_items :: "string \<Rightarrow> bool \<Rightarrow> nat \<Rightarrow> string list \<Rightarrow> request_error option" where
  "selector_items label ident i [] = None"
| "selector_items label ident i (v # vs) =
     (if maxRunSelectorItemBytes < int (length v) then Some (SelectorTooLong label i)
      else if ident \<and> \<not> valid_metadata_key v then Some (SelectorBadChars label i)
      else selector_items label ident (Suc i) vs)"

definition validate_selector_list :: "string \<Rightarrow> string list \<Rightarrow> bool \<Rightarrow> request_error option" where
  "validate_selector_list label values ident =
     (if maxRunSelectorItems < int (length values) then Some (SelectorTooMany label)
      else selector_items label ident 0 values)"

definition first_error :: "'e option list \<Rightarrow> 'e option" where
  "first_error es = (case filter (\<lambda>e. e \<noteq> None) es of [] \<Rightarrow> None | e # _ \<Rightarrow> e)"

definition guard :: "bool \<Rightarrow> 'e \<Rightarrow> 'e option" where
  "guard b e = (if b then Some e else None)"

definition validate_run_request_shape :: "start_request \<Rightarrow> request_error option" where
  "validate_run_request_shape q = first_error
     [guard (maxRunPromptBytes < int (length (g_prompt q))) (FieldTooLong ''prompt''),
      guard (maxRunProviderModelBytes < int (length (g_provider q))) (FieldTooLong ''provider''),
      guard (maxRunProviderModelBytes < int (length (g_model q))) (FieldTooLong ''model''),
      guard (maxRunPromptBytes < int (length (g_workdir q))) (FieldTooLong ''working_directory''),
      guard (working_directory_escapes_root (g_workdir q)) WorkdirEscapes,
      validate_selector_list ''mcp_servers'' (g_mcp q) True,
      validate_selector_list ''skills'' (g_skills q) True,
      validate_selector_list ''subagents'' (g_subagents q) True,
      validate_selector_list ''enabled_tools'' (g_enabled q) False,
      validate_selector_list ''disabled_tools'' (g_disabled q) False,
      guard (maxRunContextBlocks < int (length (g_blocks q))) TooManyBlocks]"

definition maxRequestIDBytes :: int where "maxRequestIDBytes = 128"
definition maxIdempotencyKeyBytes :: int where "maxIdempotencyKeyBytes = 128"
definition MaxRunPreviewBytes :: int where "MaxRunPreviewBytes = 8388608"
definition MaxRunOutputTokens :: int where "MaxRunOutputTokens = 32768"
definition IdempotencyReusedMetadataKey :: string where "IdempotencyReusedMetadataKey = ''idempotency_reused''"
definition DefaultMCPMetadataKey :: string where "DefaultMCPMetadataKey = ''default_mcp_servers''"

definition validate_request_id_value :: "string \<Rightarrow> request_error option" where
  "validate_request_id_value v = guard (maxRequestIDBytes < int (length (trim_space v))) RequestIdTooLong"

definition required_request_id_value :: "string \<Rightarrow> request_error + string" where
  "required_request_id_value v =
     (let t = trim_space v
      in if t = [] then Inl RequestIdRequired
         else (case validate_request_id_value t of Some e \<Rightarrow> Inl e | None \<Rightarrow> Inr t))"

definition validate_idempotency_key_value :: "string \<Rightarrow> request_error option" where
  "validate_idempotency_key_value v =
     guard (maxIdempotencyKeyBytes < int (length (trim_space v))) IdempotencyTooLong"

definition metadata_entry :: "string \<Rightarrow> string \<Rightarrow> request_error option" where
  "metadata_entry key v = first_error
     [guard (maxRunMetadataKeyBytes < int (length key)) (MetadataKeyTooLong key),
      guard (\<not> valid_metadata_key key) (MetadataKeyBad key),
      guard (maxRunMetadataValueBytes < int (length v)) (MetadataValueTooLong key),
      (if key = RequestIDMetadataKey then validate_request_id_value v else None),
      (if key = IdempotencyMetadataKey then validate_idempotency_key_value v else None)]"

fun metadata_entries :: "smap \<Rightarrow> request_error option" where
  "metadata_entries [] = None"
| "metadata_entries ((key, v) # m) =
     (case metadata_entry key v of Some e \<Rightarrow> Some e | None \<Rightarrow> metadata_entries m)"

definition validate_run_metadata :: "smap \<Rightarrow> request_error option" where
  "validate_run_metadata m =
     (if maxRunMetadataEntries < int (length m) then Some MetadataTooMany else metadata_entries m)"

definition validate_run_start_request :: "start_request \<Rightarrow> request_error option" where
  "validate_run_start_request q = first_error
     [guard (trim_space (g_session q) = [] \<or> trim_space (g_prompt q) = []) SessionPromptRequired,
      guard (g_max_preview q < 0) PreviewNegative,
      guard (MaxRunPreviewBytes < g_max_preview q) PreviewTooLarge,
      guard (g_max_tokens q < 0) TokensNegative,
      guard (MaxRunOutputTokens < g_max_tokens q) TokensTooLarge,
      validate_run_request_shape q,
      validate_run_metadata (g_metadata q)]"

definition sanitize_start_request :: "start_request \<Rightarrow> start_request" where
  "sanitize_start_request q =
     q\<lparr>g_session := trim_space (g_session q), g_prompt := trim_space (g_prompt q),
       g_provider := trim_space (g_provider q), g_model := trim_space (g_model q),
       g_workdir := sanitize_working_directory (g_workdir q),
       g_metadata := sanitize_run_metadata (g_metadata q),
       g_mcp := sanitize_unique_strings (g_mcp q), g_skills := sanitize_unique_strings (g_skills q),
       g_subagents := sanitize_unique_strings (g_subagents q),
       g_blocks := sanitize_context_blocks (g_blocks q),
       g_enabled := sanitize_unique_strings (g_enabled q),
       g_disabled := sanitize_unique_strings (g_disabled q)\<rparr>"

subsection \<open>Request ids and idempotency keys\<close>

definition with_request_id_metadata :: "smap \<Rightarrow> string \<Rightarrow> smap" where
  "with_request_id_metadata m rid =
     (let t = trim_space rid in if t = [] then m else mset_kv m RequestIDMetadataKey t)"

definition with_idempotency_metadata :: "smap \<Rightarrow> string \<Rightarrow> smap" where
  "with_idempotency_metadata m key =
     (let t = trim_space key in if t = [] then m else mset_kv m IdempotencyMetadataKey t)"

definition with_default_mcp_metadata :: "smap \<Rightarrow> string list \<Rightarrow> smap" where
  "with_default_mcp_metadata m servers =
     (let names = filter (\<lambda>n. n \<noteq> []) (map trim_space servers)
      in if names = [] then m else mset_kv m DefaultMCPMetadataKey (join '','' (sort names)))"

text \<open>The id the middleware put into the request's context wins over the header.\<close>

definition request_id_from_request :: "string option \<Rightarrow> string \<Rightarrow> string" where
  "request_id_from_request ctx_id header =
     (case ctx_id of Some i \<Rightarrow> if i \<noteq> [] then i else trim_space header | None \<Rightarrow> trim_space header)"

definition with_request_id :: "string option \<Rightarrow> string \<Rightarrow> string option" where
  "with_request_id ctx_id rid = (let t = trim_space rid in if t = [] then ctx_id else Some t)"

fun base_digits :: "nat \<Rightarrow> nat \<Rightarrow> string" where
  "base_digits b n =
     (if b < 2 \<or> n < b then [hex_digit (if b < 2 then 0 else n)] else base_digits b (n div b) @ [hex_digit (n mod b)])"

declare base_digits.simps [simp del]

definition new_request_id :: "world \<Rightarrow> string \<times> world" where
  "new_request_id w =
     (case rnd w (rpos w) of
        Some bs \<Rightarrow> (''req_'' @ hex_encode bs, w\<lparr>rpos := Suc (rpos w)\<rparr>)
      | None \<Rightarrow>
          (let (t, w') = now (w\<lparr>rpos := Suc (rpos w)\<rparr>); n = wrap64 (t - unix_epoch)
           in (''req_'' @ (if n < 0 then CHR ''-'' # base_digits 36 (nat (- n)) else base_digits 36 (nat n)), w')))"

definition idempotency_key_from_request :: "string \<Rightarrow> smap \<Rightarrow> string" where
  "idempotency_key_from_request header m =
     (let key = trim_space header in if key \<noteq> [] then key else trim_space (mget m IdempotencyMetadataKey))"

definition idempotent_run_id :: "string \<Rightarrow> string \<Rightarrow> string" where
  "idempotent_run_id sid key =
     ''run_idem_'' @ hex_encode (take 16 (sha256 (trim_space sid @ [CHR 0x00] @ trim_space key)))"

definition mark_idempotency_reused :: "run_dto \<Rightarrow> run_dto" where
  "mark_idempotency_reused d = d\<lparr>d_metadata := mset_kv (d_metadata d) IdempotencyReusedMetadataKey ''true''\<rparr>"

definition is_idempotency_replay :: "run_dto option \<Rightarrow> bool" where
  "is_idempotency_replay d =
     (case d of None \<Rightarrow> False
      | Some x \<Rightarrow> map lower_char (trim_space (mget (d_metadata x) IdempotencyReusedMetadataKey)) = ''true'')"

lemma hex_encode_length: "length (hex_encode s) = 2 * length s"
  by (induction s) (auto simp: hex_encode_def)

lemma hex_digit_key: "n < 16 \<Longrightarrow> key_char (hex_digit n)"
  by (auto simp: hex_digit_def key_char_def in_range_def)

lemma hex_encode_key: "list_all key_char (hex_encode s)"
proof -
  have "(of_char b :: nat) div 16 < 16" for b
    using nat_of_char_less_256 [of b] by (simp add: less_mult_imp_div_less)
  then show ?thesis
    unfolding hex_encode_def list_all_iff by (auto intro!: hex_digit_key)
qed

lemma idempotent_run_id_valid:
  "valid_metadata_key (idempotent_run_id s k) \<and> length (idempotent_run_id s k) = 41"
proof -
  define h where "h = take 16 (sha256 (trim_space s @ [CHR 0x00] @ trim_space k))"
  have "length (hex_encode h) = 32" by (simp add: h_def hex_encode_length sha256_length)
  moreover have "list_all key_char (''run_idem_'' @ hex_encode h)"
    unfolding list_all_append by (intro conjI hex_encode_key) code_simp
  ultimately show ?thesis
    unfolding idempotent_run_id_def valid_metadata_key_def h_def [symmetric] by auto
qed

subsection \<open>What an accepted request satisfies\<close>

lemma first_error_None: "first_error es = None \<longleftrightarrow> list_all (\<lambda>e. e = None) es"
  by (induction es) (auto simp: first_error_def split: list.splits)

lemma guard_None [simp]: "guard b e = None \<longleftrightarrow> \<not> b"
  by (simp add: guard_def)

lemma selector_items_None:
  "selector_items label ident i vs = None \<longleftrightarrow>
     list_all (\<lambda>v. int (length v) \<le> maxRunSelectorItemBytes \<and> (ident \<longrightarrow> valid_metadata_key v)) vs"
  by (induction label ident i vs rule: selector_items.induct) auto

lemma metadata_entries_None:
  "metadata_entries m = None \<longleftrightarrow> list_all (\<lambda>(k, v). metadata_entry k v = None) m"
  by (induction m rule: metadata_entries.induct) (auto split: option.splits)

lemma metadata_entry_None:
  "metadata_entry k v = None \<longleftrightarrow>
     int (length k) \<le> maxRunMetadataKeyBytes \<and> valid_metadata_key k \<and> int (length v) \<le> maxRunMetadataValueBytes \<and>
     (k = RequestIDMetadataKey \<longrightarrow> validate_request_id_value v = None) \<and>
     (k = IdempotencyMetadataKey \<longrightarrow> validate_idempotency_key_value v = None)"
  by (cases "k = RequestIDMetadataKey"; cases "k = IdempotencyMetadataKey";
      simp only: metadata_entry_def first_error_None list.pred_inject guard_None not_less if_True if_False simp_thms)

definition selector_ok :: "bool \<Rightarrow> string list \<Rightarrow> bool" where
  "selector_ok ident vs \<longleftrightarrow>
     int (length vs) \<le> maxRunSelectorItems \<and>
     list_all (\<lambda>v. int (length v) \<le> maxRunSelectorItemBytes \<and> (ident \<longrightarrow> valid_metadata_key v)) vs"

lemma validate_selector_list_None: "validate_selector_list l vs ident = None \<longleftrightarrow> selector_ok ident vs"
  by (auto simp: validate_selector_list_def selector_ok_def selector_items_None)

definition accepted :: "start_request \<Rightarrow> bool" where
  "accepted q \<longleftrightarrow>
     trim_space (g_session q) \<noteq> [] \<and> trim_space (g_prompt q) \<noteq> [] \<and>
     int (length (g_prompt q)) \<le> maxRunPromptBytes \<and>
     int (length (g_provider q)) \<le> maxRunProviderModelBytes \<and>
     int (length (g_model q)) \<le> maxRunProviderModelBytes \<and>
     0 \<le> g_max_preview q \<and> g_max_preview q \<le> MaxRunPreviewBytes \<and>
     0 \<le> g_max_tokens q \<and> g_max_tokens q \<le> MaxRunOutputTokens \<and>
     int (length (g_workdir q)) \<le> maxRunPromptBytes \<and>
     ''..'' \<notin> set (split_on (CHR ''/'') (g_workdir q)) \<and>
     selector_ok True (g_mcp q) \<and> selector_ok True (g_skills q) \<and> selector_ok True (g_subagents q) \<and>
     selector_ok False (g_enabled q) \<and> selector_ok False (g_disabled q) \<and>
     int (length (g_blocks q)) \<le> maxRunContextBlocks \<and>
     int (length (g_metadata q)) \<le> maxRunMetadataEntries \<and>
     list_all (\<lambda>(k, v). int (length k) \<le> maxRunMetadataKeyBytes \<and> valid_metadata_key k \<and>
       int (length v) \<le> maxRunMetadataValueBytes) (g_metadata q)"

lemma escapes_root_iff: "working_directory_escapes_root v \<longleftrightarrow> ''..'' \<in> set (split_on (CHR ''/'') v)"
  by (cases v) (auto simp: working_directory_escapes_root_def list_ex_iff)

lemma validate_accepts:
  assumes "validate_run_start_request q = None"
  shows "accepted q"
proof -
  have s: "validate_run_request_shape q = None" and m: "validate_run_metadata (g_metadata q) = None"
    using assms by (simp_all add: validate_run_start_request_def first_error_None)
  have "list_all (\<lambda>(k, v). int (length k) \<le> maxRunMetadataKeyBytes \<and> valid_metadata_key k \<and>
       int (length v) \<le> maxRunMetadataValueBytes) (g_metadata q)"
    using m by (auto simp: validate_run_metadata_def metadata_entries_None metadata_entry_None list_all_iff
        split: if_splits)
  then show ?thesis
    using assms s m
    by (simp add: validate_run_start_request_def validate_run_request_shape_def first_error_None accepted_def
        validate_selector_list_None validate_run_metadata_def escapes_root_iff not_less split: if_splits)
qed

text \<open>The directory has neither empty nor leading slashes left to hide a component behind.\<close>

lemma collapse_slashes_none: "\<not> contains (collapse_slashes s) ''//''"
proof (induction s rule: collapse_slashes.induct)
  case (1 s)
  then show ?case by (cases "contains s ''//''") (simp_all add: collapse_slashes.simps [of s])
qed

lemma backslash_to_slash_none: "CHR 0x5C \<notin> set (backslash_to_slash s)"
  by (auto simp: backslash_to_slash_def)

lemma collapse_pass_set: "set (collapse_pass s) \<subseteq> set s"
  by (induction s rule: collapse_pass.induct) auto

lemma collapse_slashes_set: "set (collapse_slashes s) \<subseteq> set s"
proof (induction s rule: collapse_slashes.induct)
  case (1 s)
  then show ?case
    using collapse_pass_set [of s] by (cases "contains s ''//''") (auto simp: collapse_slashes.simps [of s])
qed

lemma trim_prefix_set: "set (trim_prefix p s) \<subseteq> set s"
  by (auto simp: trim_prefix_def dest: in_set_dropD)

lemma trim_slashes_set: "set (trim_slashes s) \<subseteq> set s"
  by (auto simp: trim_slashes_def dest!: set_dropWhileD)

lemma suffix_rev_hd: "suffix b (rev a) \<Longrightarrow> b \<noteq> [] \<Longrightarrow> a \<noteq> [] \<and> last b = hd a"
  by (auto simp: suffix_def) (metis hd_rev last_appendR rev_rev_ident)+

lemma trim_slashes_ends:
  assumes "trim_slashes s \<noteq> []"
  shows "hd (trim_slashes s) \<noteq> CHR ''/'' \<and> last (trim_slashes s) \<noteq> CHR ''/''"
proof -
  define a b where "a = dropWhile (\<lambda>c. c = CHR ''/'') s" and "b = dropWhile (\<lambda>c. c = CHR ''/'') (rev a)"
  have t: "trim_slashes s = rev b" by (simp add: trim_slashes_def a_def b_def)
  then have ne: "b \<noteq> []" using assms by simp
  have "suffix b (rev a)" unfolding b_def by (rule suffix_dropWhile)
  then have a: "a \<noteq> []" "last b = hd a" using suffix_rev_hd ne by blast+
  have "hd a \<noteq> CHR ''/''" using hd_dropWhile [of "\<lambda>c. c = CHR ''/''" s] a(1) unfolding a_def .
  moreover have "hd b \<noteq> CHR ''/''" using hd_dropWhile [of "\<lambda>c. c = CHR ''/''" "rev a"] ne unfolding b_def .
  ultimately show ?thesis using ne a(2) by (simp add: t hd_rev last_rev)
qed

lemma sanitize_working_directory_relative:
  "sanitize_working_directory v = [] \<or>
     (hd (sanitize_working_directory v) \<noteq> CHR ''/'' \<and> last (sanitize_working_directory v) \<noteq> CHR ''/'' \<and>
      CHR 0x5C \<notin> set (sanitize_working_directory v))"
proof -
  let ?t = "trim_slashes (trim_prefix ''./'' (collapse_slashes (backslash_to_slash (trim_space v))))"
  have "CHR 0x5C \<notin> set ?t"
    using backslash_to_slash_none collapse_slashes_set trim_prefix_set trim_slashes_set by blast
  then show ?thesis
    using trim_slashes_ends by (auto simp: sanitize_working_directory_def Let_def)
qed

subsection \<open>The run endpoints\<close>

text \<open>
  \<open>startRun\<close>, \<open>validateRun\<close>, \<open>previewRun\<close> and \<open>retryRun\<close> of \<open>gateway/server.go\<close>. The functions of
  the server's configuration are arguments over a world \<open>'w\<close>, \<open>None\<close> where the configuration leaves
  one nil; \<open>decoded\<close> is the outcome of \<open>decodeJSON\<close>. A reply is an error with its status and code, or
  a JSON body with its status and whether the replay header was set.
\<close>

type_synonym 'w starter = "start_request \<Rightarrow> 'w \<Rightarrow> (string + run_dto) \<times> 'w"

record 'w run_config =
  rc_starter :: "'w starter option"
  rc_validator :: "(start_request \<Rightarrow> 'w \<Rightarrow> string option) option"
  rc_lister :: "(run_query \<Rightarrow> 'w \<Rightarrow> string + run_dto list) option"
  rc_getter :: "(string \<Rightarrow> 'w \<Rightarrow> string + run_dto) option"
  rc_previewer :: "(start_request \<Rightarrow> 'w \<Rightarrow> string + jval) option"
  rc_default_mcp :: "string list"

record http_ids =
  hi_ctx_request_id :: "string option"
  hi_request_id_header :: string
  hi_idempotency_header :: string

datatype error_body = BodyText string | BodyRequest request_error

datatype reply =
    ReplyError nat string error_body
  | ReplyRun nat bool run_dto
  | ReplyPreview jval

datatype decode_error = BodyTooLarge | BadJson string

definition decode_reply :: "decode_error \<Rightarrow> reply" where
  "decode_reply e =
     (case e of
        BodyTooLarge \<Rightarrow> ReplyError 413 ''request_too_large'' (BodyText [])
      | BadJson m \<Rightarrow> ReplyError 400 ''invalid_json'' (BodyText m))"

definition find_idempotent_run :: "'w run_config \<Rightarrow> start_request \<Rightarrow> 'w \<Rightarrow> run_dto option" where
  "find_idempotent_run cfg q w =
     (let key = trim_space (mget (g_metadata q) IdempotencyMetadataKey)
      in if key = [] then None
         else (case rc_lister cfg of
                 None \<Rightarrow> None
               | Some lister \<Rightarrow>
                   (case lister (all_runs\<lparr>rq_session := g_session q, rq_idempotency := key, rq_limit := 1\<rparr>) w of
                      Inl _ \<Rightarrow> None
                    | Inr [] \<Rightarrow> None
                    | Inr (d # _) \<Rightarrow> Some (mark_idempotency_reused (clone_run d)))))"

definition prepare_start :: "'w run_config \<Rightarrow> http_ids \<Rightarrow> start_request \<Rightarrow> start_request" where
  "prepare_start cfg ids q0 =
     (let q = sanitize_start_request q0;
          m1 = with_request_id_metadata (g_metadata q)
                 (request_id_from_request (hi_ctx_request_id ids) (hi_request_id_header ids));
          m2 = with_idempotency_metadata m1 (idempotency_key_from_request (hi_idempotency_header ids) m1);
          m3 = with_default_mcp_metadata m2 (rc_default_mcp cfg)
      in q\<lparr>g_metadata := m3\<rparr>)"

definition start_run :: "'w run_config \<Rightarrow> http_ids \<Rightarrow> decode_error + start_request \<Rightarrow> 'w \<Rightarrow> reply \<times> 'w" where
  "start_run cfg ids decoded w =
     (case rc_starter cfg of
        None \<Rightarrow> (ReplyError 501 ''run_starter_missing'' (BodyText []), w)
      | Some starter \<Rightarrow>
          (case decoded of
             Inl e \<Rightarrow> (decode_reply e, w)
           | Inr q0 \<Rightarrow>
               (let q = prepare_start cfg ids q0
                in case validate_run_start_request q of
                     Some e \<Rightarrow> (ReplyError 400 ''invalid_run'' (BodyRequest e), w)
                   | None \<Rightarrow>
                       (case find_idempotent_run cfg q w of
                          Some d \<Rightarrow> (ReplyRun 200 True d, w)
                        | None \<Rightarrow>
                            (let key = trim_space (mget (g_metadata q) IdempotencyMetadataKey);
                                 q1 = (if key \<noteq> [] then q\<lparr>g_run_id := idempotent_run_id (g_session q) key\<rparr> else q)
                             in case (case rc_validator cfg of None \<Rightarrow> None | Some v \<Rightarrow> v q1 w) of
                                  Some e \<Rightarrow> (ReplyError 400 ''invalid_run_preflight'' (BodyText e), w)
                                | None \<Rightarrow>
                                    (case starter q1 w of
                                       (Inl e, w1) \<Rightarrow> (ReplyError 500 ''start_run_failed'' (BodyText e), w1)
                                     | (Inr d, w1) \<Rightarrow>
                                         (if is_idempotency_replay (Some d) then (ReplyRun 200 True d, w1)
                                          else (ReplyRun 202 False d, w1))))))))"

record run_validate_response =
  vr_ok :: bool
  vr_code :: string
  vr_error :: "error_body option"
  vr_request_id :: string
  vr_idempotency_key :: string
  vr_run_id :: string
  vr_existing :: "run_dto option"
  vr_metadata :: smap

text \<open>\<open>validateRun\<close> reads the key from the body's metadata before the request id is added to it.\<close>

definition validate_run :: "'w run_config \<Rightarrow> http_ids \<Rightarrow> decode_error + start_request \<Rightarrow> 'w \<Rightarrow> reply + run_validate_response" where
  "validate_run cfg ids decoded w =
     (case decoded of
        Inl e \<Rightarrow> Inl (decode_reply e)
      | Inr q0 \<Rightarrow>
          (let q1 = sanitize_start_request q0;
               rid = request_id_from_request (hi_ctx_request_id ids) (hi_request_id_header ids);
               key0 = idempotency_key_from_request (hi_idempotency_header ids) (g_metadata q1);
               m = with_default_mcp_metadata
                     (with_idempotency_metadata (with_request_id_metadata (g_metadata q1) rid) key0)
                     (rc_default_mcp cfg);
               q = q1\<lparr>g_metadata := m\<rparr>;
               key = trim_space (mget m IdempotencyMetadataKey);
               resp = \<lparr>vr_ok = True, vr_code = [], vr_error = None, vr_request_id = rid,
                       vr_idempotency_key = key, vr_run_id = [], vr_existing = None, vr_metadata = m\<rparr>
           in case validate_run_start_request q of
                Some e \<Rightarrow> Inr (resp\<lparr>vr_ok := False, vr_code := ''invalid_run'', vr_error := Some (BodyRequest e)\<rparr>)
              | None \<Rightarrow>
                  (let resp1 = (if key \<noteq> [] then resp\<lparr>vr_run_id := idempotent_run_id (g_session q) key\<rparr> else resp);
                       resp2 = resp1\<lparr>vr_existing := find_idempotent_run cfg q w\<rparr>
                   in case rc_validator cfg of
                        None \<Rightarrow> Inr (resp2\<lparr>vr_ok := False, vr_code := ''run_validator_missing'', vr_error := Some (BodyText [])\<rparr>)
                      | Some v \<Rightarrow>
                          (case v q w of
                             Some e \<Rightarrow> Inr (resp2\<lparr>vr_ok := False, vr_code := ''invalid_run_preflight'',
                                          vr_error := Some (BodyText e)\<rparr>)
                           | None \<Rightarrow> Inr resp2))))"

definition preview_run :: "'w run_config \<Rightarrow> http_ids \<Rightarrow> decode_error + start_request \<Rightarrow> 'w \<Rightarrow> reply" where
  "preview_run cfg ids decoded w =
     (case rc_previewer cfg of
        None \<Rightarrow> ReplyError 501 ''run_previewer_missing'' (BodyText [])
      | Some previewer \<Rightarrow>
          (case decoded of
             Inl e \<Rightarrow> decode_reply e
           | Inr q0 \<Rightarrow>
               (let q1 = sanitize_start_request q0;
                    m = with_default_mcp_metadata
                          (with_request_id_metadata (g_metadata q1)
                            (request_id_from_request (hi_ctx_request_id ids) (hi_request_id_header ids)))
                          (rc_default_mcp cfg);
                    q = q1\<lparr>g_metadata := m\<rparr>
                in case validate_run_start_request q of
                     Some e \<Rightarrow> ReplyError 400 ''invalid_run'' (BodyRequest e)
                   | None \<Rightarrow>
                       (case previewer q w of
                          Inl e \<Rightarrow> ReplyError 500 ''preview_run_failed'' (BodyText e)
                        | Inr p \<Rightarrow> ReplyPreview p))))"

definition retry_request :: "'w run_config \<Rightarrow> http_ids \<Rightarrow> run_dto \<Rightarrow> start_request" where
  "retry_request cfg ids d =
     (let m1 = mset_kv (sanitize_run_metadata (d_metadata d)) ''retried_from'' (d_id d);
          m2 = with_request_id_metadata m1
                 (request_id_from_request (hi_ctx_request_id ids) (hi_request_id_header ids));
          m3 = with_default_mcp_metadata m2 (rc_default_mcp cfg)
      in sanitize_start_request
           (zero_start_request\<lparr>g_session := d_session d, g_prompt := d_prompt d, g_provider := d_provider d,
              g_model := d_model d, g_workdir := d_workdir d, g_max_tokens := d_max_tokens d, g_metadata := m3,
              g_mcp := d_mcp d, g_skills := d_skills d, g_subagents := d_subagents d, g_enabled := d_enabled d,
              g_disabled := d_disabled d, g_blocks := d_blocks d\<rparr>))"

definition retry_run :: "'w run_config \<Rightarrow> http_ids \<Rightarrow> string \<Rightarrow> 'w \<Rightarrow> reply \<times> 'w" where
  "retry_run cfg ids run_id w =
     (case (rc_getter cfg, rc_starter cfg) of
        (Some getter, Some starter) \<Rightarrow>
          (case getter run_id w of
             Inl e \<Rightarrow> (ReplyError 404 ''run_not_found'' (BodyText e), w)
           | Inr original \<Rightarrow>
               (let q = retry_request cfg ids original
                in case validate_run_start_request q of
                     Some e \<Rightarrow> (ReplyError 400 ''invalid_run'' (BodyRequest e), w)
                   | None \<Rightarrow>
                       (case (case rc_validator cfg of None \<Rightarrow> None | Some v \<Rightarrow> v q w) of
                          Some e \<Rightarrow> (ReplyError 400 ''invalid_run_preflight'' (BodyText e), w)
                        | None \<Rightarrow>
                            (case starter q w of
                               (Inl e, w1) \<Rightarrow> (ReplyError 500 ''retry_run_failed'' (BodyText e), w1)
                             | (Inr d, w1) \<Rightarrow> (ReplyRun 202 False d, w1)))))
      | _ \<Rightarrow> (ReplyError 501 ''run_retry_missing'' (BodyText []), w))"

subsection \<open>Properties\<close>

definition recording :: "'w starter \<Rightarrow> ('w \<times> start_request list) starter" where
  "recording st q w = (let (r, w1) = st q (fst w) in (r, (w1, snd w @ [q])))"


definition demo_starter :: "unit starter" where
  "demo_starter q w = (Inr (zero_dto\<lparr>d_id := ''r''\<rparr>), w)"

definition demo_config :: "(unit \<times> start_request list) run_config" where
  "demo_config = \<lparr>rc_starter = Some (recording demo_starter), rc_validator = None, rc_lister = None,
     rc_getter = None, rc_previewer = None, rc_default_mcp = []\<rparr>"

definition demo_ids :: http_ids where
  "demo_ids = \<lparr>hi_ctx_request_id = None, hi_request_id_header = ''req'', hi_idempotency_header = []\<rparr>"

definition demo_request :: start_request where
  "demo_request = zero_start_request\<lparr>g_session := ''s'', g_prompt := '' go '', g_workdir := ''/src//x''\<rparr>"



definition demo_replay_config :: "(unit \<times> start_request list) run_config" where
  "demo_replay_config = demo_config\<lparr>rc_lister := Some (\<lambda>q w. Inr [zero_dto\<lparr>d_id := ''old''\<rparr>])\<rparr>"


end
