(* ===== verification/Run_Manager.thy ===== *)
theory Run_Manager
  imports Run_Store Event_Bus Gateway_Request
begin

section \<open>Package gateway: the background run manager\<close>

text \<open>
  \<open>gateway/run_manager.go\<close>. The manager keeps its runs in a map under a lock, writes them to a store
  whose optional interfaces it discovers by type assertion, and publishes them on the bus. A store is
  the record \<open>store_ops\<close> of its operations over a state \<open>'s\<close>; an interface the store does not implement
  is \<open>None\<close>. The regions the code executes under the lock are definitions of their own
  (\<open>start_lock\<close>, \<open>cancel_lock\<close>, \<open>update_lock\<close>, \<open>shutdown_lock\<close>), and so is what follows them
  outside the lock (\<open>flush_run\<close>); the operations compose them, and \<open>Run_Concurrency\<close> interleaves them.
  \<open>time.Now\<close> and \<open>session.NewID\<close> read the \<open>world\<close>.
\<close>

subsection \<open>Stores\<close>

record 's store_ops =
  so_save :: "ctx \<Rightarrow> run \<Rightarrow> 's \<times> world \<Rightarrow> (store_error option \<times> run) \<times> 's \<times> world"
  so_load :: "string \<Rightarrow> 's \<Rightarrow> store_error + run"
  so_list :: "run_query \<Rightarrow> 's \<Rightarrow> store_error + run list"
  so_count :: "(run_query \<Rightarrow> 's \<Rightarrow> store_error + int) option"
  so_events :: "((ctx \<Rightarrow> run_event \<Rightarrow> 's \<times> world \<Rightarrow> (store_error option \<times> run_event) \<times> 's \<times> world) \<times>
      (run_event_query \<Rightarrow> 's \<Rightarrow> store_error + run_event list)) option"
  so_snapshot :: "(ctx \<Rightarrow> run \<Rightarrow> run_event \<Rightarrow> 's \<times> world \<Rightarrow>
      (store_error option \<times> run \<times> run_event) \<times> 's \<times> world) option"
  so_claim :: "(ctx \<Rightarrow> run \<Rightarrow> run_event \<Rightarrow> 's \<times> world \<Rightarrow>
      (store_error option \<times> run \<times> run_event \<times> bool) \<times> 's \<times> world) option"

definition sqlite_ops :: "db store_ops" where
  "sqlite_ops =
     \<lparr>so_save = sq_save_run, so_load = sq_load_run, so_list = sq_list_runs, so_count = Some sq_count_runs,
      so_events = Some (sq_append_run_event, sq_list_run_events), so_snapshot = Some sq_save_run_with_event,
      so_claim = Some sq_claim_run_with_event\<rparr>"

subsection \<open>The manager\<close>

record managed =
  mr_run :: run_dto
  mr_cancelled :: bool

record 's mgr =
  m_ops :: "'s store_ops option"
  m_store :: 's
  m_bus :: bus
  m_world :: world
  m_slots :: "(nat \<times> nat) option"
  m_max :: int
  m_timeout :: int
  m_runs :: "(string \<times> managed) list"

datatype mgr_error =
    StarterRequired
  | RunIdExists
  | RunNotFound
  | StoreFailed store_error
  | ShutdownInterrupted string

definition new_manager :: "'s store_ops option \<Rightarrow> 's \<Rightarrow> bus option \<Rightarrow> world \<Rightarrow> 's mgr" where
  "new_manager ops s b w =
     \<lparr>m_ops = ops, m_store = s, m_bus = (case b of None \<Rightarrow> new_bus | Some x \<Rightarrow> x), m_world = w,
      m_slots = None, m_max = 0, m_timeout = 0, m_runs = []\<rparr>"

definition set_max_concurrent :: "int \<Rightarrow> 's mgr \<Rightarrow> 's mgr" where
  "set_max_concurrent n m = m\<lparr>m_max := n, m_slots := (if 0 < n then Some (nat n, 0) else None)\<rparr>"

definition set_run_timeout :: "int \<Rightarrow> 's mgr \<Rightarrow> 's mgr" where
  "set_run_timeout t m = m\<lparr>m_timeout := t\<rparr>"

definition background :: ctx where
  "background = (\<lambda>_. None)"

definition tick :: "'s mgr \<Rightarrow> gtime \<times> 's mgr" where
  "tick m = (let (t, w) = now (m_world m) in (t, m\<lparr>m_world := w\<rparr>))"

definition publish_run :: "run_dto \<Rightarrow> 's mgr \<Rightarrow> 's mgr" where
  "publish_run d m = m\<lparr>m_bus := publish d (m_bus m)\<rparr>"

definition managed_run :: "'s mgr \<Rightarrow> string \<Rightarrow> run_dto option" where
  "managed_run m i = map_option mr_run (map_of (m_runs m) i)"

definition put_managed :: "string \<Rightarrow> managed \<Rightarrow> 's mgr \<Rightarrow> 's mgr" where
  "put_managed i x m = m\<lparr>m_runs := AList.update i x (m_runs m)\<rparr>"

definition delete_managed :: "string \<Rightarrow> 's mgr \<Rightarrow> 's mgr" where
  "delete_managed i m = m\<lparr>m_runs := AList.delete i (m_runs m)\<rparr>"

text \<open>\<open>context.CancelFunc\<close> of a run; a run no longer in the map has nobody left to observe it.\<close>

definition cancel_ctx :: "string \<Rightarrow> 's mgr \<Rightarrow> 's mgr" where
  "cancel_ctx i m =
     (case map_of (m_runs m) i of None \<Rightarrow> m | Some x \<Rightarrow> put_managed i (x\<lparr>mr_cancelled := True\<rparr>) m)"

subsection \<open>Persisting and publishing\<close>

definition run_event_of :: "run \<Rightarrow> gtime \<Rightarrow> run_event" where
  "run_event_of r t = zero_run_event\<lparr>re_run_id := r_id r, re_type := run_event_type (r_status r), re_at := t, re_run := r\<rparr>"

text \<open>
  \<open>recordEvent\<close>. Redacting the snapshot writes into the context blocks of the run it was given (the
  slice is shared), which is why the run is returned too.
\<close>

definition record_event :: "ctx \<Rightarrow> run_dto \<Rightarrow> 's mgr \<Rightarrow> (store_error option \<times> run_dto) \<times> 's mgr" where
  "record_event c d m =
     (case Option.bind (m_ops m) so_events of
        None \<Rightarrow> ((None, d), m)
      | Some (append_ev, _) \<Rightarrow>
          (if d_id d = [] then ((None, d), m)
           else
             (let d1 = d\<lparr>d_blocks := map redact_secrets (d_blocks d)\<rparr>;
                  (t, m1) = tick m;
                  ev = (run_event_of (run_from_dto (redact_event_snapshot d)) t)\<lparr>re_run_id := d_id d\<rparr>;
                  ((e, _), s, w) = append_ev c ev (m_store m1, m_world m1)
              in ((e, d1), m1\<lparr>m_store := s, m_world := w\<rparr>))))"

definition persist :: "ctx \<Rightarrow> run_dto \<Rightarrow> 's mgr \<Rightarrow> (store_error option \<times> run_dto) \<times> 's mgr" where
  "persist c d m =
     (case m_ops m of
        None \<Rightarrow> record_event c d m
      | Some ops \<Rightarrow>
          (let r = run_from_dto d
           in case (so_snapshot ops, so_events ops) of
                (Some save, Some _) \<Rightarrow>
                  (let (t, m1) = tick m;
                       ((e, saved, _), s, w) = save c r (run_event_of r t) (m_store m1, m_world m1);
                       m2 = m1\<lparr>m_store := s, m_world := w\<rparr>
                   in case e of Some e' \<Rightarrow> ((Some e', d), m2) | None \<Rightarrow> ((None, dto_from_run saved), m2))
              | _ \<Rightarrow>
                  (let ((e, _), s, w) = so_save ops c r (m_store m, m_world m);
                       m1 = m\<lparr>m_store := s, m_world := w\<rparr>
                   in case e of Some e' \<Rightarrow> ((Some e', d), m1) | None \<Rightarrow> record_event c d m1)))"

text \<open>What \<open>update\<close>, \<open>Cancel\<close> and \<open>Shutdown\<close> do with a snapshot after the lock is released.\<close>

definition flush_run :: "ctx \<Rightarrow> run_dto \<Rightarrow> 's mgr \<Rightarrow> run_dto \<times> 's mgr" where
  "flush_run c d m = (let ((_, d1), m1) = persist c d m in (d1, publish_run d1 m1))"

definition update_lock :: "string \<Rightarrow> (run_dto \<Rightarrow> 's mgr \<Rightarrow> run_dto \<times> 's mgr) \<Rightarrow> 's mgr \<Rightarrow> run_dto option \<times> 's mgr" where
  "update_lock i fn m =
     (case map_of (m_runs m) i of
        None \<Rightarrow> (None, m)
      | Some x \<Rightarrow>
          (let (d, m1) = fn (mr_run x) m
           in (Some (clone_run d), put_managed i (x\<lparr>mr_run := d\<rparr>) m1)))"

definition update :: "string \<Rightarrow> (run_dto \<Rightarrow> 's mgr \<Rightarrow> run_dto \<times> 's mgr) \<Rightarrow> 's mgr \<Rightarrow> 's mgr" where
  "update i fn m =
     (case update_lock i fn m of
        (None, m1) \<Rightarrow> m1
      | (Some d, m1) \<Rightarrow> snd (flush_run background d m1))"

subsection \<open>Starting a run\<close>

definition same_idempotent_run :: "run_dto \<Rightarrow> start_request \<Rightarrow> bool" where
  "same_idempotent_run existing q =
     (let key = trim_space (mget (g_metadata q) IdempotencyMetadataKey)
      in key \<noteq> [] \<and> d_session existing = g_session q \<and>
         trim_space (mget (d_metadata existing) IdempotencyMetadataKey) = key)"

definition accepted_run :: "string \<Rightarrow> start_request \<Rightarrow> gtime \<Rightarrow> run_dto" where
  "accepted_run i q t =
     zero_dto\<lparr>d_id := i, d_session := g_session q, d_prompt := g_prompt q, d_provider := g_provider q,
       d_model := g_model q, d_workdir := g_workdir q, d_max_tokens := g_max_tokens q, d_mcp := g_mcp q,
       d_skills := g_skills q, d_subagents := g_subagents q, d_enabled := g_enabled q,
       d_disabled := g_disabled q, d_blocks := g_blocks q, d_status := ''queued'',
       d_events_url := run_events_url i, d_started := t, d_metadata := g_metadata q\<rparr>"

datatype start_out = StartDup run_dto | StartClash | StartInserted run_dto

definition start_lock :: "string \<Rightarrow> start_request \<Rightarrow> 's mgr \<Rightarrow> start_out \<times> 's mgr" where
  "start_lock i q m =
     (let (t, m1) = tick m; d = accepted_run i q t
      in case managed_run m1 i of
           Some existing \<Rightarrow>
             (if same_idempotent_run existing q
              then (StartDup (mark_idempotency_reused (clone_run existing)), m1) else (StartClash, m1))
         | None \<Rightarrow> (StartInserted d, put_managed i \<lparr>mr_run = d, mr_cancelled = False\<rparr> m1))"

definition claim_accepted_run :: "ctx \<Rightarrow> run_dto \<Rightarrow> 's mgr \<Rightarrow> (store_error + bool \<times> run_dto) \<times> 's mgr" where
  "claim_accepted_run c d m =
     (case m_ops m of
        None \<Rightarrow> (Inr (True, d), m)
      | Some ops \<Rightarrow>
          (case (so_claim ops, so_events ops) of
             (Some claim, Some _) \<Rightarrow>
               (let r = run_from_dto d;
                    (t, m1) = tick m;
                    ((e, saved, _, claimed), s, w) = claim c r (run_event_of r t) (m_store m1, m_world m1);
                    m2 = m1\<lparr>m_store := s, m_world := w\<rparr>
                in case e of Some e' \<Rightarrow> (Inl e', m2) | None \<Rightarrow> (Inr (claimed, dto_from_run saved), m2))
           | _ \<Rightarrow>
               (let ((e, d1), m1) = persist c d m
                in case e of Some e' \<Rightarrow> (Inl e', m1) | None \<Rightarrow> (Inr (True, d1), m1))))"

text \<open>
  The accepted run and the managed one share their context blocks, so a redaction inside
  \<open>recordEvent\<close> reaches the managed run as well.
\<close>

definition share_blocks :: "string \<Rightarrow> run_dto \<Rightarrow> 's mgr \<Rightarrow> 's mgr" where
  "share_blocks i d m =
     (case m_ops m of
        None \<Rightarrow> m
      | Some ops \<Rightarrow>
          (if so_events ops \<noteq> None \<and> (so_claim ops \<noteq> None \<or> so_snapshot ops \<noteq> None) then m
           else (case map_of (m_runs m) i of
                   None \<Rightarrow> m
                 | Some x \<Rightarrow> put_managed i (x\<lparr>mr_run := (mr_run x)\<lparr>d_blocks := d_blocks d\<rparr>\<rparr>) m)))"

text \<open>\<open>Start\<close>: the outcome, and the request the new goroutine executes when one is started.\<close>

definition start_run_id :: "start_request \<Rightarrow> 's mgr \<Rightarrow> string \<times> 's mgr" where
  "start_run_id q m =
     (let i = trim_space (g_run_id q)
      in if i \<noteq> [] then (i, m)
         else (let (j, w) = new_id ''run'' (m_world m) in (j, m\<lparr>m_world := w\<rparr>)))"

definition start_finish ::
  "ctx \<Rightarrow> string \<Rightarrow> start_request \<Rightarrow> run_dto \<Rightarrow> 's mgr \<Rightarrow> ((mgr_error + run_dto) \<times> start_request option) \<times> 's mgr" where
  "start_finish c i q d m =
     (case claim_accepted_run c d m of
        (Inl e, m1) \<Rightarrow> ((Inl (StoreFailed e), None), delete_managed i m1)
      | (Inr (False, d1), m1) \<Rightarrow>
          (let m2 = delete_managed i m1
           in if \<not> same_idempotent_run d1 q then ((Inl RunIdExists, None), m2)
              else ((Inr (mark_idempotency_reused (clone_run d1)), None), m2))
      | (Inr (True, d1), m1) \<Rightarrow>
          (let m2 = publish_run d1 (share_blocks i d1 m1)
           in ((Inr (clone_run d1), Some (q\<lparr>g_run_id := i\<rparr>)), m2)))"

definition start ::
  "bool \<Rightarrow> ctx \<Rightarrow> start_request \<Rightarrow> 's mgr \<Rightarrow> ((mgr_error + run_dto) \<times> start_request option) \<times> 's mgr" where
  "start has_starter c q0 m =
     (if \<not> has_starter then ((Inl StarterRequired, None), m)
      else
        (let q = sanitize_start_request q0;
             (i, m1) = start_run_id q m
         in case start_lock i q m1 of
              (StartDup d, m2) \<Rightarrow> ((Inr d, None), m2)
            | (StartClash, m2) \<Rightarrow> ((Inl RunIdExists, None), m2)
            | (StartInserted d, m2) \<Rightarrow> start_finish c i q d m2))"

subsection \<open>Executing a run\<close>

text \<open>
  The goroutine of \<open>execute\<close>. The starter's result comes with whether its \<open>Metadata\<close> is nil, and its
  error with whether it is (or wraps) \<open>context.Canceled\<close> or \<open>DeadlineExceeded\<close>.
\<close>

definition acquire_slot :: "'s mgr \<Rightarrow> 's mgr option" where
  "acquire_slot m =
     (case m_slots m of
        None \<Rightarrow> Some m
      | Some (cap, n) \<Rightarrow> if n < cap then Some (m\<lparr>m_slots := Some (cap, Suc n)\<rparr>) else None)"

definition release_slot :: "'s mgr \<Rightarrow> 's mgr" where
  "release_slot m = (case m_slots m of None \<Rightarrow> m | Some (cap, n) \<Rightarrow> m\<lparr>m_slots := Some (cap, n - 1)\<rparr>)"

definition set_not_acquired :: "string \<Rightarrow> run_dto \<Rightarrow> 's mgr \<Rightarrow> run_dto \<times> 's mgr" where
  "set_not_acquired err d m =
     (let (t, m1) = tick m in (d\<lparr>d_status := ''cancelled'', d_ended := t, d_error := err\<rparr>, m1))"

definition set_running :: "run_dto \<Rightarrow> 's mgr \<Rightarrow> run_dto \<times> 's mgr" where
  "set_running d m = (let (t, m1) = tick m in (d\<lparr>d_status := ''running'', d_started := t\<rparr>, m1))"

definition take_result :: "start_request \<Rightarrow> (run_dto \<times> bool) option \<Rightarrow> run_dto \<Rightarrow> run_dto" where
  "take_result q result d =
     (case result of
        None \<Rightarrow> d
      | Some (res, meta_nil) \<Rightarrow>
          (let r1 = res\<lparr>d_id := g_run_id q\<rparr>;
               r2 = (if d_session r1 = [] then r1\<lparr>d_session := g_session q\<rparr> else r1);
               r3 = (if d_prompt r2 = [] then r2\<lparr>d_prompt := g_prompt q\<rparr> else r2);
               r4 = (if meta_nil then r3\<lparr>d_metadata := g_metadata q\<rparr> else r3)
           in clone_run r4))"

definition or_else :: "string \<Rightarrow> string \<Rightarrow> string" where
  "or_else a b = (if a = [] then b else a)"

definition or_list :: "string list \<Rightarrow> string list \<Rightarrow> string list" where
  "or_list a b = (if a = [] then b else a)"

definition fill_defaults :: "start_request \<Rightarrow> run_dto \<Rightarrow> run_dto" where
  "fill_defaults q d =
     (let i = or_else (d_id d) (g_run_id q)
      in d\<lparr>d_id := i,
           d_session := or_else (d_session d) (g_session q),
           d_provider := or_else (d_provider d) (g_provider q),
           d_model := or_else (d_model d) (g_model q),
           d_workdir := or_else (d_workdir d) (g_workdir q),
           d_max_tokens := (if d_max_tokens d = 0 then g_max_tokens q else d_max_tokens d),
           d_mcp := or_list (d_mcp d) (g_mcp q),
           d_skills := or_list (d_skills d) (g_skills q),
           d_subagents := or_list (d_subagents d) (g_subagents q),
           d_enabled := or_list (d_enabled d) (g_enabled q),
           d_disabled := or_list (d_disabled d) (g_disabled q),
           d_blocks := or_list (d_blocks d) (g_blocks q),
           d_metadata := with_request_id_metadata (d_metadata d) (mget (g_metadata q) RequestIDMetadataKey),
           d_events_url := run_events_url i\<rparr>)"

definition set_outcome :: "(string \<times> bool) option \<Rightarrow> string option \<Rightarrow> run_dto \<Rightarrow> run_dto" where
  "set_outcome err ctx_err d =
     (case ctx_err of
        Some e \<Rightarrow> d\<lparr>d_error := (if d_error d = [] then e else d_error d), d_status := ''cancelled''\<rparr>
      | None \<Rightarrow>
          (case err of
             Some (e, is_ctx) \<Rightarrow> d\<lparr>d_error := e, d_status := (if is_ctx then ''cancelled'' else ''failed'')\<rparr>
           | None \<Rightarrow>
               (if d_status d = [] \<or> d_status d = ''queued'' \<or> d_status d = ''running'' \<or> d_status d = ''cancelling''
                then d\<lparr>d_status := ''completed''\<rparr> else d)))"

definition set_finished ::
  "start_request \<Rightarrow> (run_dto \<times> bool) option \<Rightarrow> (string \<times> bool) option \<Rightarrow> string option \<Rightarrow> run_dto \<Rightarrow> 's mgr \<Rightarrow>
     run_dto \<times> 's mgr" where
  "set_finished q result err ctx_err d m =
     (let d1 = fill_defaults q (take_result q result d);
          (d2, m1) = (if is_zero (d_ended d1) then (let (t, m') = tick m in (d1\<lparr>d_ended := t\<rparr>, m')) else (d1, m))
      in (set_outcome err ctx_err d2, m1))"

text \<open>The run when its goroutine meets no other: \<open>outcome\<close> is what the starter does in between.\<close>

record starter_outcome =
  st_result :: "(run_dto \<times> bool) option"
  st_err :: "(string \<times> bool) option"
  st_ctx_err :: "string option"

definition execute_run :: "start_request \<Rightarrow> string \<Rightarrow> starter_outcome \<Rightarrow> 's mgr \<Rightarrow> 's mgr" where
  "execute_run q ctx_err o' m =
     (case acquire_slot m of
        None \<Rightarrow> update (g_run_id q) (set_not_acquired ctx_err) m
      | Some m1 \<Rightarrow>
          release_slot
            (update (g_run_id q) (set_finished q (st_result o') (st_err o') (st_ctx_err o'))
              (update (g_run_id q) set_running m1)))"

subsection \<open>Reading runs\<close>

definition mgr_get :: "string \<Rightarrow> 's mgr \<Rightarrow> mgr_error + run_dto" where
  "mgr_get i m =
     (case managed_run m i of
        Some d \<Rightarrow> Inr (clone_run d)
      | None \<Rightarrow>
          (case m_ops m of
             None \<Rightarrow> Inl RunNotFound
           | Some ops \<Rightarrow> (case so_load ops i (m_store m) of Inl e \<Rightarrow> Inl (StoreFailed e) | Inr r \<Rightarrow> Inr (dto_from_run r))))"

definition run_matches_query :: "run_query \<Rightarrow> run_dto \<Rightarrow> bool" where
  "run_matches_query q d \<longleftrightarrow>
     (rq_session q \<noteq> [] \<longrightarrow> d_session d = rq_session q) \<and>
     (rq_turn q \<noteq> [] \<longrightarrow> d_turn d = rq_turn q) \<and>
     (rq_status q \<noteq> [] \<longrightarrow> d_status d = rq_status q) \<and>
     (rq_provider q \<noteq> [] \<longrightarrow> d_provider d = rq_provider q) \<and>
     (rq_model q \<noteq> [] \<longrightarrow> d_model d = rq_model q) \<and>
     (rq_request_id q \<noteq> [] \<longrightarrow> mget (d_metadata d) RequestIDMetadataKey = rq_request_id q) \<and>
     (rq_idempotency q \<noteq> [] \<longrightarrow> mget (d_metadata d) IdempotencyMetadataKey = rq_idempotency q)"

definition mgr_list :: "run_query \<Rightarrow> 's mgr \<Rightarrow> mgr_error + run_dto list" where
  "mgr_list q m =
     (let lim = default_limit 50 (rq_limit q)
      in case m_ops m of
           Some ops \<Rightarrow>
             (case so_list ops (q\<lparr>rq_limit := lim\<rparr>) (m_store m) of
                Inl e \<Rightarrow> Inl (StoreFailed e)
              | Inr rs \<Rightarrow> Inr (filter (run_matches_query q) (map dto_from_run rs)))
         | None \<Rightarrow>
             Inr (page lim (rq_offset q)
               (sort_key (\<lambda>d. - d_started d)
                 (map clone_run (filter (run_matches_query q) (map (mr_run \<circ> snd) (m_runs m)))))))"

definition mgr_count :: "run_query \<Rightarrow> 's mgr \<Rightarrow> mgr_error + int" where
  "mgr_count q m =
     (case Option.bind (m_ops m) so_count of
        Some cnt \<Rightarrow>
          (case cnt (q\<lparr>rq_limit := 0, rq_offset := 0\<rparr>) (m_store m) of Inl e \<Rightarrow> Inl (StoreFailed e) | Inr n \<Rightarrow> Inr n)
      | None \<Rightarrow> Inr (int (length (filter (run_matches_query q) (map (mr_run \<circ> snd) (m_runs m))))))"

definition event_dto :: "run_event \<Rightarrow> run_event_dto" where
  "event_dto e =
     \<lparr>v_seq = re_seq e, v_at = re_at e, v_type = re_type e, v_tool = re_tool e, v_message = re_message e,
      v_error = re_error e, v_payload = re_payload e, v_run = dto_from_run (re_run e)\<rparr>"

definition mgr_events :: "string \<Rightarrow> int \<Rightarrow> string \<Rightarrow> int \<Rightarrow> 's mgr \<Rightarrow> (mgr_error + run_event_dto list) \<times> 's mgr" where
  "mgr_events i after typ lim m =
     (case Option.bind (m_ops m) so_events of
        Some (_, list_events) \<Rightarrow>
          (case list_events \<lparr>req_run_id = i, req_after = after, req_type = typ, req_limit = lim\<rparr> (m_store m) of
             Inl e \<Rightarrow> (Inl (StoreFailed e), m)
           | Inr es \<Rightarrow> (Inr (map (redact_run_event \<circ> event_dto) es), m))
      | None \<Rightarrow>
          (case mgr_get i m of
             Inl e \<Rightarrow> (Inl e, m)
           | Inr d \<Rightarrow>
               (if 1 \<le> after then (Inr [], m)
                else
                  (let (t, m1) = tick m;
                       ev = zero_event_dto\<lparr>v_seq := 1, v_at := t, v_type := run_event_type (d_status d), v_run := d\<rparr>
                   in if typ \<noteq> [] \<and> v_type ev \<noteq> typ then (Inr [], m1) else (Inr [redact_run_event ev], m1)))))"

record runtime_stats =
  stat_tracked :: nat
  stat_active :: nat
  stat_queued :: nat
  stat_running :: nat
  stat_cancelling :: nat
  stat_terminal :: nat
  stat_max :: int
  stat_occupied :: nat
  stat_available :: nat
  stat_timeout :: int

definition count_status :: "(string \<Rightarrow> bool) \<Rightarrow> 's mgr \<Rightarrow> nat" where
  "count_status P m = length (filter (\<lambda>x. P (d_status (mr_run (snd x)))) (m_runs m))"

definition mgr_stats :: "'s mgr \<Rightarrow> runtime_stats" where
  "mgr_stats m =
     (let qd = count_status (\<lambda>s. s = ''queued'') m;
          rn = count_status (\<lambda>s. s = ''running'') m;
          cc = count_status (\<lambda>s. s = ''cancelling'') m;
          tm = count_status is_terminal m;
          other = count_status (\<lambda>s. s \<notin> {''queued'', ''running'', ''cancelling''} \<and> \<not> is_terminal s) m
      in \<lparr>stat_tracked = length (m_runs m), stat_active = other + qd + rn + cc, stat_queued = qd,
          stat_running = rn, stat_cancelling = cc, stat_terminal = tm, stat_max = m_max m,
          stat_occupied = (case m_slots m of None \<Rightarrow> 0 | Some (_, n) \<Rightarrow> n),
          stat_available = (case m_slots m of None \<Rightarrow> 0 | Some (cap, n) \<Rightarrow> cap - n),
          stat_timeout = m_timeout m\<rparr>)"

subsection \<open>Cancelling and shutting down\<close>

definition cancel_lock :: "string \<Rightarrow> 's mgr \<Rightarrow> (run_dto \<times> bool) option \<times> 's mgr" where
  "cancel_lock i m =
     (case map_of (m_runs m) i of
        None \<Rightarrow> (None, m)
      | Some x \<Rightarrow>
          (let d = mr_run x
           in if d_status d = ''queued'' \<or> d_status d = ''running'' then
                (let (t, m1) = tick m; d1 = d\<lparr>d_status := ''cancelling'', d_ended := t\<rparr>
                 in (Some (clone_run d1, True), put_managed i (x\<lparr>mr_run := d1\<rparr>) m1))
              else (Some (clone_run d, False), m)))"

definition cancel_stored :: "ctx \<Rightarrow> string \<Rightarrow> 's mgr \<Rightarrow> (mgr_error + run_dto) \<times> 's mgr" where
  "cancel_stored c i m =
     (case m_ops m of
        None \<Rightarrow> (Inl RunNotFound, m)
      | Some ops \<Rightarrow>
          (case so_load ops i (m_store m) of
             Inl e \<Rightarrow> (Inl (StoreFailed e), m)
           | Inr r \<Rightarrow>
               (if r_status r = ''queued'' \<or> r_status r = ''running'' \<or> r_status r = ''cancelling'' then
                  (let (t, m1) = tick m;
                       r1 = r\<lparr>r_status := ''cancelled'', r_ended := t,
                              r_error := ''gateway process does not own this run anymore''\<rparr>;
                       ((e, d), m2) = persist c (dto_from_run r1) m1
                   in case e of Some e' \<Rightarrow> (Inl (StoreFailed e'), m2) | None \<Rightarrow> (Inr d, m2))
                else (Inr (dto_from_run r), m))))"

definition mgr_cancel :: "ctx \<Rightarrow> string \<Rightarrow> 's mgr \<Rightarrow> (mgr_error + run_dto) \<times> 's mgr" where
  "mgr_cancel c i m =
     (case cancel_lock i m of
        (None, m1) \<Rightarrow> cancel_stored c i m1
      | (Some (d, hit), m1) \<Rightarrow>
          (let (d1, m2) = flush_run c d m1
           in (Inr d1, if hit then cancel_ctx i m2 else m2)))"

text \<open>The locked loop of \<open>Shutdown\<close>: the runs it marked, in the order of the map.\<close>

fun shutdown_mark :: "string list \<Rightarrow> 's mgr \<Rightarrow> run_dto list \<times> 's mgr" where
  "shutdown_mark [] m = ([], m)"
| "shutdown_mark (i # is) m =
     (case map_of (m_runs m) i of
        None \<Rightarrow> shutdown_mark is m
      | Some x \<Rightarrow>
          (if is_terminal (d_status (mr_run x)) then shutdown_mark is m
           else
             (let (t, m1) = tick m;
                  d = (mr_run x)\<lparr>d_status := ''cancelling'', d_ended := t, d_error := ''gateway shutting down''\<rparr>;
                  (ds, m2) = shutdown_mark is (put_managed i (x\<lparr>mr_run := d\<rparr>) m1)
              in (clone_run d # ds, m2))))"

definition shutdown_lock :: "'s mgr \<Rightarrow> run_dto list \<times> 's mgr" where
  "shutdown_lock m = shutdown_mark (map fst (m_runs m)) m"

fun shutdown_flush :: "ctx \<Rightarrow> run_dto list \<Rightarrow> 's mgr \<Rightarrow> 's mgr" where
  "shutdown_flush c [] m = m"
| "shutdown_flush c (d # ds) m = shutdown_flush c ds (cancel_ctx (d_id d) (snd (flush_run c d m)))"

definition mgr_shutdown_cancel :: "ctx \<Rightarrow> 's mgr \<Rightarrow> 's mgr" where
  "mgr_shutdown_cancel c m = (let (ds, m1) = shutdown_lock m in shutdown_flush c ds m1)"

subsection \<open>Progress events\<close>

definition record_progress :: "ctx \<Rightarrow> string \<Rightarrow> run_event_dto \<Rightarrow> 's mgr \<Rightarrow> 's mgr" where
  "record_progress c i ev m =
     (case Option.bind (m_ops m) so_events of
        None \<Rightarrow> m
      | Some (append_ev, _) \<Rightarrow>
          (if trim_space i = [] \<or> trim_space (v_type ev) = [] then m
           else (case managed_run m i of
                   None \<Rightarrow> m
                 | Some d \<Rightarrow>
                     (let (ev1, m1) = (if is_zero (v_at ev) then (let (t, m') = tick m in (ev\<lparr>v_at := t\<rparr>, m')) else (ev, m));
                          ev2 = redact_run_event (ev1\<lparr>v_run := clone_run d\<rparr>);
                          ((e, saved), s, w) =
                            append_ev c
                              (zero_run_event\<lparr>re_run_id := i, re_type := v_type ev2, re_at := v_at ev2, re_tool := v_tool ev2,
                                 re_message := v_message ev2, re_error := v_error ev2, re_payload := v_payload ev2,
                                 re_run := run_from_dto (v_run ev2)\<rparr>)
                              (m_store m1, m_world m1);
                          m2 = m1\<lparr>m_store := s, m_world := w\<rparr>
                      in case e of
                           Some _ \<Rightarrow> m2
                         | None \<Rightarrow> m2\<lparr>m_bus := publish_event (ev2\<lparr>v_seq := re_seq saved\<rparr>) (m_bus m2)\<rparr>))))"

subsection \<open>Recovering the runs of a dead process\<close>

text \<open>
  \<open>RecoverStaleRuns\<close>: for each active status it lists up to 1000 runs and closes them, until the list
  comes back empty. The outer \<open>for\<close> has no bound of its own: \<open>None\<close> is running out of fuel.
\<close>

definition stale_run :: "gtime \<Rightarrow> run \<Rightarrow> run" where
  "stale_run t r =
     r\<lparr>r_status := ''failed'', r_ended := t, r_error := ''gateway restarted before this run completed''\<rparr>"

fun recover_batch :: "ctx \<Rightarrow> run list \<Rightarrow> 's mgr \<Rightarrow> store_error option \<times> 's mgr" where
  "recover_batch c [] m = (None, m)"
| "recover_batch c (r # rs) m =
     (if is_terminal (r_status r) then recover_batch c rs m
      else
        (let (t, m1) = tick m
         in case persist c (dto_from_run (stale_run t r)) m1 of
              ((Some e, _), m2) \<Rightarrow> (Some e, m2)
            | ((None, d), m2) \<Rightarrow> recover_batch c rs (publish_run d m2)))"

fun recover_status :: "nat \<Rightarrow> ctx \<Rightarrow> 's store_ops \<Rightarrow> string \<Rightarrow> 's mgr \<Rightarrow> (store_error option \<times> 's mgr) option" where
  "recover_status 0 c ops st m = None"
| "recover_status (Suc n) c ops st m =
     (case so_list ops (all_runs\<lparr>rq_status := st, rq_limit := 1000\<rparr>) (m_store m) of
        Inl e \<Rightarrow> Some (Some e, m)
      | Inr [] \<Rightarrow> Some (None, m)
      | Inr rs \<Rightarrow>
          (case recover_batch c rs m of
             (Some e, m1) \<Rightarrow> Some (Some e, m1)
           | (None, m1) \<Rightarrow> recover_status n c ops st m1))"

fun recover_statuses :: "nat \<Rightarrow> ctx \<Rightarrow> 's store_ops \<Rightarrow> string list \<Rightarrow> 's mgr \<Rightarrow> (store_error option \<times> 's mgr) option" where
  "recover_statuses n c ops [] m = Some (None, m)"
| "recover_statuses n c ops (st # sts) m =
     (case recover_status n c ops st m of
        None \<Rightarrow> None
      | Some (Some e, m1) \<Rightarrow> Some (Some e, m1)
      | Some (None, m1) \<Rightarrow> recover_statuses n c ops sts m1)"

definition active_statuses :: "string list" where
  "active_statuses = [''queued'', ''running'', ''cancelling'']"

definition recover_stale_runs :: "nat \<Rightarrow> ctx \<Rightarrow> 's mgr \<Rightarrow> (store_error option \<times> 's mgr) option" where
  "recover_stale_runs n c m =
     (case m_ops m of None \<Rightarrow> Some (None, m) | Some ops \<Rightarrow> recover_statuses n c ops active_statuses m)"

subsection \<open>Persisting into SQLite\<close>

lemma tick_frame [simp]:
  "m_ops (snd (tick m)) = m_ops m" "m_store (snd (tick m)) = m_store m" "m_runs (snd (tick m)) = m_runs m"
  "m_bus (snd (tick m)) = m_bus m" "m_slots (snd (tick m)) = m_slots m"
  by (simp_all add: tick_def split: prod.splits)

lemma publish_run_frame [simp]:
  "m_ops (publish_run d m) = m_ops m" "m_store (publish_run d m) = m_store m" "m_runs (publish_run d m) = m_runs m"
  "m_slots (publish_run d m) = m_slots m"
  by (simp_all add: publish_run_def)

lemma run_event_of_fields [simp]:
  "re_run_id (run_event_of r t) = r_id r" "re_seq (run_event_of r t) = 0" "re_run (run_event_of r t) = r"
  by (simp_all add: run_event_of_def zero_run_event_def)

lemma persist_sqlite:
  assumes "m_ops m = Some sqlite_ops" and "persist c d m = ((e, d'), m')"
  obtains t r' ev' w' where
    "sq_save_run_with_event c (run_from_dto d) (run_event_of (run_from_dto d) t) (m_store m, m_world (snd (tick m))) =
       ((e, r', ev'), m_store m', w')"
    "m_ops m' = m_ops m" "m_runs m' = m_runs m" "m_bus m' = m_bus m" "m_slots m' = m_slots m"
    "d' = (if e = None then dto_from_run r' else d)"
proof -
  obtain t m1 where t: "tick m = (t, m1)" by fastforce
  obtain e1 r1 v1 s w where q:
    "sq_save_run_with_event c (run_from_dto d) (run_event_of (run_from_dto d) t) (m_store m1, m_world m1) = ((e1, r1, v1), s, w)"
    by (metis prod.collapse)
  have m1: "m_ops m1 = m_ops m" "m_store m1 = m_store m" "m_runs m1 = m_runs m" "m_bus m1 = m_bus m"
      "m_slots m1 = m_slots m"
    using tick_frame [of m] by (simp_all add: t)
  have res: "((e, d'), m') = ((e1, if e1 = None then dto_from_run r1 else d), m1\<lparr>m_store := s, m_world := w\<rparr>)"
    using assms q unfolding persist_def by (cases e1) (auto simp: sqlite_ops_def t Let_def)
  show thesis
    by (rule that [of t r1 v1 w]) (use res q m1 t in simp_all)
qed

lemma persist_sqlite_frame:
  assumes "m_ops m = Some sqlite_ops"
  shows "m_ops (snd (persist c d m)) = m_ops m \<and> m_runs (snd (persist c d m)) = m_runs m \<and>
    m_bus (snd (persist c d m)) = m_bus m \<and> m_slots (snd (persist c d m)) = m_slots m"
proof -
  obtain e d' m' where "persist c d m = ((e, d'), m')" by (metis prod.collapse)
  from persist_sqlite [OF assms this] this show ?thesis by (metis snd_conv)
qed

definition run_rows_ok :: "db \<Rightarrow> bool" where
  "run_rows_ok d \<longleftrightarrow> run_tables_ok d \<and> list_all (\<lambda>r. r_id r \<noteq> []) (t_runs d)"

lemma find_run_mem: "run_tables_ok d \<Longrightarrow> r \<in> set (t_runs d) \<Longrightarrow> find_run d (r_id r) = Some r"
proof -
  assume "run_tables_ok d" "r \<in> set (t_runs d)"
  then have "inj_on r_id (set (t_runs d))" by (simp add: run_tables_ok_def distinct_map)
  moreover have "find_run d (r_id r) \<noteq> None" using \<open>r \<in> set (t_runs d)\<close> by (simp only: find_run_None) blast
  then obtain x where "find_run d (r_id r) = Some x" by blast
  moreover from this have "x \<in> set (t_runs d) \<and> r_id x = r_id r" by (rule find_run_Some)
  ultimately show ?thesis using \<open>r \<in> set (t_runs d)\<close> by (auto dest: inj_onD)
qed

lemma persist_sqlite_done:
  assumes "m_ops m = Some sqlite_ops" and "persist c d m = ((None, d'), m')" and "d_id d \<noteq> []" and "d_status d \<noteq> []"
  shows "\<exists>x. find_run (m_store m') = (find_run (m_store m))(d_id d \<mapsto> x) \<and> same_run x (run_from_dto d) \<and>
    (\<exists>r'. d' = dto_from_run r' \<and> same_run r' (run_from_dto d))"
proof -
  from assms(1,2) obtain t r' ev' w' where q:
    "sq_save_run_with_event c (run_from_dto d) (run_event_of (run_from_dto d) t) (m_store m, m_world (snd (tick m))) =
       ((None, r', ev'), m_store m', w')" "d' = dto_from_run r'"
    by (auto elim!: persist_sqlite)
  have "r_id (run_from_dto d) \<noteq> []" "r_status (run_from_dto d) \<noteq> []"
    "re_run_id (run_event_of (run_from_dto d) t) = r_id (run_from_dto d)"
    using assms(3,4) by simp_all
  from sq.save_done [OF this q(1)] q(2) show ?thesis by auto
qed

lemma persist_sqlite_failed:
  assumes "m_ops m = Some sqlite_ops" and "persist c d m = ((Some e, d'), m')"
  shows "m_store m' = m_store m \<and> d' = d"
proof -
  from assms obtain t r' ev' w' where q:
    "sq_save_run_with_event c (run_from_dto d) (run_event_of (run_from_dto d) t) (m_store m, m_world (snd (tick m))) =
       ((Some e, r', ev'), m_store m', w')" "d' = d"
    by (auto elim!: persist_sqlite)
  from sq.save_failed [OF q(1)] q(2) show ?thesis by simp
qed

lemma persist_sqlite_rows:
  assumes "m_ops m = Some sqlite_ops" and "run_rows_ok (m_store m)" and "persist c d m = ((e, d'), m')" and "d_id d \<noteq> []"
    and "d_status d \<noteq> []"
  shows "run_rows_ok (m_store m')"
proof (cases e)
  case (Some x)
  then show ?thesis using persist_sqlite_failed [of m c d x d' m'] assms by simp
next
  case None
  obtain t r' ev' w' where q:
    "sq_save_run_with_event c (run_from_dto d) (run_event_of (run_from_dto d) t) (m_store m, m_world (snd (tick m))) =
       ((e, r', ev'), m_store m', w')"
    using assms(1,3) by (auto elim!: persist_sqlite)
  have ok: "run_tables_ok (m_store m')"
    using sq_save_run_with_event_ok [OF _ q] assms(2) by (simp add: run_rows_ok_def)
  obtain x where x: "find_run (m_store m') = (find_run (m_store m))(d_id d \<mapsto> x)"
    using persist_sqlite_done [of m c d d' m'] assms None by auto
  have "r_id r \<noteq> []" if "r \<in> set (t_runs (m_store m'))" for r
  proof -
    have f: "find_run (m_store m') (r_id r) = Some r" using find_run_mem [OF ok that] .
    show ?thesis
    proof (cases "r_id r = d_id d")
      case False
      then have "find_run (m_store m) (r_id r) = Some r" using f x by simp
      then show ?thesis using assms(2) find_run_Some by (fastforce simp: run_rows_ok_def list_all_iff)
    qed (use assms(4) in simp)
  qed
  then show ?thesis using ok by (simp add: run_rows_ok_def list_all_iff)
qed

subsection \<open>Recovery terminates and closes every stale run\<close>

definition has_status :: "db \<Rightarrow> string \<Rightarrow> string \<Rightarrow> bool" where
  "has_status d i st \<longleftrightarrow> (\<exists>r. find_run d i = Some r \<and> r_status r = st)"

definition is_active :: "string \<Rightarrow> bool" where
  "is_active st \<longleftrightarrow> st \<in> set active_statuses"

text \<open>From \<open>d\<close> to \<open>d'\<close> nothing but active runs changed, and those that changed have failed.\<close>

definition closes :: "db \<Rightarrow> db \<Rightarrow> bool" where
  "closes d d' \<longleftrightarrow>
     (\<forall>i. find_run d' i = find_run d i \<or>
       (\<exists>r. find_run d i = Some r \<and> is_active (r_status r)) \<and> has_status d' i ''failed'')"

lemma closes_refl [simp]: "closes d d"
  by (simp add: closes_def)

lemma closes_trans:
  assumes "closes d1 d2" and "closes d2 d3"
  shows "closes d1 d3"
  unfolding closes_def
proof
  fix i
  have f: "\<not> is_active ''failed''" by (simp add: is_active_def active_statuses_def)
  show "find_run d3 i = find_run d1 i \<or>
       (\<exists>r. find_run d1 i = Some r \<and> is_active (r_status r)) \<and> has_status d3 i ''failed''"
  proof (cases "find_run d2 i = find_run d1 i")
    case True
    then show ?thesis using assms(2) unfolding closes_def by metis
  next
    case False
    then have c: "\<exists>r. find_run d1 i = Some r \<and> is_active (r_status r)" "has_status d2 i ''failed''"
      using assms(1) unfolding closes_def by blast+
    then have "find_run d3 i = find_run d2 i"
      using assms(2) f unfolding closes_def has_status_def by (metis option.inject)
    then show ?thesis using c by (simp add: has_status_def)
  qed
qed

lemma closes_failed: "closes d d' \<Longrightarrow> has_status d i ''failed'' \<Longrightarrow> has_status d' i ''failed''"
proof -
  assume "closes d d'" "has_status d i ''failed''"
  moreover have "\<not> is_active ''failed''" by (simp add: is_active_def active_statuses_def)
  ultimately show ?thesis unfolding closes_def has_status_def by (metis option.inject)
qed

lemma closes_active: "closes d d' \<Longrightarrow> st \<noteq> ''failed'' \<Longrightarrow> has_status d' i st \<Longrightarrow> has_status d i st"
  unfolding closes_def has_status_def by (metis option.inject)

lemma same_run_status: "same_run a b \<Longrightarrow> r_status a = r_status b"
proof -
  assume "same_run a b"
  then have "r_status (a\<lparr>r_created := 0, r_updated := 0\<rparr>) = r_status (b\<lparr>r_created := 0, r_updated := 0\<rparr>)"
    by (simp only: same_run_def)
  then show ?thesis by simp
qed

lemma recover_batch_sqlite:
  assumes "recover_batch c rs m = (e, m')" and "m_ops m = Some sqlite_ops" and "run_rows_ok (m_store m)"
    and "\<forall>r \<in> set rs. r_id r \<noteq> [] \<and> is_active (r_status r) \<and>
      (find_run (m_store m) (r_id r) = Some r \<or> has_status (m_store m) (r_id r) ''failed'')"
    and "closes d0 (m_store m)" and "\<forall>r \<in> set rs. find_run d0 (r_id r) = Some r"
  shows "m_ops m' = Some sqlite_ops \<and> run_rows_ok (m_store m') \<and> closes d0 (m_store m') \<and>
    (e = None \<longrightarrow> (\<forall>r \<in> set rs. has_status (m_store m') (r_id r) ''failed'')) \<and>
    (\<forall>i. has_status (m_store m) i ''failed'' \<longrightarrow> has_status (m_store m') i ''failed'')"
  using assms
proof (induction c rs m rule: recover_batch.induct)
  case (2 c r rs m)
  obtain t m1 where t: "tick m = (t, m1)" by fastforce
  have m1: "m_ops m1 = m_ops m" "m_store m1 = m_store m" using tick_frame [of m] by (simp_all add: t)
  let ?d = "dto_from_run (stale_run t r)"
  have act: "is_active (r_status r)" and id: "r_id r \<noteq> []" using "2.prems"(4) by auto
  then have nt: "\<not> is_terminal (r_status r)" by (auto simp: is_active_def active_statuses_def)
  obtain e1 d1 m2 where p: "persist c ?d m1 = ((e1, d1), m2)" by (metis prod.collapse)
  have di: "d_id ?d = r_id r" "d_status ?d = ''failed''" by (simp_all add: stale_run_def)
  have ops1: "m_ops m1 = Some sqlite_ops" using "2.prems"(2) m1 by simp
  show ?case
  proof (cases e1)
    case (Some e')
    with p have "persist c ?d m1 = ((Some e', d1), m2)" by simp
    moreover from persist_sqlite_failed [OF ops1 this] m1 have "m_store m2 = m_store m" by simp
    moreover have "m_ops m2 = Some sqlite_ops" using persist_sqlite_frame [OF ops1, of c ?d] p ops1 by simp
    ultimately show ?thesis using "2.prems" nt t Some by auto
  next
    case None
    with p have p': "persist c ?d m1 = ((None, d1), m2)" by simp
    from persist_sqlite_done [OF ops1 p'] id di obtain x where
      x: "find_run (m_store m2) = (find_run (m_store m))(r_id r \<mapsto> x)" "same_run x (run_from_dto ?d)"
      using m1 by auto
    have xf: "r_status x = ''failed''" using same_run_status [OF x(2)] by (simp add: stale_run_def)
    let ?m = "publish_run d1 m2"
    have ops: "m_ops ?m = Some sqlite_ops"
      using persist_sqlite_frame [OF ops1, of c ?d] p' ops1 by simp
    have rows: "run_rows_ok (m_store ?m)"
      using persist_sqlite_rows [OF ops1 _ p'] "2.prems"(3) m1 id di by simp
    have hs: "has_status (m_store ?m) i st \<longleftrightarrow> (if i = r_id r then st = ''failed'' else has_status (m_store m) i st)" for i st
      using x(1) xf by (auto simp: has_status_def)
    have "closes (m_store m) (m_store ?m) \<or> has_status (m_store m) (r_id r) ''failed''"
      using "2.prems"(4) act x hs by (auto simp: closes_def)
    moreover have "find_run d0 (r_id r) = Some r" using "2.prems"(6) by simp
    ultimately have c2: "closes d0 (m_store ?m)"
      using "2.prems"(5) act x(1) hs closes_trans unfolding closes_def by (metis fun_upd_apply publish_run_frame(2))
    have pre: "\<forall>r' \<in> set rs. r_id r' \<noteq> [] \<and> is_active (r_status r') \<and>
      (find_run (m_store ?m) (r_id r') = Some r' \<or> has_status (m_store ?m) (r_id r') ''failed'')"
    proof
      fix r' assume "r' \<in> set rs"
      then have "r_id r' \<noteq> [] \<and> is_active (r_status r') \<and>
        (find_run (m_store m) (r_id r') = Some r' \<or> has_status (m_store m) (r_id r') ''failed'')"
        using "2.prems"(4) by simp
      then show "r_id r' \<noteq> [] \<and> is_active (r_status r') \<and>
        (find_run (m_store ?m) (r_id r') = Some r' \<or> has_status (m_store ?m) (r_id r') ''failed'')"
        using hs x(1) by auto
    qed
    have "recover_batch c rs ?m = (e, m')" using "2.prems"(1) nt t p' by simp
    from "2.IH"(2) [OF nt refl t [symmetric] p' [symmetric] refl refl this ops rows pre c2] "2.prems"(6)
    have ih: "m_ops m' = Some sqlite_ops \<and> run_rows_ok (m_store m') \<and> closes d0 (m_store m') \<and>
      (e = None \<longrightarrow> (\<forall>r\<in>set rs. has_status (m_store m') (r_id r) ''failed'')) \<and>
      (\<forall>i. has_status (m_store ?m) i ''failed'' \<longrightarrow> has_status (m_store m') i ''failed'')"
      by simp
    then show ?thesis using hs by auto
  qed
qed simp

lemma list_active:
  assumes "st \<in> set active_statuses"
    and "sq_list_runs (all_runs\<lparr>rq_status := st, rq_limit := 1000\<rparr>) d = Inr rs"
  shows "(\<forall>r \<in> set rs. r \<in> set (t_runs d) \<and> r_status r = st) \<and>
    (rs = [] \<longrightarrow> (\<forall>r \<in> set (t_runs d). r_status r \<noteq> st))"
proof -
  let ?q = "all_runs\<lparr>rq_status := st, rq_limit := 1000\<rparr>"
  let ?ys = "sort_desc (\<lambda>r. rfc3339nano (r_updated r)) (filter (run_where ?q) (t_runs d))"
  have ne: "st \<noteq> []" using assms(1) by (auto simp: active_statuses_def)
  have w: "run_where ?q = (\<lambda>r. r_status r = st)" by (rule ext) (simp add: run_where_def all_runs_def ne)
  have rs: "rs = page 1000 0 ?ys" using assms(2) by (simp add: sq_list_runs_def default_limit_def all_runs_def)
  have "set rs \<subseteq> set ?ys" unfolding rs by (rule set_page)
  moreover have "rs = [] \<Longrightarrow> ?ys = []" unfolding rs by (simp add: page_def)
  then have "rs = [] \<Longrightarrow> set ?ys = {}" by simp
  ultimately show ?thesis by (auto simp: w)
qed

lemma has_status_finite: "finite {i. has_status d i st}"
proof -
  have "{i. has_status d i st} \<subseteq> r_id ` set (t_runs d)"
    using find_run_Some by (fastforce simp: has_status_def)
  then show ?thesis by (rule finite_subset) simp
qed

lemma recover_status_sqlite:
  assumes "m_ops m = Some sqlite_ops" and "run_rows_ok (m_store m)" and "st \<in> set active_statuses"
    and "card {i. has_status (m_store m) i st} < n"
  shows "\<exists>e m'. recover_status n c sqlite_ops st m = Some (e, m') \<and> m_ops m' = Some sqlite_ops \<and>
    run_rows_ok (m_store m') \<and> closes (m_store m) (m_store m') \<and>
    (e = None \<longrightarrow> (\<forall>i. \<not> has_status (m_store m') i st))"
  using assms
proof (induction n arbitrary: m)
  case (Suc n)
  have ok: "run_tables_ok (m_store m)" using Suc.prems(2) by (simp add: run_rows_ok_def)
  obtain rs where l: "sq_list_runs (all_runs\<lparr>rq_status := st, rq_limit := 1000\<rparr>) (m_store m) = Inr rs"
    by (simp add: sq_list_runs_def)
  note rs = list_active [OF Suc.prems(3) l]
  have lo: "so_list sqlite_ops = sq_list_runs" by (simp add: sqlite_ops_def)
  show ?case
  proof (cases rs)
    case Nil
    then have "\<not> has_status (m_store m) i st" for i
      using rs find_run_Some by (fastforce simp: has_status_def)
    then show ?thesis using Suc.prems l Nil by (simp add: lo)
  next
    case (Cons r0 rs0)
    obtain e m1 where b: "recover_batch c rs m = (e, m1)" by fastforce
    have in_store: "\<forall>r \<in> set rs. find_run (m_store m) (r_id r) = Some r"
      using rs find_run_mem [OF ok] by blast
    have pre: "\<forall>r \<in> set rs. r_id r \<noteq> [] \<and> is_active (r_status r) \<and>
      (find_run (m_store m) (r_id r) = Some r \<or> has_status (m_store m) (r_id r) ''failed'')"
      using rs in_store Suc.prems(2,3) by (auto simp: run_rows_ok_def list_all_iff is_active_def)
    note h = recover_batch_sqlite [OF b Suc.prems(1,2) pre closes_refl in_store]
    show ?thesis
    proof (cases e)
      case (Some e')
      then show ?thesis using l Cons b h by (auto simp: lo)
    next
      case None
      have stf: "st \<noteq> ''failed''" using Suc.prems(3) by (auto simp: active_statuses_def)
      have "has_status (m_store m1) (r_id r0) ''failed''" using h None Cons by simp
      then have "\<not> has_status (m_store m1) (r_id r0) st" using stf by (auto simp: has_status_def)
      moreover have "has_status (m_store m) (r_id r0) st" using in_store rs Cons by (auto simp: has_status_def)
      moreover have "{i. has_status (m_store m1) i st} \<subseteq> {i. has_status (m_store m) i st}"
        using closes_active [OF _ stf] h by blast
      ultimately have "{i. has_status (m_store m1) i st} \<subset> {i. has_status (m_store m) i st}" by blast
      then have "card {i. has_status (m_store m1) i st} < card {i. has_status (m_store m) i st}"
        by (rule psubset_card_mono [OF has_status_finite])
      then have "card {i. has_status (m_store m1) i st} < n" using Suc.prems(4) by simp
      from Suc.IH [OF _ _ Suc.prems(3) this] h obtain e2 m2 where
        i: "recover_status n c sqlite_ops st m1 = Some (e2, m2)" "m_ops m2 = Some sqlite_ops" "run_rows_ok (m_store m2)"
        "closes (m_store m1) (m_store m2)" "e2 = None \<longrightarrow> (\<forall>i. \<not> has_status (m_store m2) i st)" by blast
      moreover have "closes (m_store m) (m_store m2)" using h i(4) closes_trans by blast
      ultimately show ?thesis using l Cons b None by (simp add: lo)
    qed
  qed
qed simp

lemma recover_statuses_sqlite:
  assumes "m_ops m = Some sqlite_ops" and "run_rows_ok (m_store m)" and "set sts \<subseteq> set active_statuses"
    and "length (t_runs (m_store m)) < n"
  shows "\<exists>e m'. recover_statuses n c sqlite_ops sts m = Some (e, m') \<and> m_ops m' = Some sqlite_ops \<and>
    run_rows_ok (m_store m') \<and> closes (m_store m) (m_store m') \<and>
    (e = None \<longrightarrow> (\<forall>i. \<forall>st \<in> set sts. \<not> has_status (m_store m') i st))"
  using assms
proof (induction sts arbitrary: m)
  case (Cons st sts)
  have ids: "card (r_id ` set (t_runs (m_store m))) \<le> length (t_runs (m_store m))"
    by (metis card_length list.set_map length_map)
  have "{i. has_status (m_store m) i st} \<subseteq> r_id ` set (t_runs (m_store m))"
    using find_run_Some by (fastforce simp: has_status_def)
  then have "card {i. has_status (m_store m) i st} \<le> card (r_id ` set (t_runs (m_store m)))"
    by (rule card_mono [rotated]) simp
  then have "card {i. has_status (m_store m) i st} < n" using ids Cons.prems(4) by linarith
  from recover_status_sqlite [OF Cons.prems(1,2) _ this, of c] Cons.prems(3) obtain e m1 where
    a: "recover_status n c sqlite_ops st m = Some (e, m1)" "m_ops m1 = Some sqlite_ops" "run_rows_ok (m_store m1)"
    "closes (m_store m) (m_store m1)" "e = None \<longrightarrow> (\<forall>i. \<not> has_status (m_store m1) i st)" by auto
  show ?case
  proof (cases e)
    case (Some e')
    then show ?thesis using a by simp
  next
    case None
    have "r_id ` set (t_runs (m_store m1)) \<subseteq> r_id ` set (t_runs (m_store m))"
    proof
      fix i assume "i \<in> r_id ` set (t_runs (m_store m1))"
      then have "find_run (m_store m1) i \<noteq> None" by (simp add: find_run_None)
      then have "find_run (m_store m) i \<noteq> None" using a(4) unfolding closes_def by (metis option.distinct(1))
      then show "i \<in> r_id ` set (t_runs (m_store m))" by (simp add: find_run_None)
    qed
    then have "card (r_id ` set (t_runs (m_store m1))) \<le> card (r_id ` set (t_runs (m_store m)))"
      by (rule card_mono [rotated]) simp
    moreover have "card (r_id ` set (t_runs (m_store m1))) = length (t_runs (m_store m1))"
      using a(3) by (metis distinct_card length_map list.set_map run_rows_ok_def run_tables_ok_def)
    ultimately have "length (t_runs (m_store m1)) < n" using ids Cons.prems(4) by linarith
    from Cons.IH [OF a(2,3) _ this] Cons.prems(3) obtain e2 m2 where
      b: "recover_statuses n c sqlite_ops sts m1 = Some (e2, m2)" "m_ops m2 = Some sqlite_ops" "run_rows_ok (m_store m2)"
      "closes (m_store m1) (m_store m2)" "e2 = None \<longrightarrow> (\<forall>i. \<forall>st \<in> set sts. \<not> has_status (m_store m2) i st)" by auto
    have "closes (m_store m) (m_store m2)" using a(4) b(4) by (rule closes_trans)
    moreover have "\<not> has_status (m_store m2) i st" for i
    proof
      assume "has_status (m_store m2) i st"
      moreover have "st \<noteq> ''failed''" using Cons.prems(3) by (auto simp: active_statuses_def)
      ultimately have "has_status (m_store m1) i st" using closes_active b(4) by blast
      then show False using a(5) None by simp
    qed
    ultimately show ?thesis using a b None by simp
  qed
qed simp

end
