(* ===== verification/Run_Lifecycle.thy ===== *)
theory Run_Lifecycle
  imports Run_Manager
begin

section \<open>Package gateway: the life of a background run\<close>

text \<open>
  What the operations of \<open>Run_Manager\<close> guarantee when the store is the SQLite one: which starts launch
  a run, how an execution ends, what cancelling, shutting down and recovering change, and that what the
  event endpoint shows is redacted.
\<close>

subsection \<open>The locked regions\<close>

lemma put_managed_frame [simp]:
  "m_ops (put_managed i x m) = m_ops m" "m_store (put_managed i x m) = m_store m" "m_bus (put_managed i x m) = m_bus m"
  "m_slots (put_managed i x m) = m_slots m" "m_world (put_managed i x m) = m_world m"
  "map_of (m_runs (put_managed i x m)) = (map_of (m_runs m))(i \<mapsto> x)"
  by (simp_all add: put_managed_def update_conv')

lemma delete_managed_frame [simp]:
  "m_ops (delete_managed i m) = m_ops m" "m_store (delete_managed i m) = m_store m" "m_bus (delete_managed i m) = m_bus m"
  "m_slots (delete_managed i m) = m_slots m" "map_of (m_runs (delete_managed i m)) = (map_of (m_runs m))(i := None)"
  by (simp_all add: delete_managed_def delete_conv')

lemma cancel_ctx_frame [simp]:
  "m_ops (cancel_ctx i m) = m_ops m" "m_store (cancel_ctx i m) = m_store m" "m_bus (cancel_ctx i m) = m_bus m"
  "m_slots (cancel_ctx i m) = m_slots m"
  by (simp_all add: cancel_ctx_def split: option.splits)

lemma map_of_cancel_ctx:
  "map_of (m_runs (cancel_ctx i m)) = (\<lambda>j. if j = i then map_option (\<lambda>x. x\<lparr>mr_cancelled := True\<rparr>) (map_of (m_runs m) j)
     else map_of (m_runs m) j)"
  by (rule ext) (simp add: cancel_ctx_def split: option.splits)

lemma tick_eq:
  assumes "tick m = (t, m1)"
  shows "m_ops m1 = m_ops m \<and> m_store m1 = m_store m \<and> m_runs m1 = m_runs m \<and> m_bus m1 = m_bus m \<and> m_slots m1 = m_slots m"
  using tick_frame [of m] assms by simp

lemma start_run_id_spec:
  assumes "start_run_id q m = (i, m1)"
  shows "i \<noteq> [] \<and> m_ops m1 = m_ops m \<and> m_store m1 = m_store m \<and> m_runs m1 = m_runs m \<and> m_bus m1 = m_bus m"
  using assms by (auto simp: start_run_id_def Let_def split: if_splits prod.splits)

lemma start_lock_cases:
  assumes "start_lock i q m = (x, m1)"
  obtains (dup) d where "x = StartDup (mark_idempotency_reused (clone_run d))" "managed_run m i = Some d"
      "same_idempotent_run d q" "m_runs m1 = m_runs m" "m_store m1 = m_store m" "m_bus m1 = m_bus m"
      "m_ops m1 = m_ops m"
    | (clash) d where "x = StartClash" "managed_run m i = Some d" "\<not> same_idempotent_run d q"
      "m_runs m1 = m_runs m" "m_store m1 = m_store m" "m_bus m1 = m_bus m" "m_ops m1 = m_ops m"
    | (inserted) t where "x = StartInserted (accepted_run i q t)" "map_of (m_runs m) i = None"
      "map_of (m_runs m1) = (map_of (m_runs m))(i \<mapsto> \<lparr>mr_run = accepted_run i q t, mr_cancelled = False\<rparr>)"
      "m_store m1 = m_store m" "m_bus m1 = m_bus m" "m_ops m1 = m_ops m"
proof -
  obtain t m2 where t: "tick m = (t, m2)" by fastforce
  note f = tick_eq [OF t]
  have r: "managed_run m2 i = managed_run m i" by (simp add: managed_run_def f)
  show thesis
  proof (cases "managed_run m i")
    case None
    with assms t r have "x = StartInserted (accepted_run i q t)"
      "m1 = put_managed i \<lparr>mr_run = accepted_run i q t, mr_cancelled = False\<rparr> m2"
      by (simp_all add: start_lock_def Let_def)
    moreover have "map_of (m_runs m) i = None" using None by (simp add: managed_run_def)
    ultimately show thesis using inserted f by simp
  next
    case (Some d)
    with assms t r have x: "(x, m1) = (if same_idempotent_run d q then (StartDup (mark_idempotency_reused (clone_run d)), m2)
      else (StartClash, m2))" by (simp add: start_lock_def Let_def)
    show thesis
    proof (cases "same_idempotent_run d q")
      case True
      then show thesis using dup [OF _ Some True] x f by simp
    next
      case False
      then show thesis using clash [OF _ Some False] x f by simp
    qed
  qed
qed

subsection \<open>Claiming in SQLite\<close>

lemma claim_accepted_sqlite:
  assumes "m_ops m = Some sqlite_ops" and "claim_accepted_run c d m = (x, m')" and "d_id d \<noteq> []" and "d_status d \<noteq> []"
  shows "m_ops m' = m_ops m \<and> m_runs m' = m_runs m \<and> m_bus m' = m_bus m \<and>
    (case x of
       Inl e \<Rightarrow> m_store m' = m_store m
     | Inr (True, d1) \<Rightarrow> find_run (m_store m) (d_id d) = None \<and>
         (\<exists>r. d1 = dto_from_run r \<and> same_run r (run_from_dto d) \<and>
            find_run (m_store m') = (find_run (m_store m))(d_id d \<mapsto> r))
     | Inr (False, d1) \<Rightarrow> m_store m' = m_store m \<and>
         (\<exists>r. d1 = dto_from_run r \<and> find_run (m_store m) (d_id d) = Some r))"
proof -
  let ?r = "run_from_dto d"
  obtain t m1 where t: "tick m = (t, m1)" by fastforce
  note f = tick_eq [OF t]
  let ?ev = "run_event_of ?r t"
  obtain e r1 ev1 b s w where q:
    "sq_claim_run_with_event c ?r ?ev (m_store m1, m_world m1) = ((e, r1, ev1, b), s, w)" by (metis prod.collapse)
  have x: "(x, m') = (case e of Some e' \<Rightarrow> (Inl e', m1\<lparr>m_store := s, m_world := w\<rparr>)
      | None \<Rightarrow> (Inr (b, dto_from_run r1), m1\<lparr>m_store := s, m_world := w\<rparr>))"
    using assms(1,2) q t by (simp add: claim_accepted_run_def sqlite_ops_def Let_def)
  have ne: "r_id ?r \<noteq> []" "r_status ?r \<noteq> []" "re_run_id ?ev = r_id ?r" using assms(3,4) by simp_all
  show ?thesis
  proof (cases e)
    case (Some e')
    then have "s = m_store m1" using sq.claim_failed q by metis
    then show ?thesis using x Some f by simp
  next
    case None
    show ?thesis
    proof (cases b)
      case True
      then have "sq_claim_run_with_event c ?r ?ev (m_store m1, m_world m1) = ((None, r1, ev1, True), s, w)"
        using q None by simp
      from sq.claim_done [OF ne this] show ?thesis using x None True f by auto
    next
      case False
      then have "sq_claim_run_with_event c ?r ?ev (m_store m1, m_world m1) = ((None, r1, ev1, False), s, w)"
        using q None by simp
      from sq.claim_present [OF ne(1) this] show ?thesis using x None False f by simp
    qed
  qed
qed

lemma replay_same_key:
  assumes "same_idempotent_run d q"
  shows "d_session (mark_idempotency_reused (clone_run d)) = g_session q \<and>
    trim_space (mget (d_metadata (mark_idempotency_reused (clone_run d))) IdempotencyMetadataKey) =
      trim_space (mget (g_metadata q) IdempotencyMetadataKey) \<and>
    trim_space (mget (g_metadata q) IdempotencyMetadataKey) \<noteq> []"
  using assms
  by (simp add: same_idempotent_run_def mark_idempotency_reused_def Let_def mget_mset_kv
      IdempotencyMetadataKey_def IdempotencyReusedMetadataKey_def)

lemma share_blocks_sqlite [simp]: "m_ops m = Some sqlite_ops \<Longrightarrow> share_blocks i d m = m"
  by (simp add: share_blocks_def sqlite_ops_def)

text \<open>What a start leaves behind when it launches nothing.\<close>

definition not_started :: "start_request \<Rightarrow> db mgr \<Rightarrow> mgr_error + run_dto \<Rightarrow> db mgr \<Rightarrow> bool" where
  "not_started q m res m' \<longleftrightarrow>
     map_of (m_runs m') = map_of (m_runs m) \<and> m_store m' = m_store m \<and> m_bus m' = m_bus m \<and>
     (case res of
        Inl _ \<Rightarrow> True
      | Inr d \<Rightarrow> d_session d = g_session q \<and>
          trim_space (mget (d_metadata d) IdempotencyMetadataKey) = trim_space (mget (g_metadata q) IdempotencyMetadataKey) \<and>
          trim_space (mget (g_metadata q) IdempotencyMetadataKey) \<noteq> [])"

definition run_started :: "start_request \<Rightarrow> db mgr \<Rightarrow> mgr_error + run_dto \<Rightarrow> db mgr \<Rightarrow> bool" where
  "run_started q m res m' \<longleftrightarrow>
     g_run_id q \<noteq> [] \<and> managed_run m (g_run_id q) = None \<and> find_run (m_store m) (g_run_id q) = None \<and>
     (\<exists>d r. d_id d = g_run_id q \<and> d_status d = ''queued'' \<and> d_session d = g_session q \<and> d_prompt d = g_prompt q \<and>
        map_of (m_runs m') = (map_of (m_runs m))(g_run_id q \<mapsto> \<lparr>mr_run = d, mr_cancelled = False\<rparr>) \<and>
        find_run (m_store m') = (find_run (m_store m))(g_run_id q \<mapsto> r) \<and> same_run r (run_from_dto d) \<and>
        res = Inr (clone_run (dto_from_run r)))"

lemma accepted_run_fields [simp]:
  "d_id (accepted_run i q t) = i" "d_status (accepted_run i q t) = ''queued''"
  "d_session (accepted_run i q t) = g_session q" "d_prompt (accepted_run i q t) = g_prompt q"
  by (simp_all add: accepted_run_def)

lemma start_finish_cases:
  assumes "m_ops m = Some sqlite_ops" and "start_finish c i q (accepted_run i q t) m = ((res, launch), m')" and "i \<noteq> []"
    and "map_of (m_runs m) = (map_of (m_runs m0))(i \<mapsto> \<lparr>mr_run = accepted_run i q t, mr_cancelled = False\<rparr>)"
    and "map_of (m_runs m0) i = None" and "m_store m = m_store m0" and "m_bus m = m_bus m0"
  shows "case launch of None \<Rightarrow> not_started q m0 res m' | Some q' \<Rightarrow> q' = q\<lparr>g_run_id := i\<rparr> \<and> run_started q' m0 res m'"
proof -
  let ?d = "accepted_run i q t"
  obtain x m1 where cl: "claim_accepted_run c ?d m = (x, m1)" by fastforce
  note h = claim_accepted_sqlite [OF assms(1) cl]
  have undone: "map_of (m_runs (delete_managed i m1)) = map_of (m_runs m0)"
    using h assms(3-5) by auto
  show ?thesis
  proof (cases x)
    case (Inl e)
    then show ?thesis using assms cl undone h by (auto simp: start_finish_def not_started_def Let_def)
  next
    case (Inr y)
    obtain b d1 where y: "y = (b, d1)" by fastforce
    show ?thesis
    proof (cases b)
      case True
      with h Inr y assms(3) obtain r where
        r: "d1 = dto_from_run r" "same_run r (run_from_dto ?d)" "find_run (m_store m) i = None"
        "find_run (m_store m1) = (find_run (m_store m))(i \<mapsto> r)" "m_ops m1 = Some sqlite_ops" "m_runs m1 = m_runs m"
        using assms(1) by auto
      have "run_started (q\<lparr>g_run_id := i\<rparr>) m0 (Inr (clone_run d1)) (publish_run d1 m1)"
        unfolding run_started_def
        using r assms(3-6) by (auto simp: managed_run_def intro!: exI [of _ ?d])
      then show ?thesis using assms(2) cl Inr y True r(5) by (auto simp: start_finish_def Let_def)
    next
      case False
      then show ?thesis
        using assms cl undone h Inr y replay_same_key [of d1 q]
        by (auto simp: start_finish_def not_started_def Let_def split: if_splits)
    qed
  qed
qed

lemma start_ops:
  assumes "m_ops m = Some sqlite_ops" and "start has_starter c q0 m = (z, m')"
  shows "m_ops m' = Some sqlite_ops"
proof (cases has_starter)
  case True
  let ?q = "sanitize_start_request q0"
  obtain i m1 where i: "start_run_id ?q m = (i, m1)" by fastforce
  note h = start_run_id_spec [OF i]
  obtain x m2 where l: "start_lock i ?q m1 = (x, m2)" by fastforce
  have ops: "m_ops m2 = Some sqlite_ops" using l h assms(1) by (cases rule: start_lock_cases) simp_all
  show ?thesis
  proof (cases x)
    case (StartInserted d)
    have "d_id d \<noteq> [] \<and> d_status d \<noteq> []"
      using l h by (cases rule: start_lock_cases) (use StartInserted in simp_all)
    then have cl: "m_ops (snd (claim_accepted_run c d m2)) = Some sqlite_ops"
      using claim_accepted_sqlite [OF ops, of c d] ops by (metis prod.collapse)
    have "start_finish c i ?q d m2 = (z, m')" using assms True i l StartInserted by (simp add: start_def Let_def)
    then show ?thesis using cl by (auto simp: start_finish_def Let_def split: prod.splits sum.splits bool.splits if_splits)
  qed (use assms True i l ops in \<open>simp_all add: start_def Let_def\<close>)
qed (use assms in \<open>simp add: start_def\<close>)

subsection \<open>Updating a managed run\<close>

lemma update_sqlite:
  assumes "m_ops m = Some sqlite_ops" and "map_of (m_runs m) i = Some x" and "fn (mr_run x) m = (d, m1)"
    and "m_ops m1 = m_ops m" and "m_runs m1 = m_runs m" and "m_slots m1 = m_slots m" and "m_store m1 = m_store m"
  obtains e d1 m2 where "persist background (clone_run d) (put_managed i (x\<lparr>mr_run := d\<rparr>) m1) = ((e, d1), m2)"
    "update i fn m = publish_run d1 m2" "m_ops (update i fn m) = Some sqlite_ops" "m_slots (update i fn m) = m_slots m"
    "map_of (m_runs (update i fn m)) = (map_of (m_runs m))(i \<mapsto> x\<lparr>mr_run := d\<rparr>)"
    "e = None \<Longrightarrow> d_id d \<noteq> [] \<Longrightarrow> d_status d \<noteq> [] \<Longrightarrow> \<exists>r. find_run (m_store (update i fn m)) =
       (find_run (m_store m))(d_id d \<mapsto> r) \<and> same_run r (run_from_dto (clone_run d))"
    "e \<noteq> None \<Longrightarrow> m_store (update i fn m) = m_store m"
proof -
  let ?m = "put_managed i (x\<lparr>mr_run := d\<rparr>) m1"
  obtain e d1 m2 where p: "persist background (clone_run d) ?m = ((e, d1), m2)" by (metis prod.collapse)
  have u: "update i fn m = publish_run d1 m2"
    using assms(2,3) p by (simp add: update_def update_lock_def flush_run_def)
  have ops: "m_ops ?m = Some sqlite_ops" using assms(1,4) by simp
  have f: "m_ops m2 = Some sqlite_ops" "m_runs m2 = m_runs ?m" "m_slots m2 = m_slots m"
    using persist_sqlite_frame [OF ops, of background "clone_run d"] p ops assms(6) by simp_all
  show thesis
  proof (rule that [OF p u])
    assume "e = None" "d_id d \<noteq> []" "d_status d \<noteq> []"
    with persist_sqlite_done [OF ops, of background "clone_run d" d1 m2] p
    show "\<exists>r. find_run (m_store (update i fn m)) = (find_run (m_store m))(d_id d \<mapsto> r) \<and>
        same_run r (run_from_dto (clone_run d))"
      using u assms(7) by auto
  next
    assume "e \<noteq> None"
    then obtain e' where "e = Some e'" by blast
    with persist_sqlite_failed [OF ops, of background "clone_run d" e' d1 m2] p
    show "m_store (update i fn m) = m_store m" using u assms(7) by simp
  qed (use u f assms in \<open>simp_all\<close>)
qed

definition final_status :: "starter_outcome \<Rightarrow> string" where
  "final_status o' =
     (case st_ctx_err o' of
        Some _ \<Rightarrow> ''cancelled''
      | None \<Rightarrow>
          (case st_err o' of
             Some (_, is_ctx) \<Rightarrow> if is_ctx then ''cancelled'' else ''failed''
           | None \<Rightarrow>
               (case st_result o' of
                  Some (res, _) \<Rightarrow>
                    if d_status res \<in> {[], ''queued'', ''running'', ''cancelling''} then ''completed'' else d_status res
                | None \<Rightarrow> ''completed'')))"

lemma set_finished_spec:
  assumes "set_finished q (st_result o') (st_err o') (st_ctx_err o') d0 m = (d, m1)" and "d_status d0 = ''running''"
    and "d_id d0 = g_run_id q"
  shows "d_status d = final_status o' \<and> d_id d = g_run_id q \<and>
    m_ops m1 = m_ops m \<and> m_runs m1 = m_runs m \<and> m_slots m1 = m_slots m \<and> m_store m1 = m_store m"
proof -
  have st: "d_status (fill_defaults q x) = d_status x" "d_status (set_outcome e y x) =
      (case y of Some _ \<Rightarrow> ''cancelled'' | None \<Rightarrow> (case e of Some (_, b) \<Rightarrow> if b then ''cancelled'' else ''failed''
        | None \<Rightarrow> if d_status x \<in> {[], ''queued'', ''running'', ''cancelling''} then ''completed'' else d_status x))"
      "d_id (set_outcome e y x) = d_id x" for x e y
    by (auto simp: fill_defaults_def set_outcome_def Let_def split: option.splits)
  have i: "d_id (take_result q (st_result o') d0) = g_run_id q"
    using assms(3) by (auto simp: take_result_def Let_def split: option.splits)
  have s: "d_status (take_result q (st_result o') d0) = (case st_result o' of Some (r, _) \<Rightarrow> d_status r | None \<Rightarrow> ''running'')"
    using assms(2) by (auto simp: take_result_def Let_def split: option.splits)
  have i': "d_id (fill_defaults q (take_result q (st_result o') d0)) = g_run_id q"
    using i by (simp add: fill_defaults_def Let_def or_else_def)
  obtain t m2 where t: "tick m = (t, m2)" by fastforce
  show ?thesis
    using assms(1) i' s tick_eq [OF t]
    by (auto simp: set_finished_def Let_def t st final_status_def split: if_splits option.splits)
qed

lemma acquire_release:
  assumes "acquire_slot m = Some m1" and "m_slots m2 = m_slots m1"
  shows "m_slots (release_slot m2) = m_slots m \<and> m_runs m1 = m_runs m \<and> m_store m1 = m_store m \<and> m_ops m1 = m_ops m"
  using assms by (auto simp: acquire_slot_def release_slot_def split: option.splits if_splits)

subsection \<open>Cancelling and shutting down\<close>

lemma cancel_stored_sqlite:
  assumes "m_ops m = Some sqlite_ops" and "cancel_stored c i m = (res, m')" and "i \<noteq> []"
  shows "m_runs m' = m_runs m \<and>
    (case find_run (m_store m) i of
       None \<Rightarrow> m_store m' = m_store m \<and> res = Inl (StoreFailed (StoreErr ''run not found''))
     | Some r \<Rightarrow>
         if is_active (r_status r)
         then (case res of
                 Inl _ \<Rightarrow> m_store m' = m_store m
               | Inr d \<Rightarrow> d_status d = ''cancelled'' \<and> (\<exists>x. r_status x = ''cancelled'' \<and>
                   find_run (m_store m') = (find_run (m_store m))(i \<mapsto> x)))
         else m_store m' = m_store m \<and> res = Inr (dto_from_run r))"
proof -
  have act: "is_active st \<longleftrightarrow> st = ''queued'' \<or> st = ''running'' \<or> st = ''cancelling''" for st
    by (simp add: is_active_def active_statuses_def)
  have ld: "so_load sqlite_ops i s = (case find_run s i of None \<Rightarrow> Inl (StoreErr ''run not found'') | Some r \<Rightarrow> Inr r)" for s
    by (simp add: sqlite_ops_def sq_load_run_def load_run_row_def split: option.splits)
  show ?thesis
  proof (cases "find_run (m_store m) i")
    case None
    then show ?thesis using assms by (auto simp: cancel_stored_def ld)
  next
    case (Some r)
    show ?thesis
    proof (cases "is_active (r_status r)")
      case False
      then show ?thesis using assms Some by (auto simp: cancel_stored_def ld act)
    next
      case True
      have ri: "r_id r = i" using find_run_Some [OF Some] by simp
      obtain t m1 where t: "tick m = (t, m1)" by fastforce
      note f = tick_eq [OF t]
      define d where "d = dto_from_run (r\<lparr>r_status := ''cancelled'', r_ended := t,
        r_error := ''gateway process does not own this run anymore''\<rparr>)"
      obtain e d1 m2 where p: "persist c d m1 = ((e, d1), m2)" by (metis prod.collapse)
      have res: "(res, m') = (case e of Some e' \<Rightarrow> (Inl (StoreFailed e'), m2) | None \<Rightarrow> (Inr d1, m2))"
        using assms(1,2) Some True t p by (auto simp: cancel_stored_def ld act d_def)
      have ops: "m_ops m1 = Some sqlite_ops" using f assms(1) by simp
      have runs: "m_runs m2 = m_runs m" using persist_sqlite_frame [OF ops, of c d] p f by simp
      have di: "d_id d = i" "d_status d = ''cancelled''" by (simp_all add: d_def ri)
      show ?thesis
      proof (cases e)
        case None
        with persist_sqlite_done [OF ops, of c d d1 m2] p di assms(3) obtain x r' where
          x: "find_run (m_store m2) = (find_run (m_store m1))(i \<mapsto> x)" "same_run x (run_from_dto d)"
          "d1 = dto_from_run r'" "same_run r' (run_from_dto d)" by auto
        then have "r_status x = ''cancelled''" "r_status r' = ''cancelled''"
          using same_run_status di by fastforce+
        then show ?thesis using res None x Some True f runs by auto
      next
        case (Some e')
        with persist_sqlite_failed [OF ops, of c d e' d1 m2] p
        show ?thesis using res runs f True \<open>find_run (m_store m) i = Some r\<close> by simp
      qed
    qed
  qed
qed

lemma flush_run_frame:
  assumes "m_ops m = Some sqlite_ops" and "flush_run c d m = (d1, m1)"
  shows "m_ops m1 = Some sqlite_ops \<and> m_runs m1 = m_runs m \<and> m_slots m1 = m_slots m"
  using assms persist_sqlite_frame [OF assms(1), of c d] by (auto simp: flush_run_def split: prod.splits)

lemma cancel_managed_sqlite:
  assumes "m_ops m = Some sqlite_ops" and "map_of (m_runs m) i = Some x" and "mgr_cancel c i m = (res, m')"
  shows "(\<forall>j. j \<noteq> i \<longrightarrow> map_of (m_runs m') j = map_of (m_runs m) j) \<and>
    (if d_status (mr_run x) = ''queued'' \<or> d_status (mr_run x) = ''running''
     then (\<exists>x'. map_of (m_runs m') i = Some x' \<and> mr_cancelled x' \<and> d_status (mr_run x') = ''cancelling'')
     else map_of (m_runs m') i = Some x)"
proof -
  obtain t m1 where t: "tick m = (t, m1)" by fastforce
  note f = tick_eq [OF t]
  show ?thesis
  proof (cases "d_status (mr_run x) = ''queued'' \<or> d_status (mr_run x) = ''running''")
    case True
    let ?d = "(mr_run x)\<lparr>d_status := ''cancelling'', d_ended := t\<rparr>"
    let ?m = "put_managed i (x\<lparr>mr_run := ?d\<rparr>) m1"
    obtain d1 m2 where fl: "flush_run c (clone_run ?d) ?m = (d1, m2)" by fastforce
    have "m_runs m2 = m_runs ?m" using flush_run_frame [OF _ fl] assms(1) f by simp
    moreover have "m' = cancel_ctx i m2"
      using assms(2,3) True t fl by (auto simp: mgr_cancel_def cancel_lock_def Let_def)
    ultimately show ?thesis using True f by (simp add: map_of_cancel_ctx)
  next
    case False
    obtain d1 m2 where fl: "flush_run c (clone_run (mr_run x)) m = (d1, m2)" by fastforce
    then have "m_runs m2 = m_runs m" using flush_run_frame [OF assms(1)] by blast
    moreover have "m' = m2" using assms(2,3) False fl by (auto simp: mgr_cancel_def cancel_lock_def Let_def)
    ultimately show ?thesis using False assms(2) by simp
  qed
qed

text \<open>What the locked loop of a shutdown does to a run it marks.\<close>

definition mark_shut :: "gtime \<Rightarrow> managed \<Rightarrow> managed" where
  "mark_shut t x =
     x\<lparr>mr_run := (mr_run x)\<lparr>d_status := ''cancelling'', d_ended := t, d_error := ''gateway shutting down''\<rparr>\<rparr>"

definition marked :: "managed \<Rightarrow> managed \<Rightarrow> bool" where
  "marked x y \<longleftrightarrow> \<not> is_terminal (d_status (mr_run x)) \<and> (\<exists>t. y = mark_shut t x)"

lemma mark_shut_simps [simp]:
  "mark_shut t (mark_shut u x) = mark_shut t x" "d_status (mr_run (mark_shut t x)) = ''cancelling''"
  "d_id (mr_run (mark_shut t x)) = d_id (mr_run x)" "mr_cancelled (mark_shut t x) = mr_cancelled x"
  "d_error (mr_run (mark_shut t x)) = ''gateway shutting down''"
  by (simp_all add: mark_shut_def)

lemma marked_trans: "marked x y \<Longrightarrow> marked y z \<Longrightarrow> marked x z"
  by (auto simp: marked_def)

lemma shutdown_mark_step:
  assumes "shutdown_mark (k # ks) m = (ds, m')"
  shows "(shutdown_mark ks m = (ds, m') \<and> (\<forall>z. map_of (m_runs m) k = Some z \<longrightarrow> is_terminal (d_status (mr_run z)))) \<or>
    (\<exists>z z' m1 ds'. map_of (m_runs m) k = Some z \<and> marked z z' \<and> ds = clone_run (mr_run z') # ds' \<and>
       map_of (m_runs m1) = (map_of (m_runs m))(k \<mapsto> z') \<and> m_ops m1 = m_ops m \<and> shutdown_mark ks m1 = (ds', m'))"
proof (cases "map_of (m_runs m) k")
  case None
  then show ?thesis using assms by simp
next
  case (Some z)
  obtain t m2 where t: "tick m = (t, m2)" by fastforce
  define z' where "z' = mark_shut t z"
  define m1 where "m1 = put_managed k z' m2"
  obtain ds' m3 where r: "shutdown_mark ks m1 = (ds', m3)" by fastforce
  show ?thesis
  proof (cases "is_terminal (d_status (mr_run z))")
    case True
    then show ?thesis using assms Some by simp
  next
    case False
    have "marked z z'" using False by (auto simp: marked_def z'_def)
    moreover have "ds = clone_run (mr_run z') # ds'" "m3 = m'"
      using assms Some False t r by (simp_all add: Let_def z'_def m1_def mark_shut_def)
    moreover have "map_of (m_runs m1) = (map_of (m_runs m))(k \<mapsto> z')" "m_ops m1 = m_ops m"
      using tick_eq [OF t] by (simp_all add: m1_def)
    ultimately show ?thesis using Some r by blast
  qed
qed

lemma shutdown_mark_keeps:
  assumes "shutdown_mark ks m = (ds, m')" and "map_of (m_runs m) i = Some x"
  shows "m_ops m' = m_ops m \<and> (\<exists>y. map_of (m_runs m') i = Some y \<and> (y = x \<or> marked x y))"
  using assms
proof (induction ks arbitrary: m ds x)
  case (Cons k ks)
  from shutdown_mark_step [OF Cons.prems(1)] show ?case
  proof (elim disjE exE conjE)
    assume "shutdown_mark ks m = (ds, m')"
    then show ?thesis using Cons.IH Cons.prems(2) by simp
  next
    fix z z' m1 ds'
    assume a: "map_of (m_runs m) k = Some z" "marked z z'" "map_of (m_runs m1) = (map_of (m_runs m))(k \<mapsto> z')"
      "m_ops m1 = m_ops m" "shutdown_mark ks m1 = (ds', m')"
    show ?thesis
    proof (cases "i = k")
      case True
      then have z: "map_of (m_runs m1) i = Some z'" "z = x" using a Cons.prems(2) by simp_all
      from Cons.IH [OF a(5) z(1)] obtain y where "map_of (m_runs m') i = Some y" "y = z' \<or> marked z' y" "m_ops m' = m_ops m1"
        by blast
      then show ?thesis using a(2,4) z(2) marked_trans [of x z' y] by auto
    next
      case False
      then have "map_of (m_runs m1) i = Some x" using a Cons.prems(2) by simp
      then show ?thesis using Cons.IH [OF a(5)] a(4) by metis
    qed
  qed
qed simp

lemma shutdown_mark_spec:
  assumes "shutdown_mark ks m = (ds, m')" and "i \<in> set ks" and "map_of (m_runs m) i = Some x"
  shows "\<exists>y. map_of (m_runs m') i = Some y \<and> (if is_terminal (d_status (mr_run x)) then y = x else marked x y)"
  using assms
proof (induction ks arbitrary: m ds x)
  case (Cons k ks)
  from shutdown_mark_step [OF Cons.prems(1)] show ?case
  proof (elim disjE exE conjE)
    assume a: "shutdown_mark ks m = (ds, m')" "\<forall>z. map_of (m_runs m) k = Some z \<longrightarrow> is_terminal (d_status (mr_run z))"
    show ?thesis
    proof (cases "i = k")
      case True
      then have "is_terminal (d_status (mr_run x))" using a(2) Cons.prems(3) by simp
      then show ?thesis using shutdown_mark_keeps [OF a(1) Cons.prems(3)] by (auto simp: marked_def)
    next
      case False
      then show ?thesis using Cons.IH [OF a(1)] Cons.prems by simp
    qed
  next
    fix z z' m1 ds'
    assume a: "map_of (m_runs m) k = Some z" "marked z z'" "map_of (m_runs m1) = (map_of (m_runs m))(k \<mapsto> z')"
      "shutdown_mark ks m1 = (ds', m')"
    show ?thesis
    proof (cases "i = k")
      case True
      then have z: "map_of (m_runs m1) i = Some z'" "z = x" using a Cons.prems(3) by simp_all
      from shutdown_mark_keeps [OF a(4) z(1)] obtain y where "map_of (m_runs m') i = Some y" "y = z' \<or> marked z' y"
        by blast
      then show ?thesis using a(2) z(2) marked_trans [of x z' y] by (auto simp: marked_def)
    next
      case False
      then have "map_of (m_runs m1) i = Some x" using a Cons.prems(3) by simp
      then show ?thesis using Cons.IH [OF a(4)] False Cons.prems(2) by simp
    qed
  qed
qed simp

lemma shutdown_mark_ids:
  assumes "shutdown_mark ks m = (ds, m')" and "i \<in> set ks" and "map_of (m_runs m) i = Some x"
    and "\<not> is_terminal (d_status (mr_run x))" and "d_id (mr_run x) = i"
  shows "i \<in> d_id ` set ds"
  using assms
proof (induction ks arbitrary: m ds x)
  case (Cons k ks)
  from shutdown_mark_step [OF Cons.prems(1)] show ?case
  proof (elim disjE exE conjE)
    assume a: "shutdown_mark ks m = (ds, m')" "\<forall>z. map_of (m_runs m) k = Some z \<longrightarrow> is_terminal (d_status (mr_run z))"
    then have "i \<noteq> k" using Cons.prems(3,4) by blast
    then show ?thesis using Cons.IH [OF a(1)] Cons.prems by simp
  next
    fix z z' m1 ds'
    assume a: "map_of (m_runs m) k = Some z" "marked z z'" "ds = clone_run (mr_run z') # ds'"
      "map_of (m_runs m1) = (map_of (m_runs m))(k \<mapsto> z')" "shutdown_mark ks m1 = (ds', m')"
    show ?thesis
    proof (cases "i = k")
      case True
      then have "d_id (mr_run z') = i" using a(1,2) Cons.prems(3,5) by (auto simp: marked_def)
      then show ?thesis using a(3) by simp
    next
      case False
      then have "map_of (m_runs m1) i = Some x" using a(4) Cons.prems(3) by simp
      then show ?thesis using Cons.IH [OF a(5)] False Cons.prems a(3) by simp
    qed
  qed
qed simp

lemma shutdown_flush_spec:
  assumes "m_ops m = Some sqlite_ops" and "map_of (m_runs m) i = Some x"
  shows "\<exists>y. map_of (m_runs (shutdown_flush c ds m)) i = Some y \<and> mr_run y = mr_run x \<and>
    (mr_cancelled y \<longleftrightarrow> mr_cancelled x \<or> i \<in> d_id ` set ds)"
  using assms
proof (induction ds arbitrary: m x)
  case (Cons d ds)
  obtain d1 m1 where f: "flush_run c d m = (d1, m1)" by fastforce
  note h = flush_run_frame [OF Cons.prems(1) f]
  let ?m = "cancel_ctx (d_id d) m1"
  define x1 where "x1 = (if i = d_id d then x\<lparr>mr_cancelled := True\<rparr> else x)"
  have "map_of (m_runs ?m) i = Some x1" "mr_run x1 = mr_run x" "mr_cancelled x1 \<longleftrightarrow> mr_cancelled x \<or> i = d_id d"
    using h Cons.prems(2) by (auto simp: map_of_cancel_ctx x1_def)
  moreover have "m_ops ?m = Some sqlite_ops" using h by simp
  moreover have "shutdown_flush c (d # ds) m = shutdown_flush c ds ?m" by (simp add: f)
  ultimately show ?case using Cons.IH by fastforce
qed simp

subsection \<open>Properties\<close>

text \<open>
  C1: a start launches a goroutine only for a run id that neither this manager nor the store knew; it is
  then tracked and stored as the same queued run. A start that launches nothing (an idempotent replay,
  a clash, a store error) leaves the tracked runs, the store and the bus as they were, and what a replay
  hands back is a run of the same session and idempotency key.
\<close>

theorem start_launches_new_runs:
  assumes "m_ops m = Some sqlite_ops" and "start has_starter c q0 m = ((res, launch), m')"
  shows "case launch of
      None \<Rightarrow> not_started (sanitize_start_request q0) m res m'
    | Some q \<Rightarrow> run_started q m res m' \<and> q = (sanitize_start_request q0)\<lparr>g_run_id := g_run_id q\<rparr>"
proof (cases has_starter)
  case False
  then show ?thesis using assms by (auto simp: start_def not_started_def)
next
  case True
  let ?q = "sanitize_start_request q0"
  obtain i m1 where i: "start_run_id ?q m = (i, m1)" by fastforce
  note h = start_run_id_spec [OF i]
  obtain x m2 where l: "start_lock i ?q m1 = (x, m2)" by fastforce
  from l show ?thesis
  proof (cases rule: start_lock_cases)
    case (dup d)
    then show ?thesis using assms True i l h replay_same_key [OF dup(3)] by (auto simp: start_def not_started_def Let_def)
  next
    case (clash d)
    then show ?thesis using assms True i l h by (auto simp: start_def not_started_def Let_def)
  next
    case (inserted t)
    then have "start_finish c i ?q (accepted_run i ?q t) m2 = ((res, launch), m')"
      using assms True i l by (simp add: start_def Let_def)
    from start_finish_cases [OF _ this _ inserted(3,2,4,5)] inserted(6) h assms(1)
    have "case launch of None \<Rightarrow> not_started ?q m1 res m' | Some q' \<Rightarrow> q' = ?q\<lparr>g_run_id := i\<rparr> \<and> run_started q' m1 res m'"
      by simp
    then show ?thesis using h by (auto simp: not_started_def run_started_def managed_run_def split: option.splits)
  qed
qed

definition demo_manager :: "db mgr" where
  "demo_manager = new_manager (Some sqlite_ops) demo_db None demo_world"

definition demo_start :: start_request where
  "demo_start = zero_start_request\<lparr>g_run_id := ''r1'', g_session := ''s'', g_prompt := ''p''\<rparr>"

theorem start_launches_new_runs_witness:
  "\<exists>res q m'. start True background demo_start demo_manager = ((res, Some q), m') \<and>
     run_started q demo_manager res m' \<and> q = (sanitize_start_request demo_start)\<lparr>g_run_id := g_run_id q\<rparr>"
proof -
  let ?s = "start True background demo_start demo_manager"
  obtain res l m' where s: "?s = ((res, l), m')" by (metis prod.collapse)
  have "snd (fst ?s) \<noteq> None" by code_simp
  then obtain q where "l = Some q" using s by auto
  moreover have "m_ops demo_manager = Some sqlite_ops" by (simp add: demo_manager_def new_manager_def)
  ultimately show ?thesis using start_launches_new_runs [OF _ s] s by auto
qed


definition demo_started :: "db mgr" where
  "demo_started = snd (start True background demo_start demo_manager)"

definition demo_failure :: starter_outcome where
  "demo_failure = \<lparr>st_result = None, st_err = Some (''boom'', False), st_ctx_err = None\<rparr>"

lemma demo_started_ops: "m_ops demo_started = Some sqlite_ops"
proof -
  have "m_ops demo_manager = Some sqlite_ops" by (simp add: demo_manager_def new_manager_def)
  then show ?thesis using start_ops [of demo_manager] unfolding demo_started_def by (metis prod.collapse)
qed

lemma demo_started_run:
  "m_slots demo_started = None \<and>
   (\<exists>x. map_of (m_runs demo_started) ''r1'' = Some x \<and> d_status (mr_run x) = ''queued'' \<and> d_id (mr_run x) = ''r1'')"
proof -
  have "m_slots demo_started = None \<and> (case map_of (m_runs demo_started) ''r1'' of
      None \<Rightarrow> False | Some x \<Rightarrow> d_status (mr_run x) = ''queued'' \<and> d_id (mr_run x) = ''r1'')"
    by code_simp
  then show ?thesis by (auto split: option.splits)
qed


text \<open>
  cancelling a run this manager tracks marks it as cancelling and cancels its context when it is
  queued or running, and otherwise leaves it as it is; no other tracked run changes. Cancelling a run
  that only the store knows closes it as cancelled when it was active, and never touches one that has
  ended.
\<close>

theorem cancel_effect:
  assumes "m_ops m = Some sqlite_ops" and "mgr_cancel c i m = (res, m')" and "i \<noteq> []"
  shows "(\<forall>j. j \<noteq> i \<longrightarrow> map_of (m_runs m') j = map_of (m_runs m) j) \<and>
    (case map_of (m_runs m) i of
       Some x \<Rightarrow>
         (if d_status (mr_run x) = ''queued'' \<or> d_status (mr_run x) = ''running''
          then (\<exists>x'. map_of (m_runs m') i = Some x' \<and> mr_cancelled x' \<and> d_status (mr_run x') = ''cancelling'')
          else map_of (m_runs m') i = Some x)
     | None \<Rightarrow>
         (case find_run (m_store m) i of
            None \<Rightarrow> m_store m' = m_store m
          | Some r \<Rightarrow>
              if is_active (r_status r) \<and> (\<exists>d. res = Inr d)
              then (\<exists>x. r_status x = ''cancelled'' \<and> find_run (m_store m') = (find_run (m_store m))(i \<mapsto> x))
              else m_store m' = m_store m))"
proof (cases "map_of (m_runs m) i")
  case (Some x)
  then show ?thesis using cancel_managed_sqlite [OF assms(1) Some assms(2)] by simp
next
  case None
  then have "cancel_stored c i m = (res, m')" using assms(2) by (simp add: mgr_cancel_def cancel_lock_def)
  from cancel_stored_sqlite [OF assms(1) this assms(3)] None
  show ?thesis by (cases res) (auto split: option.splits if_splits)
qed

theorem cancel_effect_witness:
  "\<exists>x'. map_of (m_runs (snd (mgr_cancel background ''r1'' demo_started))) ''r1'' = Some x' \<and> mr_cancelled x' \<and>
     d_status (mr_run x') = ''cancelling''"
proof -
  obtain res m' where c: "mgr_cancel background ''r1'' demo_started = (res, m')" by fastforce
  obtain x where "map_of (m_runs demo_started) ''r1'' = Some x" "d_status (mr_run x) = ''queued''"
    using demo_started_run by blast
  then show ?thesis using cancel_effect [OF demo_started_ops c] c by simp
qed

text \<open>
  a shutdown reaches every run: each tracked run that had not ended is marked as cancelling, for the
  reason of the shutdown, and its context is cancelled; a run that had ended keeps its record.
\<close>

theorem shutdown_cancels_all:
  assumes "m_ops m = Some sqlite_ops" and "map_of (m_runs m) i = Some x" and "d_id (mr_run x) = i"
  shows "\<exists>y. map_of (m_runs (mgr_shutdown_cancel c m)) i = Some y \<and>
    (if is_terminal (d_status (mr_run x)) then mr_run y = mr_run x
     else d_status (mr_run y) = ''cancelling'' \<and> d_error (mr_run y) = ''gateway shutting down'' \<and> mr_cancelled y)"
proof -
  obtain ds m1 where l: "shutdown_mark (map fst (m_runs m)) m = (ds, m1)" by fastforce
  have i: "i \<in> set (map fst (m_runs m))" using map_of_SomeD [OF assms(2)] by force
  from shutdown_mark_spec [OF l i assms(2)] obtain y where
    y: "map_of (m_runs m1) i = Some y" "if is_terminal (d_status (mr_run x)) then y = x else marked x y" by blast
  have ops: "m_ops m1 = Some sqlite_ops" using shutdown_mark_keeps [OF l assms(2)] assms(1) by simp
  from shutdown_flush_spec [OF ops y(1), of c ds] obtain z where
    z: "map_of (m_runs (shutdown_flush c ds m1)) i = Some z" "mr_run z = mr_run y"
    "mr_cancelled z \<longleftrightarrow> mr_cancelled y \<or> i \<in> d_id ` set ds" by blast
  have e: "mgr_shutdown_cancel c m = shutdown_flush c ds m1" by (simp add: mgr_shutdown_cancel_def shutdown_lock_def l)
  show ?thesis
  proof (cases "is_terminal (d_status (mr_run x))")
    case True
    then show ?thesis using y z e by simp
  next
    case False
    then have "i \<in> d_id ` set ds" using shutdown_mark_ids [OF l i assms(2) _ assms(3)] by blast
    then show ?thesis using False y z e by (auto simp: marked_def)
  qed
qed

theorem shutdown_cancels_all_witness:
  "\<exists>y. map_of (m_runs (mgr_shutdown_cancel background demo_started)) ''r1'' = Some y \<and>
     d_status (mr_run y) = ''cancelling'' \<and> mr_cancelled y"
proof -
  obtain x where "map_of (m_runs demo_started) ''r1'' = Some x" "d_status (mr_run x) = ''queued''" "d_id (mr_run x) = ''r1''"
    using demo_started_run by blast
  then show ?thesis using shutdown_cancels_all [OF demo_started_ops, of "''r1''" x background] by auto
qed

text \<open>
  C12: recovery after a restart ends, and closes what the dead process left behind: with more fuel than
  there are runs the loop returns; it changes nothing but active runs, each of which it leaves failed;
  and when it reports no error no run of the store is queued, running or cancelling any more.
\<close>

theorem recovery_closes_stale_runs:
  assumes "m_ops m = Some sqlite_ops" and "run_rows_ok (m_store m)" and "length (t_runs (m_store m)) < n"
  shows "\<exists>e m'. recover_stale_runs n c m = Some (e, m') \<and> run_rows_ok (m_store m') \<and>
    (\<forall>i. find_run (m_store m') i = find_run (m_store m) i \<or>
       ((\<exists>r. find_run (m_store m) i = Some r \<and> r_status r \<in> {''queued'', ''running'', ''cancelling''}) \<and>
        (\<exists>r. find_run (m_store m') i = Some r \<and> r_status r = ''failed''))) \<and>
    (e = None \<longrightarrow> (\<forall>r \<in> set (t_runs (m_store m')). r_status r \<notin> {''queued'', ''running'', ''cancelling''}))"
proof -
  from recover_statuses_sqlite [OF assms(1,2) subset_refl assms(3), of c] obtain e m' where
    r: "recover_statuses n c sqlite_ops active_statuses m = Some (e, m')" "run_rows_ok (m_store m')"
    "closes (m_store m) (m_store m')" "e = None \<longrightarrow> (\<forall>i. \<forall>st \<in> set active_statuses. \<not> has_status (m_store m') i st)"
    by blast
  have "recover_stale_runs n c m = Some (e, m')" using r(1) assms(1) by (simp add: recover_stale_runs_def)
  moreover have "r_status x \<notin> set active_statuses" if "e = None" "x \<in> set (t_runs (m_store m'))" for x
  proof -
    have "find_run (m_store m') (r_id x) = Some x" using find_run_mem that(2) r(2) by (auto simp: run_rows_ok_def)
    then show ?thesis using r(4) that(1) by (auto simp: has_status_def)
  qed
  moreover have "set active_statuses = {''queued'', ''running'', ''cancelling''}" by (simp add: active_statuses_def)
  ultimately show ?thesis using r(2,3) unfolding closes_def has_status_def is_active_def by (metis (no_types, lifting))
qed

theorem recovery_closes_stale_runs_witness:
  "\<exists>e m'. recover_stale_runs 2 background (new_manager (Some sqlite_ops) demo_db1 None demo_world) = Some (e, m') \<and>
     run_rows_ok (m_store m')"
proof -
  let ?m = "new_manager (Some sqlite_ops) demo_db1 None demo_world"
  have "m_ops ?m = Some sqlite_ops" and st: "m_store ?m = demo_db1" by (simp_all add: new_manager_def)
  moreover have "run_rows_ok demo_db1" by code_simp
  moreover have "length (t_runs demo_db1) < 2" by code_simp
  ultimately show ?thesis using recovery_closes_stale_runs [of ?m 2 background] by auto
qed

definition event_secret_free :: "run_event_dto \<Rightarrow> bool" where
  "event_secret_free e \<longleftrightarrow>
     secret_free (v_message e) \<and> secret_free (v_error e) \<and> secret_free (v_payload e) \<and>
     secret_free (d_prompt (v_run e)) \<and> secret_free (d_error (v_run e)) \<and>
     list_all secret_free (d_blocks (v_run e)) \<and> list_all (\<lambda>kv. secret_free (snd kv)) (d_metadata (v_run e))"

lemma redacted_event [simp]: "event_secret_free (redact_run_event e)"
proof -
  have "secret_free []" by (simp add: secret_free_def)
  then show ?thesis
    by (auto simp: event_secret_free_def redact_run_event_def redact_event_snapshot_def redact_raw_json_def
        redact_string_map_def list_all_iff)
qed

text \<open>
  no event the manager lists shows a secret, whatever the store holds: the texts, the payload, and
  the prompt, error, context blocks and metadata values of the run inside each event are free of all
  three secret patterns.
\<close>

theorem listed_events_redacted:
  "case fst (mgr_events i after typ lim m) of Inl _ \<Rightarrow> True | Inr es \<Rightarrow> list_all event_secret_free es"
proof (cases "Option.bind (m_ops m) so_events")
  case None
  then show ?thesis by (auto simp: mgr_events_def Let_def split: sum.splits prod.splits)
next
  case (Some x)
  then show ?thesis by (cases x) (auto simp: mgr_events_def list_all_iff split: sum.splits)
qed

end
