(* ===== verification/Run_Concurrency.thy ===== *)
theory Run_Concurrency
  imports Run_Lifecycle
begin

section \<open>Package gateway: concurrent runs\<close>

text \<open>
  The goroutines of \<open>gateway/run_manager.go\<close> interleaved. A thread is a call of \<open>Start\<close>, \<open>Cancel\<close> or
  \<open>Shutdown\<close>, or the goroutine of \<open>execute\<close>, at the point it has reached. A step of the system runs one
  region of one thread: a region under the manager's lock, one transaction of the store, or one
  publication. Between the region under the lock and the transaction that stores its snapshot every
  other thread may run, as in the code. Calls arrive at any time, with any arguments.
\<close>

subsection \<open>Threads\<close>

datatype after = ToWork | ToRelease | ToExit

datatype thread =
    StartLock string start_request
  | StartClaim string start_request run_dto
  | StartUndo string
  | StartPublish string start_request run_dto
  | ExecWait start_request
  | ExecRun start_request
  | ExecWork start_request
  | ExecPersist start_request run_dto after
  | ExecPublish start_request run_dto after
  | ExecRelease
  | CancelLock string
  | CancelPersist run_dto bool
  | CancelPublish run_dto bool
  | CancelCtx string
  | CancelLoad string
  | CancelStored run
  | ShutLock
  | ShutPersist "run_dto list"
  | ShutPublish run_dto "run_dto list"

fun continue_exec :: "start_request \<Rightarrow> after \<Rightarrow> thread list" where
  "continue_exec q ToWork = [ExecWork q]"
| "continue_exec q ToRelease = [ExecRelease]"
| "continue_exec q ToExit = []"

definition after_update :: "start_request \<Rightarrow> after \<Rightarrow> run_dto option \<Rightarrow> thread list" where
  "after_update q k d = (case d of None \<Rightarrow> continue_exec q k | Some x \<Rightarrow> [ExecPersist q x k])"

definition ctx_cancelled :: "'s mgr \<Rightarrow> string \<Rightarrow> bool" where
  "ctx_cancelled m i \<longleftrightarrow> (case map_of (m_runs m) i of None \<Rightarrow> True | Some x \<Rightarrow> mr_cancelled x)"

text \<open>
  One region of a thread, and the threads it leaves: itself further on, and any it spawned. The
  starter's result is arbitrary, except that a cancelled context reports its error.
\<close>

inductive thread_step :: "'s mgr \<Rightarrow> thread \<Rightarrow> 's mgr \<Rightarrow> thread list \<Rightarrow> bool" where
  start_dup: "start_lock i q m = (StartDup d, m') \<Longrightarrow> thread_step m (StartLock i q) m' []"
| start_clash: "start_lock i q m = (StartClash, m') \<Longrightarrow> thread_step m (StartLock i q) m' []"
| start_insert: "start_lock i q m = (StartInserted d, m') \<Longrightarrow> thread_step m (StartLock i q) m' [StartClaim i q d]"
| claim_fail: "claim_accepted_run c d m = (Inl e, m') \<Longrightarrow> thread_step m (StartClaim i q d) m' [StartUndo i]"
| claim_lost: "claim_accepted_run c d m = (Inr (False, d'), m') \<Longrightarrow> thread_step m (StartClaim i q d) m' [StartUndo i]"
| claim_won: "claim_accepted_run c d m = (Inr (True, d'), m') \<Longrightarrow>
    thread_step m (StartClaim i q d) (share_blocks i d' m') [StartPublish i q d']"
| start_undo: "thread_step m (StartUndo i) (delete_managed i m) []"
| start_publish: "thread_step m (StartPublish i q d) (publish_run d m) [ExecWait (q\<lparr>g_run_id := i\<rparr>)]"
| exec_slot: "acquire_slot m = Some m' \<Longrightarrow> thread_step m (ExecWait q) m' [ExecRun q]"
| exec_no_slot: "m_slots m \<noteq> None \<Longrightarrow> ctx_cancelled m (g_run_id q) \<Longrightarrow>
    update_lock (g_run_id q) (set_not_acquired e) m = (d, m') \<Longrightarrow>
    thread_step m (ExecWait q) m' (after_update q ToExit d)"
| exec_run: "update_lock (g_run_id q) set_running m = (d, m') \<Longrightarrow> thread_step m (ExecRun q) m' (after_update q ToWork d)"
| exec_progress: "thread_step m (ExecWork q) (record_progress c (g_run_id q) ev m) [ExecWork q]"
| exec_finish: "(ctx_cancelled m (g_run_id q) \<longrightarrow> st_ctx_err (o' :: starter_outcome) \<noteq> None) \<Longrightarrow>
    update_lock (g_run_id q) (set_finished q (st_result o') (st_err o') (st_ctx_err o')) m = (d, m') \<Longrightarrow>
    thread_step m (ExecWork q) m' (after_update q ToRelease d)"
| exec_persist: "persist background d m = ((e, d'), m') \<Longrightarrow> thread_step m (ExecPersist q d k) m' [ExecPublish q d' k]"
| exec_publish: "thread_step m (ExecPublish q d k) (publish_run d m) (continue_exec q k)"
| exec_release: "thread_step m ExecRelease (release_slot m) []"
| cancel_miss: "cancel_lock i m = (None, m') \<Longrightarrow> thread_step m (CancelLock i) m' [CancelLoad i]"
| cancel_hit: "cancel_lock i m = (Some (d, hit), m') \<Longrightarrow> thread_step m (CancelLock i) m' [CancelPersist d hit]"
| cancel_persist: "persist c d m = ((e, d'), m') \<Longrightarrow> thread_step m (CancelPersist d hit) m' [CancelPublish d' hit]"
| cancel_publish: "thread_step m (CancelPublish d hit) (publish_run d m) (if hit then [CancelCtx (d_id d)] else [])"
| cancel_context: "thread_step m (CancelCtx i) (cancel_ctx i m) []"
| cancel_load_none: "m_ops m = None \<Longrightarrow> thread_step m (CancelLoad i) m []"
| cancel_load_err: "m_ops m = Some ops \<Longrightarrow> so_load ops i (m_store m) = Inl e \<Longrightarrow> thread_step m (CancelLoad i) m []"
| cancel_load: "m_ops m = Some ops \<Longrightarrow> so_load ops i (m_store m) = Inr r \<Longrightarrow>
    thread_step m (CancelLoad i) m (if is_active (r_status r) then [CancelStored r] else [])"
| cancel_stored_run: "tick m = (t, m1) \<Longrightarrow>
    persist c (dto_from_run (r\<lparr>r_status := ''cancelled'', r_ended := t,
      r_error := ''gateway process does not own this run anymore''\<rparr>)) m1 = (x, m') \<Longrightarrow>
    thread_step m (CancelStored r) m' []"
| shut_lock: "shutdown_lock m = (ds, m') \<Longrightarrow> thread_step m ShutLock m' [ShutPersist ds]"
| shut_done: "thread_step m (ShutPersist []) m []"
| shut_persist: "persist c d m = ((e, d'), m') \<Longrightarrow> thread_step m (ShutPersist (d # ds)) m' [ShutPublish d' ds]"
| shut_publish: "thread_step m (ShutPublish d ds) (cancel_ctx (d_id d) (publish_run d m)) [ShutPersist ds]"

text \<open>A system is a manager and its live threads; clients call it and subscribe to its bus.\<close>

type_synonym 's sys = "'s mgr \<times> thread list"

inductive client_call :: "thread \<Rightarrow> bool" where
  "i \<noteq> [] \<Longrightarrow> client_call (StartLock i q)"
| "client_call (CancelLock i)"
| "client_call ShutLock"

inductive sys_step :: "'s sys \<Rightarrow> 's sys \<Rightarrow> bool" where
  run_thread: "thread_step m t m' us \<Longrightarrow> sys_step (m, xs @ t # ys) (m', xs @ us @ ys)"
| call: "client_call t \<Longrightarrow> sys_step (m, xs) (m, xs @ [t])"
| subscriber: "sys_step (m, xs) (m\<lparr>m_bus := b\<rparr>, xs)"

inductive sys_reach :: "'s sys \<Rightarrow> 's sys \<Rightarrow> bool" for s0 where
  reach_refl: "sys_reach s0 s0"
| reach_step: "sys_reach s0 s \<Longrightarrow> sys_step s s' \<Longrightarrow> sys_reach s0 s'"

subsection \<open>What the steps leave alone\<close>

lemma record_event_frame:
  "m_runs (snd (record_event c d m)) = m_runs m \<and> m_slots (snd (record_event c d m)) = m_slots m"
  by (auto simp: record_event_def Let_def split: option.splits prod.splits dest!: tick_eq)

lemma persist_frame:
  "m_runs (snd (persist c d m)) = m_runs m \<and> m_slots (snd (persist c d m)) = m_slots m"
proof (cases "m_ops m")
  case None
  then show ?thesis using record_event_frame [of c d m] by (simp add: persist_def)
next
  case (Some ops)
  show ?thesis
  proof (cases "so_snapshot ops \<noteq> None \<and> so_events ops \<noteq> None")
    case True
    then show ?thesis using Some
      by (auto simp: persist_def Let_def split: option.splits prod.splits dest!: tick_eq)
  next
    case False
    obtain e x s w where q: "so_save ops c (run_from_dto d) (m_store m, m_world m) = ((e, x), s, w)" by (metis prod.collapse)
    have "persist c d m = (case e of Some e' \<Rightarrow> ((Some e', d), m\<lparr>m_store := s, m_world := w\<rparr>)
        | None \<Rightarrow> record_event c d (m\<lparr>m_store := s, m_world := w\<rparr>))"
      using False Some q by (auto simp: persist_def Let_def split: option.splits)
    then show ?thesis using record_event_frame [of c d "m\<lparr>m_store := s, m_world := w\<rparr>"] by (simp split: option.splits)
  qed
qed

lemma persist_eq: "persist c d m = (x, m') \<Longrightarrow> m_runs m' = m_runs m \<and> m_slots m' = m_slots m"
  using persist_frame [of c d m] by simp

lemma claim_frame:
  assumes "claim_accepted_run c d m = (x, m')"
  shows "m_runs m' = m_runs m \<and> m_slots m' = m_slots m"
proof (cases "m_ops m")
  case None
  then show ?thesis using assms by (simp add: claim_accepted_run_def)
next
  case (Some ops)
  show ?thesis
  proof (cases "so_claim ops \<noteq> None \<and> so_events ops \<noteq> None")
    case True
    then show ?thesis using Some assms
      by (auto simp: claim_accepted_run_def Let_def split: option.splits prod.splits dest!: tick_eq)
  next
    case False
    obtain e d1 m1 where p: "persist c d m = ((e, d1), m1)" by (metis prod.collapse)
    have "m' = m1" using assms Some False p by (auto simp: claim_accepted_run_def split: option.splits)
    then show ?thesis using persist_eq [OF p] by simp
  qed
qed

lemma progress_frame:
  "m_runs (record_progress c i ev m) = m_runs m \<and> m_slots (record_progress c i ev m) = m_slots m"
  by (auto simp: record_progress_def Let_def split: option.splits prod.splits if_splits dest!: tick_eq)

lemma set_running_frame: "set_running d m = (d', m') \<Longrightarrow> m_runs m' = m_runs m \<and> m_slots m' = m_slots m \<and> d_status d' = ''running''"
  by (auto simp: set_running_def split: prod.splits dest!: tick_eq)

lemma set_not_acquired_frame: "set_not_acquired e d m = (d', m') \<Longrightarrow> m_runs m' = m_runs m \<and> m_slots m' = m_slots m"
  by (auto simp: set_not_acquired_def split: prod.splits dest!: tick_eq)

lemma set_finished_frame: "set_finished q r e x d m = (d', m') \<Longrightarrow> m_runs m' = m_runs m \<and> m_slots m' = m_slots m"
  by (auto simp: set_finished_def Let_def split: prod.splits if_splits dest!: tick_eq)

lemma update_lock_frame:
  assumes "update_lock i fn m = (d, m')" and "\<And>x x' m1. fn x m = (x', m1) \<Longrightarrow> m_runs m1 = m_runs m \<and> m_slots m1 = m_slots m"
  shows "m_slots m' = m_slots m \<and> (\<forall>j. j \<noteq> i \<longrightarrow> map_of (m_runs m') j = map_of (m_runs m) j) \<and>
    (case map_of (m_runs m) i of
       None \<Rightarrow> d = None \<and> m' = m
     | Some x \<Rightarrow> map_of (m_runs m') i = Some (x\<lparr>mr_run := fst (fn (mr_run x) m)\<rparr>) \<and> d \<noteq> None)"
proof (cases "map_of (m_runs m) i")
  case None
  then show ?thesis using assms(1) by (simp add: update_lock_def)
next
  case (Some x)
  obtain x' m1 where f: "fn (mr_run x) m = (x', m1)" by fastforce
  show ?thesis using assms(1) Some f assms(2) [OF f] by (auto simp: update_lock_def)
qed

lemma share_blocks_frame:
  "m_slots (share_blocks i d m) = m_slots m \<and> (\<forall>j. j \<noteq> i \<longrightarrow> map_of (m_runs (share_blocks i d m)) j = map_of (m_runs m) j) \<and>
   map_option (d_status \<circ> mr_run) (map_of (m_runs (share_blocks i d m)) i) = map_option (d_status \<circ> mr_run) (map_of (m_runs m) i)"
  by (auto simp: share_blocks_def split: option.splits)

lemma cancel_lock_frame:
  assumes "cancel_lock i m = (r, m')"
  shows "m_slots m' = m_slots m \<and> (\<forall>j x. map_of (m_runs m) j = Some x \<longrightarrow> (\<exists>y. map_of (m_runs m') j = Some y \<and>
    (y = x \<or> \<not> is_terminal (d_status (mr_run x)) \<and> d_status (mr_run y) = ''cancelling'')))"
proof (cases "map_of (m_runs m) i")
  case None
  then show ?thesis using assms by (simp add: cancel_lock_def)
next
  case (Some x)
  obtain t m1 where t: "tick m = (t, m1)" by fastforce
  show ?thesis
  proof (cases "d_status (mr_run x) = ''queued'' \<or> d_status (mr_run x) = ''running''")
    case True
    then have "m' = put_managed i (x\<lparr>mr_run := (mr_run x)\<lparr>d_status := ''cancelling'', d_ended := t\<rparr>\<rparr>) m1"
      using assms Some t by (auto simp: cancel_lock_def Let_def)
    then show ?thesis using tick_eq [OF t] Some True by auto
  next
    case False
    then show ?thesis using assms Some by (auto simp: cancel_lock_def Let_def)
  qed
qed

lemma shutdown_lock_slots: "shutdown_mark ks m = (ds, m') \<Longrightarrow> m_slots m' = m_slots m"
proof (induction ks arbitrary: m ds)
  case (Cons k ks)
  show ?case
  proof (cases "map_of (m_runs m) k")
    case None
    then show ?thesis using Cons by simp
  next
    case (Some x)
    then show ?thesis using Cons.IH Cons.prems
      by (cases "is_terminal (d_status (mr_run x))") (auto simp: Let_def split: prod.splits dest!: tick_eq)
  qed
qed simp

subsection \<open>The invariant\<close>

text \<open>
  The runs a thread is bringing to their end, the threads that hold a slot, and the invariant: no run
  is owned twice, an owned run is tracked and has not ended, and the slots taken are the slots held.
\<close>

fun owned :: "thread \<Rightarrow> string list" where
  "owned (StartClaim i q d) = [i]"
| "owned (StartUndo i) = [i]"
| "owned (StartPublish i q d) = [i]"
| "owned (ExecWait q) = [g_run_id q]"
| "owned (ExecRun q) = [g_run_id q]"
| "owned (ExecWork q) = [g_run_id q]"
| "owned (ExecPersist q d ToWork) = [g_run_id q]"
| "owned (ExecPublish q d ToWork) = [g_run_id q]"
| "owned _ = []"

fun holding :: "thread \<Rightarrow> bool" where
  "holding (ExecRun q) = True"
| "holding (ExecWork q) = True"
| "holding (ExecPersist q d k) = (k \<noteq> ToExit)"
| "holding (ExecPublish q d k) = (k \<noteq> ToExit)"
| "holding ExecRelease = True"
| "holding _ = False"

definition unfinished :: "'s mgr \<Rightarrow> string \<Rightarrow> bool" where
  "unfinished m i \<longleftrightarrow> (\<exists>x. map_of (m_runs m) i = Some x \<and> \<not> is_terminal (d_status (mr_run x)))"

definition all_owned :: "thread list \<Rightarrow> string list" where
  "all_owned ts = concat (map owned ts)"

definition held :: "thread list \<Rightarrow> nat" where
  "held ts = length (filter holding ts)"

definition slots_ok :: "(nat \<times> nat) option \<Rightarrow> nat \<Rightarrow> bool" where
  "slots_ok sl h \<longleftrightarrow> (case sl of None \<Rightarrow> True | Some (cap, n) \<Rightarrow> n = h \<and> h \<le> cap)"

definition sys_inv :: "'s sys \<Rightarrow> bool" where
  "sys_inv s \<longleftrightarrow> distinct (all_owned (snd s)) \<and> (\<forall>i \<in> set (all_owned (snd s)). unfinished (fst s) i) \<and>
     slots_ok (m_slots (fst s)) (held (snd s))"

lemma all_owned_simps [simp]:
  "all_owned [] = []" "all_owned (t # ts) = owned t @ all_owned ts" "all_owned (xs @ ys) = all_owned xs @ all_owned ys"
  by (simp_all add: all_owned_def)

lemma held_simps [simp]:
  "held [] = 0" "held (t # ts) = (if holding t then 1 else 0) + held ts" "held (xs @ ys) = held xs + held ys"
  by (simp_all add: held_def)

lemma after_update_simps [simp]:
  "all_owned (after_update q k d) = (if k = ToWork then [g_run_id q] else [])"
  "held (after_update q k d) = (if k = ToExit then 0 else 1)"
  by (cases k; cases d; simp add: after_update_def)+

lemma continue_exec_simps [simp]:
  "all_owned (continue_exec q k) = (if k = ToWork then [g_run_id q] else [])"
  "held (continue_exec q k) = (if k = ToExit then 0 else 1)"
  by (cases k; simp)+

lemma start_lock_slots: "start_lock i q m = (x, m') \<Longrightarrow> m_slots m' = m_slots m"
  by (auto simp: start_lock_def Let_def split: prod.splits option.splits if_splits dest!: tick_eq)

lemma cancel_stored_frame:
  assumes "tick m = (t, m1)" and "persist c d m1 = (x, m')"
  shows "m_runs m' = m_runs m \<and> m_slots m' = m_slots m"
  using tick_eq [OF assms(1)] persist_eq [OF assms(2)] by simp

definition untouched_but :: "string \<Rightarrow> 's mgr \<Rightarrow> 's mgr \<Rightarrow> bool" where
  "untouched_but i m m' \<longleftrightarrow> m_slots m' = m_slots m \<and> (\<forall>j. j \<noteq> i \<longrightarrow> map_of (m_runs m') j = map_of (m_runs m) j)"

lemma update_running:
  assumes "update_lock i set_running m = (d, m')"
  shows "untouched_but i m m' \<and> (unfinished m i \<longrightarrow> unfinished m' i)"
proof -
  have "fst (set_running x m) = x\<lparr>d_status := ''running'', d_started := fst (tick m)\<rparr>" for x
    by (simp add: set_running_def split: prod.splits)
  moreover have "m_runs m1 = m_runs m \<and> m_slots m1 = m_slots m" if "set_running x m = (x', m1)" for x x' m1
    using set_running_frame [OF that] by simp
  note f = update_lock_frame [OF assms this]
  ultimately show ?thesis using f by (auto simp: untouched_but_def unfinished_def split: option.splits)
qed

lemma update_not_acquired:
  assumes "update_lock i (set_not_acquired e) m = (d, m')"
  shows "untouched_but i m m'"
proof -
  note f = update_lock_frame [OF assms]
  show ?thesis unfolding untouched_but_def using f [OF set_not_acquired_frame] by simp
qed

lemma update_finished:
  assumes "update_lock i (set_finished q r e x) m = (d, m')"
  shows "untouched_but i m m'"
proof -
  note f = update_lock_frame [OF assms]
  show ?thesis unfolding untouched_but_def using f [OF set_finished_frame] by simp
qed

lemma share_blocks_unfinished: "unfinished (share_blocks i d m) i = unfinished m i"
  by (auto simp: share_blocks_def unfinished_def split: option.splits)

lemma share_blocks_untouched: "untouched_but i m (share_blocks i d m)"
  using share_blocks_frame [of i d m] by (simp add: untouched_but_def)

lemma unfinished_cong: "m_runs m' = m_runs m \<Longrightarrow> unfinished m' i = unfinished m i"
  by (simp add: unfinished_def)

text \<open>A step of a thread keeps every run it does not own, and its end if it has ended.\<close>

definition kept :: "string \<Rightarrow> 's mgr \<Rightarrow> 's mgr \<Rightarrow> bool" where
  "kept i m m' \<longleftrightarrow> (\<forall>x. map_of (m_runs m) i = Some x \<longrightarrow> (\<exists>y. map_of (m_runs m') i = Some y \<and>
     (if is_terminal (d_status (mr_run x)) then mr_run y = mr_run x else \<not> is_terminal (d_status (mr_run y)))))"

lemma kept_same: "map_of (m_runs m') i = map_of (m_runs m) i \<Longrightarrow> kept i m m'"
  by (simp add: kept_def)

lemma kept_cong: "m_runs m' = m_runs m \<Longrightarrow> kept i m m'"
  by (simp add: kept_def)

lemma kept_cancel_ctx: "kept i m (cancel_ctx j m)"
  by (auto simp: kept_def map_of_cancel_ctx)

lemma keptI:
  assumes "\<And>x. map_of (m_runs m) i = Some x \<Longrightarrow> \<exists>y. map_of (m_runs m') i = Some y \<and>
    (y = x \<or> \<not> is_terminal (d_status (mr_run x)) \<and> \<not> is_terminal (d_status (mr_run y)))"
  shows "kept i m m'"
  unfolding kept_def using assms by fastforce

lemma kept_trans:
  assumes "kept i m1 m2" and "kept i m2 m3"
  shows "kept i m1 m3"
  unfolding kept_def
proof (intro allI impI)
  fix x assume "map_of (m_runs m1) i = Some x"
  with assms(1) obtain y where y: "map_of (m_runs m2) i = Some y"
    "if is_terminal (d_status (mr_run x)) then mr_run y = mr_run x else \<not> is_terminal (d_status (mr_run y))"
    unfolding kept_def by blast
  with assms(2) obtain z where "map_of (m_runs m3) i = Some z"
    "if is_terminal (d_status (mr_run y)) then mr_run z = mr_run y else \<not> is_terminal (d_status (mr_run z))"
    unfolding kept_def by blast
  with y(2) show "\<exists>z. map_of (m_runs m3) i = Some z \<and>
      (if is_terminal (d_status (mr_run x)) then mr_run z = mr_run x else \<not> is_terminal (d_status (mr_run z)))"
    by (simp split: if_splits)
qed

lemma kept_shutdown: "shutdown_lock m = (ds, m') \<Longrightarrow> kept i m m'"
proof (rule keptI)
  fix x assume l: "shutdown_lock m = (ds, m')" and x: "map_of (m_runs m) i = Some x"
  from shutdown_mark_keeps [OF l [unfolded shutdown_lock_def] x] obtain y where
    "map_of (m_runs m') i = Some y" "y = x \<or> marked x y" by blast
  then show "\<exists>y. map_of (m_runs m') i = Some y \<and>
      (y = x \<or> \<not> is_terminal (d_status (mr_run x)) \<and> \<not> is_terminal (d_status (mr_run y)))"
    by (auto simp: marked_def)
qed

lemma kept_cancel_lock: "cancel_lock j m = (r, m') \<Longrightarrow> kept i m m'"
proof (rule keptI)
  fix x assume l: "cancel_lock j m = (r, m')" and x: "map_of (m_runs m) i = Some x"
  from cancel_lock_frame [OF l] x obtain y where
    "map_of (m_runs m') i = Some y" "y = x \<or> \<not> is_terminal (d_status (mr_run x)) \<and> d_status (mr_run y) = ''cancelling''"
    by blast
  then show "\<exists>y. map_of (m_runs m') i = Some y \<and>
      (y = x \<or> \<not> is_terminal (d_status (mr_run x)) \<and> \<not> is_terminal (d_status (mr_run y)))"
    by auto
qed

lemma kept_start_lock: "start_lock j q m = (x, m') \<Longrightarrow> kept i m m'"
  by (erule start_lock_cases) (auto simp: kept_def)

lemma untouched_kept: "untouched_but j m m' \<Longrightarrow> i \<noteq> j \<Longrightarrow> kept i m m'"
  by (simp add: untouched_but_def kept_same)

lemma release_slot_runs [simp]: "m_runs (release_slot m) = m_runs m"
  by (simp add: release_slot_def split: option.splits)

lemma acquire_slot_runs: "acquire_slot m = Some m' \<Longrightarrow> m_runs m' = m_runs m"
  by (auto simp: acquire_slot_def split: option.splits if_splits)

lemma thread_step_kept:
  assumes "thread_step m t m' us" and "i \<notin> set (owned t)"
  shows "kept i m m'"
  using assms
proof (cases rule: thread_step.cases)
  case (claim_won c d d' m1 j q)
  then have "m_runs m1 = m_runs m" using claim_frame by blast
  then have "kept i m m1" by (rule kept_cong)
  moreover have "kept i m1 m'"
    using share_blocks_untouched [of j m1 d'] claim_won assms(2) by (auto intro: untouched_kept)
  ultimately show ?thesis by (rule kept_trans)
next
  case (exec_run q d)
  then show ?thesis using update_running [of "g_run_id q" m d m'] assms(2) by (auto intro: untouched_kept)
next
  case (exec_no_slot q e d)
  then show ?thesis using update_not_acquired [of "g_run_id q" e m d m'] assms(2) by (auto intro: untouched_kept)
next
  case (exec_finish q o' d)
  then show ?thesis using update_finished [OF exec_finish(4)] assms(2) by (auto intro: untouched_kept)
next
  case (shut_publish d ds)
  have "kept i m (publish_run d m)" by (rule kept_cong) simp
  then show ?thesis using kept_cancel_ctx kept_trans shut_publish by metis
next
  case (start_undo j)
  then show ?thesis using assms(2) by (auto intro: kept_same)
next
  case (exec_progress q c ev)
  then show ?thesis by (simp add: kept_cong progress_frame)
next
  case (cancel_context j)
  then show ?thesis by (simp add: kept_cancel_ctx)
next
  case (cancel_stored_run t1 m1 c r x)
  then show ?thesis using cancel_stored_frame by (blast intro: kept_cong)
next
  case (exec_slot q)
  then show ?thesis by (auto intro: kept_cong dest: acquire_slot_runs)
qed (auto intro: kept_cong kept_start_lock kept_cancel_lock kept_shutdown dest: persist_eq claim_frame)

text \<open>A step hands on the runs its thread owns, or takes one nobody tracked.\<close>

lemma start_lock_inserts:
  assumes "start_lock i q m = (StartInserted d, m')"
  shows "map_of (m_runs m) i = None \<and> unfinished m' i"
  using assms by (cases rule: start_lock_cases) (auto simp: unfinished_def)

lemma thread_step_owned:
  assumes "thread_step m t m' us" and "\<forall>i \<in> set (owned t). unfinished m i"
  shows "(\<exists>i. all_owned us = [i] \<and> unfinished m' i \<and> (i \<in> set (owned t) \<or> map_of (m_runs m) i = None)) \<or> all_owned us = []"
  using assms
proof (cases rule: thread_step.cases)
  case (start_insert i q d)
  then show ?thesis using start_lock_inserts [OF start_insert(3)] by simp
next
  case (claim_won c d d' m1 j q)
  then have "m_runs m1 = m_runs m" using claim_frame by blast
  then have "unfinished m1 j = unfinished m j" by (rule unfinished_cong)
  then have "unfinished (share_blocks j d' m1) j = unfinished m j" by (simp add: share_blocks_unfinished)
  then show ?thesis using claim_won assms(2) by simp
next
  case (exec_run q d)
  then show ?thesis using update_running [of "g_run_id q" m d m'] assms(2) by auto
next
  case (exec_slot q)
  then show ?thesis using assms(2) unfinished_cong [OF acquire_slot_runs] by auto
next
  case (exec_progress q c ev)
  then show ?thesis using assms(2) unfinished_cong [of "record_progress c (g_run_id q) ev m" m] by (simp add: progress_frame)
next
  case (exec_persist d e d' q k)
  then show ?thesis using assms(2) persist_eq [OF exec_persist(3)] unfinished_cong [of m' m] by (cases k) auto
next
  case (exec_publish q d k)
  then show ?thesis using assms(2) unfinished_cong [of "publish_run d m" m] by (cases k) auto
next
  case (claim_fail c d e i q)
  then show ?thesis using assms(2) claim_frame unfinished_cong [of m' m] by fastforce
next
  case (claim_lost c d d' i q)
  then show ?thesis using assms(2) claim_frame unfinished_cong [of m' m] by fastforce
next
  case (start_publish i q d)
  then show ?thesis using assms(2) unfinished_cong [of "publish_run d m" m] by simp
qed auto

lemma thread_step_slots:
  assumes "thread_step m t m' us" and "slots_ok (m_slots m) (h + (if holding t then 1 else 0))"
  shows "slots_ok (m_slots m') (h + held us)"
  using assms
proof (cases rule: thread_step.cases)
  case (exec_slot q)
  then show ?thesis using assms(2) by (auto simp: slots_ok_def acquire_slot_def split: option.splits if_splits)
next
  case exec_release
  then show ?thesis using assms(2) by (auto simp: slots_ok_def release_slot_def split: option.splits)
next
  case (exec_run q d)
  then show ?thesis using assms(2) update_running [of "g_run_id q" m d m'] by (simp add: untouched_but_def)
next
  case (exec_no_slot q e d)
  then show ?thesis using assms(2) update_not_acquired [of "g_run_id q" e m d m'] by (simp add: untouched_but_def)
next
  case (exec_finish q o' d)
  then show ?thesis using assms(2) update_finished [OF exec_finish(4)] by (simp add: untouched_but_def)
next
  case (claim_won c d d' m1 j q)
  then show ?thesis using assms(2) claim_frame share_blocks_frame [of j d' m1] by fastforce
next
  case (shut_lock ds)
  then show ?thesis using assms(2) shutdown_lock_slots unfolding shutdown_lock_def by fastforce
next
  case (cancel_stored_run t1 m1 c r x)
  then show ?thesis using assms(2) cancel_stored_frame by fastforce
next
  case (exec_progress q c ev)
  then show ?thesis using assms(2) by (simp add: progress_frame)
next
  case (exec_persist d e d' q k)
  then show ?thesis using assms(2) persist_eq by fastforce
qed (use assms(2) in \<open>auto dest!: persist_eq claim_frame start_lock_slots cancel_lock_frame\<close>)

lemma kept_unfinished: "kept i m m' \<Longrightarrow> unfinished m i \<Longrightarrow> unfinished m' i"
  by (auto simp: kept_def unfinished_def split: if_splits)

lemma unfinished_tracked: "unfinished m i \<Longrightarrow> map_of (m_runs m) i \<noteq> None"
  by (auto simp: unfinished_def)

lemma client_call_idle: "client_call t \<Longrightarrow> owned t = [] \<and> \<not> holding t"
  by (auto elim: client_call.cases)

lemma owned_single: "owned t = [] \<or> (\<exists>i. owned t = [i])"
  by (cases t rule: owned.cases) auto

lemma sys_step_inv:
  assumes "sys_step s s'" and "sys_inv s"
  shows "sys_inv s'"
  using assms(1)
proof (cases rule: sys_step.cases)
  case (run_thread m t m' us xs ys)
  let ?rest = "all_owned xs @ all_owned ys"
  have d: "distinct (all_owned xs @ owned t @ all_owned ys)"
    and u: "\<forall>i \<in> set (all_owned xs @ owned t @ all_owned ys). unfinished m i"
    and sl: "slots_ok (m_slots m) (held xs + held ys + (if holding t then 1 else 0))"
    using assms(2) run_thread(1) by (auto simp: sys_inv_def algebra_simps)
  have kept: "unfinished m' i" if "i \<in> set ?rest" for i
  proof -
    have "i \<notin> set (owned t)" "unfinished m i" using that d u by auto
    then show ?thesis using thread_step_kept [OF run_thread(3)] kept_unfinished by blast
  qed
  have "slots_ok (m_slots m') (held xs + held ys + held us)" by (rule thread_step_slots [OF run_thread(3) sl])
  moreover have "distinct (all_owned xs @ all_owned us @ all_owned ys) \<and>
      (\<forall>i \<in> set (all_owned xs @ all_owned us @ all_owned ys). unfinished m' i)"
  proof -
    have "\<forall>i \<in> set (owned t). unfinished m i" using u by simp
    from thread_step_owned [OF run_thread(3) this] show ?thesis
    proof (elim disjE exE conjE)
      fix i assume a: "all_owned us = [i]" "unfinished m' i" "i \<in> set (owned t)"
      then have "owned t = [i]" using owned_single [of t] by auto
      then show ?thesis using a d kept by auto
    next
      fix i assume a: "all_owned us = [i]" "unfinished m' i" "map_of (m_runs m) i = None"
      have "i \<notin> set ?rest"
      proof
        assume "i \<in> set ?rest"
        then have "unfinished m i" using u by auto
        then show False using unfinished_tracked a(3) by blast
      qed
      then show ?thesis using a d kept by auto
    next
      assume "all_owned us = []"
      then show ?thesis using d kept by auto
    qed
  qed
  ultimately show ?thesis using run_thread(2) by (simp add: sys_inv_def algebra_simps)
next
  case (call t m xs)
  then show ?thesis using assms(2) client_call_idle [OF call(3)] by (simp add: sys_inv_def)
next
  case (subscriber m xs b)
  then show ?thesis using assms(2) by (simp add: sys_inv_def unfinished_def)
qed

definition fresh_system :: "'s store_ops option \<Rightarrow> 's \<Rightarrow> world \<Rightarrow> int \<Rightarrow> 's sys" where
  "fresh_system ops s w n = (set_max_concurrent n (new_manager ops s None w), [])"

lemma reach_inv:
  assumes "sys_reach (fresh_system ops st w n) s"
  shows "sys_inv s"
  using assms
proof induction
  case reach_refl
  show ?case by (simp add: sys_inv_def fresh_system_def slots_ok_def set_max_concurrent_def)
next
  case (reach_step s s')
  then show ?case using sys_step_inv by blast
qed

lemma thread_step_limit:
  assumes "thread_step m t m' us"
  shows "map_option fst (m_slots m') = map_option fst (m_slots m)"
  using assms
proof (cases rule: thread_step.cases)
  case (exec_slot q)
  then show ?thesis using exec_slot by (auto simp: acquire_slot_def split: option.splits if_splits)
qed (auto simp: release_slot_def progress_frame share_blocks_frame shutdown_lock_def
    dest!: tick_eq persist_eq claim_frame start_lock_slots cancel_lock_frame shutdown_lock_slots
      update_running update_not_acquired update_finished
    simp: untouched_but_def split: option.splits)

lemma reach_limit:
  assumes "sys_reach (fresh_system ops st w n) s"
  shows "map_option fst (m_slots (fst s)) = (if 0 < n then Some (nat n) else None)"
  using assms
proof induction
  case reach_refl
  show ?case by (simp add: fresh_system_def set_max_concurrent_def)
next
  case (reach_step s s')
  have "map_option fst (m_slots (fst s')) = map_option fst (m_slots (fst s))"
    using reach_step.hyps(2) thread_step_limit by (cases rule: sys_step.cases) auto
  then show ?case using reach_step.IH by simp
qed

subsection \<open>Progress\<close>

text \<open>Only a goroutine waiting for a slot can be unable to move, and only while every slot is taken.\<close>

lemma thread_can_step:
  assumes "\<forall>q. t = ExecWait q \<longrightarrow> acquire_slot m \<noteq> None"
  shows "\<exists>m' us. thread_step m t m' us"
proof (cases t)
  case (StartLock i q)
  obtain x m' where l: "start_lock i q m = (x, m')" by fastforce
  then show ?thesis using StartLock by (cases x) (blast intro: thread_step.intros)+
next
  case (StartClaim i q d)
  obtain x m' where l: "claim_accepted_run background d m = (x, m')" by fastforce
  show ?thesis
  proof (cases x)
    case (Inl e)
    then show ?thesis using l StartClaim by (blast intro: claim_fail)
  next
    case (Inr y)
    obtain b d' where "y = (b, d')" by fastforce
    then have c: "claim_accepted_run background d m = (Inr (b, d'), m')" using l Inr by simp
    show ?thesis
    proof (cases b)
      case True
      then show ?thesis using claim_won [of background d m d' m' i q] c StartClaim by auto
    next
      case False
      then show ?thesis using claim_lost [of background d m d' m' i q] c StartClaim by auto
    qed
  qed
next
  case (ExecWait q)
  then show ?thesis using assms by (blast intro: exec_slot)
next
  case (ExecRun q)
  then show ?thesis by (metis exec_run surj_pair)
next
  case (ExecWork q)
  then show ?thesis by (blast intro: exec_progress)
next
  case (ExecPersist q d k)
  then show ?thesis by (metis exec_persist surj_pair)
next
  case (CancelLock i)
  obtain x m' where "cancel_lock i m = (x, m')" by fastforce
  then show ?thesis using CancelLock by (cases x) (auto intro: cancel_miss cancel_hit)
next
  case (CancelPersist d b)
  then show ?thesis by (metis cancel_persist surj_pair)
next
  case (CancelLoad i)
  show ?thesis
  proof (cases "m_ops m")
    case None
    then show ?thesis using CancelLoad by (blast intro: cancel_load_none)
  next
    case (Some ops)
    then show ?thesis using CancelLoad by (cases "so_load ops i (m_store m)") (blast intro: cancel_load_err cancel_load)+
  qed
next
  case (CancelStored r)
  then show ?thesis by (metis cancel_stored_run surj_pair)
next
  case ShutLock
  then show ?thesis by (metis shut_lock surj_pair)
next
  case (ShutPersist ds)
  then show ?thesis by (cases ds) (metis shut_done shut_persist surj_pair)+
qed (blast intro: thread_step.intros)+

lemma holder_exists: "0 < held ts \<Longrightarrow> \<exists>t \<in> set ts. holding t"
  by (auto simp: held_def filter_empty_conv)

lemma threads_can_step:
  assumes "sys_inv (m, ts)" and "ts \<noteq> []" and "\<forall>c. m_slots m \<noteq> Some (0, c)"
  shows "\<exists>t \<in> set ts. \<exists>m' us. thread_step m t m' us"
proof (cases "acquire_slot m")
  case (Some m')
  then show ?thesis using assms(2) thread_can_step [of "hd ts" m] by (auto intro!: bexI [of _ "hd ts"])
next
  case None
  then obtain cap n where sl: "m_slots m = Some (cap, n)" "cap \<le> n"
    by (auto simp: acquire_slot_def split: option.splits if_splits)
  then have "0 < held ts" using assms(1,3) by (auto simp: sys_inv_def slots_ok_def)
  then obtain t where t: "t \<in> set ts" "holding t" using holder_exists by blast
  then have "\<forall>q. t = ExecWait q \<longrightarrow> acquire_slot m \<noteq> None" by auto
  then show ?thesis using thread_can_step t(1) by blast
qed

subsection \<open>An executable scheduler\<close>

text \<open>
  To exhibit interleavings: \<open>advance o' m t\<close> takes the step of \<open>t\<close> that succeeds when it can, with no
  deadline on any context and \<open>o'\<close> for what the starter returns; \<open>schedule\<close> advances the threads named by
  their positions.
\<close>

definition starter_end :: "starter_outcome \<Rightarrow> bool \<Rightarrow> starter_outcome" where
  "starter_end o' cancelled = (if cancelled then o'\<lparr>st_ctx_err := Some ''context canceled''\<rparr> else o')"

fun advance :: "starter_outcome \<Rightarrow> 's mgr \<Rightarrow> thread \<Rightarrow> ('s mgr \<times> thread list) option" where
  "advance o' m (StartLock i q) =
     (case start_lock i q m of (StartInserted d, m') \<Rightarrow> Some (m', [StartClaim i q d]) | (_, m') \<Rightarrow> Some (m', []))"
| "advance o' m (StartClaim i q d) =
     (case claim_accepted_run background d m of
        (Inr (True, d'), m') \<Rightarrow> Some (share_blocks i d' m', [StartPublish i q d'])
      | (_, m') \<Rightarrow> Some (m', [StartUndo i]))"
| "advance o' m (StartUndo i) = Some (delete_managed i m, [])"
| "advance o' m (StartPublish i q d) = Some (publish_run d m, [ExecWait (q\<lparr>g_run_id := i\<rparr>)])"
| "advance o' m (ExecWait q) = map_option (\<lambda>m'. (m', [ExecRun q])) (acquire_slot m)"
| "advance o' m (ExecRun q) = (let (d, m') = update_lock (g_run_id q) set_running m in Some (m', after_update q ToWork d))"
| "advance o' m (ExecWork q) =
     (let e = starter_end o' (ctx_cancelled m (g_run_id q));
          (d, m') = update_lock (g_run_id q) (set_finished q (st_result e) (st_err e) (st_ctx_err e)) m
      in Some (m', after_update q ToRelease d))"
| "advance o' m (ExecPersist q d k) = (let ((_, d'), m') = persist background d m in Some (m', [ExecPublish q d' k]))"
| "advance o' m (ExecPublish q d k) = Some (publish_run d m, continue_exec q k)"
| "advance o' m ExecRelease = Some (release_slot m, [])"
| "advance o' m (CancelLock i) =
     (case cancel_lock i m of (None, m') \<Rightarrow> Some (m', [CancelLoad i]) | (Some (d, hit), m') \<Rightarrow> Some (m', [CancelPersist d hit]))"
| "advance o' m (CancelPersist d hit) = (let ((_, d'), m') = persist background d m in Some (m', [CancelPublish d' hit]))"
| "advance o' m (CancelPublish d hit) = Some (publish_run d m, if hit then [CancelCtx (d_id d)] else [])"
| "advance o' m (CancelCtx i) = Some (cancel_ctx i m, [])"
| "advance o' m _ = None"

lemma advance_step: "advance o' m t = Some (m', us) \<Longrightarrow> thread_step m t m' us"
proof (induction o' m t rule: advance.induct)
  case (1 o' m i q)
  then show ?case by (auto intro: thread_step.intros split: prod.splits start_out.splits)
next
  case (2 o' m i q d)
  then show ?case by (auto intro: claim_won claim_lost claim_fail split: prod.splits sum.splits bool.splits)
next
  case (7 o' m q)
  let ?e = "starter_end o' (ctx_cancelled m (g_run_id q))"
  have "ctx_cancelled m (g_run_id q) \<longrightarrow> st_ctx_err ?e \<noteq> None" by (simp add: starter_end_def)
  then show ?case using 7 exec_finish [of m q ?e] by (auto simp: Let_def split: prod.splits)
next
  case (11 o' m i)
  then show ?case by (auto intro: cancel_miss cancel_hit split: prod.splits option.splits)
qed (auto intro: thread_step.intros split: prod.splits option.splits)

fun schedule :: "starter_outcome \<Rightarrow> nat list \<Rightarrow> 's sys \<Rightarrow> 's sys option" where
  "schedule o' [] s = Some s"
| "schedule o' (k # ks) (m, ts) =
     (if k < length ts
      then (case advance o' m (ts ! k) of None \<Rightarrow> None | Some (m', us) \<Rightarrow> schedule o' ks (m', take k ts @ us @ drop (Suc k) ts))
      else None)"

lemma schedule_reach: "schedule o' ks s = Some s' \<Longrightarrow> sys_reach s0 s \<Longrightarrow> sys_reach s0 s'"
proof (induction o' ks s rule: schedule.induct)
  case (2 o' k ks m ts)
  from "2.prems"(1) obtain m' us where k: "k < length ts" and a: "advance o' m (ts ! k) = Some (m', us)"
    and r: "schedule o' ks (m', take k ts @ us @ drop (Suc k) ts) = Some s'"
    by (auto split: if_splits option.splits)
  have "sys_step (m, take k ts @ ts ! k # drop (Suc k) ts) (m', take k ts @ us @ drop (Suc k) ts)"
    by (rule run_thread [OF advance_step [OF a]])
  then have "sys_step (m, ts) (m', take k ts @ us @ drop (Suc k) ts)" using id_take_nth_drop [OF k] by simp
  then show ?case using "2.IH" [OF k a refl r] "2.prems"(2) by (blast intro: reach_step)
qed simp

lemma calls_reach: "list_all client_call us \<Longrightarrow> sys_reach s0 (m, ts) \<Longrightarrow> sys_reach s0 (m, ts @ us)"
proof (induction us arbitrary: ts)
  case (Cons u us)
  then have "sys_reach s0 (m, ts @ [u])" by (auto intro: reach_step call)
  then show ?case using Cons.IH [of "ts @ [u]"] Cons.prems(1) by simp
qed simp

definition demo_fresh :: "db sys" where
  "demo_fresh = fresh_system (Some sqlite_ops) demo_db demo_world 1"

definition demo_calls :: "db sys" where
  "demo_calls = (fst demo_fresh, [StartLock ''r1'' demo_start, CancelLock ''r1''])"

definition demo_success :: starter_outcome where
  "demo_success = \<lparr>st_result = None, st_err = None, st_ctx_err = None\<rparr>"

lemma demo_calls_reach: "sys_reach demo_fresh demo_calls"
  using calls_reach [of "[StartLock ''r1'' demo_start, CancelLock ''r1'']" demo_fresh "fst demo_fresh" "[]"]
  by (simp add: demo_calls_def demo_fresh_def fresh_system_def client_call.intros sys_reach.intros)

text \<open>Start, run to completion, and only then finish the cancellation that began while it was running.\<close>

definition late_cancel :: "nat list" where
  "late_cancel = [0, 0, 0, 0, 0, 0, 0, 1, 0, 0, 0, 0, 0, 0, 0]"

subsection \<open>Properties\<close>



text \<open>
  C4: a run's end is final. Once the manager holds a run as completed, failed or cancelled, no step of
  any thread changes its record again or forgets it, whatever calls arrive.
\<close>

theorem terminal_runs_final:
  assumes "sys_reach (fresh_system ops st w n) s" and "sys_step s s'"
    and "map_of (m_runs (fst s)) i = Some x" and "is_terminal (d_status (mr_run x))"
  shows "\<exists>y. map_of (m_runs (fst s')) i = Some y \<and> mr_run y = mr_run x"
  using assms(2)
proof (cases rule: sys_step.cases)
  case (run_thread m t m' us xs ys)
  have "sys_inv s" by (rule reach_inv [OF assms(1)])
  then have "\<forall>j \<in> set (owned t). unfinished m j" using run_thread(1) by (auto simp: sys_inv_def)
  moreover have "\<not> unfinished m i" using assms(3,4) run_thread(1) by (simp add: unfinished_def)
  ultimately have "kept i m m'" using thread_step_kept [OF run_thread(3)] by blast
  then show ?thesis using assms(3,4) run_thread(1,2) by (simp add: kept_def)
qed (use assms(3) in simp_all)

definition demo_completed :: "db sys" where
  "demo_completed = the (schedule demo_success [0, 0, 0, 0, 0, 0, 0, 0] demo_calls)"

lemma demo_completed_state:
  "(case schedule demo_success [0, 0, 0, 0, 0, 0, 0, 0] demo_calls of
      None \<Rightarrow> False
    | Some s \<Rightarrow> tl (snd s) = [CancelLock ''r1''] \<and>
        (case map_of (m_runs (fst s)) ''r1'' of None \<Rightarrow> False | Some x \<Rightarrow> d_status (mr_run x) = ''completed''))"
  by code_simp

lemma demo_completed_reach: "sys_reach demo_fresh demo_completed"
proof -
  have "schedule demo_success [0, 0, 0, 0, 0, 0, 0, 0] demo_calls \<noteq> None"
    using demo_completed_state by (auto split: option.splits)
  then have "schedule demo_success [0, 0, 0, 0, 0, 0, 0, 0] demo_calls = Some demo_completed"
    by (simp add: demo_completed_def)
  then show ?thesis using demo_calls_reach by (rule schedule_reach)
qed

theorem terminal_runs_final_witness:
  "\<exists>m' us x y. thread_step (fst demo_completed) (CancelLock ''r1'') m' us \<and>
     map_of (m_runs (fst demo_completed)) ''r1'' = Some x \<and> d_status (mr_run x) = ''completed'' \<and>
     map_of (m_runs m') ''r1'' = Some y \<and> mr_run y = mr_run x"
proof -
  have d: "tl (snd demo_completed) = [CancelLock ''r1'']"
    "case map_of (m_runs (fst demo_completed)) ''r1'' of None \<Rightarrow> False | Some x \<Rightarrow> d_status (mr_run x) = ''completed''"
    using demo_completed_state by (auto simp: demo_completed_def split: option.splits)
  from d(2) obtain x where x: "map_of (m_runs (fst demo_completed)) ''r1'' = Some x" "d_status (mr_run x) = ''completed''"
    by (auto split: option.splits)
  obtain m' us where st: "thread_step (fst demo_completed) (CancelLock ''r1'') m' us"
    using thread_can_step [of "CancelLock ''r1''" "fst demo_completed"] by auto
  obtain t where "snd demo_completed = [t] @ CancelLock ''r1'' # []"
    using d(1) by (cases "snd demo_completed") auto
  then have "demo_completed = (fst demo_completed, [t] @ CancelLock ''r1'' # [])" by (metis prod.collapse)
  then have "sys_step demo_completed (m', [t] @ us @ [])" using run_thread [OF st, of "[t]" "[]"] by metis
  from terminal_runs_final [OF demo_completed_reach [unfolded demo_fresh_def] this x(1)] x(2)
  obtain y where "map_of (m_runs m') ''r1'' = Some y" "mr_run y = mr_run x" by auto
  then show ?thesis using st x by blast
qed

text \<open>
  C5: the store can be left behind for good. A cancellation marks the run under the lock and stores its
  snapshot after releasing it; a run that completes in between is stored as completed first and as
  cancelling last. In the final state below no thread is left, the manager holds the run as completed,
  and the store, which the run list is read from, holds it as cancelling.
\<close>

theorem late_cancel_reopens_stored_run:
  "\<exists>m x r. sys_reach demo_fresh (m, []) \<and> map_of (m_runs m) ''r1'' = Some x \<and>
     d_status (mr_run x) = ''completed'' \<and> find_run (m_store m) ''r1'' = Some r \<and> r_status r = ''cancelling''"
proof -
  let ?s = "schedule demo_success late_cancel demo_calls"
  have "case ?s of None \<Rightarrow> False | Some (m, ts) \<Rightarrow> ts = [] \<and>
      (case map_of (m_runs m) ''r1'' of None \<Rightarrow> False | Some x \<Rightarrow> d_status (mr_run x) = ''completed'') \<and>
      (case find_run (m_store m) ''r1'' of None \<Rightarrow> False | Some r \<Rightarrow> r_status r = ''cancelling'')"
    by code_simp
  then obtain m where s: "?s = Some (m, [])"
    and m: "case map_of (m_runs m) ''r1'' of None \<Rightarrow> False | Some x \<Rightarrow> d_status (mr_run x) = ''completed''"
      "case find_run (m_store m) ''r1'' of None \<Rightarrow> False | Some r \<Rightarrow> r_status r = ''cancelling''"
    by (auto split: option.splits)
  have "sys_reach demo_fresh (m, [])" by (rule schedule_reach [OF s demo_calls_reach])
  then show ?thesis using m by (auto split: option.splits)
qed

end
