(* ===== verification/Session_Store.thy ===== *)
theory Session_Store
  imports Run_Store "HOL-Library.Product_Lexorder"
begin

section \<open>Package session: the session tables of the SQLite store\<close>

text \<open>
  The rest of \<open>session/sqlite_store.go\<close>: sessions with their turns, events and todos, checkpoints,
  artifacts and resources. A statement checks the constraints of its table; a multi-statement operation
  runs in a transaction, so an error leaves the tables as they were. What a Go function writes back into
  its arguments (generated ids, times) is returned beside the error. \<open>Session_Laws\<close> proves what the
  operations guarantee.
\<close>

subsection \<open>Normalisation\<close>

definition fill_id :: "string \<Rightarrow> string \<Rightarrow> world \<Rightarrow> string \<times> world" where
  "fill_id pre i w = (if i = [] then new_id pre w else (i, w))"

definition fill_time :: "gtime \<Rightarrow> world \<Rightarrow> gtime \<times> world" where
  "fill_time t w = (if is_zero t then now w else (t, w))"

definition normalize_session :: "session \<Rightarrow> world \<Rightarrow> session \<times> world" where
  "normalize_session s w =
     (let (t, w1) = now w; (i, w2) = fill_id ''sess'' (s_id s) w1
      in (s\<lparr>s_id := i,
            s_mode := (if s_mode s = [] then AgentModeBuild else s_mode s),
            s_agent := (if s_agent s = [] then ''kkode-agent'' else s_agent s),
            s_created := (if is_zero (s_created s) then t else s_created s),
            s_updated := (if is_zero (s_updated s) then t else s_updated s)\<rparr>, w2))"

definition normalize_event :: "string \<Rightarrow> event \<Rightarrow> world \<Rightarrow> event \<times> world" where
  "normalize_event sid ev w =
     (let (i, w1) = fill_id ''ev'' (e_id ev) w; (t, w2) = fill_time (e_at ev) w1
      in (ev\<lparr>e_id := i, e_session := (if e_session ev = [] then sid else e_session ev), e_at := t\<rparr>, w2))"

definition normalize_todo :: "todo \<Rightarrow> world \<Rightarrow> todo \<times> world" where
  "normalize_todo td w =
     (let (i, w1) = fill_id ''todo'' (td_id td) w; (t, w2) = fill_time (td_updated td) w1
      in (td\<lparr>td_id := i, td_status := (if td_status td = [] then TodoPending else td_status td), td_updated := t\<rparr>, w2))"

definition normalize_checkpoint :: "checkpoint \<Rightarrow> world \<Rightarrow> checkpoint \<times> world" where
  "normalize_checkpoint c w =
     (let (i, w1) = fill_id ''cp'' (cp_id c) w; (t, w2) = fill_time (cp_created c) w1
      in (c\<lparr>cp_id := i, cp_created := t, cp_payload := (if cp_payload c = [] then ''{}'' else cp_payload c)\<rparr>, w2))"

definition normalize_artifact :: "artifact \<Rightarrow> world \<Rightarrow> artifact \<times> world" where
  "normalize_artifact a w =
     (let (t, w1) = now w; (i, w2) = fill_id ''artifact'' (a_id a) w1
      in (a\<lparr>a_id := i, a_kind := (if a_kind a = [] then ''blob'' else a_kind a),
            a_created := (if is_zero (a_created a) then t else a_created a), a_updated := t\<rparr>, w2))"

definition ResourceMCPServer :: string where "ResourceMCPServer = ''mcp_server''"
definition ResourceSkill :: string where "ResourceSkill = ''skill''"
definition ResourceSubagent :: string where "ResourceSubagent = ''subagent''"

definition resource_prefix :: "string \<Rightarrow> string" where
  "resource_prefix kind =
     (if kind = ResourceMCPServer then ''mcp'' else if kind = ResourceSkill then ''skill''
      else if kind = ResourceSubagent then ''subagent'' else ''resource'')"

definition normalize_resource :: "resource \<Rightarrow> world \<Rightarrow> resource \<times> world" where
  "normalize_resource r w =
     (let (t, w1) = now w; (i, w2) = fill_id (resource_prefix (rs_kind r)) (rs_id r) w1
      in (r\<lparr>rs_id := i, rs_config := (if rs_config r = [] then ''{}'' else rs_config r),
            rs_created := (if is_zero (rs_created r) then t else rs_created r), rs_updated := t\<rparr>, w2))"

subsection \<open>Statements\<close>

definition insert_turn :: "turn_row \<Rightarrow> db \<Rightarrow> store_error option \<times> db" where
  "insert_turn r d =
     (if list_ex (\<lambda>x. tn_id (tw_turn x) = tn_id (tw_turn r)) (t_turns d) then (Some (UniqueFailed ''turns.id''), d)
      else if list_ex (\<lambda>x. tw_session x = tw_session r \<and> tw_ordinal x = tw_ordinal r) (t_turns d)
      then (Some (UniqueFailed ''turns.session_id, turns.ordinal''), d)
      else if \<not> has_session d (tw_session r) then (Some ForeignKeyFailed, d)
      else (None, d\<lparr>t_turns := t_turns d @ [r]\<rparr>))"

definition insert_event :: "event_row \<Rightarrow> db \<Rightarrow> store_error option \<times> db" where
  "insert_event r d =
     (if list_ex (\<lambda>x. e_id (ew_event x) = e_id (ew_event r)) (t_events d) then (Some (UniqueFailed ''events.id''), d)
      else if list_ex (\<lambda>x. e_session (ew_event x) = e_session (ew_event r) \<and> ew_ordinal x = ew_ordinal r) (t_events d)
      then (Some (UniqueFailed ''events.session_id, events.ordinal''), d)
      else if \<not> has_session d (e_session (ew_event r)) then (Some ForeignKeyFailed, d)
      else (None, d\<lparr>t_events := t_events d @ [r]\<rparr>))"

definition insert_todo :: "todo_row \<Rightarrow> db \<Rightarrow> store_error option \<times> db" where
  "insert_todo r d =
     (if list_ex (\<lambda>x. dw_session x = dw_session r \<and> td_id (dw_todo x) = td_id (dw_todo r)) (t_todos d)
      then (Some (UniqueFailed ''todos.session_id, todos.id''), d)
      else if \<not> has_session d (dw_session r) then (Some ForeignKeyFailed, d)
      else (None, d\<lparr>t_todos := t_todos d @ [r]\<rparr>))"

definition row_of_session :: "session \<Rightarrow> session_row" where
  "row_of_session s =
     \<lparr>sr_id = s_id s, sr_root = s_root s, sr_provider = s_provider s, sr_model = s_model s, sr_agent = s_agent s,
      sr_mode = s_mode s, sr_summary = s_summary s, sr_last_response = s_last_response s,
      sr_last_items = s_last_items s, sr_metadata = s_metadata s, sr_created = s_created s, sr_updated = s_updated s\<rparr>"

definition find_session :: "db \<Rightarrow> string \<Rightarrow> session_row option" where
  "find_session d i = find (\<lambda>r. sr_id r = i) (t_sessions d)"

text \<open>\<open>UPDATE sessions SET ...\<close>: every column but the id and \<open>created_at\<close>; \<open>False\<close> is no row affected.\<close>

definition update_session :: "session_row \<Rightarrow> db \<Rightarrow> bool \<times> db" where
  "update_session r d =
     (has_session d (sr_id r),
      d\<lparr>t_sessions := map (\<lambda>x. if sr_id x = sr_id r then r\<lparr>sr_created := sr_created x\<rparr> else x) (t_sessions d)\<rparr>)"

definition upsert_session :: "session_row \<Rightarrow> db \<Rightarrow> db" where
  "upsert_session r d =
     (if has_session d (sr_id r) then snd (update_session r d) else d\<lparr>t_sessions := t_sessions d @ [r]\<rparr>)"

definition touch_session :: "string \<Rightarrow> gtime \<Rightarrow> db \<Rightarrow> bool \<times> db" where
  "touch_session i t d =
     (has_session d i, d\<lparr>t_sessions := map (\<lambda>x. if sr_id x = i then x\<lparr>sr_updated := t\<rparr> else x) (t_sessions d)\<rparr>)"

definition delete_turns :: "string \<Rightarrow> db \<Rightarrow> db" where
  "delete_turns i d = d\<lparr>t_turns := filter (\<lambda>r. tw_session r \<noteq> i) (t_turns d)\<rparr>"

definition delete_events :: "string \<Rightarrow> db \<Rightarrow> db" where
  "delete_events i d = d\<lparr>t_events := filter (\<lambda>r. e_session (ew_event r) \<noteq> i) (t_events d)\<rparr>"

definition delete_todos :: "string \<Rightarrow> db \<Rightarrow> db" where
  "delete_todos i d = d\<lparr>t_todos := filter (\<lambda>r. dw_session r \<noteq> i) (t_todos d)\<rparr>"

definition next_turn_ordinal :: "db \<Rightarrow> string \<Rightarrow> int" where
  "next_turn_ordinal d i =
     (case filter (\<lambda>r. tw_session r = i) (t_turns d) of [] \<Rightarrow> - 1 | rs \<Rightarrow> Max (set (map tw_ordinal rs))) + 1"

definition next_event_ordinal :: "db \<Rightarrow> string \<Rightarrow> int" where
  "next_event_ordinal d i =
     (case filter (\<lambda>r. e_session (ew_event r) = i) (t_events d) of [] \<Rightarrow> - 1 | rs \<Rightarrow> Max (set (map ew_ordinal rs))) + 1"

subsection \<open>Saving a session\<close>

text \<open>The loops over turns, events and todos; they stop at the first error.\<close>

fun insert_turns :: "string \<Rightarrow> gtime \<Rightarrow> int \<Rightarrow> turn list \<Rightarrow> db \<times> world \<Rightarrow> (store_error option \<times> turn list) \<times> db \<times> world" where
  "insert_turns sid created k [] s = ((None, []), s)"
| "insert_turns sid created k (t # ts) (d, w) =
     (let (i, w1) = fill_id ''turn'' (tn_id t) w;
          t1 = t\<lparr>tn_id := i\<rparr>;
          started = (if is_zero (tn_started t1) then created else tn_started t1);
          ended = (if is_zero (tn_ended t1) then started else tn_ended t1)
      in case insert_turn \<lparr>tw_session = sid, tw_ordinal = k, tw_turn = t1\<lparr>tn_started := started, tn_ended := ended\<rparr>\<rparr> d of
           (Some e, _) \<Rightarrow> ((Some e, t1 # ts), d, w1)
         | (None, d1) \<Rightarrow>
             (let ((e, ts'), s2) = insert_turns sid created (k + 1) ts (d1, w1) in ((e, t1 # ts'), s2)))"

fun insert_events :: "string \<Rightarrow> int \<Rightarrow> event list \<Rightarrow> db \<times> world \<Rightarrow> (store_error option \<times> event list) \<times> db \<times> world" where
  "insert_events sid k [] s = ((None, []), s)"
| "insert_events sid k (ev # evs) (d, w) =
     (let (ev1, w1) = normalize_event sid ev w
      in case insert_event \<lparr>ew_ordinal = k, ew_event = ev1\<rparr> d of
           (Some e, _) \<Rightarrow> ((Some e, ev1 # evs), d, w1)
         | (None, d1) \<Rightarrow> (let ((e, evs'), s2) = insert_events sid (k + 1) evs (d1, w1) in ((e, ev1 # evs'), s2)))"

fun insert_todos :: "string \<Rightarrow> int \<Rightarrow> todo list \<Rightarrow> db \<times> world \<Rightarrow> store_error option \<times> db \<times> world" where
  "insert_todos sid k [] s = (None, s)"
| "insert_todos sid k (td # tds) (d, w) =
     (let (td1, w1) = normalize_todo td w
      in case insert_todo \<lparr>dw_session = sid, dw_ordinal = k, dw_todo = td1\<rparr> d of
           (Some e, _) \<Rightarrow> (Some e, d, w1)
         | (None, d1) \<Rightarrow> insert_todos sid (k + 1) tds (d1, w1))"

definition replace_todos :: "string \<Rightarrow> todo list \<Rightarrow> db \<times> world \<Rightarrow> store_error option \<times> db \<times> world" where
  "replace_todos sid tds s = insert_todos sid 0 tds (delete_todos sid (fst s), snd s)"

definition save_session_tx :: "session \<Rightarrow> db \<times> world \<Rightarrow> (store_error option \<times> session) \<times> db \<times> world" where
  "save_session_tx s st =
     (let d1 = delete_turns (s_id s) (upsert_session (row_of_session s) (fst st));
          ((e1, ts), d2, w2) = insert_turns (s_id s) (s_created s) 0 (s_turns s) (d1, snd st);
          s1 = s\<lparr>s_turns := ts\<rparr>
      in case e1 of
           Some e \<Rightarrow> ((Some e, s1), d2, w2)
         | None \<Rightarrow>
             (let ((e2, evs), d3, w3) = insert_events (s_id s) 0 (s_events s) (delete_events (s_id s) d2, w2);
                  s2 = s1\<lparr>s_events := evs\<rparr>
              in case e2 of
                   Some e \<Rightarrow> ((Some e, s2), d3, w3)
                 | None \<Rightarrow> (let (e3, s4) = replace_todos (s_id s) (s_todos s) (d3, w3) in ((e3, s2), s4))))"

definition sq_save_session :: "session \<Rightarrow> db \<times> world \<Rightarrow> (store_error option \<times> session) \<times> db \<times> world" where
  "sq_save_session s st =
     (let (s1, w1) = normalize_session s (snd st);
          ((e, s2), d, w) = save_session_tx s1 (fst st, w1)
      in ((e, s2), if e = None then d else fst st, w))"

definition sq_create_session :: "session \<Rightarrow> db \<times> world \<Rightarrow> (store_error option \<times> session) \<times> db \<times> world" where
  "sq_create_session s st =
     (let (i, w1) = fill_id ''sess'' (s_id s) (snd st); s1 = s\<lparr>s_id := i\<rparr>
      in if has_session (fst st) i then ((Some (StoreErr (''session already exists: '' @ i)), s1), fst st, w1)
         else sq_save_session s1 (fst st, w1))"

subsection \<open>Appending to a session\<close>

definition fill_turn :: "turn \<Rightarrow> world \<Rightarrow> turn \<times> world" where
  "fill_turn t w =
     (let (i, w1) = fill_id ''turn'' (tn_id t) w; (st, w2) = fill_time (tn_started t) w1
      in (t\<lparr>tn_id := i, tn_started := st, tn_ended := (if is_zero (tn_ended t) then st else tn_ended t)\<rparr>, w2))"

definition append_turn_events_tx ::
  "turn \<Rightarrow> event list \<Rightarrow> session \<Rightarrow> db \<times> world \<Rightarrow> store_error option \<times> session \<times> db \<times> world" where
  "append_turn_events_tx t evs s st =
     (let (d, w) = st;
          (tm, w1) = now w;
          s1 = s\<lparr>s_updated := tm\<rparr>
      in case insert_turn \<lparr>tw_session = s_id s, tw_ordinal = next_turn_ordinal d (s_id s), tw_turn = t\<rparr> d of
           (Some e, _) \<Rightarrow> (Some e, s1, d, w1)
         | (None, d1) \<Rightarrow>
             (let ((e2, _), d2, w2) = insert_events (s_id s) (next_event_ordinal d1 (s_id s)) evs (d1, w1)
              in case e2 of
                   Some e \<Rightarrow> (Some e, s1, d, w2)
                 | None \<Rightarrow>
                     (let (hit, d3) = update_session (row_of_session s1) d2
                      in if hit then (None, s1, d3, w2)
                         else (Some (StoreErr (''session not found: '' @ s_id s)), s1, d, w2))))"

definition sq_append_turn_with_events ::
  "ctx \<Rightarrow> session \<Rightarrow> turn \<Rightarrow> event list \<Rightarrow> db \<times> world \<Rightarrow> (store_error option \<times> session) \<times> db \<times> world" where
  "sq_append_turn_with_events c s t evs st =
     (let (s1, w1) = normalize_session s (snd st);
          (t1, w2) = fill_turn t w1
      in retry_sequence c (append_turn_events_tx t1 evs s1) s1 (fst st, w2))"

definition sq_save_session_state :: "session \<Rightarrow> db \<times> world \<Rightarrow> (store_error option \<times> session) \<times> db \<times> world" where
  "sq_save_session_state s st =
     (let (s1, w1) = normalize_session s (snd st);
          (t, w2) = now w1;
          s2 = s1\<lparr>s_updated := t\<rparr>;
          (hit, d) = update_session (row_of_session s2) (fst st)
      in if hit then ((None, s2), d, w2)
         else ((Some (StoreErr (''session not found: '' @ s_id s2)), s2), fst st, w2))"

definition append_turn_tx :: "string \<Rightarrow> turn \<Rightarrow> db \<times> world \<Rightarrow> store_error option \<times> unit \<times> db \<times> world" where
  "append_turn_tx sid t st =
     (let (d, w) = st
      in case insert_turn \<lparr>tw_session = sid, tw_ordinal = next_turn_ordinal d sid, tw_turn = t\<rparr> d of
           (Some e, _) \<Rightarrow> (Some e, (), d, w)
         | (None, d1) \<Rightarrow> (let (tm, w1) = now w in (None, (), snd (touch_session sid tm d1), w1)))"

definition sq_append_turn :: "ctx \<Rightarrow> string \<Rightarrow> turn \<Rightarrow> db \<times> world \<Rightarrow> store_error option \<times> db \<times> world" where
  "sq_append_turn c sid t st =
     (if trim_space sid = [] then (Some (StoreErr ''session id is required''), st)
      else
        (let (t1, w1) = fill_turn t (snd st);
             ((e, _), s) = retry_sequence c (append_turn_tx sid t1) () (fst st, w1)
         in (e, s)))"

definition append_event_tx :: "event \<Rightarrow> db \<times> world \<Rightarrow> store_error option \<times> unit \<times> db \<times> world" where
  "append_event_tx ev st =
     (let (d, w) = st; sid = e_session ev
      in case insert_event \<lparr>ew_ordinal = next_event_ordinal d sid, ew_event = ev\<rparr> d of
           (Some e, _) \<Rightarrow> (Some e, (), d, w)
         | (None, d1) \<Rightarrow> (let (tm, w1) = now w in (None, (), snd (touch_session sid tm d1), w1)))"

definition sq_append_event :: "ctx \<Rightarrow> event \<Rightarrow> db \<times> world \<Rightarrow> store_error option \<times> db \<times> world" where
  "sq_append_event c ev st =
     (let (ev1, w1) = normalize_event (e_session ev) ev (snd st);
          ((e, _), s) = retry_sequence c (append_event_tx ev1) () (fst st, w1)
      in (e, s))"

definition sq_save_todos :: "string \<Rightarrow> todo list \<Rightarrow> db \<times> world \<Rightarrow> store_error option \<times> db \<times> world" where
  "sq_save_todos sid tds st =
     (let (t, w1) = now (snd st); (hit, d1) = touch_session sid t (fst st)
      in if \<not> hit then (Some (StoreErr ''session not found''), fst st, w1)
         else
           (let (e, d2, w2) = replace_todos sid tds (d1, w1) in (e, if e = None then d2 else fst st, w2)))"

subsection \<open>Reading sessions\<close>

definition load_turns :: "db \<Rightarrow> string \<Rightarrow> turn list" where
  "load_turns d i = map tw_turn (sort_key tw_ordinal (filter (\<lambda>r. tw_session r = i) (t_turns d)))"

definition load_events :: "db \<Rightarrow> string \<Rightarrow> event list" where
  "load_events d i = map ew_event (sort_key ew_ordinal (filter (\<lambda>r. e_session (ew_event r) = i) (t_events d)))"

definition load_todos :: "db \<Rightarrow> string \<Rightarrow> todo list" where
  "load_todos d i = map dw_todo (sort_key dw_ordinal (filter (\<lambda>r. dw_session r = i) (t_todos d)))"

definition not_found :: "string \<Rightarrow> store_error" where
  "not_found i = StoreErr (''session not found: '' @ i)"

definition sq_load_session :: "string \<Rightarrow> db \<Rightarrow> store_error + session" where
  "sq_load_session i d =
     (case find_session d i of
        None \<Rightarrow> Inl (not_found i)
      | Some r \<Rightarrow>
          Inr \<lparr>s_id = sr_id r, s_root = sr_root r, s_provider = sr_provider r, s_model = sr_model r,
               s_agent = sr_agent r, s_mode = sr_mode r, s_created = sr_created r, s_updated = sr_updated r,
               s_turns = load_turns d (sr_id r), s_events = load_events d (sr_id r), s_todos = load_todos d (sr_id r),
               s_summary = sr_summary r, s_last_response = sr_last_response r, s_last_items = sr_last_items r,
               s_metadata = sr_metadata r\<rparr>)"

definition session_where :: "session_query \<Rightarrow> session_row \<Rightarrow> bool" where
  "session_where q r \<longleftrightarrow>
     (sq_root q \<noteq> [] \<longrightarrow> sr_root r = sq_root q) \<and> (sq_provider q \<noteq> [] \<longrightarrow> sr_provider r = sq_provider q) \<and>
     (sq_model q \<noteq> [] \<longrightarrow> sr_model r = sq_model q) \<and> (sq_mode q \<noteq> [] \<longrightarrow> sr_mode r = sq_mode q)"

definition summary_of :: "db \<Rightarrow> session_row \<Rightarrow> session_summary" where
  "summary_of d r =
     \<lparr>ss_id = sr_id r, ss_root = sr_root r, ss_provider = sr_provider r, ss_model = sr_model r, ss_agent = sr_agent r,
      ss_mode = sr_mode r, ss_turn_count = length (filter (\<lambda>t. tw_session t = sr_id r) (t_turns d)),
      ss_updated = sr_updated r, ss_summary = sr_summary r\<rparr>"

definition sq_list_sessions :: "session_query \<Rightarrow> db \<Rightarrow> store_error + session_summary list" where
  "sq_list_sessions q d =
     Inr (page (default_limit 50 (sq_limit q)) (sq_offset q)
       (sort_desc (\<lambda>x. rfc3339nano (ss_updated x)) (map (summary_of d) (filter (session_where q) (t_sessions d)))))"

definition sq_count_sessions :: "session_query \<Rightarrow> db \<Rightarrow> store_error + int" where
  "sq_count_sessions q d = Inr (int (length (filter (session_where q) (t_sessions d))))"

definition require_session :: "db \<Rightarrow> string \<Rightarrow> store_error option" where
  "require_session d i = (if has_session d i then None else Some (not_found i))"

type_synonym 'a seq_record = "int \<times> 'a"

definition sq_list_events :: "event_query \<Rightarrow> db \<Rightarrow> store_error + event seq_record list" where
  "sq_list_events q d =
     (if trim_space (eq_session q) = [] then Inl (StoreErr ''session id is required'')
      else
        (case require_session d (eq_session q) of
           Some e \<Rightarrow> Inl e
         | None \<Rightarrow>
             (let rows = sort_key ew_ordinal
                    (filter (\<lambda>r. e_session (ew_event r) = eq_session q \<and> max 0 (eq_after q) \<le> ew_ordinal r \<and>
                                 (eq_type q \<noteq> [] \<longrightarrow> e_type (ew_event r) = eq_type q)) (t_events d))
              in Inr (map (\<lambda>r. (ew_ordinal r + 1, ew_event r))
                   (if 0 < eq_limit q then take (nat (eq_limit q)) rows else rows)))))"

definition sq_list_turns :: "turn_query \<Rightarrow> db \<Rightarrow> store_error + turn seq_record list" where
  "sq_list_turns q d =
     (if trim_space (tq_session q) = [] then Inl (StoreErr ''session id is required'')
      else
        (case require_session d (tq_session q) of
           Some e \<Rightarrow> Inl e
         | None \<Rightarrow>
             Inr (map (\<lambda>r. (tw_ordinal r + 1, tw_turn r))
               (take (nat (default_limit 100 (tq_limit q)))
                 (sort_key tw_ordinal
                   (filter (\<lambda>r. tw_session r = tq_session q \<and> max 0 (tq_after q) \<le> tw_ordinal r) (t_turns d)))))))"

definition sq_load_turn :: "string \<Rightarrow> string \<Rightarrow> db \<Rightarrow> store_error + turn seq_record" where
  "sq_load_turn sid tid d =
     (if trim_space sid = [] \<or> trim_space tid = [] then Inl (StoreErr ''session id and turn id are required'')
      else
        (case find (\<lambda>r. tw_session r = sid \<and> tn_id (tw_turn r) = tid) (t_turns d) of
           Some r \<Rightarrow> Inr (tw_ordinal r + 1, tw_turn r)
         | None \<Rightarrow>
             (case require_session d sid of Some e \<Rightarrow> Inl e | None \<Rightarrow> Inl (StoreErr (''turn not found: '' @ tid)))))"

subsection \<open>Checkpoints\<close>

text \<open>\<open>ON CONFLICT(id) DO UPDATE\<close> here does not update \<open>session_id\<close>.\<close>

definition sq_save_checkpoint :: "checkpoint \<Rightarrow> db \<times> world \<Rightarrow> store_error option \<times> db \<times> world" where
  "sq_save_checkpoint c0 st =
     (let (c, w) = normalize_checkpoint c0 (snd st); d = fst st
      in if \<not> has_session d (cp_session c) then (Some ForeignKeyFailed, d, w)
         else if list_ex (\<lambda>x. cp_id x = cp_id c) (t_checkpoints d)
         then (None, d\<lparr>t_checkpoints := map (\<lambda>x. if cp_id x = cp_id c then c\<lparr>cp_session := cp_session x\<rparr> else x) (t_checkpoints d)\<rparr>, w)
         else (None, d\<lparr>t_checkpoints := t_checkpoints d @ [c]\<rparr>, w))"

definition sq_load_checkpoint :: "string \<Rightarrow> string \<Rightarrow> db \<Rightarrow> store_error + checkpoint" where
  "sq_load_checkpoint sid i d =
     (case find (\<lambda>c. cp_session c = sid \<and> cp_id c = i) (t_checkpoints d) of
        None \<Rightarrow> Inl (StoreErr ''checkpoint not found'') | Some c \<Rightarrow> Inr c)"

definition checkpoint_where :: "checkpoint_query \<Rightarrow> checkpoint \<Rightarrow> bool" where
  "checkpoint_where q c \<longleftrightarrow> cp_session c = cq_session q \<and> (cq_turn q \<noteq> [] \<longrightarrow> cp_turn c = cq_turn q)"

definition sq_list_checkpoints :: "checkpoint_query \<Rightarrow> db \<Rightarrow> store_error + checkpoint list" where
  "sq_list_checkpoints q d =
     Inr (page (default_limit 50 (cq_limit q)) (cq_offset q)
       (sort_desc (\<lambda>c. rfc3339nano (cp_created c)) (filter (checkpoint_where q) (t_checkpoints d))))"

definition sq_count_checkpoints :: "checkpoint_query \<Rightarrow> db \<Rightarrow> store_error + int" where
  "sq_count_checkpoints q d = Inr (int (length (filter (checkpoint_where q) (t_checkpoints d))))"

subsection \<open>Artifacts\<close>

text \<open>An empty content is stored as the JSON \<open>null\<close>, which reads back as empty.\<close>

definition sq_save_artifact :: "artifact \<Rightarrow> db \<times> world \<Rightarrow> (store_error option \<times> artifact) \<times> db \<times> world" where
  "sq_save_artifact a0 st =
     (let (a, w) = normalize_artifact a0 (snd st); d = fst st;
          row = a\<lparr>a_content := (if a_content a = ''null'' then [] else a_content a)\<rparr>
      in if \<not> has_session d (a_session a) then ((Some ForeignKeyFailed, a), d, w)
         else if list_ex (\<lambda>x. a_id x = a_id a) (t_artifacts d)
         then ((None, a), d\<lparr>t_artifacts := map (\<lambda>x. if a_id x = a_id a then row\<lparr>a_created := a_created x\<rparr> else x) (t_artifacts d)\<rparr>, w)
         else ((None, a), d\<lparr>t_artifacts := t_artifacts d @ [row]\<rparr>, w))"

definition sq_load_artifact :: "string \<Rightarrow> db \<Rightarrow> store_error + artifact" where
  "sq_load_artifact i d =
     (case find (\<lambda>a. a_id a = i) (t_artifacts d) of
        None \<Rightarrow> Inl (StoreErr ''artifact not found'') | Some a \<Rightarrow> Inr a)"

definition artifact_where :: "artifact_query \<Rightarrow> artifact \<Rightarrow> bool" where
  "artifact_where q a \<longleftrightarrow>
     (aq_session q \<noteq> [] \<longrightarrow> a_session a = aq_session q) \<and> (aq_run q \<noteq> [] \<longrightarrow> a_run a = aq_run q) \<and>
     (aq_turn q \<noteq> [] \<longrightarrow> a_turn a = aq_turn q) \<and> (aq_kind q \<noteq> [] \<longrightarrow> a_kind a = aq_kind q)"

definition sq_list_artifacts :: "artifact_query \<Rightarrow> db \<Rightarrow> store_error + artifact list" where
  "sq_list_artifacts q d =
     Inr (page (default_limit 50 (aq_limit q)) (aq_offset q)
       (sort_desc (\<lambda>a. rfc3339nano (a_updated a)) (filter (artifact_where q) (t_artifacts d))))"

definition sq_count_artifacts :: "artifact_query \<Rightarrow> db \<Rightarrow> store_error + int" where
  "sq_count_artifacts q d = Inr (int (length (filter (artifact_where q) (t_artifacts d))))"

definition sq_delete_artifact :: "string \<Rightarrow> db \<Rightarrow> store_error option \<times> db" where
  "sq_delete_artifact i d =
     (if list_ex (\<lambda>a. a_id a = i) (t_artifacts d)
      then (None, d\<lparr>t_artifacts := filter (\<lambda>a. a_id a \<noteq> i) (t_artifacts d)\<rparr>)
      else (Some (StoreErr (''artifact not found: '' @ i)), d))"

definition newest_artifacts :: "string \<Rightarrow> db \<Rightarrow> artifact list" where
  "newest_artifacts sid d =
     sort_desc (\<lambda>a. (rfc3339nano (a_updated a), a_id a)) (filter (\<lambda>a. a_session a = sid) (t_artifacts d))"

definition sq_prune_artifacts :: "string \<Rightarrow> int \<Rightarrow> db \<Rightarrow> (store_error + int) \<times> db" where
  "sq_prune_artifacts sid0 keep d =
     (let sid = trim_space sid0
      in if sid = [] then (Inl (StoreErr ''session_id is required''), d)
         else if keep < 0 then (Inl (StoreErr ''keep_latest must be non-negative''), d)
         else
           (let kept = map a_id (take (nat keep) (newest_artifacts sid d));
                stale = (\<lambda>a. a_session a = sid \<and> a_id a \<notin> set kept)
            in (Inr (int (length (filter stale (t_artifacts d)))),
                d\<lparr>t_artifacts := filter (\<lambda>a. \<not> stale a) (t_artifacts d)\<rparr>)))"

subsection \<open>Resources\<close>

definition same_resource :: "resource \<Rightarrow> resource \<Rightarrow> bool" where
  "same_resource x r \<longleftrightarrow> rs_kind x = rs_kind r \<and> rs_id x = rs_id r"

definition sq_save_resource :: "resource \<Rightarrow> db \<times> world \<Rightarrow> (store_error option \<times> resource) \<times> db \<times> world" where
  "sq_save_resource r0 st =
     (let (r, w) = normalize_resource r0 (snd st); d = fst st
      in if list_ex (\<lambda>x. same_resource x r) (t_resources d)
         then ((None, r), d\<lparr>t_resources := map (\<lambda>x. if same_resource x r then r\<lparr>rs_created := rs_created x\<rparr> else x) (t_resources d)\<rparr>, w)
         else ((None, r), d\<lparr>t_resources := t_resources d @ [r]\<rparr>, w))"

definition sq_load_resource :: "string \<Rightarrow> string \<Rightarrow> db \<Rightarrow> store_error + resource" where
  "sq_load_resource kind i d =
     (case find (\<lambda>r. rs_kind r = kind \<and> rs_id r = i) (t_resources d) of
        None \<Rightarrow> Inl (StoreErr ''resource not found'') | Some r \<Rightarrow> Inr r)"

definition resource_where :: "resource_query \<Rightarrow> resource \<Rightarrow> bool" where
  "resource_where q r \<longleftrightarrow>
     (rsq_kind q \<noteq> [] \<longrightarrow> rs_kind r = rsq_kind q) \<and> (rsq_name q \<noteq> [] \<longrightarrow> rs_name r = rsq_name q) \<and>
     (case rsq_enabled q of None \<Rightarrow> True | Some b \<Rightarrow> rs_enabled r = b)"

definition sq_list_resources :: "resource_query \<Rightarrow> db \<Rightarrow> store_error + resource list" where
  "sq_list_resources q d =
     Inr (page (default_limit 100 (rsq_limit q)) (rsq_offset q)
       (sort_desc (\<lambda>r. rfc3339nano (rs_updated r)) (filter (resource_where q) (t_resources d))))"

definition sq_count_resources :: "resource_query \<Rightarrow> db \<Rightarrow> store_error + int" where
  "sq_count_resources q d = Inr (int (length (filter (resource_where q) (t_resources d))))"

definition sq_delete_resource :: "string \<Rightarrow> string \<Rightarrow> db \<Rightarrow> store_error option \<times> db" where
  "sq_delete_resource kind i d =
     (if list_ex (\<lambda>r. rs_kind r = kind \<and> rs_id r = i) (t_resources d)
      then (None, d\<lparr>t_resources := filter (\<lambda>r. \<not> (rs_kind r = kind \<and> rs_id r = i)) (t_resources d)\<rparr>)
      else (Some (StoreErr (''resource not found: '' @ kind @ ''/'' @ i)), d))"

end
