(* ===== verification/Session_Laws.thy ===== *)
theory Session_Laws
  imports Session_Store
begin

section \<open>Package session: what the session tables guarantee\<close>

text \<open>
  The constraints of the schema hold after every operation; the ordinals of a session's turns and
  events are 0, 1, 2, ... in the order they were appended; saving and loading are inverse on complete
  sessions; and appending a turn with its events is, seen through \<open>LoadSession\<close>, one atomic append to
  that session alone.
\<close>

subsection \<open>Constraints\<close>

definition store_ok :: "db \<Rightarrow> bool" where
  "store_ok d \<longleftrightarrow> session_tables_ok d \<and> run_tables_ok d"

lemma has_session_upd [simp]:
  "has_session (d\<lparr>t_turns := a\<rparr>) i = has_session d i" "has_session (d\<lparr>t_events := b\<rparr>) i = has_session d i"
  "has_session (d\<lparr>t_todos := c\<rparr>) i = has_session d i" "has_session (d\<lparr>t_checkpoints := e\<rparr>) i = has_session d i"
  "has_session (d\<lparr>t_artifacts := f\<rparr>) i = has_session d i" "has_session (d\<lparr>t_resources := g\<rparr>) i = has_session d i"
  "has_session (d\<lparr>t_runs := h\<rparr>) i = has_session d i" "has_session (d\<lparr>t_run_events := k\<rparr>) i = has_session d i"
  by (simp_all add: has_session_def)

lemma has_session_map:
  "(\<And>x. sr_id (f x) = sr_id x) \<Longrightarrow> has_session (d\<lparr>t_sessions := map f (t_sessions d)\<rparr>) i = has_session d i"
  by (simp add: has_session_def list_ex_iff)

lemma has_session_snoc:
  "has_session (d\<lparr>t_sessions := t_sessions d @ [r]\<rparr>) i = (has_session d i \<or> sr_id r = i)"
  by (auto simp: has_session_def)

lemma has_session_find: "has_session d i \<longleftrightarrow> find_session d i \<noteq> None"
  by (auto simp: has_session_def find_session_def list_ex_iff find_None_iff)

lemma distinct_filter_map: "distinct (map f xs) \<Longrightarrow> distinct (map f (filter P xs))"
  by (rule distinct_map_filter)

lemma insert_turn_ok: "store_ok d \<Longrightarrow> store_ok (snd (insert_turn r d))"
  by (auto simp: insert_turn_def store_ok_def session_tables_ok_def run_tables_ok_def list_all_iff list_ex_iff)

lemma insert_event_ok: "store_ok d \<Longrightarrow> store_ok (snd (insert_event r d))"
  by (auto simp: insert_event_def store_ok_def session_tables_ok_def run_tables_ok_def list_all_iff list_ex_iff)

lemma insert_todo_ok: "store_ok d \<Longrightarrow> store_ok (snd (insert_todo r d))"
  by (auto simp: insert_todo_def store_ok_def session_tables_ok_def run_tables_ok_def list_all_iff list_ex_iff)

lemma delete_ok:
  "store_ok d \<Longrightarrow> store_ok (delete_turns i d)" "store_ok d \<Longrightarrow> store_ok (delete_events i d)"
  "store_ok d \<Longrightarrow> store_ok (delete_todos i d)"
  by (simp_all add: delete_turns_def delete_events_def delete_todos_def store_ok_def session_tables_ok_def
      run_tables_ok_def list_all_iff distinct_map_filter)

lemma map_sessions_ok:
  assumes "store_ok d" and f: "\<And>x. sr_id (f x) = sr_id x"
  shows "store_ok (d\<lparr>t_sessions := map f (t_sessions d)\<rparr>)"
proof -
  have "map sr_id (map f (t_sessions d)) = map sr_id (t_sessions d)" using f by simp
  then show ?thesis
    using assms(1) has_session_map [OF f, of d]
    by (simp add: store_ok_def session_tables_ok_def run_tables_ok_def del: map_map)
qed

lemma update_session_ok: "store_ok d \<Longrightarrow> store_ok (snd (update_session r d))"
  by (simp add: update_session_def map_sessions_ok)

lemma touch_session_ok: "store_ok d \<Longrightarrow> store_ok (snd (touch_session i t d))"
  by (simp add: touch_session_def map_sessions_ok)

lemma upsert_session_ok: "store_ok d \<Longrightarrow> store_ok (upsert_session r d)"
proof (cases "has_session d (sr_id r)")
  case False
  assume ok: "store_ok d"
  have "sr_id r \<notin> sr_id ` set (t_sessions d)" using False by (auto simp: has_session_def list_ex_iff)
  then show ?thesis
    using ok False
    by (auto simp: upsert_session_def store_ok_def session_tables_ok_def run_tables_ok_def has_session_snoc list_all_iff)
qed (simp add: upsert_session_def update_session_ok)

subsection \<open>The loops that insert turns, events and todos\<close>

text \<open>What is stored for a turn, an event and a todo, and the rows a successful loop appends.\<close>

definition stored_turn :: "gtime \<Rightarrow> turn \<Rightarrow> turn" where
  "stored_turn created t =
     (let started = (if is_zero (tn_started t) then created else tn_started t)
      in t\<lparr>tn_started := started, tn_ended := (if is_zero (tn_ended t) then started else tn_ended t)\<rparr>)"

fun turn_rows :: "string \<Rightarrow> gtime \<Rightarrow> int \<Rightarrow> turn list \<Rightarrow> turn_row list" where
  "turn_rows sid cr k [] = []"
| "turn_rows sid cr k (t # ts) =
     \<lparr>tw_session = sid, tw_ordinal = k, tw_turn = stored_turn cr t\<rparr> # turn_rows sid cr (k + 1) ts"

fun event_rows :: "int \<Rightarrow> event list \<Rightarrow> event_row list" where
  "event_rows k [] = []"
| "event_rows k (ev # evs) = \<lparr>ew_ordinal = k, ew_event = ev\<rparr> # event_rows (k + 1) evs"

fun todo_rows :: "string \<Rightarrow> int \<Rightarrow> todo list \<Rightarrow> todo_row list" where
  "todo_rows sid k [] = []"
| "todo_rows sid k (td # tds) = \<lparr>dw_session = sid, dw_ordinal = k, dw_todo = td\<rparr> # todo_rows sid (k + 1) tds"

definition complete_turn :: "turn \<Rightarrow> bool" where
  "complete_turn t \<longleftrightarrow> tn_id t \<noteq> [] \<and> tn_started t \<noteq> 0 \<and> tn_ended t \<noteq> 0"

definition complete_event :: "event \<Rightarrow> bool" where
  "complete_event ev \<longleftrightarrow> e_id ev \<noteq> [] \<and> e_session ev \<noteq> [] \<and> e_at ev \<noteq> 0"

definition complete_todo :: "todo \<Rightarrow> bool" where
  "complete_todo td \<longleftrightarrow> td_id td \<noteq> [] \<and> td_status td \<noteq> [] \<and> td_updated td \<noteq> 0"

definition complete :: "session \<Rightarrow> bool" where
  "complete s \<longleftrightarrow> s_id s \<noteq> [] \<and> s_mode s \<noteq> [] \<and> s_agent s \<noteq> [] \<and> s_created s \<noteq> 0 \<and> s_updated s \<noteq> 0 \<and>
     list_all complete_turn (s_turns s) \<and> list_all complete_event (s_events s) \<and> list_all complete_todo (s_todos s)"

lemma stored_turn_id [simp]: "tn_id (stored_turn cr t) = tn_id t"
  by (simp add: stored_turn_def Let_def)

lemma stored_turn_complete: "tn_started t \<noteq> 0 \<Longrightarrow> tn_ended t \<noteq> 0 \<Longrightarrow> stored_turn cr t = t"
  by (simp add: stored_turn_def Let_def)

lemma insert_turn_None: "insert_turn r d = (None, d') \<Longrightarrow> d' = d\<lparr>t_turns := t_turns d @ [r]\<rparr>"
  by (simp add: insert_turn_def split: if_splits)

lemma insert_event_None: "insert_event r d = (None, d') \<Longrightarrow> d' = d\<lparr>t_events := t_events d @ [r]\<rparr>"
  by (simp add: insert_event_def split: if_splits)

lemma insert_todo_None: "insert_todo r d = (None, d') \<Longrightarrow> d' = d\<lparr>t_todos := t_todos d @ [r]\<rparr>"
  by (simp add: insert_todo_def split: if_splits)

lemma insert_turns_Cons:
  assumes "fill_id ''turn'' (tn_id t) w = (i, w1)"
  shows "insert_turns sid cr k (t # ts) (d, w) =
    (case insert_turn \<lparr>tw_session = sid, tw_ordinal = k, tw_turn = stored_turn cr (t\<lparr>tn_id := i\<rparr>)\<rparr> d of
       (Some e, _) \<Rightarrow> ((Some e, t\<lparr>tn_id := i\<rparr> # ts), d, w1)
     | (None, d1) \<Rightarrow>
         (let ((e, ts'), s2) = insert_turns sid cr (k + 1) ts (d1, w1) in ((e, t\<lparr>tn_id := i\<rparr> # ts'), s2)))"
  by (simp add: assms stored_turn_def Let_def)

declare insert_turns.simps(2) [simp del]

lemma insert_turns_rows:
  assumes "insert_turns sid cr k ts (d, w) = ((None, ts'), d', w')"
  shows "d' = d\<lparr>t_turns := t_turns d @ turn_rows sid cr k ts'\<rparr> \<and> length ts' = length ts \<and>
    (store_ok d \<longrightarrow> store_ok d') \<and> (list_all (\<lambda>t. tn_id t \<noteq> []) ts \<longrightarrow> ts' = ts)"
  using assms
proof (induction ts arbitrary: k d w ts')
  case (Cons t ts)
  obtain i w1 where i: "fill_id ''turn'' (tn_id t) w = (i, w1)" by fastforce
  let ?r = "\<lparr>tw_session = sid, tw_ordinal = k, tw_turn = stored_turn cr (t\<lparr>tn_id := i\<rparr>)\<rparr>"
  obtain e d1 where r: "insert_turn ?r d = (e, d1)" by fastforce
  obtain e2 ts2 d2 w2 where rest: "insert_turns sid cr (k + 1) ts (d1, w1) = ((e2, ts2), d2, w2)"
    by (metis prod.collapse)
  from Cons.prems r rest have n: "e = None" "e2 = None" "ts' = t\<lparr>tn_id := i\<rparr> # ts2" "d2 = d'" "w2 = w'"
    by (simp_all add: insert_turns_Cons [OF i] split: option.splits)
  have d1: "d1 = d\<lparr>t_turns := t_turns d @ [?r]\<rparr>" using r n(1) insert_turn_None by blast
  have "store_ok d1" if "store_ok d" using insert_turn_ok [OF that, of ?r] r by simp
  moreover have "tn_id t \<noteq> [] \<Longrightarrow> t\<lparr>tn_id := i\<rparr> = t" using i by (simp add: fill_id_def)
  ultimately show ?case using Cons.IH [OF rest [unfolded n(2,4,5)]] n by (auto simp: d1)
qed simp

lemma insert_events_rows:
  assumes "insert_events sid k evs (d, w) = ((None, evs'), d', w')"
  shows "d' = d\<lparr>t_events := t_events d @ event_rows k evs'\<rparr> \<and> length evs' = length evs \<and>
    (store_ok d \<longrightarrow> store_ok d') \<and>
    (list_all (\<lambda>ev. e_session ev \<in> {[], sid}) evs \<and> sid \<noteq> [] \<longrightarrow> list_all (\<lambda>ev. e_session ev = sid) evs') \<and>
    (list_all complete_event evs \<longrightarrow> evs' = evs)"
  using assms
proof (induction evs arbitrary: k d w evs')
  case (Cons ev evs)
  obtain ev1 w1 where i: "normalize_event sid ev w = (ev1, w1)" by fastforce
  let ?r = "\<lparr>ew_ordinal = k, ew_event = ev1\<rparr>"
  obtain e d1 where r: "insert_event ?r d = (e, d1)" by fastforce
  obtain e2 evs2 d2 w2 where rest: "insert_events sid (k + 1) evs (d1, w1) = ((e2, evs2), d2, w2)"
    by (metis prod.collapse)
  from Cons.prems r rest have n: "e = None" "e2 = None" "evs' = ev1 # evs2" "d2 = d'" "w2 = w'"
    by (auto simp: i split: option.splits)
  have d1: "d1 = d\<lparr>t_events := t_events d @ [?r]\<rparr>" using r n(1) insert_event_None by blast
  have "store_ok d1" if "store_ok d" using insert_event_ok [OF that, of ?r] r by simp
  moreover have "e_session ev1 = (if e_session ev = [] then sid else e_session ev)"
    and "complete_event ev \<Longrightarrow> ev1 = ev"
    using i by (auto simp: complete_event_def normalize_event_def fill_id_def fill_time_def Let_def split: prod.splits)
  ultimately show ?case using Cons.IH [OF rest [unfolded n(2,4,5)]] n by (auto simp: d1)
qed simp

lemma insert_todos_rows:
  assumes "insert_todos sid k tds (d, w) = (None, d', w')"
  shows "\<exists>tds'. d' = d\<lparr>t_todos := t_todos d @ todo_rows sid k tds'\<rparr> \<and> length tds' = length tds \<and>
    (store_ok d \<longrightarrow> store_ok d') \<and>
    (list_all complete_todo tds \<longrightarrow> tds' = tds)"
  using assms
proof (induction tds arbitrary: k d w)
  case (Cons td tds)
  obtain td1 w1 where i: "normalize_todo td w = (td1, w1)" by fastforce
  let ?r = "\<lparr>dw_session = sid, dw_ordinal = k, dw_todo = td1\<rparr>"
  obtain e d1 where r: "insert_todo ?r d = (e, d1)" by fastforce
  from Cons.prems r have n: "e = None" and rest: "insert_todos sid (k + 1) tds (d1, w1) = (None, d', w')"
    by (auto simp: i split: option.splits)
  have d1: "d1 = d\<lparr>t_todos := t_todos d @ [?r]\<rparr>" using r n insert_todo_None by blast
  have "store_ok d1" if "store_ok d" using insert_todo_ok [OF that, of ?r] r by simp
  moreover have "complete_todo td \<Longrightarrow> td1 = td"
    using i by (auto simp: complete_todo_def normalize_todo_def fill_id_def fill_time_def Let_def split: prod.splits)
  moreover obtain tds' where "d' = d1\<lparr>t_todos := t_todos d1 @ todo_rows sid (k + 1) tds'\<rparr>"
      "length tds' = length tds" "store_ok d1 \<longrightarrow> store_ok d'"
      "list_all complete_todo tds \<longrightarrow> tds' = tds"
    using Cons.IH [OF rest] by blast
  ultimately show ?case by (intro exI [of _ "td1 # tds'"]) (auto simp: d1)
qed simp

subsection \<open>The rows of one session\<close>

definition turns_of :: "db \<Rightarrow> string \<Rightarrow> turn_row list" where
  "turns_of d i = filter (\<lambda>r. tw_session r = i) (t_turns d)"

definition events_of :: "db \<Rightarrow> string \<Rightarrow> event_row list" where
  "events_of d i = filter (\<lambda>r. e_session (ew_event r) = i) (t_events d)"

definition todos_of :: "db \<Rightarrow> string \<Rightarrow> todo_row list" where
  "todos_of d i = filter (\<lambda>r. dw_session r = i) (t_todos d)"

lemmas rows_of_defs = turns_of_def events_of_def todos_of_def

definition from_zero :: "int list \<Rightarrow> bool" where
  "from_zero ks \<longleftrightarrow> ks = map int [0..<length ks]"

text \<open>The ordinals of a session's turns, events and todos are their positions.\<close>

definition numbered :: "db \<Rightarrow> string \<Rightarrow> bool" where
  "numbered d i \<longleftrightarrow> from_zero (map tw_ordinal (turns_of d i)) \<and> from_zero (map ew_ordinal (events_of d i)) \<and>
     from_zero (map dw_ordinal (todos_of d i))"

definition store_good :: "db \<Rightarrow> bool" where
  "store_good d \<longleftrightarrow> store_ok d \<and> (\<forall>i. numbered d i)"

lemma from_zero_Nil [simp]: "from_zero []"
  by (simp add: from_zero_def)

lemma from_zero_snoc: "from_zero ks \<Longrightarrow> from_zero (ks @ [int (length ks)])"
  unfolding from_zero_def by simp

lemma from_zero_append: "from_zero ks \<Longrightarrow> from_zero (ks @ map (\<lambda>j. int (length ks) + int j) [0..<n])"
proof (induction n)
  case (Suc n)
  have "ks @ map (\<lambda>j. int (length ks) + int j) [0..<Suc n] =
      (ks @ map (\<lambda>j. int (length ks) + int j) [0..<n]) @ [int (length (ks @ map (\<lambda>j. int (length ks) + int j) [0..<n]))]"
    by simp
  then show ?case using from_zero_snoc [OF Suc.IH [OF Suc.prems]] by metis
qed simp

lemma from_zero_upt: "from_zero (map (\<lambda>j. int j) [0..<n])"
  by (simp add: from_zero_def)

lemma from_zero_sorted: "from_zero ks \<Longrightarrow> sorted ks"
  unfolding from_zero_def by (metis sorted_upt sorted_map of_nat_mono sorted_wrt_map_mono)

lemma from_zero_next:
  assumes "from_zero (map f xs)"
  shows "(case xs of [] \<Rightarrow> - 1 | ys \<Rightarrow> Max (set (map f ys))) + 1 = int (length xs)"
proof (cases xs)
  case (Cons y ys)
  have "set (map f xs) = int ` {0..<length xs}"
    using assms unfolding from_zero_def by (metis length_map list.set_map set_upt)
  moreover have "Max (int ` {0..<length xs}) = int (length xs) - 1"
    using Cons by (intro Max_eqI) (auto intro!: image_eqI [of _ int "length ys"])
  ultimately show ?thesis using Cons by simp
qed simp

lemma next_turn_numbered: "numbered d i \<Longrightarrow> next_turn_ordinal d i = int (length (turns_of d i))"
  using from_zero_next [of tw_ordinal "turns_of d i"]
  by (simp add: numbered_def next_turn_ordinal_def turns_of_def)

lemma next_event_numbered: "numbered d i \<Longrightarrow> next_event_ordinal d i = int (length (events_of d i))"
  using from_zero_next [of ew_ordinal "events_of d i"]
  by (simp add: numbered_def next_event_ordinal_def events_of_def)

lemma turn_rows_facts:
  "map tw_ordinal (turn_rows sid cr k ts) = map (\<lambda>j. k + int j) [0..<length ts]"
  "map tw_turn (turn_rows sid cr k ts) = map (stored_turn cr) ts"
  "filter (\<lambda>r. tw_session r = i) (turn_rows sid cr k ts) = (if i = sid then turn_rows sid cr k ts else [])"
  by (induction sid cr k ts rule: turn_rows.induct) (auto simp: upt_conv_Cons map_Suc_upt [symmetric] comp_def simp del: upt_Suc)

lemma event_rows_facts:
  "map ew_ordinal (event_rows k evs) = map (\<lambda>j. k + int j) [0..<length evs]"
  "map ew_event (event_rows k evs) = evs"
  by (induction k evs rule: event_rows.induct) (auto simp: upt_conv_Cons map_Suc_upt [symmetric] comp_def simp del: upt_Suc)

lemma event_rows_filter:
  "list_all (\<lambda>ev. e_session ev = sid) evs \<Longrightarrow>
     filter (\<lambda>r. e_session (ew_event r) = i) (event_rows k evs) = (if i = sid then event_rows k evs else [])"
  by (induction k evs rule: event_rows.induct) auto

lemma todo_rows_facts:
  "map dw_ordinal (todo_rows sid k tds) = map (\<lambda>j. k + int j) [0..<length tds]"
  "map dw_todo (todo_rows sid k tds) = tds"
  "filter (\<lambda>r. dw_session r = i) (todo_rows sid k tds) = (if i = sid then todo_rows sid k tds else [])"
  by (induction sid k tds rule: todo_rows.induct) (auto simp: upt_conv_Cons map_Suc_upt [symmetric] comp_def simp del: upt_Suc)

lemma upsert_tables [simp]:
  "t_turns (upsert_session r d) = t_turns d" "t_events (upsert_session r d) = t_events d"
  "t_todos (upsert_session r d) = t_todos d" "t_runs (upsert_session r d) = t_runs d"
  by (simp_all add: upsert_session_def update_session_def)

lemma find_map_key:
  assumes "\<And>x. key (f x) = key x"
  shows "find (\<lambda>x. key x = i) (map f xs) = map_option f (find (\<lambda>x. key x = i) xs)"
  by (induction xs) (simp_all add: assms)

lemma find_session_id: "find_session d i = Some r \<Longrightarrow> sr_id r = i"
  by (auto simp: find_session_def find_Some_iff)

lemma find_update_session:
  "find_session (snd (update_session r d)) i =
     (if i = sr_id r then map_option (\<lambda>x. r\<lparr>sr_created := sr_created x\<rparr>) (find_session d i) else find_session d i)"
  using find_session_id [of d i]
  by (cases "find_session d i") (auto simp: find_session_def update_session_def find_map_key)

lemma find_touch_session:
  "find_session (snd (touch_session j t d)) i =
     (if i = j then map_option (\<lambda>x. x\<lparr>sr_updated := t\<rparr>) (find_session d i) else find_session d i)"
  using find_session_id [of d i]
  by (cases "find_session d i") (auto simp: find_session_def touch_session_def find_map_key)

definition kept_created :: "db \<Rightarrow> session_row \<Rightarrow> session_row" where
  "kept_created d r = (case find_session d (sr_id r) of None \<Rightarrow> r | Some x \<Rightarrow> r\<lparr>sr_created := sr_created x\<rparr>)"

lemma find_upsert_session:
  "find_session (upsert_session r d) i = (if i = sr_id r then Some (kept_created d r) else find_session d i)"
proof (cases "has_session d (sr_id r)")
  case True
  then show ?thesis
    by (auto simp: upsert_session_def find_update_session kept_created_def has_session_find)
next
  case False
  then have "find_session d (sr_id r) = None" by (simp add: has_session_find)
  then show ?thesis
    using False by (auto simp: upsert_session_def find_session_def find_append kept_created_def split: option.splits)
qed

lemma tables_updates [simp]:
  "find_session (d\<lparr>t_turns := a\<rparr>) i = find_session d i" "find_session (d\<lparr>t_events := b\<rparr>) i = find_session d i"
  "find_session (d\<lparr>t_todos := c\<rparr>) i = find_session d i"
  "turns_of (d\<lparr>t_events := b\<rparr>) i = turns_of d i" "turns_of (d\<lparr>t_todos := c\<rparr>) i = turns_of d i"
  "turns_of (d\<lparr>t_sessions := e\<rparr>) i = turns_of d i"
  "events_of (d\<lparr>t_turns := a\<rparr>) i = events_of d i" "events_of (d\<lparr>t_todos := c\<rparr>) i = events_of d i"
  "events_of (d\<lparr>t_sessions := e\<rparr>) i = events_of d i"
  "todos_of (d\<lparr>t_turns := a\<rparr>) i = todos_of d i" "todos_of (d\<lparr>t_events := b\<rparr>) i = todos_of d i"
  "todos_of (d\<lparr>t_sessions := e\<rparr>) i = todos_of d i"
  by (simp_all add: find_session_def rows_of_defs)

subsection \<open>What saving and appending do\<close>

definition saved_tables :: "session \<Rightarrow> todo list \<Rightarrow> db \<Rightarrow> db" where
  "saved_tables s tds d =
     (let d1 = upsert_session (row_of_session s) d
      in d1\<lparr>t_turns := t_turns (delete_turns (s_id s) d1) @ turn_rows (s_id s) (s_created s) 0 (s_turns s),
            t_events := t_events (delete_events (s_id s) d1) @ event_rows 0 (s_events s),
            t_todos := t_todos (delete_todos (s_id s) d1) @ todo_rows (s_id s) 0 tds\<rparr>)"

definition own_events :: "string \<Rightarrow> event list \<Rightarrow> bool" where
  "own_events i evs \<longleftrightarrow> list_all (\<lambda>ev. e_session ev \<in> {[], i}) evs"

lemma save_tx_done:
  assumes "save_session_tx s (d, w) = ((None, s'), d', w')" and "s_id s \<noteq> []"
  shows "\<exists>tds. d' = saved_tables s' tds d \<and> s' = s\<lparr>s_turns := s_turns s', s_events := s_events s'\<rparr> \<and>
    (store_ok d \<longrightarrow> store_ok d') \<and>
    (own_events (s_id s) (s_events s) \<longrightarrow> list_all (\<lambda>ev. e_session ev = s_id s) (s_events s')) \<and>
    (complete s \<longrightarrow> s' = s \<and> tds = s_todos s)"
proof -
  let ?i = "s_id s" and ?d1 = "delete_turns (s_id s) (upsert_session (row_of_session s) d)"
  obtain e1 ts d2 w2 where t: "insert_turns ?i (s_created s) 0 (s_turns s) (?d1, w) = ((e1, ts), d2, w2)"
    by (metis prod.collapse)
  obtain e2 evs d3 w3 where ev: "insert_events ?i 0 (s_events s) (delete_events ?i d2, w2) = ((e2, evs), d3, w3)"
    by (metis prod.collapse)
  obtain e3 d4 w4 where td: "insert_todos ?i 0 (s_todos s) (delete_todos ?i d3, w3) = (e3, d4, w4)"
    by (metis prod.collapse)
  from assms(1) t ev td have n: "e1 = None" "e2 = None" "e3 = None" "d4 = d'"
      "s' = s\<lparr>s_turns := ts, s_events := evs\<rparr>"
    by (auto simp: save_session_tx_def replace_todos_def Let_def split: option.splits)
  note T = insert_turns_rows [OF t [unfolded n(1)]] and E = insert_events_rows [OF ev [unfolded n(2)]]
  obtain tds where D: "d' = (delete_todos ?i d3)\<lparr>t_todos := t_todos (delete_todos ?i d3) @ todo_rows ?i 0 tds\<rparr>"
      "store_ok (delete_todos ?i d3) \<longrightarrow> store_ok d'" "list_all complete_todo (s_todos s) \<longrightarrow> tds = s_todos s"
    using insert_todos_rows [OF td [unfolded n(3,4)]] by blast
  have "d' = saved_tables s' tds d"
    using T E by (simp add: D(1) n(5) saved_tables_def delete_turns_def delete_events_def delete_todos_def Let_def row_of_session_def)
  moreover have "store_ok d \<Longrightarrow> store_ok d'"
    using T E D(2) by (metis delete_ok upsert_session_ok)
  moreover have "complete s \<Longrightarrow> s' = s \<and> tds = s_todos s"
  proof -
    assume c: "complete s"
    then have "list_all (\<lambda>t. tn_id t \<noteq> []) (s_turns s)" "list_all complete_event (s_events s)"
      by (auto simp: complete_def complete_turn_def list_all_iff)
    then have "ts = s_turns s" "evs = s_events s" using T E by simp_all
    then show ?thesis using c D(3) by (simp add: n(5) complete_def)
  qed
  ultimately show ?thesis using E assms(2) by (auto simp: n(5) own_events_def)
qed

lemma saved_find:
  "find_session (saved_tables s tds d) i =
     (if i = s_id s then Some (kept_created d (row_of_session s)) else find_session d i)"
  by (simp add: saved_tables_def Let_def find_upsert_session row_of_session_def)

lemma saved_turns:
  "turns_of (saved_tables s tds d) i =
     (if i = s_id s then turn_rows (s_id s) (s_created s) 0 (s_turns s) else turns_of d i)"
  by (simp add: saved_tables_def Let_def delete_turns_def turns_of_def turn_rows_facts filter_empty_conv)
    (auto intro!: filter_cong)

lemma saved_events:
  "list_all (\<lambda>ev. e_session ev = s_id s) (s_events s) \<Longrightarrow>
     events_of (saved_tables s tds d) i = (if i = s_id s then event_rows 0 (s_events s) else events_of d i)"
  by (simp add: saved_tables_def Let_def delete_events_def events_of_def event_rows_filter filter_empty_conv)
    (auto intro!: filter_cong)

lemma saved_todos:
  "todos_of (saved_tables s tds d) i = (if i = s_id s then todo_rows (s_id s) 0 tds else todos_of d i)"
  by (simp add: saved_tables_def Let_def delete_todos_def todos_of_def todo_rows_facts filter_empty_conv)
    (auto intro!: filter_cong)

lemmas saved_views = saved_find saved_turns saved_events saved_todos

lemma saved_numbered:
  "numbered d i \<Longrightarrow> list_all (\<lambda>ev. e_session ev = s_id s) (s_events s) \<Longrightarrow> numbered (saved_tables s tds d) i"
  by (simp add: numbered_def saved_views turn_rows_facts event_rows_facts todo_rows_facts from_zero_upt)

lemma sq_save_session_cases:
  assumes "sq_save_session s (d, w) = ((e, s'), d', w')"
  obtains (failed) e' where "e = Some e'" "d' = d"
    | (saved) s1 w1 tds where "e = None" "normalize_session s w = (s1, w1)" "d' = saved_tables s' tds d"
        "s' = s1\<lparr>s_turns := s_turns s', s_events := s_events s'\<rparr>" "store_ok d \<longrightarrow> store_ok d'"
        "own_events (s_id s1) (s_events s1) \<longrightarrow> list_all (\<lambda>ev. e_session ev = s_id s1) (s_events s')"
        "complete s1 \<longrightarrow> s' = s1 \<and> tds = s_todos s1"
proof -
  obtain s1 w1 where n: "normalize_session s w = (s1, w1)" by fastforce
  obtain e2 s2 d2 w2 where t: "save_session_tx s1 (d, w1) = ((e2, s2), d2, w2)" by (metis prod.collapse)
  have r: "e = e2" "s' = s2" "d' = (if e2 = None then d2 else d)"
    using assms by (auto simp: sq_save_session_def n t split: if_splits)
  have id: "s_id s1 \<noteq> []"
    using n by (auto simp: normalize_session_def fill_id_def Let_def split: prod.splits if_splits)
  show thesis
  proof (cases e2)
    case None
    from save_tx_done [OF t [unfolded None] id] obtain tds where "d2 = saved_tables s2 tds d"
      "s2 = s1\<lparr>s_turns := s_turns s2, s_events := s_events s2\<rparr>" "store_ok d \<longrightarrow> store_ok d2"
      "own_events (s_id s1) (s_events s1) \<longrightarrow> list_all (\<lambda>ev. e_session ev = s_id s1) (s_events s2)"
      "complete s1 \<longrightarrow> s2 = s1 \<and> tds = s_todos s1" by blast
    moreover have "d' = d2" using r(3) None by simp
    ultimately show thesis
      using r(1,2) None by (intro saved [OF _ n, of tds]) blast+
  next
    case (Some x)
    then show thesis using r by (intro failed) auto
  qed
qed

lemma normalize_session_fields:
  "s_turns (fst (normalize_session s w)) = s_turns s" "s_events (fst (normalize_session s w)) = s_events s"
  "s_todos (fst (normalize_session s w)) = s_todos s" "s_id (fst (normalize_session s w)) \<noteq> []"
  "s_id s \<noteq> [] \<Longrightarrow> s_id (fst (normalize_session s w)) = s_id s"
  by (auto simp: normalize_session_def fill_id_def Let_def split: prod.splits)

lemma normalize_session_complete: "complete s \<Longrightarrow> fst (normalize_session s w) = s"
  by (simp add: normalize_session_def complete_def fill_id_def Let_def split: prod.splits)

subsection \<open>The store as a map from ids to sessions\<close>

definition sessions_in :: "db \<Rightarrow> string \<Rightarrow> session option" where
  "sessions_in d i = (case sq_load_session i d of Inl _ \<Rightarrow> None | Inr s \<Rightarrow> Some s)"

definition session_of :: "session_row \<Rightarrow> turn list \<Rightarrow> event list \<Rightarrow> todo list \<Rightarrow> session" where
  "session_of r ts evs tds =
     \<lparr>s_id = sr_id r, s_root = sr_root r, s_provider = sr_provider r, s_model = sr_model r, s_agent = sr_agent r,
      s_mode = sr_mode r, s_created = sr_created r, s_updated = sr_updated r, s_turns = ts, s_events = evs,
      s_todos = tds, s_summary = sr_summary r, s_last_response = sr_last_response r,
      s_last_items = sr_last_items r, s_metadata = sr_metadata r\<rparr>"

lemma sort_numbered: "from_zero (map f xs) \<Longrightarrow> sort_key f xs = xs"
  by (simp add: sort_key_id_if_sorted from_zero_sorted)

lemma load_numbered:
  assumes "numbered d i"
  shows "load_turns d i = map tw_turn (turns_of d i)" "load_events d i = map ew_event (events_of d i)"
    "load_todos d i = map dw_todo (todos_of d i)"
  using assms
  by (simp_all add: numbered_def load_turns_def load_events_def load_todos_def sort_numbered
      turns_of_def [symmetric] events_of_def [symmetric] todos_of_def [symmetric])

lemma sessions_in_eq:
  assumes "numbered d i"
  shows "sessions_in d i = map_option (\<lambda>r. session_of r (map tw_turn (turns_of d i)) (map ew_event (events_of d i))
    (map dw_todo (todos_of d i))) (find_session d i)"
  using load_numbered [OF assms] find_session_id [of d i]
  by (cases "find_session d i") (simp_all add: sessions_in_def sq_load_session_def session_of_def)

lemma sessions_in_load: "sq_load_session i d = Inr s \<longleftrightarrow> sessions_in d i = Some s"
  by (simp add: sessions_in_def split: sum.splits)

lemma sessions_in_id: "sessions_in d i = Some s \<Longrightarrow> s_id s = i"
  using find_session_id [of d i] by (auto simp: sessions_in_def sq_load_session_def split: option.splits)

lemma sessions_in_has: "sessions_in d i = None \<longleftrightarrow> \<not> has_session d i"
  by (auto simp: sessions_in_def sq_load_session_def has_session_find split: option.splits)

text \<open>A save replaces one session, all of it but the time it was created.\<close>

definition first_created :: "session option \<Rightarrow> session \<Rightarrow> gtime" where
  "first_created old s = (case old of None \<Rightarrow> s_created s | Some x \<Rightarrow> s_created x)"

lemma saved_sessions:
  assumes "\<forall>i. numbered d i" and "list_all (\<lambda>ev. e_session ev = s_id s) (s_events s)"
  shows "sessions_in (saved_tables s tds d) = (sessions_in d)(s_id s \<mapsto>
    s\<lparr>s_created := first_created (sessions_in d (s_id s)) s, s_turns := map (stored_turn (s_created s)) (s_turns s),
      s_todos := tds\<rparr>)"
proof
  fix i
  have n: "numbered (saved_tables s tds d) i" using assms saved_numbered by blast
  have "find_session d (s_id s) = Some r \<Longrightarrow> sessions_in d (s_id s) = Some x \<Longrightarrow> sr_created r = s_created x" for r x
    by (auto simp: sessions_in_def sq_load_session_def)
  then show "sessions_in (saved_tables s tds d) i = ((sessions_in d)(s_id s \<mapsto>
    s\<lparr>s_created := first_created (sessions_in d (s_id s)) s, s_turns := map (stored_turn (s_created s)) (s_turns s),
      s_todos := tds\<rparr>)) i"
    using assms sessions_in_has [of d "s_id s"]
    by (auto simp: sessions_in_eq [OF n] sessions_in_eq [of d] saved_views turn_rows_facts event_rows_facts
        todo_rows_facts session_of_def row_of_session_def kept_created_def first_created_def has_session_find
        split: option.splits)
qed

text \<open>Appending rows and updating one session row.\<close>

definition appended :: "string \<Rightarrow> turn list \<Rightarrow> event list \<Rightarrow> (session_row \<Rightarrow> session_row) \<Rightarrow> db \<Rightarrow> db" where
  "appended i ts evs f d =
     d\<lparr>t_sessions := map (\<lambda>x. if sr_id x = i then f x else x) (t_sessions d),
       t_turns := t_turns d @ turn_rows i 0 (int (length (turns_of d i))) ts,
       t_events := t_events d @ event_rows (int (length (events_of d i))) evs\<rparr>"

lemma appended_sessions:
  assumes "\<forall>j. numbered d j" and "list_all (\<lambda>ev. e_session ev = i) evs" and f: "\<And>x. sr_id x = i \<Longrightarrow> sr_id (f x) = i"
    and "sessions_in d i = Some s0" and "find_session d i = Some r"
  shows "sessions_in (appended i ts evs f d) = (sessions_in d)(i \<mapsto>
      session_of (f r) (s_turns s0 @ map (stored_turn 0) ts) (s_events s0 @ evs) (s_todos s0))"
    and "\<forall>j. numbered (appended i ts evs f d) j"
proof -
  let ?d = "appended i ts evs f d"
  let ?g = "\<lambda>x. if sr_id x = i then f x else x"
  have views: "turns_of ?d j = turns_of d j @ (if j = i then turn_rows i 0 (int (length (turns_of d i))) ts else [])"
    "events_of ?d j = events_of d j @ (if j = i then event_rows (int (length (events_of d i))) evs else [])"
    "todos_of ?d j = todos_of d j" for j
    using assms(2) by (simp_all add: rows_of_defs appended_def turn_rows_facts event_rows_filter)
  have g: "sr_id (?g x) = sr_id x" for x using f by auto
  have find: "find_session ?d j = map_option ?g (find_session d j)" for j
    unfolding find_session_def appended_def by (simp add: find_map_key [where key = sr_id and f = ?g, OF g])
  show num: "\<forall>j. numbered ?d j"
  proof
    fix j
    have "numbered d j" using assms(1) by blast
    then show "numbered ?d j"
      using from_zero_append [of "map tw_ordinal (turns_of d j)" "length ts"]
        from_zero_append [of "map ew_ordinal (events_of d j)" "length evs"]
      by (auto simp: numbered_def views turn_rows_facts event_rows_facts)
  qed
  show "sessions_in ?d = (sessions_in d)(i \<mapsto>
      session_of (f r) (s_turns s0 @ map (stored_turn 0) ts) (s_events s0 @ evs) (s_todos s0))"
  proof
    fix j
    have nj: "numbered ?d j" "numbered d j" using num assms(1) by blast+
    show "sessions_in ?d j = ((sessions_in d)(i \<mapsto>
      session_of (f r) (s_turns s0 @ map (stored_turn 0) ts) (s_events s0 @ evs) (s_todos s0))) j"
    proof (cases "j = i")
      case True
      have "s0 = session_of r (map tw_turn (turns_of d i)) (map ew_event (events_of d i)) (map dw_todo (todos_of d i))"
        using assms(4,5) nj(2) True by (simp add: sessions_in_eq)
      then show ?thesis
        using True assms(5) find_session_id [OF assms(5)]
        by (simp add: sessions_in_eq [OF nj(1) [unfolded True]] find views turn_rows_facts event_rows_facts session_of_def)
    next
      case False
      have "map_option ?g (find_session d j) = find_session d j"
        using False find_session_id [of d j] by (cases "find_session d j") auto
      then show ?thesis using False by (simp add: sessions_in_eq [OF nj(1)] sessions_in_eq [OF nj(2)] find views)
    qed
  qed
qed

lemma append_turn_events_done:
  assumes "append_turn_events_tx t evs s (d, w) = (None, s', d', w')" and "store_good d"
    and "s_id s \<noteq> []" and "own_events (s_id s) evs" and "stored_turn 0 t = t"
  shows "\<exists>evs' s0 r. find_session d (s_id s) = Some r \<and> sessions_in d (s_id s) = Some s0 \<and> s_updated s' = fst (now w) \<and>
    s' = s\<lparr>s_updated := s_updated s'\<rparr> \<and> length evs' = length evs \<and>
    list_all (\<lambda>ev. e_session ev = s_id s) evs' \<and> (list_all complete_event evs \<longrightarrow> evs' = evs) \<and> store_ok d' \<and>
    d' = appended (s_id s) [t] evs' (\<lambda>x. row_of_session (s'\<lparr>s_created := sr_created x\<rparr>)) d"
proof -
  let ?i = "s_id s" and ?n = "next_turn_ordinal d (s_id s)"
  have num: "numbered d ?i" and ok: "store_ok d" using assms(2) by (auto simp: store_good_def)
  obtain tm w1 where tm: "now w = (tm, w1)" by fastforce
  let ?s1 = "s\<lparr>s_updated := tm\<rparr>"
  obtain e1 d1 where t: "insert_turn \<lparr>tw_session = ?i, tw_ordinal = ?n, tw_turn = t\<rparr> d = (e1, d1)" by fastforce
  obtain e2 evs' d2 w2 where ev: "insert_events ?i (next_event_ordinal d1 ?i) evs (d1, w1) = ((e2, evs'), d2, w2)"
    by (metis prod.collapse)
  obtain hit d3 where u: "update_session (row_of_session ?s1) d2 = (hit, d3)" by fastforce
  from assms(1) t ev u have r: "e1 = None" "e2 = None" hit "s' = ?s1" "d3 = d'"
    by (auto simp: append_turn_events_tx_def tm Let_def split: option.splits if_splits)
  have d1: "d1 = d\<lparr>t_turns := t_turns d @ [\<lparr>tw_session = ?i, tw_ordinal = ?n, tw_turn = t\<rparr>]\<rparr>"
    using insert_turn_None t r(1) by blast
  have ok1: "store_ok d1" using insert_turn_ok [OF ok] t by (metis snd_conv)
  note E = insert_events_rows [OF ev [unfolded r(2)]]
  have "next_event_ordinal d1 ?i = next_event_ordinal d ?i" by (simp add: d1 next_event_ordinal_def)
  then have d2: "d2 = d1\<lparr>t_events := t_events d1 @ event_rows (int (length (events_of d ?i))) evs'\<rparr>"
    using E next_event_numbered [OF num] by simp
  have "has_session d2 ?i" using u r(3) by (simp add: update_session_def row_of_session_def)
  then have "has_session d ?i" by (simp add: d2 d1)
  then obtain row s0 where row: "find_session d ?i = Some row" and s0: "sessions_in d ?i = Some s0"
    using sessions_in_has [of d ?i] by (auto simp: has_session_find)
  have "store_ok d'" using update_session_ok [of d2] E ok1 u r(5) by (metis snd_conv)
  moreover have "d' = appended ?i [t] evs' (\<lambda>x. row_of_session (s'\<lparr>s_created := sr_created x\<rparr>)) d"
    using u r(4,5) next_turn_numbered [OF num] assms(5)
    by (auto simp: update_session_def appended_def d2 d1 row_of_session_def)
  ultimately show ?thesis
    using E assms(3,4) row s0 r(4) by (intro exI [of _ evs'] exI [of _ s0] exI [of _ row]) (simp add: tm own_events_def)
qed

lemma fill_turn_stored: "stored_turn 0 (fst (fill_turn t w)) = fst (fill_turn t w)"
  by (auto simp: fill_turn_def fill_id_def fill_time_def stored_turn_def Let_def split: prod.splits)

definition same_turn :: "turn \<Rightarrow> turn \<Rightarrow> bool" where
  "same_turn t t' \<longleftrightarrow> tn_prompt t' = tn_prompt t \<and> tn_request t' = tn_request t \<and> tn_response t' = tn_response t \<and>
     tn_error t' = tn_error t \<and> tn_id t' \<noteq> [] \<and> (tn_id t \<noteq> [] \<longrightarrow> tn_id t' = tn_id t)"

lemma fill_turn_same: "same_turn t (fst (fill_turn t w))"
  by (auto simp: fill_turn_def fill_id_def fill_time_def same_turn_def Let_def split: prod.splits)

text \<open>A retried transaction either ran once on the tables it was given, or left them alone.\<close>

lemma retry_world_tx:
  assumes "\<And>w e x d' w'. fn (d, w) = (Some e, x, d', w') \<Longrightarrow> d' = d"
    and "retry_sequence c fn dflt (d, w) = ((e, x), d', w')"
  shows "(\<exists>w0. fn (d, w0) = (e, x, d', w')) \<or> (d' = d \<and> (\<exists>m. e = Some (CtxErr m)))"
proof -
  have "(\<exists>s0. fst s0 = d \<and> fn s0 = (e, x, (d', w'))) \<or> (fst (d', w') = d \<and> (\<exists>m. e = Some (CtxErr m)))"
  proof (rule retry_sequence_attempt [where P = "\<lambda>s. fst s = d", OF _ _ assms(2)])
    fix s :: "_ \<times> _" and e x s'
    assume "fst s = d" "fn s = (e, x, s')" "is_unique_error e"
    then show "fst s' = d" using assms(1) by (cases s; cases s') (auto elim!: is_unique_errorE)
  qed simp
  then show ?thesis by force
qed

lemma append_turn_events_failed: "append_turn_events_tx t evs s (d, w) = (Some e, s', d', w') \<Longrightarrow> d' = d"
  by (auto simp: append_turn_events_tx_def Let_def split: prod.splits option.splits if_splits)

text \<open>\<open>AppendTurnWithEvents\<close> seen through \<open>LoadSession\<close>.\<close>

lemma sq_append_turn_with_events_done:
  assumes "sq_append_turn_with_events c s t evs (d, w) = ((None, s'), d', w')" and "store_good d"
    and "own_events (s_id s) evs"
  shows "\<exists>s0 t' evs'. sessions_in d (s_id s') = Some s0 \<and> same_turn t t' \<and> length evs' = length evs \<and>
    (list_all complete_event evs \<longrightarrow> evs' = evs) \<and> (s_id s \<noteq> [] \<longrightarrow> s_id s' = s_id s) \<and> store_good d' \<and>
    sessions_in d' = (sessions_in d)(s_id s' \<mapsto> s'\<lparr>s_created := s_created s0, s_turns := s_turns s0 @ [t'],
      s_events := s_events s0 @ evs', s_todos := s_todos s0\<rparr>)"
proof -
  obtain s1 w1 where s1: "normalize_session s w = (s1, w1)" by fastforce
  obtain t1 w2 where t1: "fill_turn t w1 = (t1, w2)" by fastforce
  let ?tx = "append_turn_events_tx t1 evs s1"
  have r: "retry_sequence c ?tx s1 (d, w2) = ((None, s'), d', w')"
    using assms(1) by (simp add: sq_append_turn_with_events_def s1 t1)
  have "(\<exists>w0. ?tx (d, w0) = (None, s', d', w')) \<or> (d' = d \<and> (\<exists>m. (None :: store_error option) = Some (CtxErr m)))"
    by (rule retry_world_tx [OF _ r]) (rule append_turn_events_failed)
  then obtain w0 where tx: "?tx (d, w0) = (None, s', d', w')" by blast
  have id: "s_id s1 \<noteq> []" "s_id s \<noteq> [] \<Longrightarrow> s_id s1 = s_id s" using normalize_session_fields(4,5) [of s w] s1 by auto
  have own: "own_events (s_id s1) evs" using assms(3) id by (cases "s_id s = []") (auto simp: own_events_def list_all_iff)
  obtain evs' s0 r where a: "find_session d (s_id s1) = Some r" "sessions_in d (s_id s1) = Some s0"
    "s' = s1\<lparr>s_updated := s_updated s'\<rparr>" "length evs' = length evs" "list_all (\<lambda>ev. e_session ev = s_id s1) evs'"
    "list_all complete_event evs \<longrightarrow> evs' = evs" "store_ok d'"
    "d' = appended (s_id s1) [t1] evs' (\<lambda>x. row_of_session (s'\<lparr>s_created := sr_created x\<rparr>)) d"
    using append_turn_events_done [OF tx assms(2) id(1) own] fill_turn_stored [of t w1] t1 by auto
  have sid: "s_id s' = s_id s1" using a(3) by (metis session.select_convs(1) session.surjective session.update_convs(8))
  have "s_created s0 = sr_created r" using a(1,2) by (auto simp: sessions_in_def sq_load_session_def)
  then have "session_of (row_of_session (s'\<lparr>s_created := sr_created r\<rparr>)) (s_turns s0 @ [t1]) (s_events s0 @ evs') (s_todos s0) =
    s'\<lparr>s_created := s_created s0, s_turns := s_turns s0 @ [t1], s_events := s_events s0 @ evs', s_todos := s_todos s0\<rparr>"
    by (simp add: session_of_def row_of_session_def)
  moreover have "\<forall>j. numbered d j" using assms(2) by (simp add: store_good_def)
  moreover have "stored_turn 0 t1 = t1" using fill_turn_stored [of t w1] t1 by simp
  ultimately have "sessions_in d' = (sessions_in d)(s_id s1 \<mapsto> s'\<lparr>s_created := s_created s0, s_turns := s_turns s0 @ [t1],
      s_events := s_events s0 @ evs', s_todos := s_todos s0\<rparr>)" and "\<forall>j. numbered d' j"
    unfolding a(8) using appended_sessions [OF _ a(5) _ a(2,1), of "\<lambda>x. row_of_session (s'\<lparr>s_created := sr_created x\<rparr>)" "[t1]"]
    by (simp_all add: row_of_session_def sid)
  moreover have "same_turn t t1" using fill_turn_same [of t w1] t1 by simp
  ultimately show ?thesis
    using a id by (intro exI [of _ s0] exI [of _ t1] exI [of _ evs']) (simp add: sid store_good_def)
qed

lemma sq_append_turn_with_events_failed:
  assumes "sq_append_turn_with_events c s t evs (d, w) = ((Some e, s'), d', w')"
  shows "d' = d"
proof -
  obtain s1 w1 where s1: "normalize_session s w = (s1, w1)" by fastforce
  obtain t1 w2 where t1: "fill_turn t w1 = (t1, w2)" by fastforce
  have r: "retry_sequence c (append_turn_events_tx t1 evs s1) s1 (d, w2) = ((Some e, s'), d', w')"
    using assms by (simp add: sq_append_turn_with_events_def s1 t1)
  have "(\<exists>w0. append_turn_events_tx t1 evs s1 (d, w0) = (Some e, s', d', w')) \<or> (d' = d \<and> (\<exists>m. Some e = Some (CtxErr m)))"
    by (rule retry_world_tx [OF _ r]) (rule append_turn_events_failed)
  then show ?thesis using append_turn_events_failed by blast
qed

end
