(* ===== verification/Session_History.thy ===== *)
theory Session_History
  imports Session_Laws
begin

section \<open>Package session: histories of the store\<close>

text \<open>
  What holds after any sequence of the store's operations, and the properties of saving, appending,
  listing and pruning that rest on it.
\<close>

subsection \<open>Every operation keeps the store good\<close>

lemma store_good_update:
  assumes "store_good d" and "store_ok d'"
    and "t_turns d' = t_turns d" "t_events d' = t_events d" "t_todos d' = t_todos d"
  shows "store_good d'"
  using assms by (simp add: store_good_def numbered_def rows_of_defs)

lemma has_session_tables: "t_sessions d' = t_sessions d \<Longrightarrow> has_session d' i = has_session d i"
  by (simp add: has_session_def)

lemma sq_save_session_good:
  assumes "sq_save_session s (d, w) = ((e, s'), d', w')" and "store_good d" and "own_events (s_id s) (s_events s)"
  shows "store_good d'"
  using assms(1)
proof (cases rule: sq_save_session_cases)
  case (saved s1 w1 tds)
  have n: "s_events s1 = s_events s" "s_id s1 \<noteq> []" "s_id s \<noteq> [] \<Longrightarrow> s_id s1 = s_id s"
    using normalize_session_fields(2,4,5) [of s w] saved(2) by auto
  then have "own_events (s_id s1) (s_events s1)"
    using assms(3) by (cases "s_id s = []") (auto simp: own_events_def list_all_iff)
  moreover have "s_id s' = s_id s1" by (subst saved(4)) simp
  ultimately have "list_all (\<lambda>ev. e_session ev = s_id s') (s_events s')" using saved(6) by simp
  then show ?thesis
    using assms(2) saved(5) saved_numbered by (simp add: store_good_def saved(3))
qed (simp add: assms(2))

lemma sq_create_session_good:
  assumes "sq_create_session s (d, w) = ((e, s'), d', w')" and "store_good d" and "own_events (s_id s) (s_events s)"
  shows "store_good d'"
proof -
  obtain i w1 where i: "fill_id ''sess'' (s_id s) w = (i, w1)" by fastforce
  show ?thesis
  proof (cases "has_session d i")
    case True
    then show ?thesis using assms(1,2) by (simp add: sq_create_session_def i Let_def)
  next
    case False
    then have save: "sq_save_session (s\<lparr>s_id := i\<rparr>) (d, w1) = ((e, s'), d', w')"
      using assms(1) by (simp add: sq_create_session_def i Let_def)
    have "own_events (s_id (s\<lparr>s_id := i\<rparr>)) (s_events (s\<lparr>s_id := i\<rparr>))"
      using assms(3) i by (cases "s_id s = []") (auto simp: own_events_def list_all_iff fill_id_def)
    from sq_save_session_good [OF save assms(2) this] show ?thesis .
  qed
qed

lemma sq_append_turn_with_events_good:
  assumes "sq_append_turn_with_events c s t evs (d, w) = ((e, s'), d', w')" and "store_good d" and "own_events (s_id s) evs"
  shows "store_good d'"
proof (cases e)
  case None
  from sq_append_turn_with_events_done [OF assms(1) [unfolded None] assms(2,3)] show ?thesis by (elim exE conjE)
next
  case (Some x)
  from sq_append_turn_with_events_failed [OF assms(1) [unfolded Some]] assms(2) show ?thesis by simp
qed

lemma update_session_good: "store_good d \<Longrightarrow> store_good (snd (update_session r d))"
  by (rule store_good_update [of d]) (simp_all add: store_good_def update_session_ok, simp_all add: update_session_def)

lemma touch_session_good: "store_good d \<Longrightarrow> store_good (snd (touch_session i t d))"
  by (rule store_good_update [of d]) (simp_all add: store_good_def touch_session_ok, simp_all add: touch_session_def)

lemma sq_save_session_state_good:
  assumes "sq_save_session_state s (d, w) = (x, d', w')" and "store_good d"
  shows "store_good d'"
proof -
  obtain s1 w1 where s1: "normalize_session s w = (s1, w1)" by fastforce
  obtain t w2 where t: "now w1 = (t, w2)" by fastforce
  have "d' = d \<or> d' = snd (update_session (row_of_session (s1\<lparr>s_updated := t\<rparr>)) d)"
    using assms(1) by (simp add: sq_save_session_state_def s1 t Let_def split: prod.splits if_splits)
  then show ?thesis using assms(2) update_session_good by auto
qed

lemma insert_turn_session: "insert_turn r d = (None, d') \<Longrightarrow> has_session d (tw_session r)"
  by (simp add: insert_turn_def split: if_splits)

lemma insert_event_session: "insert_event r d = (None, d') \<Longrightarrow> has_session d (e_session (ew_event r))"
  by (simp add: insert_event_def split: if_splits)

text \<open>\<open>AppendTurn\<close> and \<open>AppendEvent\<close> append one row and touch the session.\<close>

lemma append_turn_done:
  assumes "append_turn_tx sid t (d, w) = (None, u, d', w')" and "store_good d" and "stored_turn 0 t = t"
  shows "has_session d sid \<and> store_ok d' \<and> d' = appended sid [t] [] (\<lambda>x. x\<lparr>sr_updated := fst (now w)\<rparr>) d"
proof -
  let ?r = "\<lparr>tw_session = sid, tw_ordinal = next_turn_ordinal d sid, tw_turn = t\<rparr>"
  obtain d1 where d1: "insert_turn ?r d = (None, d1)" and d': "d' = snd (touch_session sid (fst (now w)) d1)"
    using assms(1) by (auto simp: append_turn_tx_def Let_def split: option.splits prod.splits)
  have "store_ok d1" using insert_turn_ok [of d ?r] assms(2) d1 by (simp add: store_good_def)
  moreover have "next_turn_ordinal d sid = int (length (turns_of d sid))"
    using assms(2) by (simp add: store_good_def next_turn_numbered)
  ultimately show ?thesis
    using insert_turn_session [OF d1] assms(3) touch_session_ok
    by (simp add: d' insert_turn_None [OF d1]) (simp add: touch_session_def appended_def)
qed

lemma append_event_done:
  assumes "append_event_tx ev (d, w) = (None, u, d', w')" and "store_good d"
  shows "has_session d (e_session ev) \<and> store_ok d' \<and>
    d' = appended (e_session ev) [] [ev] (\<lambda>x. x\<lparr>sr_updated := fst (now w)\<rparr>) d"
proof -
  let ?r = "\<lparr>ew_ordinal = next_event_ordinal d (e_session ev), ew_event = ev\<rparr>"
  obtain d1 where d1: "insert_event ?r d = (None, d1)" and d': "d' = snd (touch_session (e_session ev) (fst (now w)) d1)"
    using assms(1) by (auto simp: append_event_tx_def Let_def split: option.splits prod.splits)
  have "store_ok d1" using insert_event_ok [of d ?r] assms(2) d1 by (simp add: store_good_def)
  moreover have "next_event_ordinal d (e_session ev) = int (length (events_of d (e_session ev)))"
    using assms(2) by (simp add: store_good_def next_event_numbered)
  ultimately show ?thesis
    using insert_event_session [OF d1] touch_session_ok
    by (simp add: d' insert_event_None [OF d1]) (simp add: touch_session_def appended_def)
qed

lemma append_turn_failed: "append_turn_tx sid t (d, w) = (Some e, u, d', w') \<Longrightarrow> d' = d"
  by (auto simp: append_turn_tx_def Let_def split: option.splits prod.splits)

lemma append_event_failed: "append_event_tx ev (d, w) = (Some e, u, d', w') \<Longrightarrow> d' = d"
  by (auto simp: append_event_tx_def Let_def split: option.splits prod.splits)

lemma sessions_in_row:
  assumes "numbered d i" and "sessions_in d i = Some s0"
  obtains r where "find_session d i = Some r" "s0 = session_of r (s_turns s0) (s_events s0) (s_todos s0)"
    "map dw_todo (todos_of d i) = s_todos s0"
  using assms by (auto simp: sessions_in_eq session_of_def)

lemma appended_touch:
  assumes "store_good d" and "sessions_in d i = Some s0" and "list_all (\<lambda>ev. e_session ev = i) evs"
  shows "sessions_in (appended i ts evs (\<lambda>x. x\<lparr>sr_updated := tm\<rparr>) d) = (sessions_in d)(i \<mapsto>
      s0\<lparr>s_updated := tm, s_turns := s_turns s0 @ map (stored_turn 0) ts, s_events := s_events s0 @ evs\<rparr>)"
    and "\<forall>j. numbered (appended i ts evs (\<lambda>x. x\<lparr>sr_updated := tm\<rparr>) d) j"
proof -
  have num: "\<forall>j. numbered d j" using assms(1) by (simp add: store_good_def)
  then have "numbered d i" by blast
  from this assms(2) obtain r where r: "find_session d i = Some r"
      "s0 = session_of r (s_turns s0) (s_events s0) (s_todos s0)" by (rule sessions_in_row)
  have f: "\<And>x. sr_id x = i \<Longrightarrow> sr_id (x\<lparr>sr_updated := tm\<rparr>) = i" by simp
  have "session_of (r\<lparr>sr_updated := tm\<rparr>) ts' evs' (s_todos s0) = s0\<lparr>s_updated := tm, s_turns := ts', s_events := evs'\<rparr>" for ts' evs'
    by (subst r(2)) (simp add: session_of_def)
  then show "sessions_in (appended i ts evs (\<lambda>x. x\<lparr>sr_updated := tm\<rparr>) d) = (sessions_in d)(i \<mapsto>
      s0\<lparr>s_updated := tm, s_turns := s_turns s0 @ map (stored_turn 0) ts, s_events := s_events s0 @ evs\<rparr>)"
    by (simp add: appended_sessions(1) [OF num assms(3) f assms(2) r(1)])
  show "\<forall>j. numbered (appended i ts evs (\<lambda>x. x\<lparr>sr_updated := tm\<rparr>) d) j"
    by (rule appended_sessions(2) [OF num assms(3) f assms(2) r(1)])
qed

lemma sq_append_turn_done:
  assumes "sq_append_turn c sid t (d, w) = (e, d', w')" and "store_good d"
  shows "(e \<noteq> None \<and> d' = d) \<or> (e = None \<and> store_good d' \<and> (\<exists>s0 t' tm. sessions_in d sid = Some s0 \<and> same_turn t t' \<and>
    sessions_in d' = (sessions_in d)(sid \<mapsto> s0\<lparr>s_updated := tm, s_turns := s_turns s0 @ [t']\<rparr>)))"
proof (cases "trim_space sid = []")
  case False
  obtain t1 w1 where t1: "fill_turn t w = (t1, w1)" by fastforce
  have st: "stored_turn 0 t1 = t1" "same_turn t t1" using fill_turn_stored [of t w] fill_turn_same [of t w] t1 by simp_all
  obtain u where r: "retry_sequence c (append_turn_tx sid t1) () (d, w1) = ((e, u), d', w')"
    using assms(1) False by (auto simp: sq_append_turn_def t1 split: prod.splits)
  have "(\<exists>w0. append_turn_tx sid t1 (d, w0) = (e, u, d', w')) \<or> (d' = d \<and> (\<exists>m. e = Some (CtxErr m)))"
    by (rule retry_world_tx [OF _ r]) (rule append_turn_failed)
  then show ?thesis
  proof (elim disjE exE)
    fix w0 assume tx: "append_turn_tx sid t1 (d, w0) = (e, u, d', w')"
    show ?thesis
    proof (cases e)
      case None
      have a: "has_session d sid" "store_ok d'" "d' = appended sid [t1] [] (\<lambda>x. x\<lparr>sr_updated := fst (now w0)\<rparr>) d"
        using append_turn_done [OF tx [unfolded None] assms(2) st(1)] by blast+
      then obtain s0 where s0: "sessions_in d sid = Some s0" using sessions_in_has [of d sid] by auto
      show ?thesis
        using appended_touch [OF assms(2) s0, of "[]" "[t1]" "fst (now w0)"] None st s0 a(2)
        by (auto simp: a(3) store_good_def)
    next
      case (Some x)
      with tx append_turn_failed show ?thesis by blast
    qed
  qed auto
qed (use assms(1) in \<open>auto simp: sq_append_turn_def\<close>)

lemma sq_append_event_done:
  assumes "sq_append_event c ev (d, w) = (e, d', w')" and "store_good d"
  shows "(e \<noteq> None \<and> d' = d) \<or> (e = None \<and> store_good d' \<and> (\<exists>s0 ev' tm. sessions_in d (e_session ev) = Some s0 \<and>
    ev' = fst (normalize_event (e_session ev) ev w) \<and>
    sessions_in d' = (sessions_in d)(e_session ev \<mapsto> s0\<lparr>s_updated := tm, s_events := s_events s0 @ [ev']\<rparr>)))"
proof -
  obtain ev1 w1 where ev1: "normalize_event (e_session ev) ev w = (ev1, w1)" by fastforce
  have sid: "e_session ev1 = e_session ev" using ev1 by (auto simp: normalize_event_def Let_def split: prod.splits)
  obtain u where r: "retry_sequence c (append_event_tx ev1) () (d, w1) = ((e, u), d', w')"
    using assms(1) by (auto simp: sq_append_event_def ev1 split: prod.splits)
  have "(\<exists>w0. append_event_tx ev1 (d, w0) = (e, u, d', w')) \<or> (d' = d \<and> (\<exists>m. e = Some (CtxErr m)))"
    by (rule retry_world_tx [OF _ r]) (rule append_event_failed)
  then show ?thesis
  proof (elim disjE exE)
    fix w0 assume tx: "append_event_tx ev1 (d, w0) = (e, u, d', w')"
    show ?thesis
    proof (cases e)
      case None
      have a: "has_session d (e_session ev)" "store_ok d'"
          "d' = appended (e_session ev) [] [ev1] (\<lambda>x. x\<lparr>sr_updated := fst (now w0)\<rparr>) d"
        using append_event_done [OF tx [unfolded None] assms(2)] unfolding sid by blast+
      then obtain s0 where s0: "sessions_in d (e_session ev) = Some s0" using sessions_in_has [of d "e_session ev"] by auto
      show ?thesis
        using appended_touch [OF assms(2) s0, of "[ev1]" "[]" "fst (now w0)"] None s0 a(2) sid
        by (auto simp: a(3) store_good_def ev1)
    next
      case (Some x)
      with tx append_event_failed show ?thesis by blast
    qed
  qed auto
qed

lemma sq_save_todos_done:
  assumes "sq_save_todos sid tds (d, w) = (e, d', w')" and "store_good d"
  shows "(e \<noteq> None \<and> d' = d) \<or> (e = None \<and> store_good d' \<and> (\<exists>s0 tds' tm. sessions_in d sid = Some s0 \<and>
    length tds' = length tds \<and> (list_all complete_todo tds \<longrightarrow> tds' = tds) \<and>
    sessions_in d' = (sessions_in d)(sid \<mapsto> s0\<lparr>s_updated := tm, s_todos := tds'\<rparr>)))"
proof -
  obtain t w1 where t: "now w = (t, w1)" by fastforce
  let ?d1 = "snd (touch_session sid t d)"
  obtain e1 d2 w2 where r: "insert_todos sid 0 tds (delete_todos sid ?d1, w1) = (e1, d2, w2)" by (metis prod.collapse)
  show ?thesis
  proof (cases "has_session d sid \<and> e1 = None")
    case False
    then show ?thesis
      using assms(1) r by (auto simp: sq_save_todos_def t touch_session_def replace_todos_def Let_def split: if_splits)
  next
    case True
    then have e: "e = None" "d' = d2"
      using assms(1) r by (auto simp: sq_save_todos_def t touch_session_def replace_todos_def Let_def split: if_splits)
    from insert_todos_rows [OF r [unfolded conjunct2 [OF True]]] obtain tds' where D:
      "d2 = (delete_todos sid ?d1)\<lparr>t_todos := t_todos (delete_todos sid ?d1) @ todo_rows sid 0 tds'\<rparr>"
      "length tds' = length tds" "store_ok (delete_todos sid ?d1) \<longrightarrow> store_ok d2" "list_all complete_todo tds \<longrightarrow> tds' = tds"
      by blast
    have views: "turns_of d2 j = turns_of d j" "events_of d2 j = events_of d j"
      "todos_of d2 j = (if j = sid then todo_rows sid 0 tds' else todos_of d j)"
      "find_session d2 j = find_session ?d1 j" for j
      unfolding D(1) by (auto simp: rows_of_defs touch_session_def delete_todos_def todo_rows_facts filter_empty_conv
          find_session_def intro!: filter_cong)
    have num: "numbered d j" "numbered d2 j" for j
      using assms(2) by (auto simp: store_good_def numbered_def views todo_rows_facts from_zero_upt)
    obtain s0 where s0: "sessions_in d sid = Some s0" using True sessions_in_has [of d sid] by auto
    from num(1) s0 obtain r where r: "find_session d sid = Some r"
      "s0 = session_of r (s_turns s0) (s_events s0) (s_todos s0)" by (rule sessions_in_row)
    have "sessions_in d2 = (sessions_in d)(sid \<mapsto> s0\<lparr>s_updated := t, s_todos := tds'\<rparr>)"
    proof
      fix j
      show "sessions_in d2 j = ((sessions_in d)(sid \<mapsto> s0\<lparr>s_updated := t, s_todos := tds'\<rparr>)) j"
        using s0 r(1)
        by (auto simp: sessions_in_eq [OF num(2)] sessions_in_eq [OF num(1)] views find_touch_session session_of_def
            todo_rows_facts)
    qed
    moreover have "store_good d2"
      using D(3) assms(2) num(2) delete_ok(3) touch_session_ok by (auto simp: store_good_def)
    ultimately show ?thesis using s0 D(2,4) e by blast
  qed
qed

subsection \<open>Reachable stores\<close>

text \<open>The tables that are no part of a session tree.\<close>

lemma same_sessions_ok:
  assumes "store_ok d" and "t_sessions d' = t_sessions d" "t_turns d' = t_turns d" "t_events d' = t_events d"
    "t_todos d' = t_todos d" "t_runs d' = t_runs d" "t_run_events d' = t_run_events d"
    and "distinct (map cp_id (t_checkpoints d'))" "\<forall>c \<in> set (t_checkpoints d'). has_session d (cp_session c)"
    and "distinct (map a_id (t_artifacts d'))" "\<forall>a \<in> set (t_artifacts d'). has_session d (a_session a)"
    and "distinct (map (\<lambda>r. (rs_kind r, rs_id r)) (t_resources d'))"
  shows "store_ok d'"
  using assms has_session_cong [OF assms(2)]
  by (simp add: store_ok_def session_tables_ok_def run_tables_ok_def list_all_iff)

lemma store_ok_others:
  assumes "store_ok d"
  shows "distinct (map cp_id (t_checkpoints d))" "\<forall>c \<in> set (t_checkpoints d). has_session d (cp_session c)"
    "distinct (map a_id (t_artifacts d))" "\<forall>a \<in> set (t_artifacts d). has_session d (a_session a)"
    "distinct (map (\<lambda>r. (rs_kind r, rs_id r)) (t_resources d))"
  using assms by (simp_all add: store_ok_def session_tables_ok_def list_all_iff)

text \<open>Inserting a row or replacing the one with its key keeps the keys apart.\<close>

definition upsert_row :: "('a \<Rightarrow> bool) \<Rightarrow> ('a \<Rightarrow> 'a) \<Rightarrow> 'a \<Rightarrow> 'a list \<Rightarrow> 'a list" where
  "upsert_row P f r xs = (if list_ex P xs then map (\<lambda>x. if P x then f x else x) xs else xs @ [r])"

lemma distinct_upsert_row:
  assumes "distinct (map k xs)" and "\<And>x. P x \<longleftrightarrow> k x = k r" and "\<And>x. P x \<Longrightarrow> k (f x) = k r"
  shows "distinct (map k (upsert_row P f r xs))"
proof (cases "list_ex P xs")
  case True
  have "map k (map (\<lambda>x. if P x then f x else x) xs) = map k xs" using assms(2,3) by auto
  then show ?thesis using assms(1) True by (simp add: upsert_row_def del: map_map)
next
  case False
  then show ?thesis using assms(1,2) by (auto simp: upsert_row_def list_ex_iff)
qed

lemma set_upsert_row:
  "(\<And>x. x \<in> set xs \<Longrightarrow> Q x) \<Longrightarrow> Q r \<Longrightarrow> (\<And>x. x \<in> set xs \<Longrightarrow> P x \<Longrightarrow> Q (f x)) \<Longrightarrow> \<forall>x \<in> set (upsert_row P f r xs). Q x"
  by (auto simp: upsert_row_def)

lemma sq_save_checkpoint_good:
  assumes "sq_save_checkpoint c (d, w) = (e, d', w')" and "store_good d"
  shows "store_good d'"
proof -
  obtain c1 w1 where c1: "normalize_checkpoint c w = (c1, w1)" by fastforce
  let ?P = "\<lambda>x. cp_id x = cp_id c1" and ?f = "\<lambda>x. c1\<lparr>cp_session := cp_session x\<rparr>"
  have ok: "store_ok d" using assms(2) by (simp add: store_good_def)
  note others = store_ok_others [OF ok]
  consider "d' = d" | "has_session d (cp_session c1)" "d' = d\<lparr>t_checkpoints := upsert_row ?P ?f c1 (t_checkpoints d)\<rparr>"
    using assms(1) by (auto simp: sq_save_checkpoint_def c1 upsert_row_def split: if_splits)
  then show ?thesis
  proof cases
    case 2
    have "distinct (map cp_id (upsert_row ?P ?f c1 (t_checkpoints d)))"
      by (rule distinct_upsert_row [OF others(1)]) simp_all
    moreover have "\<forall>x \<in> set (upsert_row ?P ?f c1 (t_checkpoints d)). has_session d (cp_session x)"
      using others(2) 2(1) by (intro set_upsert_row) auto
    ultimately show ?thesis
      using others unfolding 2(2) by (intro store_good_update [OF assms(2)] same_sessions_ok [OF ok]) simp_all
  qed (simp add: assms(2))
qed

lemma sq_save_artifact_good:
  assumes "sq_save_artifact a (d, w) = (x, d', w')" and "store_good d"
  shows "store_good d'"
proof -
  obtain a1 w1 where a1: "normalize_artifact a w = (a1, w1)" by fastforce
  let ?r = "a1\<lparr>a_content := (if a_content a1 = ''null'' then [] else a_content a1)\<rparr>"
  let ?P = "\<lambda>x. a_id x = a_id a1" and ?f = "\<lambda>x. ?r\<lparr>a_created := a_created x\<rparr>"
  have ok: "store_ok d" using assms(2) by (simp add: store_good_def)
  note others = store_ok_others [OF ok]
  consider "d' = d" | "has_session d (a_session a1)" "d' = d\<lparr>t_artifacts := upsert_row ?P ?f ?r (t_artifacts d)\<rparr>"
    using assms(1) by (auto simp: sq_save_artifact_def a1 upsert_row_def Let_def split: if_splits)
  then show ?thesis
  proof cases
    case 2
    have "distinct (map a_id (upsert_row ?P ?f ?r (t_artifacts d)))"
      by (rule distinct_upsert_row [OF others(3)]) simp_all
    moreover have "\<forall>x \<in> set (upsert_row ?P ?f ?r (t_artifacts d)). has_session d (a_session x)"
      using others(4) 2(1) by (intro set_upsert_row) auto
    ultimately show ?thesis
      using others unfolding 2(2) by (intro store_good_update [OF assms(2)] same_sessions_ok [OF ok]) simp_all
  qed (simp add: assms(2))
qed

lemma sq_save_resource_good:
  assumes "sq_save_resource r (d, w) = (x, d', w')" and "store_good d"
  shows "store_good d'"
proof -
  obtain r1 w1 where r1: "normalize_resource r w = (r1, w1)" by fastforce
  let ?P = "\<lambda>x. same_resource x r1" and ?f = "\<lambda>x. r1\<lparr>rs_created := rs_created x\<rparr>"
  have ok: "store_ok d" using assms(2) by (simp add: store_good_def)
  note others = store_ok_others [OF ok]
  have d': "d' = d\<lparr>t_resources := upsert_row ?P ?f r1 (t_resources d)\<rparr>"
    using assms(1) by (auto simp: sq_save_resource_def r1 upsert_row_def Let_def split: if_splits)
  have "distinct (map (\<lambda>r. (rs_kind r, rs_id r)) (upsert_row ?P ?f r1 (t_resources d)))"
    by (rule distinct_upsert_row [OF others(5)]) (simp_all add: same_resource_def)
  then show ?thesis
    using others unfolding d' by (intro store_good_update [OF assms(2)] same_sessions_ok [OF ok]) simp_all
qed

lemma sq_deletes_good:
  assumes "store_good d"
  shows "store_good (snd (sq_delete_artifact i d))" "store_good (snd (sq_prune_artifacts i n d))"
    "store_good (snd (sq_delete_resource k i d))"
proof -
  have ok: "store_ok d" using assms by (simp add: store_good_def)
  note others = store_ok_others [OF ok]
  show "store_good (snd (sq_delete_artifact i d))" "store_good (snd (sq_prune_artifacts i n d))"
    "store_good (snd (sq_delete_resource k i d))"
    using others assms
    by (auto simp: sq_delete_artifact_def sq_prune_artifacts_def sq_delete_resource_def Let_def distinct_map_filter
        intro!: store_good_update [OF assms] same_sessions_ok [OF ok])
qed

text \<open>The run tables change on their own.\<close>

definition runs_only :: "db \<Rightarrow> db \<Rightarrow> bool" where
  "runs_only d d' \<longleftrightarrow> t_sessions d' = t_sessions d \<and> t_turns d' = t_turns d \<and> t_events d' = t_events d \<and>
     t_todos d' = t_todos d \<and> t_checkpoints d' = t_checkpoints d \<and> t_artifacts d' = t_artifacts d \<and>
     t_resources d' = t_resources d"

lemma runs_only_trans: "runs_only d d1 \<Longrightarrow> runs_only d1 d2 \<Longrightarrow> runs_only d d2"
  by (simp add: runs_only_def)

lemma save_run_row_only: "save_run_row r d = (e, d') \<Longrightarrow> runs_only d d'"
  by (auto simp: save_run_row_def runs_only_def split: if_splits)

lemma append_run_event_row_only: "append_run_event_row ev d = (e, ev', d') \<Longrightarrow> runs_only d d'"
  by (auto simp: append_run_event_row_def runs_only_def Let_def split: if_splits)

lemma runs_only_refl [simp]: "runs_only d d"
  by (simp add: runs_only_def)

lemma run_reach_frame:
  assumes "run_reach d0 d"
  shows "runs_only d0 d \<and> (run_tables_ok d0 \<longrightarrow> run_tables_ok d)"
  using assms
proof (induction rule: run_reach.induct)
  case (reach_save d c r w x d' w')
  obtain r1 w1 where n: "normalize_run r w = (r1, w1)" by fastforce
  obtain e d1 where s: "save_run_row r1 d = (e, d1)" by fastforce
  have "d' = d1" using reach_save.hyps(2) by (simp add: sq_save_run_def n s)
  with reach_save.IH save_run_row_only [OF s] save_run_row_ok [OF _ s] show ?case by (blast intro: runs_only_trans)
next
  case (reach_save_event d ev c r w y d' w')
  obtain e r' ev' where y: "y = (e, r', ev')" by (metis prod_cases3)
  have "runs_only d d'"
    using reach_save_event.hyps(3) unfolding y
    by (cases rule: sq_save_run_with_event_cases)
      (auto intro: runs_only_trans dest: save_run_row_only append_run_event_row_only)
  with reach_save_event.IH sq_save_run_with_event_ok [OF _ reach_save_event.hyps(3)] show ?case
    by (blast intro: runs_only_trans)
next
  case (reach_claim d ev c r w z d' w')
  obtain e r' ev' b where z: "z = (e, r', ev', b)" by (metis prod_cases4)
  have "runs_only d d'"
    using reach_claim.hyps(3) unfolding z
    by (cases rule: sq_claim_cases) (auto intro: runs_only_trans dest: save_run_row_only append_run_event_row_only)
  with reach_claim.IH sq_claim_ok [OF _ reach_claim.hyps(3)] show ?case by (blast intro: runs_only_trans)
next
  case (reach_append d ev c w u d' w')
  obtain e ev' where u: "u = (e, ev')" by fastforce
  have "runs_only d d'"
    using reach_append.hyps(3) unfolding u
    by (cases rule: sq_append_cases) (auto dest: append_run_event_row_only)
  with reach_append.IH sq_append_ok [OF _ reach_append.hyps(3)] show ?case by (blast intro: runs_only_trans)
qed simp

lemma run_reach_good:
  assumes "run_reach d d'" and "store_good d"
  shows "store_good d'"
proof -
  have t: "t_sessions d' = t_sessions d" "t_turns d' = t_turns d" "t_events d' = t_events d" "t_todos d' = t_todos d"
    "t_checkpoints d' = t_checkpoints d" "t_artifacts d' = t_artifacts d" "t_resources d' = t_resources d"
    and ok: "run_tables_ok d'"
    using run_reach_frame [OF assms(1)] assms(2) by (simp_all add: runs_only_def store_good_def store_ok_def)
  have "session_tables_ok d'"
    using assms(2) has_session_cong [OF t(1)] by (simp add: store_good_def store_ok_def session_tables_ok_def t)
  then show ?thesis using ok t by (intro store_good_update [OF assms(2)]) (simp_all add: store_ok_def)
qed

text \<open>
  The stores some sequence of operations leads to from an empty database. A session is saved, and events
  are appended with a turn, under its own id only: the callers fill \<open>SessionID\<close> in or leave it empty.
\<close>

inductive store_reach :: "db \<Rightarrow> bool" where
  store_empty: "store_reach empty_db"
| store_save: "store_reach d \<Longrightarrow> own_events (s_id s) (s_events s) \<Longrightarrow>
    sq_save_session s (d, w) = ((e, s'), d', w') \<Longrightarrow> store_reach d'"
| store_create: "store_reach d \<Longrightarrow> own_events (s_id s) (s_events s) \<Longrightarrow>
    sq_create_session s (d, w) = ((e, s'), d', w') \<Longrightarrow> store_reach d'"
| store_append_turn_events: "store_reach d \<Longrightarrow> own_events (s_id s) evs \<Longrightarrow>
    sq_append_turn_with_events c s t evs (d, w) = ((e, s'), d', w') \<Longrightarrow> store_reach d'"
| store_state: "store_reach d \<Longrightarrow> sq_save_session_state s (d, w) = (x, d', w') \<Longrightarrow> store_reach d'"
| store_append_turn: "store_reach d \<Longrightarrow> sq_append_turn c i t (d, w) = (e, d', w') \<Longrightarrow> store_reach d'"
| store_append_event: "store_reach d \<Longrightarrow> sq_append_event c ev (d, w) = (e, d', w') \<Longrightarrow> store_reach d'"
| store_todos: "store_reach d \<Longrightarrow> sq_save_todos i tds (d, w) = (e, d', w') \<Longrightarrow> store_reach d'"
| store_checkpoint: "store_reach d \<Longrightarrow> sq_save_checkpoint cp (d, w) = (e, d', w') \<Longrightarrow> store_reach d'"
| store_artifact: "store_reach d \<Longrightarrow> sq_save_artifact a (d, w) = (y, d', w') \<Longrightarrow> store_reach d'"
| store_delete_artifact: "store_reach d \<Longrightarrow> store_reach (snd (sq_delete_artifact i d))"
| store_prune: "store_reach d \<Longrightarrow> store_reach (snd (sq_prune_artifacts i n d))"
| store_resource: "store_reach d \<Longrightarrow> sq_save_resource r (d, w) = (z, d', w') \<Longrightarrow> store_reach d'"
| store_delete_resource: "store_reach d \<Longrightarrow> store_reach (snd (sq_delete_resource k i d))"
| store_runs: "store_reach d \<Longrightarrow> run_reach d d' \<Longrightarrow> store_reach d'"

lemma store_good_empty: "store_good empty_db"
  by (simp add: store_good_def store_ok_def run_tables_ok_empty session_tables_ok_empty numbered_def)
    (simp add: rows_of_defs empty_db_def)

lemma store_reach_good: "store_reach d \<Longrightarrow> store_good d"
proof (induction rule: store_reach.induct)
  case store_empty
  then show ?case by (rule store_good_empty)
next
  case (store_append_turn d c i t w e d' w')
  then show ?case using sq_append_turn_done by blast
next
  case (store_append_event d c ev w e d' w')
  then show ?case using sq_append_event_done by blast
next
  case (store_todos d i tds w e d' w')
  then show ?case using sq_save_todos_done by blast
qed (blast intro: sq_save_session_good sq_create_session_good sq_append_turn_with_events_good
    sq_save_session_state_good sq_save_checkpoint_good sq_save_artifact_good sq_save_resource_good
    sq_deletes_good run_reach_good)+

subsection \<open>When a save succeeds\<close>

lemma insert_turns_succeeds:
  assumes "has_session d sid" and "list_all (\<lambda>t. tn_id t \<noteq> []) ts" and "distinct (map tn_id ts)"
    and "\<forall>r \<in> set (t_turns d). tn_id (tw_turn r) \<notin> tn_id ` set ts"
    and "\<forall>r \<in> set (t_turns d). tw_session r = sid \<longrightarrow> tw_ordinal r < k"
  shows "insert_turns sid cr k ts (d, w) = ((None, ts), d\<lparr>t_turns := t_turns d @ turn_rows sid cr k ts\<rparr>, w)"
  using assms
proof (induction ts arbitrary: d k)
  case (Cons t ts)
  let ?r = "\<lparr>tw_session = sid, tw_ordinal = k, tw_turn = stored_turn cr t\<rparr>"
  let ?d1 = "d\<lparr>t_turns := t_turns d @ [?r]\<rparr>"
  have i: "fill_id ''turn'' (tn_id t) w = (tn_id t, w)" using Cons.prems(2) by (simp add: fill_id_def)
  have "insert_turn ?r d = (None, ?d1)"
    using Cons.prems(1,4,5) by (force simp: insert_turn_def list_ex_iff)
  moreover have "insert_turns sid cr (k + 1) ts (?d1, w) =
      ((None, ts), ?d1\<lparr>t_turns := t_turns ?d1 @ turn_rows sid cr (k + 1) ts\<rparr>, w)"
  proof (rule Cons.IH)
    have "\<forall>r \<in> set (t_turns d). tw_session r = sid \<longrightarrow> tw_ordinal r < k + 1" using Cons.prems(5) by force
    then show "\<forall>r \<in> set (t_turns ?d1). tw_session r = sid \<longrightarrow> tw_ordinal r < k + 1" by simp
  qed (use Cons.prems in auto)
  ultimately show ?case by (simp add: insert_turns_Cons [OF i])
qed simp

lemma insert_events_succeeds:
  assumes "has_session d sid" and "list_all complete_event evs" and "list_all (\<lambda>ev. e_session ev = sid) evs"
    and "distinct (map e_id evs)" and "\<forall>r \<in> set (t_events d). e_id (ew_event r) \<notin> e_id ` set evs"
    and "\<forall>r \<in> set (t_events d). e_session (ew_event r) = sid \<longrightarrow> ew_ordinal r < k"
  shows "insert_events sid k evs (d, w) = ((None, evs), d\<lparr>t_events := t_events d @ event_rows k evs\<rparr>, w)"
  using assms
proof (induction evs arbitrary: d k)
  case (Cons ev evs)
  let ?r = "\<lparr>ew_ordinal = k, ew_event = ev\<rparr>"
  let ?d1 = "d\<lparr>t_events := t_events d @ [?r]\<rparr>"
  have n: "normalize_event sid ev w = (ev, w)"
    using Cons.prems(2) by (simp add: normalize_event_def complete_event_def fill_id_def fill_time_def)
  have "insert_event ?r d = (None, ?d1)"
    using Cons.prems(1,3,5,6) by (force simp: insert_event_def list_ex_iff)
  moreover have "insert_events sid (k + 1) evs (?d1, w) =
      ((None, evs), ?d1\<lparr>t_events := t_events ?d1 @ event_rows (k + 1) evs\<rparr>, w)"
  proof (rule Cons.IH)
    have "\<forall>r \<in> set (t_events d). e_session (ew_event r) = sid \<longrightarrow> ew_ordinal r < k + 1" using Cons.prems(6) by force
    then show "\<forall>r \<in> set (t_events ?d1). e_session (ew_event r) = sid \<longrightarrow> ew_ordinal r < k + 1" by simp
  qed (use Cons.prems in auto)
  ultimately show ?case by (simp add: n)
qed simp

lemma insert_todos_succeeds:
  assumes "has_session d sid" and "list_all complete_todo tds" and "distinct (map td_id tds)"
    and "\<forall>r \<in> set (t_todos d). dw_session r = sid \<longrightarrow> td_id (dw_todo r) \<notin> td_id ` set tds"
  shows "insert_todos sid k tds (d, w) = (None, d\<lparr>t_todos := t_todos d @ todo_rows sid k tds\<rparr>, w)"
  using assms
proof (induction tds arbitrary: d k)
  case (Cons td tds)
  let ?r = "\<lparr>dw_session = sid, dw_ordinal = k, dw_todo = td\<rparr>"
  let ?d1 = "d\<lparr>t_todos := t_todos d @ [?r]\<rparr>"
  have n: "normalize_todo td w = (td, w)"
    using Cons.prems(2) by (simp add: normalize_todo_def complete_todo_def fill_id_def fill_time_def)
  have "insert_todo ?r d = (None, ?d1)"
    using Cons.prems(1,4) by (force simp: insert_todo_def list_ex_iff)
  moreover have "insert_todos sid (k + 1) tds (?d1, w) = (None, ?d1\<lparr>t_todos := t_todos ?d1 @ todo_rows sid (k + 1) tds\<rparr>, w)"
    using Cons.prems by (intro Cons.IH) auto
  ultimately show ?case by (simp add: n)
qed simp

definition ids_free :: "db \<Rightarrow> session \<Rightarrow> bool" where
  "ids_free d s \<longleftrightarrow> distinct (map tn_id (s_turns s)) \<and> distinct (map e_id (s_events s)) \<and> distinct (map td_id (s_todos s)) \<and>
     list_all (\<lambda>r. tw_session r \<noteq> s_id s \<longrightarrow> tn_id (tw_turn r) \<notin> tn_id ` set (s_turns s)) (t_turns d) \<and>
     list_all (\<lambda>r. e_session (ew_event r) \<noteq> s_id s \<longrightarrow> e_id (ew_event r) \<notin> e_id ` set (s_events s)) (t_events d)"

lemma complete_own: "complete s \<Longrightarrow> own_events (s_id s) (s_events s) \<Longrightarrow> list_all (\<lambda>ev. e_session ev = s_id s) (s_events s)"
  by (auto simp: complete_def own_events_def complete_event_def list_all_iff)

lemma turn_rows_ids: "map (\<lambda>r. tn_id (tw_turn r)) (turn_rows sid cr k ts) = map tn_id ts"
  by (induction ts arbitrary: k) simp_all

lemma event_rows_ids: "map (\<lambda>r. e_id (ew_event r)) (event_rows k evs) = map e_id evs"
  by (induction evs arbitrary: k) simp_all

lemma todo_rows_keys:
  "map (\<lambda>r. (dw_session r, td_id (dw_todo r))) (todo_rows sid k tds) = map (Pair sid) (map td_id tds)"
  by (induction tds arbitrary: k) simp_all

lemma save_succeeds:
  assumes "complete s" and "own_events (s_id s) (s_events s)" and "ids_free d s"
  shows "fst (fst (sq_save_session s (d, w))) = None"
proof -
  let ?i = "s_id s"
  obtain w1 where n: "normalize_session s w = (s, w1)"
    using normalize_session_complete [OF assms(1), of w] by (metis prod.collapse)
  let ?d0 = "upsert_session (row_of_session s) d"
  let ?d1 = "delete_turns ?i ?d0"
  let ?d2 = "?d1\<lparr>t_turns := t_turns ?d1 @ turn_rows ?i (s_created s) 0 (s_turns s)\<rparr>"
  let ?d3 = "delete_events ?i ?d2"
  let ?d4 = "?d3\<lparr>t_events := t_events ?d3 @ event_rows 0 (s_events s)\<rparr>"
  let ?d5 = "delete_todos ?i ?d4"
  have "has_session ?d0 ?i" by (simp add: has_session_find find_upsert_session row_of_session_def)
  then have has: "has_session ?d1 ?i" "has_session ?d3 ?i" "has_session ?d5 ?i"
    by (simp_all add: delete_turns_def delete_events_def delete_todos_def)
  have t: "insert_turns ?i (s_created s) 0 (s_turns s) (?d1, w1) = ((None, s_turns s), ?d2, w1)"
    using assms by (intro insert_turns_succeeds [OF has(1)])
      (auto simp: complete_def complete_turn_def ids_free_def delete_turns_def list_all_iff)
  have ev: "insert_events ?i 0 (s_events s) (?d3, w1) = ((None, s_events s), ?d4, w1)"
    using assms complete_own [OF assms(1,2)] by (intro insert_events_succeeds [OF has(2)])
      (auto simp: complete_def ids_free_def delete_turns_def delete_events_def list_all_iff)
  have td: "insert_todos ?i 0 (s_todos s) (?d5, w1) = (None, ?d5\<lparr>t_todos := t_todos ?d5 @ todo_rows ?i 0 (s_todos s)\<rparr>, w1)"
    using assms by (intro insert_todos_succeeds [OF has(3)])
      (auto simp: complete_def ids_free_def delete_todos_def)
  show ?thesis
    by (simp add: sq_save_session_def n save_session_tx_def replace_todos_def Let_def t ev td)
qed

lemma save_needs_free:
  assumes "complete s" and "own_events (s_id s) (s_events s)" and "store_ok (saved_tables s (s_todos s) d)"
  shows "ids_free d s"
proof -
  let ?d = "saved_tables s (s_todos s) d"
  note tables = saved_tables_def Let_def delete_turns_def delete_events_def delete_todos_def
  have "distinct (map (\<lambda>r. tn_id (tw_turn r)) (t_turns ?d))" "distinct (map (\<lambda>r. e_id (ew_event r)) (t_events ?d))"
    "distinct (map (\<lambda>r. (dw_session r, td_id (dw_todo r))) (t_todos ?d))"
    using assms(3) by (simp_all add: store_ok_def session_tables_ok_def)
  then have a: "distinct (map (\<lambda>r. tn_id (tw_turn r)) (filter (\<lambda>r. tw_session r \<noteq> s_id s) (t_turns d)) @ map tn_id (s_turns s))"
    and b: "distinct (map (\<lambda>r. e_id (ew_event r)) (filter (\<lambda>r. e_session (ew_event r) \<noteq> s_id s) (t_events d)) @ map e_id (s_events s))"
    and c: "distinct (map (Pair (s_id s)) (map td_id (s_todos s)))"
    unfolding tables map_append by (simp_all add: turn_rows_ids event_rows_ids todo_rows_keys del: map_map)
  moreover have "distinct (map td_id (s_todos s))"
    using c distinct_map [of "Pair (s_id s)"] by blast
  ultimately show ?thesis by (auto simp: ids_free_def list_all_iff distinct_map)
qed

lemma load_sessions_in: "sq_load_session i d = (case sessions_in d i of None \<Rightarrow> Inl (not_found i) | Some s \<Rightarrow> Inr s)"
  by (auto simp: sessions_in_def sq_load_session_def split: option.splits)

lemma sq_save_session_complete:
  assumes "sq_save_session s (d, w) = ((None, s'), d', w')" and "store_good d" and "complete s"
    and "own_events (s_id s) (s_events s)"
  shows "s' = s \<and> d' = saved_tables s (s_todos s) d \<and> store_ok d' \<and>
    sessions_in d' = (sessions_in d)(s_id s \<mapsto> s\<lparr>s_created := first_created (sessions_in d (s_id s)) s\<rparr>)"
  using assms(1)
proof (cases rule: sq_save_session_cases)
  case (saved s1 w1 tds)
  have "s1 = s" using normalize_session_complete [OF assms(3), of w] saved(2) by simp
  then have r: "s' = s" "tds = s_todos s" using saved(7) assms(3) by simp_all
  have "map (stored_turn (s_created s)) (s_turns s) = s_turns s"
    using assms(3) by (intro map_idI) (auto simp: complete_def complete_turn_def list_all_iff stored_turn_complete)
  then have "sessions_in d' = (sessions_in d)(s_id s \<mapsto> s\<lparr>s_created := first_created (sessions_in d (s_id s)) s\<rparr>)"
    using saved_sessions [of d s "s_todos s"] complete_own [OF assms(3,4)] assms(2)
    by (simp add: saved(3) r store_good_def)
  then show ?thesis using saved(3,5) assms(2) r by (simp add: store_good_def)
qed simp

subsection \<open>Properties\<close>

text \<open>
  C8: whatever sequence of operations the store executes, every key and foreign-key constraint of its
  tables holds, and the turns, events and todos of each session are numbered 0, 1, 2, ... without gaps
  in the order in which they were stored.
\<close>

theorem session_store_consistent:
  assumes "store_reach d"
  shows "session_tables_ok d \<and> run_tables_ok d \<and>
    (\<forall>i. map tw_ordinal (turns_of d i) = map int [0..<length (turns_of d i)] \<and>
         map ew_ordinal (events_of d i) = map int [0..<length (events_of d i)] \<and>
         map dw_ordinal (todos_of d i) = map int [0..<length (todos_of d i)])"
  using store_reach_good [OF assms] by (simp add: store_good_def store_ok_def numbered_def from_zero_def)


definition demo_turn :: turn where
  "demo_turn = \<lparr>tn_id = ''t1'', tn_prompt = ''hi'', tn_request = zero_request, tn_response = None, tn_started = 5,
     tn_ended = 6, tn_error = []\<rparr>"

definition demo_event :: event where
  "demo_event = \<lparr>e_id = ''e1'', e_session = ''s'', e_turn = ''t1'', e_at = 5, e_type = ''turn.started'', e_tool = [],
     e_payload = [], e_error = []\<rparr>"

definition demo_session :: session where
  "demo_session = \<lparr>s_id = ''s'', s_root = ''/p'', s_provider = ''openai'', s_model = ''m'', s_agent = ''a'', s_mode = ''build'',
     s_created = 4, s_updated = 7, s_turns = [demo_turn], s_events = [demo_event], s_todos = [], s_summary = [],
     s_last_response = [], s_last_items = [], s_metadata = []\<rparr>"

definition demo_store :: db where
  "demo_store = fst (snd (sq_save_session demo_session (empty_db, demo_world)))"

lemma demo_save: "\<exists>w'. sq_save_session demo_session (empty_db, demo_world) = ((None, demo_session), demo_store, w')"
proof -
  have c: "complete demo_session" "own_events (s_id demo_session) (s_events demo_session)" "ids_free empty_db demo_session"
    by (simp_all add: complete_def complete_turn_def complete_event_def own_events_def ids_free_def demo_session_def
        demo_turn_def demo_event_def empty_db_def)
  obtain e s' d' w' where x: "sq_save_session demo_session (empty_db, demo_world) = ((e, s'), d', w')" by (metis prod.collapse)
  have e: "e = None" using save_succeeds [OF c, of demo_world] x by simp
  with sq_save_session_complete [OF x [unfolded e] store_good_empty c(1,2)] x show ?thesis by (simp add: demo_store_def)
qed

lemma demo_store_reach: "store_reach demo_store"
proof -
  obtain w' where "sq_save_session demo_session (empty_db, demo_world) = ((None, demo_session), demo_store, w')"
    using demo_save by blast
  then show ?thesis
    by (rule store_save [OF store_empty, rotated]) (simp add: own_events_def demo_session_def demo_event_def)
qed

theorem session_store_consistent_witness:
  "length (turns_of demo_store ''s'') = 1 \<and> map tw_ordinal (turns_of demo_store ''s'') = [0]"
proof -
  have "length (turns_of demo_store ''s'') = 1" by code_simp
  then show ?thesis using session_store_consistent [OF demo_store_reach] by simp
qed




text \<open>
  each of \<open>AppendTurn\<close>, \<open>AppendEvent\<close> and \<open>SaveTodos\<close> either fails and leaves the
  tables as they were, or, seen through \<open>LoadSession\<close>, changes one existing session in one respect:
  one turn at the end of its turns, one event at the end of its events, or its todos replaced; the time of
  the update is recorded with it, and no other session changes.
\<close>

theorem single_updates_refine:
  assumes "store_reach d" and "sq_append_turn c i t (d, w) = (e1, d1, w1)"
    and "sq_append_event c ev (d, w) = (e2, d2, w2)" and "sq_save_todos i tds (d, w) = (e3, d3, w3)"
  shows "((e1 \<noteq> None \<and> d1 = d) \<or> (e1 = None \<and> (\<exists>s0 t' tm. sessions_in d i = Some s0 \<and> same_turn t t' \<and>
      sessions_in d1 = (sessions_in d)(i \<mapsto> s0\<lparr>s_updated := tm, s_turns := s_turns s0 @ [t']\<rparr>)))) \<and>
    ((e2 \<noteq> None \<and> d2 = d) \<or> (e2 = None \<and> (\<exists>s0 tm. sessions_in d (e_session ev) = Some s0 \<and>
      sessions_in d2 = (sessions_in d)(e_session ev \<mapsto> s0\<lparr>s_updated := tm,
        s_events := s_events s0 @ [fst (normalize_event (e_session ev) ev w)]\<rparr>)))) \<and>
    ((e3 \<noteq> None \<and> d3 = d) \<or> (e3 = None \<and> (\<exists>s0 tds' tm. sessions_in d i = Some s0 \<and> length tds' = length tds \<and>
      (list_all complete_todo tds \<longrightarrow> tds' = tds) \<and>
      sessions_in d3 = (sessions_in d)(i \<mapsto> s0\<lparr>s_updated := tm, s_todos := tds'\<rparr>))))"
  using sq_append_turn_done [OF assms(2)] sq_append_event_done [OF assms(3)] sq_save_todos_done [OF assms(4)]
    store_reach_good [OF assms(1)]
  by meson

theorem single_updates_refine_witness:
  "\<exists>d1 d2 d3 w1 w2 w3. sq_append_turn (\<lambda>_. None) ''s'' (demo_turn\<lparr>tn_id := ''t2''\<rparr>) (demo_store, demo_world) = (None, d1, w1) \<and>
     sq_append_event (\<lambda>_. None) (demo_event\<lparr>e_id := ''e2''\<rparr>) (demo_store, demo_world) = (None, d2, w2) \<and>
     sq_save_todos ''s'' [] (demo_store, demo_world) = (None, d3, w3) \<and> (\<exists>s0. sessions_in demo_store ''s'' = Some s0)"
proof -
  let ?x = "sq_append_turn (\<lambda>_. None) ''s'' (demo_turn\<lparr>tn_id := ''t2''\<rparr>) (demo_store, demo_world)"
  let ?y = "sq_append_event (\<lambda>_. None) (demo_event\<lparr>e_id := ''e2''\<rparr>) (demo_store, demo_world)"
  let ?z = "sq_save_todos ''s'' [] (demo_store, demo_world)"
  obtain e1 d1 w1 e2 d2 w2 e3 d3 w3 where x: "?x = (e1, d1, w1)" and y: "?y = (e2, d2, w2)" and z: "?z = (e3, d3, w3)"
    by (metis prod_cases3)
  have "fst ?x = None \<and> fst ?y = None \<and> fst ?z = None" by code_simp
  then have e: "e1 = None" "e2 = None" "e3 = None" using x y z by simp_all
  show ?thesis using single_updates_refine [OF demo_store_reach x y z] x y z e by auto
qed

subsection \<open>Reading a timeline in windows\<close>

definition numbered_from_one :: "'a list \<Rightarrow> (int \<times> 'a) list" where
  "numbered_from_one xs = zip (map int [1..<Suc (length xs)]) xs"

lemma from_offset_drop:
  assumes "map f xs = map (\<lambda>j. k + int j) [0..<length xs]"
  shows "filter (\<lambda>r. a \<le> f r) xs = drop (nat (a - k)) xs"
  using assms
proof (induction xs arbitrary: k)
  case (Cons x xs)
  have "map f (x # xs) = k # map (\<lambda>j. (k + 1) + int j) [0..<length xs]"
    using Cons.prems by (simp add: upt_conv_Cons map_Suc_upt [symmetric] comp_def del: upt_Suc)
  then have x: "f x = k" and xs: "map f xs = map (\<lambda>j. (k + 1) + int j) [0..<length xs]" by simp_all
  show ?case
  proof (cases "a \<le> k")
    case True
    then show ?thesis using Cons.IH [OF xs] x by simp
  next
    case False
    then have "nat (a - k) = Suc (nat (a - (k + 1)))" by simp
    then show ?thesis using Cons.IH [OF xs] x False by simp
  qed
qed simp

lemma from_zero_window:
  assumes "from_zero (map f xs)"
  shows "map (\<lambda>r. (f r + 1, g r)) (filter (\<lambda>r. max 0 a \<le> f r) xs) = drop (nat a) (numbered_from_one (map g xs))"
proof -
  have f: "map f xs = map int [0..<length xs]" using assms by (simp add: from_zero_def)
  have "map (\<lambda>r. f r + 1) xs = map (\<lambda>x. x + 1) (map f xs)" by simp
  also have "\<dots> = map int [1..<Suc (length xs)]" unfolding f by (simp add: map_Suc_upt [symmetric] comp_def del: upt_Suc)
  finally have n: "map (\<lambda>r. f r + 1) xs = map int [1..<Suc (length xs)]" .
  have z: "zip (map h xs) (map g xs) = map (\<lambda>r. (h r, g r)) xs" for h :: "'a \<Rightarrow> int" by (induction xs) auto
  have "map (\<lambda>r. (f r + 1, g r)) xs = numbered_from_one (map g xs)"
    unfolding numbered_from_one_def length_map n [symmetric] by (simp only: z)
  moreover have "filter (\<lambda>r. max 0 a \<le> f r) xs = drop (nat a) xs"
  proof -
    have "map f xs = map (\<lambda>j. 0 + int j) [0..<length xs]" by (simp add: f)
    moreover have "nat (max 0 a - 0) = nat a" by (simp add: max_def)
    ultimately show ?thesis using from_offset_drop [of f xs 0 "max 0 a"] by metis
  qed
  ultimately show ?thesis by (simp only: drop_map [symmetric])
qed

lemma sorted_filter_ordinal: "from_zero (map f xs) \<Longrightarrow> sort_key f (filter P xs) = filter P xs"
  by (metis sort_numbered filter_sort)

text \<open>
  the timeline of a session in windows. \<open>ListTurns\<close> and \<open>ListEvents\<close> number the turns and
  events that \<open>LoadSession\<close> returns 1, 2, 3, ... and return those after the given number (of the given
  type), in order and up to the limit; a missing session is an error.
\<close>

theorem timeline_windows:
  assumes "store_reach d" and "trim_space i \<noteq> []"
  shows "sq_list_turns \<lparr>tq_session = i, tq_after = a, tq_limit = l\<rparr> d =
      (case sq_load_session i d of Inl e \<Rightarrow> Inl e
       | Inr s \<Rightarrow> Inr (take (nat (default_limit 100 l)) (drop (nat a) (numbered_from_one (s_turns s))))) \<and>
    sq_list_events \<lparr>eq_session = i, eq_after = a, eq_type = ty, eq_limit = l\<rparr> d =
      (case sq_load_session i d of Inl e \<Rightarrow> Inl e
       | Inr s \<Rightarrow>
           (let es = filter (\<lambda>x. ty = [] \<or> e_type (snd x) = ty) (drop (nat a) (numbered_from_one (s_events s)))
            in Inr (if 0 < l then take (nat l) es else es)))"
proof -
  have num: "numbered d i" using store_reach_good [OF assms(1)] by (simp add: store_good_def)
  then have t: "from_zero (map tw_ordinal (turns_of d i))" and v: "from_zero (map ew_ordinal (events_of d i))"
    by (simp_all add: numbered_def)
  have load: "sq_load_session i d = (case find_session d i of None \<Rightarrow> Inl (not_found i)
      | Some r \<Rightarrow> Inr (session_of r (map tw_turn (turns_of d i)) (map ew_event (events_of d i)) (map dw_todo (todos_of d i))))"
    by (simp add: load_sessions_in sessions_in_eq [OF num] split: option.splits)
  have "filter (\<lambda>r. tw_session r = i \<and> max 0 a \<le> tw_ordinal r) (t_turns d) = filter (\<lambda>r. max 0 a \<le> tw_ordinal r) (turns_of d i)"
    by (simp add: turns_of_def conj_commute)
  then have "sq_list_turns \<lparr>tq_session = i, tq_after = a, tq_limit = l\<rparr> d =
      (case sq_load_session i d of Inl e \<Rightarrow> Inl e
       | Inr s \<Rightarrow> Inr (take (nat (default_limit 100 l)) (drop (nat a) (numbered_from_one (s_turns s)))))"
    using assms(2) from_zero_window [OF t, of tw_turn a] sorted_filter_ordinal [OF t]
    by (simp add: sq_list_turns_def require_session_def has_session_find load session_of_def take_map [symmetric] split: option.splits)
  moreover have "sq_list_events \<lparr>eq_session = i, eq_after = a, eq_type = ty, eq_limit = l\<rparr> d =
      (case sq_load_session i d of Inl e \<Rightarrow> Inl e
       | Inr s \<Rightarrow>
           (let es = filter (\<lambda>x. ty = [] \<or> e_type (snd x) = ty) (drop (nat a) (numbered_from_one (s_events s)))
            in Inr (if 0 < l then take (nat l) es else es)))"
  proof -
  let ?P = "\<lambda>r. ty = [] \<or> e_type (ew_event r) = ty"
  have "filter (\<lambda>r. e_session (ew_event r) = i \<and> max 0 a \<le> ew_ordinal r \<and> (ty \<noteq> [] \<longrightarrow> e_type (ew_event r) = ty)) (t_events d) =
      filter ?P (filter (\<lambda>r. max 0 a \<le> ew_ordinal r) (events_of d i))"
    unfolding events_of_def filter_filter by (rule filter_cong) auto
  moreover have "sort_key ew_ordinal (filter ?P (filter (\<lambda>r. max 0 a \<le> ew_ordinal r) (events_of d i))) =
      filter ?P (filter (\<lambda>r. max 0 a \<le> ew_ordinal r) (events_of d i))"
    unfolding filter_filter by (rule sorted_filter_ordinal [OF v])
  moreover have "map (\<lambda>r. (ew_ordinal r + 1, ew_event r)) (filter ?P (filter (\<lambda>r. max 0 a \<le> ew_ordinal r) (events_of d i))) =
      filter (\<lambda>x. ty = [] \<or> e_type (snd x) = ty) (drop (nat a) (numbered_from_one (map ew_event (events_of d i))))"
    unfolding from_zero_window [OF v, of ew_event a, symmetric] filter_map comp_def by simp
  ultimately show ?thesis
    using assms(2)
    by (simp add: sq_list_events_def require_session_def has_session_find load session_of_def take_map [symmetric] Let_def
        split: option.splits)
  qed
  ultimately show ?thesis by blast
qed

theorem timeline_windows_witness:
  "sq_list_turns \<lparr>tq_session = ''s'', tq_after = 0, tq_limit = 0\<rparr> demo_store = Inr [(1, demo_turn)]"
proof -
  have "trim_space ''s'' \<noteq> []" by code_simp
  moreover have "sq_load_session ''s'' demo_store = Inr demo_session" by code_simp
  ultimately show ?thesis
    using timeline_windows [OF demo_store_reach, of "''s''" 0 0]
    by (simp add: numbered_from_one_def demo_session_def default_limit_def)
qed

end
