(* ===== verification/Session_Assets.thy ===== *)
theory Session_Assets
  imports Session_History
begin

section \<open>Package session: checkpoints and artifacts\<close>

text \<open>
  What \<open>PruneArtifacts\<close> leaves, and what \<open>SaveCheckpoint\<close> stores, including the case of an id that
  another session uses.
\<close>

subsection \<open>Pruning\<close>

lemma filter_sort_desc: "filter P (sort_desc f xs) = sort_desc f (filter P xs)"
  by (simp add: sort_desc_def rev_filter [symmetric] filter_sort)

lemma filter_take_distinct:
  assumes "distinct (map k xs)"
  shows "filter (\<lambda>x. k x \<in> set (map k (take n xs))) xs = take n xs"
proof -
  have d: "distinct (map k (take n xs) @ map k (drop n xs))"
    using assms by (simp flip: map_append)
  have "filter (\<lambda>x. k x \<in> set (map k (take n xs))) (take n xs @ drop n xs) = take n xs"
    unfolding filter_append using d by (auto simp: filter_id_conv filter_empty_conv)
  then show ?thesis by simp
qed

lemma newest_distinct:
  assumes "store_reach d"
  shows "distinct (map a_id (newest_artifacts i d))"
proof -
  have "distinct (map a_id (t_artifacts d))"
    using store_reach_good [OF assms] by (simp add: store_good_def store_ok_def session_tables_ok_def)
  then have "distinct (map a_id (filter (\<lambda>a. a_session a = i) (t_artifacts d)))" by (rule distinct_map_filter)
  moreover have "mset (map a_id (newest_artifacts i d)) = mset (map a_id (filter (\<lambda>a. a_session a = i) (t_artifacts d)))"
    by (simp add: newest_artifacts_def)
  ultimately show ?thesis using mset_eq_imp_distinct_iff by blast
qed

text \<open>
  \<open>PruneArtifacts\<close> keeps exactly the \<open>keep_latest\<close> newest artifacts of the session (by
  the stored update time, ties by id), in their order, deletes all the others of that session and no
  artifact of another session, and returns how many it deleted.
\<close>

theorem prune_keeps_newest:
  assumes "store_reach d" and "trim_space i \<noteq> []" and "0 \<le> keep"
  shows "\<exists>n d'. sq_prune_artifacts i keep d = (Inr n, d') \<and>
    newest_artifacts (trim_space i) d' = take (nat keep) (newest_artifacts (trim_space i) d) \<and>
    (\<forall>j. j \<noteq> trim_space i \<longrightarrow> filter (\<lambda>a. a_session a = j) (t_artifacts d') = filter (\<lambda>a. a_session a = j) (t_artifacts d)) \<and>
    n = max 0 (int (length (newest_artifacts (trim_space i) d)) - keep)"
proof -
  let ?i = "trim_space i"
  let ?L = "newest_artifacts ?i d"
  let ?kept = "map a_id (take (nat keep) ?L)"
  let ?stale = "\<lambda>a. a_session a = ?i \<and> a_id a \<notin> set ?kept"
  let ?d = "d\<lparr>t_artifacts := filter (\<lambda>a. \<not> ?stale a) (t_artifacts d)\<rparr>"
  have p: "sq_prune_artifacts i keep d = (Inr (int (length (filter ?stale (t_artifacts d)))), ?d)"
    using assms(2,3) by (simp add: sq_prune_artifacts_def Let_def)
  have "filter (\<lambda>a. a_session a = ?i) (t_artifacts ?d) =
      filter (\<lambda>a. a_id a \<in> set ?kept) (filter (\<lambda>a. a_session a = ?i) (t_artifacts d))"
    by (auto intro!: filter_cong)
  then have "newest_artifacts ?i ?d = filter (\<lambda>a. a_id a \<in> set ?kept) ?L"
    unfolding newest_artifacts_def by (simp only: filter_sort_desc)
  then have keep: "newest_artifacts ?i ?d = take (nat keep) ?L"
    using filter_take_distinct [OF newest_distinct [OF assms(1)]] by simp
  have other: "filter (\<lambda>a. a_session a = j) (t_artifacts ?d) = filter (\<lambda>a. a_session a = j) (t_artifacts d)"
    if "j \<noteq> ?i" for j
    using that by (auto intro!: filter_cong)
  have "filter ?stale (t_artifacts d) = filter (\<lambda>a. a_id a \<notin> set ?kept) (filter (\<lambda>a. a_session a = ?i) (t_artifacts d))"
    by (simp add: conj_commute)
  then have "length (filter ?stale (t_artifacts d)) = length (filter (\<lambda>a. a_id a \<notin> set ?kept) ?L)"
    unfolding newest_artifacts_def filter_sort_desc length_sort_desc by (simp only:)
  also have "\<dots> = length ?L - length (filter (\<lambda>a. a_id a \<in> set ?kept) ?L)"
    using sum_length_filter_compl [of "\<lambda>a. a_id a \<in> set ?kept" ?L] by simp
  also have "\<dots> = length ?L - nat keep"
    unfolding filter_take_distinct [OF newest_distinct [OF assms(1)]] by simp
  finally have "int (length (filter ?stale (t_artifacts d))) = max 0 (int (length ?L) - keep)"
    using assms(3) by (simp add: max_def)
  then show ?thesis using p keep other by blast
qed

definition demo_artifact :: "string \<Rightarrow> artifact" where
  "demo_artifact i = \<lparr>a_id = i, a_session = ''s'', a_run = [], a_turn = [], a_kind = ''log'', a_name = [], a_mime = [],
     a_content = ''1'', a_metadata = [], a_created = 0, a_updated = 0\<rparr>"

definition demo_assets :: db where
  "demo_assets = (let (_, d1, w1) = sq_save_artifact (demo_artifact ''a1'') (demo_store, demo_world)
     in fst (snd (sq_save_artifact (demo_artifact ''a2'') (d1, w1))))"

lemma demo_assets_reach: "store_reach demo_assets"
proof -
  obtain x d1 w1 where a: "sq_save_artifact (demo_artifact ''a1'') (demo_store, demo_world) = (x, d1, w1)"
    by (metis prod_cases3)
  obtain y d2 w2 where b: "sq_save_artifact (demo_artifact ''a2'') (d1, w1) = (y, d2, w2)" by (metis prod_cases3)
  have "store_reach d2" using store_artifact [OF store_artifact [OF demo_store_reach a] b] .
  then show ?thesis by (simp add: demo_assets_def a b)
qed

lemma demo_assets_rows:
  "t_artifacts demo_assets = [(demo_artifact ''a1'')\<lparr>a_created := 1000, a_updated := 1000\<rparr>,
     (demo_artifact ''a2'')\<lparr>a_created := 1001, a_updated := 1001\<rparr>]"
  by code_simp

lemma demo_newest:
  "newest_artifacts ''s'' demo_assets = [(demo_artifact ''a1'')\<lparr>a_created := 1000, a_updated := 1000\<rparr>,
     (demo_artifact ''a2'')\<lparr>a_created := 1001, a_updated := 1001\<rparr>]"
  unfolding newest_artifacts_def demo_assets_rows by code_simp

theorem prune_keeps_newest_witness:
  "\<exists>d'. sq_prune_artifacts ''s'' 1 demo_assets = (Inr 1, d') \<and> map a_id (newest_artifacts ''s'' d') = [''a1'']"
proof -
  have t: "trim_space ''s'' = ''s''" by code_simp
  then obtain n d' where x: "sq_prune_artifacts ''s'' 1 demo_assets = (Inr n, d')"
      "newest_artifacts ''s'' d' = take (nat 1) (newest_artifacts ''s'' demo_assets)"
      "n = max 0 (int (length (newest_artifacts ''s'' demo_assets)) - 1)"
    using prune_keeps_newest [OF demo_assets_reach, of "''s''" 1] by auto
  have "map a_id (newest_artifacts ''s'' demo_assets) = [''a1'', ''a2'']"
    by (simp add: demo_newest demo_artifact_def)
  moreover from this have "length (newest_artifacts ''s'' demo_assets) = 2"
    by (metis length_Cons length_map list.size(3) numeral_2_eq_2)
  moreover have "map a_id (newest_artifacts ''s'' d') = take 1 (map a_id (newest_artifacts ''s'' demo_assets))"
    by (simp add: x(2) take_map)
  ultimately show ?thesis using x(1,3) by simp
qed

text \<open>
  the order of \<open>PruneArtifacts\<close> is that of the stored text of the update time, and
  \<open>RFC3339Nano\<close> drops the trailing zeros of the fraction of a second: an artifact saved later can count as older, and
  pruning a session to its latest artifact then deletes the newer one.
\<close>

theorem prune_drops_newer:
  "\<exists>a b. a \<in> set (t_artifacts demo_assets) \<and> b \<in> set (t_artifacts demo_assets) \<and> a_updated a < a_updated b \<and>
     t_artifacts (snd (sq_prune_artifacts ''s'' 1 demo_assets)) = [a]"
proof -
  have "t_artifacts (snd (sq_prune_artifacts ''s'' 1 demo_assets)) =
      [(demo_artifact ''a1'')\<lparr>a_created := 1000, a_updated := 1000\<rparr>]"
  proof -
    have "trim_space ''s'' = ''s''" by code_simp
    then show ?thesis by (simp add: sq_prune_artifacts_def Let_def demo_newest demo_assets_rows demo_artifact_def)
  qed
  then show ?thesis
    by (intro exI [of _ "(demo_artifact ''a1'')\<lparr>a_created := 1000, a_updated := 1000\<rparr>"]
        exI [of _ "(demo_artifact ''a2'')\<lparr>a_created := 1001, a_updated := 1001\<rparr>"]) (simp add: demo_assets_rows)
qed

subsection \<open>Upserts by id\<close>

lemma find_upsert_row:
  assumes "\<And>x. P x \<longleftrightarrow> k x = k r" and "\<And>x. P x \<Longrightarrow> k (f x) = k r"
  shows "find (\<lambda>x. k x = j) (upsert_row P f r xs) =
    (if j = k r then Some (case find P xs of None \<Rightarrow> r | Some x \<Rightarrow> f x) else find (\<lambda>x. k x = j) xs)"
proof (cases "list_ex P xs")
  case True
  then obtain x where x: "find P xs = Some x" by (metis find_None_iff list_ex_iff not_Some_eq)
  then have px: "P x" by (auto simp: find_Some_iff)
  have "find (\<lambda>x. k x = j) (map (\<lambda>x. if P x then f x else x) xs) =
      map_option (\<lambda>x. if P x then f x else x) (find (\<lambda>x. k x = j) xs)"
    by (rule find_map_key) (use assms in auto)
  moreover have "P = (\<lambda>x. k x = k r)" using assms(1) by auto
  moreover have "find (\<lambda>x. k x = j) xs = Some y \<Longrightarrow> k y = j" for y by (auto simp: find_Some_iff)
  ultimately show ?thesis
    using True x px assms(1) by (cases "find (\<lambda>x. k x = j) xs") (auto simp: upsert_row_def)
next
  case False
  then have "find P xs = None" by (auto simp: find_None_iff list_ex_iff)
  moreover have "P = (\<lambda>x. k x = k r)" using assms(1) by auto
  ultimately show ?thesis using False by (auto simp: upsert_row_def find_append split: option.splits)
qed

lemma find_conj_key:
  assumes "distinct (map k xs)"
  shows "find (\<lambda>x. Q x \<and> k x = j) xs =
    (case find (\<lambda>x. k x = j) xs of None \<Rightarrow> None | Some x \<Rightarrow> if Q x then Some x else None)"
  using assms
proof (induction xs)
  case (Cons x xs)
  show ?case
  proof (cases "k x = j")
    case True
    then have "find (\<lambda>x. Q x \<and> k x = j) xs = None" using Cons.prems by (auto simp: find_None_iff image_iff)
    then show ?thesis using True by simp
  next
    case False
    then show ?thesis using Cons by simp
  qed
qed simp

text \<open>
  saving a checkpoint of an existing session. Under a new id it is then loaded back as it was saved.
  Under an id some checkpoint already has, that checkpoint is replaced but stays in its own session: it
  loads with the new turn, time and payload from there, and when that is another session, loading it
  from the session it was saved for still fails. Checkpoints under other ids are untouched.
\<close>

theorem checkpoint_save_load:
  assumes "store_reach d" and "cp_id c \<noteq> []" and "cp_created c \<noteq> 0" and "cp_payload c \<noteq> []"
    and "has_session d (cp_session c)" and "sq_save_checkpoint c (d, w) = (e, d', w')"
  shows "e = None \<and>
    (case find (\<lambda>x. cp_id x = cp_id c) (t_checkpoints d) of
       None \<Rightarrow> sq_load_checkpoint (cp_session c) (cp_id c) d' = Inr c
     | Some x \<Rightarrow> sq_load_checkpoint (cp_session x) (cp_id c) d' = Inr (c\<lparr>cp_session := cp_session x\<rparr>) \<and>
         (cp_session c \<noteq> cp_session x \<longrightarrow> (\<exists>m. sq_load_checkpoint (cp_session c) (cp_id c) d' = Inl m))) \<and>
    (\<forall>i j. j \<noteq> cp_id c \<longrightarrow> sq_load_checkpoint i j d' = sq_load_checkpoint i j d)"
proof -
  have n: "normalize_checkpoint c w = (c, w)"
    using assms(2-4) by (simp add: normalize_checkpoint_def fill_id_def fill_time_def)
  let ?f = "\<lambda>x. c\<lparr>cp_session := cp_session x\<rparr>"
  have d': "e = None" "t_checkpoints d' = upsert_row (\<lambda>x. cp_id x = cp_id c) ?f c (t_checkpoints d)"
    using assms(5,6) by (auto simp: sq_save_checkpoint_def n upsert_row_def split: if_splits)
  have look: "find (\<lambda>x. cp_id x = j) (t_checkpoints d') =
      (if j = cp_id c then Some (case find (\<lambda>x. cp_id x = cp_id c) (t_checkpoints d) of None \<Rightarrow> c | Some x \<Rightarrow> ?f x)
       else find (\<lambda>x. cp_id x = j) (t_checkpoints d))" for j
    unfolding d'(2) by (rule find_upsert_row) simp_all
  have dist: "distinct (map cp_id (t_checkpoints y))" if "store_reach y" for y
    using store_ok_others(1) store_reach_good [OF that] by (simp add: store_good_def)
  have load: "sq_load_checkpoint i j y = (case find (\<lambda>x. cp_id x = j) (t_checkpoints y) of
      None \<Rightarrow> Inl (StoreErr ''checkpoint not found'')
    | Some x \<Rightarrow> if cp_session x = i then Inr x else Inl (StoreErr ''checkpoint not found''))"
    if "store_reach y" for i j y
    by (simp add: sq_load_checkpoint_def find_conj_key [OF dist [OF that]] split: option.splits)
  have r': "store_reach d'" using store_checkpoint [OF assms(1,6)] .
  show ?thesis
    using d'(1) by (auto simp: load [OF r'] load [OF assms(1)] look split: option.splits)
qed

theorem checkpoint_save_load_witness:
  "\<exists>d' w'. sq_save_checkpoint \<lparr>cp_id = ''c'', cp_session = ''s'', cp_turn = [], cp_created = 3, cp_payload = ''{}''\<rparr>
       (demo_store, demo_world) = (None, d', w') \<and>
     sq_load_checkpoint ''s'' ''c'' d' = Inr \<lparr>cp_id = ''c'', cp_session = ''s'', cp_turn = [], cp_created = 3, cp_payload = ''{}''\<rparr>"
proof -
  let ?c = "\<lparr>cp_id = ''c'', cp_session = ''s'', cp_turn = [], cp_created = 3, cp_payload = ''{}''\<rparr>"
  obtain e d' w' where x: "sq_save_checkpoint ?c (demo_store, demo_world) = (e, d', w')" by (metis prod_cases3)
  have "has_session demo_store ''s''" by code_simp
  moreover have "t_checkpoints demo_store = []" by code_simp
  ultimately show ?thesis using checkpoint_save_load [OF demo_store_reach _ _ _ _ x] x by simp
qed

text \<open>
  what \<open>SaveArtifact\<close> and \<open>SaveResource\<close> return is what loading then gives, but for the first
  creation time of an id saved before and for an artifact's content \<open>null\<close>, which reads back empty;
  the id and the update time are always set.
\<close>

theorem asset_save_load:
  assumes "sq_save_artifact a (d, w) = ((None, a'), d1, w1)" and "sq_save_resource r (d, w) = ((e, r'), d2, w2)"
  shows "sq_load_artifact (a_id a') d1 = Inr (a'\<lparr>a_content := (if a_content a = ''null'' then [] else a_content a),
      a_created := (case sq_load_artifact (a_id a') d of Inr x \<Rightarrow> a_created x | Inl _ \<Rightarrow> a_created a')\<rparr>) \<and>
    a_id a' \<noteq> [] \<and> a_kind a' \<noteq> [] \<and> e = None \<and>
    sq_load_resource (rs_kind r') (rs_id r') d2 = Inr (r'\<lparr>rs_created :=
      (case sq_load_resource (rs_kind r') (rs_id r') d of Inr x \<Rightarrow> rs_created x | Inl _ \<Rightarrow> rs_created r')\<rparr>) \<and>
    rs_kind r' = rs_kind r \<and> rs_id r' \<noteq> [] \<and> rs_config r' \<noteq> []"
proof -
  obtain a1 w3 where a1: "normalize_artifact a w = (a1, w3)" by fastforce
  have af: "a_content a1 = a_content a" "a_id a1 \<noteq> []" "a_kind a1 \<noteq> []"
    using a1 by (auto simp: normalize_artifact_def fill_id_def Let_def split: prod.splits if_splits)
  let ?row = "a1\<lparr>a_content := (if a_content a1 = ''null'' then [] else a_content a1)\<rparr>"
  let ?f = "\<lambda>x. ?row\<lparr>a_created := a_created x\<rparr>"
  have A: "a' = a1" "t_artifacts d1 = upsert_row (\<lambda>x. a_id x = a_id a1) ?f ?row (t_artifacts d)"
    using assms(1) by (auto simp: sq_save_artifact_def a1 upsert_row_def Let_def split: if_splits)
  have "find (\<lambda>x. a_id x = a_id a1) (t_artifacts d1) =
      Some (case find (\<lambda>x. a_id x = a_id a1) (t_artifacts d) of None \<Rightarrow> ?row | Some x \<Rightarrow> ?f x)"
    unfolding A(2) by (subst find_upsert_row) simp_all
  then have 1: "sq_load_artifact (a_id a') d1 = Inr (a'\<lparr>a_content := (if a_content a = ''null'' then [] else a_content a),
      a_created := (case sq_load_artifact (a_id a') d of Inr x \<Rightarrow> a_created x | Inl _ \<Rightarrow> a_created a')\<rparr>)"
    by (simp add: sq_load_artifact_def A(1) af(1) split: option.splits)
  obtain r1 w4 where r1: "normalize_resource r w = (r1, w4)" by fastforce
  have rf: "rs_kind r1 = rs_kind r" "rs_id r1 \<noteq> []" "rs_config r1 \<noteq> []"
    using r1 by (auto simp: normalize_resource_def fill_id_def Let_def split: prod.splits if_splits)
  let ?g = "\<lambda>x. r1\<lparr>rs_created := rs_created x\<rparr>"
  have R: "r' = r1" "e = None" "t_resources d2 = upsert_row (\<lambda>x. same_resource x r1) ?g r1 (t_resources d)"
    using assms(2) by (auto simp: sq_save_resource_def r1 upsert_row_def Let_def split: if_splits)
  have pair: "(\<lambda>x. rs_kind x = k \<and> rs_id x = i) = (\<lambda>x. (rs_kind x, rs_id x) = (k, i))" for k i by auto
  have same: "(\<lambda>x. same_resource x r1) = (\<lambda>x. (rs_kind x, rs_id x) = (rs_kind r1, rs_id r1))"
    by (auto simp: same_resource_def)
  have "find (\<lambda>x. (rs_kind x, rs_id x) = (rs_kind r1, rs_id r1)) (t_resources d2) =
      Some (case find (\<lambda>x. same_resource x r1) (t_resources d) of None \<Rightarrow> r1 | Some x \<Rightarrow> ?g x)"
    unfolding R(3) by (subst find_upsert_row [where k = "\<lambda>x. (rs_kind x, rs_id x)" and r = r1]) (simp_all add: same_resource_def)
  then have "sq_load_resource (rs_kind r') (rs_id r') d2 = Inr (r'\<lparr>rs_created :=
      (case sq_load_resource (rs_kind r') (rs_id r') d of Inr x \<Rightarrow> rs_created x | Inl _ \<Rightarrow> rs_created r')\<rparr>)"
    unfolding sq_load_resource_def pair same R(1) by (simp split: option.splits)
  with 1 show ?thesis using A(1) R(1,2) af rf by simp
qed

theorem asset_save_load_witness:
  "\<exists>a' d1 w1. sq_save_artifact (demo_artifact ''a1'') (demo_store, demo_world) = ((None, a'), d1, w1) \<and>
     sq_load_artifact ''a1'' d1 = Inr a' \<and> a_content a' = ''1''"
proof -
  let ?x = "sq_save_artifact (demo_artifact ''a1'') (demo_store, demo_world)"
  obtain e a' d1 w1 where x: "?x = ((e, a'), d1, w1)" by (metis prod.collapse)
  let ?r = "\<lparr>rs_id = [], rs_kind = ResourceSkill, rs_name = [], rs_description = [], rs_enabled = True, rs_config = [],
    rs_created = 0, rs_updated = 0\<rparr>"
  obtain f r' d2 w2 where y: "sq_save_resource ?r (demo_store, demo_world) = ((f, r'), d2, w2)" by (metis prod.collapse)
  have "fst (fst ?x) = None \<and> snd (fst ?x) = (demo_artifact ''a1'')\<lparr>a_created := 1000, a_updated := 1000\<rparr>" by code_simp
  then have e: "e = None" and a': "a' = (demo_artifact ''a1'')\<lparr>a_created := 1000, a_updated := 1000\<rparr>" using x by simp_all
  have "t_artifacts demo_store = []" by code_simp
  then have "(\<exists>m. sq_load_artifact ''a1'' demo_store = Inl m)" by (simp add: sq_load_artifact_def)
  then show ?thesis using asset_save_load [OF x [unfolded e] y] x e by (auto simp: a' demo_artifact_def)
qed

end
