(* ===== verification/Llm_Tools.thy ===== *)
theory Llm_Tools
  imports Llm_Types
begin

section \<open>Package llm: tool sets, tool execution and the tool loop\<close>

text \<open>
  \<open>llm/tools.go\<close>. A \<open>ToolHandler\<close> runs in a world of type \<open>'w\<close> (files, sessions, the
  context), may return an error and may panic; a nil handler is \<open>None\<close>. An error is its text. The
  quoting of \<open>%q\<close> depends on the standard library's Unicode tables and is the parameter
  \<open>q\<close> of the error texts.
\<close>

type_synonym go_error = string
type_synonym 'w handler = "tool_call \<Rightarrow> 'w \<Rightarrow> (tool_result \<times> go_error option) or_panic \<times> 'w"
type_synonym 'w tool_registry = "(string \<times> 'w handler option) list"
type_synonym 'w middleware = "string \<Rightarrow> 'w handler option \<Rightarrow> 'w handler option"

record 'w tool_set =
  ts_definitions :: "tool list"
  ts_handlers :: "'w tool_registry"

subsection \<open>Tool sets\<close>

definition put_all :: "'w tool_registry \<Rightarrow> 'w tool_registry \<Rightarrow> 'w tool_registry" where
  "put_all new old = fold (\<lambda>(name, h) m. AList.update name h m) new old"

definition new_tool_set :: "tool list \<Rightarrow> 'w tool_registry \<Rightarrow> 'w tool_set" where
  "new_tool_set defs handlers = \<lparr>ts_definitions = [] @ defs, ts_handlers = put_all handlers []\<rparr>"

definition tool_set_clone :: "'w tool_set \<Rightarrow> 'w tool_set" where
  "tool_set_clone s = new_tool_set (ts_definitions s) (ts_handlers s)"

definition tool_set_merge :: "'w tool_set \<Rightarrow> 'w tool_set \<Rightarrow> 'w tool_set" where
  "tool_set_merge s other =
     (let s1 = s\<lparr>ts_definitions := ts_definitions s @ ts_definitions other\<rparr>
      in if ts_handlers other = [] then s1
         else s1\<lparr>ts_handlers := put_all (ts_handlers other) (ts_handlers s1)\<rparr>)"

definition tool_set_parts :: "'w tool_set \<Rightarrow> tool list \<times> 'w tool_registry" where
  "tool_set_parts s = (let c = tool_set_clone s in (ts_definitions c, ts_handlers c))"

lemma map_of_put_all:
  "distinct (map fst new) \<Longrightarrow>
     map_of (put_all new old) k = (case map_of new k of Some h \<Rightarrow> Some h | None \<Rightarrow> map_of old k)"
proof (induction new arbitrary: old)
  case (Cons kv new)
  obtain k' h where kv: "kv = (k', h)" by (cases kv)
  from Cons.prems have notin: "k' \<notin> fst ` set new" and d: "distinct (map fst new)"
    by (simp_all add: kv)
  have "map_of (put_all (kv # new) old) k = map_of (put_all new (AList.update k' h old)) k"
    by (simp add: put_all_def kv)
  also have "\<dots> = (case map_of new k of Some h \<Rightarrow> Some h | None \<Rightarrow> map_of (AList.update k' h old) k)"
    by (rule Cons.IH [OF d])
  finally have eq: "map_of (put_all (kv # new) old) k =
    (case map_of new k of Some h \<Rightarrow> Some h | None \<Rightarrow> map_of (AList.update k' h old) k)" .
  have "map_of new k' = None" using notin by (simp add: map_of_eq_None_iff)
  then show ?case
    unfolding eq by (cases "k = k'") (simp_all add: kv update_conv' split: option.split)
qed (simp add: put_all_def)

lemma distinct_put_all: "distinct (map fst old) \<Longrightarrow> distinct (map fst (put_all new old))"
  unfolding put_all_def by (induction new arbitrary: old) (auto simp: distinct_update)

lemma map_of_new_tool_set:
  "distinct (map fst hs) \<Longrightarrow> map_of (ts_handlers (new_tool_set ds hs)) k = map_of hs k"
  by (simp add: new_tool_set_def map_of_put_all split: option.splits)

lemma merge_lookup:
  assumes "distinct (map fst (ts_handlers b))"
  shows "map_of (ts_handlers (tool_set_merge a b)) k =
     (case map_of (ts_handlers b) k of Some h \<Rightarrow> Some h | None \<Rightarrow> map_of (ts_handlers a) k)"
  using assms by (simp add: tool_set_merge_def Let_def map_of_put_all split: option.splits)

subsection \<open>Middleware\<close>

definition wrap_all :: "'w middleware option list \<Rightarrow> string \<Rightarrow> 'w handler option \<Rightarrow> 'w handler option" where
  "wrap_all mws name h = foldr (\<lambda>mw wrapped. case mw of None \<Rightarrow> wrapped | Some f \<Rightarrow> f name wrapped) mws h"

definition with_middleware :: "'w middleware option list \<Rightarrow> 'w tool_registry \<Rightarrow> 'w tool_registry" where
  "with_middleware mws r = map (\<lambda>(name, h). (name, wrap_all mws name h)) r"

lemma with_middleware_lookup:
  "map_of (with_middleware mws r) name = map_option (wrap_all mws name) (map_of r name)"
  by (induction r) (auto simp: with_middleware_def)

lemma wrap_all_outermost: "wrap_all (Some f # mws) name h = f name (wrap_all mws name h)"
  by (simp add: wrap_all_def)

subsection \<open>Executing one call\<close>

datatype tool_error =
    NotRegistered string
  | NilHandler string
  | ToolPanic string string
  | HandlerError go_error

fun tool_error_text :: "(string \<Rightarrow> string) \<Rightarrow> tool_error \<Rightarrow> go_error" where
  "tool_error_text q (NotRegistered n) = ''tool '' @ q n @ '' is not registered''"
| "tool_error_text q (NilHandler n) = ''tool '' @ q n @ '' handler is nil''"
| "tool_error_text q (ToolPanic n m) = ''tool '' @ q n @ '' panic: '' @ m"
| "tool_error_text q (HandlerError e) = e"

definition error_result :: "tool_call \<Rightarrow> string \<Rightarrow> tool_result" where
  "error_result call e =
     zero_result\<lparr>tr_call_id := tc_call_id call, tr_name := tc_name call, tr_error := e, tr_custom := tc_custom call\<rparr>"

definition fill_result :: "tool_call \<Rightarrow> tool_result \<Rightarrow> tool_result" where
  "fill_result call r =
     (let r1 = (if tr_call_id r = [] then r\<lparr>tr_call_id := tc_call_id call\<rparr> else r);
          r2 = (if tr_name r1 = [] then r1\<lparr>tr_name := tc_name call\<rparr> else r1)
      in r2\<lparr>tr_custom := tc_custom call\<rparr>)"

definition execute ::
  "(string \<Rightarrow> string) \<Rightarrow> 'w tool_registry \<Rightarrow> tool_call \<Rightarrow> 'w \<Rightarrow> (tool_result \<times> tool_error option) \<times> 'w" where
  "execute q r call w =
     (case map_of r (tc_name call) of
        None \<Rightarrow> ((zero_result, Some (NotRegistered (tc_name call))), w)
      | Some None \<Rightarrow> ((zero_result, Some (NilHandler (tc_name call))), w)
      | Some (Some h) \<Rightarrow>
          (case h call w of
             (Panics m, w') \<Rightarrow>
               (let e = ToolPanic (tc_name call) m
                in ((error_result call (tool_error_text q e), Some e), w'))
           | (Returns (res, Some e), w') \<Rightarrow> ((error_result call e, Some (HandlerError e)), w')
           | (Returns (res, None), w') \<Rightarrow> ((fill_result call res, None), w')))"

text \<open>\<open>JSONToolHandler\<close>: \<open>dec\<close> is \<open>json.Unmarshal\<close> into the input type, \<open>zero\<close> its zero value.\<close>

definition json_tool_handler ::
  "(raw \<Rightarrow> go_error + 'i) \<Rightarrow> 'i \<Rightarrow> ('i \<Rightarrow> 'w \<Rightarrow> (string \<times> go_error option) or_panic \<times> 'w) \<Rightarrow> 'w handler" where
  "json_tool_handler dec zero fn call w =
     (case (if tc_arguments call \<noteq> [] then dec (tc_arguments call) else Inr zero) of
        Inl e \<Rightarrow> (Returns (zero_result, Some (''decode '' @ tc_name call @ '' arguments: '' @ e)), w)
      | Inr x \<Rightarrow>
          (case fn x w of
             (Panics m, w') \<Rightarrow> (Panics m, w')
           | (Returns (out, Some e), w') \<Rightarrow> (Returns (zero_result, Some e), w')
           | (Returns (out, None), w') \<Rightarrow>
               (Returns (zero_result\<lparr>tr_call_id := tc_call_id call, tr_name := tc_name call, tr_output := out,
                  tr_custom := tc_custom call\<rparr>, None), w')))"

definition execute_tool_call ::
  "(string \<Rightarrow> string) \<Rightarrow> 'w tool_registry \<Rightarrow> tool_call \<Rightarrow> 'w \<Rightarrow> tool_result \<times> 'w" where
  "execute_tool_call q tools call w =
     (case execute q tools call w of
        ((result, Some e), w') \<Rightarrow>
          (if tr_error result = [] then (error_result call (tool_error_text q e), w') else (result, w'))
      | ((result, None), w') \<Rightarrow> (result, w'))"

text \<open>
  What every result of a call satisfies, whatever the handler did: it carries the call's \<open>Custom\<close>
  flag, and its name and call id are only empty where the call's are.
\<close>

definition answers :: "tool_call \<Rightarrow> tool_result \<Rightarrow> bool" where
  "answers call r \<longleftrightarrow>
     tr_custom r = tc_custom call \<and> (tr_call_id r = [] \<longrightarrow> tc_call_id call = []) \<and>
     (tr_name r = [] \<longrightarrow> tc_name call = [])"

lemma answers_error_result [simp]: "answers call (error_result call e)"
  by (simp add: answers_def error_result_def)

lemma answers_fill_result [simp]: "answers call (fill_result call r)"
  by (simp add: answers_def fill_result_def Let_def)

lemma tool_error_text_nonempty: "(\<And>e'. e \<noteq> HandlerError e') \<Longrightarrow> tool_error_text q e \<noteq> []"
  by (cases e) auto

lemma answers_execute_tool_call: "answers call (fst (execute_tool_call q tools call w))"
  by (auto simp: execute_tool_call_def execute_def Let_def zero_result_def
      split: option.splits or_panic.splits prod.splits if_splits)

lemma execute_tool_call_no_handler:
  "map_of tools (tc_name call) = None \<Longrightarrow>
     execute_tool_call q tools call w =
       (error_result call (tool_error_text q (NotRegistered (tc_name call))), w)"
  by (simp add: execute_tool_call_def execute_def zero_result_def)

lemma execute_tool_call_panic:
  "map_of tools (tc_name call) = Some (Some h) \<Longrightarrow> h call w = (Panics m, w') \<Longrightarrow>
     execute_tool_call q tools call w =
       (error_result call (tool_error_text q (ToolPanic (tc_name call) m)), w')"
  by (simp add: execute_tool_call_def execute_def Let_def)

subsection \<open>Executing the calls of one response\<close>

fun execute_seq :: "(string \<Rightarrow> string) \<Rightarrow> 'w tool_registry \<Rightarrow> tool_call list \<Rightarrow> 'w \<Rightarrow> tool_result list \<times> 'w" where
  "execute_seq q tools [] w = ([], w)"
| "execute_seq q tools (c # cs) w =
     (let (r, w') = execute_tool_call q tools c w;
          (rs, w'') = execute_seq q tools cs w'
      in (r # rs, w''))"

lemma execute_seq_answers: "list_all2 answers cs (fst (execute_seq q tools cs w))"
proof (induction cs arbitrary: w)
  case (Cons c cs)
  then show ?case
    using answers_execute_tool_call [of c q tools w]
    by (auto split: prod.splits) (metis fst_conv)
qed simp

text \<open>
  The parallel path: one goroutine per call, a semaphore of \<open>maxParallel\<close> slots, and \<open>results[i]\<close>
  written by goroutine \<open>i\<close> alone. A goroutine waits for a slot or for the end of the context (either
  branch of the \<open>select\<close> may be taken when both are ready), runs the handler, writes its result and
  returns the slot. The world is the one the handler finds when its effect takes place; which goroutine
  moves is the scheduler's choice, so the steps are a relation.
\<close>

datatype gor = Waiting | Running | Finished

record 'w par_state =
  ps_pc :: "gor list"
  ps_results :: "tool_result list"
  ps_sem :: nat
  ps_world :: 'w

definition parallel_limit :: "int \<Rightarrow> nat \<Rightarrow> nat" where
  "parallel_limit max_parallel n =
     (let m = (if max_parallel \<le> 0 then 4 else max_parallel);
          m' = (if m > int n then int n else m)
      in nat m')"

definition par_init :: "tool_call list \<Rightarrow> 'w \<Rightarrow> 'w par_state" where
  "par_init calls w =
     \<lparr>ps_pc = replicate (length calls) Waiting, ps_results = replicate (length calls) zero_result,
      ps_sem = 0, ps_world = w\<rparr>"

inductive par_step ::
  "(string \<Rightarrow> string) \<Rightarrow> 'w tool_registry \<Rightarrow> ('w \<Rightarrow> string option) \<Rightarrow> nat \<Rightarrow> tool_call list \<Rightarrow>
     'w par_state \<Rightarrow> 'w par_state \<Rightarrow> bool"
  for q tools ctx_err cap calls where
  par_acquire:
    "i < length calls \<Longrightarrow> ps_pc s ! i = Waiting \<Longrightarrow> ps_sem s < cap \<Longrightarrow>
       par_step q tools ctx_err cap calls s (s\<lparr>ps_pc := (ps_pc s)[i := Running], ps_sem := Suc (ps_sem s)\<rparr>)"
| par_cancel:
    "i < length calls \<Longrightarrow> ps_pc s ! i = Waiting \<Longrightarrow> ctx_err (ps_world s) = Some e \<Longrightarrow>
       par_step q tools ctx_err cap calls s
         (s\<lparr>ps_pc := (ps_pc s)[i := Finished], ps_results := (ps_results s)[i := error_result (calls ! i) e]\<rparr>)"
| par_finish:
    "i < length calls \<Longrightarrow> ps_pc s ! i = Running \<Longrightarrow>
       execute_tool_call q tools (calls ! i) (ps_world s) = (r, w') \<Longrightarrow>
       par_step q tools ctx_err cap calls s
         (s\<lparr>ps_pc := (ps_pc s)[i := Finished], ps_results := (ps_results s)[i := r], ps_sem := ps_sem s - 1,
            ps_world := w'\<rparr>)"

inductive par_reach ::
  "(string \<Rightarrow> string) \<Rightarrow> 'w tool_registry \<Rightarrow> ('w \<Rightarrow> string option) \<Rightarrow> nat \<Rightarrow> tool_call list \<Rightarrow> 'w \<Rightarrow>
     'w par_state \<Rightarrow> bool"
  for q tools ctx_err cap calls w where
  par_start: "par_reach q tools ctx_err cap calls w (par_init calls w)"
| par_next:
    "par_reach q tools ctx_err cap calls w s \<Longrightarrow> par_step q tools ctx_err cap calls s s' \<Longrightarrow>
       par_reach q tools ctx_err cap calls w s'"

definition par_inv :: "nat \<Rightarrow> tool_call list \<Rightarrow> 'w par_state \<Rightarrow> bool" where
  "par_inv cap calls s \<longleftrightarrow>
     length (ps_pc s) = length calls \<and> length (ps_results s) = length calls \<and>
     ps_sem s = count_list (ps_pc s) Running \<and> ps_sem s \<le> cap \<and>
     (\<forall>i < length calls. ps_pc s ! i = Finished \<longrightarrow> answers (calls ! i) (ps_results s ! i))"

lemma count_list_update:
  assumes "i < length xs"
  shows "count_list (xs[i := y]) x + (if xs ! i = x then 1 else 0) = count_list xs x + (if y = x then 1 else 0)"
  using assms
proof (induction xs arbitrary: i)
  case (Cons a xs)
  show ?case
  proof (cases i)
    case (Suc j)
    with Cons.prems Cons.IH [of j] show ?thesis by (auto split: if_splits)
  qed simp
qed simp

lemma par_inv_init: "par_inv cap calls (par_init calls w)"
  by (simp add: par_inv_def par_init_def count_list_0_iff)

lemma par_inv_step: "par_step q tools ctx_err cap calls s s' \<Longrightarrow> par_inv cap calls s \<Longrightarrow> par_inv cap calls s'"
proof (induction rule: par_step.induct)
  case (par_acquire i s)
  then show ?case
    using count_list_update [of i "ps_pc s" Running Running]
    by (auto simp: par_inv_def nth_list_update)
next
  case (par_cancel i s e)
  then show ?case
    using count_list_update [of i "ps_pc s" Finished Running]
    by (auto simp: par_inv_def nth_list_update)
next
  case (par_finish i s r w')
  have r: "answers (calls ! i) r"
    using answers_execute_tool_call [of "calls ! i" q tools "ps_world s"] par_finish.hyps(3) by simp
  show ?case
    using par_finish r count_list_update [of i "ps_pc s" Finished Running]
    by (auto simp: par_inv_def nth_list_update)
qed

lemma par_reach_inv: "par_reach q tools ctx_err cap calls w s \<Longrightarrow> par_inv cap calls s"
  by (induction rule: par_reach.induct) (auto intro: par_inv_init par_inv_step)

definition par_done :: "'w par_state \<Rightarrow> bool" where
  "par_done s = list_all (\<lambda>g. g = Finished) (ps_pc s)"

lemma par_done_answers:
  "par_reach q tools ctx_err cap calls w s \<Longrightarrow> par_done s \<Longrightarrow> list_all2 answers calls (ps_results s)"
  using par_reach_inv [of q tools ctx_err cap calls w s]
  by (auto simp: par_inv_def par_done_def list_all2_conv_all_nth list_all_length)

text \<open>No deadlock: with at least one slot, some goroutine can move until all are finished.\<close>

lemma par_progress:
  assumes "par_reach q tools ctx_err cap calls w s" and "0 < cap" and "\<not> par_done s"
  shows "\<exists>s'. par_step q tools ctx_err cap calls s s'"
proof -
  have inv: "par_inv cap calls s" using assms(1) by (rule par_reach_inv)
  obtain i where i: "i < length calls" "ps_pc s ! i \<noteq> Finished"
    using assms(3) inv by (auto simp: par_done_def list_all_length par_inv_def)
  show ?thesis
  proof (cases "\<exists>j < length calls. ps_pc s ! j = Running")
    case True
    then obtain j where "j < length calls" "ps_pc s ! j = Running" by blast
    then show ?thesis by (metis par_finish surj_pair)
  next
    case False
    then have "Running \<notin> set (ps_pc s)" using inv by (auto simp: par_inv_def in_set_conv_nth)
    then have "ps_sem s = 0" using inv by (simp add: par_inv_def count_list_0_iff)
    moreover have "ps_pc s ! i = Waiting" using i False by (cases "ps_pc s ! i") auto
    ultimately show ?thesis using i assms(2) by (metis par_acquire)
  qed
qed

text \<open>Every step moves one goroutine forward, so a run of \<open>n\<close> goroutines has at most \<open>2 n\<close> steps.\<close>

fun gor_left :: "gor \<Rightarrow> nat" where
  "gor_left Waiting = 2"
| "gor_left Running = 1"
| "gor_left Finished = 0"

definition par_left :: "'w par_state \<Rightarrow> nat" where
  "par_left s = sum_list (map gor_left (ps_pc s))"

lemma sum_list_update_less:
  "i < length xs \<Longrightarrow> gor_left y < gor_left (xs ! i) \<Longrightarrow>
     sum_list (map gor_left (xs[i := y])) < sum_list (map gor_left xs)"
proof (induction xs arbitrary: i)
  case (Cons a xs)
  then show ?case by (cases i) auto
qed simp

lemma par_step_decreases:
  assumes "par_step q tools ctx_err cap calls s s'" and "length (ps_pc s) = length calls"
  shows "par_left s' < par_left s"
  using assms by (induction rule: par_step.induct) (auto simp: par_left_def intro!: sum_list_update_less)

text \<open>
  \<open>executeToolCalls\<close>. The outcome of the parallel path is the one the scheduler \<open>par\<close> picks; a
  scheduler is admissible when it returns the results and world of a finished run of the goroutines.
\<close>

type_synonym 'w scheduler = "nat \<Rightarrow> tool_call list \<Rightarrow> 'w \<Rightarrow> tool_result list \<times> 'w"

definition execute_tool_calls ::
  "(string \<Rightarrow> string) \<Rightarrow> 'w scheduler \<Rightarrow> 'w tool_registry \<Rightarrow> bool \<Rightarrow> int \<Rightarrow> tool_call list \<Rightarrow> 'w \<Rightarrow>
     tool_result list \<times> 'w" where
  "execute_tool_calls q par tools par_on max_parallel calls w =
     (if \<not> par_on \<or> length calls < 2 then execute_seq q tools calls w
      else par (parallel_limit max_parallel (length calls)) calls w)"

definition admissible ::
  "(string \<Rightarrow> string) \<Rightarrow> 'w tool_registry \<Rightarrow> ('w \<Rightarrow> string option) \<Rightarrow> 'w scheduler \<Rightarrow> bool" where
  "admissible q tools ctx_err par \<longleftrightarrow>
     (\<forall>cap calls w. 0 < cap \<longrightarrow>
        (\<exists>s. par_reach q tools ctx_err cap calls w s \<and> par_done s \<and>
             par cap calls w = (ps_results s, ps_world s)))"

lemma parallel_limit_pos: "2 \<le> n \<Longrightarrow> 0 < parallel_limit m n"
  by (auto simp: parallel_limit_def Let_def)

lemma parallel_limit_le: "parallel_limit m n \<le> n"
  by (auto simp: parallel_limit_def Let_def)

lemma execute_tool_calls_answers:
  assumes "admissible q tools ctx_err par"
  shows "list_all2 answers calls (fst (execute_tool_calls q par tools par_on m calls w))"
proof (cases "\<not> par_on \<or> length calls < 2")
  case True
  then show ?thesis by (auto simp: execute_tool_calls_def execute_seq_answers)
next
  case False
  let ?cap = "parallel_limit m (length calls)"
  from False have "0 < ?cap" by (intro parallel_limit_pos) simp
  with assms obtain s where "par_reach q tools ctx_err ?cap calls w s" "par_done s"
    "par ?cap calls w = (ps_results s, ps_world s)"
    unfolding admissible_def by blast
  with False show ?thesis by (auto simp: execute_tool_calls_def dest: par_done_answers)
qed

subsection \<open>The tool loop\<close>

text \<open>
  \<open>RunToolLoop\<close>. \<open>Generate\<close> returns Go's pair of a response pointer and an error, or panics; a nil
  provider is \<open>None\<close>. The loop counts down the iterations that are left. Beside its outcome and the
  world it returns the requests it handed to \<open>Generate\<close>, which is what the provider observes.
\<close>

type_synonym 'w generate = "request \<Rightarrow> 'w \<Rightarrow> (response option \<times> go_error option) or_panic \<times> 'w"

datatype loop_error = ProviderRequired | GenerateFailed go_error | NilResponse | LoopExceeded nat
datatype loop_out = LoopResp response | LoopErr loop_error | LoopPanic string

definition item_type_for_result :: "tool_result \<Rightarrow> string" where
  "item_type_for_result r = (if tr_custom r then ItemCustomToolOutput else ItemFunctionOutput)"

definition result_item :: "tool_result \<Rightarrow> item" where
  "result_item r = zero_item\<lparr>i_type := item_type_for_result r, i_tool_result := Some r\<rparr>"

definition next_request :: "request \<Rightarrow> response \<Rightarrow> tool_result list \<Rightarrow> request" where
  "next_request current resp results =
     current\<lparr>q_input_items := q_input_items current @ p_output resp @ map result_item results,
       q_messages := [], q_previous_response_id := p_id resp\<rparr>"

fun tool_loop ::
  "'w generate \<Rightarrow> (tool_call list \<Rightarrow> 'w \<Rightarrow> tool_result list \<times> 'w) \<Rightarrow> nat \<Rightarrow> nat \<Rightarrow> request \<Rightarrow> 'w \<Rightarrow>
     loop_out \<times> request list \<times> 'w" where
  "tool_loop gen exec mx 0 current w = (LoopErr (LoopExceeded mx), [], w)"
| "tool_loop gen exec mx (Suc left) current w =
     (case gen current w of
        (Panics m, w') \<Rightarrow> (LoopPanic m, [current], w')
      | (Returns (_, Some e), w') \<Rightarrow> (LoopErr (GenerateFailed e), [current], w')
      | (Returns (None, None), w') \<Rightarrow> (LoopErr NilResponse, [current], w')
      | (Returns (Some resp, None), w') \<Rightarrow>
          (if p_tool_calls resp = [] then (LoopResp resp, [current], w')
           else
             (let (results, w'') = exec (p_tool_calls resp) w';
                  (out, reqs, w3) = tool_loop gen exec mx left (next_request current resp results) w''
              in (out, current # reqs, w3))))"

record tool_loop_options =
  tlo_max_iterations :: int
  tlo_parallel :: bool
  tlo_max_parallel :: int

definition loop_max :: "tool_loop_options \<Rightarrow> nat" where
  "loop_max opts = (if tlo_max_iterations opts \<le> 0 then 8 else nat (tlo_max_iterations opts))"

definition run_tool_loop ::
  "(string \<Rightarrow> string) \<Rightarrow> 'w scheduler \<Rightarrow> 'w generate option \<Rightarrow> request \<Rightarrow> 'w tool_registry \<Rightarrow>
     tool_loop_options \<Rightarrow> 'w \<Rightarrow> loop_out \<times> request list \<times> 'w" where
  "run_tool_loop q par p req tools opts w =
     (case p of
        None \<Rightarrow> (LoopErr ProviderRequired, [], w)
      | Some gen \<Rightarrow>
          tool_loop gen (execute_tool_calls q par tools (tlo_parallel opts) (tlo_max_parallel opts))
            (loop_max opts) (loop_max opts) req w)"

text \<open>One iteration: the loop stops after this request, or executes its calls and goes on.\<close>

definition gen_stop :: "(response option \<times> go_error option) or_panic \<Rightarrow> loop_out option" where
  "gen_stop g =
     (case g of
        Panics m \<Rightarrow> Some (LoopPanic m)
      | Returns (_, Some e) \<Rightarrow> Some (LoopErr (GenerateFailed e))
      | Returns (None, None) \<Rightarrow> Some (LoopErr NilResponse)
      | Returns (Some resp, None) \<Rightarrow> (if p_tool_calls resp = [] then Some (LoopResp resp) else None))"

lemma gen_stop_None:
  "gen_stop g = None \<longleftrightarrow> (\<exists>resp. g = Returns (Some resp, None) \<and> p_tool_calls resp \<noteq> [])"
  by (auto simp: gen_stop_def split: or_panic.splits option.splits prod.splits)

lemma gen_stop_resp:
  "gen_stop g = Some (LoopResp resp) \<longleftrightarrow> g = Returns (Some resp, None) \<and> p_tool_calls resp = []"
  by (auto simp: gen_stop_def split: or_panic.splits option.splits prod.splits if_splits)

lemma gen_stop_exceeded [simp]: "gen_stop g \<noteq> Some (LoopErr (LoopExceeded k))"
  by (auto simp: gen_stop_def split: or_panic.splits option.splits prod.splits if_splits)

lemma tool_loop_stop:
  "gen_stop (fst (gen req w)) = Some out \<Longrightarrow>
     tool_loop gen exec mx (Suc n) req w = (out, [req], snd (gen req w))"
  by (auto simp: gen_stop_def split: or_panic.splits option.splits prod.splits if_splits)

lemma tool_loop_go:
  "gen req w = (Returns (Some resp, None), v) \<Longrightarrow> p_tool_calls resp \<noteq> [] \<Longrightarrow>
     tool_loop gen exec mx (Suc n) req w =
       (let (results, v') = exec (p_tool_calls resp) v;
            (out, reqs, w') = tool_loop gen exec mx n (next_request req resp results) v'
        in (out, req # reqs, w'))"
  by simp

lemma tool_loop_SucE:
  assumes "tool_loop gen exec mx (Suc n) req w = (out, reqs, w')"
  obtains (stop) "gen_stop (fst (gen req w)) = Some out" "reqs = [req]" "w' = snd (gen req w)"
    | (go) resp v results v' reqs' where "gen req w = (Returns (Some resp, None), v)"
        "p_tool_calls resp \<noteq> []" "exec (p_tool_calls resp) v = (results, v')" "reqs = req # reqs'"
        "tool_loop gen exec mx n (next_request req resp results) v' = (out, reqs', w')"
proof (cases "gen_stop (fst (gen req w))")
  case (Some o')
  then show thesis using stop assms by (simp only: tool_loop_stop prod.inject)
next
  case None
  then obtain resp v where g: "gen req w = (Returns (Some resp, None), v)" "p_tool_calls resp \<noteq> []"
    by (metis gen_stop_None prod.collapse)
  obtain results v' where e: "exec (p_tool_calls resp) v = (results, v')" by fastforce
  obtain o2 reqs2 w2 where l: "tool_loop gen exec mx n (next_request req resp results) v' = (o2, reqs2, w2)"
    by (metis prod_cases3)
  from assms have "(out, reqs, w') = (o2, req # reqs2, w2)"
    by (simp only: tool_loop_go [of gen req w resp v, OF g] e l Let_def prod.case)
  then show thesis using go [of resp v results v' reqs2] g e l by simp
qed

declare tool_loop.simps(2) [simp del]

text \<open>A returned response asks for no tools, and is what the provider answered to the last request.\<close>

lemma tool_loop_resp:
  "tool_loop gen exec mx n req w = (LoopResp resp, reqs, w') \<Longrightarrow>
     p_tool_calls resp = [] \<and> reqs \<noteq> [] \<and> (\<exists>v. gen (last reqs) v = (Returns (Some resp, None), w'))"
proof (induction n arbitrary: req w reqs)
  case (Suc n)
  from Suc.prems show ?case
  proof (cases rule: tool_loop_SucE)
    case stop
    then show ?thesis by (auto simp: gen_stop_resp) (metis prod.collapse)
  next
    case (go r v results v' reqs')
    then show ?thesis using Suc.IH [OF go(5)] by simp
  qed
qed simp

lemma tool_loop_calls: "tool_loop gen exec mx n req w = (out, reqs, w') \<Longrightarrow> length reqs \<le> n"
proof (induction n arbitrary: req w reqs)
  case (Suc n)
  from Suc.prems show ?case
    by (cases rule: tool_loop_SucE) (auto dest: Suc.IH)
qed simp

lemma tool_loop_exceeded:
  "tool_loop gen exec mx n req w = (LoopErr (LoopExceeded k), reqs, w') \<Longrightarrow> k = mx \<and> length reqs = n"
proof (induction n arbitrary: req w reqs)
  case (Suc n)
  from Suc.prems show ?case
    by (cases rule: tool_loop_SucE) (auto dest: Suc.IH)
qed simp

text \<open>
  What the provider is shown: each request after the first is the previous one with the provider's own
  output items and one item per requested call appended, in the order of the calls, the messages
  dropped, and the response chained by its id.
\<close>

definition continues :: "request \<Rightarrow> request \<Rightarrow> bool" where
  "continues a b \<longleftrightarrow>
     (\<exists>resp results. p_tool_calls resp \<noteq> [] \<and> list_all2 answers (p_tool_calls resp) results \<and>
        b = next_request a resp results)"

lemma tool_loop_head: "tool_loop gen exec mx n req w = (out, r # rs, w') \<Longrightarrow> r = req"
proof (cases n)
  case (Suc m)
  assume "tool_loop gen exec mx n req w = (out, r # rs, w')"
  then have "tool_loop gen exec mx (Suc m) req w = (out, r # rs, w')" by (simp add: Suc)
  then show ?thesis by (cases rule: tool_loop_SucE) simp_all
qed simp

lemma tool_loop_chain:
  assumes "\<And>calls v. list_all2 answers calls (fst (exec calls v))"
    and "tool_loop gen exec mx n req w = (out, reqs, w')"
  shows "successively continues reqs"
  using assms(2)
proof (induction n arbitrary: req w reqs)
  case (Suc n)
  from Suc.prems show ?case
  proof (cases rule: tool_loop_SucE)
    case (go resp v results v' reqs')
    have "list_all2 answers (p_tool_calls resp) results"
      using assms(1) [of "p_tool_calls resp" v] go(3) by simp
    then have "continues req (next_request req resp results)"
      using go(2) unfolding continues_def by blast
    moreover have "r = next_request req resp results" if "reqs' = r # rs" for r rs
      using go(5) unfolding that by (rule tool_loop_head)
    ultimately show ?thesis
      using Suc.IH [OF go(5)] go(4) by (cases reqs') auto
  qed simp
qed simp

lemma continues_fields:
  "continues a b \<Longrightarrow>
     prefix (q_input_items a) (q_input_items b) \<and> q_messages b = [] \<and> q_model b = q_model a \<and>
     q_tools b = q_tools a \<and> q_instructions b = q_instructions a"
  by (auto simp: continues_def next_request_def)

subsection \<open>Every run of the goroutines can finish, and running them in turn is one such run\<close>

lemma execute_seq_snoc:
  "execute_seq q tools (cs @ [c]) w =
     (let (rs, w1) = execute_seq q tools cs w; (r, w2) = execute_tool_call q tools c w1 in (rs @ [r], w2))"
  by (induction cs arbitrary: w) (auto simp: Let_def split: prod.splits)

lemma execute_seq_length: "length (fst (execute_seq q tools cs w)) = length cs"
  using execute_seq_answers [of cs q tools w] by (simp add: list_all2_lengthD)

definition turn_state ::
  "(string \<Rightarrow> string) \<Rightarrow> 'w tool_registry \<Rightarrow> tool_call list \<Rightarrow> 'w \<Rightarrow> nat \<Rightarrow> 'w par_state" where
  "turn_state q tools calls w k =
     (let (rs, w') = execute_seq q tools (take k calls) w; n = length calls - k
      in \<lparr>ps_pc = replicate k Finished @ replicate n Waiting, ps_results = rs @ replicate n zero_result,
          ps_sem = 0, ps_world = w'\<rparr>)"

lemma update_snoc:
  assumes "length xs = k" and "k < n"
  shows "(xs @ replicate (n - k) a)[k := b] = (xs @ [b]) @ replicate (n - Suc k) a"
  using assms by (cases "n - k") (auto simp: list_update_append)

lemma turn_state_step:
  assumes "0 < cap" and "k < length calls"
    and "par_reach q tools ctx_err cap calls w (turn_state q tools calls w k)"
  shows "par_reach q tools ctx_err cap calls w (turn_state q tools calls w (Suc k))"
proof -
  let ?s = "turn_state q tools calls w k"
  let ?a = "?s\<lparr>ps_pc := (ps_pc ?s)[k := Running], ps_sem := Suc (ps_sem ?s)\<rparr>"
  obtain rs w1 where e: "execute_seq q tools (take k calls) w = (rs, w1)" by fastforce
  have len: "length rs = k"
    using execute_seq_length [of q tools "take k calls" w] e assms(2) by simp
  obtain r w2 where c: "execute_tool_call q tools (calls ! k) w1 = (r, w2)" by fastforce
  have s: "?s = \<lparr>ps_pc = replicate k Finished @ replicate (length calls - k) Waiting,
      ps_results = rs @ replicate (length calls - k) zero_result, ps_sem = 0, ps_world = w1\<rparr>"
    by (simp add: turn_state_def e Let_def)
  have a: "par_step q tools ctx_err cap calls ?s ?a"
    using assms(1,2) by (intro par_acquire) (simp_all add: s nth_append)
  have pc: "ps_pc ?a = (replicate k Finished @ [Running]) @ replicate (length calls - Suc k) Waiting"
    using update_snoc [of "replicate k Finished" k "length calls" Waiting Running] assms(2) by (simp add: s)
  have f: "par_step q tools ctx_err cap calls ?a
      (?a\<lparr>ps_pc := (ps_pc ?a)[k := Finished], ps_results := (ps_results ?a)[k := r], ps_sem := ps_sem ?a - 1,
         ps_world := w2\<rparr>)"
    using assms(2) c by (intro par_finish) (simp_all add: pc nth_append, simp add: s)
  have pc2: "(ps_pc ?a)[k := Finished] = replicate (Suc k) Finished @ replicate (length calls - Suc k) Waiting"
    by (simp add: pc list_update_append replicate_append_same [symmetric])
  have res: "(ps_results ?a)[k := r] = (rs @ [r]) @ replicate (length calls - Suc k) zero_result"
    using update_snoc [OF len assms(2)] by (simp add: s)
  have "turn_state q tools calls w (Suc k) =
      ?a\<lparr>ps_pc := (ps_pc ?a)[k := Finished], ps_results := (ps_results ?a)[k := r], ps_sem := ps_sem ?a - 1,
         ps_world := w2\<rparr>"
    unfolding pc2 res using assms(2)
    by (simp add: turn_state_def take_Suc_conv_app_nth execute_seq_snoc e c s Let_def)
  then show ?thesis using assms(3) a f by (metis par_next)
qed

lemma turn_state_reach:
  assumes "0 < cap" and "k \<le> length calls"
  shows "par_reach q tools ctx_err cap calls w (turn_state q tools calls w k)"
  using assms(2)
proof (induction k)
  case 0
  have "turn_state q tools calls w 0 = par_init calls w" by (simp add: turn_state_def par_init_def Let_def)
  then show ?case by (simp add: par_start)
next
  case (Suc k)
  then show ?case using assms(1) by (intro turn_state_step) auto
qed

definition turn_scheduler :: "(string \<Rightarrow> string) \<Rightarrow> 'w tool_registry \<Rightarrow> 'w scheduler" where
  "turn_scheduler q tools cap calls w = execute_seq q tools calls w"

lemma turn_scheduler_admissible: "admissible q tools ctx_err (turn_scheduler q tools)"
  unfolding admissible_def
proof (intro allI impI)
  fix cap :: nat and calls w
  assume "0 < cap"
  then have "par_reach q tools ctx_err cap calls w (turn_state q tools calls w (length calls))"
    by (intro turn_state_reach) auto
  moreover have "par_done (turn_state q tools calls w (length calls))"
    by (simp add: par_done_def turn_state_def list_all_iff split: prod.splits)
  moreover have "turn_scheduler q tools cap calls w =
      (ps_results (turn_state q tools calls w (length calls)), ps_world (turn_state q tools calls w (length calls)))"
    by (simp add: turn_state_def turn_scheduler_def split: prod.splits)
  ultimately show "\<exists>s. par_reach q tools ctx_err cap calls w s \<and> par_done s \<and>
      turn_scheduler q tools cap calls w = (ps_results s, ps_world s)" by blast
qed

subsection \<open>Properties\<close>


text \<open>A provider that asks once for an unregistered tool and then answers.\<close>

definition demo_call :: tool_call where
  "demo_call = \<lparr>tc_id = [], tc_call_id = ''c1'', tc_name = ''t'', tc_arguments = [], tc_custom = False\<rparr>"

definition demo_gen :: "unit generate" where
  "demo_gen req w =
     (if q_input_items req = [] then (Returns (Some (zero_response\<lparr>p_tool_calls := [demo_call]\<rparr>), None), w)
      else (Returns (Some (text_response ''p'' ''m'' ''done''), None), w))"

definition demo_opts :: tool_loop_options where
  "demo_opts = \<lparr>tlo_max_iterations = 0, tlo_parallel = False, tlo_max_parallel = 0\<rparr>"


text \<open>
  C29: parallel tool calls under any scheduling: never more than \<open>maxParallel\<close> handlers run at once;
  no state is stuck before every goroutine has finished; every step brings the goroutines closer to the
  end, so all of them finish; and when they have, the results are one per call, in the order of the
  calls, each answering its call.
\<close>

theorem parallel_tool_calls_complete:
  assumes "par_reach q tools ctx_err cap calls w s" and "0 < cap"
  shows "count_list (ps_pc s) Running \<le> cap \<and>
    (par_done s \<longrightarrow> list_all2 answers calls (ps_results s)) \<and>
    (\<not> par_done s \<longrightarrow> (\<exists>s'. par_step q tools ctx_err cap calls s s')) \<and>
    (\<forall>s'. par_step q tools ctx_err cap calls s s' \<longrightarrow> par_left s' < par_left s)"
proof (intro conjI impI allI)
  have inv: "par_inv cap calls s" using par_reach_inv [OF assms(1)] .
  then show "count_list (ps_pc s) Running \<le> cap" by (simp add: par_inv_def)
  show "list_all2 answers calls (ps_results s)" if "par_done s" using par_done_answers [OF assms(1) that] .
  show "\<exists>s'. par_step q tools ctx_err cap calls s s'" if "\<not> par_done s" using par_progress [OF assms that] .
  show "par_left s' < par_left s" if "par_step q tools ctx_err cap calls s s'" for s'
    using par_step_decreases [OF that] inv by (simp add: par_inv_def)
qed

theorem parallel_tool_calls_complete_witness:
  "\<exists>s. par_reach (\<lambda>s. s) [] (\<lambda>_::unit. None) 1 [demo_call, demo_call] () s \<and> par_done s \<and>
     list_all2 answers [demo_call, demo_call] (ps_results s)"
proof -
  let ?s = "turn_state (\<lambda>s. s) [] [demo_call, demo_call] () 2"
  have r: "par_reach (\<lambda>s. s) [] (\<lambda>_::unit. None) 1 [demo_call, demo_call] () ?s"
    by (rule turn_state_reach) auto
  moreover have d: "par_done ?s" by (simp add: par_done_def turn_state_def numeral_eq_Suc split: prod.splits)
  ultimately show ?thesis using parallel_tool_calls_complete [OF r] by auto
qed

text \<open>
  merging tool sets: the definitions of both are listed in order, and a handler is looked up in
  the merged-in set first, so a later set overrides an earlier one and nothing else is lost.
\<close>

theorem tool_set_merge_lookup:
  assumes "distinct (map fst (ts_handlers b))"
  shows "ts_definitions (tool_set_merge a b) = ts_definitions a @ ts_definitions b \<and>
    map_of (ts_handlers (tool_set_merge a b)) = map_of (ts_handlers a) ++ map_of (ts_handlers b)"
  using merge_lookup [OF assms, of a]
  by (auto simp: tool_set_merge_def Let_def fun_eq_iff map_add_def split: option.splits)

theorem tool_set_merge_lookup_witness:
  "map_of (ts_handlers (tool_set_merge (new_tool_set [] [(''a'', None)]) (new_tool_set [] [(''b'', None :: unit handler option)])))
     ''a'' = Some None"
  using tool_set_merge_lookup [of "new_tool_set [] [(''b'', None :: unit handler option)]" "new_tool_set [] [(''a'', None)]"]
  by (simp add: new_tool_set_def put_all_def)

end
