(* ===== verification/Session_Ops.thy ===== *)
theory Session_Ops
  imports Session_History Llm_Tools
begin

section \<open>Package session: forking, compaction and the todo tools\<close>

text \<open>
  \<open>session/fork.go\<close>, \<open>compact.go\<close> and \<open>todo_tools.go\<close>: what the program does with sessions
  through the store's interface. The store is a parameter (its operations on a state of any type), and
  the laws it keeps are the locales below, which the SQLite store of \<open>Session_Store\<close> satisfies.
  \<open>encoding/json\<close> and \<open>text/template\<close> are parameters too: the decoders of the tools' arguments, the
  encoder of a todo list and the rendered prompt texts.
\<close>

subsection \<open>Forking\<close>

datatype fork_error = ForkStore store_error | TurnNotFound string string

fun retained_turns_at :: "string \<Rightarrow> turn list \<Rightarrow> turn list \<times> bool" where
  "retained_turns_at at [] = ([], False)"
| "retained_turns_at at (t # ts) =
     (if tn_id t = at then ([t], True) else (let (out, found) = retained_turns_at at ts in (t # out, found)))"

definition retained_turns :: "turn list \<Rightarrow> string \<Rightarrow> turn list \<times> bool" where
  "retained_turns ts at = (if at = [] then (ts, True) else retained_turns_at at ts)"

definition retained_turn_ids :: "turn list \<Rightarrow> string set" where
  "retained_turn_ids ts = {i \<in> set (map tn_id ts). i \<noteq> []}"

fun reissue_events :: "string \<Rightarrow> string set \<Rightarrow> event list \<Rightarrow> world \<Rightarrow> event list \<times> world" where
  "reissue_events sid ids [] w = ([], w)"
| "reissue_events sid ids (ev # evs) w =
     (if e_turn ev = [] \<or> e_turn ev \<in> ids
      then (let (i, w1) = new_id ''ev'' w; (out, w2) = reissue_events sid ids evs w1
            in (ev\<lparr>e_id := i, e_session := sid\<rparr> # out, w2))
      else reissue_events sid ids evs w)"

definition retained_events :: "event list \<Rightarrow> string \<Rightarrow> string set \<Rightarrow> world \<Rightarrow> event list \<times> world" where
  "retained_events evs sid ids w = (if ids = {} then ([], w) else reissue_events sid ids evs w)"

definition clone_todos :: "todo list \<Rightarrow> todo list" where
  "clone_todos tds = tds"

definition fork_metadata :: "session \<Rightarrow> string \<Rightarrow> smap" where
  "fork_metadata src at =
     (let m = mset_kv (s_metadata src) ''forked_from'' (s_id src)
      in if at = [] then m else mset_kv m ''forked_at_turn'' at)"

definition fork_session :: "session \<Rightarrow> string \<Rightarrow> world \<Rightarrow> (fork_error + session) \<times> world" where
  "fork_session src at w =
     (let (t, w1) = now w;
          (i, w2) = new_id ''sess'' w1;
          (turns, found) = retained_turns (s_turns src) at
      in if at \<noteq> [] \<and> \<not> found then (Inl (TurnNotFound at (s_id src)), w2)
         else
           (let (evs, w3) = retained_events (s_events src) i (retained_turn_ids turns) w2;
                last_resp = (if turns = [] then None else tn_response (last turns))
            in (Inr (src\<lparr>s_id := i, s_created := t, s_updated := t, s_metadata := fork_metadata src at,
                  s_turns := turns, s_events := evs, s_todos := clone_todos (s_todos src),
                  s_last_response := (case last_resp of None \<Rightarrow> [] | Some r \<Rightarrow> p_id r),
                  s_last_items := (case last_resp of None \<Rightarrow> [] | Some r \<Rightarrow> p_output r)\<rparr>), w3)))"

definition fork ::
  "(string \<Rightarrow> 's \<Rightarrow> store_error + session) \<Rightarrow>
   (session \<Rightarrow> 's \<times> world \<Rightarrow> (store_error option \<times> session) \<times> 's \<times> world) \<Rightarrow>
   string \<Rightarrow> string \<Rightarrow> 's \<times> world \<Rightarrow> (fork_error + session) \<times> 's \<times> world" where
  "fork load create sid at st =
     (let (s, w) = st
      in case load sid s of
           Inl e \<Rightarrow> (Inl (ForkStore e), s, w)
         | Inr src \<Rightarrow>
             (case fork_session src at w of
                (Inl e, w1) \<Rightarrow> (Inl e, s, w1)
              | (Inr f, w1) \<Rightarrow>
                  (case create f (s, w1) of
                     ((Some e, _), s', w') \<Rightarrow> (Inl (ForkStore e), s', w')
                   | ((None, f'), s', w') \<Rightarrow> (Inr f', s', w'))))"

subsection \<open>Extractive compaction\<close>

record compaction_policy =
  cpol_enabled :: bool
  cpol_ratio :: f64
  cpol_first :: int
  cpol_last :: int
  cpol_summary_model :: string
  cpol_max_tokens :: int

definition should_preserve_index :: "int \<Rightarrow> int \<Rightarrow> int \<Rightarrow> int \<Rightarrow> bool" where
  "should_preserve_index i n first lst \<longleftrightarrow> (0 < first \<and> i < first) \<or> (0 < lst \<and> n - lst \<le> i)"

definition first_line :: "string \<Rightarrow> string" where
  "first_line v =
     (let t = trim_space v in case cut_at (CHR 0x0A) t of Some (a, _) \<Rightarrow> trim_space a | None \<Rightarrow> t)"

text \<open>The map of one turn that the template renders.\<close>

definition summary_item :: "turn \<Rightarrow> smap" where
  "summary_item t =
     (let m = [(''Prompt'', trim_space (tn_prompt t))];
          m1 = (case tn_response t of
                  Some r \<Rightarrow> (if trim_space (p_text r) \<noteq> [] then mset_kv m ''Response'' (first_line (p_text r)) else m)
                | None \<Rightarrow> m)
      in if tn_error t \<noteq> [] then mset_kv m1 ''Error'' (tn_error t) else m1)"

definition summary_items :: "turn list \<Rightarrow> int \<Rightarrow> int \<Rightarrow> smap list" where
  "summary_items ts first lst =
     map (\<lambda>(i, t). summary_item t)
       (filter (\<lambda>(i, t). \<not> should_preserve_index (int i) (int (length ts)) first lst) (enumerate 0 ts))"

text \<open>The Korean texts of the fallback, as the bytes of the source: its title and the three labels.\<close>

definition summary_title :: string where
  "summary_title =
     [CHR 0xEC, CHR 0x9D, CHR 0xB4, CHR 0xEC, CHR 0xA0, CHR 0x84] @ '' '' @ [CHR 0xEC, CHR 0x84, CHR 0xB8,
     CHR 0xEC, CHR 0x85, CHR 0x98] @ '' '' @ [CHR 0xEC, CHR 0x9A, CHR 0x94, CHR 0xEC, CHR 0x95, CHR 0xBD,
     CHR 0xEC, CHR 0x9D, CHR 0xB4, CHR 0xEC, CHR 0x97, CHR 0x90, CHR 0xEC, CHR 0x9A, CHR 0x94] @ ''.''"

definition label_prompt :: string where
  "label_prompt =
     ''- '' @ [CHR 0xEC, CHR 0x82, CHR 0xAC, CHR 0xEC, CHR 0x9A, CHR 0xA9, CHR 0xEC, CHR 0x9E, CHR 0x90] @
     '' '' @ [CHR 0xEC, CHR 0x9A, CHR 0x94, CHR 0xEC, CHR 0xB2, CHR 0xAD] @ '': ''"

definition label_response :: string where
  "label_response =
     ''  '' @ [CHR 0xEC, CHR 0x9D, CHR 0x91, CHR 0xEB, CHR 0x8B, CHR 0xB5] @ '' '' @ [CHR 0xEC, CHR 0x9A,
     CHR 0x94, CHR 0xEC, CHR 0x95, CHR 0xBD] @ '': ''"

definition label_error :: string where
  "label_error =
     ''  '' @ [CHR 0xEC, CHR 0x98, CHR 0xA4, CHR 0xEB, CHR 0xA5, CHR 0x98] @ '': ''"

definition fallback_extractive_summary :: "smap list \<Rightarrow> string" where
  "fallback_extractive_summary turns =
     trim_space (summary_title @ [CHR 0x0A] @ concat (map (\<lambda>m.
       label_prompt @ mget m ''Prompt'' @
       (if mget m ''Response'' \<noteq> [] then [CHR 0x0A] @ label_response @ mget m ''Response'' else []) @
       (if mget m ''Error'' \<noteq> [] then [CHR 0x0A] @ label_error @ mget m ''Error'' else []) @ [CHR 0x0A]) turns))"

definition build_extractive_summary :: "(smap list \<Rightarrow> string option) \<Rightarrow> session \<Rightarrow> int \<Rightarrow> int \<Rightarrow> string" where
  "build_extractive_summary render s first lst =
     (let items = summary_items (s_turns s) first lst
      in if s_turns s = [] \<or> items = [] then []
         else (case render items of Some out \<Rightarrow> out | None \<Rightarrow> fallback_extractive_summary items))"

subsection \<open>The todo tools\<close>

definition todo_empty_text :: string where
  "todo_empty_text =
     ''todo'' @ [CHR 0xEA, CHR 0xB0, CHR 0x80] @ '' '' @ [CHR 0xEB, CHR 0xB9, CHR 0x84, CHR 0xEC, CHR 0x96,
     CHR 0xB4] @ '' '' @ [CHR 0xEC, CHR 0x9E, CHR 0x88, CHR 0xEC, CHR 0x96, CHR 0xB4, CHR 0xEC, CHR 0x9A,
     CHR 0x94]"

definition todo_text :: "(todo list \<Rightarrow> string) \<Rightarrow> todo list \<Rightarrow> string" where
  "todo_text indent items = (if items = [] then todo_empty_text else indent items)"

text \<open>
  The store of the tools: \<open>LoadSession\<close>, \<open>SaveTodos\<close> when the store has it, and \<open>SaveSession\<close>.
\<close>

record 's todo_port =
  tp_load :: "string \<Rightarrow> 's \<Rightarrow> store_error + session"
  tp_save_todos :: "(string \<Rightarrow> todo list \<Rightarrow> 's \<times> world \<Rightarrow> store_error option \<times> 's \<times> world) option"
  tp_save :: "session \<Rightarrow> 's \<times> world \<Rightarrow> (store_error option \<times> session) \<times> 's \<times> world"

definition save_todo_list :: "'s todo_port \<Rightarrow> session \<Rightarrow> 's \<times> world \<Rightarrow> store_error option \<times> 's \<times> world" where
  "save_todo_list p s st =
     (case tp_save_todos p of
        Some save \<Rightarrow> save (s_id s) (s_todos s) st
      | None \<Rightarrow>
          (let (s1, w1) = touch s (snd st); ((e, _), st') = tp_save p s1 (fst st, w1) in (e, st')))"

fun normalize_todos :: "todo list \<Rightarrow> world \<Rightarrow> todo list \<times> world" where
  "normalize_todos [] w = ([], w)"
| "normalize_todos (td # tds) w =
     (let (td1, w1) = normalize_todo td w; (tds1, w2) = normalize_todos tds w1 in (td1 # tds1, w2))"

definition todo_write ::
  "'s todo_port \<Rightarrow> (store_error \<Rightarrow> string) \<Rightarrow> (todo list \<Rightarrow> string) \<Rightarrow> string \<Rightarrow> todo list \<Rightarrow> 's \<times> world \<Rightarrow>
     (string \<times> go_error option) or_panic \<times> 's \<times> world" where
  "todo_write p err indent sid items st =
     (case tp_load p sid (fst st) of
        Inl e \<Rightarrow> (Returns ([], Some (err e)), st)
      | Inr s \<Rightarrow>
          (let (items1, w1) = normalize_todos items (snd st)
           in case save_todo_list p (s\<lparr>s_todos := items1\<rparr>) (fst st, w1) of
                (Some e, st') \<Rightarrow> (Returns ([], Some (err e)), st')
              | (None, st') \<Rightarrow> (Returns (todo_text indent items1, None), st')))"

fun replace_todo :: "todo \<Rightarrow> todo list \<Rightarrow> todo list option" where
  "replace_todo td [] = None"
| "replace_todo td (x # xs) = (if td_id x = td_id td then Some (td # xs) else map_option (Cons x) (replace_todo td xs))"

definition update_todos :: "todo \<Rightarrow> todo list \<Rightarrow> todo list" where
  "update_todos td tds = (case replace_todo td tds of Some tds' \<Rightarrow> tds' | None \<Rightarrow> tds @ [td])"

definition todo_update ::
  "'s todo_port \<Rightarrow> (store_error \<Rightarrow> string) \<Rightarrow> (todo list \<Rightarrow> string) \<Rightarrow> string \<Rightarrow> todo \<Rightarrow> 's \<times> world \<Rightarrow>
     (string \<times> go_error option) or_panic \<times> 's \<times> world" where
  "todo_update p err indent sid td st =
     (case tp_load p sid (fst st) of
        Inl e \<Rightarrow> (Returns ([], Some (err e)), st)
      | Inr s \<Rightarrow>
          (let (td1, w1) = normalize_todo td (snd st);
               tds = update_todos td1 (s_todos s)
           in case save_todo_list p (s\<lparr>s_todos := tds\<rparr>) (fst st, w1) of
                (Some e, st') \<Rightarrow> (Returns ([], Some (err e)), st')
              | (None, st') \<Rightarrow> (Returns (todo_text indent tds, None), st')))"

definition todo_list ::
  "'s todo_port \<Rightarrow> (store_error \<Rightarrow> string) \<Rightarrow> (todo list \<Rightarrow> string) \<Rightarrow> string \<Rightarrow> ('s \<times> world) handler" where
  "todo_list p err indent sid call st =
     (case tp_load p sid (fst st) of
        Inl e \<Rightarrow> (Returns (zero_result, Some (err e)), st)
      | Inr s \<Rightarrow>
          (Returns (zero_result\<lparr>tr_call_id := tc_call_id call, tr_name := tc_name call,
             tr_output := todo_text indent (s_todos s)\<rparr>, None), st))"

text \<open>The JSON Schemas and descriptions of the three tools are data of the provider's request.\<close>

definition todo_defs :: "(string \<Rightarrow> string) \<Rightarrow> (string \<Rightarrow> jmap) \<Rightarrow> tool list" where
  "todo_defs describe schema =
     map (\<lambda>n. \<lparr>t_kind = ToolFunction, t_name = n, t_description = describe n, t_parameters = Some (schema n),
       t_strict = Some True, t_grammar = None, t_provider_options = []\<rparr>) [''todo_write'', ''todo_update'', ''todo_list'']"

definition todo_tool_set ::
  "'s todo_port \<Rightarrow> (store_error \<Rightarrow> string) \<Rightarrow> (todo list \<Rightarrow> string) \<Rightarrow> (string \<Rightarrow> string) \<Rightarrow> (string \<Rightarrow> jmap) \<Rightarrow>
   (raw \<Rightarrow> go_error + todo list) \<Rightarrow> (raw \<Rightarrow> go_error + todo) \<Rightarrow> string \<Rightarrow> ('s \<times> world) tool_set" where
  "todo_tool_set p err indent describe schema dec_items dec_todo sid =
     new_tool_set (todo_defs describe schema)
       [(''todo_write'', Some (json_tool_handler dec_items [] (todo_write p err indent sid))),
        (''todo_update'', Some (json_tool_handler dec_todo
           \<lparr>td_id = [], td_content = [], td_status = [], td_priority = [], td_updated = 0\<rparr> (todo_update p err indent sid))),
        (''todo_list'', Some (todo_list p err indent sid))]"

subsection \<open>What a fork retains\<close>

lemma retained_turns_at_split:
  "retained_turns_at at ts = (out, found) \<Longrightarrow>
     (if found then \<exists>t rest. ts = out @ rest \<and> out \<noteq> [] \<and> last out = t \<and> tn_id t = at \<and> at \<notin> tn_id ` set (butlast out)
      else at \<notin> tn_id ` set ts)"
proof (induction ts arbitrary: out)
  case (Cons x xs)
  show ?case
  proof (cases "tn_id x = at")
    case True
    then show ?thesis using Cons.prems by auto
  next
    case False
    then obtain out' where o: "retained_turns_at at xs = (out', found)" "out = x # out'"
      using Cons.prems by (auto split: prod.splits)
    show ?thesis using Cons.IH [OF o(1)] o(2) False by (auto split: if_splits)
  qed
qed simp

definition forked_event :: "event \<Rightarrow> event" where
  "forked_event ev = ev\<lparr>e_id := [], e_session := []\<rparr>"

lemma reissue_events_spec:
  "reissue_events sid ids evs w = (out, w') \<Longrightarrow>
     list_all (\<lambda>ev. e_session ev = sid \<and> e_id ev \<noteq> []) out \<and>
     map forked_event out = map forked_event (filter (\<lambda>ev. e_turn ev = [] \<or> e_turn ev \<in> ids) evs)"
proof (induction evs arbitrary: w out)
  case (Cons ev evs)
  obtain i w1 where i: "new_id ''ev'' w = (i, w1)" by fastforce
  have "i \<noteq> []" using new_id_nonempty [of "''ev''" w] by (simp add: i)
  moreover obtain o1 w2 where "reissue_events sid ids evs w1 = (o1, w2)" by fastforce
  moreover obtain o2 w3 where "reissue_events sid ids evs w = (o2, w3)" by fastforce
  ultimately show ?case
    using Cons.prems Cons.IH [of w1 o1] Cons.IH [of w o2] by (auto simp: i forked_event_def split: if_splits)
qed simp

text \<open>
  \<open>ForkSession\<close> fails exactly when a turn is named that the session does not have. Otherwise the
  fork has a new id, the turns up to and including that turn (all of them when none is named), the events
  of no turn or of a retained turn in their order under new ids and the new session id (none when no
  turn is retained), the todos, the last response of its last turn, and a record of its origin.
\<close>

theorem fork_retains:
  assumes "fork_session src at w = (r, w')"
  shows "case r of
      Inl e \<Rightarrow> e = TurnNotFound at (s_id src) \<and> at \<noteq> [] \<and> at \<notin> tn_id ` set (s_turns src)
    | Inr f \<Rightarrow>
        s_id f \<noteq> [] \<and> prefix (s_turns f) (s_turns src) \<and>
        (if at = [] then s_turns f = s_turns src
         else s_turns f \<noteq> [] \<and> tn_id (last (s_turns f)) = at \<and> at \<notin> tn_id ` set (butlast (s_turns f))) \<and>
        list_all (\<lambda>ev. e_session ev = s_id f \<and> e_id ev \<noteq> []) (s_events f) \<and>
        map forked_event (s_events f) = map forked_event (filter (\<lambda>ev. retained_turn_ids (s_turns f) \<noteq> {} \<and>
          (e_turn ev = [] \<or> e_turn ev \<in> retained_turn_ids (s_turns f))) (s_events src)) \<and>
        s_todos f = s_todos src \<and> mget (s_metadata f) ''forked_from'' = s_id src \<and>
        (s_last_response f, s_last_items f) = (case s_turns f of [] \<Rightarrow> ([], [])
           | ts \<Rightarrow> (case tn_response (last ts) of None \<Rightarrow> ([], []) | Some p \<Rightarrow> (p_id p, p_output p)))"
proof -
  obtain t w1 where t: "now w = (t, w1)" by fastforce
  obtain i w2 where i: "new_id ''sess'' w1 = (i, w2)" by fastforce
  have ni: "i \<noteq> []" using new_id_nonempty [of "''sess''" w1] by (simp add: i)
  obtain turns found where rt: "retained_turns (s_turns src) at = (turns, found)" by fastforce
  have at: "if at = [] then turns = s_turns src else if found then \<exists>rest. s_turns src = turns @ rest \<and> turns \<noteq> [] \<and>
      tn_id (last turns) = at \<and> at \<notin> tn_id ` set (butlast turns) else at \<notin> tn_id ` set (s_turns src)"
    using rt retained_turns_at_split [of at "s_turns src"] by (auto simp: retained_turns_def split: if_splits)
  show ?thesis
  proof (cases "at \<noteq> [] \<and> \<not> found")
    case True
    then have "r = Inl (TurnNotFound at (s_id src))" using assms by (simp add: fork_session_def t i rt Let_def)
    then show ?thesis using at True by simp
  next
    case False
    obtain evs w3 where ev: "retained_events (s_events src) i (retained_turn_ids turns) w2 = (evs, w3)" by fastforce
    let ?lr = "if turns = [] then None else tn_response (last turns)"
    have r: "r = Inr (src\<lparr>s_id := i, s_created := t, s_updated := t, s_metadata := fork_metadata src at,
        s_turns := turns, s_events := evs, s_todos := clone_todos (s_todos src),
        s_last_response := (case ?lr of None \<Rightarrow> [] | Some r \<Rightarrow> p_id r),
        s_last_items := (case ?lr of None \<Rightarrow> [] | Some r \<Rightarrow> p_output r)\<rparr>)"
      using assms False by (auto simp: fork_session_def t i rt ev Let_def)
    have evs: "list_all (\<lambda>ev. e_session ev = i \<and> e_id ev \<noteq> []) evs \<and>
        map forked_event evs = map forked_event (filter (\<lambda>ev. retained_turn_ids turns \<noteq> {} \<and>
          (e_turn ev = [] \<or> e_turn ev \<in> retained_turn_ids turns)) (s_events src))"
      using ev reissue_events_spec [of i "retained_turn_ids turns" "s_events src" w2 evs w3]
      by (cases "retained_turn_ids turns = {}") (auto simp: retained_events_def)
    have "mget (fork_metadata src at) ''forked_from'' = s_id src" by (simp add: fork_metadata_def Let_def)
    then show ?thesis
      using evs at ni False by (cases turns) (auto simp: r clone_todos_def split: option.splits if_splits)
  qed
qed

theorem fork_retains_witness:
  "\<exists>f w'. fork_session demo_session ''t1'' demo_world = (Inr f, w') \<and> s_turns f = [demo_turn] \<and> length (s_events f) = 1"
proof -
  obtain r w' where x: "fork_session demo_session ''t1'' demo_world = (r, w')" by fastforce
  have "case fst (fork_session demo_session ''t1'' demo_world) of Inr f \<Rightarrow> s_turns f = [demo_turn] | Inl _ \<Rightarrow> False"
    by code_simp
  then obtain f where f: "r = Inr f" "s_turns f = [demo_turn]" using x by (auto split: sum.splits)
  have "map forked_event (s_events f) = map forked_event (filter (\<lambda>ev. retained_turn_ids (s_turns f) \<noteq> {} \<and>
      (e_turn ev = [] \<or> e_turn ev \<in> retained_turn_ids (s_turns f))) (s_events demo_session))"
    using fork_retains [OF x] f(1) by simp
  then have "length (s_events f) = 1"
    using f(2) by (auto simp: retained_turn_ids_def demo_turn_def demo_session_def demo_event_def dest!: map_eq_imp_length_eq)
  then show ?thesis using x f by blast
qed

subsection \<open>Forking on the SQLite store\<close>

lemma saved_turn_ids_distinct:
  assumes "store_ok (saved_tables s tds d)"
  shows "distinct (map (\<lambda>r. tn_id (tw_turn r)) (filter (\<lambda>r. tw_session r \<noteq> s_id s) (t_turns d)) @ map tn_id (s_turns s))"
proof -
  have "distinct (map (\<lambda>r. tn_id (tw_turn r)) (t_turns (saved_tables s tds d)))"
    using assms by (simp add: store_ok_def session_tables_ok_def)
  then show ?thesis
    unfolding saved_tables_def Let_def by (simp add: delete_turns_def turn_rows_ids)
qed

lemma insert_turns_kept:
  assumes "insert_turns sid cr k ts (d, w) = ((None, ts'), d', w')" and "t \<in> set ts" and "tn_id t \<noteq> []"
  shows "t \<in> set ts'"
  using assms
proof (induction ts arbitrary: k d w ts')
  case (Cons x xs)
  obtain i w1 where i: "fill_id ''turn'' (tn_id x) w = (i, w1)" by fastforce
  let ?r = "\<lparr>tw_session = sid, tw_ordinal = k, tw_turn = stored_turn cr (x\<lparr>tn_id := i\<rparr>)\<rparr>"
  obtain e d1 where r: "insert_turn ?r d = (e, d1)" by fastforce
  obtain e2 ts2 d2 w2 where rest: "insert_turns sid cr (k + 1) xs (d1, w1) = ((e2, ts2), d2, w2)"
    by (metis prod.collapse)
  from Cons.prems(1) r rest have n: "e = None" "e2 = None" "ts' = x\<lparr>tn_id := i\<rparr> # ts2" "d2 = d'" "w2 = w'"
    by (simp_all add: insert_turns_Cons [OF i] split: option.splits)
  have "tn_id x \<noteq> [] \<Longrightarrow> x\<lparr>tn_id := i\<rparr> = x" using i by (simp add: fill_id_def)
  then show ?case using Cons.prems(2,3) Cons.IH [OF rest [unfolded n(2,4,5)]] by (auto simp: n(3))
qed simp

lemma save_session_conflict:
  assumes "sq_save_session s (d, w) = ((e, s'), d', w')" and "store_ok d" and "t \<in> set (s_turns s)" and "tn_id t \<noteq> []"
    and "r \<in> set (t_turns d)" and "tw_session r \<noteq> s_id s" and "tn_id (tw_turn r) = tn_id t" and "s_id s \<noteq> []"
  shows "e \<noteq> None"
proof
  assume e: "e = None"
  obtain s1 w1 where n: "normalize_session s w = (s1, w1)" by fastforce
  have s1: "s_turns s1 = s_turns s" "s_id s1 = s_id s" using normalize_session_fields [of s w] n assms(8) by simp_all
  obtain e2 s2 d2 w2 where tx: "save_session_tx s1 (d, w1) = ((e2, s2), d2, w2)" by (metis prod.collapse)
  have r2: "e2 = None" "s' = s2" "d' = d2" using assms(1) e by (auto simp: sq_save_session_def n tx split: if_splits)
  obtain tds where d2: "d2 = saved_tables s2 tds d" "store_ok d2" "s2 = s1\<lparr>s_turns := s_turns s2, s_events := s_events s2\<rparr>"
    using save_tx_done [OF tx [unfolded r2(1)]] s1(2) assms(2,8) by auto
  have id: "s_id s2 = s_id s" by (subst d2(3)) (simp add: s1(2))
  let ?d1 = "delete_turns (s_id s1) (upsert_session (row_of_session s1) d)"
  obtain e3 ts d3 w3 where t: "insert_turns (s_id s1) (s_created s1) 0 (s_turns s1) (?d1, w1) = ((e3, ts), d3, w3)"
    by (metis prod.collapse)
  have "e3 = None \<and> s_turns s2 = ts"
    using tx t r2(1) by (auto simp: save_session_tx_def Let_def split: option.splits prod.splits)
  then have "t \<in> set (s_turns s2)" using insert_turns_kept [of "s_id s1" _ 0 "s_turns s1" ?d1 w1 ts d3 w3 t] t assms(3,4) s1(1) by simp
  moreover have "distinct (map (\<lambda>r. tn_id (tw_turn r)) (filter (\<lambda>r. tw_session r \<noteq> s_id s) (t_turns d)) @ map tn_id (s_turns s2))"
    using saved_turn_ids_distinct [of s2 tds d] d2(1,2) id by simp
  moreover have "r \<in> set (filter (\<lambda>r. tw_session r \<noteq> s_id s) (t_turns d))" using assms(5,6) by simp
  ultimately show False using assms(7) by (force simp: image_iff)
qed

text \<open>
  C31: on the SQLite store \<open>Fork\<close> never succeeds when a turn is retained. The fork keeps the turns'
  ids, which are a key of the whole table \<open>turns\<close>, so creating the forked session violates it; the
  tables are unchanged.
\<close>

theorem fork_of_turns_fails:
  assumes "store_reach d" and "sq_load_session sid d = Inr src" and "fork_session src at w = (Inr f, w1)"
    and "t \<in> set (s_turns f)" and "tn_id t \<noteq> []"
    and "fork sq_load_session sq_create_session sid at (d, w) = (r, d', w')"
  shows "\<exists>e. r = Inl (ForkStore e) \<and> d' = d"
proof -
  obtain e f' d2 w2 where c: "sq_create_session f (d, w1) = ((e, f'), d2, w2)" by (metis prod.collapse)
  have good: "store_good d" using store_reach_good [OF assms(1)] .
  have fork: "s_id f \<noteq> []" "prefix (s_turns f) (s_turns src)" using fork_retains [OF assms(3)] by simp_all
  have fill: "fill_id ''sess'' (s_id f) w1 = (s_id f, w1)" using fork(1) by (simp add: fill_id_def)
  have "t \<in> set (s_turns src)" using fork(2) assms(4) set_mono_prefix by blast
  moreover have "sessions_in d sid = Some src" using assms(2) by (simp add: sessions_in_load)
  then have "s_turns src = map tw_turn (turns_of d sid)" and has: "has_session d sid"
    using good sessions_in_has [of d sid] by (auto simp: store_good_def sessions_in_eq session_of_def)
  ultimately obtain row where row: "row \<in> set (t_turns d)" "tw_session row = sid" "tw_turn row = t"
    by (auto simp: turns_of_def)
  have "e \<noteq> None \<and> d2 = d"
  proof (cases "has_session d (s_id f)")
    case True
    then show ?thesis using c by (auto simp: sq_create_session_def fill Let_def)
  next
    case False
    then have save: "sq_save_session f (d, w1) = ((e, f'), d2, w2)" using c by (simp add: sq_create_session_def fill Let_def)
    have "tw_session row \<noteq> s_id f" using row(2) has False by auto
    then have "e \<noteq> None"
      using save_session_conflict [OF save _ assms(4,5) row(1)] row(3) good fork(1) by (simp add: store_good_def)
    moreover have "d2 = d" using save by (cases rule: sq_save_session_cases) (simp_all add: \<open>e \<noteq> None\<close>)
    ultimately show ?thesis by simp
  qed
  then show ?thesis using assms(6) by (auto simp: fork_def assms(2,3) c split: option.splits)
qed

theorem fork_of_turns_fails_witness:
  "\<exists>e w'. fork sq_load_session sq_create_session ''s'' [] (demo_store, demo_world) = (Inl (ForkStore e), demo_store, w')"
proof -
  obtain r d' w' where x: "fork sq_load_session sq_create_session ''s'' [] (demo_store, demo_world) = (r, d', w')"
    by (metis prod_cases3)
  have l: "sq_load_session ''s'' demo_store = Inr demo_session" by code_simp
  obtain g w1 where g: "fork_session demo_session [] demo_world = (g, w1)" by fastforce
  have "case fst (fork_session demo_session [] demo_world) of Inr f \<Rightarrow> s_turns f = [demo_turn] | Inl _ \<Rightarrow> False"
    by code_simp
  then obtain f where f: "g = Inr f" "s_turns f = [demo_turn]" using g by (auto split: sum.splits)
  have "demo_turn \<in> set (s_turns f)" "tn_id demo_turn \<noteq> []" by (simp_all add: f(2) demo_turn_def)
  from fork_of_turns_fails [OF demo_store_reach l g [unfolded f(1)] this x] x show ?thesis by auto
qed

subsection \<open>What compaction summarises\<close>

text \<open>
  the summary is built from a slice of the turns: the first \<open>preserveFirst\<close> and the last
  \<open>preserveLast\<close> are left out (a count that is not positive leaves out none), the others appear in
  order, once each.
\<close>

theorem compaction_slice:
  "summary_items ts first lst = map summary_item (drop (nat first) (take (length ts - nat lst) ts))"
proof -
  let ?keep = "\<lambda>i. \<not> should_preserve_index (int i) (int (length ts)) first lst"
  have keep: "?keep i \<longleftrightarrow> nat first \<le> i \<and> i < length ts - nat lst" if "i < length ts" for i
    using that by (auto simp: should_preserve_index_def)
  have slice: "filter (\<lambda>(i, t). a \<le> i \<and> i < b) (enumerate k xs) = drop (a - k) (take (b - k) (enumerate k xs))"
    for a b k :: nat and xs :: "turn list"
  proof (induction xs arbitrary: k)
    case (Cons x xs)
    show ?case
    proof (cases "a \<le> k \<and> k < b")
      case True
      then have "b - k = Suc (b - Suc k)" "a - k = 0" "a - Suc k = 0" by arith+
      then show ?thesis using Cons.IH [of "Suc k"] True by simp
    next
      case False
      then consider "b \<le> k" | "k < a" "k < b" by linarith
      then show ?thesis
      proof cases
        case 1
        then show ?thesis using Cons.IH [of "Suc k"] by simp
      next
        case 2
        then have "b - k = Suc (b - Suc k)" "a - k = Suc (a - Suc k)" by arith+
        then show ?thesis using Cons.IH [of "Suc k"] 2 by simp
      qed
    qed
  qed simp
  have "filter (\<lambda>(i, t). ?keep i) (enumerate 0 ts) =
      filter (\<lambda>(i, t). nat first \<le> i \<and> i < length ts - nat lst) (enumerate 0 ts)"
  proof (rule filter_cong [OF refl])
    fix x assume "x \<in> set (enumerate 0 ts)"
    then have "fst x < length ts" by (auto simp: in_set_enumerate_eq)
    from keep [OF this] show "(case x of (i, t) \<Rightarrow> ?keep i) = (case x of (i, t) \<Rightarrow> nat first \<le> i \<and> i < length ts - nat lst)"
      by (simp add: case_prod_unfold)
  qed
  also have "\<dots> = drop (nat first) (take (length ts - nat lst) (enumerate 0 ts))"
    using slice [of "nat first" "length ts - nat lst" 0 ts] by simp
  finally have "summary_items ts first lst =
      map (summary_item \<circ> snd) (drop (nat first) (take (length ts - nat lst) (enumerate 0 ts)))"
    by (simp add: summary_items_def comp_def case_prod_unfold)
  also have "\<dots> = map summary_item (drop (nat first) (take (length ts - nat lst) (map snd (enumerate 0 ts))))"
    by (simp only: drop_map take_map map_map)
  finally show ?thesis by simp
qed

end
