(* ===== verification/Session_Contract.thy ===== *)
theory Session_Contract
  imports Session_Ops
begin

section \<open>Package session: the contract of a session store and its clients\<close>

text \<open>
  What the runtime and the todo tools rely on, as locales over a store state of any type: \<open>look\<close> is
  the session a load returns, \<open>good\<close> the invariant the operations keep. The SQLite store is the
  instance; the lemmas about the todo tools are proved from the contract alone.
\<close>

subsection \<open>The interfaces\<close>

locale session_view =
  fixes load :: "string \<Rightarrow> 's \<Rightarrow> store_error + session"
    and look :: "'s \<Rightarrow> string \<Rightarrow> session option"
    and good :: "'s \<Rightarrow> bool"
  assumes load_look: "load i s = Inr x \<longleftrightarrow> look s i = Some x"
    and look_id: "look s i = Some x \<Longrightarrow> s_id x = i"

locale todo_store = session_view load look good
  for load :: "string \<Rightarrow> 's \<Rightarrow> store_error + session" and look :: "'s \<Rightarrow> string \<Rightarrow> session option"
    and good :: "'s \<Rightarrow> bool" +
  fixes save_todos :: "string \<Rightarrow> todo list \<Rightarrow> 's \<times> world \<Rightarrow> store_error option \<times> 's \<times> world"
  assumes todos_failed: "good s \<Longrightarrow> save_todos i tds (s, w) = (Some e, s', w') \<Longrightarrow> s' = s"
    and todos_saved: "good s \<Longrightarrow> save_todos i tds (s, w) = (None, s', w') \<Longrightarrow> list_all complete_todo tds \<Longrightarrow>
      good s' \<and> (\<exists>s0 tm. look s i = Some s0 \<and> look s' = (look s)(i \<mapsto> s0\<lparr>s_updated := tm, s_todos := tds\<rparr>))"

locale turn_store = session_view load look good
  for load :: "string \<Rightarrow> 's \<Rightarrow> store_error + session" and look :: "'s \<Rightarrow> string \<Rightarrow> session option"
    and good :: "'s \<Rightarrow> bool" +
  fixes create :: "session \<Rightarrow> 's \<times> world \<Rightarrow> (store_error option \<times> session) \<times> 's \<times> world"
    and append_turn :: "session \<Rightarrow> turn \<Rightarrow> event list \<Rightarrow> 's \<times> world \<Rightarrow> (store_error option \<times> session) \<times> 's \<times> world"
  assumes create_failed: "create x (s, w) = ((Some e, x'), s', w') \<Longrightarrow> s' = s"
    and create_done: "good s \<Longrightarrow> create x (s, w) = ((None, x'), s', w') \<Longrightarrow> s_id x \<noteq> [] \<Longrightarrow>
      s_turns x = [] \<Longrightarrow> s_events x = [] \<Longrightarrow> s_todos x = [] \<Longrightarrow>
      good s' \<and> s_id x' = s_id x \<and> look s (s_id x) = None \<and> look s' = (look s)(s_id x \<mapsto> x') \<and>
      s_turns x' = [] \<and> s_events x' = [] \<and> s_todos x' = []"
    and append_failed: "append_turn x t evs (s, w) = ((Some e, x'), s', w') \<Longrightarrow> s' = s"
    and append_done: "good s \<Longrightarrow> append_turn x t evs (s, w) = ((None, x'), s', w') \<Longrightarrow> s_id x \<noteq> [] \<Longrightarrow>
      own_events (s_id x) evs \<Longrightarrow>
      good s' \<and> s_id x' = s_id x \<and>
      (\<exists>s0 t' evs'. look s (s_id x) = Some s0 \<and> same_turn t t' \<and> length evs' = length evs \<and>
         (list_all complete_event evs \<longrightarrow> evs' = evs) \<and>
         look s' = (look s)(s_id x \<mapsto> x'\<lparr>s_created := s_created s0, s_turns := s_turns s0 @ [t'],
           s_events := s_events s0 @ evs', s_todos := s_todos s0\<rparr>))"

subsection \<open>The todo tools over any store\<close>

definition clock_ok :: "world \<Rightarrow> bool" where
  "clock_ok w \<longleftrightarrow> (\<forall>n. clock w n \<noteq> 0)"

lemma clock_keeps:
  "clock (snd (now w)) = clock w" "clock (snd (new_id p w)) = clock w" "clock (snd (fill_id p i w)) = clock w"
  "clock (snd (fill_time t w)) = clock w" "clock (snd (normalize_todo td w)) = clock w"
  by (auto simp: now_def new_id_def fill_id_def fill_time_def normalize_todo_def Let_def split: prod.splits option.splits)

lemma normalize_todo_complete: "clock_ok w \<Longrightarrow> complete_todo (fst (normalize_todo td w))"
  using clock_keeps(3) [of "''todo''" "td_id td" w] new_id_nonempty [of "''todo''" w]
  by (auto simp: normalize_todo_def fill_id_def fill_time_def now_def complete_todo_def clock_ok_def TodoPending_def
      split: prod.splits if_splits)

lemma normalize_todos_complete: "clock_ok w \<Longrightarrow> list_all complete_todo (fst (normalize_todos tds w))"
proof (induction tds arbitrary: w)
  case (Cons td tds)
  obtain td1 w1 where n: "normalize_todo td w = (td1, w1)" by fastforce
  have "clock_ok w1" using clock_keeps(5) [of td w] Cons.prems n by (simp add: clock_ok_def)
  from Cons.IH [OF this] show ?case
    using normalize_todo_complete [OF Cons.prems, of td] by (cases "normalize_todos tds w1") (simp add: n)
qed simp

lemma update_todos_all: "P td \<Longrightarrow> list_all P tds \<Longrightarrow> list_all P (update_todos td tds)"
proof -
  have "replace_todo td tds = Some out \<Longrightarrow> P td \<Longrightarrow> list_all P tds \<Longrightarrow> list_all P out" for out
    by (induction tds arbitrary: out) (auto split: if_splits)
  then show "P td \<Longrightarrow> list_all P tds \<Longrightarrow> list_all P (update_todos td tds)"
    by (auto simp: update_todos_def split: option.splits)
qed

context todo_store begin

lemma save_todo_list_eq:
  "tp_save_todos p = Some save_todos \<Longrightarrow> save_todo_list p x st = save_todos (s_id x) (s_todos x) st"
  by (simp add: save_todo_list_def)

lemma todo_write_done:
  assumes "good s" and "tp_load p = load" and "tp_save_todos p = Some save_todos" and "clock_ok w"
    and "todo_write p err indent sid items (s, w) = (Returns (out, None), s', w')"
  shows "good s' \<and> (\<exists>s0 tds tm. look s sid = Some s0 \<and> tds = fst (normalize_todos items w) \<and> out = todo_text indent tds \<and>
    look s' = (look s)(sid \<mapsto> s0\<lparr>s_updated := tm, s_todos := tds\<rparr>))"
proof -
  obtain tds w1 where n: "normalize_todos items w = (tds, w1)" by fastforce
  obtain x where x: "load sid s = Inr x" using assms(2,5) by (auto simp: todo_write_def split: sum.splits)
  then have id: "s_id x = sid" using load_look look_id by blast
  obtain e s1 w2 where sv: "save_todos sid tds (s, w1) = (e, s1, w2)" by (metis prod_cases3)
  have r: "e = None" "s1 = s'" "out = todo_text indent tds"
    using assms(2,3,5) x id sv
    by (auto simp: todo_write_def n save_todo_list_def Let_def split: option.splits prod.splits)
  have "list_all complete_todo tds" using normalize_todos_complete [OF assms(4), of items] n by simp
  from todos_saved [OF assms(1) sv [unfolded r(1,2)] this] show ?thesis using r(3) n by auto
qed

lemma todo_update_done:
  assumes "good s" and "tp_load p = load" and "tp_save_todos p = Some save_todos" and "clock_ok w"
    and "look s sid = Some s0" and "list_all complete_todo (s_todos s0)"
    and "todo_update p err indent sid td (s, w) = (Returns (out, None), s', w')"
  shows "good s' \<and> (\<exists>tds tm. tds = update_todos (fst (normalize_todo td w)) (s_todos s0) \<and> out = todo_text indent tds \<and>
    look s' = (look s)(sid \<mapsto> s0\<lparr>s_updated := tm, s_todos := tds\<rparr>))"
proof -
  obtain td1 w1 where n: "normalize_todo td w = (td1, w1)" by fastforce
  have x: "load sid s = Inr s0" and id: "s_id s0 = sid" using assms(5) load_look look_id by blast+
  let ?tds = "update_todos td1 (s_todos s0)"
  obtain e s1 w2 where sv: "save_todos sid ?tds (s, w1) = (e, s1, w2)" by (metis prod_cases3)
  have r: "e = None" "s1 = s'" "out = todo_text indent ?tds"
    using assms(2,3,7) x id sv
    by (auto simp: todo_update_def n save_todo_list_def Let_def split: option.splits prod.splits)
  have "complete_todo td1" using normalize_todo_complete [OF assms(4), of td] n by simp
  then have "list_all complete_todo ?tds" using assms(6) by (rule update_todos_all)
  from todos_saved [OF assms(1) sv [unfolded r(1,2)] this] show ?thesis using r(3) n assms(5) by auto
qed

lemma todo_tools_failed:
  assumes "good s" and "tp_load p = load" and "tp_save_todos p = Some save_todos"
  shows "todo_write p err indent sid items (s, w) = (Returns (out, Some e), s', w') \<Longrightarrow> s' = s"
    and "todo_update p err indent sid td (s, w) = (Returns (out, Some e), s', w') \<Longrightarrow> s' = s"
  using assms todos_failed [OF assms(1)]
  by (auto simp: todo_write_def todo_update_def save_todo_list_def Let_def split: sum.splits option.splits prod.splits)

lemma todo_list_shows:
  "tp_load p = load \<Longrightarrow> look s sid = Some x \<Longrightarrow>
     todo_list p err indent sid call (s, w) = (Returns (zero_result\<lparr>tr_call_id := tc_call_id call,
       tr_name := tc_name call, tr_output := todo_text indent (s_todos x)\<rparr>, None), s, w)"
  using load_look [of sid s x] by (simp add: todo_list_def)

end

subsection \<open>The SQLite store keeps the contract\<close>

lemma sq_create_failed: "sq_create_session x (s, w) = ((Some e, x'), s', w') \<Longrightarrow> s' = s"
  by (auto simp: sq_create_session_def sq_save_session_def Let_def split: prod.splits if_splits)

lemma sq_create_done:
  assumes "store_good d" and "sq_create_session x (d, w) = ((None, x'), d', w')" and "s_id x \<noteq> []"
    and "s_turns x = []" and "s_events x = []" and "s_todos x = []"
  shows "store_good d' \<and> s_id x' = s_id x \<and> sessions_in d (s_id x) = None \<and>
    sessions_in d' = (sessions_in d)(s_id x \<mapsto> x') \<and> s_turns x' = [] \<and> s_events x' = [] \<and> s_todos x' = []"
proof -
  have fill: "fill_id ''sess'' (s_id x) w = (s_id x, w)" using assms(3) by (simp add: fill_id_def)
  have new: "\<not> has_session d (s_id x)" and save: "sq_save_session x (d, w) = ((None, x'), d', w')"
    using assms(2) by (auto simp: sq_create_session_def fill Let_def split: if_splits)
  have own: "own_events (s_id x) (s_events x)" using assms(5) by (simp add: own_events_def)
  have good: "store_good d'" using sq_save_session_good [OF save assms(1) own] .
  from save show ?thesis
  proof (cases rule: sq_save_session_cases)
    case (saved s1 w1 tds)
    have n: "s_turns s1 = []" "s_events s1 = []" "s_todos s1 = []" "s_id s1 = s_id x"
      using normalize_session_fields [of x w] saved(2) assms(3-6) by simp_all
    have tx: "save_session_tx s1 (d, w1) = ((None, s1), saved_tables s1 [] d, w1)"
      by (simp add: save_session_tx_def n replace_todos_def saved_tables_def Let_def delete_turns_def delete_events_def delete_todos_def)
    then have r: "x' = s1" "d' = saved_tables s1 [] d"
      using save by (auto simp: sq_save_session_def saved(2))
    have "sessions_in d (s_id x) = None" using new by (simp add: sessions_in_has)
    moreover have "sessions_in d' = (sessions_in d)(s_id x \<mapsto> s1)"
    proof -
      have eq: "s1\<lparr>s_turns := [], s_todos := []\<rparr> = s1" by (rule session.equality) (simp_all add: n)
      show ?thesis
        using saved_sessions [of d s1 "[]"] assms(1) n calculation by (simp add: eq r store_good_def first_created_def)
    qed
    ultimately show ?thesis using good n by (simp add: r(1))
  qed simp
qed

interpretation sqv: session_view sq_load_session sessions_in store_good
  by unfold_locales (auto simp: sessions_in_load sessions_in_id)

interpretation sqt: todo_store sq_load_session sessions_in store_good sq_save_todos
proof unfold_locales
  fix s i tds w e s' w'
  assume "store_good s" "sq_save_todos i tds (s, w) = (Some e, s', w')"
  then show "s' = s" using sq_save_todos_done by blast
next
  fix s i tds w s' w'
  assume "store_good s" "sq_save_todos i tds (s, w) = (None, s', w')" "list_all complete_todo tds"
  then show "store_good s' \<and>
      (\<exists>s0 tm. sessions_in s i = Some s0 \<and> sessions_in s' = (sessions_in s)(i \<mapsto> s0\<lparr>s_updated := tm, s_todos := tds\<rparr>))"
    using sq_save_todos_done [of i tds s w None s' w'] by auto
qed

interpretation sqr: turn_store sq_load_session sessions_in store_good sq_create_session "sq_append_turn_with_events c" for c
proof unfold_locales
  fix x s w e x' s' w'
  assume "sq_create_session x (s, w) = ((Some e, x'), s', w')"
  then show "s' = s" by (rule sq_create_failed)
next
  fix s x w x' s' w'
  assume "store_good s" "sq_create_session x (s, w) = ((None, x'), s', w')" "s_id x \<noteq> []" "s_turns x = []"
    "s_events x = []" "s_todos x = []"
  then show "store_good s' \<and> s_id x' = s_id x \<and> sessions_in s (s_id x) = None \<and>
      sessions_in s' = (sessions_in s)(s_id x \<mapsto> x') \<and> s_turns x' = [] \<and> s_events x' = [] \<and> s_todos x' = []"
    by (rule sq_create_done)
next
  fix x t evs s w e x' s' w'
  assume "sq_append_turn_with_events c x t evs (s, w) = ((Some e, x'), s', w')"
  then show "s' = s" by (rule sq_append_turn_with_events_failed)
next
  fix s x t evs w x' s' w'
  assume a: "store_good s" "sq_append_turn_with_events c x t evs (s, w) = ((None, x'), s', w')" "s_id x \<noteq> []"
    "own_events (s_id x) evs"
  from sq_append_turn_with_events_done [OF a(2,1,4)] a(3)
  show "store_good s' \<and> s_id x' = s_id x \<and>
      (\<exists>s0 t' evs'. sessions_in s (s_id x) = Some s0 \<and> same_turn t t' \<and> length evs' = length evs \<and>
         (list_all complete_event evs \<longrightarrow> evs' = evs) \<and>
         sessions_in s' = (sessions_in s)(s_id x \<mapsto> x'\<lparr>s_created := s_created s0, s_turns := s_turns s0 @ [t'],
           s_events := s_events s0 @ evs', s_todos := s_todos s0\<rparr>))"
    by (elim exE conjE) (simp, blast)
qed

definition sq_todo_port :: "db todo_port" where
  "sq_todo_port = \<lparr>tp_load = sq_load_session, tp_save_todos = Some sq_save_todos, tp_save = sq_save_session\<rparr>"

lemma sq_todo_port_sel [simp]:
  "tp_load sq_todo_port = sq_load_session" "tp_save_todos sq_todo_port = Some sq_save_todos"
  by (simp_all add: sq_todo_port_def)

subsection \<open>Properties of the todo tools\<close>

text \<open>
  the todo tools on the SQLite store. A successful \<open>todo_write\<close> stores the items it answers with,
  a successful \<open>todo_update\<close> the list in which the todo of that id is replaced in place, or the todo is
  added at the end; the session keeps everything else but its update time, no other session changes, and
  \<open>todo_list\<close> then answers with the same text. A tool that returns an error has changed nothing.
\<close>

theorem todo_tools_roundtrip:
  assumes "store_reach d" and "clock_ok w" and "sessions_in d sid = Some s0" and "list_all complete_todo (s_todos s0)"
    and "todo_write sq_todo_port err indent sid items (d, w) = (Returns (out1, e1), d1, w1)"
    and "todo_update sq_todo_port err indent sid td (d, w) = (Returns (out2, e2), d2, w2)"
  shows "(case e1 of Some _ \<Rightarrow> d1 = d
      | None \<Rightarrow> \<exists>tm. out1 = todo_text indent (fst (normalize_todos items w)) \<and>
          sessions_in d1 = (sessions_in d)(sid \<mapsto> s0\<lparr>s_updated := tm, s_todos := fst (normalize_todos items w)\<rparr>) \<and>
          tr_output (fst (case fst (todo_list sq_todo_port err indent sid call (d1, w1)) of Returns r \<Rightarrow> r)) = out1) \<and>
    (case e2 of Some _ \<Rightarrow> d2 = d
      | None \<Rightarrow> \<exists>tm tds. tds = update_todos (fst (normalize_todo td w)) (s_todos s0) \<and> out2 = todo_text indent tds \<and>
          sessions_in d2 = (sessions_in d)(sid \<mapsto> s0\<lparr>s_updated := tm, s_todos := tds\<rparr>) \<and>
          tr_output (fst (case fst (todo_list sq_todo_port err indent sid call (d2, w2)) of Returns r \<Rightarrow> r)) = out2)"
proof -
  note good = store_reach_good [OF assms(1)]
  note port = sq_todo_port_sel
  have listed: "tr_output (fst (case fst (todo_list sq_todo_port err indent sid call (d', w')) of Returns r \<Rightarrow> r)) =
      todo_text indent (s_todos x)" if "sessions_in d' sid = Some x" for d' w' x
    by (simp add: sqt.todo_list_shows [OF port(1) that])
  have 1: "case e1 of Some _ \<Rightarrow> d1 = d
      | None \<Rightarrow> \<exists>tm. out1 = todo_text indent (fst (normalize_todos items w)) \<and>
          sessions_in d1 = (sessions_in d)(sid \<mapsto> s0\<lparr>s_updated := tm, s_todos := fst (normalize_todos items w)\<rparr>) \<and>
          tr_output (fst (case fst (todo_list sq_todo_port err indent sid call (d1, w1)) of Returns r \<Rightarrow> r)) = out1"
  proof (cases e1)
    case None
    obtain tm where "out1 = todo_text indent (fst (normalize_todos items w))"
      "sessions_in d1 = (sessions_in d)(sid \<mapsto> s0\<lparr>s_updated := tm, s_todos := fst (normalize_todos items w)\<rparr>)"
      using sqt.todo_write_done [OF good port assms(2) assms(5) [unfolded None]] assms(3) by auto
    then show ?thesis using None by (auto simp: listed)
  next
    case (Some e)
    then show ?thesis using sqt.todo_tools_failed(1) [OF good port assms(5) [unfolded Some]] by simp
  qed
  have 2: "case e2 of Some _ \<Rightarrow> d2 = d
      | None \<Rightarrow> \<exists>tm tds. tds = update_todos (fst (normalize_todo td w)) (s_todos s0) \<and> out2 = todo_text indent tds \<and>
          sessions_in d2 = (sessions_in d)(sid \<mapsto> s0\<lparr>s_updated := tm, s_todos := tds\<rparr>) \<and>
          tr_output (fst (case fst (todo_list sq_todo_port err indent sid call (d2, w2)) of Returns r \<Rightarrow> r)) = out2"
  proof (cases e2)
    case None
    obtain tm tds where "tds = update_todos (fst (normalize_todo td w)) (s_todos s0)" "out2 = todo_text indent tds"
      "sessions_in d2 = (sessions_in d)(sid \<mapsto> s0\<lparr>s_updated := tm, s_todos := tds\<rparr>)"
      using sqt.todo_update_done [OF good port assms(2,3,4) assms(6) [unfolded None]] by blast
    then show ?thesis using None by (auto simp: listed)
  next
    case (Some e)
    then show ?thesis using sqt.todo_tools_failed(2) [OF good port assms(6) [unfolded Some]] by simp
  qed
  from 1 2 show ?thesis by blast
qed

definition demo_todo :: todo where
  "demo_todo = \<lparr>td_id = ''d1'', td_content = ''x'', td_status = ''pending'', td_priority = [], td_updated = 5\<rparr>"

theorem todo_tools_roundtrip_witness:
  "\<exists>d1 w1 d2 w2. todo_write sq_todo_port (\<lambda>_. []) (\<lambda>ts. concat (map td_content ts)) ''s'' [demo_todo] (demo_store, demo_world) =
       (Returns (''x'', None), d1, w1) \<and>
     todo_update sq_todo_port (\<lambda>_. []) (\<lambda>ts. concat (map td_content ts)) ''s'' demo_todo (demo_store, demo_world) =
       (Returns (''x'', None), d2, w2) \<and>
     map_option s_todos (sessions_in d2 ''s'') = Some [demo_todo]"
proof -
  let ?i = "\<lambda>ts. concat (map td_content ts)"
  let ?x = "todo_write sq_todo_port (\<lambda>_. []) ?i ''s'' [demo_todo] (demo_store, demo_world)"
  let ?y = "todo_update sq_todo_port (\<lambda>_. []) ?i ''s'' demo_todo (demo_store, demo_world)"
  obtain r1 d1 w1 r2 d2 w2 where x: "?x = (r1, d1, w1)" and y: "?y = (r2, d2, w2)" by (metis prod_cases3)
  have "fst ?x = Returns (''x'', None) \<and> fst ?y = Returns (''x'', None)" by code_simp
  then have r: "r1 = Returns (''x'', None)" "r2 = Returns (''x'', None)" using x y by simp_all
  have s0: "sessions_in demo_store ''s'' = Some demo_session" by code_simp
  have "clock_ok demo_world" by (simp add: clock_ok_def demo_world_def)
  moreover have "list_all complete_todo (s_todos demo_session)" by (simp add: demo_session_def)
  ultimately obtain tm tds where "tds = update_todos (fst (normalize_todo demo_todo demo_world)) (s_todos demo_session)"
    "sessions_in d2 = (sessions_in demo_store)(''s'' \<mapsto> demo_session\<lparr>s_updated := tm, s_todos := tds\<rparr>)"
    using conjunct2 [OF todo_tools_roundtrip [OF demo_store_reach _ s0 _ x [unfolded r(1)] y [unfolded r(2)]]]
    unfolding option.case by blast
  moreover have "update_todos (fst (normalize_todo demo_todo demo_world)) (s_todos demo_session) = [demo_todo]" by code_simp
  ultimately show ?thesis using x y r by simp
qed

end
