(* ===== verification/Agent.thy ===== *)
theory Agent
  imports Session_Types Llm_Tools Redact
begin

section \<open>Package agent: guardrails, tracing and one agent run\<close>

text \<open>
  \<open>agent/agent.go\<close>, \<open>guardrails.go\<close> and \<open>transcript.Add\<close>. Tools, provider and observer act on a
  state of any type beside the clock; the agent's own state is the trace buffer it puts into the context
  of a run. The rendered system prompt (\<open>text/template\<close>), the Unicode part of \<open>strings.ToLower\<close>, the
  quoting of \<open>%q\<close> and the choice of the goroutine scheduler are parameters. A handler runs as one
  step, so the trace events of tools that run in parallel are ordered tool by tool here; nothing below
  depends on the order between two tools.
\<close>

subsection \<open>Guardrails\<close>

type_synonym policy = "string \<times> (string \<Rightarrow> go_error option) option"

record guardrails =
  g_blocked :: "string list"
  g_blocked_output :: "string list"
  g_input_policies :: "policy list"
  g_output_policies :: "policy list"
  g_redact_transcript :: bool

definition check_blocked :: "(string \<Rightarrow> string) \<Rightarrow> string \<Rightarrow> string \<Rightarrow> string list \<Rightarrow> go_error option" where
  "check_blocked u kind text blocked =
     map_option (\<lambda>b. kind @ '' blocked by guardrail: '' @ b)
       (find (\<lambda>b. b \<noteq> [] \<and> contains (go_lower u text) (go_lower u b)) blocked)"

fun check_policies :: "string \<Rightarrow> string \<Rightarrow> policy list \<Rightarrow> go_error option" where
  "check_policies kind text [] = None"
| "check_policies kind text ((name, None) # ps) = check_policies kind text ps"
| "check_policies kind text ((name, Some check) # ps) =
     (let n = (if trim_space name = [] then ''policy'' else trim_space name)
      in case check text of
           Some e \<Rightarrow> Some (kind @ '' blocked by guardrail policy '' @ n @ '': '' @ e)
         | None \<Rightarrow> check_policies kind text ps)"

definition check_input :: "(string \<Rightarrow> string) \<Rightarrow> guardrails \<Rightarrow> string \<Rightarrow> go_error option" where
  "check_input u g text =
     (case check_blocked u ''input'' text (g_blocked g) of
        Some e \<Rightarrow> Some e | None \<Rightarrow> check_policies ''input'' text (g_input_policies g))"

definition check_output :: "(string \<Rightarrow> string) \<Rightarrow> guardrails \<Rightarrow> string \<Rightarrow> go_error option" where
  "check_output u g text =
     (case check_blocked u ''output'' text (g_blocked_output g) of
        Some e \<Rightarrow> Some e | None \<Rightarrow> check_policies ''output'' text (g_output_policies g))"

subsection \<open>Trace events, the observer and the transcript\<close>

record trace_event =
  te_at :: gtime
  te_type :: string
  te_message :: string
  te_tool :: string
  te_error :: string

definition trace_ev :: "string \<Rightarrow> trace_event" where
  "trace_ev ty = \<lparr>te_at = 0, te_type = ty, te_message = [], te_tool = [], te_error = []\<rparr>"

type_synonym 's observer = "trace_event \<Rightarrow> 's \<times> world \<Rightarrow> 's \<times> world"

record 's aworld =
  aw_store :: 's
  aw_env :: world
  aw_trace :: "trace_event list"

definition emit :: "'s observer option \<Rightarrow> bool \<Rightarrow> trace_event \<Rightarrow> 's aworld \<Rightarrow> 's aworld" where
  "emit obs buffered ev aw =
     (let (t, w1) = now (aw_env aw);
          ev1 = ev\<lparr>te_at := t\<rparr>;
          (s, w2) = (case obs of None \<Rightarrow> (aw_store aw, w1) | Some f \<Rightarrow> f ev1 (aw_store aw, w1))
      in \<lparr>aw_store = s, aw_env = w2, aw_trace = (if buffered then aw_trace aw @ [ev1] else aw_trace aw)\<rparr>)"

record transcript_turn =
  xt_at :: gtime
  xt_request :: request
  xt_response :: "response option"
  xt_error :: string

record transcript =
  x_id :: string
  x_created :: gtime
  x_updated :: gtime
  x_turns :: "transcript_turn list"

definition transcript_add :: "request \<Rightarrow> response option \<Rightarrow> go_error option \<Rightarrow> transcript \<Rightarrow> world \<Rightarrow> transcript \<times> world" where
  "transcript_add req resp err x w =
     (let (t, w1) = now w
      in (x\<lparr>x_turns := x_turns x @ [\<lparr>xt_at = t, xt_request = req, xt_response = resp,
             xt_error = (case err of None \<Rightarrow> [] | Some e \<Rightarrow> e)\<rparr>], x_updated := t\<rparr>, w1))"

subsection \<open>The agent\<close>

record 's agent_config =
  ac_name :: string
  ac_provider :: "('s \<times> world) generate option"
  ac_model :: string
  ac_instructions :: string
  ac_context_blocks :: "string list"
  ac_base_request :: request
  ac_tool_set :: "('s \<times> world) tool_set"
  ac_tools :: "tool list"
  ac_tool_handlers :: "('s \<times> world) tool_registry"
  ac_max_iterations :: int
  ac_observer :: "'s observer option"
  ac_guardrails :: guardrails

definition new_agent :: "'s agent_config \<Rightarrow> string + 's agent_config" where
  "new_agent cfg =
     (case ac_provider cfg of
        None \<Rightarrow> Inl ''provider is required''
      | Some _ \<Rightarrow>
          (if ac_model cfg = [] then Inl ''model is required''
           else Inr (cfg\<lparr>ac_name := (if ac_name cfg = [] then ''kkode-agent'' else ac_name cfg),
                  ac_max_iterations := (if ac_max_iterations cfg \<le> 0 then 8 else ac_max_iterations cfg)\<rparr>)))"

definition agent_tools :: "'s agent_config \<Rightarrow> tool list \<times> ('s \<times> world) tool_registry" where
  "agent_tools cfg =
     tool_set_parts (tool_set_merge (tool_set_clone (ac_tool_set cfg)) (new_tool_set (ac_tools cfg) (ac_tool_handlers cfg)))"

text \<open>The Korean heading of the context blocks and the fallback of the system prompt, as bytes.\<close>

definition context_heading :: string where
  "context_heading =
     [CHR 0xEC, CHR 0xB6, CHR 0x94, CHR 0xEA, CHR 0xB0, CHR 0x80] @ '' '' @ [CHR 0xEC, CHR 0x8B, CHR 0xA4,
     CHR 0xED, CHR 0x96, CHR 0x89] @ '' '' @ [CHR 0xEC, CHR 0xBB, CHR 0xA8, CHR 0xED, CHR 0x85, CHR 0x8D,
     CHR 0xEC, CHR 0x8A, CHR 0xA4, CHR 0xED, CHR 0x8A, CHR 0xB8, CHR 0xEC, CHR 0x98, CHR 0x88, CHR 0xEC,
     CHR 0x9A, CHR 0x94] @ ''. '' @ [CHR 0xEC, CHR 0x95, CHR 0x84, CHR 0xEB, CHR 0x9E, CHR 0x98] @
     '' Skill/Subagent '' @ [CHR 0xEC, CHR 0xA7, CHR 0x80, CHR 0xEC, CHR 0xB9, CHR 0xA8, CHR 0xEC, CHR 0x9D,
     CHR 0x80] @ '' '' @ [CHR 0xED, CHR 0x98, CHR 0x84, CHR 0xEC, CHR 0x9E, CHR 0xAC] @ '' run'' @ [CHR 0xEC,
     CHR 0x97, CHR 0x90, CHR 0xEC, CHR 0x84, CHR 0x9C, CHR 0xEB, CHR 0xA7, CHR 0x8C] @ '' '' @ [CHR 0xEC,
     CHR 0xA0, CHR 0x81, CHR 0xEC, CHR 0x9A, CHR 0xA9, CHR 0xED, CHR 0x95, CHR 0xB4, CHR 0xEC, CHR 0x9A,
     CHR 0x94] @ ''.''"

definition system_fallback :: string where
  "system_fallback =
     [CHR 0xEB, CHR 0x84, CHR 0x88, CHR 0xEB, CHR 0x8A, CHR 0x94] @ '' Go '' @ [CHR 0xEB, CHR 0xB0, CHR 0x94,
     CHR 0xEC, CHR 0x9D, CHR 0xB4, CHR 0xEB, CHR 0xB8, CHR 0x8C, CHR 0xEC, CHR 0xBD, CHR 0x94, CHR 0xEB,
     CHR 0x94, CHR 0xA9] @ '' '' @ [CHR 0xEC, CHR 0x97, CHR 0x90, CHR 0xEC, CHR 0x9D, CHR 0xB4, CHR 0xEC,
     CHR 0xA0, CHR 0x84, CHR 0xED, CHR 0x8A, CHR 0xB8, CHR 0xEC, CHR 0x98, CHR 0x88, CHR 0xEC, CHR 0x9A,
     CHR 0x94] @ ''. '' @ [CHR 0xEC, CHR 0x9A, CHR 0x94, CHR 0xEC, CHR 0xB2, CHR 0xAD, CHR 0xEB, CHR 0xB0,
     CHR 0x9B, CHR 0xEC, CHR 0x9D, CHR 0x80] @ '' '' @ [CHR 0xEC, CHR 0x9E, CHR 0x91, CHR 0xEC, CHR 0x97,
     CHR 0x85, CHR 0xEC, CHR 0x9D, CHR 0x84] @ '' '' @ [CHR 0xEB, CHR 0xB0, CHR 0x94, CHR 0xEB, CHR 0xA1,
     CHR 0x9C] @ '' '' @ [CHR 0xEC, CHR 0x88, CHR 0x98, CHR 0xED, CHR 0x96, CHR 0x89, CHR 0xED, CHR 0x95,
     CHR 0x98, CHR 0xEA, CHR 0xB3, CHR 0xA0] @ '', '' @ [CHR 0xEC, CHR 0xB5, CHR 0x9C, CHR 0xEC, CHR 0xA2,
     CHR 0x85] @ '' '' @ [CHR 0xEB, CHR 0x8B, CHR 0xB5, CHR 0xEB, CHR 0xB3, CHR 0x80, CHR 0xEC, CHR 0x97,
     CHR 0x90, CHR 0xEB, CHR 0x8A, CHR 0x94] @ '' '' @ [CHR 0xEC, CHR 0x88, CHR 0x98, CHR 0xED, CHR 0x96,
     CHR 0x89, CHR 0xED, CHR 0x95, CHR 0x9C] @ '' '' @ [CHR 0xEC, CHR 0x9E, CHR 0x91, CHR 0xEC, CHR 0x97,
     CHR 0x85, CHR 0xEA, CHR 0xB3, CHR 0xBC] @ '' '' @ [CHR 0xEA, CHR 0xB2, CHR 0x80, CHR 0xEC, CHR 0xA6,
     CHR 0x9D] @ '' '' @ [CHR 0xEA, CHR 0xB2, CHR 0xB0, CHR 0xEA, CHR 0xB3, CHR 0xBC, CHR 0xEB, CHR 0xA5,
     CHR 0xBC] @ '' '' @ [CHR 0xEC, CHR 0xA7, CHR 0xA7, CHR 0xEA, CHR 0xB2, CHR 0x8C] @ '' '' @ [CHR 0xEC,
     CHR 0xA0, CHR 0x95, CHR 0xEB, CHR 0xA6, CHR 0xAC, CHR 0xED, CHR 0x95, CHR 0xB4, CHR 0xEC, CHR 0x9A,
     CHR 0x94] @ ''.''"

definition append_context_blocks :: "string \<Rightarrow> string list \<Rightarrow> string" where
  "append_context_blocks base blocks =
     (let cleaned = filter (\<lambda>b. b \<noteq> []) (map trim_space blocks); nl = [CHR 0x0A, CHR 0x0A]
      in if cleaned = [] then base
         else trim_space base @ nl @ context_heading @ nl @ join (nl @ ''---'' @ nl) cleaned)"

definition agent_instructions :: "(string \<Rightarrow> string list \<Rightarrow> string option) \<Rightarrow> 's agent_config \<Rightarrow> tool list \<Rightarrow> string" where
  "agent_instructions render cfg tools =
     append_context_blocks
       (if ac_instructions cfg \<noteq> [] then ac_instructions cfg
        else (case render (ac_name cfg) (map t_name tools) of Some out \<Rightarrow> out | None \<Rightarrow> system_fallback))
       (ac_context_blocks cfg)"

definition agent_request :: "(string \<Rightarrow> string list \<Rightarrow> string option) \<Rightarrow> 's agent_config \<Rightarrow> string \<Rightarrow> tool list \<Rightarrow> request" where
  "agent_request render cfg prompt tools =
     (let b = ac_base_request cfg
      in b\<lparr>q_model := ac_model cfg,
           q_instructions := (if q_instructions b = [] then agent_instructions render cfg tools else q_instructions b),
           q_messages := q_messages b @ [user_text prompt],
           q_tools := q_tools b @ tools,
           q_parallel_tool_calls := (case q_parallel_tool_calls b of None \<Rightarrow> Some True | Some x \<Rightarrow> Some x),
           q_store := (case q_store b of None \<Rightarrow> Some False | Some x \<Rightarrow> Some x)\<rparr>)"

definition prepare :: "(string \<Rightarrow> string list \<Rightarrow> string option) \<Rightarrow> 's agent_config \<Rightarrow> string \<Rightarrow>
    request \<times> ('s \<times> world) tool_registry" where
  "prepare render cfg prompt = (let (tools, hs) = agent_tools cfg in (agent_request render cfg prompt tools, hs))"

text \<open>What acts on the state and the clock acts on the agent's world, without touching the trace.\<close>

definition lift_world :: "('s \<times> world \<Rightarrow> 'a \<times> 's \<times> world) \<Rightarrow> 's aworld \<Rightarrow> 'a \<times> 's aworld" where
  "lift_world f aw = (let (x, s, w) = f (aw_store aw, aw_env aw) in (x, aw\<lparr>aw_store := s, aw_env := w\<rparr>))"

definition lift_registry :: "('s \<times> world) tool_registry \<Rightarrow> 's aworld tool_registry" where
  "lift_registry reg = map (\<lambda>(n, h). (n, map_option (\<lambda>f call. lift_world (f call)) h)) reg"

definition nil_call :: string where
  "nil_call = ''runtime error: invalid memory address or nil pointer dereference''"

definition trace_middleware :: "'s observer option \<Rightarrow> 's aworld middleware" where
  "trace_middleware obs name h =
     Some (\<lambda>call aw.
       let aw1 = emit obs True ((trace_ev ''tool.started'')\<lparr>te_tool := name\<rparr>) aw
       in case h of
            None \<Rightarrow> (Panics nil_call, aw1)
          | Some f \<Rightarrow>
              (case f call aw1 of
                 (Panics m, aw2) \<Rightarrow> (Panics m, aw2)
               | (Returns (res, Some e), aw2) \<Rightarrow>
                   (Returns (res, Some e), emit obs True ((trace_ev ''tool.failed'')\<lparr>te_tool := name, te_error := e\<rparr>) aw2)
               | (Returns (res, None), aw2) \<Rightarrow>
                   (Returns (res, None),
                    emit obs True ((trace_ev ''tool.completed'')\<lparr>te_tool := name, te_message := redact_secrets (tr_output res)\<rparr>) aw2)))"

definition trace_tools :: "'s observer option \<Rightarrow> ('s \<times> world) tool_registry \<Rightarrow> 's aworld tool_registry" where
  "trace_tools obs reg = with_middleware [Some (trace_middleware obs)] (lift_registry reg)"

fun loop_error_text :: "loop_error \<Rightarrow> go_error" where
  "loop_error_text ProviderRequired = ''provider is required''"
| "loop_error_text (GenerateFailed e) = e"
| "loop_error_text NilResponse = ''provider returned nil response''"
| "loop_error_text (LoopExceeded n) = ''tool loop exceeded '' @ dec_nat n @ '' iterations''"

record agent_result =
  ar_response :: "response option"
  ar_trace :: "trace_event list"

definition run_options :: "'s agent_config \<Rightarrow> request \<Rightarrow> tool_loop_options" where
  "run_options cfg req =
     \<lparr>tlo_max_iterations = ac_max_iterations cfg,
      tlo_parallel = (case q_parallel_tool_calls req of None \<Rightarrow> True | Some b \<Rightarrow> b), tlo_max_parallel = 0\<rparr>"

definition add_to_transcript :: "request \<Rightarrow> response option \<Rightarrow> go_error option \<Rightarrow> transcript option \<Rightarrow> 's aworld \<Rightarrow>
    transcript option \<times> 's aworld" where
  "add_to_transcript req resp err tx aw =
     (case tx of
        None \<Rightarrow> (None, aw)
      | Some x \<Rightarrow> (let (x1, w1) = transcript_add req resp err x (aw_env aw) in (Some x1, aw\<lparr>aw_env := w1\<rparr>)))"

text \<open>
  How a finished tool loop ends the run: the response and error it returns, and the last trace event.
\<close>

definition run_verdict :: "(string \<Rightarrow> string) \<Rightarrow> guardrails \<Rightarrow> loop_out \<Rightarrow> response option \<times> go_error option \<times> trace_event" where
  "run_verdict u g out =
     (case out of
        LoopResp r \<Rightarrow>
          (case check_output u g (p_text r) of
             Some e \<Rightarrow> (Some r, Some e, (trace_ev ''guardrail.output_blocked'')\<lparr>te_error := e\<rparr>)
           | None \<Rightarrow> (Some r, None, (trace_ev ''agent.completed'')\<lparr>te_message := p_text r\<rparr>))
      | LoopErr e \<Rightarrow> (None, Some (loop_error_text e), (trace_ev ''agent.failed'')\<lparr>te_error := loop_error_text e\<rparr>)
      | LoopPanic m \<Rightarrow> (None, None, trace_ev []))"

text \<open>
  \<open>RunPrepared\<close>: beside what it returns, the requests the provider was given and the transcript.
\<close>

definition run_prepared ::
  "(string \<Rightarrow> string) \<Rightarrow> (string \<Rightarrow> string) \<Rightarrow> 's aworld scheduler \<Rightarrow> 's agent_config \<Rightarrow> string \<Rightarrow> request \<Rightarrow>
   ('s \<times> world) tool_registry \<Rightarrow> transcript option \<Rightarrow> 's \<times> world \<Rightarrow>
     (agent_result option \<times> go_error option) or_panic \<times> request list \<times> transcript option \<times> 's \<times> world" where
  "run_prepared q u par cfg prompt req handlers tx st =
     (let aw = \<lparr>aw_store = fst st, aw_env = snd st, aw_trace = []\<rparr>; obs = ac_observer cfg
      in case check_input u (ac_guardrails cfg) prompt of
           Some e \<Rightarrow>
             (let aw1 = emit obs False ((trace_ev ''guardrail.blocked'')\<lparr>te_error := e\<rparr>) aw
              in (Returns (None, Some e), [], tx, aw_store aw1, aw_env aw1))
         | None \<Rightarrow>
             (let aw1 = emit obs True ((trace_ev ''agent.started'')\<lparr>te_message := prompt\<rparr>) aw;
                  (out, reqs, aw2) = run_tool_loop q par (map_option (\<lambda>gen r. lift_world (gen r)) (ac_provider cfg)) req
                     (trace_tools obs handlers) (run_options cfg req) aw1
              in case out of
                   LoopPanic m \<Rightarrow> (Panics m, reqs, tx, aw_store aw2, aw_env aw2)
                 | _ \<Rightarrow>
                     (let (resp, err, ev) = run_verdict u (ac_guardrails cfg) out;
                          aw3 = emit obs True ev aw2;
                          (tx1, aw4) = add_to_transcript req resp err tx aw3
                      in (Returns (Some \<lparr>ar_response = resp, ar_trace = aw_trace aw4\<rparr>, err), reqs, tx1,
                          aw_store aw4, aw_env aw4))))"

definition agent_run ::
  "(string \<Rightarrow> string list \<Rightarrow> string option) \<Rightarrow> (string \<Rightarrow> string) \<Rightarrow> (string \<Rightarrow> string) \<Rightarrow> 's aworld scheduler \<Rightarrow>
   's agent_config \<Rightarrow> string \<Rightarrow> transcript option \<Rightarrow> 's \<times> world \<Rightarrow>
     (agent_result option \<times> go_error option) or_panic \<times> request list \<times> transcript option \<times> 's \<times> world" where
  "agent_run render q u par cfg prompt tx st =
     (let (req, hs) = prepare render cfg prompt in run_prepared q u par cfg prompt req hs tx st)"

subsection \<open>Invariants of the tool loop\<close>

text \<open>What every handler and the provider keep, the loop keeps, in every interleaving of the goroutines.\<close>

definition handlers_keep :: "('w \<Rightarrow> bool) \<Rightarrow> 'w tool_registry \<Rightarrow> bool" where
  "handlers_keep P tools \<longleftrightarrow> (\<forall>n h call w. (n, Some h) \<in> set tools \<longrightarrow> P w \<longrightarrow> P (snd (h call w)))"

lemma execute_tool_call_keeps:
  assumes "handlers_keep P tools" and "P w"
  shows "P (snd (execute_tool_call q tools call w))"
proof (cases "map_of tools (tc_name call)")
  case None
  then show ?thesis using assms(2) by (simp add: execute_tool_call_def execute_def)
next
  case (Some ho)
  show ?thesis
  proof (cases ho)
    case None
    then show ?thesis using assms(2) Some by (simp add: execute_tool_call_def execute_def)
  next
    case h: (Some h)
    have "(tc_name call, Some h) \<in> set tools" using Some h map_of_SomeD by fastforce
    then have "P (snd (h call w))" using assms by (auto simp: handlers_keep_def)
    then show ?thesis using Some h
      by (cases "h call w") (auto simp: execute_tool_call_def execute_def Let_def split: or_panic.splits prod.splits option.splits)
  qed
qed

lemma execute_seq_keeps: "handlers_keep P tools \<Longrightarrow> P w \<Longrightarrow> P (snd (execute_seq q tools calls w))"
proof (induction calls arbitrary: w)
  case (Cons c cs)
  obtain r w1 where e: "execute_tool_call q tools c w = (r, w1)" by fastforce
  have "P w1" using execute_tool_call_keeps [OF Cons.prems, of q c] e by simp
  from Cons.IH [OF Cons.prems(1) this] show ?case by (cases "execute_seq q tools cs w1") (simp add: e)
qed simp

lemma par_reach_keeps:
  assumes "par_reach q tools ctx_err cap calls w s" and "handlers_keep P tools" and "P w"
  shows "P (ps_world s)"
  using assms(1)
proof (induction rule: par_reach.induct)
  case par_start
  then show ?case using assms(3) by (simp add: par_init_def)
next
  case (par_next s s')
  from par_next.hyps(2) par_next.IH show ?case
  proof (cases rule: par_step.cases)
    case (par_finish i r w')
    then show ?thesis using execute_tool_call_keeps [OF assms(2) par_next.IH, of q "calls ! i"] by simp
  qed simp_all
qed

lemma execute_tool_calls_keeps:
  assumes "admissible q tools ctx_err par" and "handlers_keep P tools" and "P w"
  shows "P (snd (execute_tool_calls q par tools on m calls w))"
proof (cases "\<not> on \<or> length calls < 2")
  case True
  then show ?thesis using execute_seq_keeps [OF assms(2,3)] by (auto simp: execute_tool_calls_def)
next
  case False
  then have "0 < parallel_limit m (length calls)" by (intro parallel_limit_pos) simp
  then obtain s where "par_reach q tools ctx_err (parallel_limit m (length calls)) calls w s"
    "par (parallel_limit m (length calls)) calls w = (ps_results s, ps_world s)"
    using assms(1) unfolding admissible_def by blast
  then show ?thesis using False par_reach_keeps [OF _ assms(2,3)] by (auto simp: execute_tool_calls_def)
qed

lemma tool_loop_keeps:
  assumes "\<And>req w. P w \<Longrightarrow> P (snd (gen req w))" and "\<And>calls w. P w \<Longrightarrow> P (snd (exec calls w))"
    and "P w" and "tool_loop gen exec mx n req w = (out, reqs, w')"
  shows "P w'"
  using assms(3,4)
proof (induction n arbitrary: req w reqs)
  case (Suc n)
  from Suc.prems(2) show ?case
  proof (cases rule: tool_loop_SucE)
    case stop
    then show ?thesis using assms(1) Suc.prems(1) by simp
  next
    case (go resp v results v' reqs')
    have "P v" using assms(1) [OF Suc.prems(1), of req] go(1) by simp
    then have "P v'" using assms(2) [of v "p_tool_calls resp"] go(3) by simp
    then show ?thesis using Suc.IH go(5) by blast
  qed
qed simp

lemma run_tool_loop_keeps:
  assumes "admissible q tools ctx_err par" and "handlers_keep P tools" and "P w"
    and "\<And>gen req w. p = Some gen \<Longrightarrow> P w \<Longrightarrow> P (snd (gen req w))"
    and "run_tool_loop q par p req tools opts w = (out, reqs, w')"
  shows "P w'"
proof (cases p)
  case None
  then show ?thesis using assms(3,5) by (simp add: run_tool_loop_def)
next
  case (Some gen)
  have "\<And>calls v. P v \<Longrightarrow> P (snd (execute_tool_calls q par tools (tlo_parallel opts) (tlo_max_parallel opts) calls v))"
    by (rule execute_tool_calls_keeps [OF assms(1,2)])
  moreover have "tool_loop gen (execute_tool_calls q par tools (tlo_parallel opts) (tlo_max_parallel opts))
      (loop_max opts) (loop_max opts) req w = (out, reqs, w')" using assms(5) Some by (simp add: run_tool_loop_def)
  ultimately show ?thesis using tool_loop_keeps [of P gen] assms(3,4) Some by blast
qed

subsection \<open>The trace of a run\<close>

definition tool_event :: "trace_event \<Rightarrow> bool" where
  "tool_event ev \<longleftrightarrow> te_type ev \<in> {''tool.started'', ''tool.failed'', ''tool.completed''} \<and>
     (te_type ev = ''tool.completed'' \<longrightarrow> secret_free (te_message ev))"

definition tracing :: "trace_event \<Rightarrow> 's aworld \<Rightarrow> bool" where
  "tracing ev aw \<longleftrightarrow> (\<exists>mid. aw_trace aw = ev # mid \<and> list_all tool_event mid)"

lemma emit_trace: "\<exists>t. aw_trace (emit obs b ev aw) = (if b then aw_trace aw @ [ev\<lparr>te_at := t\<rparr>] else aw_trace aw)"
  by (auto simp: emit_def Let_def split: prod.splits)

lemma emit_tracing:
  assumes "tracing e aw" and "\<And>t. tool_event (ev\<lparr>te_at := t\<rparr>)"
  shows "tracing e (emit obs True ev aw)"
proof -
  obtain t where "aw_trace (emit obs True ev aw) = aw_trace aw @ [ev\<lparr>te_at := t\<rparr>]"
    using emit_trace [of obs True ev aw] by auto
  then show ?thesis using assms by (auto simp: tracing_def)
qed

lemma lift_world_trace [simp]: "aw_trace (snd (lift_world f aw)) = aw_trace aw"
  by (simp add: lift_world_def split: prod.splits)

lemma trace_middleware_keeps:
  assumes "\<And>f call aw. h = Some f \<Longrightarrow> tracing e aw \<Longrightarrow> tracing e (snd (f call aw))" and "tracing e aw"
    and "trace_middleware obs n h = Some g"
  shows "tracing e (snd (g call aw))"
proof -
  let ?aw1 = "emit obs True ((trace_ev ''tool.started'')\<lparr>te_tool := n\<rparr>) aw"
  have 1: "tracing e ?aw1" by (rule emit_tracing [OF assms(2)]) (simp add: tool_event_def trace_ev_def)
  show ?thesis
  proof (cases h)
    case None
    then show ?thesis using assms(3) 1 by (auto simp: trace_middleware_def Let_def)
  next
    case (Some f)
    obtain x aw2 where f: "f call ?aw1 = (x, aw2)" by fastforce
    have 2: "tracing e aw2" using assms(1) [OF Some 1, of call] f by simp
    have 3: "tracing e (emit obs True ((trace_ev ''tool.failed'')\<lparr>te_tool := n, te_error := err\<rparr>) aw2)" for err
      by (rule emit_tracing [OF 2]) (simp add: tool_event_def trace_ev_def)
    have 4: "tracing e (emit obs True ((trace_ev ''tool.completed'')\<lparr>te_tool := n, te_message := redact_secrets m\<rparr>) aw2)" for m
      by (rule emit_tracing [OF 2]) (simp add: tool_event_def trace_ev_def)
    show ?thesis
      using assms(3) 2 3 4 Some f by (auto simp: trace_middleware_def Let_def split: or_panic.splits option.splits prod.splits)
  qed
qed

lemma trace_tools_set:
  "(n, x) \<in> set (trace_tools obs reg) \<Longrightarrow> \<exists>h. x = trace_middleware obs n (map_option (\<lambda>f call. lift_world (f call)) h)"
  by (auto simp: trace_tools_def with_middleware_def lift_registry_def wrap_all_def)

lemma trace_tools_keep: "handlers_keep (tracing e) (trace_tools obs reg)"
proof -
  have "tracing e (snd (g call aw))" if mem: "(n, Some g) \<in> set (trace_tools obs reg)" and tr: "tracing e aw" for n g call and aw :: "'a aworld"
  proof -
    obtain h where g: "Some g = trace_middleware obs n (map_option (\<lambda>f call. lift_world (f call)) h)"
      using trace_tools_set [OF mem] by blast
    show ?thesis
      by (rule trace_middleware_keeps [OF _ tr g [symmetric]]) (auto simp: tracing_def)
  qed
  then show ?thesis by (simp add: handlers_keep_def)
qed

lemma secret_free_redact: "secret_free (redact_secrets s)"
  by (rule redact_secret_free)

subsection \<open>Properties\<close>

definition demo_provider :: "(unit \<times> world) generate" where
  "demo_provider req st = (Returns (Some (text_response ''p'' ''m'' ''ok''), None), st)"

definition demo_agent :: "unit agent_config" where
  "demo_agent = \<lparr>ac_name = ''a'', ac_provider = Some demo_provider, ac_model = ''m'', ac_instructions = ''i'',
     ac_context_blocks = [], ac_base_request = zero_request, ac_tool_set = \<lparr>ts_definitions = [], ts_handlers = []\<rparr>,
     ac_tools = [], ac_tool_handlers = [], ac_max_iterations = 8, ac_observer = None,
     ac_guardrails = \<lparr>g_blocked = [''secret''], g_blocked_output = [], g_input_policies = [], g_output_policies = [],
       g_redact_transcript = False\<rparr>\<rparr>"

text \<open>
  C33: a prompt with a blocked substring (compared without case) or one that an input policy rejects never
  reaches the provider or a tool: the run returns an error, hands the provider no request, and its only
  effect is the one trace event the observer is shown.
\<close>

theorem blocked_input_runs_nothing:
  assumes "(\<exists>b \<in> set (g_blocked (ac_guardrails cfg)). b \<noteq> [] \<and> contains (go_lower u prompt) (go_lower u b)) \<or>
    (\<exists>n c e. (n, Some c) \<in> set (g_input_policies (ac_guardrails cfg)) \<and> c prompt = Some e)"
  shows "\<exists>err ev. te_type ev = ''guardrail.blocked'' \<and> te_error ev = err \<and>
    run_prepared q u par cfg prompt req handlers tx (s, w) =
      (Returns (None, Some err), [], tx,
       (case ac_observer cfg of None \<Rightarrow> (s, snd (now w)) | Some f \<Rightarrow> f ev (s, snd (now w))))"
proof -
  have pol: "\<exists>m. check_policies ''input'' prompt ps = Some m" if "(n, Some c) \<in> set ps" "c prompt = Some e" for n c e ps
    using that by (induction "''input''" prompt ps rule: check_policies.induct) (auto simp: Let_def split: option.splits)
  have "\<exists>err. check_input u (ac_guardrails cfg) prompt = Some err"
    using assms
  proof
    assume "\<exists>b \<in> set (g_blocked (ac_guardrails cfg)). b \<noteq> [] \<and> contains (go_lower u prompt) (go_lower u b)"
    then have "find (\<lambda>b. b \<noteq> [] \<and> contains (go_lower u prompt) (go_lower u b)) (g_blocked (ac_guardrails cfg)) \<noteq> None"
      by (auto simp: find_None_iff)
    then show ?thesis by (auto simp: check_input_def check_blocked_def split: option.splits)
  next
    assume "\<exists>n c e. (n, Some c) \<in> set (g_input_policies (ac_guardrails cfg)) \<and> c prompt = Some e"
    then show ?thesis using pol by (fastforce simp: check_input_def split: option.splits)
  qed
  then obtain err where err: "check_input u (ac_guardrails cfg) prompt = Some err" by blast
  let ?ev = "(trace_ev ''guardrail.blocked'')\<lparr>te_error := err, te_at := fst (now w)\<rparr>"
  have "run_prepared q u par cfg prompt req handlers tx (s, w) =
      (Returns (None, Some err), [], tx,
       (case ac_observer cfg of None \<Rightarrow> (s, snd (now w)) | Some f \<Rightarrow> f ?ev (s, snd (now w))))"
    by (cases "now w"; cases "ac_observer cfg") (simp_all add: run_prepared_def err emit_def trace_ev_def Let_def split: prod.splits)
  moreover have "te_type ?ev = ''guardrail.blocked'' \<and> te_error ?ev = err" by (simp add: trace_ev_def)
  ultimately show ?thesis by blast
qed

theorem blocked_input_runs_nothing_witness:
  "\<exists>err. run_prepared id id (turn_scheduler id []) demo_agent ''My SECRET'' zero_request [] None ((), demo_world) =
     (Returns (None, Some err), [], None, (), snd (now demo_world))"
proof -
  have "contains (go_lower id ''My SECRET'') (go_lower id ''secret'')" by code_simp
  then have "\<exists>b \<in> set (g_blocked (ac_guardrails demo_agent)). b \<noteq> [] \<and> contains (go_lower id ''My SECRET'') (go_lower id b)"
    by (simp add: demo_agent_def)
  from blocked_input_runs_nothing [OF disjI1 [OF this], of id "turn_scheduler id []" zero_request "[]" None "()" demo_world]
  show ?thesis by (auto simp: demo_agent_def)
qed

text \<open>
  the trace of a run that returns. It starts with \<open>agent.started\<close> and the prompt, ends with the one
  event that says how the run ended, and has only tool events between, whatever the tools, the
  provider and the scheduler do; a finished tool's event shows no secret. A run without error returns the
  response it reports, and that response passed the output guardrails.
\<close>

theorem run_trace_shape:
  assumes "admissible q (trace_tools (ac_observer cfg) handlers) ctx_err par"
    and "run_prepared q u par cfg prompt req handlers tx st = (Returns (Some r, err), reqs, tx', st')"
  shows "\<exists>first mid end. ar_trace r = first # mid @ [end] \<and> te_type first = ''agent.started'' \<and> te_message first = prompt \<and>
    list_all tool_event mid \<and>
    (case err of
       None \<Rightarrow> te_type end = ''agent.completed'' \<and>
         (\<exists>resp. ar_response r = Some resp \<and> te_message end = p_text resp \<and> check_output u (ac_guardrails cfg) (p_text resp) = None)
     | Some e \<Rightarrow> te_type end \<in> {''agent.failed'', ''guardrail.output_blocked''} \<and> te_error end = e)"
proof -
  let ?obs = "ac_observer cfg" and ?g = "ac_guardrails cfg"
  let ?aw = "\<lparr>aw_store = fst st, aw_env = snd st, aw_trace = []\<rparr>"
  let ?aw1 = "emit ?obs True ((trace_ev ''agent.started'')\<lparr>te_message := prompt\<rparr>) ?aw"
  have ci: "check_input u ?g prompt = None"
    using assms(2) by (auto simp: run_prepared_def Let_def split: option.splits)
  obtain out rs aw2 where lp: "run_tool_loop q par (map_option (\<lambda>gen r. lift_world (gen r)) (ac_provider cfg)) req
      (trace_tools ?obs handlers) (run_options cfg req) ?aw1 = (out, rs, aw2)" by (metis prod_cases3)
  obtain t where t: "aw_trace ?aw1 = [(trace_ev ''agent.started'')\<lparr>te_message := prompt, te_at := t\<rparr>]"
    using emit_trace [of ?obs True "(trace_ev ''agent.started'')\<lparr>te_message := prompt\<rparr>" ?aw] by auto
  let ?first = "(trace_ev ''agent.started'')\<lparr>te_message := prompt, te_at := t\<rparr>"
  have "tracing ?first ?aw1" by (simp add: tracing_def t)
  then have "tracing ?first aw2"
    by (rule run_tool_loop_keeps [OF assms(1) trace_tools_keep _ _ lp]) (auto simp: tracing_def)
  then obtain mid where mid: "aw_trace aw2 = ?first # mid" "list_all tool_event mid" by (auto simp: tracing_def)
  obtain resp e ev where v: "run_verdict u ?g out = (resp, e, ev)" by (metis prod_cases3)
  let ?aw3 = "emit ?obs True ev aw2"
  obtain tx1 aw4 where tx: "add_to_transcript req resp e tx ?aw3 = (tx1, aw4)" by fastforce
  have np: "\<forall>m. out \<noteq> LoopPanic m" using assms(2) by (auto simp: run_prepared_def ci lp Let_def)
  have "run_prepared q u par cfg prompt req handlers tx st =
      (Returns (Some \<lparr>ar_response = resp, ar_trace = aw_trace aw4\<rparr>, e), rs, tx1, aw_store aw4, aw_env aw4)"
    using v np lp tx by (cases out) (simp_all add: run_prepared_def ci Let_def)
  then have res: "r = \<lparr>ar_response = resp, ar_trace = aw_trace aw4\<rparr>" "err = e" using assms(2) by simp_all
  have "aw_trace aw4 = aw_trace ?aw3"
    using tx by (auto simp: add_to_transcript_def Let_def split: option.splits prod.splits)
  moreover obtain t2 where "aw_trace ?aw3 = aw_trace aw2 @ [ev\<lparr>te_at := t2\<rparr>]"
    using emit_trace [of ?obs True ev aw2] by auto
  ultimately have tr: "ar_trace r = ?first # mid @ [ev\<lparr>te_at := t2\<rparr>]" using mid(1) by (simp add: res(1))
  have "case err of
       None \<Rightarrow> te_type (ev\<lparr>te_at := t2\<rparr>) = ''agent.completed'' \<and>
         (\<exists>resp. ar_response r = Some resp \<and> te_message (ev\<lparr>te_at := t2\<rparr>) = p_text resp \<and> check_output u ?g (p_text resp) = None)
     | Some e \<Rightarrow> te_type (ev\<lparr>te_at := t2\<rparr>) \<in> {''agent.failed'', ''guardrail.output_blocked''} \<and> te_error (ev\<lparr>te_at := t2\<rparr>) = e"
    using v np by (cases out) (auto simp: run_verdict_def res trace_ev_def split: option.splits)
  then show ?thesis
    using tr mid(2) by (intro exI [of _ ?first] exI [of _ mid] exI [of _ "ev\<lparr>te_at := t2\<rparr>"]) (simp add: trace_ev_def)
qed

theorem run_trace_shape_witness:
  "\<exists>r tx st first end. run_prepared id id (turn_scheduler id (trace_tools None [])) demo_agent ''hi'' zero_request [] None ((), demo_world) =
     (Returns (Some r, None), [zero_request], tx, st) \<and> ar_trace r = [first, end] \<and> te_type end = ''agent.completed''"
proof -
  let ?x = "run_prepared id id (turn_scheduler id (trace_tools None [])) demo_agent ''hi'' zero_request [] None ((), demo_world)"
  have "case fst ?x of Returns (Some r, None) \<Rightarrow> length (ar_trace r) = 2 | _ \<Rightarrow> False" by code_simp
  then obtain r rs tx st where x: "?x = (Returns (Some r, None), rs, tx, st)" and l: "length (ar_trace r) = 2"
    by (cases ?x) (auto split: or_panic.splits prod.splits option.splits)
  have "fst (snd ?x) = [zero_request]" by code_simp
  then have rs: "rs = [zero_request]" using x by simp
  have "admissible id (trace_tools (ac_observer demo_agent) []) (\<lambda>_. None) (turn_scheduler id (trace_tools None []))"
    using turn_scheduler_admissible by (simp add: demo_agent_def)
  from run_trace_shape [OF this x] obtain f mid e where t: "ar_trace r = f # mid @ [e]" "te_type e = ''agent.completed''" by auto
  then have "mid = []" using l by simp
  then show ?thesis using x rs t by (cases st) auto
qed

end
