(* ===== verification/Runtime.thy ===== *)
theory Runtime
  imports Session_Contract Agent
begin

section \<open>Package kruntime: one run of a session\<close>

text \<open>
  \<open>runtime/runtime.go\<close>: resolving the session, building the request from its history, running the
  agent, recording the turn with its events, compacting, and saving. The store is a record of its
  operations, the optional interfaces \<open>TurnEventStore\<close> and \<open>IncrementalStore\<close> as options. The JSON
  encoding of a trace message and the rendered prompts are parameters.
\<close>

subsection \<open>Configuration\<close>

record 's session_port =
  sp_load :: "string \<Rightarrow> 's \<Rightarrow> store_error + session"
  sp_create :: "session \<Rightarrow> 's \<times> world \<Rightarrow> (store_error option \<times> session) \<times> 's \<times> world"
  sp_save :: "session \<Rightarrow> 's \<times> world \<Rightarrow> (store_error option \<times> session) \<times> 's \<times> world"
  sp_append_event :: "event \<Rightarrow> 's \<times> world \<Rightarrow> store_error option \<times> 's \<times> world"
  sp_turn_events :: "(session \<Rightarrow> turn \<Rightarrow> event list \<Rightarrow> 's \<times> world \<Rightarrow> (store_error option \<times> session) \<times> 's \<times> world) option"
  sp_incremental :: "((string \<Rightarrow> turn \<Rightarrow> 's \<times> world \<Rightarrow> store_error option \<times> 's \<times> world) \<times>
    (session \<Rightarrow> 's \<times> world \<Rightarrow> (store_error option \<times> session) \<times> 's \<times> world)) option"

record 's runtime =
  rt_store :: "'s session_port option"
  rt_agent :: "'s agent_config option"
  rt_root :: string
  rt_provider :: string
  rt_model :: string
  rt_agent_name :: string
  rt_mode :: string
  rt_max_history :: int
  rt_compaction :: compaction_policy
  rt_enable_todos :: bool

record run_opts =
  ro_session :: string
  ro_fork_from :: string
  ro_fork_at :: string
  ro_prompt :: string

text \<open>What the run takes from outside: prompts, codecs, the texts of errors, the todo tools of a session.\<close>

record 's run_env =
  re_render_system :: "string \<Rightarrow> string list \<Rightarrow> string option"
  re_render_summary :: "string \<Rightarrow> string option"
  re_render_compaction :: "smap list \<Rightarrow> string option"
  re_todo_instructions :: string
  re_todo_tools :: "string \<Rightarrow> ('s \<times> world) tool_set"
  re_message_json :: "string \<Rightarrow> raw"
  re_quote :: "string \<Rightarrow> string"
  re_lower :: "string \<Rightarrow> string"
  re_sched :: "'s aworld scheduler"

subsection \<open>The session and its history\<close>

datatype runtime_error =
    StoreRequired | AgentRequired | PromptRequired | ResolveFailed fork_error | SaveFailed store_error | RunFailed go_error

definition resolve_session :: "'s session_port \<Rightarrow> 's runtime \<Rightarrow> run_opts \<Rightarrow> 's \<times> world \<Rightarrow> (fork_error + session) \<times> 's \<times> world" where
  "resolve_session p rt opts st =
     (if ro_fork_from opts \<noteq> [] then fork (sp_load p) (sp_create p) (ro_fork_from opts) (ro_fork_at opts) st
      else if ro_session opts \<noteq> []
      then (case sp_load p (ro_session opts) (fst st) of Inl e \<Rightarrow> (Inl (ForkStore e), st) | Inr s \<Rightarrow> (Inr s, st))
      else
        (let (s, w1) = new_session (rt_root rt) (rt_provider rt) (rt_model rt)
               (if rt_agent_name rt = [] then ''kkode-agent'' else rt_agent_name rt) (rt_mode rt) (snd st)
         in case sp_create p s (fst st, w1) of
              ((Some e, _), st') \<Rightarrow> (Inl (ForkStore e), st')
            | ((None, s'), st') \<Rightarrow> (Inr s', st')))"

definition turn_messages :: "turn \<Rightarrow> message list" where
  "turn_messages t =
     (if trim_space (tn_prompt t) \<noteq> [] then [user_text (tn_prompt t)] else []) @
     (case tn_response t of
        Some r \<Rightarrow> (if trim_space (p_text r) \<noteq> [] then [\<lparr>m_role = RoleAssistant, m_content = p_text r, m_parts = []\<rparr>] else [])
      | None \<Rightarrow> [])"

definition history_messages :: "'s runtime \<Rightarrow> session \<Rightarrow> message list" where
  "history_messages rt s =
     (let ts = s_turns s;
          kept = (if 0 < rt_max_history rt \<and> rt_max_history rt < int (length ts)
                  then drop (length ts - nat (rt_max_history rt)) ts else ts)
      in concat (map turn_messages kept))"

definition summary_prefix :: string where
  "summary_prefix =
     [CHR 0xEC, CHR 0x9D, CHR 0xB4, CHR 0xEC, CHR 0xA0, CHR 0x84] @ '' '' @ [CHR 0xEC, CHR 0x84, CHR 0xB8,
     CHR 0xEC, CHR 0x85, CHR 0x98] @ '' '' @ [CHR 0xEC, CHR 0x9A, CHR 0x94, CHR 0xEC, CHR 0x95, CHR 0xBD,
     CHR 0xEC, CHR 0x9D, CHR 0xB4, CHR 0xEC, CHR 0x97, CHR 0x90, CHR 0xEC, CHR 0x9A, CHR 0x94] @ '':'' @ [CHR 0x0A]"

definition apply_session_context :: "'s run_env \<Rightarrow> 's runtime \<Rightarrow> session \<Rightarrow> request \<Rightarrow> request" where
  "apply_session_context env rt s req =
     (let h0 = history_messages rt s;
          h = (if s_summary s \<noteq> []
               then developer_text (case re_render_summary env (s_summary s) of
                      Some t \<Rightarrow> t | None \<Rightarrow> summary_prefix @ s_summary s) # h0
               else h0);
          req1 = (if h \<noteq> [] then req\<lparr>q_messages := h @ q_messages req\<rparr> else req)
      in if q_previous_response_id req1 = [] \<and> s_last_response s \<noteq> [] \<and> h = []
         then req1\<lparr>q_previous_response_id := s_last_response s\<rparr> else req1)"

subsection \<open>Compaction\<close>

text \<open>
  The threshold is a \<open>float64\<close>. \<open>turns_ratio n\<close> is \<open>float64(n)/20.0\<close> for 6 and more turns as a
  53-bit mantissa and the power of two it is divided by, rounded half to even; a positive finite
  \<open>float64\<close> is its integer mantissa times a power of two.
\<close>

definition turns_ratio :: "nat \<Rightarrow> int \<times> nat" where
  "turns_ratio n =
     (case find (\<lambda>k. 2 ^ 52 * 20 \<le> int n * 2 ^ k) [0..<56] of
        None \<Rightarrow> (0, 0)
      | Some k \<Rightarrow>
          (let x = int n * 2 ^ k; q = x div 20; r = x mod 20
           in (if r > 10 \<or> (r = 10 \<and> odd q) then q + 1 else q, k)))"

definition f64_parts :: "f64 \<Rightarrow> bool \<times> int \<times> int" where
  "f64_parts x = (let n = uint x in (2 ^ 63 \<le> n, n div 2 ^ 52 mod 2048, n mod 2 ^ 52))"

definition f64_nan :: "f64 \<Rightarrow> bool" where
  "f64_nan x = (let (s, e, m) = f64_parts x in e = 2047 \<and> m \<noteq> 0)"

definition f64_nonpositive :: "f64 \<Rightarrow> bool" where
  "f64_nonpositive x = (let (s, e, m) = f64_parts x in \<not> f64_nan x \<and> (s \<or> (e = 0 \<and> m = 0)))"

definition default_threshold :: f64 where
  "default_threshold = 0x3FEB333333333333"

definition ratio_below :: "nat \<Rightarrow> f64 \<Rightarrow> bool" where
  "ratio_below n t =
     (let (a, k) = turns_ratio n; (s, e, m) = f64_parts t;
          mt = (if e = 0 then m else m + 2 ^ 52); et = (if e = 0 then 1 else e) - 1075;
          p = et + int k
      in if f64_nan t then False
         else if e = 2047 then True
         else a * 2 ^ nat (- p) < mt * 2 ^ nat p)"

definition maybe_compact :: "(smap list \<Rightarrow> string option) \<Rightarrow> compaction_policy \<Rightarrow> session \<Rightarrow> session" where
  "maybe_compact render pol s =
     (let threshold = (if f64_nonpositive (cpol_ratio pol) then default_threshold else cpol_ratio pol);
          first = (if cpol_first pol < 0 then 0 else cpol_first pol);
          lst = (if cpol_last pol \<le> 0 then 3 else cpol_last pol)
      in if length (s_turns s) < 6 \<or> ratio_below (length (s_turns s)) threshold then s
         else
           (let summary = build_extractive_summary render s first lst
            in if summary \<noteq> [] then s\<lparr>s_summary := summary\<rparr> else s))"

subsection \<open>Recording the run\<close>

definition append_runtime_event ::
  "session \<Rightarrow> string \<Rightarrow> string \<Rightarrow> string \<Rightarrow> raw \<Rightarrow> string \<Rightarrow> world \<Rightarrow> session \<times> world" where
  "append_runtime_event s tid ty tool payload err w =
     (let (ev, w1) = new_event (s_id s) tid ty w
      in append_event s (ev\<lparr>e_tool := tool, e_payload := payload, e_error := err\<rparr>) w1)"

definition append_trace_event :: "(string \<Rightarrow> raw) \<Rightarrow> session \<Rightarrow> string \<Rightarrow> trace_event \<Rightarrow> world \<Rightarrow> session \<times> world" where
  "append_trace_event json s tid ev w =
     append_runtime_event s tid (te_type ev) (te_tool ev) (json (te_message ev)) (te_error ev) w"

fun append_trace :: "(string \<Rightarrow> raw) \<Rightarrow> session \<Rightarrow> string \<Rightarrow> trace_event list \<Rightarrow> world \<Rightarrow> session \<times> world" where
  "append_trace json s tid [] w = (s, w)"
| "append_trace json s tid (ev # evs) w =
     (let (s1, w1) = append_trace_event json s tid ev w in append_trace json s1 tid evs w1)"

fun append_events :: "(event \<Rightarrow> 's \<times> world \<Rightarrow> store_error option \<times> 's \<times> world) \<Rightarrow> event list \<Rightarrow> 's \<times> world \<Rightarrow>
    store_error option \<times> 's \<times> world" where
  "append_events f [] st = (None, st)"
| "append_events f (ev # evs) st =
     (case f ev st of (Some e, st') \<Rightarrow> (Some e, st') | (None, st') \<Rightarrow> append_events f evs st')"

definition save_session_after_run ::
  "'s session_port \<Rightarrow> session \<Rightarrow> turn \<Rightarrow> nat \<Rightarrow> 's \<times> world \<Rightarrow> (store_error option \<times> session) \<times> 's \<times> world" where
  "save_session_after_run p s t base st =
     (let events = drop base (s_events s)
      in case sp_turn_events p of
           Some f \<Rightarrow> f s t events st
         | None \<Rightarrow>
             (case sp_incremental p of
                Some (add_turn, save_state) \<Rightarrow>
                  (case add_turn (s_id s) t st of
                     (Some e, st1) \<Rightarrow> ((Some e, s), st1)
                   | (None, st1) \<Rightarrow>
                       (case append_events (sp_append_event p) events st1 of
                          (Some e, st2) \<Rightarrow> ((Some e, s), st2)
                        | (None, st2) \<Rightarrow> save_state s st2))
              | None \<Rightarrow> sp_save p s st))"

subsection \<open>A run\<close>

record run_result =
  rr_session :: session
  rr_turn :: turn
  rr_agent :: "agent_result option"

definition add_todo_tools :: "'s run_env \<Rightarrow> string \<Rightarrow> request \<times> ('s \<times> world) tool_registry \<Rightarrow>
    request \<times> ('s \<times> world) tool_registry" where
  "add_todo_tools env sid rh =
     (let (req, handlers) = rh;
          (defs, hs) = tool_set_parts (tool_set_merge (new_tool_set (q_tools req) handlers) (re_todo_tools env sid))
      in (req\<lparr>q_messages := developer_text (re_todo_instructions env) # q_messages req, q_tools := defs\<rparr>, hs))"

text \<open>The request of a run and the registry of its handlers.\<close>

definition run_request :: "'s run_env \<Rightarrow> 's runtime \<Rightarrow> 's agent_config \<Rightarrow> session \<Rightarrow> string \<Rightarrow>
    request \<times> ('s \<times> world) tool_registry" where
  "run_request env rt cfg s prompt =
     (let (req, handlers) = prepare (re_render_system env) cfg prompt;
          rh = (apply_session_context env rt s req, handlers)
      in if rt_enable_todos rt then add_todo_tools env (s_id s) rh else rh)"

text \<open>What the run does to the session after the agent has returned, up to saving it.\<close>

definition record_outcome ::
  "'s run_env \<Rightarrow> 's runtime \<Rightarrow> session \<Rightarrow> turn \<Rightarrow> agent_result option \<Rightarrow> go_error option \<Rightarrow> world \<Rightarrow>
     session \<times> turn \<times> world" where
  "record_outcome env rt s t result err w =
     (let (ended, w1) = now w;
          t1 = t\<lparr>tn_ended := ended\<rparr>;
          (t2, s1, w2) = (case result of
              None \<Rightarrow> (t1, s, w1)
            | Some r \<Rightarrow> (let (s', w') = append_trace (re_message_json env) s (tn_id t) (ar_trace r) w1
                         in (t1\<lparr>tn_response := ar_response r\<rparr>, s', w')));
          (t3, s2, w3) = (case err of
              Some e \<Rightarrow> (let (s', w') = append_runtime_event s1 (tn_id t) ''turn.failed'' [] [] e w2 in (t2\<lparr>tn_error := e\<rparr>, s', w'))
            | None \<Rightarrow> (let (s', w') = append_runtime_event s1 (tn_id t) ''turn.completed'' [] [] [] w2 in (t2, s', w')));
          (s3, w4) = append_turn s2 t3 w3;
          s4 = (if cpol_enabled (rt_compaction rt) then maybe_compact (re_render_compaction env) (rt_compaction rt) s3 else s3)
      in (s4, t3, w4))"

definition runtime_run ::
  "'s run_env \<Rightarrow> 's runtime \<Rightarrow> run_opts \<Rightarrow> transcript option \<Rightarrow> 's \<times> world \<Rightarrow>
     (run_result option \<times> runtime_error option) or_panic \<times> request list \<times> 's \<times> world" where
  "runtime_run env rt opts tx st =
     (case (rt_store rt, rt_agent rt) of
        (None, _) \<Rightarrow> (Returns (None, Some StoreRequired), [], st)
      | (Some p, None) \<Rightarrow> (Returns (None, Some AgentRequired), [], st)
      | (Some p, Some cfg) \<Rightarrow>
          (if trim_space (ro_prompt opts) = [] then (Returns (None, Some PromptRequired), [], st)
           else
             (case resolve_session p rt opts st of
                (Inl e, st1) \<Rightarrow> (Returns (None, Some (ResolveFailed e)), [], st1)
              | (Inr s, d1, w1) \<Rightarrow>
                  (let (req, handlers) = run_request env rt cfg s (ro_prompt opts);
                       base = length (s_events s);
                       (t, w2) = new_turn (ro_prompt opts) req w1;
                       (s1, w3) = append_runtime_event s (tn_id t) ''turn.started'' [] [] [] w2;
                       (started, w4) = now w3;
                       (out, reqs, tx1, d2, w5) = run_prepared (re_quote env) (re_lower env) (re_sched env) cfg (ro_prompt opts)
                          req handlers tx (d1, w4)
                   in case out of
                        Panics m \<Rightarrow> (Panics m, reqs, d2, w5)
                      | Returns (result, err) \<Rightarrow>
                          (let (s2, t2, w6) = record_outcome env rt s1 (t\<lparr>tn_started := started\<rparr>) result err w5;
                               s3 = (if rt_enable_todos rt
                                     then (case sp_load p (s_id s2) d2 of Inr latest \<Rightarrow> s2\<lparr>s_todos := s_todos latest\<rparr> | Inl _ \<Rightarrow> s2)
                                     else s2)
                           in case save_session_after_run p s3 t2 base (d2, w6) of
                                ((Some e, _), st') \<Rightarrow> (Returns (None, Some (SaveFailed e)), reqs, st')
                              | ((None, s4), st') \<Rightarrow>
                                  (Returns (Some \<lparr>rr_session = s4, rr_turn = t2, rr_agent = result\<rparr>,
                                     map_option RunFailed err), reqs, st'))))))"

text \<open>\<open>Resume\<close> and \<open>Fork\<close>.\<close>

definition runtime_resume :: "'s runtime \<Rightarrow> string \<Rightarrow> 's \<Rightarrow> runtime_error + session" where
  "runtime_resume rt sid s =
     (case rt_store rt of
        None \<Rightarrow> Inl StoreRequired
      | Some p \<Rightarrow> (case sp_load p sid s of Inl e \<Rightarrow> Inl (ResolveFailed (ForkStore e)) | Inr x \<Rightarrow> Inr x))"

definition runtime_fork :: "'s runtime \<Rightarrow> string \<Rightarrow> string \<Rightarrow> 's \<times> world \<Rightarrow> (runtime_error + session) \<times> 's \<times> world" where
  "runtime_fork rt sid at st =
     (case rt_store rt of
        None \<Rightarrow> (Inl StoreRequired, st)
      | Some p \<Rightarrow> (case fork (sp_load p) (sp_create p) sid at st of
            (Inl e, st') \<Rightarrow> (Inl (ResolveFailed e), st') | (Inr x, st') \<Rightarrow> (Inr x, st')))"

subsection \<open>What is recorded\<close>

lemma clock_ok_now: "clock_ok w \<Longrightarrow> clock_ok (snd (now w)) \<and> fst (now w) \<noteq> 0"
  by (simp add: clock_ok_def now_def)

lemma clock_ok_new_id: "clock_ok w \<Longrightarrow> clock_ok (snd (new_id p w))"
  by (simp add: clock_ok_def clock_keeps)

definition run_event_of :: "string \<Rightarrow> string \<Rightarrow> event \<Rightarrow> bool" where
  "run_event_of sid tid ev \<longleftrightarrow> complete_event ev \<and> e_session ev = sid \<and> e_turn ev = tid"

text \<open>The session has gained these events; only the time of its last update is new besides.\<close>

definition grown :: "session \<Rightarrow> event list \<Rightarrow> session \<Rightarrow> bool" where
  "grown s evs s' \<longleftrightarrow> s' = s\<lparr>s_events := s_events s @ evs, s_updated := s_updated s'\<rparr>"

lemma grown_fields:
  assumes "grown s evs s'"
  shows "s_id s' = s_id s" "s_turns s' = s_turns s" "s_todos s' = s_todos s" "s_summary s' = s_summary s"
    "s_events s' = s_events s @ evs"
  by (subst assms [unfolded grown_def]; simp)+

lemma grown_refl: "grown s [] s"
  by (simp add: grown_def)

lemma grown_trans: "grown s xs s1 \<Longrightarrow> grown s1 ys s2 \<Longrightarrow> grown s (xs @ ys) s2"
proof -
  assume a: "grown s xs s1" and b: "grown s1 ys s2"
  have "s2 = s1\<lparr>s_events := s_events s1 @ ys, s_updated := s_updated s2\<rparr>" using b unfolding grown_def .
  also have "\<dots> = s\<lparr>s_events := s_events s @ xs @ ys, s_updated := s_updated s2\<rparr>"
    unfolding grown_fields(5) [OF a] by (subst a [unfolded grown_def]) simp
  finally show "grown s (xs @ ys) s2" unfolding grown_def .
qed

lemma append_runtime_event_spec:
  assumes "append_runtime_event s tid ty tool payload err w = (s', w')" and "clock_ok w" and "s_id s \<noteq> []"
  shows "clock_ok w' \<and> (\<exists>ev. run_event_of (s_id s) tid ev \<and> e_type ev = ty \<and> grown s [ev] s')"
proof -
  obtain i w1 where i: "new_id ''ev'' w = (i, w1)" by fastforce
  obtain t w2 where t: "now w1 = (t, w2)" by fastforce
  obtain t3 w3 where t3: "now w2 = (t3, w3)" by fastforce
  have w1: "clock_ok w1" using clock_ok_new_id [OF assms(2), of "''ev''"] i by simp
  have ok: "i \<noteq> []" "t \<noteq> 0" "clock_ok w2"
    using new_id_nonempty [of "''ev''" w] i clock_ok_now [OF w1] t by simp_all
  have w3: "clock_ok w3" using clock_ok_now [OF ok(3)] t3 by simp
  let ?ev = "\<lparr>e_id = i, e_session = s_id s, e_turn = tid, e_at = t, e_type = ty, e_tool = tool, e_payload = payload, e_error = err\<rparr>"
  have eq: "s' = s\<lparr>s_events := s_events s @ [?ev], s_updated := t3\<rparr>" "w' = w3"
    using assms(1,3) ok t3
    by (simp_all add: append_runtime_event_def new_event_def append_event_def touch_def i t Let_def)
  have "grown s [?ev] s'" unfolding grown_def eq(1) by simp
  then show ?thesis using w3 eq(2) ok assms(3)
    by (intro conjI exI [of _ ?ev]) (simp_all add: run_event_of_def complete_event_def)
qed

lemma append_trace_spec:
  assumes "append_trace json s tid evs w = (s', w')" and "clock_ok w" and "s_id s \<noteq> []"
  shows "clock_ok w' \<and> (\<exists>out. list_all (run_event_of (s_id s) tid) out \<and> map e_type out = map te_type evs \<and> grown s out s')"
  using assms
proof (induction evs arbitrary: s w)
  case Nil
  then show ?case using grown_refl by (intro conjI exI [of _ "[]"]) simp_all
next
  case (Cons ev evs)
  obtain s1 w1 where a: "append_trace_event json s tid ev w = (s1, w1)" by fastforce
  have r: "append_trace json s1 tid evs w1 = (s', w')" using Cons.prems(1) a by simp
  obtain e where e: "clock_ok w1" "run_event_of (s_id s) tid e" "e_type e = te_type ev" "grown s [e] s1"
    using append_runtime_event_spec [OF a [unfolded append_trace_event_def] Cons.prems(2,3)] by blast
  have id: "s_id s1 = s_id s" using grown_fields(1) [OF e(4)] .
  obtain out where o: "clock_ok w'" "list_all (run_event_of (s_id s) tid) out" "map e_type out = map te_type evs" "grown s1 out s'"
    using Cons.IH [OF r e(1)] Cons.prems(3) unfolding id by blast
  show ?case using o(1-3) e(2,3) grown_trans [OF e(4) o(4)] by (intro conjI exI [of _ "e # out"]) simp_all
qed

lemma append_turn_spec:
  assumes "append_turn s t w = (s', w')" and "clock_ok w"
  shows "clock_ok w' \<and> s_id s' = s_id s \<and> s_events s' = s_events s \<and> s_todos s' = s_todos s \<and> s_turns s' = s_turns s @ [t]"
  using assms clock_ok_now [of w]
  by (auto simp: append_turn_def touch_def Let_def split: prod.splits option.splits)

lemma maybe_compact_frame:
  "s_id (maybe_compact render pol s) = s_id s" "s_events (maybe_compact render pol s) = s_events s"
  "s_todos (maybe_compact render pol s) = s_todos s" "s_turns (maybe_compact render pol s) = s_turns s"
  by (simp_all add: maybe_compact_def Let_def)

definition outcome_type :: "go_error option \<Rightarrow> string" where
  "outcome_type err = (if err = None then ''turn.completed'' else ''turn.failed'')"

lemma record_outcome_spec:
  assumes "record_outcome env rt s t result err w = (s', t', w')" and "clock_ok w" and "s_id s \<noteq> []"
  shows "clock_ok w' \<and> s_id s' = s_id s \<and> s_todos s' = s_todos s \<and> s_turns s' = s_turns s @ [t'] \<and>
    tn_id t' = tn_id t \<and> tn_prompt t' = tn_prompt t \<and> tn_request t' = tn_request t \<and>
    tn_response t' = (case result of None \<Rightarrow> tn_response t | Some r \<Rightarrow> ar_response r) \<and>
    tn_error t' = (case err of None \<Rightarrow> tn_error t | Some e \<Rightarrow> e) \<and>
    (\<exists>evs. s_events s' = s_events s @ evs \<and> list_all (run_event_of (s_id s) (tn_id t)) evs \<and>
       map e_type evs = map te_type (case result of None \<Rightarrow> [] | Some r \<Rightarrow> ar_trace r) @ [outcome_type err])"
proof -
  obtain ended w1 where t: "now w = (ended, w1)" by fastforce
  have c1: "clock_ok w1" using clock_ok_now [OF assms(2)] t by simp
  let ?t1 = "t\<lparr>tn_ended := ended\<rparr>"
  let ?tr = "case result of None \<Rightarrow> [] | Some r \<Rightarrow> ar_trace r"
  let ?t2 = "case result of None \<Rightarrow> ?t1 | Some r \<Rightarrow> ?t1\<lparr>tn_response := ar_response r\<rparr>"
  obtain s1 w2 where a: "append_trace (re_message_json env) s (tn_id t) ?tr w1 = (s1, w2)" by fastforce
  obtain ev1 where e1: "clock_ok w2" "list_all (run_event_of (s_id s) (tn_id t)) ev1" "map e_type ev1 = map te_type ?tr"
      "grown s ev1 s1"
    using append_trace_spec [OF a c1 assms(3)] by blast
  note f1 = grown_fields [OF e1(4)]
  let ?e = "case err of None \<Rightarrow> [] | Some e \<Rightarrow> e"
  let ?t3 = "case err of None \<Rightarrow> ?t2 | Some e \<Rightarrow> ?t2\<lparr>tn_error := e\<rparr>"
  obtain s2 w3 where b: "append_runtime_event s1 (tn_id t) (outcome_type err) [] [] ?e w2 = (s2, w3)" by fastforce
  have id1: "s_id s1 \<noteq> []" using f1(1) assms(3) by simp
  obtain ev2 where e2: "clock_ok w3" "run_event_of (s_id s1) (tn_id t) ev2" "e_type ev2 = outcome_type err" "grown s1 [ev2] s2"
    using append_runtime_event_spec [OF b e1(1) id1] by blast
  note f2 = grown_fields [OF grown_trans [OF e1(4) e2(4)]]
  obtain s3 w4 where g: "append_turn s2 ?t3 w3 = (s3, w4)" by fastforce
  let ?s4 = "if cpol_enabled (rt_compaction rt) then maybe_compact (re_render_compaction env) (rt_compaction rt) s3 else s3"
  have r: "record_outcome env rt s t result err w = (?s4, ?t3, w4)"
    using a b g by (cases result; cases err) (simp_all add: record_outcome_def t outcome_type_def Let_def)
  have f4: "s_id ?s4 = s_id s3" "s_events ?s4 = s_events s3" "s_todos ?s4 = s_todos s3" "s_turns ?s4 = s_turns s3"
    by (simp_all add: maybe_compact_frame)
  have eq: "s' = ?s4" "t' = ?t3" "w' = w4" using assms(1) r by simp_all
  note ts = append_turn_spec [OF g e2(1)]
  have tf: "tn_id ?t3 = tn_id t" "tn_prompt ?t3 = tn_prompt t" "tn_request ?t3 = tn_request t"
    "tn_response ?t3 = (case result of None \<Rightarrow> tn_response t | Some r \<Rightarrow> ar_response r)"
    "tn_error ?t3 = (case err of None \<Rightarrow> tn_error t | Some e \<Rightarrow> e)"
    by (cases result; cases err; simp)+
  have "\<exists>evs. s_events s' = s_events s @ evs \<and> list_all (run_event_of (s_id s) (tn_id t)) evs \<and>
       map e_type evs = map te_type ?tr @ [outcome_type err]"
    using e1(2,3) e2(2,3) f1(1) f2(5) f4(2) ts by (intro exI [of _ "ev1 @ [ev2]"]) (simp add: eq(1))
  then show ?thesis using ts f2 f4 tf by (simp add: eq)
qed

subsection \<open>What an agent run keeps\<close>

text \<open>
  A condition on the store and the clock that reading the clock, the provider, the handlers and the
  observer keep holds when the agent returns, in every interleaving of the tools.
\<close>

definition agent_keeps :: "('s \<times> world \<Rightarrow> bool) \<Rightarrow> 's agent_config \<Rightarrow> bool" where
  "agent_keeps keep cfg \<longleftrightarrow>
     (case ac_observer cfg of None \<Rightarrow> True | Some f \<Rightarrow> \<forall>ev st. keep st \<longrightarrow> keep (f ev st)) \<and>
     (case ac_provider cfg of None \<Rightarrow> True | Some gen \<Rightarrow> \<forall>req st. keep st \<longrightarrow> keep (snd (gen req st)))"

locale run_invariant =
  fixes keep :: "'s \<times> world \<Rightarrow> bool"
  assumes tick: "keep (s, w) \<Longrightarrow> keep (s, snd (now w))"
begin

abbreviation held :: "'s aworld \<Rightarrow> bool" where
  "held aw \<equiv> keep (aw_store aw, aw_env aw)"

lemma agent_keeps_parts:
  "agent_keeps keep cfg \<Longrightarrow> ac_observer cfg = Some f \<Longrightarrow> keep st \<Longrightarrow> keep (f ev st)"
  "agent_keeps keep cfg \<Longrightarrow> ac_provider cfg = Some gen \<Longrightarrow> keep st \<Longrightarrow> keep (snd (gen req st))"
  by (simp_all add: agent_keeps_def del: split_paired_All)

lemma emit_held:
  assumes "agent_keeps keep cfg" and "held aw"
  shows "held (emit (ac_observer cfg) b ev aw)"
proof -
  obtain t w1 where w1: "now (aw_env aw) = (t, w1)" by fastforce
  have "keep (aw_store aw, w1)" using tick [OF assms(2)] w1 by simp
  then show ?thesis
    using agent_keeps_parts(1) [OF assms(1)] w1
    by (cases "ac_observer cfg") (simp_all add: emit_def Let_def split: prod.splits, metis)
qed

lemma lift_held: "(\<And>st. keep st \<Longrightarrow> keep (snd (f st))) \<Longrightarrow> held aw \<Longrightarrow> held (snd (lift_world f aw))"
  by (cases "f (aw_store aw, aw_env aw)") (fastforce simp: lift_world_def)

lemma traced_held:
  assumes "agent_keeps keep cfg" and "\<And>f call aw. h = Some f \<Longrightarrow> held aw \<Longrightarrow> held (snd (f call aw))"
    and "trace_middleware (ac_observer cfg) n h = Some g" and "held aw"
  shows "held (snd (g call aw))"
proof -
  note em = emit_held [OF assms(1)]
  let ?aw1 = "emit (ac_observer cfg) True ((trace_ev ''tool.started'')\<lparr>te_tool := n\<rparr>) aw"
  have 1: "held ?aw1" by (rule em [OF assms(4)])
  show ?thesis
  proof (cases h)
    case None
    then show ?thesis using assms(3) 1 by (auto simp: trace_middleware_def Let_def)
  next
    case (Some f)
    obtain x aw2 where f: "f call ?aw1 = (x, aw2)" by fastforce
    have "held aw2" using assms(2) [OF Some 1, of call] f by simp
    then show ?thesis
      using assms(3) em [of aw2] Some f by (auto simp: trace_middleware_def Let_def split: or_panic.splits option.splits prod.splits)
  qed
qed

lemma tools_held:
  assumes "agent_keeps keep cfg" and "handlers_keep keep handlers"
  shows "handlers_keep held (trace_tools (ac_observer cfg) handlers)"
proof -
  have "held (snd (g call aw))" if mem: "(n, Some g) \<in> set (trace_tools (ac_observer cfg) handlers)" and aw: "held aw" for n g call aw
  proof -
    obtain h where h: "(n, h) \<in> set handlers"
        and g: "trace_middleware (ac_observer cfg) n (map_option (\<lambda>f call. lift_world (f call)) h) = Some g"
      using mem by (auto simp: trace_tools_def with_middleware_def lift_registry_def wrap_all_def)
    show ?thesis
    proof (rule traced_held [OF assms(1) _ g aw])
      fix f call aw
      assume f: "map_option (\<lambda>f call. lift_world (f call)) h = Some f" and aw: "held aw"
      then obtain f0 where f0: "h = Some f0" "f = (\<lambda>call. lift_world (f0 call))" by auto
      have "keep (snd (f0 call st))" if "keep st" for st
        using assms(2) h f0(1) that unfolding handlers_keep_def by blast
      then show "held (snd (f call aw))" unfolding f0(2) using aw by (rule lift_held)
    qed
  qed
  then show ?thesis by (auto simp: handlers_keep_def)
qed

lemma run_prepared_keeps:
  assumes "agent_keeps keep cfg" and "handlers_keep keep handlers"
    and "admissible q (trace_tools (ac_observer cfg) handlers) ctx_err par" and "keep st"
    and "run_prepared q u par cfg prompt req handlers tx st = (out, reqs, tx', st')"
  shows "keep st'"
proof (cases "check_input u (ac_guardrails cfg) prompt")
  case (Some e)
  have "held \<lparr>aw_store = fst st, aw_env = snd st, aw_trace = []\<rparr>" using assms(4) by simp
  from emit_held [OF assms(1) this] show ?thesis using assms(5) Some by (auto simp: run_prepared_def Let_def)
next
  case None
  let ?obs = "ac_observer cfg"
  let ?aw1 = "emit ?obs True ((trace_ev ''agent.started'')\<lparr>te_message := prompt\<rparr>)
    \<lparr>aw_store = fst st, aw_env = snd st, aw_trace = []\<rparr>"
  obtain lo rs aw2 where lp: "run_tool_loop q par (map_option (\<lambda>gen r. lift_world (gen r)) (ac_provider cfg)) req
      (trace_tools ?obs handlers) (run_options cfg req) ?aw1 = (lo, rs, aw2)" by (metis prod_cases3)
  have "held ?aw1" by (rule emit_held [OF assms(1)]) (simp add: assms(4))
  then have 2: "held aw2"
  proof (rule run_tool_loop_keeps [OF assms(3) tools_held [OF assms(1,2)] _ _ lp])
    fix gen req aw
    assume "map_option (\<lambda>gen r. lift_world (gen r)) (ac_provider cfg) = Some gen" and aw: "held aw"
    then obtain g where g: "ac_provider cfg = Some g" "gen = (\<lambda>r. lift_world (g r))" by auto
    have "keep (snd (g req st))" if "keep st" for st using agent_keeps_parts(2) [OF assms(1) g(1) that] .
    then show "held (snd (gen req aw))" unfolding g(2) using aw by (rule lift_held)
  qed
  obtain resp e ev where v: "run_verdict u (ac_guardrails cfg) lo = (resp, e, ev)" by (metis prod_cases3)
  have 3: "held (emit ?obs True ev aw2)" by (rule emit_held [OF assms(1) 2])
  obtain tx1 aw4 where x: "add_to_transcript req resp e tx (emit ?obs True ev aw2) = (tx1, aw4)" by fastforce
  have 4: "held aw4" using x 3 tick
    by (cases tx; cases "now (aw_env (emit ?obs True ev aw2))")
      (auto simp: add_to_transcript_def transcript_add_def Let_def dest: tick)
  show ?thesis using assms(5) 2 4 lp v x by (cases lo) (auto simp: run_prepared_def None Let_def)
qed

end

definition sane :: "db \<times> world \<Rightarrow> bool" where
  "sane st \<longleftrightarrow> store_good (fst st) \<and> clock_ok (snd st)"

interpretation sane: run_invariant sane
  by unfold_locales (simp add: sane_def clock_ok_now)

subsection \<open>A run on the SQLite store\<close>

definition sqlite_port :: "ctx \<Rightarrow> db session_port" where
  "sqlite_port c =
     \<lparr>sp_load = sq_load_session, sp_create = sq_create_session, sp_save = sq_save_session,
      sp_append_event = sq_append_event c, sp_turn_events = Some (sq_append_turn_with_events c),
      sp_incremental = Some (sq_append_turn c, sq_save_session_state)\<rparr>"

lemma sqlite_port_sel [simp]:
  "sp_load (sqlite_port c) = sq_load_session" "sp_create (sqlite_port c) = sq_create_session"
  "sp_turn_events (sqlite_port c) = Some (sq_append_turn_with_events c)"
  by (simp_all add: sqlite_port_def)

lemma created_id: "sq_create_session x (d, w) = ((None, x'), d', w') \<Longrightarrow> s_id x \<noteq> [] \<Longrightarrow> s_id x' = s_id x"
proof -
  assume c: "sq_create_session x (d, w) = ((None, x'), d', w')" and i: "s_id x \<noteq> []"
  have "fill_id ''sess'' (s_id x) w = (s_id x, w)" using i by (simp add: fill_id_def)
  then have "sq_save_session x (d, w) = ((None, x'), d', w')"
    using c by (auto simp: sq_create_session_def Let_def split: if_splits)
  then show ?thesis
  proof (cases rule: sq_save_session_cases)
    case (saved s1 w1 tds)
    have "s_id x' = s_id s1" by (subst saved(4)) simp
    then show ?thesis using normalize_session_fields(5) [OF i, of w] saved(2) by simp
  qed simp
qed

lemma resolved_id:
  assumes "resolve_session (sqlite_port c) rt opts (d, w) = (Inr s, d1, w1)"
  shows "s_id s \<noteq> []"
proof (cases "ro_fork_from opts = []")
  case False
  then obtain src f w0 where f: "fork_session src (ro_fork_at opts) w = (Inr f, w0)"
      "sq_create_session f (d, w0) = ((None, s), d1, w1)"
    using assms by (auto simp: resolve_session_def fork_def split: sum.splits prod.splits option.splits)
  have "s_id f \<noteq> []" using f(1) new_id_nonempty [of "''sess''" "snd (now w)"]
    by (auto simp: fork_session_def Let_def split: prod.splits if_splits)
  then show ?thesis using created_id [OF f(2)] by simp
next
  case T: True
  show ?thesis
  proof (cases "ro_session opts = []")
    case False
    then show ?thesis using assms T sqv.load_look sqv.look_id
      by (auto simp: resolve_session_def split: sum.splits)
  next
    case True
    then obtain x w0 where x: "new_session (rt_root rt) (rt_provider rt) (rt_model rt)
        (if rt_agent_name rt = [] then ''kkode-agent'' else rt_agent_name rt) (rt_mode rt) w = (x, w0)"
        "sq_create_session x (d, w0) = ((None, s), d1, w1)"
      using assms T by (auto simp: resolve_session_def Let_def split: sum.splits prod.splits option.splits)
    have "s_id x \<noteq> []" using x(1) new_id_nonempty [of "''sess''" "snd (now w)"]
      by (auto simp: new_session_def Let_def split: prod.splits)
    then show ?thesis using created_id [OF x(2)] by simp
  qed
qed

lemma resolve_failed:
  assumes "resolve_session (sqlite_port c) rt opts (d, w) = (Inl e, d1, w1)"
  shows "d1 = d"
  using assms sqr.create_failed
  by (auto simp: resolve_session_def fork_def Let_def split: sum.splits prod.splits option.splits if_splits)

text \<open>The parts of a run that got a session and a store, in order.\<close>

lemma runtime_run_steps:
  assumes "rt_store rt = Some (sqlite_port c)" and "rt_agent rt = Some cfg"
    and "resolve_session (sqlite_port c) rt opts st = (Inr s, d1, w1)" and "clock_ok w1"
    and "trim_space (ro_prompt opts) \<noteq> []" and "s_id s \<noteq> []"
  obtains t s1 ev w2 where "s_id s1 = s_id s" "s_events s1 = s_events s @ [ev]" "run_event_of (s_id s) (tn_id t) ev"
    "e_type ev = ''turn.started''" "clock_ok w2" "tn_prompt t = ro_prompt opts" "tn_response t = None" "tn_error t = []"
    "tn_request t = fst (run_request env rt cfg s (ro_prompt opts))"
    "runtime_run env rt opts tx st =
      (case run_prepared (re_quote env) (re_lower env) (re_sched env) cfg (ro_prompt opts)
              (fst (run_request env rt cfg s (ro_prompt opts))) (snd (run_request env rt cfg s (ro_prompt opts))) tx (d1, w2) of
         (Panics m, reqs, tx1, d2, w3) \<Rightarrow> (Panics m, reqs, d2, w3)
       | (Returns (result, err), reqs, tx1, d2, w3) \<Rightarrow>
           (let (s2, t2, w4) = record_outcome env rt s1 t result err w3;
                s3 = (if rt_enable_todos rt
                      then (case sq_load_session (s_id s2) d2 of Inr latest \<Rightarrow> s2\<lparr>s_todos := s_todos latest\<rparr> | Inl _ \<Rightarrow> s2)
                      else s2)
            in case sq_append_turn_with_events c s3 t2 (drop (length (s_events s)) (s_events s3)) (d2, w4) of
                 ((Some e, _), st') \<Rightarrow> (Returns (None, Some (SaveFailed e)), reqs, st')
               | ((None, s4), st') \<Rightarrow>
                   (Returns (Some \<lparr>rr_session = s4, rr_turn = t2, rr_agent = result\<rparr>, map_option RunFailed err), reqs, st')))"
proof -
  let ?rr = "run_request env rt cfg s (ro_prompt opts)"
  obtain req handlers where rr: "?rr = (req, handlers)" by fastforce
  obtain t w2 where t: "new_turn (ro_prompt opts) req w1 = (t, w2)" by fastforce
  have tf: "clock_ok w2" "tn_prompt t = ro_prompt opts" "tn_response t = None" "tn_error t = []" "tn_request t = req"
    using t clock_ok_now [OF assms(4)] clock_ok_new_id [of "snd (now w1)" "''turn''"]
    by (auto simp: new_turn_def Let_def split: prod.splits)
  obtain s1 w3 where a: "append_runtime_event s (tn_id t) ''turn.started'' [] [] [] w2 = (s1, w3)" by fastforce
  obtain ev where ev: "clock_ok w3" "run_event_of (s_id s) (tn_id t) ev" "e_type ev = ''turn.started''" "grown s [ev] s1"
    using append_runtime_event_spec [OF a tf(1) assms(6)] by blast
  obtain started w4 where n: "now w3 = (started, w4)" by fastforce
  have w4: "clock_ok w4" using clock_ok_now [OF ev(1)] n by simp
  show ?thesis
  proof (rule that [of s1 ev "t\<lparr>tn_started := started\<rparr>" w4])
    show "runtime_run env rt opts tx st =
      (case run_prepared (re_quote env) (re_lower env) (re_sched env) cfg (ro_prompt opts) (fst ?rr) (snd ?rr) tx (d1, w4) of
         (Panics m, reqs, tx1, d2, w3) \<Rightarrow> (Panics m, reqs, d2, w3)
       | (Returns (result, err), reqs, tx1, d2, w3) \<Rightarrow>
           (let (s2, t2, w4) = record_outcome env rt s1 (t\<lparr>tn_started := started\<rparr>) result err w3;
                s3 = (if rt_enable_todos rt
                      then (case sq_load_session (s_id s2) d2 of Inr latest \<Rightarrow> s2\<lparr>s_todos := s_todos latest\<rparr> | Inl _ \<Rightarrow> s2)
                      else s2)
            in case sq_append_turn_with_events c s3 t2 (drop (length (s_events s)) (s_events s3)) (d2, w4) of
                 ((Some e, _), st') \<Rightarrow> (Returns (None, Some (SaveFailed e)), reqs, st')
               | ((None, s4), st') \<Rightarrow>
                   (Returns (Some \<lparr>rr_session = s4, rr_turn = t2, rr_agent = result\<rparr>, map_option RunFailed err), reqs, st')))"
      using assms(1-3,5)
      by (simp add: runtime_run_def rr t a n Let_def save_session_after_run_def split: prod.split or_panic.split)
  qed (use tf ev w4 grown_fields [OF ev(4)] rr in simp_all)
qed

lemma run_events_own: "list_all (run_event_of sid tid) evs \<Longrightarrow> own_events sid evs \<and> list_all complete_event evs"
  by (auto simp: own_events_def run_event_of_def list_all_iff)


text \<open>A runtime over the SQLite store whose agent answers without tools.\<close>

definition demo_sq_agent :: "db agent_config" where
  "demo_sq_agent = \<lparr>ac_name = ''a'',
     ac_provider = Some (\<lambda>req st. (Returns (Some (text_response ''p'' ''m'' ''ok''), None), st)), ac_model = ''m'',
     ac_instructions = ''i'', ac_context_blocks = [], ac_base_request = zero_request,
     ac_tool_set = \<lparr>ts_definitions = [], ts_handlers = []\<rparr>, ac_tools = [], ac_tool_handlers = [],
     ac_max_iterations = 8, ac_observer = None,
     ac_guardrails = \<lparr>g_blocked = [], g_blocked_output = [], g_input_policies = [], g_output_policies = [],
       g_redact_transcript = False\<rparr>\<rparr>"

definition demo_runtime :: "db runtime" where
  "demo_runtime = \<lparr>rt_store = Some (sqlite_port (\<lambda>_. None)), rt_agent = Some demo_sq_agent, rt_root = ''/p'',
     rt_provider = ''openai'', rt_model = ''m'', rt_agent_name = ''a'', rt_mode = [], rt_max_history = 1,
     rt_compaction = \<lparr>cpol_enabled = False, cpol_ratio = 0, cpol_first = 0, cpol_last = 0, cpol_summary_model = [], cpol_max_tokens = 0\<rparr>,
     rt_enable_todos = False\<rparr>"

definition demo_env :: "db run_env" where
  "demo_env = \<lparr>re_render_system = (\<lambda>_ _. None), re_render_summary = (\<lambda>_. None), re_render_compaction = (\<lambda>_. None),
     re_todo_instructions = [], re_todo_tools = (\<lambda>_. \<lparr>ts_definitions = [], ts_handlers = []\<rparr>),
     re_message_json = id, re_quote = id, re_lower = id, re_sched = turn_scheduler id []\<rparr>"

definition demo_run_opts :: run_opts where
  "demo_run_opts = \<lparr>ro_session = ''s'', ro_fork_from = [], ro_fork_at = [], ro_prompt = ''next''\<rparr>"

lemma demo_resolved:
  "resolve_session (sqlite_port (\<lambda>_. None)) demo_runtime demo_run_opts (demo_store, demo_world) = (Inr demo_session, demo_store, demo_world)"
proof -
  have "sq_load_session ''s'' demo_store = Inr demo_session" by code_simp
  then show ?thesis by (simp add: resolve_session_def demo_run_opts_def)
qed

lemma demo_sane: "sane (demo_store, demo_world)"
  using store_reach_good [OF demo_store_reach] by (simp add: sane_def clock_ok_def demo_world_def)


text \<open>
  a run that returns no result. Either the provider was never asked and the store is untouched (no agent, a
  blank prompt, a session that does not resolve), or the agent ran, saving the turn failed, and the store
  is exactly what the agent left: of the turn and its events nothing is stored.
\<close>

theorem runtime_run_errors:
  assumes "rt_store rt = Some (sqlite_port c)"
    and "runtime_run env rt opts tx (d, w) = (Returns (None, err), reqs, d', w')"
  shows "(reqs = [] \<and> d' = d \<and> (case err of Some e \<Rightarrow> e = AgentRequired \<or> e = PromptRequired \<or> (\<exists>x. e = ResolveFailed x) | None \<Rightarrow> False)) \<or>
    (\<exists>e s d1 w1 cfg w2 out tx' w3. err = Some (SaveFailed e) \<and> rt_agent rt = Some cfg \<and>
       resolve_session (sqlite_port c) rt opts (d, w) = (Inr s, d1, w1) \<and>
       run_prepared (re_quote env) (re_lower env) (re_sched env) cfg (ro_prompt opts)
         (fst (run_request env rt cfg s (ro_prompt opts))) (snd (run_request env rt cfg s (ro_prompt opts))) tx (d1, w2) =
         (Returns out, reqs, tx', d', w3))"
proof (cases "rt_agent rt")
  case None
  then show ?thesis using assms by (auto simp: runtime_run_def)
next
  case (Some cfg)
  show ?thesis
  proof (cases "trim_space (ro_prompt opts) = []")
    case True
    then show ?thesis using assms Some by (auto simp: runtime_run_def)
  next
    case prompt: False
    obtain res d1 w1 where r: "resolve_session (sqlite_port c) rt opts (d, w) = (res, d1, w1)" by (metis prod_cases3)
    show ?thesis
    proof (cases res)
      case (Inl e)
      then show ?thesis using assms Some prompt r resolve_failed [of c rt opts d w e d1 w1] by (auto simp: runtime_run_def)
    next
      case (Inr s)
      obtain req handlers where rq: "run_request env rt cfg s (ro_prompt opts) = (req, handlers)" by fastforce
      obtain t w2 where t: "new_turn (ro_prompt opts) req w1 = (t, w2)" by fastforce
      obtain s1 w3 where s1: "append_runtime_event s (tn_id t) ''turn.started'' [] [] [] w2 = (s1, w3)" by fastforce
      obtain started w4 where n: "now w3 = (started, w4)" by fastforce
      obtain out rs tx1 d2 w5 where rp: "run_prepared (re_quote env) (re_lower env) (re_sched env) cfg (ro_prompt opts)
          req handlers tx (d1, w4) = (out, rs, tx1, d2, w5)" by (metis prod_cases5)
      obtain result rerr where out: "out = Returns (result, rerr)"
        using assms by (cases out) (auto simp: runtime_run_def Some r Inr prompt rq t s1 n rp Let_def)
      have "\<exists>e. err = Some (SaveFailed e) \<and> d' = d2 \<and> reqs = rs"
        using assms(2) sqr.append_failed
        by (auto simp: runtime_run_def assms(1) Some r Inr prompt rq t s1 n rp out Let_def save_session_after_run_def
            split: prod.splits option.splits)
      then show ?thesis using Some r Inr rq rp out by auto
    qed
  qed
qed

theorem runtime_run_errors_witness:
  "fst (snd (runtime_run demo_env demo_runtime (demo_run_opts\<lparr>ro_session := ''none''\<rparr>) None (demo_store, demo_world))) = []"
proof -
  let ?x = "runtime_run demo_env demo_runtime (demo_run_opts\<lparr>ro_session := ''none''\<rparr>) None (demo_store, demo_world)"
  have "case fst ?x of Returns (None, Some (ResolveFailed _)) \<Rightarrow> True | _ \<Rightarrow> False" by code_simp
  then obtain e reqs d' w' where x: "?x = (Returns (None, Some (ResolveFailed e)), reqs, d', w')"
    by (cases ?x) (auto split: or_panic.splits prod.splits option.splits runtime_error.splits)
  have p: "rt_store demo_runtime = Some (sqlite_port (\<lambda>_. None))" by (simp add: demo_runtime_def)
  from runtime_run_errors [OF p x] show ?thesis by (auto simp: x)
qed

text \<open>
  the request of a run. Its messages are at most one todo instruction and one session summary, the
  history of the session, the messages of the agent's base request and the prompt, in this order. With
  \<open>MaxHistoryTurns\<close> set the history shows the last that many turns only, so it has at most
  twice that many messages; a stored response id is used only when there is no history to send.
\<close>

theorem run_request_window:
  assumes "run_request env rt cfg s prompt = (req, handlers)"
  shows "\<exists>pre hist. q_messages req = pre @ hist @ q_messages (ac_base_request cfg) @ [user_text prompt] \<and>
    length pre \<le> (if rt_enable_todos rt then 1 else 0) + (if s_summary s = [] then 0 else 1) \<and>
    list_all (\<lambda>m. m_role m = RoleDeveloper) pre \<and>
    hist = concat (map turn_messages (if 0 < rt_max_history rt
        then drop (length (s_turns s) - nat (rt_max_history rt)) (s_turns s) else s_turns s)) \<and>
    (0 < rt_max_history rt \<longrightarrow> int (length hist) \<le> 2 * rt_max_history rt) \<and>
    (q_previous_response_id req \<noteq> q_previous_response_id (ac_base_request cfg) \<longrightarrow>
       q_previous_response_id req = s_last_response s \<and> hist = [] \<and> s_summary s = [])"
proof -
  let ?n = "rt_max_history rt" and ?ts = "s_turns s"
  let ?kept = "if 0 < ?n then drop (length ?ts - nat ?n) ?ts else ?ts"
  have h: "history_messages rt s = concat (map turn_messages ?kept)"
    by (auto simp: history_messages_def Let_def)
  have two: "length (concat (map turn_messages ts)) \<le> 2 * length ts" for ts
    by (induction ts) (auto simp: turn_messages_def split: option.splits)
  have bound: "int (length (history_messages rt s)) \<le> 2 * ?n" if "0 < ?n"
    using two [of ?kept] that by (auto simp: h)
  obtain todo where p: "q_messages req = todo @ q_messages (apply_session_context env rt s (fst (prepare (re_render_system env) cfg prompt)))"
    "length todo = (if rt_enable_todos rt then 1 else 0)" "list_all (\<lambda>m. m_role m = RoleDeveloper) todo"
    "q_previous_response_id req = q_previous_response_id (apply_session_context env rt s (fst (prepare (re_render_system env) cfg prompt)))"
    using assms
    by (cases "rt_enable_todos rt")
      (auto simp: run_request_def add_todo_tools_def developer_text_def Let_def split: prod.splits
        intro: that [of "[developer_text (re_todo_instructions env)]"] that [of "[]"])
  have base: "q_messages (fst (prepare (re_render_system env) cfg prompt)) = q_messages (ac_base_request cfg) @ [user_text prompt]"
    "q_previous_response_id (fst (prepare (re_render_system env) cfg prompt)) = q_previous_response_id (ac_base_request cfg)"
    by (simp_all add: prepare_def agent_request_def Let_def split: prod.splits)
  obtain sum where q: "q_messages (apply_session_context env rt s (fst (prepare (re_render_system env) cfg prompt))) =
      sum @ history_messages rt s @ q_messages (ac_base_request cfg) @ [user_text prompt]"
    "length sum = (if s_summary s = [] then 0 else 1)" "list_all (\<lambda>m. m_role m = RoleDeveloper) sum"
  proof (cases "s_summary s = []")
    case True
    then show ?thesis using base by (intro that [of "[]"]) (simp_all add: apply_session_context_def Let_def)
  next
    case False
    then show ?thesis using base
      by (intro that [of "[developer_text (case re_render_summary env (s_summary s) of
              Some t \<Rightarrow> t | None \<Rightarrow> summary_prefix @ s_summary s)]"])
        (simp_all add: apply_session_context_def developer_text_def Let_def)
  qed
  have prev: "q_previous_response_id req = s_last_response s \<and> history_messages rt s = [] \<and> s_summary s = []"
    if "q_previous_response_id req \<noteq> q_previous_response_id (ac_base_request cfg)"
    using that p(4) base(2) by (auto simp: apply_session_context_def Let_def split: if_splits)
  show ?thesis
    using p(1-3) q bound prev
    by (intro exI [of _ "todo @ sum"] exI [of _ "history_messages rt s"]) (simp add: h)
qed

theorem run_request_window_witness:
  "\<exists>pre hist. q_messages (fst (run_request demo_env demo_runtime demo_sq_agent demo_session ''next'')) = pre @ hist @ [user_text ''next''] \<and>
     length hist \<le> 2"
proof -
  obtain req handlers where rq: "run_request demo_env demo_runtime demo_sq_agent demo_session ''next'' = (req, handlers)" by fastforce
  have c: "q_messages (ac_base_request demo_sq_agent) = []" "rt_max_history demo_runtime = 1"
    by (simp_all add: demo_sq_agent_def demo_runtime_def zero_request_def)
  from run_request_window [OF rq] obtain pre hist where
    "q_messages req = pre @ hist @ q_messages (ac_base_request demo_sq_agent) @ [user_text ''next'']"
    "0 < rt_max_history demo_runtime \<longrightarrow> int (length hist) \<le> 2 * rt_max_history demo_runtime" by blast
  then show ?thesis unfolding rq c by auto
qed

end
