(* ===== verification/Go_Path.thy ===== *)
theory Go_Path
  imports Go_Base
begin

section \<open>Package path/filepath on Unix\<close>

text \<open>
  The lexical operations the workspace uses. A path is cut at its slashes; cleaning drops empty and
  \<open>.\<close> components and lets \<open>..\<close> remove the component before it. The lemmas give absolute
  cleaned paths their normal form: a slash before each of a list of plain components.
\<close>

subsection \<open>Cleaning, joining, relating\<close>

definition is_abs :: "string \<Rightarrow> bool" where
  "is_abs s = has_prefix ''/'' s"

definition path_parts :: "string \<Rightarrow> string list" where
  "path_parts s = filter (\<lambda>p. p \<noteq> []) (split_on (CHR ''/'') s)"

fun clean_parts :: "bool \<Rightarrow> string list \<Rightarrow> string list \<Rightarrow> string list" where
  "clean_parts rooted out [] = rev out"
| "clean_parts rooted out (p # ps) =
     (if p = ''.'' then clean_parts rooted out ps
      else if p = ''..'' then
        (if out \<noteq> [] \<and> hd out \<noteq> ''..'' then clean_parts rooted (tl out) ps
         else if rooted then clean_parts rooted out ps
         else clean_parts rooted (''..'' # out) ps)
      else clean_parts rooted (p # out) ps)"

definition abs_path :: "string list \<Rightarrow> string" where
  "abs_path cs = ''/'' @ join ''/'' cs"

definition path_clean :: "string \<Rightarrow> string" where
  "path_clean s =
     (let cs = clean_parts (is_abs s) [] (path_parts s)
      in if is_abs s then abs_path cs else if cs = [] then ''.'' else join ''/'' cs)"

definition path_join :: "string \<Rightarrow> string \<Rightarrow> string" where
  "path_join a b =
     (if a = [] then (if b = [] then [] else path_clean b) else if b = [] then path_clean a else path_clean (a @ ''/'' @ b))"

definition path_dir :: "string \<Rightarrow> string" where
  "path_dir s = path_clean (rev (dropWhile (\<lambda>c. c \<noteq> CHR ''/'') (rev s)))"

fun drop_common :: "string list \<Rightarrow> string list \<Rightarrow> string list \<times> string list" where
  "drop_common (x # xs) (y # ys) = (if x = y then drop_common xs ys else (x # xs, y # ys))"
| "drop_common xs ys = (xs, ys)"

definition path_rel :: "string \<Rightarrow> string \<Rightarrow> string option" where
  "path_rel base targ =
     (let b = path_clean base; t = path_clean targ
      in if b = t then Some ''.''
         else if is_abs b \<noteq> is_abs t then None
         else
           (let (bs, ts) = drop_common (if b = ''.'' then [] else path_parts b) (path_parts t)
            in if bs \<noteq> [] \<and> hd bs = ''..'' then None
               else Some (join ''/'' (map (\<lambda>_. ''..'') bs @ ts))))"

subsection \<open>The normal form of absolute paths\<close>

definition plain :: "string \<Rightarrow> bool" where
  "plain p \<longleftrightarrow> p \<noteq> [] \<and> p \<noteq> ''.'' \<and> p \<noteq> ''..'' \<and> CHR ''/'' \<notin> set p"

lemma split_on_append: "c \<notin> set x \<Longrightarrow> split_on c (x @ c # s) = x # split_on c s"
  by (induction x) auto

lemma split_on_id: "c \<notin> set x \<Longrightarrow> split_on c x = [x]"
  by (induction x) auto

lemma split_on_join:
  "cs \<noteq> [] \<Longrightarrow> list_all (\<lambda>p. c \<notin> set p) cs \<Longrightarrow> split_on c (join [c] cs) = cs"
  by (induction "[c]" cs rule: join.induct) (simp_all add: split_on_id split_on_append)

lemma plain_list:
  assumes "list_all plain cs"
  shows "list_all (\<lambda>p. CHR ''/'' \<notin> set p) cs" "filter (\<lambda>p. p \<noteq> []) cs = cs"
  using assms by (induction cs) (auto simp: plain_def)

lemma parts_join [simp]: "list_all plain cs \<Longrightarrow> path_parts (join ''/'' cs) = cs"
  using plain_list [of cs] by (cases "cs = []") (simp_all add: path_parts_def split_on_join)

lemma parts_slash [simp]: "path_parts (CHR ''/'' # s) = path_parts s"
  by (simp add: path_parts_def)

lemma parts_abs [simp]: "list_all plain cs \<Longrightarrow> path_parts (abs_path cs) = cs"
  by (simp add: abs_path_def)

lemma parts_append: "path_parts (a @ CHR ''/'' # b) = path_parts a @ path_parts b"
proof -
  have "split_on c (a @ c # b) = split_on c a @ split_on c b" for c :: char
  proof (induction a)
    case (Cons x xs)
    then show ?case by (cases "split_on c xs") auto
  qed simp
  then show ?thesis by (simp add: path_parts_def)
qed

lemma is_abs_abs [simp]: "is_abs (abs_path cs)"
  by (simp add: is_abs_def abs_path_def)

lemma path_parts_plain: "p \<in> set (path_parts s) \<Longrightarrow> p \<noteq> [] \<and> CHR ''/'' \<notin> set p"
  using split_on_no_sep [of p "CHR ''/''" s] by (auto simp: path_parts_def)

lemma clean_parts_plain:
  "list_all plain out \<Longrightarrow> list_all (\<lambda>p. p \<noteq> [] \<and> CHR ''/'' \<notin> set p) ps \<Longrightarrow> list_all plain (clean_parts True out ps)"
proof (induction True out ps rule: clean_parts.induct)
  case (2 out p ps)
  then show ?case by (cases out) (auto simp: plain_def)
qed (simp add: list_all_iff)

lemma clean_parts_id: "list_all plain ps \<Longrightarrow> clean_parts r out ps = rev out @ ps"
  by (induction ps arbitrary: out) (auto simp: plain_def)

lemma clean_abs:
  assumes "is_abs s"
  obtains cs where "list_all plain cs" "path_clean s = abs_path cs" "path_parts (path_clean s) = cs"
proof -
  let ?cs = "clean_parts True [] (path_parts s)"
  have "list_all plain ?cs"
    by (rule clean_parts_plain) (auto simp: list_all_iff dest: path_parts_plain)
  then show ?thesis using that [of ?cs] assms by (simp add: path_clean_def)
qed

lemma clean_abs_path [simp]: "list_all plain cs \<Longrightarrow> path_clean (abs_path cs) = abs_path cs"
  by (simp add: path_clean_def clean_parts_id)

lemma path_clean_idem: "is_abs s \<Longrightarrow> path_clean (path_clean s) = path_clean s"
  by (metis clean_abs clean_abs_path)

lemma abs_path_inject: "list_all plain cs \<Longrightarrow> list_all plain ds \<Longrightarrow> abs_path cs = abs_path ds \<longleftrightarrow> cs = ds"
  by (metis parts_abs)

lemma abs_path_append: "cs \<noteq> [] \<Longrightarrow> ds \<noteq> [] \<Longrightarrow> abs_path (cs @ ds) = abs_path cs @ abs_path ds"
proof (induction cs)
  case (Cons c cs)
  then show ?case by (cases cs; cases ds) (auto simp: abs_path_def)
qed simp

text \<open>For absolute clean paths, a prefix up to a slash is a prefix of the components.\<close>

lemma inside_iff:
  assumes "list_all plain rs" and "list_all plain cs" and "rs \<noteq> []"
  shows "has_prefix (abs_path rs @ ''/'') (abs_path cs) \<longleftrightarrow> strict_prefix rs cs"
proof
  assume "has_prefix (abs_path rs @ ''/'') (abs_path cs)"
  then obtain t where t: "abs_path cs = abs_path rs @ ''/'' @ t" by (auto simp: has_prefix_iff prefix_def)
  have "cs = path_parts (abs_path cs)" using assms(2) by simp
  also have "\<dots> = rs @ path_parts t" using parts_append [of "abs_path rs" t] assms(1) by (simp add: t)
  finally have cs: "cs = rs @ path_parts t" .
  moreover have "path_parts t \<noteq> []" using t cs by auto
  ultimately show "strict_prefix rs cs" by (simp add: strict_prefix_def)
next
  assume "strict_prefix rs cs"
  then obtain ds where "cs = rs @ ds" "ds \<noteq> []" by (auto simp: strict_prefix_def prefix_def)
  then have "abs_path cs = abs_path rs @ abs_path ds" using assms(3) abs_path_append by simp
  then show "has_prefix (abs_path rs @ ''/'') (abs_path cs)" by (simp add: has_prefix_iff abs_path_def)
qed

lemma drop_common_prefix: "drop_common xs (xs @ ys) = ([], ys)"
  by (induction xs) (cases ys, simp_all)

lemma rel_inside:
  assumes "list_all plain rs" and "list_all plain ds"
  shows "path_rel (abs_path rs) (abs_path (rs @ ds)) = Some (if ds = [] then ''.'' else join ''/'' ds)"
proof -
  have "list_all plain (rs @ ds)" using assms by simp
  moreover have "abs_path rs \<noteq> ''.''" by (simp add: abs_path_def)
  ultimately show ?thesis
    using assms abs_path_inject [of rs "rs @ ds"] by (simp add: path_rel_def drop_common_prefix)
qed

lemma dir_abs:
  assumes "list_all plain cs" and "plain c"
  shows "path_dir (abs_path (cs @ [c])) = abs_path cs"
proof -
  have nc: "CHR ''/'' \<notin> set c" using assms(2) by (simp add: plain_def)
  have dw: "dropWhile (\<lambda>c. c \<noteq> CHR ''/'') (rev c @ CHR ''/'' # s) = CHR ''/'' # s" for s
    using nc by (subst dropWhile_append2) auto
  show ?thesis
  proof (cases "cs = []")
    case True
    then show ?thesis using dw [of "[]"] by (simp add: path_dir_def abs_path_def) code_simp
  next
    case False
    then have "abs_path (cs @ [c]) = (abs_path cs @ ''/'') @ c"
      using abs_path_append [of cs "[c]"] by (simp add: abs_path_def)
    then have "path_dir (abs_path (cs @ [c])) = path_clean (abs_path cs @ ''/'')"
      using dw [of "rev (abs_path cs)"] by (simp add: path_dir_def)
    also have "\<dots> = abs_path cs"
      using parts_append [of "abs_path cs" "[]"] assms(1)
      by (simp add: path_clean_def clean_parts_id path_parts_def [of "[]"]) (simp add: is_abs_def abs_path_def)
    finally show ?thesis .
  qed
qed

end
