(* ===== verification/File_System.thy ===== *)
theory File_System
  imports Go_Path "HOL-Library.Word"
begin

section \<open>Package os: the file system the workspace acts on\<close>

text \<open>
  A file system is the finite map from absolute paths, as lists of components, to files and directories;
  the root directory is always there (mode 493 is octal 755). The operations are those of package \<open>os\<close> on Unix with their
  errors. Not modelled: symbolic links, special files, refused permissions, full disks and other processes.
\<close>

unbundle bit_operations_syntax

subsection \<open>State and lookup\<close>

type_synonym fpath = "string list"

datatype fs_error = NotExist | NotDir | IsDirectory | NotEmpty | AlreadyExists | Busy | InvalidArg

datatype fs_entry = FileE nat string | DirE nat

record fs =
  fs_umask :: nat
  fs_nodes :: "(fpath \<times> fs_entry) list"

definition node_at :: "fs \<Rightarrow> fpath \<Rightarrow> fs_entry option" where
  "node_at fs p = (if p = [] then Some (DirE 493) else map_of (fs_nodes fs) p)"

definition is_dir_at :: "fs \<Rightarrow> fpath \<Rightarrow> bool" where
  "is_dir_at fs p = (case node_at fs p of Some (DirE _) \<Rightarrow> True | _ \<Rightarrow> False)"

definition ancestors :: "fpath \<Rightarrow> fpath list" where
  "ancestors p = filter (\<lambda>q. q \<noteq> p) (prefixes p)"

text \<open>The error of the first component on the way to a path that is not a directory.\<close>

definition walk_error :: "fs \<Rightarrow> fpath \<Rightarrow> fs_error option" where
  "walk_error fs p =
     (case find (\<lambda>q. \<not> is_dir_at fs q) (ancestors p) of
        None \<Rightarrow> None
      | Some q \<Rightarrow> Some (if node_at fs q = None then NotExist else NotDir))"

definition lookup :: "fs \<Rightarrow> fpath \<Rightarrow> fs_error + fs_entry" where
  "lookup fs p =
     (case walk_error fs p of
        Some e \<Rightarrow> Inl e
      | None \<Rightarrow> (case node_at fs p of None \<Rightarrow> Inl NotExist | Some x \<Rightarrow> Inr x))"

definition fs_ok :: "fs \<Rightarrow> bool" where
  "fs_ok fs \<longleftrightarrow> distinct (map fst (fs_nodes fs)) \<and> [] \<notin> fst ` set (fs_nodes fs) \<and>
     list_all (\<lambda>(p, _). list_all (is_dir_at fs) (ancestors p)) (fs_nodes fs)"

subsection \<open>The operations\<close>

definition put_node :: "fs \<Rightarrow> fpath \<Rightarrow> fs_entry \<Rightarrow> fs" where
  "put_node fs p x = fs\<lparr>fs_nodes := AList.update p x (fs_nodes fs)\<rparr>"

definition drop_tree :: "fs \<Rightarrow> fpath \<Rightarrow> fs" where
  "drop_tree fs p = fs\<lparr>fs_nodes := filter (\<lambda>n. \<not> prefix p (fst n)) (fs_nodes fs)\<rparr>"

definition created_perm :: "fs \<Rightarrow> nat \<Rightarrow> nat" where
  "created_perm fs perm = perm - (perm AND fs_umask fs)"

definition read_file :: "fs \<Rightarrow> fpath \<Rightarrow> fs_error + string" where
  "read_file fs p =
     (case lookup fs p of Inl e \<Rightarrow> Inl e | Inr (DirE _) \<Rightarrow> Inl IsDirectory | Inr (FileE _ c) \<Rightarrow> Inr c)"

definition write_file :: "fs \<Rightarrow> fpath \<Rightarrow> string \<Rightarrow> nat \<Rightarrow> fs_error option \<times> fs" where
  "write_file fs p c perm =
     (case walk_error fs p of
        Some e \<Rightarrow> (Some e, fs)
      | None \<Rightarrow>
          (case node_at fs p of
             Some (DirE _) \<Rightarrow> (Some IsDirectory, fs)
           | Some (FileE m _) \<Rightarrow> (None, put_node fs p (FileE m c))
           | None \<Rightarrow> (None, put_node fs p (FileE (created_perm fs perm) c))))"

fun make_dirs :: "fs \<Rightarrow> nat \<Rightarrow> fpath list \<Rightarrow> fs_error option \<times> fs" where
  "make_dirs fs perm [] = (None, fs)"
| "make_dirs fs perm (q # qs) =
     (case node_at fs q of
        Some (DirE _) \<Rightarrow> make_dirs fs perm qs
      | Some (FileE _ _) \<Rightarrow> (Some NotDir, fs)
      | None \<Rightarrow> make_dirs (put_node fs q (DirE (created_perm fs perm))) perm qs)"

definition mkdir_all :: "fs \<Rightarrow> fpath \<Rightarrow> nat \<Rightarrow> fs_error option \<times> fs" where
  "mkdir_all fs p perm = make_dirs fs perm (prefixes p)"

definition child_nodes :: "fs \<Rightarrow> fpath \<Rightarrow> (fpath \<times> fs_entry) list" where
  "child_nodes fs p = filter (\<lambda>n. prefix p (fst n) \<and> length (fst n) = Suc (length p)) (fs_nodes fs)"

definition remove_path :: "fs \<Rightarrow> fpath \<Rightarrow> fs_error option \<times> fs" where
  "remove_path fs p =
     (if p = [] then (Some Busy, fs)
      else
        (case lookup fs p of
           Inl e \<Rightarrow> (Some e, fs)
         | Inr (FileE _ _) \<Rightarrow> (None, drop_tree fs p)
         | Inr (DirE _) \<Rightarrow> if child_nodes fs p = [] then (None, drop_tree fs p) else (Some NotEmpty, fs)))"

definition remove_all :: "fs \<Rightarrow> fpath \<Rightarrow> fs_error option \<times> fs" where
  "remove_all fs p =
     (if walk_error fs p = Some NotDir then (Some NotDir, fs)
      else (if p = [] then Some Busy else None, drop_tree fs p))"

definition move_node :: "fpath \<Rightarrow> fpath \<Rightarrow> fpath \<times> fs_entry \<Rightarrow> fpath \<times> fs_entry" where
  "move_node src dst n = (if prefix src (fst n) then (dst @ drop (length src) (fst n), snd n) else n)"

definition move_tree :: "fs \<Rightarrow> fpath \<Rightarrow> fpath \<Rightarrow> fs" where
  "move_tree fs src dst = fs\<lparr>fs_nodes := map (move_node src dst) (fs_nodes (drop_tree fs dst))\<rparr>"

definition rename_path :: "fs \<Rightarrow> fpath \<Rightarrow> fpath \<Rightarrow> fs_error option \<times> fs" where
  "rename_path fs src dst =
     (case lookup fs src of
        Inl e \<Rightarrow> (Some e, fs)
      | Inr x \<Rightarrow>
          (case lookup fs dst of
             Inr (DirE _) \<Rightarrow> (Some AlreadyExists, fs)
           | Inl NotDir \<Rightarrow> (Some NotDir, fs)
           | r \<Rightarrow>
               (if walk_error fs dst \<noteq> None then (walk_error fs dst, fs)
                else if src = [] then (Some Busy, fs)
                else if strict_prefix src dst then (Some InvalidArg, fs)
                else if src = dst then (None, fs)
                else (case (x, r) of (DirE _, Inr _) \<Rightarrow> (Some NotDir, fs) | _ \<Rightarrow> (None, move_tree fs src dst)))))"

definition read_dir :: "fs \<Rightarrow> fpath \<Rightarrow> fs_error + (string \<times> bool) list" where
  "read_dir fs p =
     (case lookup fs p of
        Inl e \<Rightarrow> Inl e
      | Inr (FileE _ _) \<Rightarrow> Inl NotDir
      | Inr (DirE _) \<Rightarrow> Inr (sort_key fst (map (\<lambda>n. (last (fst n), is_dir_at fs (fst n))) (child_nodes fs p))))"

text \<open>
  What \<open>filepath.WalkDir\<close> visits below a directory, in its order: the children of a directory by name,
  each followed by its own subtree, is the lexicographic order of the component lists. \<open>skip\<close> says for
  which directories the callback returns \<open>SkipDir\<close>.
\<close>

definition walk_below :: "fs \<Rightarrow> fpath \<Rightarrow> (fpath \<Rightarrow> bool) \<Rightarrow> (fpath \<times> fs_entry) list" where
  "walk_below fs p skip =
     sort_key fst
       (filter (\<lambda>n. strict_prefix p (fst n) \<and>
          \<not> list_ex (\<lambda>q. strict_prefix p q \<and> is_dir_at fs q \<and> skip q) (prefixes (fst n))) (fs_nodes fs))"

subsection \<open>Laws of the operations\<close>

lemma set_ancestors: "set (ancestors p) = {q. strict_prefix q p}"
  by (auto simp: ancestors_def set_prefixes_eq strict_prefix_def)

lemma node_at_put: "p \<noteq> [] \<Longrightarrow> node_at (put_node fs p x) q = (if q = p then Some x else node_at fs q)"
  by (auto simp: node_at_def put_node_def update_conv')

lemma map_of_filter_key: "map_of (filter (\<lambda>n. P (fst n)) xs) k = (if P k then map_of xs k else None)"
  by (induction xs) auto

lemma node_at_drop: "node_at (drop_tree fs p) q = (if q \<noteq> [] \<and> prefix p q then None else node_at fs q)"
  using map_of_filter_key [of "\<lambda>q. \<not> prefix p q" "fs_nodes fs" q] by (auto simp: node_at_def drop_tree_def)

lemma root_dir [simp]: "is_dir_at fs []"
  by (simp add: is_dir_at_def node_at_def)

lemma fs_okD:
  assumes "fs_ok fs" and "node_at fs p = Some x" and "strict_prefix q p"
  shows "is_dir_at fs q"
proof -
  have "(p, x) \<in> set (fs_nodes fs)" using assms(2,3) map_of_SomeD by (auto simp: node_at_def split: if_splits)
  then have "list_all (is_dir_at fs) (ancestors p)" using assms(1) by (fastforce simp: fs_ok_def list_all_iff)
  then show ?thesis using assms(3) by (simp add: list_all_iff set_ancestors)
qed

lemma fs_okI:
  assumes "distinct (map fst (fs_nodes fs))" and "[] \<notin> fst ` set (fs_nodes fs)"
    and "\<And>p q x. node_at fs p = Some x \<Longrightarrow> strict_prefix q p \<Longrightarrow> is_dir_at fs q"
  shows "fs_ok fs"
proof -
  have "list_all (is_dir_at fs) (ancestors p)" if mem: "(p, x) \<in> set (fs_nodes fs)" for p x
  proof -
    have "p \<noteq> []" using mem assms(2) by force
    then have "node_at fs p = Some x" using mem assms(1) by (simp add: node_at_def)
    then show ?thesis using assms(3) by (simp add: list_all_iff set_ancestors)
  qed
  then show ?thesis using assms(1,2) by (auto simp: fs_ok_def list_all_iff)
qed

lemma walk_error_None: "walk_error fs p = None \<longleftrightarrow> (\<forall>q. strict_prefix q p \<longrightarrow> is_dir_at fs q)"
  using find_None_iff [of "\<lambda>q. \<not> is_dir_at fs q" "ancestors p"]
  by (auto simp: walk_error_def set_ancestors split: option.splits)

lemma lookup_Inr: "fs_ok fs \<Longrightarrow> lookup fs p = Inr x \<longleftrightarrow> node_at fs p = Some x"
  using fs_okD [of fs p x] walk_error_None [of fs p]
  by (auto simp: lookup_def split: option.splits)

lemma read_file_node: "fs_ok fs \<Longrightarrow> read_file fs p = Inr c \<longleftrightarrow> (\<exists>m. node_at fs p = Some (FileE m c))"
proof -
  assume ok: "fs_ok fs"
  show ?thesis
  proof (cases "lookup fs p")
    case (Inl e)
    then show ?thesis using lookup_Inr [OF ok, of p] by (auto simp: read_file_def)
  next
    case (Inr x)
    then have "node_at fs p = Some x" using lookup_Inr [OF ok] by blast
    then show ?thesis using Inr by (cases x) (auto simp: read_file_def)
  qed
qed

lemma is_dir_put:
  "p \<noteq> [] \<Longrightarrow> is_dir_at (put_node fs p x) q = (if q = p then (case x of DirE _ \<Rightarrow> True | _ \<Rightarrow> False) else is_dir_at fs q)"
  by (auto simp: is_dir_at_def node_at_put split: fs_entry.splits)

lemma nodes_put: "set (map fst (fs_nodes (put_node fs p x))) = insert p (set (map fst (fs_nodes fs)))"
  by (simp add: put_node_def dom_update)

lemma put_ok:
  assumes "fs_ok fs" and "p \<noteq> []" and "walk_error fs p = None"
    and "\<And>m. node_at fs p = Some (DirE m) \<Longrightarrow> \<exists>m'. x = DirE m'"
  shows "fs_ok (put_node fs p x)"
proof (rule fs_okI)
  show "distinct (map fst (fs_nodes (put_node fs p x)))"
    using assms(1) by (simp add: put_node_def fs_ok_def distinct_update)
  show "[] \<notin> fst ` set (fs_nodes (put_node fs p x))"
    using nodes_put [of fs p x] assms(1,2) by (auto simp: fs_ok_def)
next
  fix a q y
  assume a: "node_at (put_node fs p x) a = Some y" "strict_prefix q a"
  have "is_dir_at fs q"
    using a fs_okD [OF assms(1), of a] walk_error_None [of fs p] assms(3)
    by (cases "a = p") (auto simp: node_at_put [OF assms(2)])
  then show "is_dir_at (put_node fs p x) q"
    using assms(4) is_dir_put [OF assms(2), of fs x q] by (auto simp: is_dir_at_def split: option.splits fs_entry.splits)
qed

lemma drop_ok:
  assumes "fs_ok fs"
  shows "fs_ok (drop_tree fs p)"
proof (rule fs_okI)
  show "distinct (map fst (fs_nodes (drop_tree fs p)))"
    using assms by (auto simp: drop_tree_def fs_ok_def intro: distinct_map_filter)
  show "[] \<notin> fst ` set (fs_nodes (drop_tree fs p))" using assms by (auto simp: drop_tree_def fs_ok_def)
next
  fix a q y
  assume a: "node_at (drop_tree fs p) a = Some y" "strict_prefix q a"
  then have n: "node_at fs a = Some y" "a = [] \<or> \<not> prefix p a" by (auto simp: node_at_drop split: if_splits)
  then have "is_dir_at fs q" using fs_okD [OF assms n(1) a(2)] by simp
  moreover have "q = [] \<or> \<not> prefix p q" using n(2) a(2) by (metis prefix_order.le_less_trans strict_prefix_def prefix_bot.extremum_strict)
  ultimately show "is_dir_at (drop_tree fs p) q" by (auto simp: is_dir_at_def node_at_drop)
qed

lemma write_file_cases:
  assumes "write_file fs p c perm = (e, fs')"
  obtains (failed) e' where "e = Some e'" "fs' = fs"
    | (wrote) m where "e = None" "fs' = put_node fs p (FileE m c)" "p \<noteq> []" "walk_error fs p = None" "\<not> is_dir_at fs p"
proof -
  have "(\<exists>e'. e = Some e' \<and> fs' = fs) \<or>
    (\<exists>m. e = None \<and> fs' = put_node fs p (FileE m c) \<and> p \<noteq> [] \<and> walk_error fs p = None \<and> \<not> is_dir_at fs p)"
    using assms by (cases "p = []"; cases "walk_error fs p"; cases e)
      (auto simp: write_file_def is_dir_at_def node_at_def split: option.splits fs_entry.splits if_splits)
  then show ?thesis using that by blast
qed

lemma write_file_ok:
  assumes "fs_ok fs" and "write_file fs p c perm = (e, fs')"
  shows "fs_ok fs'"
  using assms(2)
proof (cases rule: write_file_cases)
  case (wrote m)
  have "\<And>m'. node_at fs p \<noteq> Some (DirE m')" using wrote(5) by (auto simp: is_dir_at_def)
  then show ?thesis using put_ok [OF assms(1) wrote(3,4), of "FileE m c"] wrote(2) by auto
qed (simp add: assms(1))

lemma successively_prefixes: "successively (\<lambda>q q'. \<exists>x. q' = q @ [x]) (prefixes p)"
proof (induction p)
  case (Cons x xs)
  have "prefixes xs \<noteq> []" "hd (prefixes xs) = []" by (cases xs; simp)+
  moreover have "successively (\<lambda>q q'. \<exists>y. q' = q @ [y]) (map ((#) x) (prefixes xs))"
    using Cons.IH by (auto simp: successively_map elim: successively_mono)
  ultimately show ?case by (auto simp: successively_Cons hd_map)
qed simp

lemma make_dirs_spec:
  assumes "make_dirs fs perm qs = (e, fs')" and "fs_ok fs" and "successively (\<lambda>q q'. \<exists>x. q' = q @ [x]) qs"
    and "qs \<noteq> [] \<Longrightarrow> walk_error fs (hd qs) = None"
  shows "fs_ok fs' \<and>
    (\<forall>q. node_at fs' q = node_at fs q \<or> node_at fs q = None \<and> q \<in> set qs \<and> is_dir_at fs' q) \<and>
    (e = None \<longrightarrow> list_all (is_dir_at fs') qs)"
  using assms
proof (induction qs arbitrary: fs)
  case Nil
  then show ?case by simp
next
  case (Cons q qs)
  have step: "walk_error g (hd qs) = None" if d: "is_dir_at g q" and w: "walk_error g q = None" and ne: "qs \<noteq> []" for g
  proof -
    obtain x where "hd qs = q @ [x]" using Cons.prems(3) ne by (cases qs) auto
    then show ?thesis using d w by (auto simp: walk_error_None strict_prefix_def prefix_snoc)
  qed
  have suc: "successively (\<lambda>q q'. \<exists>x. q' = q @ [x]) qs" using Cons.prems(3) by (cases qs) auto
  have wq: "walk_error fs q = None" using Cons.prems(4) by simp
  show ?case
  proof (cases "node_at fs q")
    case None
    then have nq: "q \<noteq> []" by (auto simp: node_at_def)
    let ?g = "put_node fs q (DirE (created_perm fs perm))"
    have ok: "fs_ok ?g" by (rule put_ok [OF Cons.prems(2) nq wq]) simp
    have d: "is_dir_at ?g q" by (simp add: is_dir_put [OF nq])
    have w: "walk_error ?g q = None" using wq by (auto simp: walk_error_None is_dir_put [OF nq] strict_prefix_def)
    have run: "make_dirs ?g perm qs = (e, fs')" using Cons.prems(1) None by simp
    note ih = Cons.IH [OF run ok suc step [OF d w]]
    have "node_at fs' r = node_at fs r \<or> node_at fs r = None \<and> r \<in> set (q # qs) \<and> is_dir_at fs' r" for r
    proof (cases "r = q")
      case True
      have "node_at fs' q = node_at ?g q \<or> is_dir_at fs' q" using ih by blast
      then have "is_dir_at fs' q" using d by (auto simp: is_dir_at_def)
      then show ?thesis using True None by simp
    next
      case False
      have "node_at fs' r = node_at ?g r \<or> node_at ?g r = None \<and> r \<in> set qs \<and> is_dir_at fs' r" using ih by blast
      moreover have "node_at ?g r = node_at fs r" using False by (simp add: node_at_put [OF nq])
      ultimately show ?thesis by auto
    qed
    moreover have "is_dir_at fs' q" using ih d by (metis is_dir_at_def)
    ultimately show ?thesis using ih by simp
  next
    case (Some x)
    show ?thesis
    proof (cases x)
      case (DirE m)
      then have d: "is_dir_at fs q" using Some by (simp add: is_dir_at_def)
      have run: "make_dirs fs perm qs = (e, fs')" using Cons.prems(1) Some DirE by simp
      note ih = Cons.IH [OF run Cons.prems(2) suc step [OF d wq]]
      moreover have "is_dir_at fs' q" using ih d by (metis is_dir_at_def)
      ultimately show ?thesis by auto
    next
      case (FileE m c)
      then show ?thesis using Cons.prems(1,2) Some by auto
    qed
  qed
qed

lemma mkdir_all_spec:
  assumes "mkdir_all fs p perm = (e, fs')" and "fs_ok fs"
  shows "fs_ok fs'"
    and "node_at fs' q = node_at fs q \<or> node_at fs q = None \<and> prefix q p \<and> is_dir_at fs' q"
    and "e = None \<Longrightarrow> prefix q p \<Longrightarrow> is_dir_at fs' q"
proof -
  have "hd (prefixes p) = []" by (cases p) simp_all
  then have "walk_error fs (hd (prefixes p)) = None" by (simp add: walk_error_None)
  note s = make_dirs_spec [OF assms(1) [unfolded mkdir_all_def] assms(2) successively_prefixes this]
  show "fs_ok fs'" using s by blast
  show "node_at fs' q = node_at fs q \<or> node_at fs q = None \<and> prefix q p \<and> is_dir_at fs' q" using s by auto
  show "e = None \<Longrightarrow> prefix q p \<Longrightarrow> is_dir_at fs' q" using s by (auto simp: list_all_iff)
qed

lemma remove_path_cases:
  assumes "remove_path fs p = (e, fs')"
  obtains (failed) e' where "e = Some e'" "fs' = fs"
    | (removed) "e = None" "fs' = drop_tree fs p" "p \<noteq> []"
  using assms by (auto simp: remove_path_def split: sum.splits fs_entry.splits if_splits)

lemma remove_all_cases:
  assumes "remove_all fs p = (e, fs')" and "p \<noteq> []"
  obtains (failed) "e = Some NotDir" "fs' = fs" "walk_error fs p = Some NotDir"
    | (removed) "e = None" "fs' = drop_tree fs p"
  using assms by (auto simp: remove_all_def split: if_splits)

lemma removes_ok:
  assumes "fs_ok fs"
  shows "fs_ok (snd (remove_path fs p))" and "fs_ok (snd (remove_all fs p))"
  using assms drop_ok [OF assms, of p]
  by (auto simp: remove_path_def remove_all_def split: sum.splits fs_entry.splits)

lemma node_at_move:
  assumes "\<not> prefix src dst" and "\<not> prefix dst src"
  shows "node_at (move_tree fs src dst) q =
    (if prefix dst q then node_at fs (src @ drop (length dst) q) else if prefix src q then None else node_at fs q)"
proof -
  have ne: "src \<noteq> []" "dst \<noteq> []" using assms by auto
  have "map_of (map (move_node src dst) xs) q =
      (if prefix dst q then map_of xs (src @ drop (length dst) q) else if prefix src q then None else map_of xs q)"
    if "\<forall>n \<in> set xs. \<not> prefix dst (fst n)" for xs
    using that
  proof (induction xs)
    case (Cons n xs)
    obtain k x where n: "n = (k, x)" by fastforce
    have nk: "\<not> prefix dst k" using Cons.prems n by simp
    show ?case
    proof (cases "prefix src k")
      case True
      then obtain r where k: "k = src @ r" by (auto simp: prefix_def)
      have "q = dst @ r \<longleftrightarrow> prefix dst q \<and> src @ drop (length dst) q = k" using k by (auto simp: prefix_def)
      moreover have "prefix src q \<Longrightarrow> \<not> prefix dst q \<Longrightarrow> q \<noteq> dst @ r" by auto
      ultimately show ?thesis using Cons n k by (auto simp: move_node_def)
    next
      case False
      then have "q = k \<Longrightarrow> \<not> prefix src q \<and> \<not> prefix dst q" using nk by simp
      moreover have "src @ drop (length dst) q \<noteq> k" using False by auto
      ultimately show ?thesis using Cons n False by (auto simp: move_node_def)
    qed
  qed simp
  from this [of "fs_nodes (drop_tree fs dst)"]
  have m: "map_of (fs_nodes (move_tree fs src dst)) q =
      (if prefix dst q then map_of (fs_nodes (drop_tree fs dst)) (src @ drop (length dst) q)
       else if prefix src q then None else map_of (fs_nodes (drop_tree fs dst)) q)"
    by (auto simp: move_tree_def drop_tree_def)
  have d: "map_of (fs_nodes (drop_tree fs dst)) r = (if prefix dst r then None else map_of (fs_nodes fs) r)" for r
    using map_of_filter_key [of "\<lambda>q. \<not> prefix dst q" "fs_nodes fs" r] by (simp add: drop_tree_def)
  have "\<not> prefix dst (src @ r)" for r
    using assms prefix_same_cases [of dst "src @ r" src] by auto
  then show ?thesis using ne by (auto simp: node_at_def m d)
qed

lemma move_ok:
  assumes "fs_ok fs" and "\<not> prefix src dst" and "\<not> prefix dst src" and "walk_error fs dst = None"
  shows "fs_ok (move_tree fs src dst)"
proof (rule fs_okI)
  let ?xs = "fs_nodes (drop_tree fs dst)"
  have dd: "distinct (map fst ?xs)" using drop_ok [OF assms(1), of dst] by (simp add: fs_ok_def)
  have nk: "\<not> prefix dst k" if "k \<in> fst ` set ?xs" for k using that by (auto simp: drop_tree_def)
  have "inj_on (\<lambda>k. if prefix src k then dst @ drop (length src) k else k) (fst ` set ?xs)"
    using nk by (auto simp: inj_on_def prefix_def split: if_splits)
  then have "distinct (map (\<lambda>k. if prefix src k then dst @ drop (length src) k else k) (map fst ?xs))"
    using dd by (subst distinct_map) simp
  moreover have "map fst (map (move_node src dst) ?xs) = map (\<lambda>k. if prefix src k then dst @ drop (length src) k else k) (map fst ?xs)"
    by (auto simp: move_node_def)
  ultimately show "distinct (map fst (fs_nodes (move_tree fs src dst)))"
    unfolding move_tree_def by (metis (no_types, lifting) ext fs.select_convs(2) fs.surjective fs.update_convs(2))
  show "[] \<notin> fst ` set (fs_nodes (move_tree fs src dst))"
    using drop_ok [OF assms(1), of dst] assms(3) by (auto simp: move_tree_def move_node_def fs_ok_def image_iff)
next
  fix a q y
  assume a: "node_at (move_tree fs src dst) a = Some y" and q: "strict_prefix q a"
  note mv = node_at_move [OF assms(2,3), of fs]
  show "is_dir_at (move_tree fs src dst) q"
  proof (cases "prefix dst a")
    case True
    then obtain r where r: "a = dst @ r" by (auto simp: prefix_def)
    then have n: "node_at fs (src @ r) = Some y" using a mv by simp
    show ?thesis
    proof (cases "prefix dst q")
      case True
      then obtain t where "q = dst @ t" by (auto simp: prefix_def)
      moreover have "strict_prefix (src @ t) (src @ r)" using q r calculation by (auto simp: strict_prefix_def)
      moreover have "is_dir_at fs (src @ t)" by (rule fs_okD [OF assms(1) n]) fact
      ultimately show ?thesis by (simp add: is_dir_at_def mv)
    next
      case False
      then have qd: "strict_prefix q dst" using q r by (metis prefix_order.le_less strict_prefix_def prefix_append prefix_order.less_le_not_le prefix_same_cases)
      then have "is_dir_at fs q" using assms(4) by (simp add: walk_error_None)
      moreover have "\<not> prefix src q" using qd assms(2) using strict_prefix_def by (metis prefix_order.dual_order.trans)
      ultimately show ?thesis using False by (simp add: is_dir_at_def mv)
    qed
  next
    case False
    then have n: "node_at fs a = Some y" "\<not> prefix src a" using a mv by (auto split: if_splits)
    have "\<not> prefix dst q" "\<not> prefix src q"
      using False n(2) q by (meson prefix_order.less_imp_le prefix_order.dual_order.trans)+
    then show ?thesis using fs_okD [OF assms(1) n(1) q] by (simp add: is_dir_at_def mv)
  qed
qed

lemma rename_path_cases:
  assumes "rename_path fs src dst = (e, fs')" and "fs_ok fs"
  obtains (failed) e' where "e = Some e'" "fs' = fs"
    | (same) "e = None" "src = dst" "fs' = fs"
    | (moved) "e = None" "\<not> prefix src dst" "\<not> prefix dst src" "walk_error fs dst = None" "fs' = move_tree fs src dst"
        "node_at fs src \<noteq> None"
proof (cases "e = None \<and> src \<noteq> dst")
  case True
  then obtain x where x: "lookup fs src = Inr x" "node_at fs src = Some x"
    using assms lookup_Inr by (auto simp: rename_path_def split: sum.splits)
  have c: "walk_error fs dst = None" "\<not> strict_prefix src dst" "fs' = move_tree fs src dst" "\<not> is_dir_at fs dst"
    using assms True lookup_Inr [OF assms(2), of dst] x
    by (auto simp: rename_path_def is_dir_at_def lookup_def split: sum.splits fs_entry.splits if_splits fs_error.splits option.splits)
  have "\<not> strict_prefix dst src" using fs_okD [OF assms(2) x(2)] c(4) by blast
  then show ?thesis using that(3) True c x(2) by (auto simp: strict_prefix_def)
next
  case False
  then have "(\<exists>e'. e = Some e' \<and> fs' = fs) \<or> (e = None \<and> src = dst \<and> fs' = fs)"
    using assms
    by (auto simp: rename_path_def split: sum.splits fs_entry.splits if_splits fs_error.splits option.splits)
  then show ?thesis using that by blast
qed

end
