(* ===== verification/Workspace.thy ===== *)
theory Workspace
  imports File_System Go_Runes Llm_Tools
begin

section \<open>Package workspace: files inside a root directory\<close>

text \<open>
  \<open>workspace/workspace.go\<close>: the operations on files, over the file system of \<open>File_System\<close>. The
  regular expressions of a search (package \<open>regexp\<close>), \<open>filepath.Match\<close>, the Unicode part of
  \<open>strings.ToLower\<close> and the working directory of the process are parameters; running a command is not
  modelled, the buffer that bounds its output is.
\<close>

subsection \<open>Types and bounds\<close>

record workspace =
  ws_root :: string
  ws_timeout :: int

datatype ws_error = WsText string | WsOs fs_error

record read_options =
  ro_offset_line :: int
  ro_limit_lines :: int

record grep_options =
  go_regex :: bool
  go_case :: bool
  go_glob :: string
  go_max :: int
  go_offset :: int

record search_match =
  sm_path :: string
  sm_line :: nat
  sm_excerpt :: string

definition default_walk_skip_dirs :: "string list" where
  "default_walk_skip_dirs = [''.cache'', ''.git'', ''.kkode'', ''.next'', ''.serena'', ''.turbo'', ''build'', ''dist'', ''node_modules'']"

definition MaxListEntries :: nat where "MaxListEntries = 5000"
definition MaxGlobMatches :: nat where "MaxGlobMatches = 5000"
definition MaxGrepMatches :: int where "MaxGrepMatches = 1000"
definition MaxPatchBytes :: nat where "MaxPatchBytes = 1048576"

subsection \<open>Resolving a path\<close>

definition path_abs :: "string \<Rightarrow> string \<Rightarrow> string" where
  "path_abs cwd p = (if is_abs p then path_clean p else path_join cwd p)"

definition new_workspace :: "string \<Rightarrow> string \<Rightarrow> fs \<Rightarrow> ws_error + workspace" where
  "new_workspace cwd root fs =
     (let a = path_abs cwd root
      in case lookup fs (path_parts a) of
           Inl e \<Rightarrow> Inl (WsOs e)
         | Inr (FileE _ _) \<Rightarrow> Inl (WsText (''workspace root is not a directory: '' @ a))
         | Inr (DirE _) \<Rightarrow> Inr \<lparr>ws_root = a, ws_timeout = 30000000000\<rparr>)"

definition resolve :: "workspace \<Rightarrow> string \<Rightarrow> ws_error + string" where
  "resolve w rel =
     (if rel = [] then Inl (WsText ''path is required'')
      else
        (let path = path_clean (if is_abs rel then path_clean rel else path_join (ws_root w) rel);
             root = path_clean (ws_root w)
         in if path \<noteq> root \<and> \<not> has_prefix (root @ ''/'') path
            then Inl (WsText (''path escapes workspace: '' @ rel)) else Inr path))"

subsection \<open>Reading and writing\<close>

definition read_file_range :: "workspace \<Rightarrow> string \<Rightarrow> read_options \<Rightarrow> fs \<Rightarrow> (ws_error + string) or_panic" where
  "read_file_range w rel opts fs =
     (if ro_offset_line opts < 0 then Returns (Inl (WsText ''offset_line must be >= 0''))
      else if ro_limit_lines opts < 0 then Returns (Inl (WsText ''limit_lines must be >= 0''))
      else
        (case resolve w rel of
           Inl e \<Rightarrow> Returns (Inl e)
         | Inr path \<Rightarrow>
             (case read_file fs (path_parts path) of
                Inl e \<Rightarrow> Returns (Inl (WsOs e))
              | Inr text \<Rightarrow>
                  (if 0 < ro_offset_line opts \<or> 0 < ro_limit_lines opts then
                     (let lines = split_on (CHR 0x0A) text;
                          start = max 0 (ro_offset_line opts - 1);
                          n = int (length lines);
                          fin = wrap64 (start + ro_limit_lines opts);
                          end = (if 0 < ro_limit_lines opts \<and> fin < n then fin else n)
                      in if n < start then Returns (Inr [])
                         else if end < start then Panics ''runtime error: slice bounds out of range''
                         else Returns (Inr (join [CHR 0x0A] (take (nat (end - start)) (drop (nat start) lines)))))
                   else Returns (Inr text)))))"

definition ws_read :: "workspace \<Rightarrow> string \<Rightarrow> fs \<Rightarrow> ws_error + string" where
  "ws_read w rel fs =
     (case resolve w rel of
        Inl e \<Rightarrow> Inl e
      | Inr path \<Rightarrow> (case read_file fs (path_parts path) of Inl e \<Rightarrow> Inl (WsOs e) | Inr text \<Rightarrow> Inr text))"

lemma read_file_whole: "read_file_range w rel \<lparr>ro_offset_line = 0, ro_limit_lines = 0\<rparr> fs = Returns (ws_read w rel fs)"
  by (simp add: read_file_range_def ws_read_def split: sum.splits)

text \<open>\<open>os.MkdirAll(filepath.Dir(path), 0o755)\<close> and \<open>os.WriteFile(path, content, 0o644)\<close>.\<close>

definition write_under :: "fs \<Rightarrow> string \<Rightarrow> string \<Rightarrow> nat \<Rightarrow> fs_error option \<times> fs" where
  "write_under fs path content perm =
     (case mkdir_all fs (path_parts (path_dir path)) 493 of
        (Some e, fs1) \<Rightarrow> (Some e, fs1)
      | (None, fs1) \<Rightarrow> write_file fs1 (path_parts path) content perm)"

definition ws_write :: "workspace \<Rightarrow> string \<Rightarrow> string \<Rightarrow> fs \<Rightarrow> ws_error option \<times> fs" where
  "ws_write w rel content fs =
     (case resolve w rel of
        Inl e \<Rightarrow> (Some e, fs)
      | Inr path \<Rightarrow> (let (e, fs1) = write_under fs path content 420 in (map_option WsOs e, fs1)))"

definition delete_path :: "workspace \<Rightarrow> string \<Rightarrow> bool \<Rightarrow> fs \<Rightarrow> ws_error option \<times> fs" where
  "delete_path w rel recursive fs =
     (case resolve w rel of
        Inl e \<Rightarrow> (Some e, fs)
      | Inr path \<Rightarrow>
          (if path = path_clean (ws_root w) then (Some (WsText ''workspace root cannot be deleted''), fs)
           else
             (case lookup fs (path_parts path) of
                Inl e \<Rightarrow> (Some (WsOs e), fs)
              | Inr info \<Rightarrow>
                  (if (case info of DirE _ \<Rightarrow> True | _ \<Rightarrow> False) \<and> \<not> recursive
                   then (Some (WsText (''directory delete requires recursive=true: '' @ rel)), fs)
                   else (let (e, fs1) = (if recursive then remove_all fs (path_parts path) else remove_path fs (path_parts path))
                         in (map_option WsOs e, fs1))))))"

text \<open>The parts of \<open>MovePath\<close> after the checks of the two paths.\<close>

definition make_room :: "fpath \<Rightarrow> string \<Rightarrow> bool \<Rightarrow> fs \<Rightarrow> ws_error option \<times> fs" where
  "make_room dst destination overwrite fs =
     (case lookup fs dst of
        Inr _ \<Rightarrow>
          (if \<not> overwrite then (Some (WsText (''destination already exists: '' @ destination)), fs)
           else (let (e, fs1) = remove_all fs dst in (map_option WsOs e, fs1)))
      | Inl e \<Rightarrow> (if e = NotExist then None else Some (WsOs e), fs))"

definition move_into :: "string \<Rightarrow> string \<Rightarrow> fs \<Rightarrow> ws_error option \<times> fs" where
  "move_into src dst fs =
     (case mkdir_all fs (path_parts (path_dir dst)) 493 of
        (Some e, fs1) \<Rightarrow> (Some (WsOs e), fs1)
      | (None, fs1) \<Rightarrow> (let (e, fs2) = rename_path fs1 (path_parts src) (path_parts dst) in (map_option WsOs e, fs2)))"

definition move_resolved :: "string \<Rightarrow> string \<Rightarrow> string \<Rightarrow> bool \<Rightarrow> fs \<Rightarrow> ws_error option \<times> fs" where
  "move_resolved src dst destination overwrite fs =
     (case lookup fs (path_parts src) of
        Inl e \<Rightarrow> (Some (WsOs e), fs)
      | Inr info \<Rightarrow>
          (if (case info of DirE _ \<Rightarrow> True | _ \<Rightarrow> False) \<and> has_prefix (src @ ''/'') dst
           then (Some (WsText (''destination cannot be inside source directory: '' @ destination)), fs)
           else
             (case make_room (path_parts dst) destination overwrite fs of
                (Some e, fs1) \<Rightarrow> (Some e, fs1)
              | (None, fs1) \<Rightarrow> move_into src dst fs1)))"

definition move_path :: "workspace \<Rightarrow> string \<Rightarrow> string \<Rightarrow> bool \<Rightarrow> fs \<Rightarrow> ws_error option \<times> fs" where
  "move_path w source destination overwrite fs =
     (let source = trim_space source; destination = trim_space destination
      in if destination = [] then (Some (WsText ''destination is required''), fs)
         else
           (case resolve w source of
              Inl e \<Rightarrow> (Some e, fs)
            | Inr src \<Rightarrow>
                (case resolve w destination of
                   Inl e \<Rightarrow> (Some e, fs)
                 | Inr dst \<Rightarrow>
                     (let root = path_clean (ws_root w)
                      in if src = root \<or> dst = root then (Some (WsText ''workspace root cannot be moved or overwritten''), fs)
                         else if src = dst then (None, fs)
                         else move_resolved src dst destination overwrite fs))))"

definition edit_file :: "workspace \<Rightarrow> string \<Rightarrow> string \<Rightarrow> string \<Rightarrow> int \<Rightarrow> fs \<Rightarrow> ws_error option \<times> fs" where
  "edit_file w rel old new expected fs =
     (if old = [] then (Some (WsText ''old text is required''), fs)
      else if expected < 0 then (Some (WsText ''expected_replacements must be >= 0''), fs)
      else
        (case ws_read w rel fs of
           Inl e \<Rightarrow> (Some e, fs)
         | Inr content \<Rightarrow>
             (let n = count_sub content old
              in if n = 0 then (Some (WsText (''old text not found in '' @ rel)), fs)
                 else if 0 < expected \<and> int n \<noteq> expected
                 then (Some (WsText (''expected '' @ dec_int expected @ '' replacements in '' @ rel @ '', found '' @ dec_nat n)), fs)
                 else ws_write w rel (replace_n content old new (if 0 < expected then nat expected else n)) fs)))"

definition replace_in_file :: "workspace \<Rightarrow> string \<Rightarrow> string \<Rightarrow> string \<Rightarrow> fs \<Rightarrow> ws_error option \<times> fs" where
  "replace_in_file w rel old new fs = edit_file w rel old new 1 fs"

subsection \<open>Listing and searching\<close>

definition list_entries :: "workspace \<Rightarrow> string \<Rightarrow> fs \<Rightarrow> ws_error + string list" where
  "list_entries w rel fs =
     (case resolve w (if rel \<noteq> [] then rel else ''.'') of
        Inl e \<Rightarrow> Inl e
      | Inr path \<Rightarrow>
          (case read_dir fs (path_parts path) of
             Inl e \<Rightarrow> Inl (WsOs e)
           | Inr es \<Rightarrow> Inr (map (\<lambda>(n, d). if d then n @ ''/'' else n) (take MaxListEntries es))))"

definition should_skip_walk_dir :: "string \<Rightarrow> string \<Rightarrow> bool" where
  "should_skip_walk_dir rel name =
     (if rel = ''.'' then False
      else if name \<in> set default_walk_skip_dirs then True
      else rel = ''.omx/logs'' \<or> has_prefix ''.omx/logs/'' rel)"

text \<open>The files \<open>walkFiles\<close> hands to its callback, as path and relative path, in the order of the walk.\<close>

definition walk_rel :: "workspace \<Rightarrow> fpath \<Rightarrow> string" where
  "walk_rel w q = (case path_rel (ws_root w) (abs_path q) of None \<Rightarrow> [] | Some r \<Rightarrow> r)"

definition walk_files :: "workspace \<Rightarrow> fs \<Rightarrow> fs_error + (fpath \<times> string) list" where
  "walk_files w fs =
     (let root = path_parts (ws_root w)
      in case lookup fs root of
           Inl e \<Rightarrow> Inl e
         | Inr (FileE _ _) \<Rightarrow> Inr [(root, walk_rel w root)]
         | Inr (DirE _) \<Rightarrow>
             Inr (map (\<lambda>n. (fst n, walk_rel w (fst n)))
               (filter (\<lambda>n. \<not> is_dir_at fs (fst n))
                  (walk_below fs root (\<lambda>q. should_skip_walk_dir (walk_rel w q) (last q))))))"

text \<open>
  \<open>globMatches\<close>: \<open>filepath.Match\<close> first, then a regular expression made from the bytes of the pattern;
  \<open>string(ch)\<close> of a byte is the rune of that number.
\<close>

datatype glob_token = GlobAny | GlobSegment | GlobOne | GlobRune nat

fun glob_tokens :: "string \<Rightarrow> glob_token list" where
  "glob_tokens [] = []"
| "glob_tokens [c] = [if c = CHR ''*'' then GlobSegment else if c = CHR ''?'' then GlobOne else GlobRune (of_char c)]"
| "glob_tokens (c # d # s) =
     (if c = CHR ''*'' \<and> d = CHR ''*'' then GlobAny # glob_tokens s
      else (if c = CHR ''*'' then GlobSegment else if c = CHR ''?'' then GlobOne else GlobRune (of_char c)) # glob_tokens (d # s))"

fun glob_regexp :: "glob_token list \<Rightarrow> nat list \<Rightarrow> bool" where
  "glob_regexp [] rs = (rs = [])"
| "glob_regexp (GlobRune c # ts) rs = (case rs of [] \<Rightarrow> False | r # rs' \<Rightarrow> r = c \<and> glob_regexp ts rs')"
| "glob_regexp (GlobOne # ts) rs = (case rs of [] \<Rightarrow> False | r # rs' \<Rightarrow> r \<noteq> 0x2F \<and> glob_regexp ts rs')"
| "glob_regexp (GlobSegment # ts) rs =
     (glob_regexp ts rs \<or> (case rs of [] \<Rightarrow> False | r # rs' \<Rightarrow> r \<noteq> 0x2F \<and> glob_regexp (GlobSegment # ts) rs'))"
| "glob_regexp (GlobAny # ts) rs =
     (glob_regexp ts rs \<or> (case rs of [] \<Rightarrow> False | r # rs' \<Rightarrow> r \<noteq> 0x0A \<and> glob_regexp (GlobAny # ts) rs'))"

definition glob_matches :: "(string \<Rightarrow> string \<Rightarrow> bool) \<Rightarrow> string \<Rightarrow> string \<Rightarrow> bool" where
  "glob_matches fmatch pattern rel \<longleftrightarrow> fmatch pattern rel \<or> glob_regexp (glob_tokens pattern) (runes rel)"

fun glob_scan :: "(string \<Rightarrow> bool) \<Rightarrow> (fpath \<times> string) list \<Rightarrow> string list \<Rightarrow> string list" where
  "glob_scan ok [] acc = acc"
| "glob_scan ok ((q, rel) # fs) acc =
     (if ok rel
      then (let acc' = acc @ [rel] in if MaxGlobMatches \<le> length acc' then acc' else glob_scan ok fs acc')
      else glob_scan ok fs acc)"

definition ws_glob :: "(string \<Rightarrow> string \<Rightarrow> bool) \<Rightarrow> workspace \<Rightarrow> string \<Rightarrow> fs \<Rightarrow> ws_error + string list" where
  "ws_glob fmatch w pattern fs =
     (if trim_space pattern = [] then Inl (WsText ''pattern is required'')
      else
        (case walk_files w fs of
           Inl e \<Rightarrow> Inl (WsOs e)
         | Inr files \<Rightarrow> Inr (glob_scan (glob_matches fmatch pattern) files [])))"

text \<open>
  \<open>bufio.Scanner\<close> with a buffer of at most 2 MiB: the lines without their terminators, up to the first
  that does not fit.
\<close>

definition max_scan_line :: nat where "max_scan_line = 2097152"

definition raw_lines :: "string \<Rightarrow> string list" where
  "raw_lines text = (let ls = split_on (CHR 0x0A) text in if last ls = [] then butlast ls else ls)"

definition drop_cr :: "string \<Rightarrow> string" where
  "drop_cr l = trim_suffix [CHR 0x0D] l"

text \<open>One file: the matches so far, and how the callback ended.\<close>

datatype scan_end = ScanNext | ScanSkipAll | ScanTooLong

fun grep_lines :: "(string \<Rightarrow> bool) \<Rightarrow> string \<Rightarrow> int \<Rightarrow> string list \<Rightarrow> nat \<Rightarrow> search_match list \<Rightarrow> search_match list \<times> scan_end" where
  "grep_lines ok rel cap [] n acc = (acc, ScanNext)"
| "grep_lines ok rel cap (l # ls) n acc =
     (if max_scan_line \<le> length l then (acc, ScanTooLong)
      else if ok (drop_cr l)
      then (let acc' = acc @ [\<lparr>sm_path = rel, sm_line = Suc n, sm_excerpt = trim_space (drop_cr l)\<rparr>]
            in if cap \<le> int (length acc') then (acc', ScanSkipAll) else grep_lines ok rel cap ls (Suc n) acc')
      else grep_lines ok rel cap ls (Suc n) acc)"

fun grep_files :: "(string \<Rightarrow> bool) \<Rightarrow> (string \<Rightarrow> bool) \<Rightarrow> int \<Rightarrow> fs \<Rightarrow> (fpath \<times> string) list \<Rightarrow> search_match list \<Rightarrow>
    ws_error + search_match list" where
  "grep_files ok glob cap fs [] acc = Inr acc"
| "grep_files ok glob cap fs ((q, rel) # files) acc =
     (if cap \<le> int (length acc) then Inr acc
      else if \<not> glob rel then grep_files ok glob cap fs files acc
      else
        (case read_file fs q of
           Inl _ \<Rightarrow> grep_files ok glob cap fs files acc
         | Inr text \<Rightarrow>
             (case grep_lines ok rel cap (raw_lines text) 0 acc of
                (acc', ScanNext) \<Rightarrow> grep_files ok glob cap fs files acc'
              | (acc', ScanSkipAll) \<Rightarrow> Inr acc'
              | (acc', ScanTooLong) \<Rightarrow> Inl (WsText ''bufio.Scanner: token too long''))))"

definition ws_grep ::
  "(string \<Rightarrow> string \<Rightarrow> bool) \<Rightarrow> (string \<Rightarrow> string) \<Rightarrow> (string \<Rightarrow> string + (string \<Rightarrow> bool)) \<Rightarrow>
   workspace \<Rightarrow> string \<Rightarrow> grep_options \<Rightarrow> fs \<Rightarrow> ws_error + search_match list" where
  "ws_grep fmatch lower compile w pattern opts fs =
     (if pattern = [] then Inl (WsText ''pattern is required'')
      else if go_max opts < 0 then Inl (WsText ''max_matches must be >= 0'')
      else if MaxGrepMatches < go_max opts then Inl (WsText (''max_matches must be <= '' @ dec_int MaxGrepMatches))
      else if go_offset opts < 0 then Inl (WsText ''offset must be >= 0'')
      else if MaxGrepMatches \<le> go_offset opts then Inl (WsText (''offset must be < '' @ dec_int MaxGrepMatches))
      else
        (let mx = (if go_max opts \<le> 0 then 100 else go_max opts);
             cap = min (mx + go_offset opts) MaxGrepMatches;
             needle = (if go_case opts then pattern else lower pattern);
             line_ok = (if go_regex opts
                then compile ((if go_case opts then [] else ''(?i)'') @ pattern)
                else Inr (\<lambda>l. contains (if go_case opts then l else lower l) needle))
         in case line_ok of
              Inl e \<Rightarrow> Inl (WsText e)
            | Inr ok \<Rightarrow>
                (case walk_files w fs of
                   Inl e \<Rightarrow> Inl (WsOs e)
                 | Inr files \<Rightarrow>
                     (case grep_files ok (\<lambda>rel. go_glob opts = [] \<or> glob_matches fmatch (go_glob opts) rel) cap fs files [] of
                        Inl e \<Rightarrow> Inl e
                      | Inr ms \<Rightarrow> Inr (take (nat mx) (drop (nat (go_offset opts)) ms))))))"

definition search_options :: grep_options where
  "search_options = \<lparr>go_regex = False, go_case = False, go_glob = [], go_max = 0, go_offset = 0\<rparr>"

definition ws_search ::
  "(string \<Rightarrow> string \<Rightarrow> bool) \<Rightarrow> (string \<Rightarrow> string) \<Rightarrow> (string \<Rightarrow> string + (string \<Rightarrow> bool)) \<Rightarrow>
   workspace \<Rightarrow> string \<Rightarrow> fs \<Rightarrow> ws_error + string list" where
  "ws_search fmatch lower compile w needle fs =
     map_sum id (\<lambda>ms. rev (remdups (rev (map sm_path ms)))) (ws_grep fmatch lower compile w needle search_options fs)"

definition limit_string_list :: "string list \<Rightarrow> int \<Rightarrow> int \<Rightarrow> string \<Rightarrow> string + string list \<times> bool" where
  "limit_string_list items limit max_limit label =
     (if limit < 0 then Inl (label @ '' must be >= 0'')
      else if max_limit < limit then Inl (label @ '' must be <= '' @ dec_int max_limit)
      else if limit = 0 \<or> int (length items) \<le> limit then Inr (items, False)
      else Inr (take (nat limit) items, True))"

definition join_string_list :: "string list \<Rightarrow> bool \<Rightarrow> string" where
  "join_string_list items truncated =
     join [CHR 0x0A] (if truncated then items @ [''[result_truncated]''] else items)"

subsection \<open>The buffer of a command's output\<close>

record bounded_buffer =
  bb_data :: string
  bb_max :: int
  bb_truncated :: bool

definition buffer_write :: "string \<Rightarrow> bounded_buffer \<Rightarrow> nat \<times> bounded_buffer" where
  "buffer_write p b =
     (if bb_max b \<le> 0 then (length p, b\<lparr>bb_truncated := True\<rparr>)
      else
        (let remaining = bb_max b - int (length (bb_data b))
         in if remaining \<le> 0 then (length p, b\<lparr>bb_truncated := True\<rparr>)
            else if remaining < int (length p)
            then (length p, b\<lparr>bb_data := bb_data b @ take (nat remaining) p, bb_truncated := True\<rparr>)
            else (length p, b\<lparr>bb_data := bb_data b @ p\<rparr>)))"

fun longest_valid :: "string \<Rightarrow> nat \<Rightarrow> string" where
  "longest_valid s 0 = []"
| "longest_valid s (Suc n) = (if utf8_valid (take (Suc n) s) then take (Suc n) s else longest_valid s n)"

definition buffer_string :: "bounded_buffer \<Rightarrow> string" where
  "buffer_string b = longest_valid (bb_data b) (length (bb_data b))"

subsection \<open>Staying inside the root\<close>

definition root_parts :: "workspace \<Rightarrow> fpath" where
  "root_parts w = path_parts (path_clean (ws_root w))"

definition ws_good :: "workspace \<Rightarrow> fs \<Rightarrow> bool" where
  "ws_good w fs \<longleftrightarrow> fs_ok fs \<and> is_abs (ws_root w) \<and> is_dir_at fs (root_parts w)"

text \<open>The file system is changed below a directory only, and stays well-formed with that directory.\<close>

definition confined :: "fpath \<Rightarrow> fs \<Rightarrow> fs \<Rightarrow> bool" where
  "confined rs fs fs' \<longleftrightarrow> fs_ok fs' \<and> is_dir_at fs' rs \<and> (\<forall>q. \<not> strict_prefix rs q \<longrightarrow> node_at fs' q = node_at fs q)"

lemma is_dir_iff: "is_dir_at fs p \<longleftrightarrow> (\<exists>m. node_at fs p = Some (DirE m))"
  by (auto simp: is_dir_at_def split: option.splits fs_entry.splits)

lemma confined_refl: "fs_ok fs \<Longrightarrow> is_dir_at fs rs \<Longrightarrow> confined rs fs fs"
  by (simp add: confined_def)

lemma confined_trans: "confined rs fs fs1 \<Longrightarrow> confined rs fs1 fs2 \<Longrightarrow> confined rs fs fs2"
  by (simp add: confined_def)

lemma confinedI:
  assumes "fs_ok fs'" and "is_dir_at fs rs" and "\<And>q. \<not> strict_prefix rs q \<Longrightarrow> node_at fs' q = node_at fs q"
  shows "confined rs fs fs'"
  using assms assms(3) [of rs] by (auto simp: confined_def is_dir_at_def)

lemma resolve_inside:
  assumes "is_abs (ws_root w)" and "resolve w rel = Inr path"
  obtains cs where "list_all plain cs" "path = abs_path cs" "path_parts path = cs" "prefix (root_parts w) cs"
proof -
  have j: "is_abs (path_join (ws_root w) rel)"
  proof -
    have "is_abs s \<Longrightarrow> is_abs (path_clean s)" for s by (simp add: path_clean_def)
    moreover have "is_abs (ws_root w @ s)" for s using assms(1) by (cases "ws_root w") (simp_all add: is_abs_def)
    moreover have "ws_root w \<noteq> []" using assms(1) by (auto simp: is_abs_def)
    ultimately show ?thesis using assms(1) by (simp add: path_join_def)
  qed
  have "is_abs (if is_abs rel then path_clean rel else path_join (ws_root w) rel)"
    using j by (simp add: path_clean_def)
  then obtain cs where cs: "list_all plain cs" "path_clean (if is_abs rel then path_clean rel else path_join (ws_root w) rel) = abs_path cs"
    using clean_abs by metis
  obtain rs where rs: "list_all plain rs" "path_clean (ws_root w) = abs_path rs" "root_parts w = rs"
    using clean_abs [OF assms(1)] by (auto simp: root_parts_def)
  have p: "path = abs_path cs" and d: "abs_path cs = abs_path rs \<or> has_prefix (abs_path rs @ ''/'') (abs_path cs)"
    using assms(2) cs(2) rs(2) by (auto simp: resolve_def Let_def split: if_splits)
  have "prefix rs cs"
  proof (cases "rs = []")
    case False
    then show ?thesis using d inside_iff [OF rs(1) cs(1)] abs_path_inject [OF cs(1) rs(1)] by auto
  qed simp
  then show ?thesis using that [of cs] cs(1) p rs(3) by simp
qed

lemma root_path:
  assumes "is_abs (ws_root w)" and "list_all plain cs"
  shows "abs_path cs = path_clean (ws_root w) \<longleftrightarrow> cs = root_parts w"
proof -
  obtain rs where rs: "list_all plain rs" "path_clean (ws_root w) = abs_path rs" "root_parts w = rs"
    using clean_abs [OF assms(1)] by (auto simp: root_parts_def)
  then show ?thesis using abs_path_inject [OF assms(2) rs(1)] by simp
qed

lemma mkdir_confined:
  assumes "fs_ok fs" and "is_dir_at fs rs" and "prefix rs p \<or> prefix p rs" and "mkdir_all fs p perm = (e, fs')"
  shows "confined rs fs fs'"
proof (rule confinedI [OF mkdir_all_spec(1) [OF assms(4,1)] assms(2)])
  fix q
  assume q: "\<not> strict_prefix rs q"
  show "node_at fs' q = node_at fs q"
  proof (cases "prefix q p")
    case True
    then have "prefix q rs \<or> prefix rs q"
      using assms(3) prefix_same_cases [of q p rs] prefix_order.dual_order.trans [of p rs q] by blast
    then have "strict_prefix q rs \<or> q = rs" using q by (auto simp: strict_prefix_def)
    moreover have "\<exists>m. node_at fs rs = Some (DirE m)" using assms(2) by (simp add: is_dir_iff)
    ultimately have "is_dir_at fs q" using fs_okD [OF assms(1)] assms(2) by blast
    then have "node_at fs q \<noteq> None" by (auto simp: is_dir_iff)
    then show ?thesis using mkdir_all_spec(2) [OF assms(4,1), of q] by auto
  next
    case False
    then show ?thesis using mkdir_all_spec(2) [OF assms(4,1), of q] by auto
  qed
qed

lemma write_file_confined:
  assumes "fs_ok fs" and "is_dir_at fs rs" and "prefix rs p" and "write_file fs p c perm = (e, fs')"
  shows "confined rs fs fs'"
  using assms(4)
proof (cases rule: write_file_cases)
  case (wrote m)
  then have "p \<noteq> rs" using assms(2) by auto
  then have sp: "strict_prefix rs p" using assms(3) by (simp add: strict_prefix_def)
  have "node_at fs' q = node_at fs q" if "\<not> strict_prefix rs q" for q
    using sp that by (auto simp: wrote(2) node_at_put [OF wrote(3)])
  then show ?thesis by (rule confinedI [OF write_file_ok [OF assms(1,4)] assms(2)])
qed (simp add: confined_refl [OF assms(1,2)])

lemma drop_confined:
  assumes "fs_ok fs" and "is_dir_at fs rs" and "strict_prefix rs p"
  shows "confined rs fs (drop_tree fs p)"
proof (rule confinedI [OF drop_ok [OF assms(1)] assms(2)])
  fix q
  assume q: "\<not> strict_prefix rs q"
  have "\<not> prefix p q" using q assms(3) by (meson prefix_order.less_le_trans)
  then show "node_at (drop_tree fs p) q = node_at fs q" by (simp add: node_at_drop)
qed

lemma move_confined:
  assumes "fs_ok fs" and "is_dir_at fs rs" and "strict_prefix rs src" and "strict_prefix rs dst"
    and "\<not> prefix src dst" and "\<not> prefix dst src" and "walk_error fs dst = None"
  shows "confined rs fs (move_tree fs src dst)"
proof (rule confinedI [OF move_ok [OF assms(1,5,6,7)] assms(2)])
  fix q
  assume q: "\<not> strict_prefix rs q"
  have "\<not> prefix src q" "\<not> prefix dst q" using q assms(3,4) by (meson prefix_order.less_le_trans)+
  then show "node_at (move_tree fs src dst) q = node_at fs q" by (simp add: node_at_move [OF assms(5,6)])
qed

lemma dir_inside:
  assumes "list_all plain cs" and "prefix rs cs"
  shows "prefix rs (path_parts (path_dir (abs_path cs))) \<or> prefix (path_parts (path_dir (abs_path cs))) rs"
proof (cases cs rule: rev_cases)
  case Nil
  have "path_parts (path_dir (abs_path [])) = []" by code_simp
  then show ?thesis using Nil by simp
next
  case (snoc ds d)
  then have "path_dir (abs_path cs) = abs_path ds" "list_all plain ds" using dir_abs [of ds d] assms(1) by simp_all
  then have "path_parts (path_dir (abs_path cs)) = ds" by simp
  then show ?thesis using assms(2) snoc by (auto simp: prefix_snoc)
qed

lemma write_under_confined:
  assumes "fs_ok fs" and "is_dir_at fs rs" and "list_all plain cs" and "prefix rs cs"
    and "write_under fs (abs_path cs) c perm = (e, fs')"
  shows "confined rs fs fs'"
proof -
  obtain e1 fs1 where m: "mkdir_all fs (path_parts (path_dir (abs_path cs))) 493 = (e1, fs1)" by fastforce
  have c1: "confined rs fs fs1" by (rule mkdir_confined [OF assms(1,2) dir_inside [OF assms(3,4)] m])
  show ?thesis
  proof (cases e1)
    case (Some x)
    then show ?thesis using c1 assms(5) m by (simp add: write_under_def)
  next
    case None
    then have "write_file fs1 cs c perm = (e, fs')" using assms(3,5) m by (simp add: write_under_def)
    moreover have "fs_ok fs1" "is_dir_at fs1 rs" using c1 by (simp_all add: confined_def)
    ultimately have "confined rs fs1 fs'" using write_file_confined assms(4) by blast
    with c1 show ?thesis by (rule confined_trans)
  qed
qed

lemma ws_write_confined:
  assumes "ws_good w fs" and "ws_write w rel c fs = (e, fs')"
  shows "confined (root_parts w) fs fs'"
proof -
  have g: "fs_ok fs" "is_abs (ws_root w)" "is_dir_at fs (root_parts w)" using assms(1) by (simp_all add: ws_good_def)
  show ?thesis
  proof (cases "resolve w rel")
    case (Inl x)
    then show ?thesis using assms(2) confined_refl [OF g(1,3)] by (simp add: ws_write_def)
  next
    case (Inr path)
    obtain cs where cs: "list_all plain cs" "path = abs_path cs" "prefix (root_parts w) cs"
      using resolve_inside [OF g(2) Inr] by metis
    obtain e1 fs1 where u: "write_under fs (abs_path cs) c 420 = (e1, fs1)" by fastforce
    then have "fs1 = fs'" using assms(2) Inr cs(2) by (simp add: ws_write_def)
    then show ?thesis using write_under_confined [OF g(1,3) cs(1,3) u] by simp
  qed
qed

lemma edit_file_confined:
  assumes "ws_good w fs" and "edit_file w rel old new n fs = (e, fs')"
  shows "confined (root_parts w) fs fs'"
proof -
  have "fs' = fs \<or> (\<exists>c. ws_write w rel c fs = (e, fs'))"
    using assms(2) by (auto simp: edit_file_def Let_def split: sum.splits if_splits)
  then show ?thesis using assms(1) ws_write_confined [OF assms(1)] by (auto simp: ws_good_def confined_refl)
qed

lemma delete_path_confined:
  assumes "ws_good w fs" and "delete_path w rel recursive fs = (e, fs')"
  shows "confined (root_parts w) fs fs'"
proof -
  have g: "fs_ok fs" "is_abs (ws_root w)" "is_dir_at fs (root_parts w)" using assms(1) by (simp_all add: ws_good_def)
  note r = confined_refl [OF g(1,3)]
  show ?thesis
  proof (cases "resolve w rel")
    case (Inl x)
    then show ?thesis using assms(2) r by (simp add: delete_path_def)
  next
    case (Inr path)
    obtain cs where cs: "list_all plain cs" "path = abs_path cs" "path_parts path = cs" "prefix (root_parts w) cs"
      using resolve_inside [OF g(2) Inr] by metis
    show ?thesis
    proof (cases "cs = root_parts w")
      case True
      then show ?thesis using assms(2) r root_path [OF g(2) cs(1)] Inr cs(2) by (simp add: delete_path_def)
    next
      case False
      then have sp: "strict_prefix (root_parts w) cs" using cs(4) by (simp add: strict_prefix_def)
      then have ne: "cs \<noteq> []" by auto
      have "fs' = fs \<or> fs' = drop_tree fs cs"
        using assms(2) Inr cs(3) ne
        by (auto simp: delete_path_def remove_all_def remove_path_def Let_def split: sum.splits if_splits prod.splits fs_entry.splits)
      then show ?thesis using r drop_confined [OF g(1,3) sp] by auto
    qed
  qed
qed

text \<open>The steps of a move whose paths are resolved and different.\<close>

lemma remove_all_confined:
  assumes "fs_ok fs" and "is_dir_at fs rs" and "strict_prefix rs p" and "remove_all fs p = (e, fs')"
  shows "confined rs fs fs'"
proof -
  have "p \<noteq> []" using assms(3) by auto
  from assms(4) this show ?thesis
    by (cases rule: remove_all_cases) (simp_all add: confined_refl [OF assms(1,2)] drop_confined [OF assms(1-3)])
qed

lemma rename_confined:
  assumes "fs_ok fs" and "is_dir_at fs rs" and "strict_prefix rs src" and "strict_prefix rs dst"
    and "rename_path fs src dst = (e, fs')"
  shows "confined rs fs fs'"
  using assms(5,1)
  by (cases rule: rename_path_cases) (simp_all add: confined_refl [OF assms(1,2)] move_confined [OF assms(1-4)])

lemma make_room_confined:
  assumes "fs_ok fs" and "is_dir_at fs rs" and "strict_prefix rs ds" and "make_room ds name overwrite fs = (e, fs')"
  shows "confined rs fs fs'"
  using assms(4) confined_refl [OF assms(1,2)] remove_all_confined [OF assms(1-3)]
  by (auto simp: make_room_def split: sum.splits if_splits prod.splits)

lemma move_into_confined:
  assumes "fs_ok fs" and "is_dir_at fs rs" and "list_all plain cs" and "list_all plain ds"
    and "strict_prefix rs cs" and "strict_prefix rs ds" and "move_into (abs_path cs) (abs_path ds) fs = (e, fs')"
  shows "confined rs fs fs'"
proof -
  have pd: "prefix rs ds" using assms(6) by (simp add: strict_prefix_def)
  obtain e1 fs1 where m: "mkdir_all fs (path_parts (path_dir (abs_path ds))) 493 = (e1, fs1)" by fastforce
  have c1: "confined rs fs fs1" by (rule mkdir_confined [OF assms(1,2) dir_inside [OF assms(4) pd] m])
  obtain e2 fs2 where n: "rename_path fs1 cs ds = (e2, fs2)" by fastforce
  have ok1: "fs_ok fs1" "is_dir_at fs1 rs" using c1 by (simp_all add: confined_def)
  have c2: "confined rs fs fs2" by (rule confined_trans [OF c1 rename_confined [OF ok1 assms(5,6) n]])
  have "fs' = fs1 \<or> fs' = fs2" using assms(3,4,7) m n by (simp add: move_into_def split: option.splits)
  then show ?thesis using c1 c2 by blast
qed

lemma move_resolved_confined:
  assumes "fs_ok fs" and "is_dir_at fs rs" and "list_all plain cs" and "list_all plain ds"
    and "strict_prefix rs cs" and "strict_prefix rs ds"
    and "move_resolved (abs_path cs) (abs_path ds) name overwrite fs = (e, fs')"
  shows "confined rs fs fs'"
proof -
  obtain stop fs1 where m: "make_room ds name overwrite fs = (stop, fs1)" by fastforce
  have c1: "confined rs fs fs1" by (rule make_room_confined [OF assms(1,2,6) m])
  have ok1: "fs_ok fs1" "is_dir_at fs1 rs" using c1 by (simp_all add: confined_def)
  have "fs' = fs \<or> fs' = fs1 \<or> move_into (abs_path cs) (abs_path ds) fs1 = (e, fs')"
    using assms(3,4,7) m by (simp add: move_resolved_def split: sum.splits option.splits if_splits)
  then show ?thesis
    using confined_refl [OF assms(1,2)] c1 confined_trans [OF c1 move_into_confined [OF ok1 assms(3-6)]] by blast
qed

lemma move_path_confined:
  assumes "ws_good w fs" and "move_path w source destination overwrite fs = (e, fs')"
  shows "confined (root_parts w) fs fs'"
proof -
  have g: "fs_ok fs" "is_abs (ws_root w)" "is_dir_at fs (root_parts w)" using assms(1) by (simp_all add: ws_good_def)
  have "fs' = fs \<or> (\<exists>src dst name. resolve w (trim_space source) = Inr src \<and> resolve w (trim_space destination) = Inr dst \<and>
      src \<noteq> path_clean (ws_root w) \<and> dst \<noteq> path_clean (ws_root w) \<and> move_resolved src dst name overwrite fs = (e, fs'))"
    using assms(2) by (auto simp: move_path_def Let_def split: sum.splits if_splits)
  then show ?thesis
  proof
    assume "\<exists>src dst name. resolve w (trim_space source) = Inr src \<and> resolve w (trim_space destination) = Inr dst \<and>
      src \<noteq> path_clean (ws_root w) \<and> dst \<noteq> path_clean (ws_root w) \<and> move_resolved src dst name overwrite fs = (e, fs')"
    then obtain src dst name where m: "resolve w (trim_space source) = Inr src" "resolve w (trim_space destination) = Inr dst"
      "src \<noteq> path_clean (ws_root w)" "dst \<noteq> path_clean (ws_root w)" "move_resolved src dst name overwrite fs = (e, fs')" by blast
    obtain cs where cs: "list_all plain cs" "src = abs_path cs" "prefix (root_parts w) cs" using resolve_inside [OF g(2) m(1)] by metis
    obtain ds where ds: "list_all plain ds" "dst = abs_path ds" "prefix (root_parts w) ds" using resolve_inside [OF g(2) m(2)] by metis
    have "strict_prefix (root_parts w) cs" "strict_prefix (root_parts w) ds"
      using m(3,4) cs ds root_path [OF g(2)] by (auto simp: strict_prefix_def)
    then show ?thesis using move_resolved_confined [OF g(1,3) cs(1) ds(1)] m(5) cs(2) ds(2) by blast
  qed (simp add: confined_refl [OF g(1,3)])
qed

subsection \<open>What the operations do\<close>

lemma write_under_done:
  assumes "fs_ok fs" and "list_all plain cs" and "write_under fs (abs_path cs) c perm = (None, fs')"
  shows "fs_ok fs' \<and> (\<exists>m. node_at fs' cs = Some (FileE m c)) \<and>
    (\<forall>q. q \<noteq> cs \<longrightarrow> node_at fs' q = node_at fs q \<or> node_at fs q = None \<and> strict_prefix q cs \<and> is_dir_at fs' q)"
proof -
  obtain fs1 where m: "mkdir_all fs (path_parts (path_dir (abs_path cs))) 493 = (None, fs1)"
      and wr: "write_file fs1 cs c perm = (None, fs')"
    using assms(2,3) by (auto simp: write_under_def split: prod.splits option.splits)
  note s = mkdir_all_spec [OF m assms(1)]
  from wr show ?thesis
  proof (cases rule: write_file_cases)
    case (wrote md)
    then obtain ds d where d: "cs = ds @ [d]" by (metis append_butlast_last_id)
    then have dir: "path_parts (path_dir (abs_path cs)) = ds" using dir_abs [of ds d] assms(2) by simp
    have "node_at fs' q = node_at fs q \<or> node_at fs q = None \<and> strict_prefix q cs \<and> is_dir_at fs' q" if q: "q \<noteq> cs" for q
    proof -
      have "node_at fs1 q = node_at fs q \<or> node_at fs q = None \<and> prefix q ds \<and> is_dir_at fs1 q" using s(2) [of q] dir by simp
      moreover have "node_at fs' q = node_at fs1 q" using q by (simp add: wrote(2) node_at_put [OF wrote(3)])
      moreover have "prefix q ds \<Longrightarrow> strict_prefix q cs" using d q by (simp add: strict_prefix_def)
      ultimately show ?thesis by (auto simp: is_dir_at_def)
    qed
    then show ?thesis using write_file_ok [OF s(1) wr] by (simp add: wrote(2) node_at_put [OF wrote(3)])
  qed simp
qed

lemma write_existing:
  assumes "fs_ok fs" and "list_all plain cs" and "node_at fs cs = Some (FileE m c0)"
  shows "write_under fs (abs_path cs) c perm = (None, put_node fs cs (FileE m c))"
proof -
  obtain ds d where d: "cs = ds @ [d]" using assms(3) by (cases cs rule: rev_cases) (auto simp: node_at_def)
  have dir: "path_parts (path_dir (abs_path cs)) = ds" using dir_abs [of ds d] assms(2) d by simp
  have anc: "is_dir_at fs q" if "strict_prefix q cs" for q using fs_okD [OF assms(1,3) that] .
  have "make_dirs fs 493 qs = (None, fs)" if "list_all (is_dir_at fs) qs" for qs
    using that by (induction qs) (auto simp: is_dir_at_def split: option.splits fs_entry.splits)
  moreover have "strict_prefix q cs" if "prefix q ds" for q
    using that d prefix_length_le [of q ds] by (auto simp: strict_prefix_def)
  then have "list_all (is_dir_at fs) (prefixes ds)" using anc by (simp add: list_all_iff)
  ultimately have "mkdir_all fs ds 493 = (None, fs)" by (simp add: mkdir_all_def)
  moreover have "walk_error fs cs = None" using anc by (simp add: walk_error_None)
  ultimately show ?thesis using assms(2,3) dir by (simp add: write_under_def write_file_def)
qed

lemma replace_n_enough: "count_sub s p \<le> n \<Longrightarrow> length s \<le> k \<Longrightarrow> replace_n s p r n = replace_n s p r k"
proof (induction s p r n arbitrary: k rule: replace_n.induct)
  case (1 s p r n)
  show ?case
  proof (cases "s = [] \<or> p = []")
    case True
    then show ?thesis by (auto simp: replace_n.simps [of s])
  next
    case False
    then have k: "k \<noteq> 0" using 1(4) by (cases s) auto
    show ?thesis
    proof (cases "has_prefix p s")
      case True
      have "0 < length p" using False by simp
      moreover have "length p \<le> length s" using True by (simp add: has_prefix_iff prefix_length_le)
      ultimately have "length (drop (length p) s) \<le> k - 1" using 1(4) unfolding length_drop by arith
      moreover have "count_sub (drop (length p) s) p \<le> n - 1" "n \<noteq> 0"
        using 1(3) True False by (auto simp: count_sub.simps [of s])
      ultimately show ?thesis using 1(1) False True k by (simp add: replace_n.simps [of s])
    next
      case np: False
      then have "count_sub (tl s) p \<le> n" "length (tl s) \<le> k" using 1(3,4) False by (auto simp: count_sub.simps [of s])
      then have ih: "n \<noteq> 0 \<Longrightarrow> replace_n (tl s) p r n = replace_n (tl s) p r k" using 1(2) False np by simp
      show ?thesis
      proof (cases "n = 0")
        case True
        have "replace_n u p r k = u" if "count_sub u p = 0" for u
          using that
        proof (induction u)
          case (Cons x u)
          then show ?case by (auto simp: count_sub.simps [of "x # u"] replace_n.simps [of "x # u"] split: if_splits)
        qed (simp add: replace_n.simps)
        then show ?thesis using True 1(3) by (simp add: replace_n.simps [of s p r 0])
      qed (use ih k False np in \<open>simp add: replace_n.simps [of s]\<close>)
    qed
  qed
qed

lemma replace_all_count: "count_sub s p \<le> n \<Longrightarrow> replace_n s p r n = replace_all s p r"
  unfolding replace_all_def by (rule replace_n_enough) simp_all

lemma ws_read_node:
  assumes "ws_good w fs" and "resolve w rel = Inr (abs_path cs)" and "list_all plain cs"
  shows "ws_read w rel fs = Inr c \<longleftrightarrow> (\<exists>m. node_at fs cs = Some (FileE m c))"
  using assms read_file_node [of fs cs c] by (auto simp: ws_read_def ws_good_def split: sum.splits)

lemma ws_write_existing:
  assumes "ws_good w fs" and "ws_read w rel fs = Inr c0"
  obtains path cs m where "resolve w rel = Inr path" "list_all plain cs" "path = abs_path cs" "path_parts path = cs"
    "node_at fs cs = Some (FileE m c0)" "\<And>c. ws_write w rel c fs = (None, put_node fs cs (FileE m c))"
proof -
  obtain path where p: "resolve w rel = Inr path" using assms(2) by (auto simp: ws_read_def split: sum.splits)
  obtain cs where cs: "list_all plain cs" "path = abs_path cs" "path_parts path = cs"
    using resolve_inside [OF _ p] assms(1) unfolding ws_good_def by metis
  obtain m where m: "node_at fs cs = Some (FileE m c0)"
    using ws_read_node [OF assms(1) p [unfolded cs(2)] cs(1)] assms(2) by blast
  have "ws_write w rel c fs = (None, put_node fs cs (FileE m c))" for c
    using write_existing [OF _ cs(1) m] assms(1) p cs(2) by (simp add: ws_write_def ws_good_def)
  then show ?thesis using that p cs m by blast
qed

lemma put_read:
  assumes "resolve w rel = Inr path" and "path_parts path = cs" and "node_at fs cs = Some (FileE m c0)" and "fs_ok fs"
  shows "ws_read w rel (put_node fs cs (FileE m c)) = Inr c"
proof -
  have ne: "cs \<noteq> []" using assms(3) by (auto simp: node_at_def)
  have "walk_error fs cs = None" using fs_okD [OF assms(4,3)] by (simp add: walk_error_None)
  then have "fs_ok (put_node fs cs (FileE m c))" by (rule put_ok [OF assms(4) ne]) (simp add: assms(3))
  then have "read_file (put_node fs cs (FileE m c)) cs = Inr c" by (subst read_file_node) (simp_all add: node_at_put [OF ne])
  then show ?thesis using assms(1,2) by (simp add: ws_read_def)
qed


definition demo_ws :: workspace where
  "demo_ws = \<lparr>ws_root = ''/p'', ws_timeout = 0\<rparr>"

definition demo_fs :: fs where
  "demo_fs = \<lparr>fs_umask = 18, fs_nodes = [([''p''], DirE 493), ([''p'', ''a''], FileE 420 ''one two one''), ([''p'', ''d''], DirE 493),
     ([''p'', ''d'', ''b''], FileE 420 ''x'')]\<rparr>"

lemma demo_ws_good: "ws_good demo_ws demo_fs"
  by code_simp


text \<open>
  what \<open>WriteFile\<close> wrote is what \<open>ReadFile\<close> then returns, and nothing else has changed but for the
  directories made above the file; a write that fails has changed no file and removed nothing.
\<close>

theorem write_then_read:
  assumes "ws_good w fs" and "ws_write w rel c fs = (e, fs')"
  shows "(e = None \<longrightarrow> ws_read w rel fs' = Inr c) \<and>
    (\<forall>q. node_at fs' q = node_at fs q \<or> (node_at fs q = None \<and> is_dir_at fs' q) \<or>
       (e = None \<and> (\<exists>path. resolve w rel = Inr path \<and> q = path_parts path)))"
proof (cases "resolve w rel")
  case (Inl x)
  then show ?thesis using assms(2) by (auto simp: ws_write_def)
next
  case (Inr path)
  have ok: "fs_ok fs" using assms(1) by (simp add: ws_good_def)
  obtain cs where cs: "list_all plain cs" "path = abs_path cs" "path_parts path = cs"
    using resolve_inside [OF _ Inr] assms(1) unfolding ws_good_def by metis
  obtain e1 where u: "write_under fs (abs_path cs) c 420 = (e1, fs')" "e = map_option WsOs e1"
    using assms(2) Inr cs(2) by (auto simp: ws_write_def split: prod.splits)
  show ?thesis
  proof (cases e1)
    case None
    note d = write_under_done [OF ok cs(1) u(1) [unfolded None]]
    then have "read_file fs' cs = Inr c" by (simp add: read_file_node)
    then show ?thesis using d u(2) None Inr cs by (auto simp: ws_read_def)
  next
    case (Some x)
    obtain e2 fs1 where m: "mkdir_all fs (path_parts (path_dir (abs_path cs))) 493 = (e2, fs1)" by fastforce
    have "fs' = fs1" using u(1) m Some
      by (auto simp: write_under_def split: option.splits elim: write_file_cases)
    then show ?thesis using mkdir_all_spec(2) [OF m ok] u(2) Some by auto
  qed
qed

theorem write_then_read_witness:
  "\<exists>fs'. ws_write demo_ws ''n/f'' ''text'' demo_fs = (None, fs') \<and> ws_read demo_ws ''n/f'' fs' = Inr ''text'' \<and>
     node_at fs' [''p'', ''a''] = Some (FileE 420 ''one two one'')"
proof -
  have "fst (ws_write demo_ws ''n/f'' ''text'' demo_fs) = None" by code_simp
  then obtain fs' where x: "ws_write demo_ws ''n/f'' ''text'' demo_fs = (None, fs')" by (metis prod.collapse)
  have "node_at demo_fs [''p'', ''a''] = Some (FileE 420 ''one two one'')" "resolve demo_ws ''n/f'' = Inr ''/p/n/f''"
    "path_parts ''/p/n/f'' = [''p'', ''n'', ''f'']" by code_simp+
  moreover have "ws_read demo_ws ''n/f'' fs' = Inr ''text''" using write_then_read [OF demo_ws_good x] by simp
  moreover have "node_at fs' [''p'', ''a''] = node_at demo_fs [''p'', ''a''] \<or> node_at demo_fs [''p'', ''a''] = None \<or>
      (\<exists>path. resolve demo_ws ''n/f'' = Inr path \<and> [''p'', ''a''] = path_parts path)"
    using write_then_read [OF demo_ws_good x] by blast
  ultimately show ?thesis using x by auto
qed

text \<open>The destination and the source of a move that got past the checks.\<close>

lemma move_split:
  assumes "ws_good w fs" and "resolve w (trim_space source) = Inr src" and "resolve w (trim_space destination) = Inr dst"
  obtains cs ds where "list_all plain cs" "src = abs_path cs" "path_parts src = cs" "list_all plain ds" "dst = abs_path ds"
    "path_parts dst = ds" "prefix (root_parts w) cs" "prefix (root_parts w) ds"
    "src = path_clean (ws_root w) \<longleftrightarrow> cs = root_parts w" "dst = path_clean (ws_root w) \<longleftrightarrow> ds = root_parts w"
    "src = dst \<longleftrightarrow> cs = ds"
proof -
  have a: "is_abs (ws_root w)" using assms(1) by (simp add: ws_good_def)
  obtain cs where cs: "list_all plain cs" "src = abs_path cs" "path_parts src = cs" "prefix (root_parts w) cs"
    using resolve_inside [OF a assms(2)] by metis
  obtain ds where ds: "list_all plain ds" "dst = abs_path ds" "path_parts dst = ds" "prefix (root_parts w) ds"
    using resolve_inside [OF a assms(3)] by metis
  show ?thesis
    using that [of cs ds] cs ds root_path [OF a cs(1)] root_path [OF a ds(1)] abs_path_inject [OF cs(1) ds(1)] by simp
qed

lemma make_room_done:
  assumes "make_room ds name overwrite fs = (None, fs1)" and "ds \<noteq> []"
  shows "fs1 = fs \<and> lookup fs ds = Inl NotExist \<or> fs1 = drop_tree fs ds \<and> overwrite"
  using assms by (auto simp: make_room_def remove_all_def split: sum.splits if_splits prod.splits)

lemma mkdir_noop:
  assumes "\<And>q. prefix q p \<Longrightarrow> is_dir_at fs q"
  shows "mkdir_all fs p perm = (None, fs)"
proof -
  have "make_dirs fs perm qs = (None, fs)" if "list_all (is_dir_at fs) qs" for qs
    using that by (induction qs) (auto simp: is_dir_iff)
  then show ?thesis using assms by (simp add: mkdir_all_def list_all_iff)
qed

text \<open>
  a successful \<open>MovePath\<close> moves the whole tree: what was at or below the source is at the same
  relative place below the destination, the source is gone, what was below the destination before is
  gone, and nothing else has changed but for directories made above the destination.
\<close>

theorem move_effect:
  assumes "ws_good w fs" and "move_path w source destination overwrite fs = (None, fs')"
  shows "\<exists>src dst cs ds. resolve w (trim_space source) = Inr src \<and> resolve w (trim_space destination) = Inr dst \<and>
    cs = path_parts src \<and> ds = path_parts dst \<and>
    (if cs = ds then fs' = fs
     else (\<forall>r. node_at fs' (ds @ r) = node_at fs (cs @ r) \<and> node_at fs' (cs @ r) = None) \<and>
       (\<forall>q. \<not> prefix cs q \<longrightarrow> \<not> prefix ds q \<longrightarrow>
          node_at fs' q = node_at fs q \<or> node_at fs q = None \<and> is_dir_at fs' q \<and> strict_prefix q ds) \<and>
       (overwrite \<or> node_at fs ds = None))"
proof -
  obtain src dst where rs: "resolve w (trim_space source) = Inr src" "resolve w (trim_space destination) = Inr dst"
    using assms(2) by (auto simp: move_path_def Let_def split: sum.splits if_splits)
  obtain cs ds where m: "list_all plain cs" "src = abs_path cs" "path_parts src = cs" "list_all plain ds" "dst = abs_path ds"
    "path_parts dst = ds" "src = path_clean (ws_root w) \<longleftrightarrow> cs = root_parts w"
    "dst = path_clean (ws_root w) \<longleftrightarrow> ds = root_parts w" "src = dst \<longleftrightarrow> cs = ds" "prefix (root_parts w) ds"
    using move_split [OF assms(1) rs] by metis
  have ok: "fs_ok fs" using assms(1) by (simp add: ws_good_def)
  show ?thesis
  proof (cases "cs = ds")
    case True
    then have "fs' = fs" using assms(2) rs m by (auto simp: move_path_def Let_def split: if_splits)
    then show ?thesis using True rs m by auto
  next
    case ne: False
    then have mr: "move_resolved src dst (trim_space destination) overwrite fs = (None, fs')" and nr: "ds \<noteq> root_parts w"
      using assms(2) rs m by (auto simp: move_path_def Let_def split: if_splits)
    have dn: "ds \<noteq> []" using nr m(10) by auto
    obtain fs1 where room: "make_room ds (trim_space destination) overwrite fs = (None, fs1)"
      and rest: "move_into src dst fs1 = (None, fs')"
      using mr m(3,6) by (auto simp: move_resolved_def split: sum.splits if_splits prod.splits option.splits)
    note s = make_room_done [OF room dn]
    have ok1: "fs_ok fs1" using s ok drop_ok by auto
    obtain fs2 where mk: "mkdir_all fs1 (path_parts (path_dir dst)) 493 = (None, fs2)" and rn: "rename_path fs2 cs ds = (None, fs')"
      using rest m(3,6) by (auto simp: move_into_def split: prod.splits option.splits)
    obtain as d where d: "ds = as @ [d]" using dn by (metis append_butlast_last_id)
    have dir: "path_parts (path_dir dst) = as" using dir_abs [of as d] m(4,5) d by simp
    note s2 = mkdir_all_spec [OF mk [unfolded dir] ok1]
    from rn s2(1) show ?thesis
    proof (cases rule: rename_path_cases)
      case moved
      have in_src: "node_at fs2 (cs @ r) = node_at fs (cs @ r)" for r
      proof -
        have "\<not> prefix (cs @ r) as" using moved(2) d by (metis append_prefixD prefix_order.dual_order.trans prefixI)
        then have "node_at fs2 (cs @ r) = node_at fs1 (cs @ r)" using s2(2) [of "cs @ r"] by auto
        moreover have "\<not> prefix ds (cs @ r)" using moved(2,3) prefix_same_cases [of ds "cs @ r" cs] by auto
        ultimately show ?thesis using s by (auto simp: node_at_drop)
      qed
      have others: "node_at fs' q = node_at fs q \<or> node_at fs q = None \<and> is_dir_at fs' q \<and> strict_prefix q ds"
        if "\<not> prefix cs q" "\<not> prefix ds q" for q
      proof -
        have "node_at fs1 q = node_at fs q" using s that(2) by (auto simp: node_at_drop)
        moreover have "node_at fs' q = node_at fs2 q" using that moved by (simp add: node_at_move)
        moreover have "prefix q as \<Longrightarrow> strict_prefix q ds" using d that(2) by (auto simp: strict_prefix_def)
        ultimately show ?thesis using s2(2) [of q] by (auto simp: is_dir_at_def)
      qed
      have "node_at fs' (ds @ r) = node_at fs (cs @ r) \<and> node_at fs' (cs @ r) = None" for r
      proof -
        have "\<not> prefix ds (cs @ r)" using moved(2,3) prefix_same_cases [of ds "cs @ r" cs] by auto
        then show ?thesis using in_src [of r] moved by (simp add: node_at_move)
      qed
      moreover have "overwrite \<or> node_at fs ds = None"
        using s lookup_Inr [OF ok, of ds "the (node_at fs ds)"] by (cases "node_at fs ds") auto
      ultimately show ?thesis using others rs m ne by auto
    qed (use ne in simp_all)
  qed
qed

theorem move_effect_witness:
  "\<exists>fs'. move_path demo_ws ''d'' ''e'' False demo_fs = (None, fs') \<and>
     node_at fs' [''p'', ''e'', ''b''] = Some (FileE 420 ''x'') \<and> node_at fs' [''p'', ''d''] = None"
proof -
  have "fst (move_path demo_ws ''d'' ''e'' False demo_fs) = None" by code_simp
  then obtain fs' where x: "move_path demo_ws ''d'' ''e'' False demo_fs = (None, fs')" by (metis prod.collapse)
  have r: "resolve demo_ws (trim_space ''d'') = Inr ''/p/d''" "resolve demo_ws (trim_space ''e'') = Inr ''/p/e''"
    "node_at demo_fs [''p'', ''d'', ''b''] = Some (FileE 420 ''x'')" by code_simp+
  have q: "path_parts ''/p/d'' = [''p'', ''d'']" "path_parts ''/p/e'' = [''p'', ''e'']" by code_simp+
  from move_effect [OF demo_ws_good x] r q
  have n: "\<forall>r. node_at fs' ([''p'', ''e''] @ r) = node_at demo_fs ([''p'', ''d''] @ r) \<and> node_at fs' ([''p'', ''d''] @ r) = None"
    by auto
  from n [rule_format, of "[''b'']"] n [rule_format, of "[]"] show ?thesis using x r(3) by auto
qed

text \<open>
  overwriting an ancestor of the source. \<open>MovePath\<close> checks that the destination is not inside the
  source, but not the converse: moving a file or directory over a directory that contains it removes
  that directory, and the source with it, and then fails because the source is gone.
\<close>

theorem move_over_ancestor_destroys:
  assumes "ws_good w fs" and "resolve w (trim_space source) = Inr src" and "resolve w (trim_space destination) = Inr dst"
    and "trim_space destination \<noteq> []" and "dst \<noteq> path_clean (ws_root w)"
    and "strict_prefix (path_parts dst) (path_parts src)" and "node_at fs (path_parts src) \<noteq> None"
  shows "\<exists>e fs'. move_path w source destination True fs = (Some (WsOs e), fs') \<and>
    (\<forall>q. prefix (path_parts dst) q \<longrightarrow> node_at fs' q = None)"
proof -
  obtain cs ds where m: "list_all plain cs" "src = abs_path cs" "path_parts src = cs" "list_all plain ds" "dst = abs_path ds"
    "path_parts dst = ds" "prefix (root_parts w) cs" "prefix (root_parts w) ds"
    "src = path_clean (ws_root w) \<longleftrightarrow> cs = root_parts w" "dst = path_clean (ws_root w) \<longleftrightarrow> ds = root_parts w"
    "src = dst \<longleftrightarrow> cs = ds"
    using move_split [OF assms(1-3)] by metis
  have ok: "fs_ok fs" using assms(1) by (simp add: ws_good_def)
  have sp: "strict_prefix ds cs" using assms(6) m(3,6) by simp
  have dn: "ds \<noteq> []" using assms(5) m(8,10) by auto
  have srcn: "src \<noteq> path_clean (ws_root w)" "src \<noteq> dst"
    using sp m(8-11) assms(5) by (auto simp: strict_prefix_def)
  obtain x where x: "node_at fs cs = Some x" using assms(7) m(3) by auto
  then have lx: "lookup fs cs = Inr x" using lookup_Inr [OF ok] by simp
  have dd: "is_dir_at fs q" if "prefix q ds" for q
    by (rule fs_okD [OF ok x]) (use that sp in \<open>auto simp: strict_prefix_def intro: prefix_order.antisym\<close>)
  then obtain md where "node_at fs ds = Some (DirE md)" by (auto simp: is_dir_iff)
  then have ld: "lookup fs ds = Inr (DirE md)" using lookup_Inr [OF ok] by simp
  have hp: "\<not> has_prefix (src @ ''/'') dst"
  proof (cases "cs = []")
    case False
    then have "\<not> strict_prefix cs ds" using sp by (meson prefix_order.less_asym)
    then show ?thesis using inside_iff [OF m(1,4) False] m(2,5) by simp
  qed (use sp in simp)
  have we: "walk_error fs ds = None" using dd by (auto simp: walk_error_None strict_prefix_def)
  let ?g = "drop_tree fs ds"
  have room: "make_room ds (trim_space destination) True fs = (None, ?g)"
    using ld we dn by (simp add: make_room_def remove_all_def)
  obtain as d where d: "ds = as @ [d]" using dn by (metis append_butlast_last_id)
  have dir: "path_parts (path_dir dst) = as" using dir_abs [of as d] m(4,5) d by simp
  have "mkdir_all ?g as 493 = (None, ?g)"
  proof (rule mkdir_noop)
    fix q
    assume q: "prefix q as"
    then have "\<not> prefix ds q" using d prefix_length_le [of ds q] prefix_length_le [of q as] by auto
    then show "is_dir_at ?g q" using dd [of q] q d by (auto simp: is_dir_at_def node_at_drop)
  qed
  moreover obtain e where "lookup ?g cs = Inl e"
  proof -
    have "node_at ?g cs = None" using sp by (auto simp: node_at_drop strict_prefix_def)
    then show ?thesis using lookup_Inr [OF drop_ok [OF ok, of ds], of cs] that by (cases "lookup ?g cs") auto
  qed
  ultimately have "move_into src dst ?g = (Some (WsOs e), ?g)"
    using dir m(3,6) by (simp add: move_into_def rename_path_def)
  then have "move_path w source destination True fs = (Some (WsOs e), ?g)"
    using assms(2-5) srcn m(3,6) lx hp room by (simp add: move_path_def move_resolved_def)
  moreover have "\<forall>q. prefix ds q \<longrightarrow> node_at ?g q = None" using dn by (auto simp: node_at_drop)
  ultimately show ?thesis using m(6) by blast
qed

theorem move_over_ancestor_destroys_witness:
  "\<exists>e fs'. move_path demo_ws ''d/b'' ''d'' True demo_fs = (Some (WsOs e), fs') \<and>
     node_at demo_fs [''p'', ''d'', ''b''] \<noteq> None \<and> node_at fs' [''p'', ''d'', ''b''] = None"
proof -
  have r: "resolve demo_ws (trim_space ''d/b'') = Inr ''/p/d/b''" "resolve demo_ws (trim_space ''d'') = Inr ''/p/d''"
    "path_parts ''/p/d/b'' = [''p'', ''d'', ''b'']" "path_parts ''/p/d'' = [''p'', ''d'']" "path_clean (ws_root demo_ws) = ''/p''"
    "trim_space ''d'' \<noteq> []" "node_at demo_fs [''p'', ''d'', ''b''] \<noteq> None" by code_simp+
  from move_over_ancestor_destroys [OF demo_ws_good r(1,2,6)] r(3-5,7) show ?thesis
    by (fastforce simp: strict_prefix_def)
qed

lemma wrap64_over:
  assumes "2 ^ 63 \<le> x" and "x < 2 ^ 64"
  shows "wrap64 x = x - 2 ^ 64"
proof -
  have "x + 2 ^ 63 = x - 2 ^ 63 + 2 ^ 64" by simp
  then have "(x + 2 ^ 63) mod 2 ^ 64 = (x - 2 ^ 63 + 2 ^ 64) mod 2 ^ 64" by (rule arg_cong)
  also have "\<dots> = (x - 2 ^ 63) mod 2 ^ 64" by (rule mod_add_self2)
  also have "\<dots> = x - 2 ^ 63" using assms by (intro mod_pos_pos_trivial) auto
  finally show ?thesis by (simp add: wrap64_def)
qed

text \<open>
  C35: \<open>ReadFileRange\<close> returns the lines from the offset on, at most as many as the limit; an offset past
  the end gives the empty text. But when the offset and the limit add up beyond the 64-bit range, and the
  offset is within the file, the slice expression panics.
\<close>

theorem read_range_window:
  assumes "ws_read w rel fs = Inr text" and "0 \<le> off" and "off < 2 ^ 63" and "0 \<le> lim" and "lim < 2 ^ 63"
    and "lines = split_on (CHR 0x0A) text" and "int (length lines) < 2 ^ 63" and "start = nat (off - 1)"
  shows "read_file_range w rel \<lparr>ro_offset_line = off, ro_limit_lines = lim\<rparr> fs =
    (if off = 0 \<and> lim = 0 then Returns (Inr text)
     else if int start + lim < 2 ^ 63 \<or> length lines < start
     then Returns (Inr (join [CHR 0x0A] (if lim = 0 then drop start lines else take (nat lim) (drop start lines))))
     else Panics ''runtime error: slice bounds out of range'')"
proof -
  obtain path where p: "resolve w rel = Inr path" "read_file fs (path_parts path) = Inr text"
    using assms(1) by (auto simp: ws_read_def split: sum.splits)
  have st: "max 0 (off - 1) = int start" using assms(8) by simp
  show ?thesis
  proof (cases "int start + lim < 2 ^ 63")
    case True
    then have "wrap64 (int start + lim) = int start + lim" using assms(4) by (intro wrap64_id) auto
    moreover have "nat (int start + lim) - start = nat lim" using assms(4) by arith
    ultimately show ?thesis using p assms(2,4,6) st True
      by (auto simp: read_file_range_def Let_def nat_diff_distrib' min_def)
  next
    case False
    have "wrap64 (int start + lim) = int start + lim - 2 ^ 64"
      by (rule wrap64_over) (use False assms(3,5,8) in auto)
    moreover have off: "1 < off" "0 < lim" using False [folded st] assms(3,5) by (simp_all add: max_def split: if_splits)
    moreover have "0 < start" "off \<noteq> 0" using off(1) assms(8) by simp_all
    moreover have "int start + lim - 2 ^ 64 < 0" using assms(3,5,8) by auto
    ultimately show ?thesis using p assms(2,4,6,7) False st
      by (simp add: read_file_range_def Let_def del: of_nat_nat) 
  qed
qed

theorem read_range_window_witness:
  "read_file_range demo_ws ''a'' \<lparr>ro_offset_line = 1, ro_limit_lines = 3\<rparr> demo_fs = Returns (Inr ''one two one'') \<and>
   read_file_range demo_ws ''a'' \<lparr>ro_offset_line = 2, ro_limit_lines = 2 ^ 63 - 1\<rparr> demo_fs =
     Panics ''runtime error: slice bounds out of range''"
proof -
  have t: "ws_read demo_ws ''a'' demo_fs = Inr ''one two one''" by code_simp
  have l: "split_on (CHR 0x0A) ''one two one'' = [''one two one'']" by code_simp
  note w = read_range_window [OF t _ _ _ _ refl _ refl, unfolded l]
  have "read_file_range demo_ws ''a'' \<lparr>ro_offset_line = 1, ro_limit_lines = 3\<rparr> demo_fs = Returns (Inr ''one two one'')"
    by (subst w) simp_all
  moreover have "read_file_range demo_ws ''a'' \<lparr>ro_offset_line = 2, ro_limit_lines = 2 ^ 63 - 1\<rparr> demo_fs =
     Panics ''runtime error: slice bounds out of range''"
    by (subst w) simp_all
  ultimately show ?thesis by simp
qed

text \<open>The matches a search without bounds would return, file by file and line by line.\<close>

fun line_matches :: "(string \<Rightarrow> bool) \<Rightarrow> string \<Rightarrow> nat \<Rightarrow> string list \<Rightarrow> search_match list" where
  "line_matches ok rel n [] = []"
| "line_matches ok rel n (l # ls) =
     (if ok (drop_cr l) then [\<lparr>sm_path = rel, sm_line = Suc n, sm_excerpt = trim_space (drop_cr l)\<rparr>] else []) @
     line_matches ok rel (Suc n) ls"

definition file_matches :: "(string \<Rightarrow> bool) \<Rightarrow> fs \<Rightarrow> fpath \<times> string \<Rightarrow> search_match list" where
  "file_matches ok fs f = (case read_file fs (fst f) of Inl _ \<Rightarrow> [] | Inr text \<Rightarrow> line_matches ok (snd f) 0 (raw_lines text))"

definition short_lines :: "fs \<Rightarrow> fpath \<times> string \<Rightarrow> bool" where
  "short_lines fs f =
     (case read_file fs (fst f) of Inl _ \<Rightarrow> True | Inr text \<Rightarrow> list_all (\<lambda>l. length l < max_scan_line) (raw_lines text))"

lemma grep_lines_all:
  assumes "list_all (\<lambda>l. length l < max_scan_line) ls" and "int (length acc) < cap"
  shows "grep_lines ok rel cap ls n acc =
    (if cap \<le> int (length (acc @ line_matches ok rel n ls))
     then (take (nat cap) (acc @ line_matches ok rel n ls), ScanSkipAll) else (acc @ line_matches ok rel n ls, ScanNext))"
  using assms
proof (induction ls arbitrary: n acc)
  case (Cons l ls)
  show ?case
  proof (cases "ok (drop_cr l)")
    case True
    let ?m = "\<lparr>sm_path = rel, sm_line = Suc n, sm_excerpt = trim_space (drop_cr l)\<rparr>"
    show ?thesis
    proof (cases "cap \<le> int (length (acc @ [?m]))")
      case cap: True
      then have "nat cap = length (acc @ [?m])" using Cons.prems(2) by simp
      then have "take (nat cap) (acc @ line_matches ok rel n (l # ls)) = acc @ [?m]" using True by simp
      then show ?thesis using True cap Cons.prems(1) by (simp add: Let_def)
    next
      case False
      then show ?thesis using Cons.IH [of "acc @ [?m]" "Suc n"] Cons.prems(1) True by (simp add: Let_def)
    qed
  next
    case False
    then show ?thesis using Cons.IH [of acc "Suc n"] Cons.prems by simp
  qed
qed simp

lemma grep_files_all:
  assumes "list_all (short_lines fs) (filter (\<lambda>f. glob (snd f)) files)" and "int (length acc) \<le> cap"
  shows "grep_files ok glob cap fs files acc =
    Inr (take (nat cap) (acc @ concat (map (file_matches ok fs) (filter (\<lambda>f. glob (snd f)) files))))"
  using assms
proof (induction files arbitrary: acc)
  case (Cons f files)
  obtain q rel where f: "f = (q, rel)" by fastforce
  let ?rest = "concat (map (file_matches ok fs) (filter (\<lambda>f. glob (snd f)) files))"
  show ?case
  proof (cases "int (length acc) = cap \<or> \<not> glob rel")
    case True
    then show ?thesis using Cons f by auto
  next
    case False
    then have lt: "int (length acc) < cap" and g: "glob rel" using Cons.prems(2) by auto
    show ?thesis
    proof (cases "read_file fs q")
      case (Inl e)
      then show ?thesis using Cons.IH [of acc] Cons.prems f g lt by (simp add: file_matches_def)
    next
      case (Inr body)
      have sl: "list_all (\<lambda>l. length l < max_scan_line) (raw_lines body)" using Cons.prems(1) f g Inr by (simp add: short_lines_def)
      note gl = grep_lines_all [OF sl lt, of ok rel 0]
      have fm: "file_matches ok fs f = line_matches ok rel 0 (raw_lines body)" by (simp add: file_matches_def f Inr)
      show ?thesis
        using Cons.IH [of "acc @ line_matches ok rel 0 (raw_lines body)"] Cons.prems f g lt Inr gl fm
        by (auto simp: nat_le_iff)
    qed
  qed
qed simp

text \<open>
  \<open>Grep\<close> returns the matches from the offset on, at most as many as asked for (100 by default) and none
  past the thousandth, of the search over all files the walk visits whose relative path matches the glob,
  file by file and line by line; unless a line of one of these files does not fit the scanner.
\<close>

theorem grep_window:
  assumes "pattern \<noteq> []" and "0 \<le> go_max opts" and "go_max opts \<le> 1000" and "0 \<le> go_offset opts" and "go_offset opts < 1000"
    and "\<not> go_regex opts" and "walk_files w fs = Inr files"
    and "found = filter (\<lambda>f. go_glob opts = [] \<or> glob_matches fmatch (go_glob opts) (snd f)) files"
    and "list_all (short_lines fs) found"
    and "shown = (\<lambda>l. if go_case opts then l else lower l)"
  shows "ws_grep fmatch lower compile w pattern opts fs =
    Inr (take (if go_max opts = 0 then 100 else nat (go_max opts)) (drop (nat (go_offset opts))
      (take 1000 (concat (map (file_matches (\<lambda>l. contains (shown l) (shown pattern)) fs) found)))))"
proof -
  let ?mx = "if go_max opts = 0 then 100 else go_max opts"
  let ?cap = "min (?mx + go_offset opts) 1000"
  let ?ok = "\<lambda>l. contains (shown l) (shown pattern)"
  let ?all = "concat (map (file_matches ?ok fs) found)"
  have gf: "grep_files ?ok (\<lambda>rel. go_glob opts = [] \<or> glob_matches fmatch (go_glob opts) rel) ?cap fs files [] =
      Inr (take (nat ?cap) ?all)"
    by (subst grep_files_all) (use assms(2,4,8,9) in simp_all)
  then have g: "ws_grep fmatch lower compile w pattern opts fs =
      Inr (take (nat ?mx) (drop (nat (go_offset opts)) (take (nat ?cap) ?all)))"
  proof -
    have c: "\<not> go_max opts < 0" "\<not> MaxGrepMatches < go_max opts" "\<not> go_offset opts < 0" "\<not> MaxGrepMatches \<le> go_offset opts"
      using assms(2-5) by (simp_all add: MaxGrepMatches_def)
    have mx: "(if go_max opts \<le> 0 then 100 else go_max opts) = ?mx" using assms(2) by simp
    have sh: "(if go_case opts then pattern else lower pattern) = shown pattern" "(if go_case opts then l else lower l) = shown l" for l
      by (simp_all add: assms(10))
    show ?thesis
      unfolding ws_grep_def Let_def mx sh using assms(1,6,7) gf c by (simp only: MaxGrepMatches_def if_False if_True sum.case)
  qed
  have "take (nat ?mx) (drop (nat (go_offset opts)) (take (nat ?cap) ?all)) =
      take (nat ?mx) (drop (nat (go_offset opts)) (take 1000 ?all))"
  proof (cases "?mx + go_offset opts \<le> 1000")
    case True
    then have "nat ?cap - nat (go_offset opts) = nat ?mx" "nat ?mx \<le> 1000 - nat (go_offset opts)" using assms(2,4) by auto
    then show ?thesis by (simp only: drop_take take_take min.idem min.absorb1)
  qed simp
  moreover have "nat ?mx = (if go_max opts = 0 then 100 else nat (go_max opts))" by simp
  ultimately show ?thesis using g by (simp only:)
qed

theorem grep_window_witness:
  "ws_grep (\<lambda>_ _. False) id (\<lambda>_. Inl []) demo_ws ''two'' search_options demo_fs =
     Inr [\<lparr>sm_path = ''a'', sm_line = 1, sm_excerpt = ''one two one''\<rparr>]"
proof -
  let ?found = "[([''p'', ''a''], ''a''), ([''p'', ''d'', ''b''], ''d/b'')]"
  have f: "?found = filter (\<lambda>f. go_glob search_options = [] \<or> glob_matches (\<lambda>_ _. False) (go_glob search_options) (snd f)) ?found"
    by (simp add: search_options_def)
  have w: "walk_files demo_ws demo_fs = Inr [([''p'', ''a''], ''a''), ([''p'', ''d'', ''b''], ''d/b'')]" by code_simp
  have "read_file demo_fs [''p'', ''a''] = Inr ''one two one''" "read_file demo_fs [''p'', ''d'', ''b''] = Inr ''x''"
    "raw_lines ''one two one'' = [''one two one'']" "raw_lines ''x'' = [''x'']" by code_simp+
  then have s: "list_all (short_lines demo_fs) ?found" by (simp add: short_lines_def max_scan_line_def)
  have o: "\<not> go_case search_options" "go_max search_options = 0" "go_offset search_options = 0" "\<not> go_regex search_options"
    by (simp_all add: search_options_def)
  have m: "concat (map (file_matches (\<lambda>l. contains l ''two'') demo_fs) ?found) =
      [\<lparr>sm_path = ''a'', sm_line = 1, sm_excerpt = ''one two one''\<rparr>]" by code_simp
  have "ws_grep (\<lambda>_ _. False) id (\<lambda>_. Inl []) demo_ws ''two'' search_options demo_fs =
      Inr (take (if go_max search_options = 0 then 100 else nat (go_max search_options)) (drop (nat (go_offset search_options))
        (take 1000 (concat (map (file_matches (\<lambda>l. contains (id l) (id ''two'')) demo_fs) ?found)))))"
    by (rule grep_window [OF _ _ _ _ _ o(4) w f s]) (simp_all add: o)
  then show ?thesis by (simp only: o id_apply m) simp
qed

text \<open>
  A rune that the regular expression of a glob asks for occurs in the path. Since \<open>globMatches\<close> turns
  every byte of the pattern into the rune of that number, a pattern with a non-ASCII character never
  matches, by this expression, a path whose non-ASCII runes are beyond Latin-1, such as Korean ones.
\<close>

lemma glob_regexp_rune: "glob_regexp ts rs \<Longrightarrow> GlobRune c \<in> set ts \<Longrightarrow> c \<in> set rs"
proof (induction ts rs rule: glob_regexp.induct)
  case (2 d ts rs)
  then show ?case by (cases rs) auto
next
  case (3 ts rs)
  then show ?case by (cases rs) auto
next
  case (4 ts rs)
  then show ?case by (cases rs) auto
next
  case (5 ts rs)
  then show ?case by (cases rs) auto
qed simp

lemma glob_tokens_rune: "c \<in> set s \<Longrightarrow> c \<noteq> CHR ''*'' \<Longrightarrow> c \<noteq> CHR ''?'' \<Longrightarrow> GlobRune (of_char c) \<in> set (glob_tokens s)"
  by (induction s rule: glob_tokens.induct) auto

theorem glob_non_ascii_fails:
  assumes "c \<in> set pattern" and "0x80 \<le> (of_char c :: nat)" and "\<forall>r \<in> set (runes rel). r < 0x80 \<or> 0xFF < r"
  shows "glob_matches fmatch pattern rel = fmatch pattern rel"
proof -
  have "c \<noteq> CHR ''*''" "c \<noteq> CHR ''?''" using assms(2) by auto
  then have "GlobRune (of_char c) \<in> set (glob_tokens pattern)" using glob_tokens_rune assms(1) by blast
  moreover have "(of_char c :: nat) \<notin> set (runes rel)"
  proof
    assume "(of_char c :: nat) \<in> set (runes rel)"
    then have "(of_char c :: nat) < 0x80 \<or> 0xFF < (of_char c :: nat)" using assms(3) by blast
    then show False using assms(2) nat_of_char_less_256 [of c] by linarith
  qed
  ultimately have "\<not> glob_regexp (glob_tokens pattern) (runes rel)" using glob_regexp_rune by blast
  then show ?thesis by (simp add: glob_matches_def)
qed

text \<open>A Korean directory name: bytes EB AC B8, the rune U+BB38.\<close>

theorem glob_non_ascii_fails_witness:
  "\<not> glob_matches (\<lambda>_ _. False) ([CHR 0xEB, CHR 0xAC, CHR 0xB8] @ ''/**'') ([CHR 0xEB, CHR 0xAC, CHR 0xB8] @ ''/a/b'')"
proof -
  have "runes ([CHR 0xEB, CHR 0xAC, CHR 0xB8] @ ''/a/b'') = [0xBB38, 0x2F, 0x61, 0x2F, 0x62]"
    by (simp add: runes.simps rune_value_def rune_advance_def in_range_def cont_byte_def)
  then have "\<forall>r \<in> set (runes ([CHR 0xEB, CHR 0xAC, CHR 0xB8] @ ''/a/b'')). r < 0x80 \<or> 0xFF < r" by simp
  from glob_non_ascii_fails [OF _ _ this, of "CHR 0xEB" "[CHR 0xEB, CHR 0xAC, CHR 0xB8] @ ''/**''" "\<lambda>_ _. False"]
  show ?thesis by simp
qed

subsection \<open>The bounded output of a command\<close>

text \<open>Whatever chunks a command writes, the buffer holds the first bytes of their concatenation up to its bound.\<close>

lemma buffer_write_prefix:
  assumes "bb_data b = take (nat (bb_max b)) s" and "bb_truncated b \<longleftrightarrow> nat (bb_max b) < length s" and "0 < bb_max b"
  shows "bb_data (snd (buffer_write p b)) = take (nat (bb_max b)) (s @ p)"
    and "p \<noteq> [] \<Longrightarrow> bb_truncated (snd (buffer_write p b)) \<longleftrightarrow> nat (bb_max b) < length (s @ p)"
    and "fst (buffer_write p b) = length p" and "bb_max (snd (buffer_write p b)) = bb_max b"
  using assms by (cases p; auto simp: buffer_write_def Let_def nat_diff_distrib' min_def split: if_splits)+

lemma longest_valid_prefix: "prefix (longest_valid s n) s \<and> (longest_valid s n = [] \<or> utf8_valid (longest_valid s n))"
  by (induction n) (auto simp: take_is_prefix)

end
