(* ===== verification/Workspace_Patch.thy ===== *)
theory Workspace_Patch
  imports Workspace
begin

section \<open>Package workspace: patches\<close>

text \<open>
  \<open>parsePatch\<close>, \<open>planPatchOp\<close>, \<open>ApplyPatch\<close> and \<open>PatchPaths\<close> of \<open>workspace/workspace.go\<close>: a patch is
  parsed into operations, all of them are planned against the files as they are, then the plans are
  carried out in order. The loops over line numbers are recursions over the lines left.
\<close>

subsection \<open>Parsing\<close>

record patch_op =
  po_kind :: string
  po_path :: string
  po_old :: string
  po_new :: string

abbreviation nl :: string where "nl \<equiv> [CHR 0x0A]"

fun add_block :: "string list \<Rightarrow> string \<Rightarrow> string \<times> string list" where
  "add_block [] b = (b, [])"
| "add_block (l # ls) b =
     (if has_prefix ''*** '' l then (b, l # ls)
      else if has_prefix ''+'' l then add_block ls (b @ trim_prefix ''+'' l @ nl) else add_block ls b)"

fun parse_update_hunk :: "string list \<Rightarrow> string \<Rightarrow> string \<Rightarrow> string \<times> string \<times> string list" where
  "parse_update_hunk [] ob nb = (trim_suffix nl ob, trim_suffix nl nb, [])"
| "parse_update_hunk (l # ls) ob nb =
     (if has_prefix ''*** '' l then (trim_suffix nl ob, trim_suffix nl nb, l # ls)
      else if has_prefix ''@@'' l \<or> l = [] then parse_update_hunk ls ob nb
      else if hd l = CHR '' '' then parse_update_hunk ls (ob @ tl l @ nl) (nb @ tl l @ nl)
      else if hd l = CHR ''-'' then parse_update_hunk ls (ob @ tl l @ nl) nb
      else if hd l = CHR ''+'' then parse_update_hunk ls ob (nb @ tl l @ nl)
      else parse_update_hunk ls ob nb)"

lemma add_block_length: "length (snd (add_block ls b)) \<le> length ls"
  by (induction ls b rule: add_block.induct) auto

lemma parse_update_hunk_length: "length (snd (snd (parse_update_hunk ls ob nb))) \<le> length ls"
  by (induction ls ob nb rule: parse_update_hunk.induct) auto

function parse_ops :: "string list \<Rightarrow> patch_op list \<Rightarrow> string + patch_op list" where
  "parse_ops [] ops = Inr ops"
| "parse_ops (l # ls) ops =
     (if has_prefix ''*** Add File: '' l then
        (let path = trim_space (trim_prefix ''*** Add File: '' l); r = add_block ls []
         in parse_ops (snd r) (ops @ [\<lparr>po_kind = ''add'', po_path = path, po_old = [], po_new = trim_suffix nl (fst r)\<rparr>]))
      else if has_prefix ''*** Delete File: '' l then
        (let path = trim_space (trim_prefix ''*** Delete File: '' l)
         in parse_ops ls (ops @ [\<lparr>po_kind = ''delete'', po_path = path, po_old = [], po_new = []\<rparr>]))
      else if has_prefix ''*** Update File: '' l then
        (let path = trim_space (trim_prefix ''*** Update File: '' l); r = parse_update_hunk ls [] []
         in if fst r = [] then Inl (''update patch for '' @ path @ '' has no context'')
            else parse_ops (snd (snd r)) (ops @ [\<lparr>po_kind = ''update'', po_path = path, po_old = fst r, po_new = fst (snd r)\<rparr>]))
      else parse_ops ls ops)"
  by pat_completeness auto
termination
  by (relation "measure (\<lambda>(ls, ops). length ls)")
    (auto simp: less_Suc_eq_le add_block_length parse_update_hunk_length)

definition parse_patch :: "string \<Rightarrow> string + patch_op list" where
  "parse_patch patch =
     (case parse_ops (split_on (CHR 0x0A) (replace_all patch [CHR 0x0D, CHR 0x0A] nl)) [] of
        Inl e \<Rightarrow> Inl e
      | Inr ops \<Rightarrow> if ops = [] then Inl ''patch has no supported operations'' else Inr ops)"

definition patch_too_long :: "string \<Rightarrow> string option" where
  "patch_too_long patch =
     (if MaxPatchBytes < length patch then Some (''patch_text must be <= '' @ dec_nat MaxPatchBytes @ '' bytes'') else None)"

definition patch_paths :: "string \<Rightarrow> string + string list" where
  "patch_paths patch =
     (case patch_too_long patch of
        Some e \<Rightarrow> Inl e
      | None \<Rightarrow> map_sum id (\<lambda>ops. rev (remdups (rev (map po_path ops)))) (parse_patch patch))"

subsection \<open>Planning and applying\<close>

record patch_plan =
  pp_path :: string
  pp_content :: string
  pp_delete :: bool

definition plan_patch_op :: "workspace \<Rightarrow> fs \<Rightarrow> patch_op \<Rightarrow> ws_error + patch_plan" where
  "plan_patch_op w fs op =
     (case resolve w (po_path op) of
        Inl e \<Rightarrow> Inl e
      | Inr path \<Rightarrow>
          (if po_kind op = ''add'' then Inr \<lparr>pp_path = path, pp_content = po_new op, pp_delete = False\<rparr>
           else if po_kind op = ''delete'' then
             (case lookup fs (path_parts path) of
                Inl e \<Rightarrow> Inl (WsOs e)
              | Inr _ \<Rightarrow> Inr \<lparr>pp_path = path, pp_content = [], pp_delete = True\<rparr>)
           else if po_kind op = ''update'' then
             (case ws_read w (po_path op) fs of
                Inl e \<Rightarrow> Inl e
              | Inr content \<Rightarrow>
                  (if \<not> contains content (po_old op)
                   then Inl (WsText (''patch context not found in '' @ po_path op))
                   else Inr \<lparr>pp_path = path, pp_content = replace_n content (po_old op) (po_new op) 1, pp_delete = False\<rparr>))
           else Inl (WsText (''unsupported patch operation: '' @ po_kind op))))"

fun plan_ops :: "workspace \<Rightarrow> fs \<Rightarrow> patch_op list \<Rightarrow> ws_error + patch_plan list" where
  "plan_ops w fs [] = Inr []"
| "plan_ops w fs (op # ops) =
     (case plan_patch_op w fs op of
        Inl e \<Rightarrow> Inl e
      | Inr p \<Rightarrow> (case plan_ops w fs ops of Inl e \<Rightarrow> Inl e | Inr ps \<Rightarrow> Inr (p # ps)))"

definition apply_plan :: "patch_plan \<Rightarrow> fs \<Rightarrow> fs_error option \<times> fs" where
  "apply_plan p fs =
     (if pp_delete p then remove_path fs (path_parts (pp_path p)) else write_under fs (pp_path p) (pp_content p) 420)"

fun apply_plans :: "patch_plan list \<Rightarrow> fs \<Rightarrow> fs_error option \<times> fs" where
  "apply_plans [] fs = (None, fs)"
| "apply_plans (p # ps) fs =
     (case apply_plan p fs of (Some e, fs1) \<Rightarrow> (Some e, fs1) | (None, fs1) \<Rightarrow> apply_plans ps fs1)"

definition apply_patch :: "workspace \<Rightarrow> string \<Rightarrow> fs \<Rightarrow> ws_error option \<times> fs" where
  "apply_patch w patch fs =
     (case patch_too_long patch of
        Some e \<Rightarrow> (Some (WsText e), fs)
      | None \<Rightarrow>
          (case parse_patch patch of
             Inl e \<Rightarrow> (Some (WsText e), fs)
           | Inr ops \<Rightarrow>
               (case plan_ops w fs ops of
                  Inl e \<Rightarrow> (Some e, fs)
                | Inr ps \<Rightarrow> (let (e, fs1) = apply_plans ps fs in (map_option WsOs e, fs1)))))"

subsection \<open>The files of a file system\<close>

text \<open>The abstract state a patch acts on: the contents of the files by path.\<close>

definition file_at :: "fs \<Rightarrow> fpath \<Rightarrow> string option" where
  "file_at fs q = (case node_at fs q of Some (FileE _ c) \<Rightarrow> Some c | _ \<Rightarrow> None)"

definition plan_effect :: "patch_plan \<Rightarrow> (fpath \<Rightarrow> string option) \<Rightarrow> fpath \<Rightarrow> string option" where
  "plan_effect p fm = fm(path_parts (pp_path p) := (if pp_delete p then None else Some (pp_content p)))"

lemma remove_path_file_at:
  assumes "fs_ok fs" and "remove_path fs p = (None, fs')"
  shows "file_at fs' = (file_at fs)(p := None)"
  using assms(2)
proof (cases rule: remove_path_cases)
  case removed
  have leaf: "node_at fs q = None \<or> q = p" if q: "prefix p q" for q
  proof (rule ccontr)
    assume "\<not> (node_at fs q = None \<or> q = p)"
    then obtain y where y: "node_at fs q = Some y" "q \<noteq> p" by auto
    obtain s where s: "q = p @ s" using q by (auto simp: prefix_def)
    then obtain x r where r: "q = p @ x # r" using y(2) by (cases s) auto
    then have "is_dir_at fs p" using fs_okD [OF assms(1) y(1)] y(2) q by (simp add: strict_prefix_def)
    then obtain m where m: "lookup fs p = Inr (DirE m)" using lookup_Inr [OF assms(1)] by (auto simp: is_dir_iff)
    have "node_at fs (p @ [x]) \<noteq> None"
    proof (cases "r = []")
      case False
      then have "is_dir_at fs (p @ [x])" using fs_okD [OF assms(1) y(1), of "p @ [x]"] r by (simp add: strict_prefix_def)
      then show ?thesis by (auto simp: is_dir_iff)
    qed (use y r in simp)
    then have "(p @ [x]) \<in> fst ` set (fs_nodes fs)"
      by (auto simp: node_at_def dest!: map_of_SomeD split: if_splits intro: rev_image_eqI)
    then have "child_nodes fs p \<noteq> []" by (force simp: child_nodes_def filter_empty_conv)
    then show False using m assms(2) by (simp add: remove_path_def split: if_splits)
  qed
  have "file_at fs' q = ((file_at fs)(p := None)) q" for q
    using leaf [of q] removed(3) by (auto simp: file_at_def removed(2) node_at_drop)
  then show ?thesis by (rule ext)
qed simp

lemma apply_plan_effect:
  assumes "fs_ok fs" and "pp_path p = abs_path cs" and "list_all plain cs" and "apply_plan p fs = (None, fs')"
  shows "fs_ok fs' \<and> file_at fs' = plan_effect p (file_at fs)"
proof (cases "pp_delete p")
  case True
  then have r: "remove_path fs cs = (None, fs')" using assms(2-4) by (simp add: apply_plan_def)
  have "fs_ok fs'" using removes_ok(1) [OF assms(1), of cs] r by simp
  then show ?thesis using remove_path_file_at [OF assms(1) r] True assms(2,3) by (simp add: plan_effect_def)
next
  case False
  then have "write_under fs (abs_path cs) (pp_content p) 420 = (None, fs')" using assms(2,4) by (simp add: apply_plan_def)
  note d = write_under_done [OF assms(1,3) this]
  have "file_at fs' q = plan_effect p (file_at fs) q" for q
  proof (cases "q = cs")
    case True
    then show ?thesis using d False assms(2,3) by (auto simp: plan_effect_def file_at_def)
  next
    case ne: False
    then have "node_at fs' q = node_at fs q \<or> node_at fs q = None \<and> is_dir_at fs' q" using d by blast
    then show ?thesis using ne assms(2,3) by (auto simp: plan_effect_def file_at_def is_dir_iff)
  qed
  then show ?thesis using d by auto
qed

lemma plan_patch_op_path:
  assumes "ws_good w fs" and "plan_patch_op w fs op = Inr p"
  obtains cs where "pp_path p = abs_path cs" "list_all plain cs" "prefix (root_parts w) cs"
proof -
  have "resolve w (po_path op) = Inr (pp_path p)"
    using assms(2) by (auto simp: plan_patch_op_def split: sum.splits if_splits)
  then show ?thesis using that resolve_inside [of w "po_path op"] assms(1) unfolding ws_good_def by metis
qed

definition plan_inside :: "fpath \<Rightarrow> patch_plan \<Rightarrow> bool" where
  "plan_inside rs p \<longleftrightarrow> (\<exists>cs. pp_path p = abs_path cs \<and> list_all plain cs \<and> prefix rs cs)"

lemma plan_ops_inside: "ws_good w fs \<Longrightarrow> plan_ops w fs ops = Inr ps \<Longrightarrow> list_all (plan_inside (root_parts w)) ps"
proof (induction ops arbitrary: ps)
  case (Cons op ops)
  obtain p ps' where p: "plan_patch_op w fs op = Inr p" "plan_ops w fs ops = Inr ps'" "ps = p # ps'"
    using Cons.prems(2) by (auto split: sum.splits)
  have "plan_inside (root_parts w) p"
    using plan_patch_op_path [OF Cons.prems(1) p(1)] unfolding plan_inside_def by metis
  then show ?case using Cons.IH [OF Cons.prems(1) p(2)] p(3) by simp
qed simp

lemma apply_plans_effect:
  assumes "fs_ok fs" and "list_all (plan_inside rs) ps" and "apply_plans ps fs = (None, fs')"
  shows "fs_ok fs' \<and> file_at fs' = fold plan_effect ps (file_at fs)"
  using assms
proof (induction ps arbitrary: fs)
  case (Cons p ps)
  obtain cs where cs: "pp_path p = abs_path cs" "list_all plain cs" using Cons.prems(2) by (auto simp: plan_inside_def)
  obtain fs1 where s: "apply_plan p fs = (None, fs1)" "apply_plans ps fs1 = (None, fs')"
    using Cons.prems(3) by (auto split: prod.splits option.splits)
  note e = apply_plan_effect [OF Cons.prems(1) cs s(1)]
  have "list_all (plan_inside rs) ps" using Cons.prems(2) by simp
  from Cons.IH [OF _ this s(2)] e show ?case by simp
qed simp

lemma apply_plan_confined:
  assumes "fs_ok fs" and "is_dir_at fs rs" and "plan_inside rs p" and "pp_delete p \<Longrightarrow> path_parts (pp_path p) \<noteq> rs"
    and "apply_plan p fs = (e, fs')"
  shows "confined rs fs fs'"
proof -
  obtain cs where cs: "pp_path p = abs_path cs" "list_all plain cs" "prefix rs cs" using assms(3) by (auto simp: plan_inside_def)
  show ?thesis
  proof (cases "pp_delete p")
    case True
    then have sp: "strict_prefix rs cs" using assms(4) cs by (auto simp: strict_prefix_def)
    have "remove_path fs cs = (e, fs')" using assms(5) True cs by (simp add: apply_plan_def)
    then show ?thesis
      by (cases rule: remove_path_cases) (simp_all add: confined_refl [OF assms(1,2)] drop_confined [OF assms(1,2) sp])
  next
    case False
    then show ?thesis using write_under_confined [OF assms(1,2) cs(2,3)] assms(5) cs(1) by (simp add: apply_plan_def)
  qed
qed

lemma apply_plans_confined:
  assumes "fs_ok fs" and "is_dir_at fs rs" and "list_all (plan_inside rs) ps"
    and "list_all (\<lambda>p. pp_delete p \<longrightarrow> path_parts (pp_path p) \<noteq> rs) ps" and "apply_plans ps fs = (e, fs')"
  shows "confined rs fs fs'"
  using assms
proof (induction ps arbitrary: fs)
  case Nil
  then show ?case using confined_refl by simp
next
  case (Cons p ps)
  obtain e1 fs1 where s: "apply_plan p fs = (e1, fs1)" by fastforce
  have c: "confined rs fs fs1" by (rule apply_plan_confined [OF Cons.prems(1,2) _ _ s]) (use Cons.prems(3,4) in simp_all)
  show ?case
  proof (cases e1)
    case (Some x)
    then show ?thesis using c s Cons.prems(5) by simp
  next
    case None
    then have r: "apply_plans ps fs1 = (e, fs')" using s Cons.prems(5) by simp
    have "fs_ok fs1" "is_dir_at fs1 rs" using c by (simp_all add: confined_def)
    from Cons.IH [OF this _ _ r] Cons.prems(3,4) have "confined rs fs1 fs'" by simp
    with c show ?thesis by (rule confined_trans)
  qed
qed

text \<open>A patch that does not name the root directory itself as a file to delete.\<close>

definition keeps_root :: "workspace \<Rightarrow> string \<Rightarrow> bool" where
  "keeps_root w patch =
     (case parse_patch patch of
        Inl _ \<Rightarrow> True
      | Inr ops \<Rightarrow> list_all (\<lambda>op. po_kind op = ''delete'' \<longrightarrow> resolve w (po_path op) \<noteq> Inr (path_clean (ws_root w))) ops)"

lemma plan_ops_keep_root:
  assumes "ws_good w fs" and "plan_ops w fs ops = Inr ps"
    and "list_all (\<lambda>op. po_kind op = ''delete'' \<longrightarrow> resolve w (po_path op) \<noteq> Inr (path_clean (ws_root w))) ops"
  shows "list_all (\<lambda>p. pp_delete p \<longrightarrow> path_parts (pp_path p) \<noteq> root_parts w) ps"
  using assms(2,3)
proof (induction ops arbitrary: ps)
  case (Cons op ops)
  obtain p ps' where p: "plan_patch_op w fs op = Inr p" "plan_ops w fs ops = Inr ps'" "ps = p # ps'"
    using Cons.prems(1) by (auto split: sum.splits)
  have r: "resolve w (po_path op) = Inr (pp_path p)" "pp_delete p \<longrightarrow> po_kind op = ''delete''"
    using p(1) by (auto simp: plan_patch_op_def split: sum.splits if_splits)
  obtain cs where cs: "pp_path p = abs_path cs" "list_all plain cs" using plan_patch_op_path [OF assms(1) p(1)] by metis
  have "is_abs (ws_root w)" using assms(1) by (simp add: ws_good_def)
  then have "pp_delete p \<longrightarrow> path_parts (pp_path p) \<noteq> root_parts w"
    using Cons.prems(2) r cs root_path [of w cs] by auto
  then show ?case using Cons.IH [OF p(2)] Cons.prems(2) p(3) by simp
qed simp

lemma apply_patch_confined:
  assumes "ws_good w fs" and "keeps_root w patch" and "apply_patch w patch fs = (e, fs')"
  shows "confined (root_parts w) fs fs'"
proof -
  have g: "fs_ok fs" "is_dir_at fs (root_parts w)" using assms(1) by (simp_all add: ws_good_def)
  have "fs' = fs \<or> (\<exists>ops ps e'. parse_patch patch = Inr ops \<and> plan_ops w fs ops = Inr ps \<and> apply_plans ps fs = (e', fs'))"
    using assms(3) by (auto simp: apply_patch_def split: option.splits sum.splits prod.splits)
  then show ?thesis
  proof
    assume "\<exists>ops ps e'. parse_patch patch = Inr ops \<and> plan_ops w fs ops = Inr ps \<and> apply_plans ps fs = (e', fs')"
    then obtain ops ps e' where x: "parse_patch patch = Inr ops" "plan_ops w fs ops = Inr ps" "apply_plans ps fs = (e', fs')" by blast
    have "list_all (\<lambda>p. pp_delete p \<longrightarrow> path_parts (pp_path p) \<noteq> root_parts w) ps"
      by (rule plan_ops_keep_root [OF assms(1) x(2)]) (use assms(2) x(1) in \<open>simp add: keeps_root_def\<close>)
    then show ?thesis by (rule apply_plans_confined [OF g plan_ops_inside [OF assms(1) x(2)] _ x(3)])
  qed (simp add: confined_refl [OF g])
qed

subsection \<open>Printing a patch\<close>

text \<open>The text of a patch in the format the parser reads.\<close>

definition plus_lines :: "string \<Rightarrow> string list" where
  "plus_lines s = map ((@) ''+'') (split_on (CHR 0x0A) s)"

definition minus_lines :: "string \<Rightarrow> string list" where
  "minus_lines s = map ((@) ''-'') (split_on (CHR 0x0A) s)"

definition render_op :: "patch_op \<Rightarrow> string list" where
  "render_op op =
     (if po_kind op = ''add'' then (''*** Add File: '' @ po_path op) # plus_lines (po_new op)
      else if po_kind op = ''delete'' then [''*** Delete File: '' @ po_path op]
      else (''*** Update File: '' @ po_path op) # minus_lines (po_old op) @ plus_lines (po_new op))"

definition render_patch :: "patch_op list \<Rightarrow> string" where
  "render_patch ops = join nl (''*** Begin Patch'' # concat (map render_op ops) @ [''*** End Patch''])"

definition good_op :: "patch_op \<Rightarrow> bool" where
  "good_op op \<longleftrightarrow> trim_space (po_path op) = po_path op \<and> CHR 0x0A \<notin> set (po_path op) \<and>
     CHR 0x0D \<notin> set (po_path op) \<union> set (po_old op) \<union> set (po_new op) \<and>
     (po_kind op = ''add'' \<and> po_old op = [] \<or> po_kind op = ''delete'' \<and> po_old op = [] \<and> po_new op = [] \<or>
      po_kind op = ''update'' \<and> po_old op \<noteq> [])"

lemma trim_suffix_append [simp]: "trim_suffix x (s @ x) = s"
  by (simp add: trim_suffix_def has_suffix_def has_prefix_iff)

lemma trim_prefix_append [simp]: "trim_prefix x (x @ s) = s"
  by (simp add: trim_prefix_def has_prefix_iff)

lemma terminated_lines: "concat (map (\<lambda>l. l @ nl) (split_on (CHR 0x0A) s)) = s @ nl"
proof -
  have "ls \<noteq> [] \<Longrightarrow> concat (map (\<lambda>l. l @ nl) ls) = join nl ls @ nl" for ls
    by (induction "nl" ls rule: join.induct) simp_all
  then show ?thesis using join_split_on [of "CHR 0x0A" s] by simp
qed

definition block_end :: "string list \<Rightarrow> bool" where
  "block_end rest \<longleftrightarrow> rest \<noteq> [] \<and> has_prefix ''*** '' (hd rest)"

lemma add_block_lines:
  "block_end rest \<Longrightarrow> add_block (map ((@) ''+'') ls @ rest) b = (b @ concat (map (\<lambda>l. l @ nl) ls), rest)"
proof (induction ls arbitrary: b)
  case Nil
  then show ?case by (cases rest) (simp_all add: block_end_def)
next
  case (Cons l ls)
  then show ?case using trim_prefix_append [of "''+''" l] by simp
qed

lemma hunk_plus:
  "block_end rest \<Longrightarrow> parse_update_hunk (map ((@) ''+'') ls @ rest) ob nb =
     (trim_suffix nl ob, trim_suffix nl (nb @ concat (map (\<lambda>l. l @ nl) ls)), rest)"
proof (induction ls arbitrary: nb)
  case Nil
  then show ?case by (cases rest) (simp_all add: block_end_def)
qed simp

lemma hunk_minus:
  "parse_update_hunk (map ((@) ''-'') ls @ others) ob nb =
     parse_update_hunk others (ob @ concat (map (\<lambda>l. l @ nl) ls)) nb"
  by (induction ls arbitrary: ob) simp_all

lemma parse_op_rendered:
  assumes "good_op op" and "block_end rest"
  shows "parse_ops (render_op op @ rest) ops = parse_ops rest (ops @ [op])"
proof -
  have p: "trim_space (po_path op) = po_path op" using assms(1) by (simp add: good_op_def)
  consider (add) "po_kind op = ''add''" "po_old op = []" | (del) "po_kind op = ''delete''" "po_old op = []" "po_new op = []"
    | (upd) "po_kind op = ''update''" "po_old op \<noteq> []"
    using assms(1) by (auto simp: good_op_def)
  then show ?thesis
  proof cases
    case add
    then have "\<lparr>po_kind = ''add'', po_path = po_path op, po_old = [], po_new = po_new op\<rparr> = op" by simp
    moreover have "fst (add_block (plus_lines (po_new op) @ rest) []) = po_new op @ nl" "snd (add_block (plus_lines (po_new op) @ rest) []) = rest"
      using add_block_lines [OF assms(2), of "split_on (CHR 0x0A) (po_new op)" "[]"] terminated_lines by (simp_all add: plus_lines_def)
    ultimately show ?thesis using add(1) p
      by (simp add: render_op_def Let_def trim_prefix_def)
  next
    case del
    then have "\<lparr>po_kind = ''delete'', po_path = po_path op, po_old = [], po_new = []\<rparr> = op" by simp
    then show ?thesis using del(1) p by (simp add: render_op_def Let_def trim_prefix_def)
  next
    case upd
    have eq: "\<lparr>po_kind = ''update'', po_path = po_path op, po_old = po_old op, po_new = po_new op\<rparr> = op" using upd(1) by (cases op) simp
    have "parse_update_hunk (minus_lines (po_old op) @ plus_lines (po_new op) @ rest) [] [] = (po_old op, po_new op, rest)"
      using hunk_plus [OF assms(2)] terminated_lines by (simp add: minus_lines_def plus_lines_def hunk_minus)
    then have "parse_ops (render_op op @ rest) ops =
        parse_ops rest (ops @ [\<lparr>po_kind = ''update'', po_path = po_path op, po_old = po_old op, po_new = po_new op\<rparr>])"
      using upd p by (simp add: render_op_def Let_def trim_prefix_def)
    then show ?thesis unfolding eq .
  qed
qed

lemma render_op_head: "render_op op \<noteq> [] \<and> has_prefix ''*** '' (hd (render_op op))"
  by (simp add: render_op_def)

lemma parse_rendered:
  "list_all good_op ops \<Longrightarrow> parse_ops (concat (map render_op ops) @ [''*** End Patch'']) acc = Inr (acc @ ops)"
proof (induction ops arbitrary: acc)
  case Nil
  show ?case by (simp add: Let_def)
next
  case (Cons op ops)
  have "block_end (concat (map render_op ops) @ [''*** End Patch''])"
    using render_op_head by (cases ops) (simp_all add: block_end_def hd_append)
  then show ?case using parse_op_rendered [of op] Cons by simp
qed

lemma rendered_lines:
  assumes "good_op op"
  shows "list_all (\<lambda>l. CHR 0x0A \<notin> set l \<and> CHR 0x0D \<notin> set l) (render_op op)"
proof -
  have s: "CHR 0x0D \<notin> set s \<Longrightarrow> list_all (\<lambda>l. CHR 0x0A \<notin> set l \<and> CHR 0x0D \<notin> set l) (split_on (CHR 0x0A) s)" for s
    by (induction s) (auto split: list.splits)
  show ?thesis using assms s [of "po_old op"] s [of "po_new op"]
    by (auto simp: render_op_def plus_lines_def minus_lines_def good_op_def list_all_iff)
qed

lemma replace_all_absent:
  assumes "c \<notin> set s"
  shows "replace_all s (c # p) r = s"
proof -
  have "\<not> contains s (c # p)" using assms set_mono_sublist [of "c # p" s] by (auto simp: contains_iff)
  then have "count_sub s (c # p) = 0" using count_sub_contains [of "c # p" s] by auto
  then have "replace_n s (c # p) r 0 = replace_all s (c # p) r" by (intro replace_all_count) simp
  then show ?thesis by (simp add: replace_n.simps [of s "c # p" r 0])
qed

text \<open>
  C36: printing and parsing. Any sequence of additions, deletions and updates, printed as a patch, parses
  back as exactly these operations, when paths are trimmed and on one line, texts have no carriage
  return and an update has an old text.
\<close>

theorem patch_roundtrip:
  assumes "list_all good_op ops" and "ops \<noteq> []"
  shows "parse_patch (render_patch ops) = Inr ops"
proof -
  let ?ls = "''*** Begin Patch'' # concat (map render_op ops) @ [''*** End Patch'']"
  have l: "list_all (\<lambda>l. CHR 0x0A \<notin> set l \<and> CHR 0x0D \<notin> set l) ?ls"
    using assms(1) rendered_lines by (fastforce simp: list_all_iff)
  then have "list_all (\<lambda>p. CHR 0x0A \<notin> set p) ?ls" by (simp add: list_all_iff)
  from split_on_join [OF _ this] have sp: "split_on (CHR 0x0A) (join nl ?ls) = ?ls" by simp
  have "\<forall>l \<in> set ls. CHR 0x0D \<notin> set l \<Longrightarrow> CHR 0x0D \<notin> set (join nl ls)" for ls
    by (induction "nl" ls rule: join.induct) simp_all
  then have "CHR 0x0D \<notin> set (join nl ?ls)" using l by (simp add: list_all_iff)
  then have "replace_all (join nl ?ls) [CHR 0x0D, CHR 0x0A] nl = join nl ?ls" by (rule replace_all_absent)
  moreover have "parse_ops ?ls [] = Inr ops" using parse_rendered [OF assms(1), of "[]"] by (simp add: Let_def)
  ultimately show ?thesis using sp assms(2) by (simp add: parse_patch_def render_patch_def)
qed

definition demo_ops :: "patch_op list" where
  "demo_ops = [\<lparr>po_kind = ''update'', po_path = ''a'', po_old = ''one'', po_new = ''1''\<rparr>,
     \<lparr>po_kind = ''update'', po_path = ''a'', po_old = ''two'', po_new = ''2''\<rparr>]"

lemma demo_ops_good: "list_all good_op demo_ops" "demo_ops \<noteq> []"
  by code_simp+

theorem patch_roundtrip_witness: "parse_patch (render_patch demo_ops) = Inr demo_ops"
  by (rule patch_roundtrip [OF demo_ops_good])

text \<open>
  C37: what a patch does to the files. If the patch does not parse or an operation cannot be planned,
  nothing is changed. If it succeeds, the files are those before, updated by the plans in order, where
  every plan was made from the files as they were before the patch.
\<close>

theorem patch_refines:
  assumes "ws_good w fs" and "length patch \<le> MaxPatchBytes" and "apply_patch w patch fs = (e, fs')"
  shows "case parse_patch patch of
      Inl x \<Rightarrow> e = Some (WsText x) \<and> fs' = fs
    | Inr ops \<Rightarrow> (case plan_ops w fs ops of
          Inl x \<Rightarrow> e = Some x \<and> fs' = fs
        | Inr ps \<Rightarrow> e = None \<longrightarrow> file_at fs' = fold plan_effect ps (file_at fs))"
proof (cases "parse_patch patch")
  case (Inl x)
  then show ?thesis using assms(2,3) by (simp add: apply_patch_def patch_too_long_def)
next
  case ops: (Inr ops)
  show ?thesis
  proof (cases "plan_ops w fs ops")
    case (Inl x)
    then show ?thesis using assms(2,3) ops by (simp add: apply_patch_def patch_too_long_def)
  next
    case (Inr ps)
    obtain e1 fs1 where a: "apply_plans ps fs = (e1, fs1)" by fastforce
    then have r: "e = map_option WsOs e1" "fs' = fs1" using assms(2,3) ops Inr by (simp_all add: apply_patch_def patch_too_long_def)
    have "fs_ok fs" using assms(1) by (simp add: ws_good_def)
    then have "e1 = None \<Longrightarrow> file_at fs1 = fold plan_effect ps (file_at fs)"
      using apply_plans_effect plan_ops_inside [OF assms(1) Inr] a by blast
    then show ?thesis using ops Inr r by simp
  qed
qed

text \<open>Two updates of one file: both are planned from the old content, so the first one is lost.\<close>

theorem patch_refines_witness:
  "\<exists>fs'. apply_patch demo_ws (render_patch demo_ops) demo_fs = (None, fs') \<and> file_at fs' [''p'', ''a''] = Some ''one 2 one''"
proof -
  let ?ps = "[\<lparr>pp_path = ''/p/a'', pp_content = ''1 two one'', pp_delete = False\<rparr>,
    \<lparr>pp_path = ''/p/a'', pp_content = ''one 2 one'', pp_delete = False\<rparr>]"
  have "length (render_patch demo_ops) < 120" by code_simp
  then have l: "length (render_patch demo_ops) \<le> MaxPatchBytes" by (simp add: MaxPatchBytes_def)
  have p: "parse_patch (render_patch demo_ops) = Inr demo_ops"
    using parse_rendered [OF demo_ops_good(1), of "[]"] by code_simp
  have ps: "plan_ops demo_ws demo_fs demo_ops = Inr ?ps" by code_simp
  have "fst (apply_plans ?ps demo_fs) = None" by code_simp
  then obtain fs' where x: "apply_patch demo_ws (render_patch demo_ops) demo_fs = (None, fs')"
    using l p ps by (cases "apply_plans ?ps demo_fs") (auto simp: apply_patch_def patch_too_long_def)
  have "path_parts ''/p/a'' = [''p'', ''a'']" by code_simp
  then show ?thesis using patch_refines [OF demo_ws_good l x] x by (simp add: p ps plan_effect_def)
qed

end
