(* ===== verification/Workspace_Checkpoint.thy ===== *)
theory Workspace_Checkpoint
  imports Workspace_Patch "HOL-Library.Product_Lexorder"
begin

section \<open>Package workspace: checkpoints of files\<close>

text \<open>
  \<open>workspace/checkpoint.go\<close>: a checkpoint records what is at some paths and is stored as a file of the
  workspace; restoring it writes the recorded files back, makes the recorded directories and removes
  what did not exist. The JSON encoding of a checkpoint is a parameter; base64 is modelled, but for
  the byte position in the text of a decoding error.
\<close>

subsection \<open>Base64\<close>

definition b64_digit :: "nat \<Rightarrow> char" where
  "b64_digit d =
     (if d < 26 then char_of (65 + d) else if d < 52 then char_of (71 + d) else if d < 62 then char_of (d - 4)
      else if d = 62 then CHR ''+'' else CHR ''/'')"

definition b64_value :: "char \<Rightarrow> nat option" where
  "b64_value c =
     (let n = of_char c :: nat
      in if 65 \<le> n \<and> n \<le> 90 then Some (n - 65) else if 97 \<le> n \<and> n \<le> 122 then Some (n - 71)
         else if 48 \<le> n \<and> n \<le> 57 then Some (n + 4) else if n = 43 then Some 62 else if n = 47 then Some 63 else None)"

fun b64_encode :: "string \<Rightarrow> string" where
  "b64_encode [] = []"
| "b64_encode [a] = [b64_digit (of_char a div 4), b64_digit (of_char a mod 4 * 16), CHR ''='', CHR ''='']"
| "b64_encode [a, b] = [b64_digit (of_char a div 4), b64_digit (of_char a mod 4 * 16 + of_char b div 16),
     b64_digit (of_char b mod 16 * 4), CHR ''='']"
| "b64_encode (a # b # c # s) = [b64_digit (of_char a div 4), b64_digit (of_char a mod 4 * 16 + of_char b div 16),
     b64_digit (of_char b mod 16 * 4 + of_char c div 64), b64_digit (of_char c mod 64)] @ b64_encode s"

text \<open>Decoding drops line ends; trailing bits of the last group are not looked at, as the decoder is not strict.\<close>

fun b64_groups :: "string \<Rightarrow> string option" where
  "b64_groups [] = Some []"
| "b64_groups (w # x # y # z # s) =
     (case (b64_value w, b64_value x) of
        (Some p, Some q) \<Rightarrow>
          (if y = CHR ''='' then (if z = CHR ''='' \<and> s = [] then Some [char_of (p * 4 + q div 16)] else None)
           else
             (case b64_value y of
                None \<Rightarrow> None
              | Some r \<Rightarrow>
                  (if z = CHR ''='' then
                     (if s = [] then Some [char_of (p * 4 + q div 16), char_of (q mod 16 * 16 + r div 4)] else None)
                   else
                     (case (b64_value z, b64_groups s) of
                        (Some t, Some out) \<Rightarrow>
                          Some (char_of (p * 4 + q div 16) # char_of (q mod 16 * 16 + r div 4) # char_of (r mod 4 * 64 + t) # out)
                      | _ \<Rightarrow> None))))
      | _ \<Rightarrow> None)"
| "b64_groups _ = None"

definition b64_decode :: "string \<Rightarrow> string option" where
  "b64_decode s = b64_groups (filter (\<lambda>c. c \<noteq> CHR 0x0A \<and> c \<noteq> CHR 0x0D) s)"

lemma b64_value_digit: "d < 64 \<Longrightarrow> b64_value (b64_digit d) = Some d"
  by (auto simp: b64_value_def b64_digit_def Let_def)

lemma b64_digit_not: "d < 64 \<Longrightarrow> b64_digit d \<noteq> CHR ''='' \<and> b64_digit d \<noteq> CHR 0x0A \<and> b64_digit d \<noteq> CHR 0x0D"
  using b64_value_digit [of d] by (auto simp: b64_value_def Let_def)

lemma sextets:
  fixes x y :: nat
  assumes "x < 256" and "y < 256"
  shows "x div 4 < 64" "x mod 4 * 16 + y div 16 < 64" "x mod 4 * 16 < 64" "x mod 16 * 4 < 64" "x mod 16 * 4 + y div 64 < 64"
    "x div 16 div 16 = 0" "x div 16 mod 16 = x div 16" "x div 64 div 4 = 0" "x div 64 mod 4 = x div 64"
proof -
  have b: "x mod 4 < 4" "x mod 16 < 16" "y div 16 < 16" "y div 64 < 4" "x div 16 < 16" "x div 64 < 4"
    using assms by (auto simp: less_mult_imp_div_less)
  show "x div 4 < 64" using assms by (simp add: less_mult_imp_div_less)
  show "x mod 4 * 16 + y div 16 < 64" "x mod 4 * 16 < 64" "x mod 16 * 4 < 64" "x mod 16 * 4 + y div 64 < 64" using b by linarith+
  show "x div 16 div 16 = 0" "x div 16 mod 16 = x div 16" "x div 64 div 4 = 0" "x div 64 mod 4 = x div 64" using b by simp_all
qed

lemmas byte_sextets = sextets [OF nat_of_char_less_256 nat_of_char_less_256]

lemma b64_groups_encode: "b64_groups (b64_encode s) = Some s"
  by (induction s rule: b64_encode.induct)
    (simp_all add: b64_value_digit b64_digit_not byte_sextets)

lemma b64_encode_plain: "filter (\<lambda>c. c \<noteq> CHR 0x0A \<and> c \<noteq> CHR 0x0D) (b64_encode s) = b64_encode s"
  by (induction s rule: b64_encode.induct) (simp_all add: b64_digit_not byte_sextets)

lemma b64_roundtrip: "b64_decode (b64_encode s) = Some s"
  by (simp add: b64_decode_def b64_encode_plain b64_groups_encode)

subsection \<open>Checkpoints\<close>

definition CheckpointDir :: string where "CheckpointDir = ''.kkode/checkpoints''"

record cp_entry =
  ce_path :: string
  ce_exists :: bool
  ce_kind :: string
  ce_mode :: nat
  ce_size :: int
  ce_content :: string

record file_checkpoint =
  fc_version :: int
  fc_id :: string
  fc_created :: gtime
  fc_entries :: "cp_entry list"

record cp_summary =
  cs_id :: string
  cs_created :: gtime
  cs_entries :: nat
  cs_paths :: "string list"

record cp_prune_result =
  cr_deleted :: "cp_summary list"
  cr_kept :: int
  cr_total :: int

text \<open>\<open>json.MarshalIndent\<close> and \<open>json.Unmarshal\<close> of a checkpoint.\<close>

record cp_codec =
  cc_encode :: "file_checkpoint \<Rightarrow> string"
  cc_decode :: "string \<Rightarrow> string + file_checkpoint"

definition safe_checkpoint_char :: "char \<Rightarrow> bool" where
  "safe_checkpoint_char c \<longleftrightarrow>
     (let n = of_char c :: nat
      in 97 \<le> n \<and> n \<le> 122 \<or> 65 \<le> n \<and> n \<le> 90 \<or> 48 \<le> n \<and> n \<le> 57 \<or> c = CHR ''_'' \<or> c = CHR ''-'' \<or> c = CHR ''.'')"

definition safe_checkpoint_id :: "string \<Rightarrow> bool" where
  "safe_checkpoint_id i \<longleftrightarrow>
     i \<noteq> [] \<and> \<not> list_ex (\<lambda>c. c = CHR ''/'' \<or> c = CHR 0x5C) i \<and> list_all safe_checkpoint_char i"

definition compact_time :: "gtime \<Rightarrow> string" where
  "compact_time t =
     (let secs = t div 1000000000;
          sod = secs mod 86400;
          (y, m, d) = civil (secs div 86400);
          p2 = (\<lambda>i. pad 2 (dec_nat (nat i)))
      in pad 4 (dec_nat (nat y)) @ p2 m @ p2 d @ ''T'' @ p2 (sod div 3600) @ p2 (sod mod 3600 div 60) @ p2 (sod mod 60) @ ''Z'')"

definition new_checkpoint_id :: "world \<Rightarrow> string \<times> world" where
  "new_checkpoint_id w =
     (let w1 = w\<lparr>rpos := Suc (rpos w)\<rparr>; (t, w2) = now w1
      in (case rnd w (rpos w) of
            None \<Rightarrow> ''ws_'' @ dec_int (wrap64 (t - unix_epoch))
          | Some bs \<Rightarrow> ''ws_'' @ compact_time t @ ''_'' @ hex_encode bs, w2))"

definition relative_path :: "workspace \<Rightarrow> string \<Rightarrow> ws_error + string" where
  "relative_path w path =
     (case path_rel (ws_root w) path of
        None \<Rightarrow> Inl (WsText (''Rel: can't make '' @ path @ '' relative to '' @ ws_root w)) | Some r \<Rightarrow> Inr r)"

definition add_checkpoint_entry :: "cp_entry \<Rightarrow> cp_entry list \<Rightarrow> cp_entry list" where
  "add_checkpoint_entry e es = (if ce_path e \<in> set (map ce_path es) then es else es @ [e])"

definition unique_nonempty_paths :: "string list \<Rightarrow> string list" where
  "unique_nonempty_paths ps = rev (remdups (rev (filter (\<lambda>p. p \<noteq> []) (map trim_space ps))))"

text \<open>One existing file, and what the walk of a directory records.\<close>

definition snapshot_file :: "workspace \<Rightarrow> fpath \<Rightarrow> nat \<Rightarrow> string \<Rightarrow> cp_entry list \<Rightarrow> cp_entry list" where
  "snapshot_file w q mode content es =
     (if has_prefix (CheckpointDir @ ''/'') (walk_rel w q) then es
      else add_checkpoint_entry \<lparr>ce_path = walk_rel w q, ce_exists = True, ce_kind = ''file'', ce_mode = mode,
             ce_size = int (length content), ce_content = b64_encode content\<rparr> es)"

definition snapshot_node :: "workspace \<Rightarrow> fpath \<times> fs_entry \<Rightarrow> cp_entry list \<Rightarrow> cp_entry list" where
  "snapshot_node w n es =
     (case snd n of
        DirE m \<Rightarrow> add_checkpoint_entry \<lparr>ce_path = walk_rel w (fst n), ce_exists = True, ce_kind = ''directory'', ce_mode = m,
                    ce_size = 0, ce_content = []\<rparr> es
      | FileE m c \<Rightarrow> snapshot_file w (fst n) m c es)"

text \<open>
  The callback of the walk answers \<open>SkipDir\<close> for every skipped name. For a directory that leaves out what is
  below it; for a file \<open>WalkDir\<close> leaves the directory the file is in, so the file and all that comes after
  it there are left out.
\<close>

definition checkpoint_skips :: "workspace \<Rightarrow> fpath \<Rightarrow> bool" where
  "checkpoint_skips w q = should_skip_walk_dir (walk_rel w q) (last q)"

definition cut_off :: "workspace \<Rightarrow> fs \<Rightarrow> fpath \<Rightarrow> fpath \<Rightarrow> bool" where
  "cut_off w fs p q \<longleftrightarrow>
     list_ex (\<lambda>f. strict_prefix p (fst f) \<and> \<not> is_dir_at fs (fst f) \<and> checkpoint_skips w (fst f) \<and>
       strict_prefix (butlast (fst f)) q \<and> fst f \<le> q) (fs_nodes fs)"

definition checkpoint_walk :: "workspace \<Rightarrow> fs \<Rightarrow> fpath \<Rightarrow> (fpath \<times> fs_entry) list" where
  "checkpoint_walk w fs p = filter (\<lambda>n. \<not> cut_off w fs p (fst n)) (walk_below fs p (checkpoint_skips w))"

definition snapshot_existing :: "workspace \<Rightarrow> fs \<Rightarrow> fpath \<Rightarrow> fs_entry \<Rightarrow> cp_entry list \<Rightarrow> cp_entry list" where
  "snapshot_existing w fs q x es =
     (case x of
        FileE m c \<Rightarrow> snapshot_file w q m c es
      | DirE m \<Rightarrow>
          fold (snapshot_node w) ((q, x) # checkpoint_walk w fs q) es)"

definition snapshot_path :: "workspace \<Rightarrow> fs \<Rightarrow> string \<Rightarrow> cp_entry list \<Rightarrow> ws_error + cp_entry list" where
  "snapshot_path w fs rel es =
     (let rel = trim_space rel
      in if rel = [] then Inl (WsText ''checkpoint path is required'')
         else
           (case resolve w rel of
              Inl e \<Rightarrow> Inl e
            | Inr path \<Rightarrow>
                (if path_clean path = path_clean (ws_root w) then Inl (WsText ''workspace root cannot be checkpointed'')
                 else
                   (case lookup fs (path_parts path) of
                      Inl e \<Rightarrow>
                        (if e = NotExist
                         then (case relative_path w path of
                                 Inl e \<Rightarrow> Inl e
                               | Inr r \<Rightarrow> Inr (add_checkpoint_entry \<lparr>ce_path = r, ce_exists = False, ce_kind = [],
                                   ce_mode = 0, ce_size = 0, ce_content = []\<rparr> es))
                         else Inl (WsOs e))
                    | Inr x \<Rightarrow> Inr (snapshot_existing w fs (path_parts path) x es)))))"

fun snapshot_all :: "workspace \<Rightarrow> fs \<Rightarrow> string list \<Rightarrow> cp_entry list \<Rightarrow> ws_error + cp_entry list" where
  "snapshot_all w fs [] es = Inr es"
| "snapshot_all w fs (rel # rels) es =
     (case snapshot_path w fs rel es of Inl e \<Rightarrow> Inl e | Inr es' \<Rightarrow> snapshot_all w fs rels es')"

definition snapshot_paths :: "workspace \<Rightarrow> string list \<Rightarrow> fs \<times> world \<Rightarrow> (ws_error + file_checkpoint) \<times> world" where
  "snapshot_paths w rels st =
     (let rels = unique_nonempty_paths rels
      in if rels = [] then (Inl (WsText ''checkpoint paths are required''), snd st)
         else
           (let (i, w1) = new_checkpoint_id (snd st); (t, w2) = now w1
            in (case snapshot_all w (fst st) rels [] of
                  Inl e \<Rightarrow> Inl e
                | Inr es \<Rightarrow> Inr \<lparr>fc_version = 1, fc_id = i, fc_created = t, fc_entries = sort_key ce_path es\<rparr>, w2)))"

definition save_checkpoint :: "cp_codec \<Rightarrow> workspace \<Rightarrow> file_checkpoint \<Rightarrow> fs \<Rightarrow> ws_error option \<times> fs" where
  "save_checkpoint cc w cp fs =
     (if fc_id cp = [] then (Some (WsText ''checkpoint id is required''), fs)
      else if \<not> safe_checkpoint_id (fc_id cp) then (Some (WsText (''invalid checkpoint id: '' @ fc_id cp)), fs)
      else
        (case resolve w CheckpointDir of
           Inl e \<Rightarrow> (Some e, fs)
         | Inr dir \<Rightarrow>
             (case mkdir_all fs (path_parts dir) 493 of
                (Some e, fs1) \<Rightarrow> (Some (WsOs e), fs1)
              | (None, fs1) \<Rightarrow>
                  (let (e, fs2) = write_file fs1 (path_parts (path_join dir (fc_id cp @ ''.json''))) (cc_encode cc cp) 420
                   in (map_option WsOs e, fs2)))))"

definition create_checkpoint :: "cp_codec \<Rightarrow> workspace \<Rightarrow> string list \<Rightarrow> fs \<times> world \<Rightarrow>
    (ws_error + file_checkpoint) \<times> fs \<times> world" where
  "create_checkpoint cc w rels st =
     (case snapshot_paths w rels st of
        (Inl e, w1) \<Rightarrow> (Inl e, fst st, w1)
      | (Inr cp, w1) \<Rightarrow>
          (case save_checkpoint cc w cp (fst st) of
             (Some e, fs1) \<Rightarrow> (Inl e, fs1, w1)
           | (None, fs1) \<Rightarrow> (Inr cp, fs1, w1)))"

definition checkpoint_file :: "workspace \<Rightarrow> string \<Rightarrow> ws_error + string" where
  "checkpoint_file w i = resolve w (path_join CheckpointDir (i @ ''.json''))"

definition load_checkpoint :: "cp_codec \<Rightarrow> workspace \<Rightarrow> string \<Rightarrow> fs \<Rightarrow> ws_error + file_checkpoint" where
  "load_checkpoint cc w i0 fs =
     (let i = trim_space i0
      in if \<not> safe_checkpoint_id i then Inl (WsText (''invalid checkpoint id: '' @ i))
         else
           (case checkpoint_file w i of
              Inl e \<Rightarrow> Inl e
            | Inr path \<Rightarrow>
                (case read_file fs (path_parts path) of
                   Inl e \<Rightarrow> Inl (WsOs e)
                 | Inr data \<Rightarrow>
                     (case cc_decode cc data of
                        Inl e \<Rightarrow> Inl (WsText e)
                      | Inr cp \<Rightarrow>
                          (if fc_id cp \<noteq> i then Inl (WsText (''checkpoint id mismatch: '' @ fc_id cp))
                           else if fc_version cp \<noteq> 1
                           then Inl (WsText (''unsupported checkpoint version: '' @ dec_int (fc_version cp)))
                           else Inr cp)))))"

definition checkpoint_summary :: "file_checkpoint \<Rightarrow> cp_summary" where
  "checkpoint_summary cp = \<lparr>cs_id = fc_id cp, cs_created = fc_created cp, cs_entries = length (fc_entries cp),
     cs_paths = map ce_path (fc_entries cp)\<rparr>"

definition listed_checkpoint :: "cp_codec \<Rightarrow> workspace \<Rightarrow> fs \<Rightarrow> string \<times> bool \<Rightarrow> cp_summary list" where
  "listed_checkpoint cc w fs entry =
     (if snd entry \<or> \<not> has_suffix ''.json'' (fst entry) then []
      else (case load_checkpoint cc w (trim_suffix ''.json'' (fst entry)) fs of
              Inl _ \<Rightarrow> [] | Inr cp \<Rightarrow> [checkpoint_summary cp]))"

definition list_checkpoints :: "cp_codec \<Rightarrow> workspace \<Rightarrow> fs \<Rightarrow> ws_error + cp_summary list" where
  "list_checkpoints cc w fs =
     (case resolve w CheckpointDir of
        Inl e \<Rightarrow> Inl e
      | Inr dir \<Rightarrow>
          (case read_dir fs (path_parts dir) of
             Inl e \<Rightarrow> if e = NotExist then Inr [] else Inl (WsOs e)
           | Inr entries \<Rightarrow>
               Inr (rev (sort_key (\<lambda>s. (cs_created s, cs_id s)) (rev (concat (map (listed_checkpoint cc w fs) entries)))))))"

definition delete_checkpoint :: "workspace \<Rightarrow> string \<Rightarrow> fs \<Rightarrow> ws_error option \<times> fs" where
  "delete_checkpoint w i0 fs =
     (let i = trim_space i0
      in if \<not> safe_checkpoint_id i then (Some (WsText (''invalid checkpoint id: '' @ i)), fs)
         else
           (case checkpoint_file w i of
              Inl e \<Rightarrow> (Some e, fs)
            | Inr path \<Rightarrow> (let (e, fs1) = remove_path fs (path_parts path) in (map_option WsOs e, fs1))))"

fun delete_checkpoints :: "workspace \<Rightarrow> cp_summary list \<Rightarrow> cp_summary list \<Rightarrow> fs \<Rightarrow> (cp_summary list \<times> ws_error option) \<times> fs" where
  "delete_checkpoints w [] done fs = ((done, None), fs)"
| "delete_checkpoints w (s # ss) done fs =
     (case delete_checkpoint w (cs_id s) fs of
        (Some e, fs1) \<Rightarrow> ((done, Some e), fs1)
      | (None, fs1) \<Rightarrow> delete_checkpoints w ss (done @ [s]) fs1)"

definition prune_checkpoints :: "cp_codec \<Rightarrow> workspace \<Rightarrow> int \<Rightarrow> fs \<Rightarrow> (cp_prune_result \<times> ws_error option) \<times> fs" where
  "prune_checkpoints cc w keep fs =
     (let none = \<lparr>cr_deleted = [], cr_kept = 0, cr_total = 0\<rparr>
      in if keep < 0 then ((none, Some (WsText ''keep_latest must be >= 0'')), fs)
         else
           (case list_checkpoints cc w fs of
              Inl e \<Rightarrow> ((none, Some e), fs)
            | Inr items \<Rightarrow>
                (let n = int (length items);
                     result = \<lparr>cr_deleted = [], cr_kept = min keep n, cr_total = n\<rparr>
                 in if n \<le> keep then ((result, None), fs)
                    else (case delete_checkpoints w (drop (nat keep) items) [] fs of
                            ((del, e), fs1) \<Rightarrow> ((result\<lparr>cr_deleted := del\<rparr>, e), fs1)))))"

subsection \<open>Restoring\<close>

definition remove_if_exists :: "fs \<Rightarrow> fpath \<Rightarrow> fs_error option \<times> fs" where
  "remove_if_exists fs p =
     (case lookup fs p of
        Inl e \<Rightarrow> (if e = NotExist then None else Some e, fs)
      | Inr _ \<Rightarrow> remove_all fs p)"

definition restore_entry :: "workspace \<Rightarrow> cp_entry \<Rightarrow> fs \<Rightarrow> ws_error option \<times> fs" where
  "restore_entry w e fs =
     (let rel = trim_space (ce_path e)
      in if rel = [] then (Some (WsText ''checkpoint entry path is required''), fs)
         else
           (case resolve w rel of
              Inl x \<Rightarrow> (Some x, fs)
            | Inr path \<Rightarrow>
                (if path_clean path = path_clean (ws_root w) then (Some (WsText ''workspace root cannot be restored''), fs)
                 else if \<not> ce_exists e then (let (x, fs1) = remove_if_exists fs (path_parts path) in (map_option WsOs x, fs1))
                 else if ce_kind e = ''directory''
                 then (let (x, fs1) = mkdir_all fs (path_parts path) (if ce_mode e = 0 then 493 else ce_mode e AND 511)
                       in (map_option WsOs x, fs1))
                 else if ce_kind e = ''file'' then
                   (case b64_decode (ce_content e) of
                      None \<Rightarrow> (Some (WsText ''illegal base64 data''), fs)
                    | Some content \<Rightarrow>
                        (let (x, fs1) = write_under fs path content (if ce_mode e = 0 then 420 else ce_mode e AND 511)
                         in (map_option WsOs x, fs1)))
                 else (Some (WsText (''unsupported checkpoint entry kind: '' @ ce_kind e)), fs))))"

fun restore_entries :: "workspace \<Rightarrow> cp_entry list \<Rightarrow> fs \<Rightarrow> ws_error option \<times> fs" where
  "restore_entries w [] fs = (None, fs)"
| "restore_entries w (e # es) fs =
     (case restore_entry w e fs of (Some x, fs1) \<Rightarrow> (Some x, fs1) | (None, fs1) \<Rightarrow> restore_entries w es fs1)"

definition restore_checkpoint :: "cp_codec \<Rightarrow> workspace \<Rightarrow> string \<Rightarrow> fs \<Rightarrow> (ws_error + file_checkpoint) \<times> fs" where
  "restore_checkpoint cc w i fs =
     (case load_checkpoint cc w i fs of
        Inl e \<Rightarrow> (Inl e, fs)
      | Inr cp \<Rightarrow>
          (case restore_entries w (fc_entries cp) fs of (Some e, fs1) \<Rightarrow> (Inl e, fs1) | (None, fs1) \<Rightarrow> (Inr cp, fs1)))"

subsection \<open>Relative paths name what they came from\<close>

lemma clean_parts_append: "list_all plain ds \<Longrightarrow> clean_parts r out (ps @ ds) = clean_parts r out ps @ ds"
  by (induction r out ps rule: clean_parts.induct) (auto simp: clean_parts_id)

lemma walk_rel_inside:
  assumes "is_abs (ws_root w)" and "list_all plain ds" and "ds \<noteq> []" and "root_parts w \<noteq> []"
  shows "walk_rel w (root_parts w @ ds) = join ''/'' ds"
    and "resolve w (join ''/'' ds) = Inr (abs_path (root_parts w @ ds))"
proof -
  obtain rs where rs: "list_all plain rs" "path_clean (ws_root w) = abs_path rs" "root_parts w = rs"
    using clean_abs [OF assms(1)] by (auto simp: root_parts_def)
  have rel: "path_rel (ws_root w) t = path_rel (abs_path rs) t" for t
    using rs(1,2) by (simp add: path_rel_def)
  show "walk_rel w (root_parts w @ ds) = join ''/'' ds"
    using rel_inside [OF rs(1) assms(2)] assms(3) rs(3) by (simp add: walk_rel_def rel)
  have ne: "join ''/'' ds \<noteq> []" "\<not> is_abs (join ''/'' ds)"
    using assms(2,3) by (cases ds; cases "tl ds"; auto simp: plain_def is_abs_def neq_Nil_conv)+
  have root: "ws_root w \<noteq> []" using assms(1) by (auto simp: is_abs_def)
  have cs: "clean_parts True [] (path_parts (ws_root w)) = rs"
  proof -
    have "abs_path (clean_parts True [] (path_parts (ws_root w))) = abs_path rs" using rs(2) assms(1) by (simp add: path_clean_def)
    moreover have "list_all plain (clean_parts True [] (path_parts (ws_root w)))"
      by (rule clean_parts_plain) (auto simp: list_all_iff dest: path_parts_plain)
    ultimately show ?thesis using abs_path_inject rs(1) by blast
  qed
  have "is_abs (ws_root w @ ''/'' @ join ''/'' ds)" using assms(1) root by (cases "ws_root w") (simp_all add: is_abs_def)
  then have "path_join (ws_root w) (join ''/'' ds) = abs_path (rs @ ds)"
    using root ne(1) assms(2) cs by (simp add: path_join_def path_clean_def parts_append clean_parts_append)
  moreover have "abs_path (rs @ ds) = path_clean (ws_root w) \<or> has_prefix (path_clean (ws_root w) @ ''/'') (abs_path (rs @ ds))"
    using inside_iff [of rs "rs @ ds"] rs assms(2-4) by (simp add: strict_prefix_def)
  ultimately show "resolve w (join ''/'' ds) = Inr (abs_path (root_parts w @ ds))"
    using ne rs assms(2) by (auto simp: resolve_def Let_def)
qed

subsection \<open>What a checkpoint records, and what restoring brings back\<close>

text \<open>A file system is as an entry says at the place the entry's path names.\<close>

definition matches_entry :: "cp_entry \<Rightarrow> fs_entry option \<Rightarrow> bool" where
  "matches_entry e x \<longleftrightarrow>
     (if \<not> ce_exists e then x = None
      else if ce_kind e = ''directory'' then (\<exists>m. x = Some (DirE m))
      else ce_kind e = ''file'' \<and> (\<exists>m c. x = Some (FileE m c) \<and> b64_decode (ce_content e) = Some c))"

lemma matches_absent: "matches_entry e None \<longleftrightarrow> \<not> ce_exists e"
  by (simp add: matches_entry_def)

lemma matches_same:
  assumes "matches_entry e x" and "matches_entry e y" and "ce_exists e" and "matches_entry e' x"
  shows "matches_entry e' y"
  using assms by (cases "ce_exists e'"; cases "ce_kind e = ''directory''"; cases "ce_kind e' = ''directory''")
    (auto simp: matches_entry_def)

definition entry_holds :: "workspace \<Rightarrow> cp_entry \<Rightarrow> fs \<Rightarrow> bool" where
  "entry_holds w e fs \<longleftrightarrow>
     (case resolve w (trim_space (ce_path e)) of Inl _ \<Rightarrow> False | Inr path \<Rightarrow> matches_entry e (node_at fs (path_parts path)))"

lemma restore_entry_done:
  assumes "ws_good w fs" and "restore_entry w e fs = (None, fs')" 
    and "ce_exists e \<Longrightarrow> ce_kind e \<noteq> ''directory'' \<Longrightarrow> b64_decode (ce_content e) \<noteq> None"
  obtains cs where "resolve w (trim_space (ce_path e)) = Inr (abs_path cs)" "list_all plain cs" "strict_prefix (root_parts w) cs"
    "\<not> ce_exists e \<Longrightarrow> (\<exists>x. remove_if_exists fs cs = (None, fs'))"
    "ce_exists e \<Longrightarrow> ce_kind e = ''directory'' \<Longrightarrow> \<exists>m. mkdir_all fs cs m = (None, fs')"
    "ce_exists e \<Longrightarrow> ce_kind e \<noteq> ''directory'' \<Longrightarrow>
       ce_kind e = ''file'' \<and> (\<exists>m. write_under fs (abs_path cs) (the (b64_decode (ce_content e))) m = (None, fs'))"
proof -
  have a: "is_abs (ws_root w)" using assms(1) by (simp add: ws_good_def)
  obtain path where p: "resolve w (trim_space (ce_path e)) = Inr path" "path_clean path \<noteq> path_clean (ws_root w)"
    using assms(2) by (auto simp: restore_entry_def Let_def split: sum.splits if_splits)
  obtain cs where cs: "list_all plain cs" "path = abs_path cs" "path_parts path = cs" "prefix (root_parts w) cs"
    using resolve_inside [OF a p(1)] by metis
  have "path_clean path = path" using cs(1,2) by simp
  then have sp: "strict_prefix (root_parts w) cs" using p(2) cs root_path [OF a cs(1)] by (auto simp: strict_prefix_def)
  show ?thesis
  proof (rule that [of cs])
    show "resolve w (trim_space (ce_path e)) = Inr (abs_path cs)" using p(1) cs(2) by simp
    show "\<not> ce_exists e \<Longrightarrow> \<exists>x. remove_if_exists fs cs = (None, fs')"
      using assms(2) p cs(2,3) by (auto simp: restore_entry_def Let_def split: if_splits prod.splits)
    show "ce_exists e \<Longrightarrow> ce_kind e = ''directory'' \<Longrightarrow> \<exists>m. mkdir_all fs cs m = (None, fs')"
      using assms(2) p cs(2,3) by (auto simp: restore_entry_def Let_def split: if_splits prod.splits)
    show "ce_exists e \<Longrightarrow> ce_kind e \<noteq> ''directory'' \<Longrightarrow>
       ce_kind e = ''file'' \<and> (\<exists>m. write_under fs (abs_path cs) (the (b64_decode (ce_content e))) m = (None, fs'))"
      using assms(2,3) p cs(2,3) by (auto simp: restore_entry_def Let_def split: if_splits prod.splits option.splits)
  qed (use cs sp in simp_all)
qed

lemma remove_if_exists_done:
  assumes "fs_ok fs" and "remove_if_exists fs cs = (None, fs')" and "cs \<noteq> []"
  shows "fs' = drop_tree fs cs \<or> fs' = fs \<and> node_at fs cs = None"
proof (cases "lookup fs cs")
  case (Inl e)
  have "node_at fs cs = None" using lookup_Inr [OF assms(1), of cs] Inl by (cases "node_at fs cs") auto
  then show ?thesis using assms(2) Inl by (simp add: remove_if_exists_def)
next
  case (Inr x)
  then have "remove_all fs cs = (None, fs')" using assms(2) by (simp add: remove_if_exists_def)
  then show ?thesis using assms(3) by (cases rule: remove_all_cases) simp_all
qed

text \<open>Restoring one entry makes it hold and leaves alone what else held in the same file system.\<close>

lemma restore_entry_step:
  assumes "ws_good w cur" and "fs_ok fs" and "entry_holds w e fs" and "restore_entry w e cur = (None, cur')"
  shows "ws_good w cur' \<and> confined (root_parts w) cur cur' \<and> entry_holds w e cur' \<and>
    (\<forall>e'. entry_holds w e' fs \<longrightarrow> entry_holds w e' cur \<longrightarrow> entry_holds w e' cur')"
proof -
  have g: "fs_ok cur" "is_dir_at cur (root_parts w)" using assms(1) by (simp_all add: ws_good_def)
  obtain cs where r: "resolve w (trim_space (ce_path e)) = Inr (abs_path cs)" "list_all plain cs" "strict_prefix (root_parts w) cs"
    "\<not> ce_exists e \<Longrightarrow> (\<exists>x. remove_if_exists cur cs = (None, cur'))"
    "ce_exists e \<Longrightarrow> ce_kind e = ''directory'' \<Longrightarrow> \<exists>m. mkdir_all cur cs m = (None, cur')"
    "ce_exists e \<Longrightarrow> ce_kind e \<noteq> ''directory'' \<Longrightarrow>
       ce_kind e = ''file'' \<and> (\<exists>m. write_under cur (abs_path cs) (the (b64_decode (ce_content e))) m = (None, cur'))"
    using restore_entry_done [OF assms(1,4)] assms(3)
    by (force simp: entry_holds_def matches_entry_def split: sum.splits if_splits)
  have ne: "cs \<noteq> []" and pr: "prefix (root_parts w) cs" using r(3) by (auto simp: strict_prefix_def)
  have me: "matches_entry e (node_at fs cs)" using assms(3) r(1,2) by (simp add: entry_holds_def)
  have main: "confined (root_parts w) cur cur' \<and> matches_entry e (node_at cur' cs) \<and>
    (\<forall>e' q. matches_entry e' (node_at fs q) \<longrightarrow> matches_entry e' (node_at cur q) \<longrightarrow> matches_entry e' (node_at cur' q))"
  proof (cases "ce_exists e")
    case False
    then have fsn: "node_at fs cs = None" using me by (simp add: matches_entry_def)
    from r(4) [OF False] have d: "cur' = drop_tree cur cs \<or> cur' = cur \<and> node_at cur cs = None"
      using remove_if_exists_done [OF g(1) _ ne] by blast
    have below: "node_at fs q = None" if q: "prefix cs q" for q
    proof (rule ccontr)
      assume "node_at fs q \<noteq> None"
      then obtain y where "node_at fs q = Some y" by blast
      then have "cs \<noteq> q \<Longrightarrow> is_dir_at fs cs" using fs_okD [OF assms(2)] q by (auto simp: strict_prefix_def)
      then show False using fsn \<open>node_at fs q \<noteq> None\<close> by (cases "cs = q") (simp_all add: is_dir_iff)
    qed
    have "matches_entry e' (node_at cur' q)" if "matches_entry e' (node_at fs q)" "matches_entry e' (node_at cur q)" for e' q
    proof (cases "prefix cs q")
      case True
      then have "\<not> ce_exists e'" using below [OF True] that(1) by (auto simp: matches_entry_def split: if_splits)
      then show ?thesis using that(2) d by (auto simp: matches_entry_def node_at_drop)
    next
      case False
      then show ?thesis using that(2) d by (auto simp: node_at_drop)
    qed
    moreover have "confined (root_parts w) cur cur'"
      using d drop_confined [OF g r(3)] confined_refl [OF g] by auto
    moreover have "matches_entry e (node_at cur' cs)" using d False ne by (auto simp: matches_entry_def node_at_drop)
    ultimately show ?thesis by blast
  next
    case ex: True
    have fsn: "node_at fs cs \<noteq> None" using me ex by (auto simp: matches_entry_def split: if_splits)
    then have up: "is_dir_at fs q" if "strict_prefix q cs" for q using fs_okD [OF assms(2)] that by blast
    have step: "confined (root_parts w) cur cur' \<and> matches_entry e (node_at cur' cs) \<and>
      (\<forall>q. node_at cur' q = node_at cur q \<or> q = cs \<or> node_at cur q = None \<and> strict_prefix q cs)"
    proof (cases "ce_kind e = ''directory''")
      case True
      then obtain m where m: "mkdir_all cur cs m = (None, cur')" using r(5) ex by blast
      have "is_dir_at cur' cs" using mkdir_all_spec(3) [OF m g(1)] by simp
      then have "matches_entry e (node_at cur' cs)" using ex True by (simp add: matches_entry_def is_dir_iff)
      then show ?thesis
        using mkdir_confined [OF g _ m] pr mkdir_all_spec(2) [OF m g(1)] by (auto simp: strict_prefix_def)
    next
      case False
      then obtain m where k: "ce_kind e = ''file''"
        and m: "write_under cur (abs_path cs) (the (b64_decode (ce_content e))) m = (None, cur')" using r(6) ex by blast
      have dec: "b64_decode (ce_content e) \<noteq> None" using me ex False by (auto simp: matches_entry_def)
      note d = write_under_done [OF g(1) r(2) m]
      have h: "matches_entry e (node_at cur' cs)" using d dec ex k by (auto simp: matches_entry_def)
      have "\<forall>q. node_at cur' q = node_at cur q \<or> q = cs \<or> node_at cur q = None \<and> strict_prefix q cs"
        using d by meson
      then show ?thesis using write_under_confined [OF g r(2) pr m] h by (intro conjI)
    qed
    have "matches_entry e' (node_at cur' q)" if "matches_entry e' (node_at fs q)" "matches_entry e' (node_at cur q)" for e' q
    proof -
      from step have "node_at cur' q = node_at cur q \<or> q = cs \<or> node_at cur q = None \<and> strict_prefix q cs"
        by (elim conjE allE [of _ q])
      then consider "node_at cur' q = node_at cur q" | "q = cs" | "node_at cur q = None" "strict_prefix q cs" by (elim disjE conjE)
      then show ?thesis
      proof cases
        case 1
        then show ?thesis using that(2) by simp
      next
        case 2
        then show ?thesis using matches_same [OF me conjunct1 [OF conjunct2 [OF step]] ex that(1) [unfolded 2]] by (simp only: 2)
      next
        case 3
        then have "\<not> ce_exists e'" "node_at fs q \<noteq> None" using that(2) up by (auto simp: matches_absent is_dir_iff)
        then show ?thesis using that(1) by (simp add: matches_entry_def)
      qed
    qed
    then show ?thesis using step by (intro conjI allI impI) simp_all
  qed
  then have "ws_good w cur'" using assms(1) by (simp add: ws_good_def confined_def)
  then show ?thesis using main r(1,2) by (auto simp: entry_holds_def split: sum.splits)
qed

lemma restore_entries_hold:
  assumes "ws_good w cur" and "fs_ok fs" and "list_all (\<lambda>e. entry_holds w e fs) es" and "restore_entries w es cur = (None, cur')"
  shows "ws_good w cur' \<and> confined (root_parts w) cur cur' \<and> list_all (\<lambda>e. entry_holds w e cur') es \<and>
    (\<forall>e'. entry_holds w e' fs \<longrightarrow> entry_holds w e' cur \<longrightarrow> entry_holds w e' cur')"
  using assms
proof (induction es arbitrary: cur)
  case Nil
  then show ?case by (simp add: confined_refl ws_good_def)
next
  case (Cons e es)
  obtain mid where m: "restore_entry w e cur = (None, mid)" "restore_entries w es mid = (None, cur')"
    using Cons.prems(4) by (auto split: prod.splits option.splits)
  have he: "entry_holds w e fs" "list_all (\<lambda>e. entry_holds w e fs) es" using Cons.prems(3) by simp_all
  note s = restore_entry_step [OF Cons.prems(1,2) he(1) m(1)]
  note i = Cons.IH [OF _ Cons.prems(2) he(2) m(2)]
  show ?case using s i he(1) confined_trans by (auto intro: confined_trans)
qed

text \<open>
  The entries of a snapshot: each names a place below the root and says what is there. A name of a file
  has no slash and is neither \<open>.\<close> nor \<open>..\<close>.
\<close>

definition plain_names :: "fs \<Rightarrow> bool" where
  "plain_names fs \<longleftrightarrow> list_all (\<lambda>n. list_all plain (fst n)) (fs_nodes fs)"

definition recorded :: "workspace \<Rightarrow> fs \<Rightarrow> cp_entry \<Rightarrow> bool" where
  "recorded w fs e \<longleftrightarrow>
     (\<exists>q. list_all plain q \<and> strict_prefix (root_parts w) q \<and> ce_path e = walk_rel w q \<and> matches_entry e (node_at fs q))"

definition covers :: "workspace \<Rightarrow> cp_entry list \<Rightarrow> fpath \<Rightarrow> bool" where
  "covers w es q \<longleftrightarrow> list_all plain q \<and> strict_prefix (root_parts w) q \<and>
     (walk_rel w q \<in> ce_path ` set es \<or> has_prefix (CheckpointDir @ ''/'') (walk_rel w q))"

definition brought_back :: "fs \<Rightarrow> fs \<Rightarrow> fpath \<Rightarrow> bool" where
  "brought_back fs fs' q \<longleftrightarrow>
     (case node_at fs q of
        None \<Rightarrow> node_at fs' q = None
      | Some (DirE _) \<Rightarrow> is_dir_at fs' q
      | Some (FileE _ c) \<Rightarrow> read_file fs' q = Inr c)"

definition snapshot_places :: "workspace \<Rightarrow> fs \<Rightarrow> fpath \<Rightarrow> fpath list" where
  "snapshot_places w fs q = q # map fst (checkpoint_walk w fs q)"

lemma add_checkpoint_entry_set:
  "set es \<subseteq> set (add_checkpoint_entry e es) \<and> set (add_checkpoint_entry e es) \<subseteq> insert e (set es) \<and>
   ce_path e \<in> ce_path ` set (add_checkpoint_entry e es)"
  by (auto simp: add_checkpoint_entry_def)

lemma add_recorded:
  "list_all (recorded w fs) es \<Longrightarrow> recorded w fs e \<Longrightarrow> list_all (recorded w fs) (add_checkpoint_entry e es)"
  by (auto simp: add_checkpoint_entry_def)

lemma covers_mono: "covers w es q \<Longrightarrow> set es \<subseteq> set es' \<Longrightarrow> covers w es' q"
  by (auto simp: covers_def)

lemma plain_node: "plain_names fs \<Longrightarrow> node_at fs q = Some x \<Longrightarrow> list_all plain q"
  using map_of_SomeD by (fastforce simp: plain_names_def node_at_def list_all_iff split: if_splits)

lemma snapshot_node_spec:
  assumes "node_at fs q = Some x" and "list_all plain q" and "strict_prefix (root_parts w) q" and "list_all (recorded w fs) es"
  shows "list_all (recorded w fs) (snapshot_node w (q, x) es) \<and> set es \<subseteq> set (snapshot_node w (q, x) es) \<and>
    covers w (snapshot_node w (q, x) es) q"
proof (cases x)
  case (DirE m)
  let ?e = "\<lparr>ce_path = walk_rel w q, ce_exists = True, ce_kind = ''directory'', ce_mode = m, ce_size = 0, ce_content = []\<rparr>"
  have "recorded w fs ?e" using assms(1-3) DirE by (auto simp: recorded_def matches_entry_def)
  then show ?thesis
    using add_recorded [OF assms(4)] add_checkpoint_entry_set [of es ?e] DirE assms(2,3) by (simp add: snapshot_node_def covers_def)
next
  case (FileE m c)
  let ?e = "\<lparr>ce_path = walk_rel w q, ce_exists = True, ce_kind = ''file'', ce_mode = m, ce_size = int (length c),
    ce_content = b64_encode c\<rparr>"
  have "recorded w fs ?e" using assms(1-3) FileE b64_roundtrip by (auto simp: recorded_def matches_entry_def)
  then show ?thesis
    using add_recorded [OF assms(4)] add_checkpoint_entry_set [of es ?e] assms(2-4) FileE
    by (simp add: snapshot_node_def snapshot_file_def covers_def)
qed

lemma snapshot_fold:
  assumes "\<And>n. n \<in> set ns \<Longrightarrow> node_at fs (fst n) = Some (snd n) \<and> list_all plain (fst n) \<and> strict_prefix (root_parts w) (fst n)"
    and "list_all (recorded w fs) es"
  shows "list_all (recorded w fs) (fold (snapshot_node w) ns es) \<and> set es \<subseteq> set (fold (snapshot_node w) ns es) \<and>
    (\<forall>n\<in>set ns. covers w (fold (snapshot_node w) ns es) (fst n))"
  using assms
proof (induction ns arbitrary: es)
  case (Cons n ns)
  have n: "node_at fs (fst n) = Some (snd n)" "list_all plain (fst n)" "strict_prefix (root_parts w) (fst n)"
    using Cons.prems(1) by simp_all
  note s = snapshot_node_spec [OF n Cons.prems(2), unfolded prod.collapse]
  have "list_all (recorded w fs) (snapshot_node w n es)" using s by simp
  note i = Cons.IH [OF _ this] 
  have "n' \<in> set ns \<Longrightarrow> node_at fs (fst n') = Some (snd n') \<and> list_all plain (fst n') \<and> strict_prefix (root_parts w) (fst n')" for n'
    using Cons.prems(1) by simp
  note i = i [OF this]
  have "covers w (fold (snapshot_node w) ns (snapshot_node w n es)) (fst n)" using s i covers_mono by blast
  then show ?case using s i by auto
qed simp

lemma walk_nodes:
  assumes "fs_ok fs" and "n \<in> set (checkpoint_walk w fs p)"
  shows "node_at fs (fst n) = Some (snd n) \<and> strict_prefix p (fst n)"
proof -
  have "n \<in> set (fs_nodes fs)" "strict_prefix p (fst n)" using assms(2) by (auto simp: checkpoint_walk_def walk_below_def)
  then show ?thesis using assms(1) by (cases n) (auto simp: node_at_def fs_ok_def strict_prefix_def)
qed

lemma walk_no_dir:
  assumes "fs_ok fs" and "\<not> is_dir_at fs p"
  shows "checkpoint_walk w fs p = []"
proof (rule ccontr)
  assume "checkpoint_walk w fs p \<noteq> []"
  then obtain n where "n \<in> set (checkpoint_walk w fs p)" by (meson list.set_sel(1))
  then show False using walk_nodes [OF assms(1)] fs_okD [OF assms(1)] assms(2) by blast
qed

lemma snapshot_path_spec:
  assumes "ws_good w fs" and "root_parts w \<noteq> []" and "plain_names fs" and "list_all (recorded w fs) es"
    and "snapshot_path w fs rel es = Inr es'"
  shows "list_all (recorded w fs) es' \<and> set es \<subseteq> set es' \<and>
    (\<exists>cs. resolve w (trim_space rel) = Inr (abs_path cs) \<and> list_all plain cs \<and> (\<forall>q\<in>set (snapshot_places w fs cs). covers w es' q))"
proof -
  have ok: "fs_ok fs" and a: "is_abs (ws_root w)" using assms(1) by (simp_all add: ws_good_def)
  obtain path where p: "resolve w (trim_space rel) = Inr path" "path_clean path \<noteq> path_clean (ws_root w)"
    using assms(5) by (auto simp: snapshot_path_def Let_def split: sum.splits if_splits)
  obtain cs where cs: "list_all plain cs" "path = abs_path cs" "path_parts path = cs" "prefix (root_parts w) cs"
    using resolve_inside [OF a p(1)] by metis
  have sp: "strict_prefix (root_parts w) cs" using p(2) cs root_path [OF a cs(1)] by (auto simp: strict_prefix_def)
  have "list_all (recorded w fs) es' \<and> set es \<subseteq> set es' \<and> (\<forall>q\<in>set (snapshot_places w fs cs). covers w es' q)"
  proof (cases "lookup fs cs")
    case (Inl e)
    then have none: "node_at fs cs = None" using lookup_Inr [OF ok, of cs] by (cases "node_at fs cs") auto
    let ?e = "\<lparr>ce_path = walk_rel w cs, ce_exists = False, ce_kind = [], ce_mode = 0, ce_size = 0, ce_content = []\<rparr>"
    have places: "set (snapshot_places w fs cs) = {cs}"
      using walk_no_dir [OF ok, of cs] none by (simp add: snapshot_places_def is_dir_iff)
    obtain r where r: "relative_path w path = Inr r"
        "es' = add_checkpoint_entry \<lparr>ce_path = r, ce_exists = False, ce_kind = [], ce_mode = 0, ce_size = 0, ce_content = []\<rparr> es"
      using assms(5) p cs(3) Inl by (auto simp: snapshot_path_def Let_def split: sum.splits if_splits)
    have "r = walk_rel w cs" using r(1) cs(2) by (auto simp: relative_path_def walk_rel_def split: option.splits)
    then have es': "es' = add_checkpoint_entry ?e es" using r(2) by simp
    have "recorded w fs ?e" using cs(1) sp none by (auto simp: recorded_def matches_entry_def)
    then show ?thesis
      using add_recorded [OF assms(4)] add_checkpoint_entry_set [of es ?e] cs(1) sp by (simp add: es' places covers_def)
  next
    case (Inr x)
    then have x: "node_at fs cs = Some x" using lookup_Inr [OF ok] by blast
    have es': "es' = snapshot_existing w fs cs x es"
      using assms(5) p cs(3) Inr by (auto simp: snapshot_path_def Let_def split: if_splits)
    let ?ns = "(cs, x) # checkpoint_walk w fs cs"
    have fold: "es' = fold (snapshot_node w) ?ns es"
      using walk_no_dir [OF ok, of cs] x by (cases x) (simp_all add: es' snapshot_existing_def snapshot_node_def is_dir_iff)
    have "node_at fs (fst n) = Some (snd n) \<and> list_all plain (fst n) \<and> strict_prefix (root_parts w) (fst n)"
      if "n \<in> set ?ns" for n
    proof (cases "n = (cs, x)")
      case False
      then have "node_at fs (fst n) = Some (snd n)" "strict_prefix cs (fst n)" using that walk_nodes [OF ok, of n w cs] by simp_all
      then show ?thesis using plain_node [OF assms(3)] prefix_order.less_trans [OF sp] by blast
    qed (simp add: x cs(1) sp)
    then have "list_all (recorded w fs) es' \<and> set es \<subseteq> set es' \<and> (\<forall>n\<in>set ?ns. covers w es' (fst n))"
      unfolding fold by (rule snapshot_fold) (assumption, rule assms(4))
    moreover have "set (snapshot_places w fs cs) = fst ` set ?ns" by (simp add: snapshot_places_def)
    ultimately show ?thesis by auto
  qed
  then show ?thesis using p(1) cs(1,2) by blast
qed

lemma snapshot_all_spec:
  assumes "ws_good w fs" and "root_parts w \<noteq> []" and "plain_names fs" and "list_all (recorded w fs) es"
    and "snapshot_all w fs rels es = Inr es'"
  shows "list_all (recorded w fs) es' \<and> set es \<subseteq> set es' \<and> (\<forall>rel\<in>set rels.
    \<exists>cs. resolve w (trim_space rel) = Inr (abs_path cs) \<and> list_all plain cs \<and> (\<forall>q\<in>set (snapshot_places w fs cs). covers w es' q))"
  using assms(4,5)
proof (induction rels arbitrary: es)
  case (Cons rel rels)
  obtain mid where m: "snapshot_path w fs rel es = Inr mid" "snapshot_all w fs rels mid = Inr es'"
    using Cons.prems(2) by (auto split: sum.splits)
  note s = snapshot_path_spec [OF assms(1-3) Cons.prems(1) m(1)]
  note i = Cons.IH [OF conjunct1 [OF s] m(2)]
  obtain cs where "resolve w (trim_space rel) = Inr (abs_path cs)" "list_all plain cs" "\<forall>q\<in>set (snapshot_places w fs cs). covers w mid q"
    using s by blast
  moreover have "covers w mid q \<Longrightarrow> covers w es' q" for q using i covers_mono by blast
  ultimately show ?case using s i by auto
qed simp

lemma recorded_holds:
  assumes "is_abs (ws_root w)" and "root_parts w \<noteq> []" and "recorded w fs e" and "trim_space (ce_path e) = ce_path e"
  shows "entry_holds w e fs"
proof -
  obtain q where q: "list_all plain q" "strict_prefix (root_parts w) q" "ce_path e = walk_rel w q" "matches_entry e (node_at fs q)"
    using assms(3) by (auto simp: recorded_def)
  obtain ds where ds: "q = root_parts w @ ds" "ds \<noteq> []" using q(2) by (auto simp: strict_prefix_def prefix_def)
  have pl: "list_all plain ds" using q(1) ds(1) by simp
  show ?thesis
    using walk_rel_inside [OF assms(1) pl ds(2) assms(2)] q ds(1) assms(4) by (simp add: entry_holds_def)
qed

lemma matches_back:
  assumes "fs_ok fs'" and "matches_entry e (node_at fs q)" and "matches_entry e (node_at fs' q)"
  shows "brought_back fs fs' q"
proof (cases "ce_exists e")
  case True
  then show ?thesis
    using assms read_file_node [OF assms(1), of q] by (cases "ce_kind e = ''directory''") (auto simp: brought_back_def matches_entry_def is_dir_iff)
qed (use assms in \<open>simp add: brought_back_def matches_entry_def\<close>)

lemma covered_back:
  assumes "is_abs (ws_root w)" and "root_parts w \<noteq> []" and "fs_ok fs'" and "list_all (recorded w fs) es"
    and "list_all (\<lambda>e. entry_holds w e fs') es" and "list_all (\<lambda>e. trim_space (ce_path e) = ce_path e) es"
    and "covers w es q"
  shows "has_prefix (CheckpointDir @ ''/'') (walk_rel w q) \<or> brought_back fs fs' q"
proof (cases "has_prefix (CheckpointDir @ ''/'') (walk_rel w q)")
  case out: False
  have q: "list_all plain q" "strict_prefix (root_parts w) q" "walk_rel w q \<in> ce_path ` set es"
    using assms(7) out by (simp_all add: covers_def)
  have rel: "resolve w (walk_rel w r) = Inr (abs_path r)" if "list_all plain r" "strict_prefix (root_parts w) r" for r
  proof -
    obtain ds where "r = root_parts w @ ds" "ds \<noteq> []" using \<open>strict_prefix (root_parts w) r\<close> by (auto simp: strict_prefix_def prefix_def)
    then show ?thesis using walk_rel_inside [OF assms(1) _ _ assms(2), of ds] \<open>list_all plain r\<close> by simp
  qed
  obtain e where e: "e \<in> set es" "ce_path e = walk_rel w q" using q(3) by auto
  then obtain r where r: "list_all plain r" "strict_prefix (root_parts w) r" "ce_path e = walk_rel w r" "matches_entry e (node_at fs r)"
    using assms(4) unfolding list_all_iff recorded_def by blast
  have "abs_path r = abs_path q" using rel [OF r(1,2)] rel [OF q(1,2)] e(2) r(3) by simp
  then have "r = q" using abs_path_inject [OF r(1) q(1)] by simp
  moreover have "entry_holds w e fs'" "trim_space (ce_path e) = ce_path e" using assms(5,6) e(1) by (simp_all add: list_all_iff)
  then have "matches_entry e (node_at fs' q)" using e(2) rel [OF q(1,2)] q(1) by (simp add: entry_holds_def)
  ultimately show ?thesis using matches_back [OF assms(3)] r(4) by blast
qed simp

subsection \<open>The file of a checkpoint\<close>

lemma safe_id_plain: "safe_checkpoint_id i \<Longrightarrow> plain (i @ ''.json'')"
  by (auto simp: safe_checkpoint_id_def plain_def list_ex_iff)

lemma spaces_unsafe: "list_all (\<lambda>c. \<not> safe_checkpoint_char c) (space_heads @ space_lasts)"
  by (simp add: space_heads_def space_lasts_def go_spaces_def safe_checkpoint_char_def)

lemma safe_id_trim:
  assumes "safe_checkpoint_id i"
  shows "trim_space i = i"
proof -
  have "i \<noteq> []" "hd i \<in> set i" "last i \<in> set i" using assms by (auto simp: safe_checkpoint_id_def)
  moreover have "safe_checkpoint_char c" if "c \<in> set i" for c using assms that by (auto simp: safe_checkpoint_id_def list_all_iff)
  ultimately show ?thesis using spaces_unsafe trim_space_id [of i] by (fastforce simp: list_all_iff)
qed

lemma checkpoint_path:
  assumes "is_abs (ws_root w)" and "root_parts w \<noteq> []" and "safe_checkpoint_id i"
  defines "d \<equiv> root_parts w @ [''.kkode'', ''checkpoints'']"
  shows "resolve w CheckpointDir = Inr (abs_path d)"
    and "path_join (abs_path d) (i @ ''.json'') = abs_path (d @ [i @ ''.json''])"
    and "checkpoint_file w i = Inr (abs_path (d @ [i @ ''.json'']))"
    and "list_all plain (d @ [i @ ''.json''])"
proof -
  have pl: "list_all plain [''.kkode'', ''checkpoints'']" by code_simp
  have pj: "plain (i @ ''.json'')" by (rule safe_id_plain [OF assms(3)])
  have cd: "join ''/'' [''.kkode'', ''checkpoints''] = CheckpointDir" by (simp add: CheckpointDir_def)
  show dir: "resolve w CheckpointDir = Inr (abs_path d)"
    unfolding d_def by (rule walk_rel_inside(2) [OF assms(1) pl _ assms(2), unfolded cd]) (rule list.distinct(2))
  obtain rs where rs: "list_all plain rs" "path_clean (ws_root w) = abs_path rs" using clean_abs [OF assms(1)] by blast
  then have "root_parts w = rs" by (simp add: root_parts_def)
  then have pd: "list_all plain d" using pl rs(1) by (simp add: d_def)
  then show all: "list_all plain (d @ [i @ ''.json''])" using pj by simp
  have "is_abs (abs_path d @ ''/'' @ i @ ''.json'')" by (simp add: is_abs_def abs_path_def)
  moreover have "path_parts (i @ ''.json'') = [i @ ''.json'']" using parts_join [of "[i @ ''.json'']"] pj by simp
  ultimately show "path_join (abs_path d) (i @ ''.json'') = abs_path (d @ [i @ ''.json''])"
    using pd pj by (simp add: path_join_def path_clean_def parts_append clean_parts_append clean_parts_id abs_path_def)
  have p3: "list_all plain [''.kkode'', ''checkpoints'', i @ ''.json'']" using pl pj by simp
  let ?p = "join ''/'' [''.kkode'', ''checkpoints'', i @ ''.json'']"
  have p: "CheckpointDir @ ''/'' @ i @ ''.json'' = ?p" by (simp add: CheckpointDir_def)
  moreover have "\<not> is_abs (CheckpointDir @ s)" "CheckpointDir \<noteq> []" for s by (simp_all add: is_abs_def CheckpointDir_def)
  ultimately have "\<not> is_abs ?p" "CheckpointDir \<noteq> []" by metis+
  then have "path_clean ?p = ?p" using parts_join [OF p3] clean_parts_id [OF p3] by (simp add: path_clean_def Let_def del: join.simps)
  then have "path_join CheckpointDir (i @ ''.json'') = ?p" using p \<open>CheckpointDir \<noteq> []\<close> by (simp add: path_join_def del: join.simps)
  then show "checkpoint_file w i = Inr (abs_path (d @ [i @ ''.json'']))"
    using walk_rel_inside(2) [OF assms(1) _ _ assms(2), of "[''.kkode'', ''checkpoints'', i @ ''.json'']"] p3
    by (simp add: checkpoint_file_def d_def)
qed

definition checkpoint_place :: "workspace \<Rightarrow> string \<Rightarrow> fpath" where
  "checkpoint_place w i = root_parts w @ [''.kkode'', ''checkpoints'', i @ ''.json'']"

lemma save_checkpoint_done:
  assumes "ws_good w fs" and "root_parts w \<noteq> []" and "save_checkpoint cc w cp fs = (None, fs')"
  shows "fs_ok fs' \<and> safe_checkpoint_id (fc_id cp) \<and> read_file fs' (checkpoint_place w (fc_id cp)) = Inr (cc_encode cc cp)"
proof -
  have ok: "fs_ok fs" and a: "is_abs (ws_root w)" using assms(1) by (simp_all add: ws_good_def)
  have safe: "safe_checkpoint_id (fc_id cp)" using assms(3) by (auto simp: save_checkpoint_def split: if_splits)
  note p = checkpoint_path [OF a assms(2) safe]
  have pl: "list_all plain (root_parts w @ [''.kkode'', ''checkpoints''])" using p(4) by simp
  obtain fs1 where m: "mkdir_all fs (root_parts w @ [''.kkode'', ''checkpoints'']) 493 = (None, fs1)"
      and wr: "write_file fs1 (checkpoint_place w (fc_id cp)) (cc_encode cc cp) 420 = (None, fs')"
    using assms(3) safe p(1,2) parts_abs [OF pl] parts_abs [OF p(4)]
    by (auto simp: save_checkpoint_def checkpoint_place_def split: if_splits prod.splits option.splits)
  have ok1: "fs_ok fs1" by (rule mkdir_all_spec(1) [OF m ok])
  have ok2: "fs_ok fs'" by (rule write_file_ok [OF ok1 wr])
  from wr have "\<exists>m. node_at fs' (checkpoint_place w (fc_id cp)) = Some (FileE m (cc_encode cc cp))"
    by (cases rule: write_file_cases) (auto simp: node_at_put)
  then show ?thesis using ok2 safe read_file_node [OF ok2] by simp
qed

lemma load_checkpoint_done:
  assumes "is_abs (ws_root w)" and "root_parts w \<noteq> []" and "safe_checkpoint_id i"
    and "read_file fs (checkpoint_place w i) = Inr data" and "cc_decode cc data = Inr cp" and "load_checkpoint cc w i fs = Inr cp'"
  shows "cp' = cp"
proof -
  note p = checkpoint_path [OF assms(1-3)]
  have "path_parts (abs_path (checkpoint_place w i)) = checkpoint_place w i" using parts_abs [OF p(4)] by (simp add: checkpoint_place_def)
  then show ?thesis
    using assms(3-6) p(3) safe_id_trim [OF assms(3)]
    by (simp add: load_checkpoint_def checkpoint_place_def split: if_splits)
qed

lemma create_checkpoint_done:
  assumes "ws_good w fs" and "root_parts w \<noteq> []" and "plain_names fs" and "create_checkpoint cc w rels (fs, wd) = (Inr cp, fs1, wd1)"
  shows "safe_checkpoint_id (fc_id cp) \<and> read_file fs1 (checkpoint_place w (fc_id cp)) = Inr (cc_encode cc cp) \<and>
    list_all (recorded w fs) (fc_entries cp) \<and> (\<forall>rel\<in>set (unique_nonempty_paths rels).
      \<exists>cs. resolve w rel = Inr (abs_path cs) \<and> list_all plain cs \<and> (\<forall>q\<in>set (snapshot_places w fs cs). covers w (fc_entries cp) q))"
proof -
  have sn: "fst (snapshot_paths w rels (fs, wd)) = Inr cp" and sv: "save_checkpoint cc w cp fs = (None, fs1)"
    using assms(4) by (auto simp: create_checkpoint_def split: prod.splits sum.splits option.splits)
  obtain es where es: "snapshot_all w fs (unique_nonempty_paths rels) [] = Inr es" "set (fc_entries cp) = set es"
    using sn by (auto simp: snapshot_paths_def Let_def split: prod.splits sum.splits if_splits)
  have trim: "trim_space rel = rel" if "rel \<in> set (unique_nonempty_paths rels)" for rel
    using that by (auto simp: unique_nonempty_paths_def)
  have cov: "covers w (fc_entries cp) q \<longleftrightarrow> covers w es q" for q by (simp add: covers_def es(2))
  show ?thesis
    using snapshot_all_spec [OF assms(1-3) _ es(1)] save_checkpoint_done [OF assms(1,2) sv] trim
    by (simp add: list_all_iff es(2) cov)
qed

text \<open>
  C40: Restoring a checkpoint brings back what it was made of. Of every path the checkpoint was asked
  for, and of everything the walk recorded below it, a restore that succeeds later puts back a file with
  its content, a directory as a directory, and removes what was not there, whatever was done to the
  workspace in between, as long as the file of the checkpoint was left alone. The files of checkpoints are
  the exception, and nothing outside the root changes. The names recorded have no surrounding white space,
  and the JSON encoding of this checkpoint is read back.
\<close>

theorem checkpoint_restores:
  assumes "ws_good w fs" and "root_parts w \<noteq> []" and "plain_names fs"
    and "create_checkpoint cc w rels (fs, wd) = (Inr cp, fs1, wd1)"
    and "cc_decode cc (cc_encode cc cp) = Inr cp"
    and "list_all (\<lambda>e. trim_space (ce_path e) = ce_path e) (fc_entries cp)"
    and "ws_good w fs2" and "read_file fs2 (checkpoint_place w (fc_id cp)) = read_file fs1 (checkpoint_place w (fc_id cp))"
    and "restore_checkpoint cc w (fc_id cp) fs2 = (Inr cp', fs3)"
  shows "cp' = cp \<and> confined (root_parts w) fs2 fs3 \<and> (\<forall>rel\<in>set (unique_nonempty_paths rels).
    \<exists>cs. resolve w rel = Inr (abs_path cs) \<and> list_all plain cs \<and> (\<forall>q\<in>set (snapshot_places w fs cs).
      has_prefix (CheckpointDir @ ''/'') (walk_rel w q) \<or> brought_back fs fs3 q))"
proof -
  have ok: "fs_ok fs" and a: "is_abs (ws_root w)" using assms(1) by (simp_all add: ws_good_def)
  note c = create_checkpoint_done [OF assms(1-4)]
  have r: "load_checkpoint cc w (fc_id cp) fs2 = Inr cp'" "restore_entries w (fc_entries cp') fs2 = (None, fs3)"
    using assms(9) by (auto simp: restore_checkpoint_def split: sum.splits prod.splits option.splits)
  have safe: "safe_checkpoint_id (fc_id cp)" and data: "read_file fs2 (checkpoint_place w (fc_id cp)) = Inr (cc_encode cc cp)"
    using c assms(8) by simp_all
  have eq: "cp' = cp" by (rule load_checkpoint_done [OF a assms(2) safe data assms(5) r(1)])
  have rec: "list_all (recorded w fs) (fc_entries cp)" using c by simp
  then have "list_all (\<lambda>e. entry_holds w e fs) (fc_entries cp)"
    using recorded_holds [OF a assms(2)] assms(6) by (simp add: list_all_iff)
  note h = restore_entries_hold [OF assms(7) ok this r(2) [unfolded eq]]
  have ok3: "fs_ok fs3" and held: "list_all (\<lambda>e. entry_holds w e fs3) (fc_entries cp)" using h by (simp_all add: ws_good_def)
  note restored = covered_back [OF a assms(2) ok3 rec held assms(6)]
  have "\<exists>cs. resolve w rel = Inr (abs_path cs) \<and> list_all plain cs \<and> (\<forall>q\<in>set (snapshot_places w fs cs).
      has_prefix (CheckpointDir @ ''/'') (walk_rel w q) \<or> brought_back fs fs3 q)" if "rel \<in> set (unique_nonempty_paths rels)" for rel
    using c that restored by meson
  then show ?thesis using h eq by simp
qed

definition demo_paths :: "string list" where
  "demo_paths = ['' d'', ''new'']"

definition demo_checkpoint :: file_checkpoint where
  "demo_checkpoint = \<lparr>fc_version = 1, fc_id = ''ws_00010101T000000Z_30'', fc_created = 1001, fc_entries =
     [\<lparr>ce_path = ''d'', ce_exists = True, ce_kind = ''directory'', ce_mode = 493, ce_size = 0, ce_content = []\<rparr>,
      \<lparr>ce_path = ''d/b'', ce_exists = True, ce_kind = ''file'', ce_mode = 420, ce_size = 1, ce_content = ''eA==''\<rparr>,
      \<lparr>ce_path = ''new'', ce_exists = False, ce_kind = [], ce_mode = 0, ce_size = 0, ce_content = []\<rparr>]\<rparr>"

definition demo_codec :: cp_codec where
  "demo_codec = \<lparr>cc_encode = fc_id, cc_decode = (\<lambda>s. if s = fc_id demo_checkpoint then Inr demo_checkpoint else Inl s)\<rparr>"

definition demo_stored :: "(fpath \<times> fs_entry) list" where
  "demo_stored = [([''p'', ''.kkode''], DirE 493), ([''p'', ''.kkode'', ''checkpoints''], DirE 493),
     ([''p'', ''.kkode'', ''checkpoints'', ''ws_00010101T000000Z_30.json''], FileE 420 ''ws_00010101T000000Z_30'')]"

definition demo_saved :: fs where
  "demo_saved = demo_fs\<lparr>fs_nodes := fs_nodes demo_fs @ demo_stored\<rparr>"

definition demo_changed :: fs where
  "demo_changed = \<lparr>fs_umask = 18, fs_nodes = [([''p''], DirE 493), ([''p'', ''new''], DirE 493), ([''p'', ''new'', ''file''], FileE 420 ''y'')] @ demo_stored\<rparr>"

lemma demo_create:
  "\<exists>wd1. create_checkpoint demo_codec demo_ws demo_paths (demo_fs, demo_world) = (Inr demo_checkpoint, demo_saved, wd1)"
proof -
  have "(\<lambda>(r, s, _). (r, s)) (create_checkpoint demo_codec demo_ws demo_paths (demo_fs, demo_world)) = (Inr demo_checkpoint, demo_saved)"
    by code_simp
  then show ?thesis by (auto split: prod.splits)
qed

theorem checkpoint_restores_witness:
  "\<exists>fs'. restore_checkpoint demo_codec demo_ws (fc_id demo_checkpoint) demo_changed = (Inr demo_checkpoint, fs') \<and>
    node_at demo_changed [''p'', ''d''] = None \<and> read_file fs' [''p'', ''d'', ''b''] = Inr ''x'' \<and> node_at fs' [''p'', ''new''] = None"
proof -
  obtain wd1 where c: "create_checkpoint demo_codec demo_ws demo_paths (demo_fs, demo_world) = (Inr demo_checkpoint, demo_saved, wd1)"
    using demo_create by blast
  have "fst (restore_checkpoint demo_codec demo_ws (fc_id demo_checkpoint) demo_changed) = Inr demo_checkpoint" by code_simp
  then obtain fs' where r: "restore_checkpoint demo_codec demo_ws (fc_id demo_checkpoint) demo_changed = (Inr demo_checkpoint, fs')"
    by (metis prod.collapse)
  have h: "root_parts demo_ws \<noteq> []" "plain_names demo_fs"
    "list_all (\<lambda>e. trim_space (ce_path e) = ce_path e) (fc_entries demo_checkpoint)" "ws_good demo_ws demo_changed"
    "read_file demo_changed (checkpoint_place demo_ws (fc_id demo_checkpoint)) = read_file demo_saved (checkpoint_place demo_ws (fc_id demo_checkpoint))"
    by code_simp+
  have dec: "cc_decode demo_codec (cc_encode demo_codec demo_checkpoint) = Inr demo_checkpoint" by (simp add: demo_codec_def)
  have b: "brought_back demo_fs fs' q" if "rel \<in> set (unique_nonempty_paths demo_paths)" "resolve demo_ws rel = Inr (abs_path cs)"
      "list_all plain cs" "q \<in> set (snapshot_places demo_ws demo_fs cs)" "\<not> has_prefix (CheckpointDir @ ''/'') (walk_rel demo_ws q)"
    for rel cs q
    using checkpoint_restores [OF demo_ws_good h(1,2) c dec h(3,4,5) r] that abs_path_inject by fastforce
  have "brought_back demo_fs fs' [''p'', ''d'', ''b'']"
    by (rule b [where rel = "''d''" and cs = "[''p'', ''d'']"]; code_simp)
  moreover have "brought_back demo_fs fs' [''p'', ''new'']"
    by (rule b [where rel = "''new''" and cs = "[''p'', ''new'']"]; code_simp)
  moreover have "node_at demo_fs [''p'', ''d'', ''b''] = Some (FileE 420 ''x'')" "node_at demo_fs [''p'', ''new''] = None"
    "node_at demo_changed [''p'', ''d''] = None" by code_simp+
  ultimately show ?thesis using r by (simp add: brought_back_def)
qed

end
