(* ===== verification/Workspace_Tools.thy ===== *)
theory Workspace_Tools
  imports Workspace_Checkpoint Agent
begin

section \<open>Package workspace: the tools of a model\<close>

text \<open>
  \<open>Tools\<close> and \<open>RunDetailed\<close> of \<open>workspace/workspace.go\<close>: the thirteen tools over the operations of a
  workspace, as a registry of handlers whose world is the file system and the clock. What JSON decodes the
  arguments to, how results are printed as JSON, the texts of system errors, the pattern matchers of
  \<open>Workspace\<close> and the process a command starts are parameters, collected in the record \<open>ws_ports\<close>.
\<close>

subsection \<open>Running a command\<close>

text \<open>
  How a process ended: the error of \<open>cmd.Run\<close> and whether it is an \<open>exec.ExitError\<close>, the exit code when
  there is a process state, what was written to the two outputs, in pieces, and whether the deadline passed.
\<close>

record process_end =
  pe_error :: "go_error option"
  pe_exit_error :: bool
  pe_state :: "int option"
  pe_stdout :: "string list"
  pe_stderr :: "string list"
  pe_deadline :: bool

record command_options =
  co_timeout :: int
  co_env :: "(string \<times> string) list"

text \<open>The duration is kept in microseconds; the code divides by 1000 to a float.\<close>

record command_result =
  cr_command :: "string list"
  cr_cwd :: string
  cr_exit_code :: int
  cr_stdout :: string
  cr_stderr :: string
  cr_stdout_truncated :: bool
  cr_stderr_truncated :: bool
  cr_started :: gtime
  cr_ended :: gtime
  cr_duration_us :: int
  cr_timed_out :: bool

text \<open>An error of \<open>RunDetailed\<close>: its text, and whether an \<open>exec.ExitError\<close> is in its chain.\<close>

record run_error =
  rx_text :: go_error
  rx_exit :: bool

type_synonym process = "string list \<Rightarrow> string \<Rightarrow> string list \<Rightarrow> int \<Rightarrow> fs \<times> world \<Rightarrow> process_end \<times> fs \<times> world"

definition MaxCommandTimeout :: int where "MaxCommandTimeout = 300000000000"
definition MaxCommandOutputBytes :: int where "MaxCommandOutputBytes = 8388608"
definition MaxCommandStderrBytes :: int where "MaxCommandStderrBytes = 1048576"

definition empty_buffer :: "int \<Rightarrow> bounded_buffer" where
  "empty_buffer n = \<lparr>bb_data = [], bb_max = n, bb_truncated = False\<rparr>"

definition collect_output :: "int \<Rightarrow> string list \<Rightarrow> bounded_buffer" where
  "collect_output n chunks = fold (\<lambda>p b. snd (buffer_write p b)) chunks (empty_buffer n)"

definition no_result :: "workspace \<Rightarrow> string list \<Rightarrow> command_result" where
  "no_result w cmd = \<lparr>cr_command = cmd, cr_cwd = ws_root w, cr_exit_code = 0, cr_stdout = [], cr_stderr = [],
     cr_stdout_truncated = False, cr_stderr_truncated = False, cr_started = 0, cr_ended = 0, cr_duration_us = 0,
     cr_timed_out = False\<rparr>"

definition command_timeout :: "workspace \<Rightarrow> int \<Rightarrow> int" where
  "command_timeout w t =
     (let t1 = (if t \<le> 0 then ws_timeout w else t) in if t1 \<le> 0 then 30000000000 else t1)"

definition ended_result :: "command_result \<Rightarrow> process_end \<Rightarrow> gtime \<Rightarrow> gtime \<Rightarrow> command_result \<times> run_error option" where
  "ended_result r pe t0 t1 =
     (let out = collect_output MaxCommandOutputBytes (pe_stdout pe);
          errs = collect_output MaxCommandStderrBytes (pe_stderr pe);
          code = (case pe_state pe of Some c \<Rightarrow> c | None \<Rightarrow> if pe_error pe \<noteq> None then -1 else 0);
          result = r\<lparr>cr_exit_code := code, cr_stdout := buffer_string out, cr_stderr := buffer_string errs,
            cr_stdout_truncated := bb_truncated out, cr_stderr_truncated := bb_truncated errs,
            cr_started := t0, cr_ended := t1, cr_duration_us := (if t1 < t0 then - ((t0 - t1) div 1000) else (t1 - t0) div 1000), cr_timed_out := pe_deadline pe\<rparr>
      in (result, map_option (\<lambda>e. \<lparr>rx_text = e @ '': '' @ cr_stderr result, rx_exit = pe_exit_error pe\<rparr>) (pe_error pe)))"

definition run_detailed :: "process \<Rightarrow> string list \<Rightarrow> workspace \<Rightarrow> string \<Rightarrow> string list \<Rightarrow> command_options \<Rightarrow> fs \<times> world \<Rightarrow>
    (command_result \<times> run_error option) \<times> fs \<times> world" where
  "run_detailed proc environ w cmd args opts st =
     (let result = no_result w (cmd # args);
          stop = (\<lambda>e. ((result, Some \<lparr>rx_text = e, rx_exit = False\<rparr>), st))
      in if co_timeout opts < 0 then stop ''timeout_ms must be >= 0''
         else if MaxCommandTimeout < command_timeout w (co_timeout opts)
         then stop (''timeout_ms must be <= '' @ dec_int (MaxCommandTimeout div 1000000))
         else
           (let (t0, w1) = now (snd st);
                (pe, fs1, w2) = proc (cmd # args) (ws_root w) (environ @ map (\<lambda>(k, v). k @ ''='' @ v) (co_env opts))
                  (command_timeout w (co_timeout opts)) (fst st, w1);
                (t1, w3) = now w2
            in (ended_result result pe t0 t1, fs1, w3)))"

definition ws_run :: "process \<Rightarrow> string list \<Rightarrow> workspace \<Rightarrow> string \<Rightarrow> string list \<Rightarrow> fs \<times> world \<Rightarrow>
    (string \<times> run_error option) \<times> fs \<times> world" where
  "ws_run proc environ w cmd args st =
     (let ((res, e), st1) = run_detailed proc environ w cmd args \<lparr>co_timeout = 0, co_env = []\<rparr> st in ((cr_stdout res, e), st1))"

definition is_process_outcome :: "command_result \<Rightarrow> run_error option \<Rightarrow> bool" where
  "is_process_outcome r e = (case e of None \<Rightarrow> True | Some x \<Rightarrow> cr_timed_out r \<or> rx_exit x)"

subsection \<open>The inputs of the tools and the parameters\<close>

record read_in =
  rin_path :: string
  rin_offset_line :: int
  rin_limit_lines :: int

record write_in =
  win_path :: string
  win_content :: string

record delete_in =
  din_path :: string
  din_recursive :: bool

record move_in =
  min_source :: string
  min_destination :: string
  min_overwrite :: bool

record replace_in =
  pin_path :: string
  pin_old :: string
  pin_new :: string
  pin_expected :: int

record limited_in =
  lin_text :: string
  lin_limit :: int

record grep_in =
  gin_pattern :: string
  gin_options :: grep_options

record command_in =
  cin_command :: string
  cin_args :: "string list"
  cin_timeout_ms :: int

record ws_ports =
  wp_fmatch :: "string \<Rightarrow> string \<Rightarrow> bool"
  wp_lower :: "string \<Rightarrow> string"
  wp_compile :: "string \<Rightarrow> string + (string \<Rightarrow> bool)"
  wp_codec :: cp_codec
  wp_error :: "ws_error \<Rightarrow> go_error"
  wp_process :: process
  wp_environ :: "string list"
  wp_show_matches :: "search_match list \<Rightarrow> string"
  wp_show_prune :: "cp_prune_result \<Rightarrow> string"
  wp_show_command :: "command_result \<Rightarrow> string"

record ws_decoders =
  dec_read :: "raw \<Rightarrow> go_error + read_in"
  dec_write :: "raw \<Rightarrow> go_error + write_in"
  dec_delete :: "raw \<Rightarrow> go_error + delete_in"
  dec_move :: "raw \<Rightarrow> go_error + move_in"
  dec_replace :: "raw \<Rightarrow> go_error + replace_in"
  dec_patch :: "raw \<Rightarrow> go_error + string"
  dec_restore :: "raw \<Rightarrow> go_error + string"
  dec_prune :: "raw \<Rightarrow> go_error + int"
  dec_list :: "raw \<Rightarrow> go_error + limited_in"
  dec_glob :: "raw \<Rightarrow> go_error + limited_in"
  dec_grep :: "raw \<Rightarrow> go_error + grep_in"
  dec_search :: "raw \<Rightarrow> go_error + limited_in"
  dec_command :: "raw \<Rightarrow> go_error + command_in"

subsection \<open>The handlers\<close>

text \<open>The Korean beginnings of the answers, as bytes.\<close>

definition msg_wrote :: string where
  "msg_wrote =
     [CHR 0xED, CHR 0x8C, CHR 0x8C, CHR 0xEC, CHR 0x9D, CHR 0xBC, CHR 0xEC, CHR 0x9D, CHR 0x84] @ '' '' @
     [CHR 0xEC, CHR 0x8D, CHR 0xBC, CHR 0xEC, CHR 0x96, CHR 0xB4, CHR 0xEC, CHR 0x9A, CHR 0x94] @ '': ''"

definition msg_deleted :: string where
  "msg_deleted =
     [CHR 0xEA, CHR 0xB2, CHR 0xBD, CHR 0xEB, CHR 0xA1, CHR 0x9C, CHR 0xEB, CHR 0xA5, CHR 0xBC] @ '' '' @
     [CHR 0xEC, CHR 0x82, CHR 0xAD, CHR 0xEC, CHR 0xA0, CHR 0x9C, CHR 0xED, CHR 0x96, CHR 0x88, CHR 0xEC,
     CHR 0x96, CHR 0xB4, CHR 0xEC, CHR 0x9A, CHR 0x94] @ '': ''"

definition msg_moved :: string where
  "msg_moved =
     [CHR 0xEA, CHR 0xB2, CHR 0xBD, CHR 0xEB, CHR 0xA1, CHR 0x9C, CHR 0xEB, CHR 0xA5, CHR 0xBC] @ '' '' @
     [CHR 0xEC, CHR 0x9D, CHR 0xB4, CHR 0xEB, CHR 0x8F, CHR 0x99, CHR 0xED, CHR 0x96, CHR 0x88, CHR 0xEC,
     CHR 0x96, CHR 0xB4, CHR 0xEC, CHR 0x9A, CHR 0x94] @ '': ''"

definition msg_replaced :: string where
  "msg_replaced =
     [CHR 0xED, CHR 0x8C, CHR 0x8C, CHR 0xEC, CHR 0x9D, CHR 0xBC] @ '' '' @ [CHR 0xED, CHR 0x85, CHR 0x8D,
     CHR 0xEC, CHR 0x8A, CHR 0xA4, CHR 0xED, CHR 0x8A, CHR 0xB8, CHR 0xEB, CHR 0xA5, CHR 0xBC] @ '' '' @
     [CHR 0xEA, CHR 0xB5, CHR 0x90, CHR 0xEC, CHR 0xB2, CHR 0xB4, CHR 0xED, CHR 0x96, CHR 0x88, CHR 0xEC,
     CHR 0x96, CHR 0xB4, CHR 0xEC, CHR 0x9A, CHR 0x94] @ '': ''"

definition msg_patched :: string where
  "msg_patched =
     ''patch'' @ [CHR 0xEB, CHR 0xA5, CHR 0xBC] @ '' '' @ [CHR 0xEC, CHR 0xA0, CHR 0x81, CHR 0xEC, CHR 0x9A,
     CHR 0xA9, CHR 0xED, CHR 0x96, CHR 0x88, CHR 0xEC, CHR 0x96, CHR 0xB4, CHR 0xEC, CHR 0x9A, CHR 0x94]"

definition msg_restored :: string where
  "msg_restored =
     ''checkpoint'' @ [CHR 0xEB, CHR 0xA5, CHR 0xBC] @ '' '' @ [CHR 0xEB, CHR 0xB3, CHR 0xB5, CHR 0xEA,
     CHR 0xB5, CHR 0xAC, CHR 0xED, CHR 0x96, CHR 0x88, CHR 0xEC, CHR 0x96, CHR 0xB4, CHR 0xEC, CHR 0x9A,
     CHR 0x94] @ '': ''"

type_synonym 'i ws_handler = "'i \<Rightarrow> fs \<times> world \<Rightarrow> (string \<times> go_error option) or_panic \<times> fs \<times> world"

definition answer :: "ws_ports \<Rightarrow> ws_error + string \<Rightarrow> (string \<times> go_error option) or_panic" where
  "answer p r = Returns (case r of Inl e \<Rightarrow> ([], Some (wp_error p e)) | Inr s \<Rightarrow> (s, None))"

text \<open>
  The beginning the five changing tools share: a checkpoint of the paths first, then the change, and the
  checkpoint's id in the answer.
\<close>

definition checkpointed :: "ws_ports \<Rightarrow> workspace \<Rightarrow> string list \<Rightarrow> (fs \<Rightarrow> ws_error option \<times> fs) \<Rightarrow> string \<Rightarrow> fs \<times> world \<Rightarrow>
    (string \<times> go_error option) or_panic \<times> fs \<times> world" where
  "checkpointed p w paths change msg st =
     (case create_checkpoint (wp_codec p) w paths st of
        (Inl e, st1) \<Rightarrow> (answer p (Inl e), st1)
      | (Inr cp, fs1, w1) \<Rightarrow>
          (case change fs1 of
             (Some e, fs2) \<Rightarrow> (answer p (Inl e), fs2, w1)
           | (None, fs2) \<Rightarrow> (answer p (Inr (msg @ [CHR 0x0A] @ ''checkpoint_id: '' @ fc_id cp)), fs2, w1)))"

definition tool_read :: "ws_ports \<Rightarrow> workspace \<Rightarrow> read_in ws_handler" where
  "tool_read p w i st =
     (case read_file_range w (rin_path i) \<lparr>ro_offset_line = rin_offset_line i, ro_limit_lines = rin_limit_lines i\<rparr> (fst st) of
        Panics m \<Rightarrow> (Panics m, st)
      | Returns r \<Rightarrow> (answer p r, st))"

definition tool_write :: "ws_ports \<Rightarrow> workspace \<Rightarrow> write_in ws_handler" where
  "tool_write p w i = checkpointed p w [win_path i] (ws_write w (win_path i) (win_content i)) (msg_wrote @ win_path i)"

definition tool_delete :: "ws_ports \<Rightarrow> workspace \<Rightarrow> delete_in ws_handler" where
  "tool_delete p w i = checkpointed p w [din_path i] (delete_path w (din_path i) (din_recursive i)) (msg_deleted @ din_path i)"

definition tool_move :: "ws_ports \<Rightarrow> workspace \<Rightarrow> move_in ws_handler" where
  "tool_move p w i = checkpointed p w [min_source i, min_destination i]
     (move_path w (min_source i) (min_destination i) (min_overwrite i)) (msg_moved @ min_source i @ '' -> '' @ min_destination i)"

definition tool_replace :: "ws_ports \<Rightarrow> workspace \<Rightarrow> replace_in ws_handler" where
  "tool_replace p w i = checkpointed p w [pin_path i]
     (edit_file w (pin_path i) (pin_old i) (pin_new i) (pin_expected i)) (msg_replaced @ pin_path i)"

definition tool_patch :: "ws_ports \<Rightarrow> workspace \<Rightarrow> string ws_handler" where
  "tool_patch p w patch st =
     (case patch_paths patch of
        Inl e \<Rightarrow> (Returns ([], Some e), st)
      | Inr paths \<Rightarrow> checkpointed p w paths (apply_patch w patch) msg_patched st)"

definition tool_restore :: "ws_ports \<Rightarrow> workspace \<Rightarrow> string ws_handler" where
  "tool_restore p w i st =
     (let (r, fs1) = restore_checkpoint (wp_codec p) w i (fst st)
      in (answer p (map_sum id (\<lambda>cp. msg_restored @ fc_id cp @ '' ('' @ dec_nat (length (fc_entries cp)) @ '' entries)'') r),
          fs1, snd st))"

definition tool_prune :: "ws_ports \<Rightarrow> workspace \<Rightarrow> int ws_handler" where
  "tool_prune p w keep st =
     (let ((r, e), fs1) = prune_checkpoints (wp_codec p) w keep (fst st)
      in (answer p (case e of Some x \<Rightarrow> Inl x | None \<Rightarrow> Inr (wp_show_prune p r)), fs1, snd st))"

definition limited :: "ws_ports \<Rightarrow> ws_error + string list \<Rightarrow> int \<Rightarrow> int \<Rightarrow> (string \<times> go_error option) or_panic" where
  "limited p xs limit bound =
     (case xs of
        Inl e \<Rightarrow> answer p (Inl e)
      | Inr ys \<Rightarrow>
          (case limit_string_list ys limit bound ''limit'' of
             Inl e \<Rightarrow> Returns ([], Some e)
           | Inr (zs, truncated) \<Rightarrow> answer p (Inr (join_string_list zs truncated))))"

definition tool_list :: "ws_ports \<Rightarrow> workspace \<Rightarrow> limited_in ws_handler" where
  "tool_list p w i st = (limited p (list_entries w (lin_text i) (fst st)) (lin_limit i) (int MaxListEntries), st)"

definition tool_glob :: "ws_ports \<Rightarrow> workspace \<Rightarrow> limited_in ws_handler" where
  "tool_glob p w i st = (limited p (ws_glob (wp_fmatch p) w (lin_text i) (fst st)) (lin_limit i) (int MaxGlobMatches), st)"

definition tool_grep :: "ws_ports \<Rightarrow> workspace \<Rightarrow> grep_in ws_handler" where
  "tool_grep p w i st =
     (answer p (map_sum id (wp_show_matches p)
        (ws_grep (wp_fmatch p) (wp_lower p) (wp_compile p) w (gin_pattern i) (gin_options i) (fst st))), st)"

definition tool_search :: "ws_ports \<Rightarrow> workspace \<Rightarrow> limited_in ws_handler" where
  "tool_search p w i st =
     (limited p (ws_search (wp_fmatch p) (wp_lower p) (wp_compile p) w (lin_text i) (fst st)) (lin_limit i) MaxGrepMatches, st)"

text \<open>The milliseconds of the arguments are multiplied as a \<open>time.Duration\<close>, a 64-bit integer.\<close>

definition tool_command :: "ws_ports \<Rightarrow> workspace \<Rightarrow> command_in ws_handler" where
  "tool_command p w i st =
     (let ((res, e), st1) = run_detailed (wp_process p) (wp_environ p) w (cin_command i) (cin_args i)
        \<lparr>co_timeout = wrap64 (cin_timeout_ms i * 1000000), co_env = []\<rparr> st
      in (Returns (case e of
            Some x \<Rightarrow> if is_process_outcome res e then (wp_show_command p res, None) else ([], Some (rx_text x))
          | None \<Rightarrow> (wp_show_command p res, None)), st1))"

definition ws_handlers :: "ws_ports \<Rightarrow> ws_decoders \<Rightarrow> workspace \<Rightarrow> (fs \<times> world) tool_registry" where
  "ws_handlers p d w =
     [(''workspace_read_file'', Some (json_tool_handler (dec_read d) \<lparr>rin_path = [], rin_offset_line = 0, rin_limit_lines = 0\<rparr> (tool_read p w))),
      (''workspace_write_file'', Some (json_tool_handler (dec_write d) \<lparr>win_path = [], win_content = []\<rparr> (tool_write p w))),
      (''workspace_delete_path'', Some (json_tool_handler (dec_delete d) \<lparr>din_path = [], din_recursive = False\<rparr> (tool_delete p w))),
      (''workspace_move_path'', Some (json_tool_handler (dec_move d)
         \<lparr>min_source = [], min_destination = [], min_overwrite = False\<rparr> (tool_move p w))),
      (''workspace_replace_in_file'', Some (json_tool_handler (dec_replace d)
         \<lparr>pin_path = [], pin_old = [], pin_new = [], pin_expected = 0\<rparr> (tool_replace p w))),
      (''workspace_apply_patch'', Some (json_tool_handler (dec_patch d) [] (tool_patch p w))),
      (''workspace_restore_checkpoint'', Some (json_tool_handler (dec_restore d) [] (tool_restore p w))),
      (''workspace_prune_checkpoints'', Some (json_tool_handler (dec_prune d) 0 (tool_prune p w))),
      (''workspace_list'', Some (json_tool_handler (dec_list d) \<lparr>lin_text = [], lin_limit = 0\<rparr> (tool_list p w))),
      (''workspace_glob'', Some (json_tool_handler (dec_glob d) \<lparr>lin_text = [], lin_limit = 0\<rparr> (tool_glob p w))),
      (''workspace_grep'', Some (json_tool_handler (dec_grep d)
         \<lparr>gin_pattern = [], gin_options = \<lparr>go_regex = False, go_case = False, go_glob = [], go_max = 0, go_offset = 0\<rparr>\<rparr> (tool_grep p w))),
      (''workspace_search'', Some (json_tool_handler (dec_search d) \<lparr>lin_text = [], lin_limit = 0\<rparr> (tool_search p w))),
      (''workspace_run_command'', Some (json_tool_handler (dec_command d)
         \<lparr>cin_command = [], cin_args = [], cin_timeout_ms = 0\<rparr> (tool_command p w)))]"

subsection \<open>The definitions of the tools\<close>

definition string_schema :: jmap where
  "string_schema = [(''type'', JStr ''string'')]"

definition non_negative_integer_schema :: jmap where
  "non_negative_integer_schema = [(''type'', JStr ''integer''), (''minimum'', JInt 0)]"

definition boolean_schema :: jmap where
  "boolean_schema = [(''type'', JStr ''boolean'')]"

definition array_schema :: "jmap \<Rightarrow> jmap" where
  "array_schema items = [(''type'', JStr ''array''), (''items'', JObj items)]"

definition object_schema_required :: "(string \<times> jmap) list \<Rightarrow> string list \<Rightarrow> jmap" where
  "object_schema_required props names =
     [(''type'', JStr ''object''), (''properties'', JObj (map (\<lambda>(k, v). (k, JObj v)) props)),
      (''required'', JArr (map JStr names)), (''additionalProperties'', JBool False)]"

definition function_tool :: "string \<Rightarrow> jmap \<Rightarrow> string \<Rightarrow> tool" where
  "function_tool n schema describe = \<lparr>t_kind = ToolFunction, t_name = n, t_description = describe, t_parameters = Some schema,
     t_strict = Some True, t_grammar = None, t_provider_options = []\<rparr>"

definition workspace_read_file :: tool where
  "workspace_read_file = function_tool ''workspace_read_file''
     (object_schema_required
       [(''path'', string_schema), (''offset_line'', non_negative_integer_schema), (''limit_lines'', non_negative_integer_schema)] [''path''])
     (
      ''workspace '' @ [CHR 0xEC, CHR 0x95, CHR 0x88, CHR 0xEC, CHR 0x9D, CHR 0x98] @ '' '' @ [CHR 0xED,
      CHR 0x8C, CHR 0x8C, CHR 0xEC, CHR 0x9D, CHR 0xBC, CHR 0xEC, CHR 0x9D, CHR 0x84] @ '' '' @ [CHR 0xEC,
      CHR 0x9D, CHR 0xBD, CHR 0xEC, CHR 0x96, CHR 0xB4, CHR 0xEC, CHR 0x9A, CHR 0x94] @ ''. offset_line'' @
      [CHR 0xEA, CHR 0xB3, CHR 0xBC] @ '' limit_lines'' @ [CHR 0xEB, CHR 0xA1, CHR 0x9C] @ '' '' @ [CHR 0xEB,
      CHR 0xB2, CHR 0x94, CHR 0xEC, CHR 0x9C, CHR 0x84, CHR 0xEB, CHR 0xA5, CHR 0xBC] @ '' '' @ [CHR 0xEC,
      CHR 0xA4, CHR 0x84, CHR 0xEC, CHR 0x9D, CHR 0xBC] @ '' '' @ [CHR 0xEC, CHR 0x88, CHR 0x98] @ '' '' @
      [CHR 0xEC, CHR 0x9E, CHR 0x88, CHR 0xEC, CHR 0x96, CHR 0xB4, CHR 0xEC, CHR 0x9A, CHR 0x94])"

definition workspace_write_file :: tool where
  "workspace_write_file = function_tool ''workspace_write_file''
     (object_schema_required
       [(''path'', string_schema), (''content'', string_schema)] [''path'', ''content''])
     (
      ''workspace '' @ [CHR 0xEC, CHR 0x95, CHR 0x88, CHR 0xEC, CHR 0x9D, CHR 0x98] @ '' '' @ [CHR 0xED,
      CHR 0x8C, CHR 0x8C, CHR 0xEC, CHR 0x9D, CHR 0xBC, CHR 0xEC, CHR 0x9D, CHR 0x84] @ '' '' @ [CHR 0xEC,
      CHR 0x8D, CHR 0xA8, CHR 0xEC, CHR 0x9A, CHR 0x94])"

definition workspace_delete_path :: tool where
  "workspace_delete_path = function_tool ''workspace_delete_path''
     (object_schema_required
       [(''path'', string_schema), (''recursive'', boolean_schema)] [''path''])
     (
      ''workspace '' @ [CHR 0xEC, CHR 0x95, CHR 0x88, CHR 0xEC, CHR 0x9D, CHR 0x98] @ '' '' @ [CHR 0xED,
      CHR 0x8C, CHR 0x8C, CHR 0xEC, CHR 0x9D, CHR 0xBC, CHR 0xEC, CHR 0x9D, CHR 0xB4, CHR 0xEB, CHR 0x82,
      CHR 0x98] @ '' '' @ [CHR 0xEB, CHR 0x94, CHR 0x94, CHR 0xEB, CHR 0xA0, CHR 0x89, CHR 0xED, CHR 0x84,
      CHR 0xB0, CHR 0xEB, CHR 0xA6, CHR 0xAC, CHR 0xEB, CHR 0xA5, CHR 0xBC] @ '' '' @ [CHR 0xEC, CHR 0x82,
      CHR 0xAD, CHR 0xEC, CHR 0xA0, CHR 0x9C, CHR 0xED, CHR 0x95, CHR 0xB4, CHR 0xEC, CHR 0x9A, CHR 0x94])"

definition workspace_move_path :: tool where
  "workspace_move_path = function_tool ''workspace_move_path''
     (object_schema_required
       [(''source'', string_schema), (''destination'', string_schema), (''overwrite'', boolean_schema)] [''source'', ''destination''])
     (
      ''workspace '' @ [CHR 0xEC, CHR 0x95, CHR 0x88, CHR 0xEC, CHR 0x9D, CHR 0x98] @ '' '' @ [CHR 0xED,
      CHR 0x8C, CHR 0x8C, CHR 0xEC, CHR 0x9D, CHR 0xBC, CHR 0xEC, CHR 0x9D, CHR 0xB4, CHR 0xEB, CHR 0x82,
      CHR 0x98] @ '' '' @ [CHR 0xEB, CHR 0x94, CHR 0x94, CHR 0xEB, CHR 0xA0, CHR 0x89, CHR 0xED, CHR 0x84,
      CHR 0xB0, CHR 0xEB, CHR 0xA6, CHR 0xAC, CHR 0xEB, CHR 0xA5, CHR 0xBC] @ '' '' @ [CHR 0xEC, CHR 0x9D,
      CHR 0xB4, CHR 0xEB, CHR 0x8F, CHR 0x99, CHR 0xED, CHR 0x95, CHR 0x98, CHR 0xEA, CHR 0xB1, CHR 0xB0,
      CHR 0xEB, CHR 0x82, CHR 0x98] @ '' '' @ [CHR 0xEC, CHR 0x9D, CHR 0xB4, CHR 0xEB, CHR 0xA6, CHR 0x84,
      CHR 0xEC, CHR 0x9D, CHR 0x84] @ '' '' @ [CHR 0xEB, CHR 0xB0, CHR 0x94, CHR 0xEA, CHR 0xBF, CHR 0x94,
      CHR 0xEC, CHR 0x9A, CHR 0x94])"

definition workspace_replace_in_file :: tool where
  "workspace_replace_in_file = function_tool ''workspace_replace_in_file''
     (object_schema_required
       [(''path'', string_schema), (''old'', string_schema), (''new'', string_schema), (''expected_replacements'', non_negative_integer_schema)] [''path'', ''old'', ''new''])
     (
      [CHR 0xED, CHR 0x8C, CHR 0x8C, CHR 0xEC, CHR 0x9D, CHR 0xBC] @ '' '' @ [CHR 0xEC, CHR 0x95, CHR 0x88,
      CHR 0xEC, CHR 0x9D, CHR 0x98] @ '' '' @ [CHR 0xED, CHR 0x85, CHR 0x8D, CHR 0xEC, CHR 0x8A, CHR 0xA4,
      CHR 0xED, CHR 0x8A, CHR 0xB8, CHR 0xEB, CHR 0xA5, CHR 0xBC] @ '' '' @ [CHR 0xEA, CHR 0xB5, CHR 0x90,
      CHR 0xEC, CHR 0xB2, CHR 0xB4, CHR 0xED, CHR 0x95, CHR 0xB4, CHR 0xEC, CHR 0x9A, CHR 0x94])"

definition workspace_apply_patch :: tool where
  "workspace_apply_patch = function_tool ''workspace_apply_patch''
     (object_schema_required
       [(''patch_text'', string_schema)] [''patch_text''])
     (
      ''apply_patch '' @ [CHR 0xED, CHR 0x98, CHR 0x95, CHR 0xEC, CHR 0x8B, CHR 0x9D, CHR 0xEC, CHR 0x9D,
      CHR 0x98] @ '' patch'' @ [CHR 0xEB, CHR 0xA5, CHR 0xBC] @ '' '' @ [CHR 0xEC, CHR 0xA0, CHR 0x81, CHR 0xEC,
      CHR 0x9A, CHR 0xA9, CHR 0xED, CHR 0x95, CHR 0xB4, CHR 0xEC, CHR 0x9A, CHR 0x94])"

definition workspace_restore_checkpoint :: tool where
  "workspace_restore_checkpoint = function_tool ''workspace_restore_checkpoint''
     (object_schema_required
       [(''checkpoint_id'', string_schema)] [''checkpoint_id''])
     (
      ''workspace file checkpoint'' @ [CHR 0xEB, CHR 0xA5, CHR 0xBC] @ '' '' @ [CHR 0xEB, CHR 0xB3, CHR 0xB5,
      CHR 0xEA, CHR 0xB5, CHR 0xAC, CHR 0xED, CHR 0x95, CHR 0xB4, CHR 0xEC, CHR 0x9A, CHR 0x94])"

definition workspace_prune_checkpoints :: tool where
  "workspace_prune_checkpoints = function_tool ''workspace_prune_checkpoints''
     (object_schema_required
       [(''keep_latest'', non_negative_integer_schema)] [''keep_latest''])
     (
      [CHR 0xEC, CHR 0xB5, CHR 0x9C, CHR 0xEC, CHR 0x8B, CHR 0xA0] @ '' workspace file checkpoint'' @ [CHR 0xEB,
      CHR 0xA7, CHR 0x8C] @ '' '' @ [CHR 0xEB, CHR 0x82, CHR 0xA8, CHR 0xEA, CHR 0xB8, CHR 0xB0, CHR 0xEA,
      CHR 0xB3, CHR 0xA0] @ '' '' @ [CHR 0xEC, CHR 0x98, CHR 0xA4, CHR 0xEB, CHR 0x9E, CHR 0x98, CHR 0xEB,
      CHR 0x90, CHR 0x9C] @ '' snapshot'' @ [CHR 0xEC, CHR 0x9D, CHR 0x84] @ '' '' @ [CHR 0xEC, CHR 0x82,
      CHR 0xAD, CHR 0xEC, CHR 0xA0, CHR 0x9C, CHR 0xED, CHR 0x95, CHR 0xB4, CHR 0xEC, CHR 0x9A, CHR 0x94])"

definition workspace_list :: tool where
  "workspace_list = function_tool ''workspace_list''
     (object_schema_required
       [(''path'', string_schema), (''limit'', non_negative_integer_schema)] [''path''])
     (
      ''workspace '' @ [CHR 0xEC, CHR 0x95, CHR 0x88, CHR 0xEC, CHR 0x9D, CHR 0x98] @ '' '' @ [CHR 0xEB,
      CHR 0x94, CHR 0x94, CHR 0xEB, CHR 0xA0, CHR 0x89, CHR 0xED, CHR 0x84, CHR 0xB0, CHR 0xEB, CHR 0xA6,
      CHR 0xAC, CHR 0xEB, CHR 0xA5, CHR 0xBC] @ '' '' @ [CHR 0xEB, CHR 0x82, CHR 0x98, CHR 0xEC, CHR 0x97,
      CHR 0xB4, CHR 0xED, CHR 0x95, CHR 0xB4, CHR 0xEC, CHR 0x9A, CHR 0x94])"

definition workspace_glob :: tool where
  "workspace_glob = function_tool ''workspace_glob''
     (object_schema_required
       [(''pattern'', string_schema), (''limit'', non_negative_integer_schema)] [''pattern''])
     (
      ''workspace '' @ [CHR 0xED, CHR 0x8C, CHR 0x8C, CHR 0xEC, CHR 0x9D, CHR 0xBC] @ '' '' @ [CHR 0xEA,
      CHR 0xB2, CHR 0xBD, CHR 0xEB, CHR 0xA1, CHR 0x9C, CHR 0xEB, CHR 0xA5, CHR 0xBC] @ '' glob '' @ [CHR 0xED,
      CHR 0x8C, CHR 0xA8, CHR 0xED, CHR 0x84, CHR 0xB4, CHR 0xEC, CHR 0x9C, CHR 0xBC, CHR 0xEB, CHR 0xA1,
      CHR 0x9C] @ '' '' @ [CHR 0xEC, CHR 0xB0, CHR 0xBE, CHR 0xEC, CHR 0x96, CHR 0xB4, CHR 0xEC, CHR 0x9A,
      CHR 0x94])"

definition workspace_grep :: tool where
  "workspace_grep = function_tool ''workspace_grep''
     (object_schema_required
       [(''pattern'', string_schema), (''path_glob'', string_schema), (''regex'', boolean_schema), (''case_sensitive'', boolean_schema), (''max_matches'', non_negative_integer_schema), (''offset'', non_negative_integer_schema)] [''pattern''])
     (
      ''workspace '' @ [CHR 0xED, CHR 0x8C, CHR 0x8C, CHR 0xEC, CHR 0x9D, CHR 0xBC, CHR 0xEB, CHR 0x93,
      CHR 0xA4, CHR 0xEC, CHR 0x97, CHR 0x90, CHR 0xEC, CHR 0x84, CHR 0x9C] @ '' '' @ [CHR 0xEB, CHR 0xAC,
      CHR 0xB8, CHR 0xEC, CHR 0x9E, CHR 0x90, CHR 0xEC, CHR 0x97, CHR 0xB4] @ '' '' @ [CHR 0xEB, CHR 0x98,
      CHR 0x90, CHR 0xEB, CHR 0x8A, CHR 0x94] @ '' regex'' @ [CHR 0xEB, CHR 0xA5, CHR 0xBC] @ '' '' @ [CHR 0xEA,
      CHR 0xB2, CHR 0x80, CHR 0xEC, CHR 0x83, CHR 0x89, CHR 0xED, CHR 0x95, CHR 0xB4, CHR 0xEC, CHR 0x9A,
      CHR 0x94])"

definition workspace_search :: tool where
  "workspace_search = function_tool ''workspace_search''
     (object_schema_required
       [(''needle'', string_schema), (''limit'', non_negative_integer_schema)] [''needle''])
     (
      ''workspace '' @ [CHR 0xED, CHR 0x8C, CHR 0x8C, CHR 0xEC, CHR 0x9D, CHR 0xBC, CHR 0xEB, CHR 0x93,
      CHR 0xA4, CHR 0xEC, CHR 0x97, CHR 0x90, CHR 0xEC, CHR 0x84, CHR 0x9C] @ '' literal '' @ [CHR 0xEB,
      CHR 0xAC, CHR 0xB8, CHR 0xEC, CHR 0x9E, CHR 0x90, CHR 0xEC, CHR 0x97, CHR 0xB4, CHR 0xEC, CHR 0x9D,
      CHR 0x84] @ '' '' @ [CHR 0xEA, CHR 0xB2, CHR 0x80, CHR 0xEC, CHR 0x83, CHR 0x89, CHR 0xED, CHR 0x95,
      CHR 0x98, CHR 0xEA, CHR 0xB3, CHR 0xA0] @ '' '' @ [CHR 0xED, CHR 0x8C, CHR 0x8C, CHR 0xEC, CHR 0x9D,
      CHR 0xBC] @ '' '' @ [CHR 0xEA, CHR 0xB2, CHR 0xBD, CHR 0xEB, CHR 0xA1, CHR 0x9C, CHR 0xEB, CHR 0xA7,
      CHR 0x8C] @ '' '' @ [CHR 0xEB, CHR 0x8F, CHR 0x8C, CHR 0xEB, CHR 0xA0, CHR 0xA4, CHR 0xEC, CHR 0xA4,
      CHR 0x98, CHR 0xEC, CHR 0x9A, CHR 0x94])"

definition workspace_run_command :: tool where
  "workspace_run_command = function_tool ''workspace_run_command''
     (object_schema_required
       [(''command'', string_schema), (''args'', array_schema string_schema), (''timeout_ms'', non_negative_integer_schema)] [''command''])
     (
      ''workspace'' @ [CHR 0xEC, CHR 0x97, CHR 0x90, CHR 0xEC, CHR 0x84, CHR 0x9C] @ '' '' @ [CHR 0xEB,
      CHR 0xAA, CHR 0x85, CHR 0xEB, CHR 0xA0, CHR 0xB9, CHR 0xEC, CHR 0x9D, CHR 0x84] @ '' '' @ [CHR 0xEC,
      CHR 0x8B, CHR 0xA4, CHR 0xED, CHR 0x96, CHR 0x89, CHR 0xED, CHR 0x95, CHR 0x98, CHR 0xEA, CHR 0xB3,
      CHR 0xA0] @ '' '' @ [CHR 0xEA, CHR 0xB5, CHR 0xAC, CHR 0xEC, CHR 0xA1, CHR 0xB0, CHR 0xED, CHR 0x99,
      CHR 0x94] @ '' '' @ [CHR 0xEA, CHR 0xB2, CHR 0xB0, CHR 0xEA, CHR 0xB3, CHR 0xBC, CHR 0xEB, CHR 0xA5,
      CHR 0xBC] @ '' '' @ [CHR 0xEB, CHR 0x8F, CHR 0x8C, CHR 0xEB, CHR 0xA0, CHR 0xA4, CHR 0xEC, CHR 0xA4,
      CHR 0x98, CHR 0xEC, CHR 0x9A, CHR 0x94])"

definition workspace_defs :: "tool list" where
  "workspace_defs =
     [workspace_read_file, workspace_write_file, workspace_delete_path,
      workspace_move_path, workspace_replace_in_file, workspace_apply_patch,
      workspace_restore_checkpoint, workspace_prune_checkpoints, workspace_list,
      workspace_glob, workspace_grep, workspace_search,
      workspace_run_command]"

subsection \<open>No tool leaves the root\<close>

lemma confined_good: "ws_good w fs \<Longrightarrow> confined (root_parts w) fs fs' \<Longrightarrow> ws_good w fs'"
  by (simp add: ws_good_def confined_def)

lemma remove_path_confined:
  assumes "fs_ok fs" and "is_dir_at fs rs" and "strict_prefix rs p" and "remove_path fs p = (e, fs')"
  shows "confined rs fs fs'"
  using assms(4)
  by (cases rule: remove_path_cases) (simp_all add: drop_confined [OF assms(1-3)] confined_refl [OF assms(1,2)])

lemma strict_append: "xs \<noteq> [] \<Longrightarrow> strict_prefix rs (rs @ xs)"
  by (simp add: strict_prefix_def)

lemma save_checkpoint_confined:
  assumes "ws_good w fs" and "root_parts w \<noteq> []" and "save_checkpoint cc w cp fs = (e, fs')"
  shows "confined (root_parts w) fs fs'"
proof (cases "safe_checkpoint_id (fc_id cp)")
  case True
  have g: "fs_ok fs" "is_abs (ws_root w)" "is_dir_at fs (root_parts w)" using assms(1) by (simp_all add: ws_good_def)
  note p = checkpoint_path [OF g(2) assms(2) True]
  let ?d = "root_parts w @ [''.kkode'', ''checkpoints'']"
  have pl: "list_all plain ?d" using p(4) by simp
  have ne: "fc_id cp \<noteq> []" using True by (auto simp: safe_checkpoint_id_def)
  obtain e1 fs1 where m: "mkdir_all fs ?d 493 = (e1, fs1)" by fastforce
  have c1: "confined (root_parts w) fs fs1" by (rule mkdir_confined [OF g(1,3) _ m]) simp
  show ?thesis
  proof (cases e1)
    case None
    obtain e2 fs2 where wr: "write_file fs1 (?d @ [fc_id cp @ ''.json'']) (cc_encode cc cp) 420 = (e2, fs2)" by fastforce
    have "fs' = fs2"
      using assms(3) True ne p(1,2) parts_abs [OF pl] parts_abs [OF p(4)] m None wr by (simp add: save_checkpoint_def)
    moreover have "confined (root_parts w) fs1 fs2"
      by (rule write_file_confined [OF _ _ _ wr]) (use c1 in \<open>auto simp: confined_def\<close>)
    ultimately show ?thesis using confined_trans [OF c1] by simp
  next
    case (Some x)
    then have "fs' = fs1" using assms(3) True ne p(1) parts_abs [OF pl] m by (simp add: save_checkpoint_def)
    then show ?thesis using c1 by simp
  qed
next
  case False
  then have "fs' = fs" using assms(3) by (auto simp: save_checkpoint_def split: if_splits)
  then show ?thesis using assms(1) by (simp add: ws_good_def confined_refl)
qed

lemma create_checkpoint_confined:
  assumes "ws_good w fs" and "root_parts w \<noteq> []" and "create_checkpoint cc w rels (fs, wd) = (r, fs1, wd1)"
  shows "confined (root_parts w) fs fs1"
proof -
  have "fs1 = fs \<or> (\<exists>cp e. save_checkpoint cc w cp fs = (e, fs1))"
    using assms(3) by (auto simp: create_checkpoint_def split: prod.splits sum.splits option.splits)
  then show ?thesis using save_checkpoint_confined [OF assms(1,2)] assms(1) by (auto simp: ws_good_def confined_refl)
qed

lemma restore_entry_confined:
  assumes "ws_good w fs" and "restore_entry w e fs = (x, fs')"
  shows "confined (root_parts w) fs fs'"
proof -
  have g: "fs_ok fs" "is_abs (ws_root w)" "is_dir_at fs (root_parts w)" using assms(1) by (simp_all add: ws_good_def)
  note r = confined_refl [OF g(1,3)]
  show ?thesis
  proof (cases "fs' = fs")
    case False
    then obtain path where p: "resolve w (trim_space (ce_path e)) = Inr path" "path_clean path \<noteq> path_clean (ws_root w)"
      using assms(2) by (auto simp: restore_entry_def Let_def split: sum.splits if_splits)
    obtain cs where cs: "list_all plain cs" "path = abs_path cs" "path_parts path = cs" "prefix (root_parts w) cs"
      using resolve_inside [OF g(2) p(1)] by metis
    have sp: "strict_prefix (root_parts w) cs"
      using p(2) cs root_path [OF g(2) cs(1)] by (auto simp: strict_prefix_def)
    have "(\<exists>y. remove_if_exists fs cs = (y, fs')) \<or> (\<exists>y m. mkdir_all fs cs m = (y, fs')) \<or>
        (\<exists>y c m. write_under fs (abs_path cs) c m = (y, fs'))"
      using assms(2) p False cs(2,3) by (auto simp: restore_entry_def Let_def split: if_splits prod.splits option.splits)
    moreover have "confined (root_parts w) fs fs'" if "remove_if_exists fs cs = (y, fs')" for y
      using that r remove_all_confined [OF g(1,3) sp] by (auto simp: remove_if_exists_def split: sum.splits)
    moreover have "confined (root_parts w) fs fs'" if "mkdir_all fs cs m = (y, fs')" for y m
      using mkdir_confined [OF g(1,3) _ that] cs(4) by blast
    moreover have "confined (root_parts w) fs fs'" if "write_under fs (abs_path cs) c m = (y, fs')" for y c m
      by (rule write_under_confined [OF g(1,3) cs(1,4) that])
    ultimately show ?thesis by blast
  qed (simp add: r)
qed

lemma restore_entries_confined:
  "ws_good w fs \<Longrightarrow> restore_entries w es fs = (x, fs') \<Longrightarrow> confined (root_parts w) fs fs'"
proof (induction es arbitrary: fs)
  case Nil
  then show ?case by (simp add: ws_good_def confined_refl)
next
  case (Cons e es)
  obtain y fs1 where s: "restore_entry w e fs = (y, fs1)" by fastforce
  note c = restore_entry_confined [OF Cons.prems(1) s]
  show ?case
  proof (cases y)
    case None
    then have "restore_entries w es fs1 = (x, fs')" using Cons.prems(2) s by simp
    then show ?thesis using Cons.IH [OF confined_good [OF Cons.prems(1) c]] confined_trans [OF c] by blast
  next
    case (Some z)
    then show ?thesis using Cons.prems(2) s c by simp
  qed
qed

lemma restore_checkpoint_confined:
  "ws_good w fs \<Longrightarrow> restore_checkpoint cc w i fs = (r, fs') \<Longrightarrow> confined (root_parts w) fs fs'"
  using restore_entries_confined [of w fs] confined_refl
  by (fastforce simp: restore_checkpoint_def ws_good_def split: sum.splits prod.splits option.splits)

lemma delete_checkpoint_confined:
  assumes "ws_good w fs" and "root_parts w \<noteq> []" and "delete_checkpoint w i fs = (e, fs')"
  shows "confined (root_parts w) fs fs'"
proof (cases "safe_checkpoint_id (trim_space i)")
  case True
  have g: "fs_ok fs" "is_abs (ws_root w)" "is_dir_at fs (root_parts w)" using assms(1) by (simp_all add: ws_good_def)
  note p = checkpoint_path [OF g(2) assms(2) True]
  have "\<exists>x. remove_path fs (root_parts w @ [''.kkode'', ''checkpoints'', trim_space i @ ''.json'']) = (x, fs')"
    using assms(3) True p(3) parts_abs [OF p(4)] by (auto simp: delete_checkpoint_def Let_def split: prod.splits)
  then show ?thesis using remove_path_confined [OF g(1,3)] strict_append by blast
next
  case False
  then have "fs' = fs" using assms(3) by (simp add: delete_checkpoint_def)
  then show ?thesis using assms(1) by (simp add: ws_good_def confined_refl)
qed

lemma delete_checkpoints_confined:
  "ws_good w fs \<Longrightarrow> root_parts w \<noteq> [] \<Longrightarrow> delete_checkpoints w ss out fs = (r, fs') \<Longrightarrow> confined (root_parts w) fs fs'"
proof (induction ss arbitrary: fs out)
  case Nil
  then show ?case by (simp add: ws_good_def confined_refl)
next
  case (Cons s ss)
  obtain e fs1 where d: "delete_checkpoint w (cs_id s) fs = (e, fs1)" by fastforce
  note c = delete_checkpoint_confined [OF Cons.prems(1,2) d]
  show ?case
  proof (cases e)
    case None
    then have "delete_checkpoints w ss (out @ [s]) fs1 = (r, fs')" using Cons.prems(3) d by simp
    then show ?thesis using Cons.IH [OF confined_good [OF Cons.prems(1) c] Cons.prems(2)] confined_trans [OF c] by blast
  next
    case (Some z)
    then show ?thesis using Cons.prems(3) d c by simp
  qed
qed

lemma prune_checkpoints_confined:
  assumes "ws_good w fs" and "root_parts w \<noteq> []" and "prune_checkpoints cc w keep fs = (r, fs')"
  shows "confined (root_parts w) fs fs'"
proof -
  have "fs' = fs \<or> (\<exists>ss r'. delete_checkpoints w ss [] fs = (r', fs'))"
    using assms(3) by (auto simp: prune_checkpoints_def Let_def split: sum.splits prod.splits if_splits)
  then show ?thesis using delete_checkpoints_confined [OF assms(1,2)] assms(1) by (auto simp: ws_good_def confined_refl)
qed

text \<open>A patch the checkpoint came through for does not name the root.\<close>

lemma parse_ops_trimmed:
  "parse_ops ls ops = Inr out \<Longrightarrow> list_all (\<lambda>op. trim_space (po_path op) = po_path op) ops \<Longrightarrow>
   list_all (\<lambda>op. trim_space (po_path op) = po_path op) out"
  by (induction ls ops rule: parse_ops.induct) (auto simp: Let_def split: if_splits)

lemma snapshot_all_not_root:
  "snapshot_all w fs rels es = Inr es' \<Longrightarrow> rel \<in> set rels \<Longrightarrow>
   \<exists>path. resolve w (trim_space rel) = Inr path \<and> path_clean path \<noteq> path_clean (ws_root w)"
proof (induction rels arbitrary: es)
  case (Cons r rels)
  obtain mid where m: "snapshot_path w fs r es = Inr mid" "snapshot_all w fs rels mid = Inr es'"
    using Cons.prems(1) by (auto split: sum.splits)
  have "\<exists>path. resolve w (trim_space r) = Inr path \<and> path_clean path \<noteq> path_clean (ws_root w)"
    using m(1) by (auto simp: snapshot_path_def Let_def split: sum.splits if_splits)
  then show ?case using Cons.IH [OF m(2)] Cons.prems(2) by auto
qed simp

lemma checkpointed_keeps_root:
  assumes "is_abs (ws_root w)" and "patch_paths patch = Inr paths" and "create_checkpoint cc w paths (fs, wd) = (Inr cp, st)"
  shows "keeps_root w patch"
proof -
  obtain ops where ops: "parse_patch patch = Inr ops" "set paths = po_path ` set ops"
    using assms(2) by (auto simp: patch_paths_def split: option.splits sum.splits) (cases "parse_patch patch"; auto)+
  have trimmed: "list_all (\<lambda>op. trim_space (po_path op) = po_path op) ops"
    using ops(1) parse_ops_trimmed [of _ "[]" ops] by (auto simp: parse_patch_def split: sum.splits if_splits)
  have "fst (snapshot_paths w paths (fs, wd)) = Inr cp"
    using assms(3) by (auto simp: create_checkpoint_def split: prod.splits sum.splits option.splits)
  then obtain es where es: "snapshot_all w fs (unique_nonempty_paths paths) [] = Inr es"
    by (auto simp: snapshot_paths_def Let_def split: prod.splits sum.splits if_splits)
  have idem: "path_clean (path_clean (ws_root w)) = path_clean (ws_root w)" by (rule path_clean_idem [OF assms(1)])
  have "resolve w (po_path op) \<noteq> Inr (path_clean (ws_root w))" if op: "op \<in> set ops" for op
  proof (cases "po_path op = []")
    case False
    have "trim_space (po_path op) = po_path op" using trimmed op by (simp add: list_all_iff)
    then have "po_path op \<in> set (unique_nonempty_paths paths)"
      using False op ops(2) by (force simp: unique_nonempty_paths_def)
    then show ?thesis using snapshot_all_not_root [OF es] idem \<open>trim_space (po_path op) = po_path op\<close> by fastforce
  qed (simp add: resolve_def)
  then show ?thesis using ops(1) by (simp add: keeps_root_def list_all_iff)
qed

text \<open>The state a tool leaves, from the state it found.\<close>

definition keeps_outside :: "workspace \<Rightarrow> fs \<Rightarrow> fs \<times> world \<Rightarrow> bool" where
  "keeps_outside w fs st \<longleftrightarrow> confined (root_parts w) fs (fst st)"

lemma keeps_outside_step:
  assumes "ws_good w fs" and "keeps_outside w fs st" and "ws_good w (fst st) \<Longrightarrow> confined (root_parts w) (fst st) (fst st')"
  shows "keeps_outside w fs st'"
  using assms confined_good confined_trans unfolding keeps_outside_def by blast

lemma checkpointed_keeps:
  assumes "ws_good w fs" and "root_parts w \<noteq> []" and "keeps_outside w fs st"
    and "\<And>cp st1 fs1 e fs2. ws_good w fs1 \<Longrightarrow> create_checkpoint (wp_codec p) w paths st = (Inr cp, st1) \<Longrightarrow>
      change fs1 = (e, fs2) \<Longrightarrow> confined (root_parts w) fs1 fs2"
  shows "keeps_outside w fs (snd (checkpointed p w paths change msg st))"
proof (rule keeps_outside_step [OF assms(1,3)])
  assume g: "ws_good w (fst st)"
  obtain r fs1 w1 where c: "create_checkpoint (wp_codec p) w paths st = (r, fs1, w1)" by (cases "create_checkpoint (wp_codec p) w paths st")
  then have c1: "confined (root_parts w) (fst st) fs1"
    using create_checkpoint_confined [OF g assms(2)] by (metis prod.collapse)
  show "confined (root_parts w) (fst st) (fst (snd (checkpointed p w paths change msg st)))"
  proof (cases r)
    case (Inl e)
    then show ?thesis using c c1 by (simp add: checkpointed_def)
  next
    case (Inr cp)
    obtain e fs2 where ch: "change fs1 = (e, fs2)" by fastforce
    have "confined (root_parts w) fs1 fs2" using assms(4) [OF confined_good [OF g c1] _ ch] c Inr by blast
    then show ?thesis using c c1 ch Inr confined_trans by (cases e) (simp_all add: checkpointed_def)
  qed
qed

lemma json_handler_keeps: "P w \<Longrightarrow> (\<And>i. P (snd (fn i w))) \<Longrightarrow> P (snd (json_tool_handler dec zero fn call w))"
  by (auto simp: json_tool_handler_def split: sum.splits prod.splits option.splits or_panic.splits) (metis snd_conv)+

text \<open>What a command may do to the files: it keeps what is outside the root, and the root.\<close>

definition process_confined :: "workspace \<Rightarrow> process \<Rightarrow> bool" where
  "process_confined w proc \<longleftrightarrow>
     (\<forall>cmd dir env t st. ws_good w (fst st) \<longrightarrow> confined (root_parts w) (fst st) (fst (snd (proc cmd dir env t st))))"

lemma run_detailed_confined:
  assumes "process_confined w proc" and "ws_good w (fst st)"
  shows "confined (root_parts w) (fst st) (fst (snd (run_detailed proc environ w cmd args opts st)))"
proof -
  have r: "confined (root_parts w) (fst st) (fst st)" using assms(2) by (simp add: ws_good_def confined_refl)
  have "confined (root_parts w) (fst st) (fst (snd (proc c d e t (fst st, w1))))" for c d e t w1
    using assms by (simp add: process_confined_def)
  then show ?thesis using r by (auto simp: run_detailed_def Let_def split: prod.splits) (metis fst_conv snd_conv)+
qed

definition rooted :: "workspace \<Rightarrow> fs \<Rightarrow> ws_ports \<Rightarrow> bool" where
  "rooted w fs p \<longleftrightarrow> ws_good w fs \<and> root_parts w \<noteq> [] \<and> process_confined w (wp_process p)"

lemma reads_keep:
  assumes "keeps_outside w fs st"
  shows "keeps_outside w fs (snd (tool_read p w i1 st))" and "keeps_outside w fs (snd (tool_list p w i2 st))"
    and "keeps_outside w fs (snd (tool_glob p w i2 st))" and "keeps_outside w fs (snd (tool_grep p w i3 st))"
    and "keeps_outside w fs (snd (tool_search p w i2 st))"
  using assms
  by (simp_all add: tool_read_def tool_list_def tool_glob_def tool_grep_def tool_search_def split: or_panic.splits)

lemma changes_keep:
  assumes "rooted w fs p" and "keeps_outside w fs st"
  shows "keeps_outside w fs (snd (tool_write p w i1 st))" and "keeps_outside w fs (snd (tool_delete p w i2 st))"
    and "keeps_outside w fs (snd (tool_move p w i3 st))" and "keeps_outside w fs (snd (tool_replace p w i4 st))"
  using assms(1) unfolding tool_write_def tool_delete_def tool_move_def tool_replace_def rooted_def
  by (auto intro!: checkpointed_keeps [OF _ _ assms(2)]
      elim: ws_write_confined delete_path_confined move_path_confined edit_file_confined)

lemma patch_keeps:
  assumes "rooted w fs p" and "keeps_outside w fs st"
  shows "keeps_outside w fs (snd (tool_patch p w patch st))"
proof (cases "patch_paths patch")
  case (Inr paths)
  have g: "ws_good w fs" "root_parts w \<noteq> []" using assms(1) by (simp_all add: rooted_def)
  have "keeps_outside w fs (snd (checkpointed p w paths (apply_patch w patch) msg_patched st))"
  proof (rule checkpointed_keeps [OF g assms(2)])
    fix cp st1 fs1 e fs2
    assume a: "ws_good w fs1" "create_checkpoint (wp_codec p) w paths st = (Inr cp, st1)" "apply_patch w patch fs1 = (e, fs2)"
    have "is_abs (ws_root w)" using g(1) by (simp add: ws_good_def)
    then have "keeps_root w patch" using checkpointed_keeps_root [OF _ Inr] a(2) by (metis prod.collapse)
    then show "confined (root_parts w) fs1 fs2" by (rule apply_patch_confined [OF a(1) _ a(3)])
  qed
  then show ?thesis using Inr by (simp add: tool_patch_def)
qed (use assms in \<open>simp add: tool_patch_def\<close>)

lemma checkpoint_tools_keep:
  assumes "rooted w fs p" and "keeps_outside w fs st"
  shows "keeps_outside w fs (snd (tool_restore p w i st))" and "keeps_outside w fs (snd (tool_prune p w keep st))"
proof -
  have g: "ws_good w fs" "root_parts w \<noteq> []" using assms(1) by (simp_all add: rooted_def)
  show "keeps_outside w fs (snd (tool_restore p w i st))"
    by (rule keeps_outside_step [OF g(1) assms(2)])
      (use restore_checkpoint_confined in \<open>fastforce simp: tool_restore_def Let_def split: prod.splits\<close>)
  show "keeps_outside w fs (snd (tool_prune p w keep st))"
    by (rule keeps_outside_step [OF g(1) assms(2)])
      (use prune_checkpoints_confined [OF _ g(2)] in \<open>fastforce simp: tool_prune_def Let_def split: prod.splits\<close>)
qed

lemma command_keeps:
  assumes "rooted w fs p" and "keeps_outside w fs st"
  shows "keeps_outside w fs (snd (tool_command p w i st))"
proof -
  have g: "ws_good w fs" "process_confined w (wp_process p)" using assms(1) by (simp_all add: rooted_def)
  have "snd (tool_command p w i st) = snd (run_detailed (wp_process p) (wp_environ p) w (cin_command i) (cin_args i)
      \<lparr>co_timeout = wrap64 (cin_timeout_ms i * 1000000), co_env = []\<rparr> st)"
    by (simp add: tool_command_def Let_def split: prod.splits)
  then show ?thesis using keeps_outside_step [OF g(1) assms(2)] run_detailed_confined [OF g(2)] by simp
qed

lemma ws_handler_keeps:
  assumes "\<And>i. keeps_outside w fs (snd (fn i st))" and "keeps_outside w fs st"
  shows "keeps_outside w fs (snd (json_tool_handler dec zero fn call st))"
  using json_handler_keeps [where P = "keeps_outside w fs" and w = st and fn = fn] assms by blast

lemma handlers_keep_Nil: "handlers_keep P []"
  by (simp add: handlers_keep_def)

lemma handlers_keep_Cons:
  "(\<And>call st. P st \<Longrightarrow> P (snd (f call st))) \<Longrightarrow> handlers_keep P r \<Longrightarrow> handlers_keep P ((n, Some f) # r)"
  by (auto simp: handlers_keep_def)

lemma workspace_handlers_keep:
  assumes "rooted w fs p"
  shows "handlers_keep (keeps_outside w fs) (ws_handlers p d w)"
  unfolding ws_handlers_def
  by (intro handlers_keep_Cons handlers_keep_Nil ws_handler_keeps reads_keep changes_keep [OF assms]
      patch_keeps [OF assms] checkpoint_tools_keep [OF assms] command_keeps [OF assms])


text \<open>The provider of the example writes one file inside the workspace and tries one outside.\<close>

definition demo_wide :: fs where
  "demo_wide = demo_fs\<lparr>fs_nodes := fs_nodes demo_fs @ [([''q''], FileE 420 ''keep'')]\<rparr>"

definition demo_process :: process where
  "demo_process cmd dir env t st = (\<lparr>pe_error = None, pe_exit_error = False, pe_state = Some 0, pe_stdout = [''o'', ''k''],
     pe_stderr = [], pe_deadline = False\<rparr>, st)"

definition demo_ports :: ws_ports where
  "demo_ports = \<lparr>wp_fmatch = (\<lambda>_ _. False), wp_lower = id, wp_compile = Inl, wp_codec = demo_codec,
     wp_error = (\<lambda>e. case e of WsText s \<Rightarrow> s | WsOs _ \<Rightarrow> ''error''), wp_process = demo_process, wp_environ = [],
     wp_show_matches = (\<lambda>_. []), wp_show_prune = (\<lambda>_. []), wp_show_command = cr_stdout\<rparr>"

definition demo_decoders :: ws_decoders where
  "demo_decoders = \<lparr>dec_read = Inl, dec_write = (\<lambda>s. Inr \<lparr>win_path = s, win_content = ''y''\<rparr>), dec_delete = Inl, dec_move = Inl,
     dec_replace = Inl, dec_patch = Inr, dec_restore = Inr, dec_prune = Inl, dec_list = Inl, dec_glob = Inl, dec_grep = Inl,
     dec_search = Inl, dec_command = Inl\<rparr>"

definition write_call :: "string \<Rightarrow> tool_call" where
  "write_call path = \<lparr>tc_id = [], tc_call_id = ''c1'', tc_name = ''workspace_write_file'', tc_arguments = path, tc_custom = False\<rparr>"

definition demo_writer :: "(fs \<times> world) generate" where
  "demo_writer req st =
     (if q_input_items req = []
      then (Returns (Some (zero_response\<lparr>p_tool_calls := [write_call ''n'', write_call ''../q'']\<rparr>), None), st)
      else (Returns (Some (text_response ''p'' ''m'' ''done''), None), st))"


subsection \<open>What a command is given and what is kept of it\<close>

lemma collect_data: "0 < n \<Longrightarrow> bb_data (collect_output n chunks) = take (nat n) (concat chunks) \<and> bb_max (collect_output n chunks) = n"
proof (induction chunks rule: rev_induct)
  case (snoc p ps)
  then show ?case
    by (auto simp: collect_output_def buffer_write_def Let_def nat_diff_distrib' min_def)
qed (simp add: collect_output_def empty_buffer_def)

lemma collect_truncated:
  "0 < n \<Longrightarrow> list_all (\<lambda>p. p \<noteq> []) chunks \<Longrightarrow> bb_truncated (collect_output n chunks) \<longleftrightarrow> nat n < length (concat chunks)"
proof (induction chunks rule: rev_induct)
  case (snoc p ps)
  then have i: "bb_truncated (collect_output n ps) \<longleftrightarrow> nat n < length (concat ps)" "p \<noteq> []" by simp_all
  note d = collect_data [OF snoc.prems(1), of ps]
  have "collect_output n (ps @ [p]) = snd (buffer_write p (collect_output n ps))" by (simp add: collect_output_def)
  moreover have "bb_truncated (snd (buffer_write p (collect_output n ps))) \<longleftrightarrow> nat n < length (concat ps @ p)"
    using buffer_write_prefix(2) [of "collect_output n ps" "concat ps" p] d i snoc.prems(1) by simp
  ultimately show ?case by simp
qed (simp add: collect_output_def empty_buffer_def)

lemma collected_string:
  assumes "0 < n" and "out = buffer_string (collect_output n chunks)"
  shows "prefix out (concat chunks) \<and> length out \<le> nat n \<and> (out = [] \<or> utf8_valid out) \<and>
    (length (concat chunks) \<le> nat n \<and> utf8_valid (concat chunks) \<longrightarrow> out = concat chunks)"
proof -
  have d: "bb_data (collect_output n chunks) = take (nat n) (concat chunks)" using collect_data [OF assms(1)] by simp
  have v: "prefix out (take (nat n) (concat chunks)) \<and> (out = [] \<or> utf8_valid out)"
    using longest_valid_prefix unfolding assms(2) buffer_string_def d .
  moreover have "out = concat chunks" if "length (concat chunks) \<le> nat n" "utf8_valid (concat chunks)"
  proof -
    have "longest_valid s (length s) = s" if "utf8_valid s" for s using that by (cases "length s") simp_all
    then show ?thesis using \<open>utf8_valid (concat chunks)\<close> \<open>length (concat chunks) \<le> nat n\<close> by (simp only: assms(2) buffer_string_def d take_all)
  qed
  ultimately show ?thesis
    using prefix_length_le [of out "take (nat n) (concat chunks)"] prefix_order.trans [OF _ take_is_prefix] by (auto simp: min_def split: if_splits)
qed

text \<open>
  A command runs for at most five minutes and its outputs are bounded. A negative timeout or one above
  five minutes is refused before anything starts, and the tool reports it as an error; otherwise the process gets a positive timeout
  (the caller's, else the workspace's, else 30 seconds). What is kept of an output is a prefix of what the
  process wrote, at most 8 MiB (1 MiB for the errors), valid UTF-8 and all of it where it fits and is valid;
  for non-empty writes the truncation flag says exactly whether it did not fit.
\<close>

theorem command_bounds:
  assumes "run_detailed proc environ w cmd args opts st = ((res, e), st')" and "t = command_timeout w (co_timeout opts)"
  shows "if co_timeout opts < 0 \<or> MaxCommandTimeout < t then st' = st \<and> e \<noteq> None \<and> \<not> is_process_outcome res e
    else 0 < t \<and> (\<exists>w1 env. let pe = fst (proc (cmd # args) (ws_root w) env t (fst st, w1)); out = concat (pe_stdout pe) in
      prefix (cr_stdout res) out \<and> int (length (cr_stdout res)) \<le> MaxCommandOutputBytes \<and>
      int (length (cr_stderr res)) \<le> MaxCommandStderrBytes \<and> (cr_stdout res = [] \<or> utf8_valid (cr_stdout res)) \<and>
      (int (length out) \<le> MaxCommandOutputBytes \<and> utf8_valid out \<longrightarrow> cr_stdout res = out) \<and>
      (list_all (\<lambda>p. p \<noteq> []) (pe_stdout pe) \<longrightarrow> (cr_stdout_truncated res \<longleftrightarrow> MaxCommandOutputBytes < int (length out))))"
proof (cases "co_timeout opts < 0 \<or> MaxCommandTimeout < t")
  case True
  then have "\<exists>x. ((res, e), st') = ((no_result w (cmd # args), Some \<lparr>rx_text = x, rx_exit = False\<rparr>), st)"
    using assms by (cases "co_timeout opts < 0") (auto simp: run_detailed_def Let_def)
  then show ?thesis using True by (auto simp: no_result_def is_process_outcome_def)
next
  case False
  obtain t0 w1 where n: "now (snd st) = (t0, w1)" by fastforce
  let ?env = "environ @ map (\<lambda>(k, v). k @ ''='' @ v) (co_env opts)"
  let ?pe = "fst (proc (cmd # args) (ws_root w) ?env t (fst st, w1))"
  have "\<exists>t1. ended_result (no_result w (cmd # args)) ?pe t0 t1 = (res, e)"
    using assms False n by (auto simp: run_detailed_def Let_def split: prod.splits)
  then have res: "cr_stdout res = buffer_string (collect_output MaxCommandOutputBytes (pe_stdout ?pe))"
    "cr_stderr res = buffer_string (collect_output MaxCommandStderrBytes (pe_stderr ?pe))"
    "cr_stdout_truncated res = bb_truncated (collect_output MaxCommandOutputBytes (pe_stdout ?pe))"
    by (auto simp: ended_result_def Let_def)
  have pos: "0 < MaxCommandOutputBytes" "0 < MaxCommandStderrBytes" "0 < t"
    by (simp_all add: MaxCommandOutputBytes_def MaxCommandStderrBytes_def assms(2) command_timeout_def Let_def)
  let ?out = "concat (pe_stdout ?pe)"
  have "prefix (cr_stdout res) ?out \<and> int (length (cr_stdout res)) \<le> MaxCommandOutputBytes \<and>
      int (length (cr_stderr res)) \<le> MaxCommandStderrBytes \<and> (cr_stdout res = [] \<or> utf8_valid (cr_stdout res)) \<and>
      (int (length ?out) \<le> MaxCommandOutputBytes \<and> utf8_valid ?out \<longrightarrow> cr_stdout res = ?out) \<and>
      (list_all (\<lambda>p. p \<noteq> []) (pe_stdout ?pe) \<longrightarrow> (cr_stdout_truncated res \<longleftrightarrow> MaxCommandOutputBytes < int (length ?out)))"
    using pos collected_string [OF pos(1) res(1)] collected_string [OF pos(2) res(2)] collect_truncated [OF pos(1), of "pe_stdout ?pe"] res(3)
    by (simp add: nat_less_iff le_nat_iff)
  then show ?thesis unfolding if_not_P [OF False] Let_def using pos(3) by blast
qed

theorem command_bounds_witness:
  "\<exists>res st'. run_detailed demo_process [] demo_ws ''ls'' [] \<lparr>co_timeout = 5, co_env = []\<rparr> (demo_fs, demo_world) = ((res, None), st') \<and>
    prefix (cr_stdout res) ''ok''"
proof -
  let ?o = "\<lparr>co_timeout = 5, co_env = []\<rparr>"
  let ?x = "run_detailed demo_process [] demo_ws ''ls'' [] ?o (demo_fs, demo_world)"
  have "snd (fst ?x) = None" by code_simp
  then obtain res st' where x: "?x = ((res, None), st')" by (metis prod.collapse)
  have "command_timeout demo_ws (co_timeout ?o) = 5" by (simp add: command_timeout_def)
  then show ?thesis
    using command_bounds [OF x refl] x by (auto simp: MaxCommandTimeout_def demo_process_def Let_def)
qed

subsection \<open>The tools as declared\<close>

text \<open>A strict schema of an object: its properties and no others, the required ones among them, each typed.\<close>

definition schema_typed :: "jval \<Rightarrow> bool" where
  "schema_typed v =
     (case v of
        JObj kvs \<Rightarrow> map_of kvs ''type'' \<in> {Some (JStr ''string''), Some (JStr ''integer''), Some (JStr ''boolean''), Some (JStr ''array'')}
      | _ \<Rightarrow> False)"

definition closed_schema :: "jmap \<Rightarrow> bool" where
  "closed_schema s =
     (map_of s ''type'' = Some (JStr ''object'') \<and> map_of s ''additionalProperties'' = Some (JBool False) \<and>
      (case (map_of s ''properties'', map_of s ''required'') of
         (Some (JObj props), Some (JArr names)) \<Rightarrow>
           distinct (map fst props) \<and> list_all (schema_typed \<circ> snd) props \<and> names \<noteq> [] \<and>
           list_all (\<lambda>n. n \<in> set (map (JStr \<circ> fst) props)) names
       | _ \<Rightarrow> False))"

lemma object_schema_closed:
  "closed_schema (object_schema_required props names) \<longleftrightarrow>
     distinct (map fst props) \<and> list_all (schema_typed \<circ> JObj \<circ> snd) props \<and> names \<noteq> [] \<and> set names \<subseteq> fst ` set props"
  by (auto simp: closed_schema_def object_schema_required_def list_all_iff comp_def case_prod_beta image_iff)


end
