(* ===== verification/Go_Numbers.thy ===== *)
theory Go_Numbers
  imports Go_Base
begin

section \<open>Decimal numbers in text\<close>

text \<open>
  What \<open>strconv.Atoi\<close> reads, that it reads back what \<open>%d\<close> writes, and how white space and line breaks stand to such a
  number.
\<close>

subsection \<open>\<open>strconv.Atoi\<close>\<close>

definition is_digit :: "char \<Rightarrow> bool" where
  "is_digit c \<longleftrightarrow> CHR ''0'' \<le> c \<and> c \<le> CHR ''9''"

definition digits_value :: "string \<Rightarrow> int" where
  "digits_value ds = fold (\<lambda>c n. 10 * n + (int (of_char c) - 48)) ds 0"

text \<open>\<open>strconv.Atoi\<close>: an optional sign, decimal digits, and the range of \<open>int\<close>.\<close>

definition atoi :: "string \<Rightarrow> int option" where
  "atoi s =
     (let (neg, ds) =
        (case s of
           [] \<Rightarrow> (False, [])
         | c # r \<Rightarrow> if c = CHR ''-'' then (True, r) else if c = CHR ''+'' then (False, r) else (False, s))
      in if ds = [] \<or> \<not> list_all is_digit ds then None
         else if neg then (if digits_value ds \<le> 9223372036854775808 then Some (- digits_value ds) else None)
         else (if digits_value ds < 9223372036854775808 then Some (digits_value ds) else None))"

lemma is_digit_of: "(n::nat) < 10 \<Longrightarrow> is_digit (char_of (48 + n))"
  by (simp add: is_digit_def less_eq_char_def)

lemma digits_value_snoc: "digits_value (ds @ [c]) = 10 * digits_value ds + (int (of_char c) - 48)"
  by (simp add: digits_value_def)

lemma dec_nat_digits: "list_all is_digit (dec_nat n) \<and> dec_nat n \<noteq> [] \<and> digits_value (dec_nat n) = int n"
proof (induction n rule: dec_nat.induct)
  case (1 n)
  show ?case
  proof (cases "n < 10")
    case True
    then show ?thesis by (simp add: dec_nat.simps [of n] is_digit_of digits_value_def)
  next
    case False
    moreover have "10 * int (n div 10) + int (n mod 10) = int n" by presburger
    ultimately show ?thesis using 1 by (simp add: dec_nat.simps [of n] is_digit_of digits_value_snoc)
  qed
qed

lemma digit_not_sign: "is_digit c \<Longrightarrow> c \<noteq> CHR ''-'' \<and> c \<noteq> CHR ''+''"
  by (auto simp: is_digit_def less_eq_char_def)

lemma atoi_dec: "0 \<le> i \<Longrightarrow> i < 2 ^ 63 \<Longrightarrow> atoi (dec_int i) = Some i"
proof -
  assume i: "0 \<le> i" "i < 2 ^ 63"
  have d: "dec_int i = dec_nat (nat i)" using i by (simp add: dec_int_def)
  obtain c r where c: "dec_nat (nat i) = c # r" using dec_nat_digits [of "nat i"] by (cases "dec_nat (nat i)") auto
  then have "is_digit c" using dec_nat_digits [of "nat i"] by simp
  then have "c \<noteq> CHR ''-''" "c \<noteq> CHR ''+''" using digit_not_sign by auto
  moreover have "list_all is_digit (c # r)" "digits_value (c # r) = i" using c i dec_nat_digits [of "nat i"] by simp_all
  ultimately show ?thesis using i(2) unfolding d c by (simp add: atoi_def)
qed

lemma digit_not_space: "is_digit c \<Longrightarrow> c \<notin> set space_heads \<and> c \<notin> set space_lasts"
proof -
  assume d: "is_digit c"
  have "\<forall>s \<in> set space_heads \<union> set space_lasts. \<not> is_digit s" by code_simp
  then show ?thesis using d by blast
qed

lemma trim_dec: "trim_space (dec_int i) = dec_int i" if "0 \<le> i"
proof -
  have d: "dec_int i = dec_nat (nat i)" using that by (simp add: dec_int_def)
  have "dec_nat (nat i) \<noteq> []" "\<forall>c \<in> set (dec_nat (nat i)). is_digit c"
    using dec_nat_digits [of "nat i"] by (simp_all add: list_all_iff)
  then show ?thesis unfolding d by (intro trim_space_id) (auto dest: digit_not_space)
qed

subsection \<open>Numbers in lines\<close>

lemma trim_space_blank: "trim_space (CHR '' '' # s) = trim_space s"
proof -
  have "strip go_spaces (CHR '' '' # s) = strip go_spaces s"
    by (subst strip.simps) (simp add: go_spaces_def has_prefix_iff)
  then show ?thesis by (simp add: trim_space_def)
qed

lemma trim_space_cr:
  assumes "s \<noteq> []" and "hd s \<notin> set space_heads"
  shows "trim_space (s @ [CHR 0x0D]) = trim_space s"
proof -
  have "\<not> starts_with_any go_spaces (s @ r)" for r
    using assms starts_with_any_hd [of go_spaces "hd s" "tl s @ r"] by (cases s) (auto simp: space_heads_def)
  then have "strip go_spaces (s @ [CHR 0x0D]) = s @ [CHR 0x0D]" "strip go_spaces s = s"
    using strip_fix append_Nil2 by metis+
  moreover have "strip go_spaces_rev (CHR 0x0D # t) = strip go_spaces_rev t" for t
    by (subst strip.simps) (simp add: go_spaces_rev_def go_spaces_def has_prefix_iff)
  ultimately show ?thesis by (simp add: trim_space_def)
qed

lemma digits_one_line: "CHR 0x0A \<notin> set (dec_nat n)"
  using dec_nat_digits [of n] by (auto simp: list_all_iff is_digit_def)

lemma number_one_line: "CHR 0x0A \<notin> set (dec_int n)"
  by (simp add: dec_int_def digits_one_line)

lemma dec_nat_length: "n < 10 ^ Suc k \<Longrightarrow> length (dec_nat n) \<le> Suc k"
proof (induction k arbitrary: n)
  case 0
  then show ?case by (simp add: dec_nat.simps [of n])
next
  case (Suc k)
  then have "n div 10 < 10 ^ Suc k" by (simp add: div_less_iff_less_mult mult.commute)
  from Suc.IH [OF this] show ?case by (simp add: dec_nat.simps [of n])
qed

lemma number_short:
  assumes "0 \<le> n" and "n < 2 ^ 63"
  shows "length (dec_int n) \<le> 19"
proof -
  have "nat n < 10 ^ Suc 18" using assms by simp
  then show ?thesis using dec_nat_length [of "nat n" 18] assms(1) by (simp add: dec_int_def)
qed

end
