(* ===== verification/Gateway_Pages.thy ===== *)
theory Gateway_Pages
  imports Go_Numbers Gateway_Request Session_Store Run_Manager "HOL-Library.Product_Lexorder"
begin

section \<open>Package gateway: query parameters, pages and the listing handlers\<close>

text \<open>
  \<open>gateway/server.go\<close>: the query parameters of a request, the paging that all listings share, and the
  handlers of \<open>/sessions\<close>, \<open>/providers\<close>, \<open>/models\<close> and of the listing of \<open>/runs\<close>. A query is the function
  \<open>r.URL.Query().Get\<close>; the sessions are those of the SQLite store, so the type assertions for the optional
  store interfaces succeed; the run functions are those of the configuration.
\<close>

subsection \<open>Parameters and errors\<close>

type_synonym query = "string \<Rightarrow> string"

datatype page_error =
    NotNonNegative string
  | NotBoolean string
  | FieldTooLarge string int
  | FieldBadChars string
  | FieldRequired string
  | BadMode
  | BadRunStatus
  | NotThisMethod
  | NoEndpoint
  | NotWired
  | Unauthorized
  | Panicked string
  | Request_Error request_error
  | Decode_Error decode_error
  | Store_Fault store_error
  | Fault string

datatype 'a answer = Refused nat string page_error | Answered nat 'a

text \<open>
  A parameter that does not parse is answered with 400 and the handler's code
  (\<open>writeError(w, r, http.StatusBadRequest, code, ...)\<close> followed by a return).
\<close>

definition with_param :: "string \<Rightarrow> page_error + 'v \<Rightarrow> ('v \<Rightarrow> 'a answer) \<Rightarrow> 'a answer" where
  "with_param code v f = (case v of Inl e \<Rightarrow> Refused 400 code e | Inr x \<Rightarrow> f x)"

definition unless :: "string \<Rightarrow> page_error option \<Rightarrow> 'a answer \<Rightarrow> 'a answer" where
  "unless code e r = (case e of Some e' \<Rightarrow> Refused 400 code e' | None \<Rightarrow> r)"

definition query_int :: "query \<Rightarrow> string \<Rightarrow> int \<Rightarrow> page_error + int" where
  "query_int q key fallback =
     (let v = trim_space (q key)
      in if v = [] then Inr fallback
         else (case atoi v of Some n \<Rightarrow> if n < 0 then Inl (NotNonNegative key) else Inr n | None \<Rightarrow> Inl (NotNonNegative key)))"

definition query_limit :: "query \<Rightarrow> string \<Rightarrow> int \<Rightarrow> int \<Rightarrow> page_error + int" where
  "query_limit q key fallback max_value =
     (case query_int q key fallback of
        Inl e \<Rightarrow> Inl e
      | Inr v \<Rightarrow> if 0 < max_value \<and> max_value < v then Inr max_value else Inr v)"

definition query_offset :: "query \<Rightarrow> page_error + int" where
  "query_offset q = query_int q ''offset'' 0"

definition query_after_seq :: "query \<Rightarrow> page_error + int" where
  "query_after_seq q = query_int q ''after_seq'' 0"

definition maxSessionEventTypeBytes :: int where "maxSessionEventTypeBytes = 128"

definition query_event_type :: "query \<Rightarrow> page_error + string" where
  "query_event_type q =
     (let t = trim_space (q ''type'')
      in if maxSessionEventTypeBytes < int (length t) then Inl (FieldTooLarge ''type'' maxSessionEventTypeBytes) else Inr t)"

definition query_bool :: "(string \<Rightarrow> string) \<Rightarrow> query \<Rightarrow> string \<Rightarrow> bool \<Rightarrow> page_error + bool" where
  "query_bool u q key fallback =
     (let v = trim_space (q key); l = go_lower u v
      in if v = [] then Inr fallback
         else if l \<in> {''true'', ''1'', ''yes''} then Inr True
         else if l \<in> {''false'', ''0'', ''no''} then Inr False
         else Inl (NotBoolean key))"

definition query_wants_sse :: "(string \<Rightarrow> string) \<Rightarrow> query \<Rightarrow> string \<Rightarrow> page_error + bool" where
  "query_wants_sse u q accept =
     (case query_bool u q ''stream'' False of
        Inl e \<Rightarrow> Inl e
      | Inr True \<Rightarrow> Inr True
      | Inr False \<Rightarrow> Inr (contains (go_lower u accept) ''text/event-stream''))"

definition query_provider_model :: "query \<Rightarrow> page_error + string \<times> string" where
  "query_provider_model q =
     (let provider = trim_space (q ''provider''); model = trim_space (q ''model'')
      in if maxRunProviderModelBytes < int (length provider) then Inl (FieldTooLarge ''provider'' maxRunProviderModelBytes)
         else if maxRunProviderModelBytes < int (length model) then Inl (FieldTooLarge ''model'' maxRunProviderModelBytes)
         else Inr (provider, model))"

definition maxSessionIDBytes :: int where "maxSessionIDBytes = 128"
definition maxRunIDBytes :: int where "maxRunIDBytes = 128"

definition validate_id_text :: "string \<Rightarrow> int \<Rightarrow> string \<Rightarrow> page_error option" where
  "validate_id_text label limit i =
     (if i = [] then Some (FieldRequired label)
      else if limit < int (length i) then Some (FieldTooLarge label limit)
      else if \<not> valid_metadata_key i then Some (FieldBadChars label)
      else None)"

definition validate_session_id_text :: "string \<Rightarrow> page_error option" where
  "validate_session_id_text i = validate_id_text ''session id'' maxSessionIDBytes i"

definition validate_run_id_text :: "string \<Rightarrow> page_error option" where
  "validate_run_id_text i = validate_id_text ''run id'' maxRunIDBytes (trim_space i)"

definition validate_optional_id_filter :: "string \<Rightarrow> string \<Rightarrow> int \<Rightarrow> page_error option" where
  "validate_optional_id_filter label v limit =
     (if trim_space v = [] then None else validate_id_text label limit (trim_space v))"

definition valid_agent_mode :: "string \<Rightarrow> bool" where
  "valid_agent_mode mode \<longleftrightarrow> mode \<in> {AgentModeBuild, AgentModePlan, AgentModeAsk}"

text \<open>\<open>validateProjectRootText\<close> accepts every path.\<close>

definition validate_project_root_text :: "string \<Rightarrow> page_error option" where
  "validate_project_root_text v = None"

lemma query_int_nonneg: "0 \<le> fallback \<Longrightarrow> query_int q key fallback = Inr n \<Longrightarrow> 0 \<le> n"
  by (auto simp: query_int_def Let_def split: if_splits option.splits)

lemma query_limit_bounds:
  assumes "0 \<le> fallback" and "query_limit q key fallback max_value = Inr n"
  shows "0 \<le> n" and "0 < max_value \<Longrightarrow> n \<le> max_value"
  using assms query_int_nonneg [OF assms(1), of q key] by (auto simp: query_limit_def split: sum.splits if_splits)

lemma query_offset_dec: "0 \<le> i \<Longrightarrow> i < 2 ^ 63 \<Longrightarrow> query_offset (q(''offset'' := dec_int i)) = Inr i"
proof -
  assume i: "0 \<le> i" "i < 2 ^ 63"
  have "dec_int i \<noteq> []" using i dec_nat_digits [of "nat i"] by (simp add: dec_int_def)
  then show ?thesis using i by (simp add: query_offset_def query_int_def trim_dec atoi_dec)
qed

lemma query_offset_none: "query_offset (q(''offset'' := [])) = Inr 0"
  by (simp add: query_offset_def query_int_def)

subsection \<open>Pages\<close>

record 'a page_reply =
  pg_items :: "'a list"
  pg_total :: int
  pg_limit :: int
  pg_offset :: int
  pg_next :: int
  pg_truncated :: bool

text \<open>
  \<open>trimSessionSummaries\<close>, \<open>trimCheckpoints\<close>, \<open>trimArtifacts\<close> and \<open>trimResources\<close>; a limit is never negative
  (\<open>query_limit_bounds\<close>). \<open>trimRuns\<close> also clamps it.
\<close>

definition trim_items :: "'a list \<Rightarrow> int \<Rightarrow> 'a list \<times> int \<times> bool" where
  "trim_items xs lim =
     (let truncated = lim < int (length xs); ys = (if truncated then take (nat lim) xs else xs)
      in (ys, int (length ys), truncated))"

definition trim_runs :: "'a list \<Rightarrow> int \<Rightarrow> 'a list \<times> int \<times> bool" where
  "trim_runs xs lim = trim_items xs (if lim < 0 then 0 else lim)"

definition next_offset :: "int \<Rightarrow> int \<Rightarrow> bool \<Rightarrow> int" where
  "next_offset offset returned truncated =
     (if \<not> truncated then 0 else if returned \<le> 0 then 0 else offset + returned)"

text \<open>\<open>pageSlice\<close> of \<open>gateway/mcp_probe.go\<close>, the paging of the lists that are held in memory.\<close>

definition page_slice :: "'a list \<Rightarrow> int \<Rightarrow> int \<Rightarrow> 'a list \<times> int \<times> bool" where
  "page_slice xs lim offset =
     (let off = (if offset < 0 then 0 else offset)
      in if lim \<le> 0 then ([], 0, False)
         else if int (length xs) \<le> off then ([], 0, False)
         else (let e = off + lim; e' = (if int (length xs) < e then int (length xs) else e)
               in (take (nat (e' - off)) (drop (nat off) xs), e' - off, e' < int (length xs))))"

definition page_reply_of :: "'a list \<times> int \<times> bool \<Rightarrow> int \<Rightarrow> int \<Rightarrow> int \<Rightarrow> 'a page_reply" where
  "page_reply_of p tot lim off =
     (let (items, returned, truncated) = p
      in \<lparr>pg_items = items, pg_total = tot, pg_limit = lim, pg_offset = off,
          pg_next = next_offset off returned truncated, pg_truncated = truncated\<rparr>)"

subsection \<open>Sessions\<close>

record session_dto =
  xd_id :: string
  xd_root :: string
  xd_provider :: string
  xd_model :: string
  xd_agent :: string
  xd_mode :: string
  xd_summary :: string
  xd_turns :: nat
  xd_events :: nat
  xd_todos :: nat
  xd_last_response :: string
  xd_created :: gtime
  xd_updated :: gtime
  xd_metadata :: smap

definition to_session_dto :: "session \<Rightarrow> session_dto" where
  "to_session_dto s =
     \<lparr>xd_id = s_id s, xd_root = s_root s, xd_provider = s_provider s, xd_model = s_model s, xd_agent = s_agent s,
      xd_mode = s_mode s, xd_summary = s_summary s, xd_turns = length (s_turns s), xd_events = length (s_events s),
      xd_todos = length (s_todos s), xd_last_response = s_last_response s, xd_created = s_created s,
      xd_updated = s_updated s, xd_metadata = s_metadata s\<rparr>"

definition to_summary_dto :: "session_summary \<Rightarrow> session_dto" where
  "to_summary_dto s =
     \<lparr>xd_id = ss_id s, xd_root = ss_root s, xd_provider = ss_provider s, xd_model = ss_model s, xd_agent = ss_agent s,
      xd_mode = ss_mode s, xd_summary = ss_summary s, xd_turns = ss_turn_count s, xd_events = 0, xd_todos = 0,
      xd_last_response = [], xd_created = 0, xd_updated = ss_updated s, xd_metadata = []\<rparr>"

definition list_sessions :: "query \<Rightarrow> db \<Rightarrow> session_dto page_reply answer" where
  "list_sessions q d =
     (let c = ''invalid_session_list''
      in with_param c (query_limit q ''limit'' 50 200) (\<lambda>lim.
         with_param c (query_offset q) (\<lambda>off.
           (let root = trim_space (q ''project_root'')
            in unless c (validate_project_root_text root)
              (with_param c (query_provider_model q) (\<lambda>(provider, model).
                (let mode = trim_space (q ''mode'');
                     sq = \<lparr>sq_root = root, sq_provider = provider, sq_model = model, sq_mode = mode, sq_limit = 0, sq_offset = 0\<rparr>
                 in if mode \<noteq> [] \<and> \<not> valid_agent_mode mode then Refused 400 c BadMode
                    else (case sq_count_sessions sq d of
                            Inl e \<Rightarrow> Refused 500 ''count_sessions_failed'' (Store_Fault e)
                          | Inr tot \<Rightarrow>
                              (case sq_list_sessions (sq\<lparr>sq_limit := lim + 1, sq_offset := off\<rparr>) d of
                                 Inl e \<Rightarrow> Refused 500 ''list_sessions_failed'' (Store_Fault e)
                               | Inr xs \<Rightarrow>
                                   (let (ys, returned, truncated) = trim_items xs lim
                                    in Answered 200 (page_reply_of (map to_summary_dto ys, returned, truncated) tot lim off)))))))))))"

record session_create =
  cr_root :: string
  cr_provider :: string
  cr_model :: string
  cr_agent :: string
  cr_mode :: string
  cr_metadata :: smap

definition create_session :: "decode_error + session_create \<Rightarrow> db \<times> world \<Rightarrow> session_dto answer \<times> db \<times> world" where
  "create_session decoded st =
     (case decoded of
        Inl BodyTooLarge \<Rightarrow> (Refused 413 ''request_too_large'' (Decode_Error BodyTooLarge), st)
      | Inl e \<Rightarrow> (Refused 400 ''invalid_json'' (Decode_Error e), st)
      | Inr r \<Rightarrow>
          (let root = trim_space (cr_root r); provider = trim_space (cr_provider r); model = trim_space (cr_model r);
               agent = trim_space (cr_agent r); md = sanitize_run_metadata (cr_metadata r); mode0 = trim_space (cr_mode r);
               mode = (if mode0 = [] then AgentModeBuild else mode0)
           in if root = [] \<or> provider = [] \<or> model = []
              then (Refused 400 ''invalid_session'' (FieldRequired ''project_root, provider, model''), st)
              else (case validate_project_root_text root of
                      Some e \<Rightarrow> (Refused 400 ''invalid_session'' e, st)
                    | None \<Rightarrow>
                        (case validate_run_metadata md of
                           Some e \<Rightarrow> (Refused 400 ''invalid_session'' (Request_Error e), st)
                         | None \<Rightarrow>
                             if \<not> valid_agent_mode mode then (Refused 400 ''invalid_session'' BadMode, st)
                             else (let (s, w1) = new_session root provider model agent mode (snd st);
                                       ((e, s1), st1) = sq_create_session (s\<lparr>s_metadata := md\<rparr>) (fst st, w1)
                                   in case e of
                                        Some err \<Rightarrow> (Refused 500 ''create_session_failed'' (Store_Fault err), st1)
                                      | None \<Rightarrow> (Answered 201 (to_session_dto s1), st1))))))"

definition get_session :: "string \<Rightarrow> db \<Rightarrow> session_dto answer" where
  "get_session i d =
     (case sq_load_session i d of
        Inl e \<Rightarrow> Refused 404 ''session_not_found'' (Store_Fault e) | Inr s \<Rightarrow> Answered 200 (to_session_dto s))"

subsection \<open>Runs\<close>

type_synonym 'w run_counter = "run_query \<Rightarrow> 'w \<Rightarrow> string + int"

definition count_runs :: "'w run_counter option \<Rightarrow> run_query \<Rightarrow> string \<Rightarrow> 'w \<Rightarrow> (nat \<times> string \<times> page_error) + int" where
  "count_runs counter rq code w =
     (case counter of
        None \<Rightarrow> Inr 0
      | Some f \<Rightarrow> (case f rq w of Inl e \<Rightarrow> Inl (500, code, Fault e) | Inr n \<Rightarrow> Inr n))"

definition to_page_error :: "request_error option \<Rightarrow> page_error option" where
  "to_page_error e = map_option Request_Error e"

definition list_runs :: "'w run_config \<Rightarrow> 'w run_counter option \<Rightarrow> query \<Rightarrow> 'w \<Rightarrow> run_dto page_reply answer" where
  "list_runs cfg counter q w =
     (case rc_lister cfg of
        None \<Rightarrow> Refused 501 ''run_lister_missing'' NotWired
      | Some lister \<Rightarrow>
          (let c = ''invalid_run_list''; rid = trim_space (q RequestIDMetadataKey); key = trim_space (q IdempotencyMetadataKey);
               turn = trim_space (q ''turn_id''); status = trim_space (q ''status''); sid = trim_space (q ''session_id'')
           in unless c (to_page_error (validate_request_id_value rid))
             (unless c (to_page_error (validate_idempotency_key_value key))
               (unless c (validate_optional_id_filter ''turn_id'' turn maxRunIDBytes)
                 (with_param c (query_provider_model q) (\<lambda>(provider, model).
                   if status \<noteq> [] \<and> \<not> is_valid_status status then Refused 400 c BadRunStatus
                   else with_param c (query_limit q ''limit'' 50 200) (\<lambda>lim.
                     with_param c (query_offset q) (\<lambda>off.
                       unless c (validate_optional_id_filter ''session_id'' sid maxSessionIDBytes)
                         (let rq = \<lparr>rq_session = sid, rq_turn = turn, rq_status = status, rq_provider = provider, rq_model = model,
                                 rq_request_id = rid, rq_idempotency = key, rq_limit = 0, rq_offset = 0\<rparr>
                          in case count_runs counter rq ''count_runs_failed'' w of
                               Inl (s, code, e) \<Rightarrow> Refused s code e
                             | Inr tot \<Rightarrow>
                                 (case lister (rq\<lparr>rq_limit := lim + 1, rq_offset := off\<rparr>) w of
                                    Inl e \<Rightarrow> Refused 500 ''list_runs_failed'' (Fault e)
                                  | Inr xs \<Rightarrow> Answered 200 (page_reply_of (trim_runs xs lim) tot lim off)))))))))))"

definition get_run :: "'w run_config \<Rightarrow> string \<Rightarrow> 'w \<Rightarrow> run_dto answer" where
  "get_run cfg i w =
     (case rc_getter cfg of
        None \<Rightarrow> Refused 501 ''run_getter_missing'' NotWired
      | Some getter \<Rightarrow>
          (case getter i w of Inl e \<Rightarrow> Refused 404 ''run_not_found'' (Fault e) | Inr d \<Rightarrow> Answered 200 d))"

type_synonym 'w run_canceler = "string \<Rightarrow> 'w \<Rightarrow> (string + run_dto) \<times> 'w"

definition cancel_run :: "'w run_canceler option \<Rightarrow> string \<Rightarrow> 'w \<Rightarrow> run_dto answer \<times> 'w" where
  "cancel_run canceler i w =
     (case canceler of
        None \<Rightarrow> (Refused 501 ''run_canceler_missing'' NotWired, w)
      | Some f \<Rightarrow>
          (case f i w of
             (Inl e, w1) \<Rightarrow> (Refused 404 ''run_not_found'' (Fault e), w1) | (Inr d, w1) \<Rightarrow> (Answered 200 d, w1)))"

subsection \<open>Providers and models\<close>

record route_dto =
  ro_operation :: string
  ro_method :: string
  ro_path :: string
  ro_accept :: string
  ro_query :: smap

record conversion_dto =
  cv_request :: string
  cv_response :: string
  cv_call :: string
  cv_stream :: string
  cv_source :: string
  cv_operations :: "string list"
  cv_routes :: "route_dto list"

record provider_dto =
  pv_name :: string
  pv_aliases :: "string list"
  pv_models :: "string list"
  pv_default :: string
  pv_capabilities :: jmap
  pv_auth_status :: string
  pv_auth_env :: "string list"
  pv_conversion :: "conversion_dto option"

record model_dto =
  mo_id :: string
  mo_provider :: string
  mo_display :: string
  mo_default :: bool
  mo_capabilities :: jmap
  mo_auth_status :: string

text \<open>\<open>u\<close> and \<open>ef\<close> are \<open>strings.ToLower\<close> and \<open>strings.EqualFold\<close> on text that is not ASCII.\<close>

definition equal_fold :: "(string \<Rightarrow> string \<Rightarrow> bool) \<Rightarrow> string \<Rightarrow> string \<Rightarrow> bool" where
  "equal_fold ef s t = (if is_ascii s \<and> is_ascii t then map lower_char s = map lower_char t else ef s t)"

definition provider_matches :: "(string \<Rightarrow> string \<Rightarrow> bool) \<Rightarrow> provider_dto \<Rightarrow> string \<Rightarrow> bool" where
  "provider_matches ef p name =
     (let n = trim_space name
      in n \<noteq> [] \<and> (equal_fold ef (pv_name p) n \<or> list_ex (\<lambda>a. equal_fold ef a n) (pv_aliases p)))"

definition find_provider :: "(string \<Rightarrow> string \<Rightarrow> bool) \<Rightarrow> provider_dto list \<Rightarrow> string \<Rightarrow> provider_dto option" where
  "find_provider ef ps name = find (\<lambda>p. provider_matches ef p name) ps"

definition providers_for_discovery :: "(string \<Rightarrow> string) \<Rightarrow> provider_dto list \<Rightarrow> provider_dto list" where
  "providers_for_discovery u ps = sort_key (\<lambda>p. (go_lower u (trim_space (pv_name p)), pv_name p)) ps"

fun discover_models :: "string \<Rightarrow> string list \<Rightarrow> string list \<Rightarrow> string list \<Rightarrow> string list \<times> string list" where
  "discover_models dflt [] seen rest = (seen, rest)"
| "discover_models dflt (m # ms) seen rest =
     (let t = trim_space m
      in if t = [] \<or> t \<in> set seen then discover_models dflt ms seen rest
         else if dflt \<noteq> [] \<and> t = dflt then discover_models dflt ms (t # seen) rest
         else discover_models dflt ms (t # seen) (rest @ [t]))"

definition model_names_for_discovery :: "provider_dto \<Rightarrow> string list" where
  "model_names_for_discovery p =
     (let models = (if pv_models p = [] \<and> pv_default p \<noteq> [] then [pv_default p] else pv_models p);
          dflt = trim_space (pv_default p);
          (seen, rest) = discover_models dflt models [] [];
          names = sort rest
      in if dflt \<noteq> [] \<and> dflt \<in> set seen then dflt # names else names)"

definition validate_provider_name_text :: "string \<Rightarrow> page_error option" where
  "validate_provider_name_text v =
     (let t = trim_space v
      in if t = [] then Some (FieldRequired ''provider'')
         else if maxRunProviderModelBytes < int (length t) then Some (FieldTooLarge ''provider'' maxRunProviderModelBytes)
         else None)"

definition get_provider :: "(string \<Rightarrow> string \<Rightarrow> bool) \<Rightarrow> provider_dto list \<Rightarrow> string \<Rightarrow> provider_dto answer" where
  "get_provider ef ps name =
     unless ''invalid_provider'' (validate_provider_name_text name)
       (case find_provider ef ps name of
          None \<Rightarrow> Refused 404 ''provider_not_found'' (Fault []) | Some p \<Rightarrow> Answered 200 p)"

definition list_page :: "string \<Rightarrow> 'a list \<Rightarrow> query \<Rightarrow> 'a page_reply answer" where
  "list_page c xs q =
     with_param c (query_limit q ''limit'' (int (length xs)) 5000) (\<lambda>lim.
     with_param c (query_offset q) (\<lambda>off.
       Answered 200 (page_reply_of (page_slice xs lim off) (int (length xs)) lim off)))"

definition list_providers :: "(string \<Rightarrow> string) \<Rightarrow> provider_dto list \<Rightarrow> query \<Rightarrow> provider_dto page_reply answer" where
  "list_providers u ps q = list_page ''invalid_provider_list'' (providers_for_discovery u ps) q"

definition models_of :: "provider_dto \<Rightarrow> model_dto list" where
  "models_of p =
     map (\<lambda>m. \<lparr>mo_id = m, mo_provider = pv_name p, mo_display = m, mo_default = (m = pv_default p),
             mo_capabilities = pv_capabilities p, mo_auth_status = pv_auth_status p\<rparr>) (model_names_for_discovery p)"

definition list_models ::
  "(string \<Rightarrow> string) \<Rightarrow> (string \<Rightarrow> string \<Rightarrow> bool) \<Rightarrow> provider_dto list \<Rightarrow> query \<Rightarrow> model_dto page_reply answer" where
  "list_models u ef ps q =
     (let pf = trim_space (q ''provider'')
      in if maxRunProviderModelBytes < int (length pf)
         then Refused 400 ''invalid_model_list'' (FieldTooLarge ''provider'' maxRunProviderModelBytes)
         else list_page ''invalid_model_list''
                (concat (map models_of (filter (\<lambda>p. pf = [] \<or> provider_matches ef p pf) (providers_for_discovery u ps)))) q)"

subsection \<open>The contract of a listing\<close>

text \<open>
  A listing answers, for a query it accepts and a positive limit, with the window of its rows at the offset, and with
  the offset of the next window as long as there is one. A query is accepted when its first page is answered.
\<close>

definition first_page :: "(query \<Rightarrow> 'a page_reply answer) \<Rightarrow> query \<Rightarrow> 'a page_reply option" where
  "first_page h q = (case h (q(''offset'' := [])) of Answered _ p \<Rightarrow> Some p | Refused _ _ _ \<Rightarrow> None)"

text \<open>A client that asks for page after page until \<open>next_offset\<close> is 0, and at most \<open>n\<close> of them.\<close>

fun follow_pages :: "nat \<Rightarrow> (query \<Rightarrow> 'a page_reply answer) \<Rightarrow> query \<Rightarrow> int \<Rightarrow> 'a list list \<times> bool" where
  "follow_pages 0 h q off = ([], False)"
| "follow_pages (Suc n) h q off =
     (case h (q(''offset'' := dec_int off)) of
        Refused _ _ _ \<Rightarrow> ([], False)
      | Answered _ p \<Rightarrow>
          if pg_next p = 0 then ([pg_items p], True)
          else (let (ps, done) = follow_pages n h q (pg_next p) in (pg_items p # ps, done)))"

locale listing =
  fixes handle :: "query \<Rightarrow> 'a page_reply answer"
    and rows :: "query \<Rightarrow> 'a list"
  assumes first: "first_page handle q = Some p \<Longrightarrow> pg_total p = int (length (rows q))"
    and window: "first_page handle q = Some p \<Longrightarrow> 0 < pg_limit p \<Longrightarrow> query_offset (q(''offset'' := t)) = Inr off \<Longrightarrow>
      \<exists>p'. handle (q(''offset'' := t)) = Answered 200 p' \<and> pg_items p' = page (pg_limit p) off (rows q) \<and>
        pg_next p' = (if off + pg_limit p < int (length (rows q)) then off + pg_limit p else 0)"
begin

lemma follow_rest:
  assumes p: "first_page handle q = Some p" "0 < pg_limit p" and len: "int (length (rows q)) < 2 ^ 63"
    and "0 \<le> off" and "off = 0 \<or> off < int (length (rows q))" and "length (rows q) - nat off < n"
  shows "\<exists>ps. follow_pages n handle q off = (ps, True) \<and> concat ps = drop (nat off) (rows q) \<and>
    (\<forall>xs \<in> set ps. int (length xs) \<le> pg_limit p)"
  using assms(4-6)
proof (induction n arbitrary: off)
  case (Suc n)
  let ?l = "pg_limit p" and ?r = "rows q"
  have "query_offset (q(''offset'' := dec_int off)) = Inr off"
    by (rule query_offset_dec) (use Suc.prems len in auto)
  from window [OF p this] obtain p' where h: "handle (q(''offset'' := dec_int off)) = Answered 200 p'"
    "pg_items p' = page ?l off ?r" "pg_next p' = (if off + ?l < int (length ?r) then off + ?l else 0)" by blast
  show ?case
  proof (cases "off + ?l < int (length ?r)")
    case True
    then have "length ?r - nat (off + ?l) < n" using Suc.prems p(2) by linarith
    moreover have "0 \<le> off + ?l" "off + ?l = 0 \<or> off + ?l < int (length ?r)" using True Suc.prems p(2) by auto
    ultimately obtain ps where ps: "follow_pages n handle q (off + ?l) = (ps, True)" "concat ps = drop (nat (off + ?l)) ?r"
      "\<forall>xs \<in> set ps. int (length xs) \<le> ?l" using Suc.IH by blast
    have "nat (off + ?l) = nat ?l + nat off" using Suc.prems p(2) by simp
    then have "page ?l off ?r @ drop (nat (off + ?l)) ?r = drop (nat off) ?r"
      by (metis append_take_drop_id drop_drop page_def)
    moreover have "int (length (page ?l off ?r)) \<le> ?l" using p(2) by (simp add: page_def)
    ultimately show ?thesis using True h ps p(2) Suc.prems by (auto simp: Let_def)
  next
    case False
    then have "page ?l off ?r = drop (nat off) ?r" using Suc.prems p(2) by (simp add: page_def)
    moreover have "int (length (page ?l off ?r)) \<le> ?l" using p(2) by (simp add: page_def)
    ultimately show ?thesis using False h by simp
  qed
qed simp

lemma visits_all:
  assumes "first_page handle q = Some p" and "0 < pg_limit p" and "pg_total p < 2 ^ 63"
  shows "\<exists>ps. follow_pages (Suc (nat (pg_total p))) handle q 0 = (ps, True) \<and> concat ps = rows q \<and>
    (\<forall>xs \<in> set ps. int (length xs) \<le> pg_limit p)"
  using follow_rest [OF assms(1,2), of 0 "Suc (nat (pg_total p))"] first [OF assms(1)] assms(3) by simp

end

subsection \<open>The listings keep the contract\<close>

lemma with_param_Answered: "with_param c v f = Answered s x \<longleftrightarrow> (\<exists>y. v = Inr y \<and> f y = Answered s x)"
  by (auto simp: with_param_def split: sum.split)

lemma unless_Answered: "unless c e r = Answered s x \<longleftrightarrow> e = None \<and> r = Answered s x"
  by (auto simp: unless_def split: option.split)

lemma with_param_Inr [simp]: "with_param c (Inr y) f = f y"
  by (simp add: with_param_def)

lemma unless_None [simp]: "unless c None r = r"
  by (simp add: unless_def)

lemma first_page_Some: "first_page h q = Some p \<longleftrightarrow> (\<exists>s. h (q(''offset'' := [])) = Answered s p)"
  by (simp add: first_page_def split: answer.split)

lemma query_limit_offset [simp]: "query_limit (q(''offset'' := t)) ''limit'' a b = query_limit q ''limit'' a b"
  by (simp add: query_limit_def query_int_def)

lemma query_provider_model_offset [simp]: "query_provider_model (q(''offset'' := t)) = query_provider_model q"
  by (simp add: query_provider_model_def)

lemma query_offset_nonneg: "query_offset q = Inr off \<Longrightarrow> 0 \<le> off"
  using query_int_nonneg [of 0 q "''offset''" off] by (simp add: query_offset_def)

lemma trim_page:
  assumes "0 \<le> lim" and "0 \<le> off"
  shows "trim_items (page (lim + 1) off xs) lim =
    (page lim off xs, int (length (page lim off xs)), off + lim < int (length xs))"
proof -
  have l: "nat (lim + 1) = Suc (nat lim)" using assms(1) by simp
  have "lim < int (length (page (lim + 1) off xs)) \<longleftrightarrow> off + lim < int (length xs)"
    unfolding page_def l length_take length_drop using assms by linarith
  moreover have "take (nat lim) (page (lim + 1) off xs) = page lim off xs" unfolding page_def l by simp
  moreover have "page (lim + 1) off xs = page lim off xs" if "\<not> off + lim < int (length xs)"
    unfolding page_def l using that assms by simp
  ultimately show ?thesis by (auto simp: trim_items_def Let_def)
qed

lemma page_slice_page:
  assumes "0 < lim" and "0 \<le> off"
  shows "page_slice xs lim off = (page lim off xs, int (length (page lim off xs)), off + lim < int (length xs))"
proof (cases "int (length xs) \<le> off")
  case True
  then show ?thesis using assms by (simp add: page_slice_def page_def)
next
  case False
  then show ?thesis using assms by (auto simp: page_slice_def page_def Let_def min_def)
qed

definition window_reply :: "'a list \<Rightarrow> int \<Rightarrow> int \<Rightarrow> 'a page_reply" where
  "window_reply xs lim off =
     page_reply_of (page lim off xs, int (length (page lim off xs)), off + lim < int (length xs)) (int (length xs)) lim off"

lemma page_reply_fields [simp]:
  "pg_total (page_reply_of r tot lim off) = tot" "pg_limit (page_reply_of r tot lim off) = lim"
  by (simp_all add: page_reply_of_def split: prod.split)

lemma window_reply_fields [simp]:
  "pg_items (window_reply xs lim off) = page lim off xs" "pg_total (window_reply xs lim off) = int (length xs)"
  "pg_limit (window_reply xs lim off) = lim"
  by (simp_all add: window_reply_def page_reply_of_def)

lemma window_reply_next:
  assumes "0 < lim" and "0 \<le> off"
  shows "pg_next (window_reply xs lim off) = (if off + lim < int (length xs) then off + lim else 0)"
proof -
  have "int (length (page lim off xs)) = lim" if "off + lim < int (length xs)"
    unfolding page_def length_take length_drop using assms that by linarith
  then show ?thesis using assms by (simp add: window_reply_def page_reply_of_def next_offset_def)
qed

lemma window_reply_map:
  "page_reply_of (map f (page lim off xs), int (length (page lim off xs)), off + lim < int (length xs)) (int (length xs)) lim off =
     window_reply (map f xs) lim off"
  by (simp add: window_reply_def page_def take_map drop_map)

lemma listingI:
  assumes "\<And>q p. first_page h q = Some p \<Longrightarrow> pg_total p = int (length (rows q)) \<and>
      (\<forall>t off. 0 < pg_limit p \<longrightarrow> query_offset (q(''offset'' := t)) = Inr off \<longrightarrow>
        h (q(''offset'' := t)) = Answered 200 (window_reply (rows q) (pg_limit p) off))"
  shows "listing h rows"
  using assms by unfold_locales (auto simp: window_reply_next query_offset_nonneg)

definition listed_sessions :: "db \<Rightarrow> query \<Rightarrow> session_dto list" where
  "listed_sessions d q =
     map to_summary_dto (sort_desc (\<lambda>x. rfc3339nano (ss_updated x)) (map (summary_of d)
       (filter (session_where \<lparr>sq_root = trim_space (q ''project_root''), sq_provider = trim_space (q ''provider''),
          sq_model = trim_space (q ''model''), sq_mode = trim_space (q ''mode''), sq_limit = 0, sq_offset = 0\<rparr>)
         (t_sessions d))))"

lemma session_where_page: "session_where (r\<lparr>sq_limit := l, sq_offset := off\<rparr>) = session_where r"
  by (simp add: session_where_def fun_eq_iff)

lemma query_provider_model_Inr: "query_provider_model q = Inr (p, m) \<Longrightarrow> p = trim_space (q ''provider'') \<and> m = trim_space (q ''model'')"
  by (auto simp: query_provider_model_def Let_def split: if_splits)

lemma list_sessions_reply:
  assumes "query_limit q ''limit'' 50 200 = Inr lim" and "query_provider_model q = Inr pm"
    and "trim_space (q ''mode'') = [] \<or> valid_agent_mode (trim_space (q ''mode''))" and "query_offset (q(''offset'' := t)) = Inr off"
  shows "list_sessions (q(''offset'' := t)) d = Answered 200 (window_reply (listed_sessions d q) lim off)"
proof -
  have n: "0 \<le> lim" "0 \<le> off" using query_limit_bounds(1) [OF _ assms(1)] query_offset_nonneg [OF assms(4)] by simp_all
  obtain pr m where pm: "pm = (pr, m)" by fastforce
  let ?sq = "\<lparr>sq_root = trim_space (q ''project_root''), sq_provider = pr, sq_model = m, sq_mode = trim_space (q ''mode''),
    sq_limit = 0, sq_offset = 0\<rparr>"
  obtain xs where xs: "listed_sessions d q = map to_summary_dto xs" "sq_count_sessions ?sq d = Inr (int (length xs))"
    "sq_list_sessions (?sq\<lparr>sq_limit := lim + 1, sq_offset := off\<rparr>) d = Inr (page (lim + 1) off xs)"
  proof (rule that)
    let ?xs = "sort_desc (\<lambda>x. rfc3339nano (ss_updated x)) (map (summary_of d) (filter (session_where ?sq) (t_sessions d)))"
    show "listed_sessions d q = map to_summary_dto ?xs"
      using query_provider_model_Inr [of q pr m] assms(2) pm by (simp add: listed_sessions_def)
    show "sq_count_sessions ?sq d = Inr (int (length ?xs))" by (simp add: sq_count_sessions_def)
    have w: "session_where (?sq\<lparr>sq_limit := lim + 1, sq_offset := off\<rparr>) = session_where ?sq" by (rule session_where_page)
    show "sq_list_sessions (?sq\<lparr>sq_limit := lim + 1, sq_offset := off\<rparr>) d = Inr (page (lim + 1) off ?xs)"
      unfolding sq_list_sessions_def w using n by (simp add: default_limit_def)
  qed
  show ?thesis using assms n xs pm
    by (auto simp: list_sessions_def validate_project_root_text_def trim_page window_reply_map)
qed

lemma list_sessions_first:
  assumes "first_page (\<lambda>q. list_sessions q d) q = Some p"
  shows "\<exists>pm. query_limit q ''limit'' 50 200 = Inr (pg_limit p) \<and> query_provider_model q = Inr pm \<and>
    (trim_space (q ''mode'') = [] \<or> valid_agent_mode (trim_space (q ''mode''))) \<and>
    p = window_reply (listed_sessions d q) (pg_limit p) 0"
proof -
  from assms obtain lim pm where l: "query_limit q ''limit'' 50 200 = Inr lim" "query_provider_model q = Inr pm"
    "trim_space (q ''mode'') = [] \<or> valid_agent_mode (trim_space (q ''mode''))"
    by (auto simp: first_page_Some list_sessions_def with_param_Answered unless_Answered Let_def split: if_splits)
  from list_sessions_reply [OF this query_offset_none] assms have "p = window_reply (listed_sessions d q) lim 0"
    by (auto simp: first_page_Some)
  then show ?thesis using l by auto
qed

interpretation sessions: listing "\<lambda>q. list_sessions q d" "listed_sessions d" for d
proof (rule listingI)
  fix q p
  assume "first_page (\<lambda>q. list_sessions q d) q = Some p"
  from list_sessions_first [OF this] list_sessions_reply [of q "pg_limit p" _ _ _ d]
  show "pg_total p = int (length (listed_sessions d q)) \<and>
      (\<forall>t off. 0 < pg_limit p \<longrightarrow> query_offset (q(''offset'' := t)) = Inr off \<longrightarrow>
        list_sessions (q(''offset'' := t)) d = Answered 200 (window_reply (listed_sessions d q) (pg_limit p) off))"
    by (metis window_reply_fields(2))
qed

text \<open>Runs: \<open>cmd/kkode-gateway/main.go\<close> connects \<open>runManager.List\<close>, \<open>Count\<close> and \<open>Get\<close>; \<open>et\<close> is \<open>err.Error()\<close>.\<close>

definition manager_lister :: "(mgr_error \<Rightarrow> string) \<Rightarrow> run_query \<Rightarrow> 's mgr \<Rightarrow> string + run_dto list" where
  "manager_lister et rq m = (case mgr_list rq m of Inl e \<Rightarrow> Inl (et e) | Inr ds \<Rightarrow> Inr ds)"

definition manager_counter :: "(mgr_error \<Rightarrow> string) \<Rightarrow> 's mgr run_counter" where
  "manager_counter et rq m = (case mgr_count rq m of Inl e \<Rightarrow> Inl (et e) | Inr n \<Rightarrow> Inr n)"

definition manager_getter :: "(mgr_error \<Rightarrow> string) \<Rightarrow> string \<Rightarrow> 's mgr \<Rightarrow> string + run_dto" where
  "manager_getter et i m = (case mgr_get i m of Inl e \<Rightarrow> Inl (et e) | Inr d \<Rightarrow> Inr d)"

definition on_sqlite :: "db mgr \<Rightarrow> db mgr" where
  "on_sqlite m = m\<lparr>m_ops := Some sqlite_ops\<rparr>"

definition page_run_query :: "query \<Rightarrow> run_query" where
  "page_run_query q =
     \<lparr>rq_session = trim_space (q ''session_id''), rq_turn = trim_space (q ''turn_id''), rq_status = trim_space (q ''status''),
      rq_provider = trim_space (q ''provider''), rq_model = trim_space (q ''model''),
      rq_request_id = trim_space (q RequestIDMetadataKey), rq_idempotency = trim_space (q IdempotencyMetadataKey),
      rq_limit = 0, rq_offset = 0\<rparr>"

definition listed_runs :: "db mgr \<Rightarrow> query \<Rightarrow> run_dto list" where
  "listed_runs m q =
     map dto_from_run (sort_desc (\<lambda>r. rfc3339nano (r_updated r)) (filter (run_where (page_run_query q)) (t_runs (m_store m))))"

lemma run_where_page: "run_where (rq\<lparr>rq_limit := l, rq_offset := off\<rparr>) = run_where rq"
  by (simp add: run_where_def fun_eq_iff)

lemma dto_from_run_more:
  "d_turn (dto_from_run r) = r_turn r" "d_provider (dto_from_run r) = r_provider r" "d_model (dto_from_run r) = r_model r"
  by (simp_all add: dto_from_run_def apply_derived_def)

lemma run_where_matches: "run_where rq r \<Longrightarrow> run_matches_query rq (dto_from_run r)"
  by (simp add: run_where_def run_matches_query_def mget_def dto_from_run_more)

lemma run_matches_page: "run_matches_query (rq\<lparr>rq_limit := l, rq_offset := off\<rparr>) = run_matches_query rq"
  by (simp add: run_matches_query_def fun_eq_iff)

text \<open>The filter of \<open>AsyncRunManager.List\<close> after the store's own drops nothing.\<close>

lemma manager_lister_page:
  assumes "0 < lim"
  shows "manager_lister et (rq\<lparr>rq_limit := lim, rq_offset := off\<rparr>) (on_sqlite m) =
    Inr (map dto_from_run (page lim off
      (sort_desc (\<lambda>r. rfc3339nano (r_updated r)) (filter (run_where rq) (t_runs (m_store m))))))"
proof -
  let ?ys = "sort_desc (\<lambda>r. rfc3339nano (r_updated r)) (filter (run_where rq) (t_runs (m_store m)))"
  have "\<forall>r \<in> set (page lim off ?ys). run_where rq r" using set_page [of lim off ?ys] by auto
  then have "\<forall>x \<in> set (map dto_from_run (page lim off ?ys)). run_matches_query rq x"
    unfolding set_map using run_where_matches by blast
  then have "filter (run_matches_query rq) (map dto_from_run (page lim off ?ys)) = map dto_from_run (page lim off ?ys)"
    by (rule filter_True)
  moreover have "run_where (rq\<lparr>rq_offset := off, rq_limit := lim\<rparr>) = run_where rq" by (simp add: run_where_def fun_eq_iff)
  then have "sq_list_runs (rq\<lparr>rq_offset := off, rq_limit := lim\<rparr>) (m_store m) = Inr (page lim off ?ys)"
    using assms by (simp add: sq_list_runs_def default_limit_def)
  ultimately show ?thesis using assms
    by (simp add: manager_lister_def mgr_list_def on_sqlite_def sqlite_ops_def default_limit_def Let_def run_matches_page)
qed

lemma manager_counter_rows:
  "manager_counter et (page_run_query q) (on_sqlite m) = Inr (int (length (listed_runs m q)))"
proof -
  have "(page_run_query q)\<lparr>rq_limit := 0, rq_offset := 0\<rparr> = page_run_query q" by (simp add: page_run_query_def)
  then show ?thesis
    by (simp add: manager_counter_def mgr_count_def on_sqlite_def sqlite_ops_def sq_count_runs_def listed_runs_def)
qed

definition runs_accepted :: "query \<Rightarrow> bool" where
  "runs_accepted q \<longleftrightarrow>
     validate_request_id_value (trim_space (q RequestIDMetadataKey)) = None \<and>
     validate_idempotency_key_value (trim_space (q IdempotencyMetadataKey)) = None \<and>
     validate_optional_id_filter ''turn_id'' (trim_space (q ''turn_id'')) maxRunIDBytes = None \<and>
     (\<exists>pm. query_provider_model q = Inr pm) \<and>
     (trim_space (q ''status'') = [] \<or> is_valid_status (trim_space (q ''status''))) \<and>
     validate_optional_id_filter ''session_id'' (trim_space (q ''session_id'')) maxSessionIDBytes = None"

lemma list_runs_reply:
  assumes "runs_accepted q" and "query_limit q ''limit'' 50 200 = Inr lim" and "query_offset (q(''offset'' := t)) = Inr off"
    and "rc_lister cfg = Some (manager_lister et)"
  shows "list_runs cfg (Some (manager_counter et)) (q(''offset'' := t)) (on_sqlite m) =
    Answered 200 (window_reply (listed_runs m q) lim off)"
proof -
  have n: "0 \<le> lim" "0 \<le> off" using query_limit_bounds(1) [OF _ assms(2)] query_offset_nonneg [OF assms(3)] by simp_all
  obtain pr md where pm: "query_provider_model q = Inr (pr, md)" using assms(1) by (auto simp: runs_accepted_def)
  have k: "RequestIDMetadataKey \<noteq> ''offset''" "IdempotencyMetadataKey \<noteq> ''offset''"
    by (simp_all add: RequestIDMetadataKey_def IdempotencyMetadataKey_def)
  let ?rq = "\<lparr>rq_session = trim_space (q ''session_id''), rq_turn = trim_space (q ''turn_id''), rq_status = trim_space (q ''status''),
      rq_provider = pr, rq_model = md, rq_request_id = trim_space (q RequestIDMetadataKey),
      rq_idempotency = trim_space (q IdempotencyMetadataKey), rq_limit = 0, rq_offset = 0\<rparr>"
  have rq: "?rq = page_run_query q" using query_provider_model_Inr [OF pm] by (simp add: page_run_query_def)
  obtain xs where xs: "listed_runs m q = map dto_from_run xs" "manager_counter et ?rq (on_sqlite m) = Inr (int (length xs))"
    "manager_lister et (?rq\<lparr>rq_limit := lim + 1, rq_offset := off\<rparr>) (on_sqlite m) = Inr (map dto_from_run (page (lim + 1) off xs))"
  proof (rule that)
    let ?xs = "sort_desc (\<lambda>r. rfc3339nano (r_updated r)) (filter (run_where (page_run_query q)) (t_runs (m_store m)))"
    show l: "listed_runs m q = map dto_from_run ?xs" by (simp add: listed_runs_def)
    show "manager_counter et ?rq (on_sqlite m) = Inr (int (length ?xs))" unfolding rq manager_counter_rows l by simp
    show "manager_lister et (?rq\<lparr>rq_limit := lim + 1, rq_offset := off\<rparr>) (on_sqlite m) =
        Inr (map dto_from_run (page (lim + 1) off ?xs))"
      unfolding rq by (rule manager_lister_page) (use n in simp)
  qed
  have "trim_runs (map dto_from_run (page (lim + 1) off xs)) lim =
      (page lim off (map dto_from_run xs), int (length (page lim off (map dto_from_run xs))), off + lim < int (length xs))"
    using trim_page [OF n, of "map dto_from_run xs"] n by (simp add: trim_runs_def page_def take_map drop_map)
  then show ?thesis using assms n xs pm k
    by (auto simp: list_runs_def runs_accepted_def to_page_error_def count_runs_def window_reply_def)
qed

interpretation runs: listing
  "\<lambda>q. list_runs (cfg\<lparr>rc_lister := Some (manager_lister et)\<rparr>) (Some (manager_counter et)) q (on_sqlite m)" "listed_runs m"
  for cfg :: "db mgr run_config" and et m
proof (rule listingI)
  fix q p
  let ?h = "\<lambda>q. list_runs (cfg\<lparr>rc_lister := Some (manager_lister et)\<rparr>) (Some (manager_counter et)) q (on_sqlite m)"
  assume f: "first_page ?h q = Some p"
  have k: "RequestIDMetadataKey \<noteq> ''offset''" "IdempotencyMetadataKey \<noteq> ''offset''"
    by (simp_all add: RequestIDMetadataKey_def IdempotencyMetadataKey_def)
  obtain lim where l: "runs_accepted q" "query_limit q ''limit'' 50 200 = Inr lim"
    using f k by (auto simp: first_page_Some list_runs_def with_param_Answered unless_Answered Let_def runs_accepted_def
        to_page_error_def split: if_splits)
  note r = list_runs_reply [OF l, of _ _ "cfg\<lparr>rc_lister := Some (manager_lister et)\<rparr>" et m]
  have "p = window_reply (listed_runs m q) lim 0" using f r [OF query_offset_none] by (auto simp: first_page_Some)
  then show "pg_total p = int (length (listed_runs m q)) \<and>
      (\<forall>t off. 0 < pg_limit p \<longrightarrow> query_offset (q(''offset'' := t)) = Inr off \<longrightarrow>
        ?h (q(''offset'' := t)) = Answered 200 (window_reply (listed_runs m q) (pg_limit p) off))"
    using r by auto
qed

text \<open>Lists held in memory.\<close>

lemma list_page_reply:
  assumes "query_limit q ''limit'' (int (length xs)) 5000 = Inr lim" and "query_offset (q(''offset'' := t)) = Inr off" and "0 < lim"
  shows "list_page c xs (q(''offset'' := t)) = Answered 200 (window_reply xs lim off)"
  using assms by (simp add: list_page_def page_slice_page query_offset_nonneg window_reply_def)

lemma list_page_listing:
  assumes "\<And>q t. xs (q(''offset'' := t)) = xs q"
  shows "listing (\<lambda>q. list_page c (xs q) q) xs"
proof (rule listingI)
  fix q p
  assume f: "first_page (\<lambda>q. list_page c (xs q) q) q = Some p"
  then obtain lim where l: "query_limit q ''limit'' (int (length (xs q))) 5000 = Inr lim" "pg_limit p = lim"
      "pg_total p = int (length (xs q))"
    using assms by (auto simp: first_page_Some list_page_def with_param_Answered)
  then show "pg_total p = int (length (xs q)) \<and>
      (\<forall>t off. 0 < pg_limit p \<longrightarrow> query_offset (q(''offset'' := t)) = Inr off \<longrightarrow>
        list_page c (xs (q(''offset'' := t))) (q(''offset'' := t)) = Answered 200 (window_reply (xs q) (pg_limit p) off))"
    using assms list_page_reply [OF l(1)] by auto
qed

interpretation providers: listing "list_providers u ps" "\<lambda>q. providers_for_discovery u ps" for u ps
  using list_page_listing [of "\<lambda>q. providers_for_discovery u ps" "''invalid_provider_list''"]
  unfolding list_providers_def [abs_def] by simp

definition listed_models ::
  "(string \<Rightarrow> string) \<Rightarrow> (string \<Rightarrow> string \<Rightarrow> bool) \<Rightarrow> provider_dto list \<Rightarrow> query \<Rightarrow> model_dto list" where
  "listed_models u ef ps q =
     concat (map models_of (filter (\<lambda>p. trim_space (q ''provider'') = [] \<or> provider_matches ef p (trim_space (q ''provider'')))
       (providers_for_discovery u ps)))"

lemma list_models_page:
  "list_models u ef ps q =
     (if maxRunProviderModelBytes < int (length (trim_space (q ''provider'')))
      then Refused 400 ''invalid_model_list'' (FieldTooLarge ''provider'' maxRunProviderModelBytes)
      else list_page ''invalid_model_list'' (listed_models u ef ps q) q)"
  by (simp add: list_models_def listed_models_def Let_def)

interpretation models: listing "list_models u ef ps" "listed_models u ef ps" for u ef ps
proof (rule listingI)
  fix q p
  assume f: "first_page (list_models u ef ps) q = Some p"
  have l: "listing (\<lambda>q. list_page ''invalid_model_list'' (listed_models u ef ps q) q) (listed_models u ef ps)"
    by (rule list_page_listing) (simp add: listed_models_def)
  have o: "listed_models u ef ps (q(''offset'' := t)) = listed_models u ef ps q" for t by (simp add: listed_models_def)
  obtain lim where lim: "query_limit q ''limit'' (int (length (listed_models u ef ps q))) 5000 = Inr lim" "pg_limit p = lim"
      "pg_total p = int (length (listed_models u ef ps q))" "\<not> maxRunProviderModelBytes < int (length (trim_space (q ''provider'')))"
    using f o by (auto simp: first_page_Some list_models_page list_page_def with_param_Answered split: if_splits)
  then show "pg_total p = int (length (listed_models u ef ps q)) \<and>
      (\<forall>t off. 0 < pg_limit p \<longrightarrow> query_offset (q(''offset'' := t)) = Inr off \<longrightarrow>
        list_models u ef ps (q(''offset'' := t)) = Answered 200 (window_reply (listed_models u ef ps q) (pg_limit p) off))"
    using list_page_reply [OF lim(1)] o by (auto simp: list_models_page)
qed

text \<open>
  C20: following the pages of a listing. A client that starts without an offset and follows \<open>next_offset\<close> until it is 0
  gets, page by page, every session, run, provider or model that its query selects, each exactly once, in the order of
  the listing, never more than the limit at a time, and is done after at most one page per row and one more.
\<close>

theorem pages_visit_everything:
  "(first_page (\<lambda>q. list_sessions q d) q = Some ps \<and> 0 < pg_limit ps \<and> pg_total ps < 2 ^ 63 \<longrightarrow>
      (\<exists>pages. follow_pages (Suc (nat (pg_total ps))) (\<lambda>q. list_sessions q d) q 0 = (pages, True) \<and>
        concat pages = listed_sessions d q \<and> (\<forall>xs \<in> set pages. int (length xs) \<le> pg_limit ps))) \<and>
   (rc_lister cfg = Some (manager_lister et) \<and> m_ops m = Some sqlite_ops \<and>
    first_page (\<lambda>q. list_runs cfg (Some (manager_counter et)) q m) q = Some pr \<and> 0 < pg_limit pr \<and> pg_total pr < 2 ^ 63 \<longrightarrow>
      (\<exists>pages. follow_pages (Suc (nat (pg_total pr))) (\<lambda>q. list_runs cfg (Some (manager_counter et)) q m) q 0 = (pages, True) \<and>
        concat pages = listed_runs m q \<and> (\<forall>xs \<in> set pages. int (length xs) \<le> pg_limit pr))) \<and>
   (first_page (list_providers u pvs) q = Some pp \<and> 0 < pg_limit pp \<and> pg_total pp < 2 ^ 63 \<longrightarrow>
      (\<exists>pages. follow_pages (Suc (nat (pg_total pp))) (list_providers u pvs) q 0 = (pages, True) \<and>
        concat pages = providers_for_discovery u pvs \<and> (\<forall>xs \<in> set pages. int (length xs) \<le> pg_limit pp))) \<and>
   (first_page (list_models u ef pvs) q = Some pm \<and> 0 < pg_limit pm \<and> pg_total pm < 2 ^ 63 \<longrightarrow>
      (\<exists>pages. follow_pages (Suc (nat (pg_total pm))) (list_models u ef pvs) q 0 = (pages, True) \<and>
        concat pages = listed_models u ef pvs q \<and> (\<forall>xs \<in> set pages. int (length xs) \<le> pg_limit pm)))"
proof (intro conjI impI; elim conjE)
  assume "rc_lister cfg = Some (manager_lister et)" and "m_ops m = Some sqlite_ops"
  then have e: "cfg\<lparr>rc_lister := Some (manager_lister et)\<rparr> = cfg" "on_sqlite m = m" by (simp_all add: on_sqlite_def)
  assume "first_page (\<lambda>q. list_runs cfg (Some (manager_counter et)) q m) q = Some pr" and "0 < pg_limit pr" and "pg_total pr < 2 ^ 63"
  then show "\<exists>pages. follow_pages (Suc (nat (pg_total pr))) (\<lambda>q. list_runs cfg (Some (manager_counter et)) q m) q 0 = (pages, True) \<and>
      concat pages = listed_runs m q \<and> (\<forall>xs \<in> set pages. int (length xs) \<le> pg_limit pr)"
    using runs.visits_all [where cfg = cfg and et = et and m = m and q = q and p = pr, unfolded e] by blast
qed (simp_all only: sessions.visits_all providers.visits_all models.visits_all)

definition demo_page_query :: query where
  "demo_page_query key = (if key = ''limit'' then ''1'' else [])"

definition demo_page_db :: db where
  "demo_page_db = demo_db\<lparr>t_sessions := t_sessions demo_db @ map (\<lambda>r. r\<lparr>sr_id := ''s2'', sr_updated := 2\<rparr>) (t_sessions demo_db),
     t_runs := [demo_run, demo_run\<lparr>r_id := ''r2''\<rparr>]\<rparr>"

definition demo_page_mgr :: "db mgr" where
  "demo_page_mgr = new_manager (Some sqlite_ops) demo_page_db None demo_world"

definition demo_page_config :: "db mgr run_config" where
  "demo_page_config = \<lparr>rc_starter = None, rc_validator = None, rc_lister = Some (manager_lister (\<lambda>e. [])),
     rc_getter = None, rc_previewer = None, rc_default_mcp = []\<rparr>"

definition demo_provider :: provider_dto where
  "demo_provider = \<lparr>pv_name = ''a'', pv_aliases = [], pv_models = [''m2'', ''m1''], pv_default = ''m2'', pv_capabilities = [],
     pv_auth_status = [], pv_auth_env = [], pv_conversion = None\<rparr>"

definition page_bounds :: "'a page_reply option \<Rightarrow> (int \<times> int) option" where
  "page_bounds p = map_option (\<lambda>p. (pg_limit p, pg_total p)) p"

lemma page_bounds_Some: "page_bounds x = Some (l, t) \<Longrightarrow> \<exists>p. x = Some p \<and> pg_limit p = l \<and> pg_total p = t"
  by (auto simp: page_bounds_def)

lemma demo_bounds:
  "page_bounds (first_page (list_providers id [demo_provider]) demo_page_query) = Some (1, 1) \<and>
   page_bounds (first_page (list_models id (\<lambda>s t. False) [demo_provider]) demo_page_query) = Some (1, 2)"
  by code_simp

lemma demo_session_bounds: "page_bounds (first_page (\<lambda>q. list_sessions q demo_page_db) demo_page_query) = Some (1, 2)"
proof -
  have "query_limit demo_page_query ''limit'' 50 200 = Inr 1" "query_provider_model demo_page_query = Inr ([], [])"
    "trim_space (demo_page_query ''mode'') = []" by code_simp+
  from list_sessions_reply [OF this(1,2) disjI1 [OF this(3)] query_offset_none, of demo_page_db]
  have "first_page (\<lambda>q. list_sessions q demo_page_db) demo_page_query =
      Some (window_reply (listed_sessions demo_page_db demo_page_query) 1 0)" by (simp add: first_page_def)
  moreover have "length (filter (session_where \<lparr>sq_root = trim_space (demo_page_query ''project_root''),
      sq_provider = trim_space (demo_page_query ''provider''), sq_model = trim_space (demo_page_query ''model''),
      sq_mode = trim_space (demo_page_query ''mode''), sq_limit = 0, sq_offset = 0\<rparr>) (t_sessions demo_page_db)) = 2"
    by code_simp
  ultimately show ?thesis by (simp add: page_bounds_def listed_sessions_def)
qed

lemma demo_run_bounds:
  "page_bounds (first_page (\<lambda>q. list_runs demo_page_config (Some (manager_counter (\<lambda>e. []))) q demo_page_mgr) demo_page_query) = Some (1, 2)"
proof -
  have "runs_accepted demo_page_query"
    unfolding runs_accepted_def by (intro conjI exI [of _ "([], [])"]; code_simp)
  moreover have "query_limit demo_page_query ''limit'' 50 200 = Inr 1" by code_simp
  moreover have "rc_lister demo_page_config = Some (manager_lister (\<lambda>e. []))" by (simp add: demo_page_config_def)
  ultimately have "list_runs demo_page_config (Some (manager_counter (\<lambda>e. []))) (demo_page_query(''offset'' := [])) (on_sqlite demo_page_mgr) =
      Answered 200 (window_reply (listed_runs demo_page_mgr demo_page_query) 1 0)"
    by (rule list_runs_reply [OF _ _ query_offset_none])
  moreover have "on_sqlite demo_page_mgr = demo_page_mgr" by (simp add: on_sqlite_def demo_page_mgr_def new_manager_def)
  moreover have "length (filter (run_where (page_run_query demo_page_query)) (t_runs (m_store demo_page_mgr))) = 2" by code_simp
  ultimately show ?thesis by (simp add: page_bounds_def first_page_def listed_runs_def)
qed

theorem pages_visit_everything_witness:
  "(\<exists>pages. follow_pages 3 (\<lambda>q. list_sessions q demo_page_db) demo_page_query 0 = (pages, True) \<and>
      concat pages = listed_sessions demo_page_db demo_page_query) \<and>
   (\<exists>pages. follow_pages 3 (\<lambda>q. list_runs demo_page_config (Some (manager_counter (\<lambda>e. []))) q demo_page_mgr) demo_page_query 0 =
      (pages, True) \<and> concat pages = listed_runs demo_page_mgr demo_page_query) \<and>
   (\<exists>pages. follow_pages 2 (list_providers id [demo_provider]) demo_page_query 0 = (pages, True) \<and>
      concat pages = providers_for_discovery id [demo_provider]) \<and>
   (\<exists>pages. follow_pages 3 (list_models id (\<lambda>s t. False) [demo_provider]) demo_page_query 0 = (pages, True) \<and>
      concat pages = listed_models id (\<lambda>s t. False) [demo_provider] demo_page_query)"
proof -
  obtain ps pr pp pm where b:
    "first_page (\<lambda>q. list_sessions q demo_page_db) demo_page_query = Some ps" "pg_limit ps = 1" "pg_total ps = 2"
    "first_page (\<lambda>q. list_runs demo_page_config (Some (manager_counter (\<lambda>e. []))) q demo_page_mgr) demo_page_query = Some pr"
    "pg_limit pr = 1" "pg_total pr = 2"
    "first_page (list_providers id [demo_provider]) demo_page_query = Some pp" "pg_limit pp = 1" "pg_total pp = 1"
    "first_page (list_models id (\<lambda>s t. False) [demo_provider]) demo_page_query = Some pm" "pg_limit pm = 1" "pg_total pm = 2"
    using page_bounds_Some [OF demo_session_bounds] page_bounds_Some [OF demo_run_bounds]
      page_bounds_Some [OF demo_bounds [THEN conjunct1]] page_bounds_Some [OF demo_bounds [THEN conjunct2]] by blast
  have c: "rc_lister demo_page_config = Some (manager_lister (\<lambda>e. []))" "m_ops demo_page_mgr = Some sqlite_ops"
    by (simp_all add: demo_page_config_def demo_page_mgr_def new_manager_def)
  have n: "Suc (nat 2) = 3" "Suc (nat 1) = 2" by simp_all
  show ?thesis
    using pages_visit_everything [where d = demo_page_db and q = demo_page_query and ps = ps and cfg = demo_page_config and
        et = "\<lambda>e. []" and m = demo_page_mgr and pr = pr and u = id and pvs = "[demo_provider]" and pp = pp and
        ef = "\<lambda>s t. False" and pm = pm] b c
    unfolding n b by auto
qed

end
