(* ===== verification/Go_Json.thy ===== *)
theory Go_Json
  imports Go_Base
begin

section \<open>Validity of JSON text\<close>

text \<open>
  \<open>json.Valid\<close>, which \<open>json.Marshal\<close> also applies to every \<open>json.RawMessage\<close>. The recursion takes fuel, twice the
  length of the text, which is enough (\<open>json_fuel\<close>); the limit of 10000 nested values is not modelled.
\<close>

definition json_ws :: "string \<Rightarrow> string" where
  "json_ws s = dropWhile (\<lambda>c. c \<in> {CHR '' '', CHR 0x09, CHR 0x0A, CHR 0x0D}) s"

definition json_digit :: "char \<Rightarrow> bool" where
  "json_digit c \<longleftrightarrow> 48 \<le> (of_char c :: nat) \<and> of_char c \<le> (57 :: nat)"

definition json_hex :: "char \<Rightarrow> bool" where
  "json_hex c \<longleftrightarrow> json_digit c \<or> c \<in> set ''abcdefABCDEF''"

text \<open>The rest of a text after a string whose opening quote has been read.\<close>

function json_string :: "string \<Rightarrow> string option" where
  "json_string [] = None"
| "json_string (c # r) =
     (if c = CHR 0x22 then Some r
      else if c = CHR 0x5C then
        (case r of
           [] \<Rightarrow> None
         | e # r1 \<Rightarrow>
             if e \<in> {CHR 0x22, CHR 0x5C, CHR ''/'', CHR ''b'', CHR ''f'', CHR ''n'', CHR ''r'', CHR ''t''} then json_string r1
             else if e = CHR ''u'' \<and> 4 \<le> length r1 \<and> list_all json_hex (take 4 r1) then json_string (drop 4 r1)
             else None)
      else if of_char c < (32 :: nat) then None
      else json_string r)"
  by pat_completeness auto
termination by (relation "measure length") auto

definition json_exp :: "string \<Rightarrow> string option" where
  "json_exp s =
     (case s of
        [] \<Rightarrow> Some []
      | c # r \<Rightarrow>
          if c = CHR ''e'' \<or> c = CHR ''E'' then
            (let r1 = (case r of d # r' \<Rightarrow> if d = CHR ''+'' \<or> d = CHR ''-'' then r' else r | [] \<Rightarrow> r)
             in if r1 \<noteq> [] \<and> json_digit (hd r1) then Some (dropWhile json_digit r1) else None)
          else Some s)"

definition json_frac :: "string \<Rightarrow> string option" where
  "json_frac s =
     (case s of
        [] \<Rightarrow> Some []
      | c # r \<Rightarrow>
          if c = CHR ''.'' then (if r \<noteq> [] \<and> json_digit (hd r) then json_exp (dropWhile json_digit r) else None)
          else json_exp s)"

definition json_number :: "string \<Rightarrow> string option" where
  "json_number s =
     (case (case s of c # r \<Rightarrow> if c = CHR ''-'' then r else s | [] \<Rightarrow> s) of
        [] \<Rightarrow> None
      | c # r \<Rightarrow>
          if c = CHR ''0'' then json_frac r
          else if json_digit c then json_frac (dropWhile json_digit r) else None)"

definition json_literal :: "string \<Rightarrow> string option" where
  "json_literal s =
     (if has_prefix ''true'' s then Some (drop 4 s)
      else if has_prefix ''false'' s then Some (drop 5 s)
      else if has_prefix ''null'' s then Some (drop 4 s)
      else json_number s)"

definition json_expect :: "char \<Rightarrow> string \<Rightarrow> string option" where
  "json_expect x s = (case json_ws s of [] \<Rightarrow> None | c # r \<Rightarrow> if c = x then Some r else None)"

fun json_value :: "nat \<Rightarrow> string \<Rightarrow> string option"
  and json_elems :: "nat \<Rightarrow> string \<Rightarrow> string option"
  and json_members :: "nat \<Rightarrow> string \<Rightarrow> string option" where
  "json_value 0 s = None"
| "json_value (Suc n) s =
     (case json_ws s of
        [] \<Rightarrow> None
      | c # r \<Rightarrow>
          if c = CHR 0x22 then json_string r
          else if c = CHR ''{'' then (case json_expect CHR ''}'' r of Some r1 \<Rightarrow> Some r1 | None \<Rightarrow> json_members n r)
          else if c = CHR ''['' then (case json_expect CHR '']'' r of Some r1 \<Rightarrow> Some r1 | None \<Rightarrow> json_elems n r)
          else json_literal (c # r))"
| "json_elems 0 s = None"
| "json_elems (Suc n) s =
     (case json_value n s of
        None \<Rightarrow> None
      | Some r \<Rightarrow> (case json_expect CHR '','' r of Some r1 \<Rightarrow> json_elems n r1 | None \<Rightarrow> json_expect CHR '']'' r))"
| "json_members 0 s = None"
| "json_members (Suc n) s =
     (case Option.bind (Option.bind (json_expect CHR 0x22 s) json_string) (json_expect CHR '':'') of
        None \<Rightarrow> None
      | Some r2 \<Rightarrow>
          (case json_value n r2 of
             None \<Rightarrow> None
           | Some r3 \<Rightarrow> (case json_expect CHR '','' r3 of Some r4 \<Rightarrow> json_members n r4 | None \<Rightarrow> json_expect CHR ''}'' r3)))"

definition json_valid :: "string \<Rightarrow> bool" where
  "json_valid s = (case json_value (2 * length s + 2) s of None \<Rightarrow> False | Some r \<Rightarrow> json_ws r = [])"

subsection \<open>Enough fuel\<close>

lemma json_ws_length: "length (json_ws s) \<le> length s"
  by (simp add: json_ws_def length_dropWhile_le)

lemma json_string_length: "json_string s = Some r \<Longrightarrow> length r < length s"
proof (induction s arbitrary: r rule: json_string.induct)
  case (2 c s)
  then show ?case by (fastforce split: if_splits list.splits)
qed simp

lemma drop_digits: "length (dropWhile json_digit s) \<le> length s"
  by (rule length_dropWhile_le)

lemma json_exp_length: "json_exp s = Some r \<Longrightarrow> length r \<le> length s"
  using drop_digits by (auto simp: json_exp_def Let_def le_SucI split: list.splits if_splits)

lemma json_exp_digits: "json_exp (dropWhile json_digit s) = Some r \<Longrightarrow> length r \<le> length s"
  using json_exp_length drop_digits le_trans by blast

lemma json_frac_length: "json_frac s = Some r \<Longrightarrow> length r \<le> length s"
  by (auto simp: json_frac_def le_SucI dest: json_exp_length json_exp_digits split: list.splits if_splits)

lemma json_frac_digits: "json_frac (dropWhile json_digit s) = Some r \<Longrightarrow> length r \<le> length s"
  using json_frac_length drop_digits le_trans by blast

lemma json_number_length: "json_number s = Some r \<Longrightarrow> length r < length s"
  by (auto simp: json_number_def less_Suc_eq_le le_SucI dest: json_frac_length json_frac_digits split: list.splits if_splits)

lemma json_literal_length: "json_literal s = Some r \<Longrightarrow> length r < length s"
  by (auto simp: json_literal_def json_number_length has_prefix_iff prefix_def split: if_splits)

lemma json_expect_length: "json_expect x s = Some r \<Longrightarrow> length r < length s"
  using json_ws_length [of s] by (auto simp: json_expect_def split: list.splits if_splits)

lemma json_head_length: "json_ws s = c # r \<Longrightarrow> length r < length s"
  using json_ws_length [of s] by simp

lemma json_key_length:
  "Option.bind (Option.bind (json_expect a s) json_string) (json_expect b) = Some r \<Longrightarrow> length r + 2 < length s"
  by (fastforce simp: bind_eq_Some_conv dest!: json_expect_length json_string_length)

lemma json_lengths:
  "json_value n s = Some r \<Longrightarrow> length r < length s"
  "json_elems n s = Some r \<Longrightarrow> length r < length s"
  "json_members n s = Some r \<Longrightarrow> length r < length s"
proof (induction n s and n s and n s arbitrary: r and r and r rule: json_value_json_elems_json_members.induct)
  case (2 n s)
  then obtain c t where c: "json_ws s = c # t" by (cases "json_ws s") auto
  have l: "length t < length s" by (rule json_head_length [OF c])
  show ?case
    using 2 c l json_string_length [of t r] json_literal_length [of "c # t" r] json_expect_length [of "CHR ''}''" t]
      json_expect_length [of "CHR '']''" t]
    by (fastforce split: if_splits option.splits)
next
  case (4 n s)
  then obtain r0 where r0: "json_value n s = Some r0" by (auto split: option.splits)
  then have "length r0 < length s" using 4(1) by blast
  then show ?case using 4 r0 json_expect_length [of "CHR '',''" r0] json_expect_length [of "CHR '']''" r0]
    by (fastforce split: option.splits)
next
  case (6 n s)
  then obtain r2 r3 where u: "Option.bind (Option.bind (json_expect CHR 0x22 s) json_string) (json_expect CHR '':'') = Some r2"
    "json_value n r2 = Some r3" by (auto split: option.splits)
  then have "length r2 + 2 < length s" "length r3 < length r2" using 6(1) json_key_length by auto
  then show ?case using 6(2) 6(3) u json_expect_length [of "CHR '',''" r3] json_expect_length [of "CHR ''}''" r3]
    by (fastforce split: option.splits)
qed simp_all

text \<open>With this much fuel, more makes no difference.\<close>

lemma json_fuel:
  "2 * length s < n \<Longrightarrow> json_value (n + k) s = json_value n s"
  "2 * length s + 1 < n \<Longrightarrow> json_elems (n + k) s = json_elems n s"
  "2 * length s < n \<Longrightarrow> json_members (n + k) s = json_members n s"
proof (induction n s and n s and n s rule: json_value_json_elems_json_members.induct)
  case (2 n s)
  show ?case
  proof (cases "json_ws s")
    case (Cons c t)
    then have "length t < length s" by (rule json_head_length)
    then show ?thesis using 2 Cons by (auto split: option.splits)
  qed simp
next
  case (4 n s)
  have v: "json_value (n + k) s = json_value n s" using 4 by simp
  show ?case
  proof (cases "json_value n s")
    case (Some r)
    then have "length r < length s" by (rule json_lengths(1))
    then show ?thesis using 4 v Some json_expect_length [of "CHR '',''" r] by (auto split: option.split)
  qed (use v in simp)
next
  case (6 n s)
  show ?case
  proof (cases "Option.bind (Option.bind (json_expect CHR 0x22 s) json_string) (json_expect CHR '':'')")
    case (Some r2)
    then have l: "length r2 + 2 < length s" by (rule json_key_length)
    then have v: "json_value (n + k) r2 = json_value n r2" using 6(1) [OF Some] "6.prems" by simp
    show ?thesis
    proof (cases "json_value n r2")
      case (Some r3)
      then have "length r3 < length r2" by (rule json_lengths(1))
      then show ?thesis using 6 v l Some \<open>_ = Some r2\<close> json_expect_length [of "CHR '',''" r3] by (auto split: option.split)
    qed (use v Some in simp)
  qed simp
qed simp_all

end
