(* ===== verification/Gateway_Stream.thy ===== *)
theory Gateway_Stream
  imports Gateway_Pages Run_Lifecycle Go_Json
begin

section \<open>Package gateway: the event stream of a run\<close>

text \<open>
  \<open>GET /runs/{id}/events\<close> of \<open>gateway/server.go\<close>: the page of a run's events, and their server-sent event stream.
  The stream's loop selects among the end of the request, the heartbeat timer and the subscriber's channel; the list of
  what it selects is an input of the model, so that every schedule is covered. A frame is an event as it is written
  (redacted, with its id) or a heartbeat.
\<close>

subsection \<open>The boundary to the run manager\<close>

record 'w event_config =
  ec_getter :: "(string \<Rightarrow> 'w \<Rightarrow> string + run_dto) option"
  ec_lister :: "(string \<Rightarrow> int \<Rightarrow> string \<Rightarrow> int \<Rightarrow> 'w \<Rightarrow> (string + run_event_dto list) \<times> 'w) option"
  ec_run_feed :: "(string \<Rightarrow> 'w \<Rightarrow> nat \<times> 'w) option"
  ec_run_unsubscribe :: "string \<Rightarrow> nat \<Rightarrow> 'w \<Rightarrow> 'w"
  ec_event_feed :: "(string \<Rightarrow> 'w \<Rightarrow> nat \<times> 'w) option"
  ec_event_unsubscribe :: "string \<Rightarrow> nat \<Rightarrow> 'w \<Rightarrow> 'w"
  ec_now :: "'w \<Rightarrow> gtime \<times> 'w"

definition type_matches :: "string \<Rightarrow> string \<Rightarrow> bool" where
  "type_matches tf t \<longleftrightarrow> tf = [] \<or> t = tf"

subsection \<open>The listed events\<close>

definition fallback_event :: "gtime \<Rightarrow> run_dto \<Rightarrow> run_event_dto" where
  "fallback_event t d = zero_event_dto\<lparr>v_seq := 1, v_at := t, v_type := run_event_type (d_status d), v_run := d\<rparr>"

definition snapshot_fallback ::
  "'w event_config \<Rightarrow> run_dto \<Rightarrow> int \<Rightarrow> string \<Rightarrow> 'w \<Rightarrow> run_event_dto list \<times> 'w" where
  "snapshot_fallback cfg fb after tf w =
     (if 1 \<le> after then ([], w)
      else (let (t, w1) = ec_now cfg w; ev = fallback_event t fb
            in if \<not> type_matches tf (v_type ev) then ([], w1) else ([redact_run_event ev], w1)))"

definition event_snapshot ::
  "'w event_config \<Rightarrow> string \<Rightarrow> run_dto \<Rightarrow> int \<Rightarrow> string \<Rightarrow> int \<Rightarrow> 'w \<Rightarrow> run_event_dto list \<times> 'w" where
  "event_snapshot cfg i fb after tf lim w =
     (case ec_lister cfg of
        None \<Rightarrow> snapshot_fallback cfg fb after tf w
      | Some lister \<Rightarrow>
          (case lister i after tf lim w of
             (Inl e, w1) \<Rightarrow> snapshot_fallback cfg fb after tf w1
           | (Inr es, w1) \<Rightarrow>
               (if es \<noteq> [] then (map redact_run_event es, w1)
                else if 0 < after \<or> tf \<noteq> [] then ([], w1)
                else snapshot_fallback cfg fb after tf w1)))"

record event_page =
  ep_events :: "run_event_dto list"
  ep_after :: int
  ep_limit :: int
  ep_truncated :: bool
  ep_next :: int

definition trim_run_events :: "run_event_dto list \<Rightarrow> int \<Rightarrow> run_event_dto list \<times> bool \<times> int" where
  "trim_run_events es lim =
     (let truncated = lim < int (length es); ys = (if truncated then take (nat lim) es else es)
      in (ys, truncated, if truncated \<and> ys \<noteq> [] then v_seq (last ys) else 0))"

definition event_snapshot_page ::
  "'w event_config \<Rightarrow> string \<Rightarrow> run_dto \<Rightarrow> int \<Rightarrow> string \<Rightarrow> int \<Rightarrow> 'w \<Rightarrow> event_page \<times> 'w" where
  "event_snapshot_page cfg i fb after tf lim w =
     (let (es, w1) = event_snapshot cfg i fb after tf (lim + 1) w; (ys, truncated, next) = trim_run_events es lim
      in (\<lparr>ep_events = ys, ep_after = after, ep_limit = lim, ep_truncated = truncated, ep_next = next\<rparr>, w1))"

subsection \<open>The stream\<close>

datatype frame = Heartbeat | Event_Frame run_event_dto

datatype 'm sse_input = Client_Gone | Beat | Channel_Closed | Received 'm

text \<open>
  \<open>writeRunSSEEvent\<close> and \<open>writeSSEFrame\<close>: the event is redacted and marshalled; when that fails, which it does when the
  redacted payload is not JSON, nothing is written.
\<close>

definition event_frame :: "run_event_dto \<Rightarrow> frame list" where
  "event_frame ev =
     (let r = redact_run_event ev in if v_payload r = [] \<or> json_valid (v_payload r) then [Event_Frame r] else [])"

text \<open>What ins written before the loop: the frames, the last id and the last status.\<close>

definition sse_start ::
  "'w event_config \<Rightarrow> string \<Rightarrow> run_dto \<Rightarrow> int \<Rightarrow> string \<Rightarrow> int \<Rightarrow> 'w \<Rightarrow> (frame list \<times> int \<times> string) \<times> 'w" where
  "sse_start cfg i d after tf lim w =
     (let (es, w1) = event_snapshot cfg i d after tf lim w;
          sq = (if es = [] then 0 else v_seq (last es));
          st = (if es = [] then d_status d else d_status (v_run (last es)))
      in if sq \<noteq> 0 then ((concat (map event_frame es), sq, st), w1)
         else (let (t, w2) = ec_now cfg w1; ev = fallback_event t d
               in ((concat (map event_frame es) @ (if type_matches tf (v_type ev) then event_frame ev else []), 1, st), w2)))"

definition renumber :: "int \<Rightarrow> run_event_dto \<Rightarrow> run_event_dto \<times> int" where
  "renumber sq ev = (if v_seq ev \<le> sq then (ev\<lparr>v_seq := sq + 1\<rparr>, sq + 1) else (ev, v_seq ev))"

definition stamp :: "('w \<Rightarrow> gtime \<times> 'w) \<Rightarrow> run_event_dto \<Rightarrow> 'w \<Rightarrow> run_event_dto \<times> 'w" where
  "stamp nw ev w = (if is_zero (v_at ev) then (let (t, w1) = nw w in (ev\<lparr>v_at := t\<rparr>, w1)) else (ev, w))"

text \<open>The loop over event messages: the frames, whether it has returned, and the state.\<close>

fun sse_events ::
  "('w \<Rightarrow> gtime \<times> 'w) \<Rightarrow> string \<Rightarrow> int \<Rightarrow> run_event_dto sse_input list \<Rightarrow> 'w \<Rightarrow> (frame list \<times> bool) \<times> 'w" where
  "sse_events nw tf sq [] w = (([], False), w)"
| "sse_events nw tf sq (Client_Gone # ins) w = (([], True), w)"
| "sse_events nw tf sq (Beat # ins) w =
     (let ((fs, fin), w1) = sse_events nw tf sq ins w in ((Heartbeat # fs, fin), w1))"
| "sse_events nw tf sq (Channel_Closed # ins) w = (([], True), w)"
| "sse_events nw tf sq (Received ev # ins) w =
     (let terminal = is_terminal (d_status (v_run ev))
      in if \<not> type_matches tf (v_type ev)
         then (if terminal then (([], True), w) else sse_events nw tf sq ins w)
         else (let (ev1, sq1) = renumber sq ev; (ev2, w1) = stamp nw ev1 w
               in if terminal then ((event_frame ev2, True), w1)
                  else (let ((fs, fin), w2) = sse_events nw tf sq1 ins w1 in ((event_frame ev2 @ fs, fin), w2))))"

text \<open>The loop over run snapshots.\<close>

fun sse_runs ::
  "('w \<Rightarrow> gtime \<times> 'w) \<Rightarrow> string \<Rightarrow> int \<Rightarrow> run_dto sse_input list \<Rightarrow> 'w \<Rightarrow> (frame list \<times> bool) \<times> 'w" where
  "sse_runs nw tf sq [] w = (([], False), w)"
| "sse_runs nw tf sq (Client_Gone # ins) w = (([], True), w)"
| "sse_runs nw tf sq (Beat # ins) w =
     (let ((fs, fin), w1) = sse_runs nw tf sq ins w in ((Heartbeat # fs, fin), w1))"
| "sse_runs nw tf sq (Channel_Closed # ins) w = (([], True), w)"
| "sse_runs nw tf sq (Received d # ins) w =
     (let (t, w1) = nw w; ev = (fallback_event t d)\<lparr>v_seq := sq + 1\<rparr>
      in if \<not> type_matches tf (v_type ev) then sse_runs nw tf sq ins w1
         else if is_terminal (d_status d) then ((event_frame ev, True), w1)
         else (let ((fs, fin), w2) = sse_runs nw tf (sq + 1) ins w1 in ((event_frame ev @ fs, fin), w2)))"

text \<open>\<open>writeRunSSE\<close>: what the two channels deliver is given for each of them.\<close>

definition write_run_sse ::
  "'w event_config \<Rightarrow> string \<Rightarrow> run_dto \<Rightarrow> int \<Rightarrow> string \<Rightarrow> int \<Rightarrow>
   run_event_dto sse_input list \<Rightarrow> run_dto sse_input list \<Rightarrow> 'w \<Rightarrow> (frame list \<times> bool) \<times> 'w" where
  "write_run_sse cfg i d after tf lim evs runs w =
     (let ((fs, sq, st), w1) = sse_start cfg i d after tf lim w
      in if is_terminal st \<or> (ec_run_feed cfg = None \<and> ec_event_feed cfg = None) then ((fs, True), w1)
         else (let ((fs', fin), w2) = (if ec_event_feed cfg \<noteq> None then sse_events (ec_now cfg) tf sq evs w1
                                       else sse_runs (ec_now cfg) tf sq runs w1)
               in ((fs @ fs', fin), w2)))"

subsection \<open>The handler\<close>

definition query_heartbeat :: "query \<Rightarrow> page_error + int" where
  "query_heartbeat q =
     (case query_limit q ''heartbeat_ms'' 15000 300000 of
        Inl e \<Rightarrow> Inl e
      | Inr ms0 \<Rightarrow> (let ms = (if ms0 = 0 then 15000 else ms0) in Inr ((if ms < 10 then 10 else ms) * 1000000)))"

datatype feed = No_Feed | Run_Feed nat | Event_Feed nat

definition open_feed :: "'w event_config \<Rightarrow> bool \<Rightarrow> string \<Rightarrow> 'w \<Rightarrow> feed \<times> 'w" where
  "open_feed cfg stream i w =
     (if \<not> stream then (No_Feed, w)
      else (case ec_event_feed cfg of
              Some f \<Rightarrow> (let (c, w1) = f i w in (Event_Feed c, w1))
            | None \<Rightarrow> (case ec_run_feed cfg of Some f \<Rightarrow> (let (c, w1) = f i w in (Run_Feed c, w1)) | None \<Rightarrow> (No_Feed, w))))"

definition close_feed :: "'w event_config \<Rightarrow> string \<Rightarrow> feed \<Rightarrow> 'w \<Rightarrow> 'w" where
  "close_feed cfg i f w =
     (case f of No_Feed \<Rightarrow> w | Run_Feed c \<Rightarrow> ec_run_unsubscribe cfg i c w | Event_Feed c \<Rightarrow> ec_event_unsubscribe cfg i c w)"

datatype events_reply = Event_Page "event_page answer" | Event_Stream "frame list" bool

definition get_run_events ::
  "'w event_config \<Rightarrow> (string \<Rightarrow> string) \<Rightarrow> query \<Rightarrow> string \<Rightarrow> string \<Rightarrow>
   run_event_dto sse_input list \<Rightarrow> run_dto sse_input list \<Rightarrow> 'w \<Rightarrow> events_reply \<times> 'w" where
  "get_run_events cfg u q accept i evs runs w =
     (let c = ''invalid_run_events''; refuse = (\<lambda>code e. (Event_Page (Refused 400 code e), w))
      in case ec_getter cfg of
           None \<Rightarrow> (Event_Page (Refused 501 ''run_getter_missing'' NotWired), w)
         | Some getter \<Rightarrow>
             (case query_after_seq q of Inl e \<Rightarrow> refuse ''invalid_after_seq'' e | Inr after \<Rightarrow>
             (case query_limit q ''limit'' 200 1000 of Inl e \<Rightarrow> refuse c e | Inr lim \<Rightarrow>
             (case query_event_type q of Inl e \<Rightarrow> refuse c e | Inr tf \<Rightarrow>
             (case query_wants_sse u q accept of Inl e \<Rightarrow> refuse c e | Inr stream \<Rightarrow>
             (case (if stream then query_heartbeat q else Inr 0) of Inl e \<Rightarrow> refuse c e | Inr _ \<Rightarrow>
               (let (f, w1) = open_feed cfg stream i w
                in case getter i w1 of
                     Inl e \<Rightarrow> (Event_Page (Refused 404 ''run_not_found'' (Fault e)), close_feed cfg i f w1)
                   | Inr d \<Rightarrow>
                       (if \<not> stream
                        then (let (p, w2) = event_snapshot_page cfg i d after tf lim w1 in (Event_Page (Answered 200 p), w2))
                        else (let ((fs, fin), w2) = write_run_sse cfg i d after tf lim evs runs w1
                              in (Event_Stream fs fin, if fin then close_feed cfg i f w2 else w2))))))))))"

subsection \<open>Redaction of a frame\<close>

lemma redact_twice [simp]: "redact_secrets (redact_secrets s) = redact_secrets s"
  by (rule redact_secret_free_id) simp

text \<open>
  Redaction works on the text of a payload and can break its JSON: a value that ends in \<open>token:\<close> loses its closing quote.
  A key in quotes, as JSON has it, does not count as a keyword.
\<close>

lemma redaction_breaks_json:
  "json_valid ''{\"m\":\"the token:\",\"n\":1}''"
  "redact_raw_json ''{\"m\":\"the token:\",\"n\":1}'' = ''{\"m\":\"the [REDACTED]\"n\":1}''"
  "\<not> json_valid ''{\"m\":\"the [REDACTED]\"n\":1}''"
  by code_simp+

lemma quoted_keys_not_redacted: "redact_raw_json ''{\"api_key\":\"hunter2hunter2\"}'' = ''{\"api_key\":\"hunter2hunter2\"}''"
  by code_simp

subsection \<open>Frames\<close>

definition frame_ids :: "frame list \<Rightarrow> int list" where
  "frame_ids fs = concat (map (\<lambda>f. case f of Heartbeat \<Rightarrow> [] | Event_Frame e \<Rightarrow> [v_seq e]) fs)"

lemma frame_ids_simps [simp]:
  "frame_ids [] = []" "frame_ids (Heartbeat # fs) = frame_ids fs" "frame_ids (Event_Frame e # fs) = v_seq e # frame_ids fs"
  "frame_ids (fs @ gs) = frame_ids fs @ frame_ids gs"
  by (simp_all add: frame_ids_def)

lemma redact_keeps [simp]:
  "v_seq (redact_run_event e) = v_seq e" "v_type (redact_run_event e) = v_type e" "d_status (v_run (redact_run_event e)) = d_status (v_run e)"
  by (simp_all add: redact_run_event_def)

definition frames_ok :: "string \<Rightarrow> int \<Rightarrow> frame list \<Rightarrow> bool" where
  "frames_ok tf sq fs \<longleftrightarrow>
     (\<forall>e. Event_Frame e \<in> set fs \<longrightarrow> type_matches tf (v_type e) \<and> event_secret_free e) \<and>
     sorted_wrt (<) (frame_ids fs) \<and> (\<forall>i \<in> set (frame_ids fs). sq < i)"

lemma frames_ok_Nil [simp]: "frames_ok tf sq []"
  by (simp add: frames_ok_def)

lemma frames_ok_Beat [simp]: "frames_ok tf sq (Heartbeat # fs) = frames_ok tf sq fs"
  by (auto simp: frames_ok_def)

lemma frames_ok_mono: "frames_ok tf sq fs \<Longrightarrow> sq' \<le> sq \<Longrightarrow> frames_ok tf sq' fs"
  by (force simp: frames_ok_def)

lemma frames_ok_event:
  assumes "frames_ok tf (v_seq ev) fs" and "type_matches tf (v_type ev)" and "sq < v_seq ev"
  shows "frames_ok tf sq (event_frame ev @ fs)"
proof -
  have "frames_ok tf sq (Event_Frame (redact_run_event ev) # fs)"
    using assms redacted_event [of ev] by (force simp: frames_ok_def)
  then show ?thesis using frames_ok_mono [OF assms(1), of sq] assms(3) by (simp add: event_frame_def Let_def)
qed

lemma frames_ok_append:
  assumes "frames_ok tf sq fs" and "frames_ok tf sq' gs" and "\<forall>i \<in> set (frame_ids fs). i \<le> sq'" and "sq \<le> sq'"
  shows "frames_ok tf sq (fs @ gs)"
  using assms by (force simp: frames_ok_def sorted_wrt_append)

lemma stamp_fields [simp]:
  "stamp nw ev w = (ev', w') \<Longrightarrow> v_seq ev' = v_seq ev \<and> v_type ev' = v_type ev \<and> v_run ev' = v_run ev"
  by (auto simp: stamp_def Let_def split: if_splits prod.splits)

lemma renumber_fields:
  assumes "renumber sq ev = (ev', sq')"
  shows "v_seq ev' = sq' \<and> sq < sq' \<and> v_type ev' = v_type ev \<and> v_run ev' = v_run ev"
  using assms by (auto simp: renumber_def split: if_splits)

fun ends_event :: "run_event_dto sse_input \<Rightarrow> bool" where
  "ends_event Client_Gone = True"
| "ends_event Channel_Closed = True"
| "ends_event Beat = False"
| "ends_event (Received ev) = is_terminal (d_status (v_run ev))"

fun ends_run :: "string \<Rightarrow> run_dto sse_input \<Rightarrow> bool" where
  "ends_run tf Client_Gone = True"
| "ends_run tf Channel_Closed = True"
| "ends_run tf Beat = False"
| "ends_run tf (Received d) \<longleftrightarrow> is_terminal (d_status d) \<and> type_matches tf (run_event_type (d_status d))"

lemma sse_events_spec:
  "sse_events nw tf sq ins w = ((fs, fin), w') \<Longrightarrow> frames_ok tf sq fs \<and> (fin \<longleftrightarrow> (\<exists>i \<in> set ins. ends_event i))"
proof (induction nw tf sq ins w arbitrary: fs fin w' rule: sse_events.induct)
  case (5 nw tf sq ev ins w)
  obtain ev1 sq1 where r: "renumber sq ev = (ev1, sq1)" by fastforce
  obtain ev2 w1 where t: "stamp nw ev1 w = (ev2, w1)" by fastforce
  have f: "v_seq ev2 = sq1" "sq < sq1" "v_type ev2 = v_type ev"
    using renumber_fields [OF r] stamp_fields [OF t] by auto
  show ?case
  proof (cases "type_matches tf (v_type ev)")
    case False
    then show ?thesis using 5 by (auto split: if_splits)
  next
    case True
    show ?thesis
    proof (cases "is_terminal (d_status (v_run ev))")
      case True
      then show ?thesis using 5(3) \<open>type_matches _ _\<close> r t f frames_ok_event [of tf ev2 "[]" sq] by simp
    next
      case False
      obtain fs' fin' w2 where s: "sse_events nw tf sq1 ins w1 = ((fs', fin'), w2)" by (metis prod.collapse)
      have ih: "frames_ok tf sq1 fs' \<and> (fin' \<longleftrightarrow> (\<exists>i \<in> set ins. ends_event i))"
        by (rule 5(2) [OF refl _ refl r [symmetric] refl t [symmetric] False s]) (use True in simp)
      then show ?thesis using 5(3) False True r t s f frames_ok_event [of tf ev2 fs' sq] by auto
    qed
  qed
qed (auto split: prod.splits)

lemma sse_runs_spec:
  "sse_runs nw tf sq ins w = ((fs, fin), w') \<Longrightarrow> frames_ok tf sq fs \<and> (fin \<longleftrightarrow> (\<exists>i \<in> set ins. ends_run tf i))"
proof (induction nw tf sq ins w arbitrary: fs fin w' rule: sse_runs.induct)
  case (5 nw tf sq d ins w)
  obtain t w1 where t: "nw w = (t, w1)" by fastforce
  let ?ev = "(fallback_event t d)\<lparr>v_seq := sq + 1\<rparr>"
  have ty: "v_type ?ev = run_event_type (d_status d)" by (simp add: fallback_event_def)
  show ?case
  proof (cases "type_matches tf (run_event_type (d_status d))")
    case False
    then have "sse_runs nw tf sq ins w1 = ((fs, fin), w')" using 5(3) t ty by simp
    from 5(1) [OF t [symmetric] refl refl _ this] False ty show ?thesis by simp
  next
    case True
    show ?thesis
    proof (cases "is_terminal (d_status d)")
      case True
      then show ?thesis using 5(3) \<open>type_matches _ _\<close> t ty frames_ok_event [of tf ?ev "[]" sq] by simp
    next
      case False
      obtain fs' fin' w2 where s: "sse_runs nw tf (sq + 1) ins w1 = ((fs', fin'), w2)" by (metis prod.collapse)
      have ih: "frames_ok tf (sq + 1) fs' \<and> (fin' \<longleftrightarrow> (\<exists>i \<in> set ins. ends_run tf i))"
        by (rule 5(2) [OF t [symmetric] refl refl _ False s]) (use True ty in simp)
      then show ?thesis using 5(3) False True t s ty frames_ok_event [of tf ?ev fs' sq] by auto
    qed
  qed
qed (auto split: prod.splits)

lemma frames_of_list:
  assumes "sorted_wrt (<) (map v_seq es)" and "\<forall>e \<in> set es. sq < v_seq e \<and> type_matches tf (v_type e)"
  shows "frames_ok tf sq (concat (map event_frame es))"
  using assms
proof (induction es arbitrary: sq)
  case (Cons e es)
  then have "frames_ok tf (v_seq e) (concat (map event_frame es))" by simp
  then show ?case using Cons.prems frames_ok_event [of tf e _ sq] by simp
qed simp

lemma frame_ids_subset: "set (frame_ids (concat (map event_frame es))) \<subseteq> v_seq ` set es"
  by (induction es) (auto simp: event_frame_def Let_def)

lemma fallback_written: "event_frame (fallback_event t d) = [Event_Frame (redact_run_event (fallback_event t d))]"
  by (simp add: event_frame_def fallback_event_def zero_event_dto_def redact_run_event_def redact_raw_json_def)

lemma fallback_fields [simp]: "v_seq (fallback_event t d) = 1" "v_type (fallback_event t d) = run_event_type (d_status d)"
  by (simp_all add: fallback_event_def)

lemma fallback_ok:
  "type_matches tf (run_event_type (d_status d)) \<Longrightarrow> frames_ok tf 0 [Event_Frame (redact_run_event (fallback_event t d))]"
  using frames_ok_event [OF frames_ok_Nil, of tf "fallback_event t d" 0] by (simp add: fallback_written)

subsection \<open>What the stream relies on: a log in order\<close>

locale event_log =
  fixes list_events :: "string \<Rightarrow> int \<Rightarrow> string \<Rightarrow> int \<Rightarrow> 'w \<Rightarrow> (string + run_event_dto list) \<times> 'w"
    and good :: "'w \<Rightarrow> bool"
  assumes listed_order: "good w \<Longrightarrow> 0 \<le> after \<Longrightarrow> list_events i after tf lim w = (Inr es, w') \<Longrightarrow> sorted_wrt (<) (map v_seq es)"
    and listed_match: "good w \<Longrightarrow> 0 \<le> after \<Longrightarrow> list_events i after tf lim w = (Inr es, w') \<Longrightarrow> e \<in> set es \<Longrightarrow>
      after < v_seq e \<and> type_matches tf (v_type e)"
begin

lemma snapshot_listed:
  assumes "ec_lister cfg = Some list_events" and "good w" and "0 \<le> after" and "event_snapshot cfg i d after tf lim w = (es, w')"
  shows "sorted_wrt (<) (map v_seq es) \<and> (\<forall>e \<in> set es. after < v_seq e \<and> type_matches tf (v_type e))"
proof -
  obtain r w1 where r: "list_events i after tf lim w = (r, w1)" by fastforce
  have f: "sorted_wrt (<) (map v_seq es) \<and> (\<forall>e \<in> set es. after < v_seq e \<and> type_matches tf (v_type e))"
    if "snapshot_fallback cfg d after tf w1 = (es, w')"
    using that assms(3) by (auto simp: snapshot_fallback_def Let_def split: if_splits prod.splits)
  show ?thesis
  proof (cases r)
    case (Inl e)
    then show ?thesis using assms r f by (simp add: event_snapshot_def)
  next
    case (Inr es')
    then show ?thesis
      using assms r f listed_order [OF assms(2,3)] listed_match [OF assms(2,3)]
      by (auto simp: event_snapshot_def o_def split: if_splits)
  qed
qed

lemma start_frames:
  assumes "ec_lister cfg = Some list_events" and "good w" and "0 \<le> after"
    and "sse_start cfg i d after tf lim w = ((fs, sq, st), w')"
  shows "frames_ok tf 0 fs \<and> (\<forall>j \<in> set (frame_ids fs). j \<le> sq) \<and> 0 < sq"
proof -
  obtain es w1 where e: "event_snapshot cfg i d after tf lim w = (es, w1)" by fastforce
  have s: "sorted_wrt (<) (map v_seq es)" "\<forall>e \<in> set es. after < v_seq e \<and> type_matches tf (v_type e)"
    using snapshot_listed [OF assms(1-3) e] by auto
  show ?thesis
  proof (cases "es = []")
    case True
    then show ?thesis
      using assms(4) e
      by (auto simp: sse_start_def fallback_written fallback_ok Let_def split: prod.splits if_splits)
  next
    case False
    then have l: "last es \<in> set es" by simp
    have "\<forall>e \<in> set es. v_seq e \<le> v_seq (last es)"
      using s(1) False by (induction es) (auto simp: less_imp_le)
    moreover have "0 < v_seq (last es)" using s(2) l assms(3) by fastforce
    moreover have "frames_ok tf 0 (concat (map event_frame es))"
      by (rule frames_of_list [OF s(1)]) (use s(2) assms(3) in fastforce)
    ultimately show ?thesis using assms(4) e False frame_ids_subset [of es]
      by (auto simp: sse_start_def Let_def)
  qed
qed

lemma frames_in_order:
  assumes "ec_lister cfg = Some list_events" and "good w" and "0 \<le> after"
    and "write_run_sse cfg i d after tf lim evs runs w = ((fs, fin), w')"
  shows "frames_ok tf 0 fs"
proof -
  obtain fs0 sq st w1 where s: "sse_start cfg i d after tf lim w = ((fs0, sq, st), w1)" by (metis prod.collapse)
  note f = start_frames [OF assms(1-3) s]
  have "frames_ok tf 0 (fs0 @ fs1)" if "frames_ok tf sq fs1" for fs1
    by (rule frames_ok_append [of tf 0 fs0 sq]) (use f that in auto)
  then show ?thesis
    using assms(4) s f
    by (auto simp: write_run_sse_def Let_def dest!: sse_events_spec sse_runs_spec split: if_splits prod.splits)
qed

end

definition manager_events ::
  "(mgr_error \<Rightarrow> string) \<Rightarrow> string \<Rightarrow> int \<Rightarrow> string \<Rightarrow> int \<Rightarrow> 's mgr \<Rightarrow> (string + run_event_dto list) \<times> 's mgr" where
  "manager_events et i after tf lim m =
     (case mgr_events i after tf lim m of (Inl e, m1) \<Rightarrow> (Inl (et e), m1) | (Inr es, m1) \<Rightarrow> (Inr es, m1))"

definition ordered_log :: "db mgr \<Rightarrow> bool" where
  "ordered_log m \<longleftrightarrow> m_ops m = Some sqlite_ops \<and> run_tables_ok (m_store m) \<and> (\<forall>i. dense_log (m_store m) i)"

lemma manager_events_sqlite:
  assumes "m_ops m = Some sqlite_ops" and "manager_events et i after tf lim m = (Inr es, m')"
  shows "m' = m \<and> (\<exists>rs. sq_list_run_events \<lparr>req_run_id = i, req_after = after, req_type = tf, req_limit = lim\<rparr> (m_store m) = Inr rs \<and>
    es = map (redact_run_event \<circ> event_dto) rs)"
  using assms by (auto simp: manager_events_def mgr_events_def sqlite_ops_def split: sum.splits)

interpretation run_log: event_log "manager_events et" ordered_log for et
proof
  fix m m' :: "db mgr" and after :: int and i tf :: string and lim :: int and es
  assume g: "ordered_log m" and a: "0 \<le> after" and e: "manager_events et i after tf lim m = (Inr es, m')"
  let ?q = "\<lparr>req_run_id = i, req_after = after, req_type = tf, req_limit = lim\<rparr>"
  obtain rs where r: "sq_list_run_events ?q (m_store m) = Inr rs" "es = map (redact_run_event \<circ> event_dto) rs"
    using manager_events_sqlite [OF _ e] g by (auto simp: ordered_log_def)
  have seq: "map v_seq es = map re_seq rs" using r(2) by (simp add: event_dto_def)
  show "sorted_wrt (<) (map v_seq es)"
    using sq_list_run_events_sorted [OF _ r(1)] g by (simp add: seq ordered_log_def sorted_wrt_map)
  fix v
  assume "v \<in> set es"
  then obtain x where x: "x \<in> set rs" "v = redact_run_event (event_dto x)" using r(2) by auto
  have "set rs \<subseteq> set (filter (\<lambda>e. 0 < after \<longrightarrow> after < re_seq e) (sort_key re_seq (filter (event_match ?q) (t_run_events (m_store m)))))"
    using r(1) by (auto simp: sq_list_run_events_alt dest: in_set_takeD)
  then have y: "x \<in> set (t_run_events (m_store m))" "re_run_id x = i" "tf \<noteq> [] \<Longrightarrow> re_type x = tf" "0 < after \<Longrightarrow> after < re_seq x"
    using x(1) by (auto simp: event_match_def)
  have "re_seq x \<in> set (map re_seq (run_log (m_store m) i))" using y(1,2) by (simp add: run_log_def)
  then have "0 < re_seq x" using g unfolding ordered_log_def dense_log_def by fastforce
  then show "after < v_seq v \<and> type_matches tf (v_type v)"
    using y(3,4) a x(2) by (cases "after = 0") (auto simp: event_dto_def type_matches_def)
qed

text \<open>\<open>cmd/kkode-gateway/main.go\<close> connects the stream to the run manager and its event bus.\<close>

definition manager_event_config :: "(mgr_error \<Rightarrow> string) \<Rightarrow> 's mgr event_config" where
  "manager_event_config et =
     \<lparr>ec_getter = Some (manager_getter et), ec_lister = Some (manager_events et),
      ec_run_feed = Some (\<lambda>i m. let (c, b) = subscribe i (m_bus m) in (c, m\<lparr>m_bus := b\<rparr>)),
      ec_run_unsubscribe = (\<lambda>i c m. m\<lparr>m_bus := unsubscribe i c (m_bus m)\<rparr>),
      ec_event_feed = Some (\<lambda>i m. let (c, b) = subscribe_events i (m_bus m) in (c, m\<lparr>m_bus := b\<rparr>)),
      ec_event_unsubscribe = (\<lambda>i c m. m\<lparr>m_bus := unsubscribe_events i c (m_bus m)\<rparr>), ec_now = tick\<rparr>"

subsection \<open>Properties\<close>


text \<open>
  C21: when the stream returns. Before the loop it returns if the last event it listed (or the run, if it listed none) is
  terminal, or no feed is connected. In the loop over events it returns exactly when the client goes away, the channel is
  closed, or a terminal event is received, whatever its type; so it returns when it takes all that a terminal event's
  publication leaves in its channel. In the loop over run snapshots a terminal run whose type is filtered out does not end it.
  A stream of an ended run therefore waits for ever when the listed events stop short of the terminal one.
\<close>

theorem stream_ends:
  assumes "write_run_sse cfg i d after tf lim evs runs w = ((fs, fin), w')"
    and "event_snapshot cfg i d after tf lim w = (es, w1)"
  shows "(fin \<longleftrightarrow>
      is_terminal (if es = [] then d_status d else d_status (v_run (last es))) \<or> ec_run_feed cfg = None \<and> ec_event_feed cfg = None \<or>
      (if ec_event_feed cfg \<noteq> None then \<exists>x \<in> set evs. ends_event x else \<exists>x \<in> set runs. ends_run tf x)) \<and>
    (\<forall>c ev. ec_event_feed cfg \<noteq> None \<and> \<not> ch_closed c \<and> 0 < ch_cap c \<and> chan_ok c \<and> event_terminal ev \<and>
      Received ` set (ch_buf (publish_to_channel event_terminal ev c)) \<subseteq> set evs \<longrightarrow> fin)"
proof -
  obtain fs0 sq st w2 where s: "sse_start cfg i d after tf lim w = ((fs0, sq, st), w2)" by (metis prod.collapse)
  then have st: "st = (if es = [] then d_status d else d_status (v_run (last es)))"
    using assms(2) by (auto simp: sse_start_def Let_def split: prod.splits if_splits)
  have e: "fin \<longleftrightarrow> is_terminal st \<or> ec_run_feed cfg = None \<and> ec_event_feed cfg = None \<or>
      (if ec_event_feed cfg \<noteq> None then \<exists>x \<in> set evs. ends_event x else \<exists>x \<in> set runs. ends_run tf x)"
    using assms(1) s by (auto simp: write_run_sse_def Let_def dest!: sse_events_spec sse_runs_spec split: if_splits prod.splits)
  moreover have fin if c: "ec_event_feed cfg \<noteq> None" "\<not> ch_closed c" "0 < ch_cap c" "chan_ok c" "event_terminal ev"
    "Received ` set (ch_buf (publish_to_channel event_terminal ev c)) \<subseteq> set evs" for c ev
  proof -
    have "ev \<in> set (ch_buf (publish_to_channel event_terminal ev c))"
      using publish_terminal [OF c(2), of event_terminal ev, OF c(5,3,4)] last_in_set by metis
    then have "Received ev \<in> set evs" using c(6) by auto
    then show ?thesis using e c(1,5) by (auto simp: event_terminal_def intro!: bexI [of _ "Received ev"])
  qed
  ultimately show ?thesis unfolding st by blast
qed

definition demo_ended_run :: run where
  "demo_ended_run = demo_run\<lparr>r_status := ''completed''\<rparr>"

definition demo_stream_mgr :: "db mgr" where
  "demo_stream_mgr = new_manager (Some sqlite_ops)
     (demo_db\<lparr>t_runs := [demo_ended_run],
        t_run_events := [demo_run_event\<lparr>re_id := ''e1'', re_seq := 1, re_run := demo_run\<rparr>,
          demo_run_event\<lparr>re_id := ''e2'', re_seq := 2, re_type := ''run.completed'', re_run := demo_ended_run\<rparr>]\<rparr>) None demo_world"

lemma demo_ordered_log: "ordered_log demo_stream_mgr"
proof -
  have "run_tables_ok (m_store demo_stream_mgr)" by code_simp
  moreover have "dense_log (m_store demo_stream_mgr) i" for i
    by (cases "i = ''r1''") (simp_all add: dense_log_def run_log_def demo_stream_mgr_def new_manager_def demo_run_event_def upt_rec)
  ultimately show ?thesis by (simp add: ordered_log_def demo_stream_mgr_def new_manager_def)
qed


text \<open>The stream of an ended run, narrowed to a type of an earlier event, is still open after any number of heartbeats.\<close>

theorem stream_ends_witness:
  "(\<forall>n. \<not> snd (fst (write_run_sse (manager_event_config (\<lambda>e. [])) ''r1'' (dto_from_run demo_ended_run) 0 ''run.queued'' 200
      (replicate n Beat) [] demo_stream_mgr))) \<and> is_terminal (d_status (dto_from_run demo_ended_run))"
proof (intro conjI allI)
  fix n :: nat
  let ?c = "manager_event_config (\<lambda>e. []) :: db mgr event_config"
  obtain fs fin m' where w: "write_run_sse ?c ''r1'' (dto_from_run demo_ended_run) 0 ''run.queued'' 200 (replicate n Beat) []
      demo_stream_mgr = ((fs, fin), m')" by (metis prod.collapse)
  obtain es m1 where e: "event_snapshot ?c ''r1'' (dto_from_run demo_ended_run) 0 ''run.queued'' 200 demo_stream_mgr = (es, m1)"
    by fastforce
  have "map (\<lambda>e. d_status (v_run e)) (fst (event_snapshot ?c ''r1'' (dto_from_run demo_ended_run) 0 ''run.queued'' 200 demo_stream_mgr)) =
      [''queued'']"
    by code_simp
  then have "map (\<lambda>e. d_status (v_run e)) es = [''queued'']" using e by simp
  then have "es \<noteq> []" "d_status (v_run (last es)) = ''queued''" by auto
  then have "\<not> fin" using stream_ends [OF w e] by (auto simp: manager_event_config_def is_terminal_def)
  then show "\<not> snd (fst (write_run_sse ?c ''r1'' (dto_from_run demo_ended_run) 0 ''run.queued'' 200 (replicate n Beat) []
      demo_stream_mgr))" using w by simp
qed (simp add: demo_ended_run_def is_terminal_def)

end
