(* ===== verification/Gateway_Transcript.thy ===== *)
theory Gateway_Transcript
  imports Gateway_Stream
begin

section \<open>Package gateway: the transcript of a run\<close>

text \<open>
  \<open>GET /runs/{id}/transcript\<close> of \<open>gateway/transcript_api.go\<close> on the SQLite store, which is a \<open>TimelineStore\<close>: the
  run, its session, its turn, the session's events of that turn, the run's events, and all of it as Markdown text.
\<close>

subsection \<open>Records\<close>

record message_dto =
  md_role :: string
  md_content :: string

record turn_dto =
  tx_seq :: int
  tx_id :: string
  tx_session :: string
  tx_prompt :: string
  tx_model :: string
  tx_messages :: "message_dto list"
  tx_response_id :: string
  tx_response_status :: string
  tx_response_text :: string
  tx_usage :: "usage option"
  tx_started :: gtime
  tx_ended :: gtime
  tx_error :: string

record session_event_dto =
  ex_seq :: int
  ex_id :: string
  ex_session :: string
  ex_turn :: string
  ex_at :: gtime
  ex_type :: string
  ex_tool :: string
  ex_payload :: raw
  ex_error :: string

definition to_message_dtos :: "message list \<Rightarrow> message_dto list" where
  "to_message_dtos ms = map (\<lambda>m. \<lparr>md_role = m_role m, md_content = m_content m\<rparr>) ms"

definition to_turn_dto :: "string \<Rightarrow> int \<Rightarrow> turn \<Rightarrow> turn_dto" where
  "to_turn_dto sid sq t =
     (let out = \<lparr>tx_seq = sq, tx_id = tn_id t, tx_session = sid, tx_prompt = tn_prompt t, tx_model = q_model (tn_request t),
            tx_messages = to_message_dtos (q_messages (tn_request t)), tx_response_id = [], tx_response_status = [],
            tx_response_text = [], tx_usage = None, tx_started = tn_started t, tx_ended = tn_ended t, tx_error = tn_error t\<rparr>
      in case tn_response t of
           None \<Rightarrow> out
         | Some r \<Rightarrow>
             out\<lparr>tx_response_id := p_id r, tx_response_status := p_status r, tx_response_text := p_text r,
               tx_usage := to_usage_dto (p_usage r), tx_model := (if tx_model out = [] then p_model r else tx_model out)\<rparr>)"

definition to_event_dto :: "int \<Rightarrow> event \<Rightarrow> session_event_dto" where
  "to_event_dto sq e =
     \<lparr>ex_seq = sq, ex_id = e_id e, ex_session = e_session e, ex_turn = e_turn e, ex_at = e_at e, ex_type = e_type e,
      ex_tool = e_tool e, ex_payload = e_payload e, ex_error = e_error e\<rparr>"

record run_transcript =
  tr_run :: run_dto
  tr_session :: session_dto
  tr_turn :: "turn_dto option"
  tr_events :: "session_event_dto list"
  tr_run_events :: "run_event_dto list"
  tr_markdown :: string
  tr_markdown_bytes :: int
  tr_markdown_truncated :: bool
  tr_redacted :: bool

subsection \<open>The turn and the events of a run\<close>

definition turn_in_session :: "string \<Rightarrow> string \<Rightarrow> db \<Rightarrow> turn_dto option" where
  "turn_in_session sid tid d =
     (case sq_load_session sid d of
        Inl e \<Rightarrow> None
      | Inr s \<Rightarrow>
          (case find (\<lambda>it. tn_id (snd it) = tid) (zip [0..<length (s_turns s)] (s_turns s)) of
             None \<Rightarrow> None | Some (i, t) \<Rightarrow> Some (to_turn_dto (s_id s) (int i + 1) t)))"

definition run_transcript_turn :: "run_dto \<Rightarrow> db \<Rightarrow> turn_dto option" where
  "run_transcript_turn run d =
     (if trim_space (d_turn run) = [] then None
      else (case sq_load_turn (d_session run) (d_turn run) d of
              Inr (sq, t) \<Rightarrow> Some (to_turn_dto (d_session run) sq t)
            | Inl e \<Rightarrow> turn_in_session (d_session run) (d_turn run) d))"

text \<open>Without a timeline the events are filtered first and then counted; a break follows the append.\<close>

fun take_turn_events :: "string \<Rightarrow> int \<Rightarrow> int \<Rightarrow> event list \<Rightarrow> session_event_dto list \<Rightarrow> session_event_dto list" where
  "take_turn_events tid lim i [] out = out"
| "take_turn_events tid lim i (e # es) out =
     (if e_turn e \<noteq> tid then take_turn_events tid lim (i + 1) es out
      else (let out1 = out @ [to_event_dto (i + 1) e]
            in if lim \<le> int (length out1) then out1 else take_turn_events tid lim (i + 1) es out1))"

definition run_transcript_events :: "run_dto \<Rightarrow> int \<Rightarrow> db \<Rightarrow> session_event_dto list" where
  "run_transcript_events run lim d =
     (if trim_space (d_turn run) = [] then []
      else (case sq_list_events \<lparr>eq_session = d_session run, eq_after = 0, eq_type = [], eq_limit = lim\<rparr> d of
              Inr rs \<Rightarrow> map (\<lambda>(sq, e). to_event_dto sq e) (filter (\<lambda>(sq, e). e_turn e = d_turn run) rs)
            | Inl e \<Rightarrow>
                (case sq_load_session (d_session run) d of
                   Inl e' \<Rightarrow> [] | Inr s \<Rightarrow> take_turn_events (d_turn run) lim 0 (s_events s) [])))"

subsection \<open>The text\<close>

definition first_nonempty :: "string list \<Rightarrow> string" where
  "first_nonempty vs = (case find (\<lambda>v. trim_space v \<noteq> []) vs of Some v \<Rightarrow> v | None \<Rightarrow> [])"

definition turn_markdown :: "turn_dto \<Rightarrow> string" where
  "turn_markdown t =
     ''## Turn `'' @ tx_id t @ ''`'' @ newline @ newline @
     ''**User**'' @ newline @ newline @ trim_space (tx_prompt t) @ newline @ newline @
     (if trim_space (tx_response_text t) \<noteq> []
      then ''**Assistant**'' @ newline @ newline @ trim_space (tx_response_text t) @ newline @ newline else []) @
     (if tx_error t \<noteq> [] then ''**Error**'' @ newline @ newline @ trim_space (tx_error t) @ newline @ newline else [])"

definition event_head :: "int \<Rightarrow> string \<Rightarrow> string \<Rightarrow> string" where
  "event_head sq type_name tool_name =
     ''- `'' @ dec_int sq @ ''` `'' @ type_name @ ''`'' @ (if tool_name \<noteq> [] then '' tool=`'' @ tool_name @ ''`'' else [])"

definition run_transcript_markdown ::
  "run_dto \<Rightarrow> session \<Rightarrow> turn_dto option \<Rightarrow> session_event_dto list \<Rightarrow> run_event_dto list \<Rightarrow> string" where
  "run_transcript_markdown run s t evs revs = trim_space
     (''# kkode run transcript'' @ newline @ newline @
      ''- run: `'' @ d_id run @ ''`'' @ newline @ ''- status: `'' @ d_status run @ ''`'' @ newline @
      ''- session: `'' @ d_session run @ ''`'' @ newline @
      ''- provider: `'' @ first_nonempty [d_provider run, s_provider s] @ ''`'' @ newline @
      ''- model: `'' @ first_nonempty [d_model run, s_model s] @ ''`'' @ newline @
      (if d_error run \<noteq> [] then ''- error: '' @ trim_space (d_error run) @ newline else []) @ newline @
      (case t of None \<Rightarrow> [] | Some tn \<Rightarrow> turn_markdown tn) @
      (if evs \<noteq> [] then ''## Session events'' @ newline @
         concat (map (\<lambda>e. event_head (ex_seq e) (ex_type e) (ex_tool e) @
           (if ex_error e \<noteq> [] then '' error='' @ ex_error e else []) @ newline) evs) @ newline else []) @
      (if revs \<noteq> [] then ''## Run events'' @ newline @
         concat (map (\<lambda>e. event_head (v_seq e) (v_type e) (v_tool e) @
           (if v_message e \<noteq> [] then '' message='' @ v_message e else []) @
           (if v_error e \<noteq> [] then '' error='' @ v_error e else []) @ newline) revs) else []))"

text \<open>\<open>truncateToolOutput\<close> of \<open>gateway/tools_api.go\<close>.\<close>

definition truncate_tool_output :: "string \<Rightarrow> int \<Rightarrow> string \<times> int \<times> bool" where
  "truncate_tool_output s limit =
     (if limit \<le> 0 \<or> int (length s) \<le> limit then (s, int (length s), False)
      else (take (truncate_scan (nat limit) 0 0 0 s) s, int (length s), True))"

subsection \<open>The transcript\<close>

definition redact_session_dto :: "session_dto \<Rightarrow> session_dto" where
  "redact_session_dto s =
     s\<lparr>xd_root := redact_secrets (xd_root s), xd_summary := redact_secrets (xd_summary s),
       xd_metadata := redact_string_map (xd_metadata s)\<rparr>"

definition redact_turn_dto :: "turn_dto \<Rightarrow> turn_dto" where
  "redact_turn_dto t =
     t\<lparr>tx_prompt := redact_secrets (tx_prompt t), tx_response_text := redact_secrets (tx_response_text t),
       tx_error := redact_secrets (tx_error t),
       tx_messages := map (\<lambda>m. m\<lparr>md_content := redact_secrets (md_content m)\<rparr>) (tx_messages t)\<rparr>"

definition redact_session_event_dto :: "session_event_dto \<Rightarrow> session_event_dto" where
  "redact_session_event_dto e =
     e\<lparr>ex_error := redact_secrets (ex_error e),
       ex_payload := (if ex_payload e \<noteq> [] then redact_raw_json (ex_payload e) else ex_payload e)\<rparr>"

definition to_run_transcript ::
  "'w event_config \<Rightarrow> ('w \<Rightarrow> db) \<Rightarrow> run_dto \<Rightarrow> session \<Rightarrow> bool \<Rightarrow> int \<Rightarrow> int \<Rightarrow> 'w \<Rightarrow> run_transcript \<times> 'w" where
  "to_run_transcript cfg store run s rd max_bytes event_limit w =
     (let t = run_transcript_turn run (store w);
          evs = run_transcript_events run event_limit (store w);
          (revs, w1) = event_snapshot cfg (d_id run) run 0 [] 200 w;
          text = run_transcript_markdown run s t evs revs
      in if rd
         then (let (md, n, truncated) = truncate_tool_output (redact_secrets text) max_bytes
               in (\<lparr>tr_run = redact_event_snapshot run, tr_session = redact_session_dto (to_session_dto s),
                    tr_turn = map_option redact_turn_dto t, tr_events = map redact_session_event_dto evs,
                    tr_run_events = map redact_run_event revs, tr_markdown = md, tr_markdown_bytes = n,
                    tr_markdown_truncated = truncated, tr_redacted = True\<rparr>, w1))
         else (let (md, n, truncated) = truncate_tool_output text max_bytes
               in (\<lparr>tr_run = run, tr_session = to_session_dto s, tr_turn = t, tr_events = evs, tr_run_events = revs,
                    tr_markdown = md, tr_markdown_bytes = n, tr_markdown_truncated = truncated, tr_redacted = False\<rparr>, w1)))"

definition transcript_limit :: "query \<Rightarrow> page_error + int" where
  "transcript_limit q = query_limit q ''max_markdown_bytes'' 1048576 8388608"

definition get_run_transcript ::
  "'w event_config \<Rightarrow> ('w \<Rightarrow> db) \<Rightarrow> (string \<Rightarrow> string) \<Rightarrow> query \<Rightarrow> string \<Rightarrow> 'w \<Rightarrow> run_transcript answer \<times> 'w" where
  "get_run_transcript cfg store u q i w =
     (let c = ''invalid_transcript''
      in case ec_getter cfg of
           None \<Rightarrow> (Refused 501 ''run_getter_missing'' NotWired, w)
         | Some getter \<Rightarrow>
             (case transcript_limit q of Inl e \<Rightarrow> (Refused 400 c e, w) | Inr max_bytes \<Rightarrow>
             (case query_limit q ''event_limit'' 500 5000 of Inl e \<Rightarrow> (Refused 400 c e, w) | Inr event_limit \<Rightarrow>
             (case getter i w of Inl e \<Rightarrow> (Refused 404 ''run_not_found'' (Fault e), w) | Inr run \<Rightarrow>
             (case sq_load_session (d_session run) (store w) of
                Inl e \<Rightarrow> (Refused 404 ''session_not_found'' (Store_Fault e), w)
              | Inr s \<Rightarrow>
                  (case query_bool u q ''redact'' True of Inl e \<Rightarrow> (Refused 400 c e, w) | Inr rd \<Rightarrow>
                     (let (tr, w1) = to_run_transcript cfg store run s rd max_bytes event_limit w in (Answered 200 tr, w1))))))))"

subsection \<open>Properties\<close>

definition transcript_clean :: "run_transcript \<Rightarrow> bool" where
  "transcript_clean t \<longleftrightarrow>
     secret_free (xd_root (tr_session t)) \<and> secret_free (xd_summary (tr_session t)) \<and>
     list_all (\<lambda>kv. secret_free (snd kv)) (xd_metadata (tr_session t)) \<and>
     secret_free (d_prompt (tr_run t)) \<and> secret_free (d_error (tr_run t)) \<and> list_all secret_free (d_blocks (tr_run t)) \<and>
     list_all (\<lambda>kv. secret_free (snd kv)) (d_metadata (tr_run t)) \<and>
     (\<forall>x \<in> set_option (tr_turn t). secret_free (tx_prompt x) \<and> secret_free (tx_response_text x) \<and> secret_free (tx_error x) \<and>
       (\<forall>m \<in> set (tx_messages x). secret_free (md_content m))) \<and>
     (\<forall>e \<in> set (tr_events t). secret_free (ex_error e) \<and> secret_free (ex_payload e)) \<and>
     (\<forall>e \<in> set (tr_run_events t). event_secret_free e)"

lemma secret_free_Nil [simp]: "secret_free []"
  by (simp add: secret_free_def)

lemma redacted_transcript_clean:
  assumes "to_run_transcript cfg store run s True mx lim w = (t, w')"
  shows "transcript_clean t \<and> tr_redacted t \<and> prefix (tr_markdown t)
      (redact_secrets (run_transcript_markdown run s (run_transcript_turn run (store w))
        (run_transcript_events run lim (store w)) (fst (event_snapshot cfg (d_id run) run 0 [] 200 w)))) \<and>
    (0 < mx \<longrightarrow> int (length (tr_markdown t)) \<le> mx)"
proof -
  let ?md = "redact_secrets (run_transcript_markdown run s (run_transcript_turn run (store w))
        (run_transcript_events run lim (store w)) (fst (event_snapshot cfg (d_id run) run 0 [] 200 w)))"
  have m: "tr_markdown t = fst (truncate_tool_output ?md mx)" and r: "tr_redacted t"
    using assms by (auto simp: to_run_transcript_def Let_def split: prod.splits)
  have "prefix (tr_markdown t) ?md" unfolding m by (simp add: truncate_tool_output_def take_is_prefix)
  moreover have "int (length (tr_markdown t)) \<le> mx" if "0 < mx"
    unfolding m using that truncate_scan_le [of 0 "nat mx" 0 0 ?md] by (auto simp: truncate_tool_output_def)
  moreover have "transcript_clean t"
    using assms redacted_event
    by (auto simp: to_run_transcript_def Let_def transcript_clean_def redact_session_dto_def redact_turn_dto_def
        redact_session_event_dto_def redact_event_snapshot_def redact_string_map_def redact_raw_json_def list_all_iff
        split: prod.splits)
  ultimately show ?thesis using r by blast
qed


text \<open>A part cut off a text without secrets shows none: what matches in it would have matched in the whole.\<close>

lemma clean_prefix:
  assumes "\<And>a b. m a \<noteq> None \<Longrightarrow> m (a @ b) \<noteq> None" and "clean m (s @ t)"
  shows "clean m s"
  using assms(2)
proof (induction s)
  case (Cons c s)
  have "m (c # s) = None"
  proof (rule ccontr)
    assume "m (c # s) \<noteq> None"
    then show False using assms(1) [of "c # s" t] Cons.prems by simp
  qed
  then show ?case using Cons by simp
qed simp

lemma takeWhile_append_length: "length (takeWhile P a) \<le> length (takeWhile P (a @ b))"
  by (induction a) auto

lemma has_prefix_append: "has_prefix p a \<Longrightarrow> has_prefix p (a @ b)"
  by (auto simp: has_prefix_iff)

lemma run_length_append:
  assumes "20 \<le> length (takeWhile P (drop n a))"
  shows "20 \<le> length (takeWhile P (drop n (a @ b)))"
proof -
  have "length (takeWhile P (drop n a)) \<le> length (takeWhile P (drop n a @ drop (n - length a) b))"
    by (rule takeWhile_append_length)
  then show ?thesis using assms by simp
qed

lemma match_sk_append: "match_sk a \<noteq> None \<Longrightarrow> match_sk (a @ b) \<noteq> None"
  using run_length_append [of "\<lambda>c. word_char c \<or> c = CHR ''-''" 3 a b] has_prefix_append [of "''sk-''" a b]
  unfolding match_sk_def by (auto simp: Let_def split: if_splits)

lemma match_gh_append: "match_gh a \<noteq> None \<Longrightarrow> match_gh (a @ b) \<noteq> None"
  using run_length_append [of word_char 4 a b] has_prefix_append [of _ a b]
  unfolding match_gh_def list_ex_iff by (fastforce simp: Let_def split: if_splits)

lemma match_kv_append:
  assumes "match_kv a \<noteq> None"
  shows "match_kv (a @ b) \<noteq> None"
  by (rule match_kv_elim [OF assms], simp only: append_assoc append_Cons) (rule match_kv_intro)

lemma secret_free_prefix: "prefix s t \<Longrightarrow> secret_free t \<Longrightarrow> secret_free s"
  unfolding secret_free_def prefix_def
  by (metis clean_prefix [of match_sk, OF match_sk_append] clean_prefix [of match_gh, OF match_gh_append]
      clean_prefix [of match_kv, OF match_kv_append])

text \<open>
  On SQLite the limit counts the session's events, not the run's: the events of the turn are looked for among the
  first ones of the session only.
\<close>

lemma transcript_events_window:
  assumes "sq_list_events \<lparr>eq_session = d_session run, eq_after = 0, eq_type = [], eq_limit = 0\<rparr> d = Inr rs"
    and "trim_space (d_turn run) \<noteq> []" and "0 < lim"
  shows "run_transcript_events run lim d =
    map (\<lambda>(sq, e). to_event_dto sq e) (filter (\<lambda>(sq, e). e_turn e = d_turn run) (take (nat lim) rs))"
  using assms by (auto simp: run_transcript_events_def sq_list_events_def Let_def take_map split: option.splits if_splits)

lemma get_run_transcript_Answered:
  assumes "get_run_transcript cfg store u q i w = (Answered 200 t, w')"
  obtains getter run s mx lim rd where "ec_getter cfg = Some getter" "getter i w = Inr run" "transcript_limit q = Inr mx"
    "query_bool u q ''redact'' True = Inr rd" "sq_load_session (d_session run) (store w) = Inr s"
    "to_run_transcript cfg store run s rd mx lim w = (t, w')"
  using assms by (auto simp: get_run_transcript_def Let_def split: option.splits sum.splits prod.splits)


definition demo_secret_mgr :: "db mgr" where
  "demo_secret_mgr = new_manager (Some sqlite_ops)
     (demo_db\<lparr>t_runs := [demo_run\<lparr>r_status := ''failed'', r_error := ''no token: abc''\<rparr>]\<rparr>) None demo_world"

lemma demo_transcript_status:
  "(case fst (get_run_transcript (manager_event_config (\<lambda>e. [])) m_store id (\<lambda>k. []) ''r1'' demo_secret_mgr) of
      Answered c t \<Rightarrow> c = 200 | Refused c e x \<Rightarrow> False)"
  by code_simp


end
