(* ===== verification/Go_Net.thy ===== *)
theory Go_Net
  imports Go_Base
begin

section \<open>Addresses and header values\<close>

text \<open>
  What the gateway uses of Go's \<open>net\<close> and \<open>strings\<close> to decide who is asking: the host of a \<open>RemoteAddr\<close>, IP addresses
  as \<open>net.ParseIP\<close> reads them, and the fields of a header value.
\<close>

subsection \<open>\<open>strings.Fields\<close>\<close>

text \<open>
  White space is cut out where one of its encodings begins. A continuation byte begins none of them, so going byte by
  byte finds what decoding rune by rune finds.
\<close>

definition space_at :: "string \<Rightarrow> string option" where
  "space_at s = find (\<lambda>p. p \<noteq> [] \<and> has_prefix p s) go_spaces"

lemma space_at_Some: "space_at s = Some p \<Longrightarrow> 0 < length p \<and> length p \<le> length s"
  by (auto simp: space_at_def find_Some_iff has_prefix_iff dest: prefix_length_le)

function fields_from :: "string \<Rightarrow> string \<Rightarrow> string list" where
  "fields_from cur [] = (if cur = [] then [] else [rev cur])"
| "fields_from cur (c # cs) =
     (case space_at (c # cs) of
        Some p \<Rightarrow> (if cur = [] then [] else [rev cur]) @ fields_from [] (drop (length p) (c # cs))
      | None \<Rightarrow> fields_from (c # cur) cs)"
  by pat_completeness auto
termination
  by (relation "measure (\<lambda>(cur, s). length s)") (auto dest!: space_at_Some)

definition go_fields :: "string \<Rightarrow> string list" where
  "go_fields s = fields_from [] s"

subsection \<open>\<open>net.SplitHostPort\<close>\<close>

definition index_char :: "char \<Rightarrow> string \<Rightarrow> nat option" where
  "index_char c s = (let n = length (takeWhile (\<lambda>x. x \<noteq> c) s) in if n < length s then Some n else None)"

definition last_index_char :: "char \<Rightarrow> string \<Rightarrow> nat option" where
  "last_index_char c s = map_option (\<lambda>n. length s - 1 - n) (index_char c (rev s))"

definition split_host_port :: "string \<Rightarrow> (string \<times> string) option" where
  "split_host_port s =
     (case last_index_char (CHR '':'') s of
        None \<Rightarrow> None
      | Some i \<Rightarrow>
          (if has_prefix ''['' s
           then (case index_char (CHR '']'') s of
                   None \<Rightarrow> None
                 | Some close \<Rightarrow>
                     (if close + 1 \<noteq> i \<or> CHR ''['' \<in> set (drop 1 s) \<or> CHR '']'' \<in> set (drop (close + 1) s) then None
                      else Some (drop 1 (take close s), drop (i + 1) s)))
           else if CHR '':'' \<in> set (take i s) \<or> CHR ''['' \<in> set s \<or> CHR '']'' \<in> set s then None
           else Some (take i s, drop (i + 1) s)))"

subsection \<open>\<open>net.ParseIP\<close>\<close>

definition dec_octet :: "string \<Rightarrow> int option" where
  "dec_octet s =
     (let v = fold (\<lambda>c a. a * 10 + (of_char c - 48)) s (0::int)
      in if s = [] \<or> \<not> list_all (\<lambda>c. 48 \<le> (of_char c :: nat) \<and> of_char c \<le> (57::nat)) s \<or>
            (1 < length s \<and> hd s = CHR ''0'') \<or> 255 < v
         then None else Some v)"

definition parse_ipv4 :: "string \<Rightarrow> int list option" where
  "parse_ipv4 s =
     (let ps = split_on (CHR ''.'') s
      in if length ps \<noteq> 4 \<or> list_ex (\<lambda>p. dec_octet p = None) ps then None else Some (map (\<lambda>p. the (dec_octet p)) ps))"

definition hex_value :: "char \<Rightarrow> int option" where
  "hex_value c =
     (let n = of_char c :: int
      in if 48 \<le> n \<and> n \<le> 57 then Some (n - 48)
         else if 97 \<le> n \<and> n \<le> 102 then Some (n - 87)
         else if 65 \<le> n \<and> n \<le> 70 then Some (n - 55) else None)"

definition hex_number :: "string \<Rightarrow> int" where
  "hex_number s = fold (\<lambda>c a. a * 16 + the (hex_value c)) s 0"

text \<open>
  The loop over the groups of an IPv6 address: the groups so far, the place of the ellipsis and the rest. Eight groups
  make an address, so eight rounds are all there are.
\<close>

fun ipv6_groups :: "nat \<Rightarrow> string \<Rightarrow> int list \<Rightarrow> nat option \<Rightarrow> (int list \<times> nat option \<times> string) option" where
  "ipv6_groups 0 s gs el = Some (gs, el, s)"
| "ipv6_groups (Suc k) s gs el =
     (let d = takeWhile (\<lambda>c. hex_value c \<noteq> None) s; gs1 = gs @ [hex_number d]
      in if d = [] \<or> 4 < length d then None
         else (case drop (length d) s of
                 [] \<Rightarrow> Some (gs1, el, [])
               | c # s1 \<Rightarrow>
                   (if c = CHR ''.'' then
                      (if (el = None \<and> length gs \<noteq> 6) \<or> 6 < length gs then None
                       else (case parse_ipv4 s of
                               Some [a, b, e, f] \<Rightarrow> Some (gs @ [a * 256 + b, e * 256 + f], el, [])
                             | _ \<Rightarrow> None))
                    else if c \<noteq> CHR '':'' \<or> s1 = [] then None
                    else if hd s1 \<noteq> CHR '':'' then ipv6_groups k s1 gs1 el
                    else if el \<noteq> None then None
                    else if tl s1 = [] then Some (gs1, Some (length gs1), [])
                    else ipv6_groups k (tl s1) gs1 (Some (length gs1)))))"

definition parse_ipv6 :: "string \<Rightarrow> int list option" where
  "parse_ipv6 s =
     (let ell = has_prefix ''::'' s; s1 = (if ell then drop 2 s else s)
      in if ell \<and> s1 = [] then Some (replicate 8 0)
         else (case ipv6_groups 8 s1 [] (if ell then Some 0 else None) of
                 None \<Rightarrow> None
               | Some (gs, el, rest) \<Rightarrow>
                   (if rest \<noteq> [] then None
                    else if length gs < 8
                    then (case el of
                            None \<Rightarrow> None
                          | Some e \<Rightarrow> Some (take e gs @ replicate (8 - length gs) 0 @ drop e gs))
                    else if el \<noteq> None then None else Some gs)))"

datatype ip = IPv4 "int list" | IPv6 "int list"

text \<open>\<open>ParseIP\<close> refuses a zone, so an address with a percent sign is none.\<close>

definition parse_ip :: "string \<Rightarrow> ip option" where
  "parse_ip s =
     (case dropWhile (\<lambda>c. c \<notin> {CHR ''.'', CHR '':'', CHR ''%''}) s of
        [] \<Rightarrow> None
      | c # cs \<Rightarrow>
          (if c = CHR ''.'' then map_option IPv4 (parse_ipv4 s)
           else if c = CHR '':'' \<and> CHR ''%'' \<notin> set s then map_option IPv6 (parse_ipv6 s)
           else None))"

text \<open>\<open>IP.IsLoopback\<close>; an IPv4 address in IPv6 form counts as the IPv4 address.\<close>

definition is_loopback :: "ip \<Rightarrow> bool" where
  "is_loopback a =
     (case a of
        IPv4 bs \<Rightarrow> bs \<noteq> [] \<and> hd bs = 127
      | IPv6 gs \<Rightarrow>
          (if take 6 gs = [0, 0, 0, 0, 0, 65535] then length gs = 8 \<and> gs ! 6 div 256 = 127
           else gs = [0, 0, 0, 0, 0, 0, 0, 1]))"

lemma addresses:
  "split_host_port ''127.0.0.1:5120'' = Some (''127.0.0.1'', ''5120'')"
  "split_host_port ''[::1]:80'' = Some (''::1'', ''80'')"
  "split_host_port ''::1'' = None"
  "map_option is_loopback (parse_ip ''127.8.0.1'') = Some True"
  "map_option is_loopback (parse_ip ''::1'') = Some True"
  "map_option is_loopback (parse_ip ''::ffff:127.0.0.1'') = Some True"
  "map_option is_loopback (parse_ip ''10.0.0.1'') = Some False"
  "parse_ip ''127.0.0.1.example.org'' = None" "parse_ip ''127.0.0.01'' = None" "parse_ip ''fe80::1%eth0'' = None"
  "go_fields '' Bearer  abc '' = [''Bearer'', ''abc'']"
  by code_simp+

end
