(* ===== verification/Gateway_Server.thy ===== *)
theory Gateway_Server
  imports Gateway_Transcript Go_Path Go_Net
begin

section \<open>Package gateway: the server around the handlers\<close>

text \<open>
  \<open>gateway/server.go\<close>, \<open>api.go\<close>, \<open>auth.go\<close>, \<open>cors.go\<close>, \<open>access_log.go\<close> and \<open>errors.go\<close>: the chain of middleware, the
  multiplexer, the routing inside the API and what each endpoint answers. A handler is a function from the request
  and the state to what it did to the response, in order, the value it panicked with if it did, and the new state.
\<close>

subsection \<open>Requests and responses\<close>

record http_request =
  hq_method :: string
  hq_uri :: string
  hq_escaped :: string
  hq_path :: string
  hq_query :: query
  hq_headers :: smap
  hq_remote :: string
  hq_length :: int
  hq_body :: "string option"
  hq_limit :: "int option"
  hq_ctx_id :: "string option"

definition header :: "string \<Rightarrow> http_request \<Rightarrow> string" where
  "header k r = mget (hq_headers r) k"

definition request_id :: "http_request \<Rightarrow> string" where
  "request_id r = request_id_from_request (hq_ctx_id r) (header ''X-Request-Id'' r)"

datatype api_reply =
    Health gtime
  | Ready gtime
  | Index string string "(string \<times> string) list" "(string \<times> string \<times> string) list"
  | Provider_Reply provider_dto
  | Providers "provider_dto page_reply"
  | Models "model_dto page_reply"
  | Sessions "session_dto page_reply"
  | Session_Reply session_dto
  | Runs "run_dto page_reply"
  | Run_Reply run_dto
  | Events event_page
  | Transcript run_transcript
  | Preview jval

datatype body =
    Error_Body string page_error string
  | Missing_Wiring "string list" string
  | Json api_reply
  | Frame frame
  | Plain string
  | Document

datatype act = Set_Header string string | Write_Header nat | Write body | Flush

type_synonym 'w web_handler = "http_request \<Rightarrow> 'w \<Rightarrow> (act list \<times> string option) \<times> 'w"

text \<open>
  What reaches the client (\<open>net/http\<close>): the first status counts, a body without one means 200, and headers set after
  the status are not sent.
\<close>

record http_response =
  ans_status :: nat
  ans_headers :: smap
  ans_body :: "body list"

fun respond_from :: "nat option \<Rightarrow> smap \<Rightarrow> body list \<Rightarrow> act list \<Rightarrow> http_response" where
  "respond_from st hs bs [] = \<lparr>ans_status = (case st of None \<Rightarrow> 200 | Some n \<Rightarrow> n), ans_headers = hs, ans_body = bs\<rparr>"
| "respond_from st hs bs (Set_Header k v # as) = respond_from st (if st = None then mset_kv hs k v else hs) bs as"
| "respond_from st hs bs (Write_Header n # as) = respond_from (if st = None then Some n else st) hs bs as"
| "respond_from st hs bs (Write b # as) = respond_from (if st = None then Some 200 else st) hs (bs @ [b]) as"
| "respond_from st hs bs (Flush # as) = respond_from (if st = None then Some 200 else st) hs bs as"

definition respond :: "act list \<Rightarrow> http_response" where
  "respond as = respond_from None [] [] as"

subsection \<open>Error replies\<close>

definition write_json_status :: "nat \<Rightarrow> body \<Rightarrow> act list" where
  "write_json_status n b = [Set_Header ''Content-Type'' ''application/json; charset=utf-8'', Write_Header n, Write b]"

definition write_error :: "http_request \<Rightarrow> nat \<Rightarrow> string \<Rightarrow> page_error \<Rightarrow> act list" where
  "write_error r n code e = write_json_status n (Error_Body code e (request_id r))"

definition write_method_not_allowed :: "http_request \<Rightarrow> string list \<Rightarrow> act list" where
  "write_method_not_allowed r methods =
     Set_Header ''Allow'' (join '', '' methods) # write_error r 405 ''method_not_allowed'' NotThisMethod"

subsection \<open>Routing\<close>

definition split_path :: "string \<Rightarrow> string list" where
  "split_path path = (if path = [] then [] else filter (\<lambda>p. p \<noteq> []) (split_on (CHR ''/'') path))"

datatype endpoint =
    Wrong_Method "string list"
  | No_Endpoint
  | Bad_Id string page_error
  | Api_Index
  | Open_Api
  | Provider_Detail string
  | Provider_List
  | Model_List
  | Session_List
  | Session_Create
  | Session_Detail string
  | Run_List
  | Run_Start
  | Run_Detail string
  | Run_Cancel string
  | Run_Events string
  | Run_Transcript string
  | Run_Retry string

definition only :: "string \<Rightarrow> string \<Rightarrow> endpoint \<Rightarrow> endpoint" where
  "only wanted meth e = (if meth = wanted then e else Wrong_Method [wanted])"

definition get_or_post :: "string \<Rightarrow> endpoint \<Rightarrow> endpoint \<Rightarrow> endpoint" where
  "get_or_post meth g p = (if meth = ''GET'' then g else if meth = ''POST'' then p else Wrong_Method [''GET'', ''POST''])"

definition route_providers :: "string \<Rightarrow> string list \<Rightarrow> endpoint" where
  "route_providers meth parts =
     (if length parts = 2 then only ''GET'' meth (Provider_Detail (parts ! 1))
      else if length parts = 1 then only ''GET'' meth Provider_List
      else No_Endpoint)"

definition route_models :: "string \<Rightarrow> string list \<Rightarrow> endpoint" where
  "route_models meth parts = (if length parts \<noteq> 1 \<or> meth \<noteq> ''GET'' then Wrong_Method [''GET''] else Model_List)"

definition route_sessions :: "string \<Rightarrow> string list \<Rightarrow> endpoint" where
  "route_sessions meth parts =
     (if length parts = 1 then get_or_post meth Session_List Session_Create
      else if length parts < 2 then No_Endpoint
      else (case validate_session_id_text (parts ! 1) of
              Some e \<Rightarrow> Bad_Id ''invalid_session'' e
            | None \<Rightarrow> if length parts = 2 then only ''GET'' meth (Session_Detail (parts ! 1)) else No_Endpoint))"

definition route_runs :: "string \<Rightarrow> string list \<Rightarrow> endpoint" where
  "route_runs meth parts =
     (if length parts = 1 then get_or_post meth Run_List Run_Start
      else if length parts < 2 then No_Endpoint
      else (let i = parts ! 1
            in case validate_run_id_text i of
                 Some e \<Rightarrow> Bad_Id ''invalid_run'' e
               | None \<Rightarrow>
                   (if length parts = 2 then only ''GET'' meth (Run_Detail i)
                    else if length parts = 3 \<and> parts ! 2 = ''cancel'' then only ''POST'' meth (Run_Cancel i)
                    else if length parts = 3 \<and> parts ! 2 = ''events'' then only ''GET'' meth (Run_Events i)
                    else if length parts = 3 \<and> parts ! 2 = ''transcript'' then only ''GET'' meth (Run_Transcript i)
                    else if length parts = 3 \<and> parts ! 2 = ''retry'' then only ''POST'' meth (Run_Retry i)
                    else No_Endpoint)))"

definition route :: "string \<Rightarrow> string \<Rightarrow> endpoint" where
  "route meth path =
     (let parts = split_path (trim_slashes (trim_prefix ''/api/v1'' path))
      in case parts of
           [] \<Rightarrow> only ''GET'' meth Api_Index
         | p # ps \<Rightarrow>
             (if p = ''openapi.yaml'' then (if ps \<noteq> [] \<or> meth \<noteq> ''GET'' then Wrong_Method [''GET''] else Open_Api)
              else if p = ''providers'' then route_providers meth parts
              else if p = ''models'' then route_models meth parts
              else if p = ''sessions'' then route_sessions meth parts
              else if p = ''runs'' then route_runs meth parts
              else No_Endpoint))"

subsection \<open>The index\<close>

text \<open>A Go map and the names in order; the operation of a name has the method of \<open>apiIndexLinkMethods\<close> or GET.\<close>

definition api_index_links :: smap where
  "api_index_links =
     [(''health'', ''/healthz''), (''ready'', ''/readyz''), (''api_index'', ''/api/v1''),
      (''openapi'', ''/api/v1/openapi.yaml''), (''providers'', ''/api/v1/providers''),
      (''provider_detail'', ''/api/v1/providers/{provider}''), (''models'', ''/api/v1/models''),
      (''sessions'', ''/api/v1/sessions''), (''session_create'', ''/api/v1/sessions''),
      (''session_detail'', ''/api/v1/sessions/{session_id}''), (''runs'', ''/api/v1/runs''), (''run_start'', ''/api/v1/runs''),
      (''run_detail'', ''/api/v1/runs/{run_id}''), (''run_events'', ''/api/v1/runs/{run_id}/events''),
      (''run_transcript'', ''/api/v1/runs/{run_id}/transcript''), (''run_retry'', ''/api/v1/runs/{run_id}/retry''),
      (''run_cancel'', ''/api/v1/runs/{run_id}/cancel'')]"

definition api_index_link_methods :: smap where
  "api_index_link_methods =
     [(''session_create'', ''POST''), (''run_start'', ''POST''), (''run_retry'', ''POST''), (''run_cancel'', ''POST'')]"

definition api_index_operations :: "(string \<times> string \<times> string) list" where
  "api_index_operations =
     map (\<lambda>n. (n, (if mget api_index_link_methods n = [] then ''GET'' else mget api_index_link_methods n), mget api_index_links n))
       (sort (map fst api_index_links))"

subsection \<open>What an endpoint answers\<close>

text \<open>
  The configuration of the server's handlers: the store, which is the run manager's, the providers, the run functions;
  how a body is decoded (\<open>encoding/json\<close>), what a stream's channels do, whether the database answers a ping.
\<close>

record 'w gateway =
  gw_version :: string
  gw_commit :: string
  gw_providers :: "provider_dto list"
  gw_db :: "'w \<Rightarrow> db \<times> world"
  gw_set_db :: "db \<times> world \<Rightarrow> 'w \<Rightarrow> 'w"
  gw_runs :: "'w run_config"
  gw_counter :: "'w run_counter option"
  gw_canceler :: "'w run_canceler option"
  gw_events :: "'w event_config"
  gw_now :: "'w \<Rightarrow> gtime \<times> 'w"
  gw_lower :: "string \<Rightarrow> string"
  gw_fold :: "string \<Rightarrow> string \<Rightarrow> bool"
  gw_decode_session :: "string \<Rightarrow> int option \<Rightarrow> decode_error + session_create"
  gw_decode_start :: "string \<Rightarrow> int option \<Rightarrow> decode_error + start_request"
  gw_feed :: "http_request \<Rightarrow> run_event_dto sse_input list \<times> run_dto sse_input list"
  gw_ping :: "'w \<Rightarrow> string option"

definition write_answer :: "http_request \<Rightarrow> ('a \<Rightarrow> api_reply) \<Rightarrow> 'a answer \<Rightarrow> act list" where
  "write_answer r f a =
     (case a of Refused n code e \<Rightarrow> write_error r n code e | Answered n x \<Rightarrow> write_json_status n (Json (f x)))"

definition write_run_reply :: "http_request \<Rightarrow> reply \<Rightarrow> act list" where
  "write_run_reply r x =
     (case x of
        ReplyError n code b \<Rightarrow>
          write_error r n code (case b of BodyText t \<Rightarrow> Fault t | BodyRequest e \<Rightarrow> Request_Error e)
      | ReplyRun n replay d \<Rightarrow>
          (if replay then [Set_Header ''X-Idempotent-Replay'' ''true''] else []) @ write_json_status n (Json (Run_Reply d))
      | ReplyPreview j \<Rightarrow> write_json_status 200 (Json (Preview j)))"

definition write_events_reply :: "http_request \<Rightarrow> events_reply \<Rightarrow> act list" where
  "write_events_reply r x =
     (case x of
        Event_Page a \<Rightarrow> write_answer r Events a
      | Event_Stream fs fin \<Rightarrow>
          [Set_Header ''Content-Type'' ''text/event-stream; charset=utf-8'', Set_Header ''Cache-Control'' ''no-cache'',
           Set_Header ''X-Accel-Buffering'' ''no''] @ concat (map (\<lambda>f. [Write (Frame f), Flush]) fs))"

definition request_ids :: "http_request \<Rightarrow> http_ids" where
  "request_ids r =
     \<lparr>hi_ctx_request_id = hq_ctx_id r, hi_request_id_header = header ''X-Request-Id'' r,
      hi_idempotency_header = header ''Idempotency-Key'' r\<rparr>"

definition decode_body :: "(string \<Rightarrow> int option \<Rightarrow> 'e + 'a) \<Rightarrow> http_request \<Rightarrow> 'e + 'a" where
  "decode_body f r = f (case hq_body r of None \<Rightarrow> [] | Some b \<Rightarrow> b) (hq_limit r)"

definition perform :: "'w gateway \<Rightarrow> endpoint \<Rightarrow> http_request \<Rightarrow> 'w \<Rightarrow> act list \<times> 'w" where
  "perform g e r w =
     (let q = hq_query r; u = gw_lower g; same = (\<lambda>as. (as, w))
      in case e of
           Wrong_Method methods \<Rightarrow> same (write_method_not_allowed r methods)
         | No_Endpoint \<Rightarrow> same (write_error r 404 ''not_found'' NoEndpoint)
         | Bad_Id code x \<Rightarrow> same (write_error r 400 code x)
         | Api_Index \<Rightarrow>
             same (write_json_status 200 (Json (Index (gw_version g) (gw_commit g) api_index_links api_index_operations)))
         | Open_Api \<Rightarrow> same [Set_Header ''Content-Type'' ''application/yaml; charset=utf-8'', Write_Header 200, Write Document]
         | Provider_Detail name \<Rightarrow> same (write_answer r Provider_Reply (get_provider (gw_fold g) (gw_providers g) name))
         | Provider_List \<Rightarrow> same (write_answer r Providers (list_providers u (gw_providers g) q))
         | Model_List \<Rightarrow> same (write_answer r Models (list_models u (gw_fold g) (gw_providers g) q))
         | Session_List \<Rightarrow> same (write_answer r Sessions (list_sessions q (fst (gw_db g w))))
         | Session_Create \<Rightarrow>
             (let (a, st) = create_session (decode_body (gw_decode_session g) r) (gw_db g w)
              in (write_answer r Session_Reply a, gw_set_db g st w))
         | Session_Detail i \<Rightarrow> same (write_answer r Session_Reply (get_session i (fst (gw_db g w))))
         | Run_List \<Rightarrow> same (write_answer r Runs (list_runs (gw_runs g) (gw_counter g) q w))
         | Run_Start \<Rightarrow>
             (let (a, w1) = start_run (gw_runs g) (request_ids r) (decode_body (gw_decode_start g) r) w
              in (write_run_reply r a, w1))
         | Run_Detail i \<Rightarrow> same (write_answer r Run_Reply (get_run (gw_runs g) i w))
         | Run_Cancel i \<Rightarrow>
             (let (a, w1) = cancel_run (gw_canceler g) i w in (write_answer r Run_Reply a, w1))
         | Run_Events i \<Rightarrow>
             (let (a, w1) = get_run_events (gw_events g) u q (header ''Accept'' r) i (fst (gw_feed g r)) (snd (gw_feed g r)) w
              in (write_events_reply r a, w1))
         | Run_Transcript i \<Rightarrow>
             (let (a, w1) = get_run_transcript (gw_events g) (\<lambda>w. fst (gw_db g w)) u q i w
              in (write_answer r Transcript a, w1))
         | Run_Retry i \<Rightarrow>
             (let (a, w1) = retry_run (gw_runs g) (request_ids r) i w in (write_run_reply r a, w1)))"

definition handle_api :: "'w gateway \<Rightarrow> 'w web_handler" where
  "handle_api g r w = (let (as, w1) = perform g (route (hq_method r) (hq_path r)) r w in ((as, None), w1))"

definition handle_health :: "'w gateway \<Rightarrow> 'w web_handler" where
  "handle_health g r w =
     (if hq_method r \<noteq> ''GET'' then ((write_method_not_allowed r [''GET''], None), w)
      else (let (t, w1) = gw_now g w in ((write_json_status 200 (Json (Health t)), None), w1)))"

definition missing_runtime_wiring :: "'w gateway \<Rightarrow> string list" where
  "missing_runtime_wiring g =
     (if rc_starter (gw_runs g) = None then [''run_starter''] else []) @
     (if rc_previewer (gw_runs g) = None then [''run_previewer''] else []) @
     (if rc_validator (gw_runs g) = None then [''run_validator''] else []) @
     (if rc_getter (gw_runs g) = None then [''run_getter''] else []) @
     (if rc_lister (gw_runs g) = None then [''run_lister''] else []) @
     (if gw_canceler g = None then [''run_canceler''] else []) @
     (if ec_lister (gw_events g) = None then [''run_event_lister''] else []) @
     (if ec_run_feed (gw_events g) = None then [''run_subscriber''] else []) @
     (if ec_event_feed (gw_events g) = None then [''run_event_subscriber''] else [])"

definition handle_ready :: "'w gateway \<Rightarrow> 'w web_handler" where
  "handle_ready g r w =
     (if hq_method r \<noteq> ''GET'' then ((write_method_not_allowed r [''GET''], None), w)
      else (case gw_ping g w of
              Some e \<Rightarrow> ((write_error r 503 ''not_ready'' (Fault e), None), w)
            | None \<Rightarrow>
                (let missing = missing_runtime_wiring g
                 in if missing \<noteq> []
                    then ((write_json_status 503 (Missing_Wiring missing (request_id r)), None), w)
                    else (let (t, w1) = gw_now g w in ((write_json_status 200 (Json (Ready t)), None), w1)))))"

subsection \<open>The multiplexer\<close>

text \<open>
  \<open>http.ServeMux\<close>: a path that is not clean is redirected to the clean one; patterns are compared segment by segment,
  each unescaped. What the redirect says depends on Go's release and is an argument of the server.
\<close>

definition clean_path :: "string \<Rightarrow> string" where
  "clean_path p =
     (if p = [] then ''/''
      else (let p1 = (if has_prefix ''/'' p then p else CHR ''/'' # p); np = path_clean p1
            in if has_suffix ''/'' p1 \<and> np \<noteq> ''/'' then np @ ''/'' else np))"

fun unescape_segment :: "string \<Rightarrow> string option" where
  "unescape_segment [] = Some []"
| "unescape_segment (c # cs) =
     (if c \<noteq> CHR ''%'' then map_option ((#) c) (unescape_segment cs)
      else (case cs of
              a # b # ds \<Rightarrow>
                (case (hex_value a, hex_value b) of
                   (Some x, Some y) \<Rightarrow> map_option ((#) (char_of (nat (16 * x + y)))) (unescape_segment ds)
                 | _ \<Rightarrow> None)
            | _ \<Rightarrow> None))"

definition segments :: "string \<Rightarrow> string list" where
  "segments p = map (\<lambda>s. case unescape_segment s of Some t \<Rightarrow> t | None \<Rightarrow> s) (tl (split_on (CHR ''/'') p))"

datatype target = To_Star | To_Redirect string | To_Health | To_Ready | To_Api | To_None

definition mux_target :: "http_request \<Rightarrow> target" where
  "mux_target r =
     (let p = (if hq_method r = ''CONNECT'' then hq_escaped r else clean_path (hq_escaped r)); ss = segments p
      in if hq_uri r = ''*'' then To_Star
         else if p \<noteq> hq_escaped r then To_Redirect p
         else if ss = [''healthz''] then To_Health
         else if ss = [''readyz''] then To_Ready
         else if take 2 ss = [''api'', ''v1''] then To_Api
         else To_None)"

subsection \<open>The middleware\<close>

text \<open>
  \<open>responseStatsWriter\<close>: only the first status is passed on, and the status and the bytes written are remembered. A
  body that is written first makes the status 200 and passes no \<open>WriteHeader\<close> on.
\<close>

fun stats_writer :: "(body \<Rightarrow> nat) \<Rightarrow> nat \<Rightarrow> int \<Rightarrow> act list \<Rightarrow> act list \<times> nat \<times> int" where
  "stats_writer sz st n [] = ([], st, n)"
| "stats_writer sz st n (a # as) =
     (case a of
        Write_Header k \<Rightarrow>
          (if st \<noteq> 0 then stats_writer sz st n as
           else (let (bs, x) = stats_writer sz k n as in (a # bs, x)))
      | Write b \<Rightarrow>
          (let (bs, x) = stats_writer sz (if st = 0 then 200 else st) (n + int (sz b)) as in (a # bs, x))
      | _ \<Rightarrow> (let (bs, x) = stats_writer sz st n as in (a # bs, x)))"

record log_entry =
  le_request_id :: string
  le_method :: string
  le_uri :: string
  le_status :: nat
  le_bytes :: int
  le_duration :: int
  le_remote :: string
  le_agent :: string

record 'w server =
  sv_key :: string
  sv_allow_local :: bool
  sv_origins :: "string list"
  sv_generator :: "'w \<Rightarrow> string \<times> 'w"
  sv_max_bytes :: int
  sv_logger :: "(log_entry \<Rightarrow> 'w \<Rightarrow> 'w) option"
  sv_now :: "'w \<Rightarrow> gtime \<times> 'w"
  sv_redirect :: "string \<Rightarrow> http_request \<Rightarrow> bool \<times> string \<times> string"
  sv_size :: "body \<Rightarrow> nat"

definition bearer_token :: "string \<Rightarrow> string" where
  "bearer_token h =
     (let ps = go_fields h in if length ps \<noteq> 2 \<or> map lower_char (ps ! 0) \<noteq> ''bearer'' then [] else ps ! 1)"

text \<open>\<open>EqualFold\<close> with \<open>localhost\<close>, under Unicode folding as the patterns of the redaction have it.\<close>

definition is_local_request :: "string \<Rightarrow> bool" where
  "is_local_request remote =
     (let host = (case split_host_port remote of Some (h, p) \<Rightarrow> h | None \<Rightarrow> remote)
      in case parse_ip host of Some a \<Rightarrow> is_loopback a | None \<Rightarrow> lit_ci ''localhost'' host = Some [])"

definition with_api_auth :: "'w server \<Rightarrow> 'w web_handler \<Rightarrow> 'w web_handler" where
  "with_api_auth s next r w =
     (if sv_key s = [] then next r w
      else if sv_allow_local s \<and> is_local_request (hq_remote r) then next r w
      else if bearer_token (header ''Authorization'' r) \<noteq> sv_key s
      then ((write_error r 401 ''unauthorized'' Unauthorized, None), w)
      else next r w)"

definition body_limit :: "int \<Rightarrow> 'w web_handler \<Rightarrow> 'w web_handler" where
  "body_limit limit next r w =
     (if limit < 0 then next r w
      else if hq_body r = None then next r w
      else if limit < hq_length r
      then ((write_error r 413 ''request_too_large'' (Decode_Error BodyTooLarge), None), w)
      else next (r\<lparr>hq_limit := Some limit\<rparr>) w)"

definition security_headers :: "'w web_handler \<Rightarrow> 'w web_handler" where
  "security_headers next r w =
     (let ((as, p), w1) = next r w in ((Set_Header ''X-Content-Type-Options'' ''nosniff'' # as, p), w1))"

definition allowed_origin :: "string list \<Rightarrow> string \<Rightarrow> bool" where
  "allowed_origin allowed origin \<longleftrightarrow>
     origin \<noteq> [] \<and> list_ex (\<lambda>i. trim_space i = ''*'' \<or> trim_space i = origin) allowed"

definition cors :: "string list \<Rightarrow> 'w web_handler \<Rightarrow> 'w web_handler" where
  "cors origins next r w =
     (if origins = [] then next r w
      else (let origin = header ''Origin'' r;
                hs = (if allowed_origin origins origin
                      then [Set_Header ''Access-Control-Allow-Origin'' origin, Set_Header ''Vary'' ''Origin'',
                            Set_Header ''Access-Control-Allow-Headers''
                              ''Authorization, Content-Type, X-Request-Id, Idempotency-Key'',
                            Set_Header ''Access-Control-Allow-Methods'' ''GET, POST, PUT, DELETE, OPTIONS'',
                            Set_Header ''Access-Control-Expose-Headers'' ''X-Request-Id, X-Idempotent-Replay'']
                      else [])
            in if hq_method r = ''OPTIONS'' \<and> origin \<noteq> [] then ((hs @ [Write_Header 204], None), w)
               else (let ((as, p), w1) = next r w in ((hs @ as, p), w1))))"

definition recovering :: "(body \<Rightarrow> nat) \<Rightarrow> 'w web_handler \<Rightarrow> 'w web_handler" where
  "recovering sz next r w =
     (let ((as, p), w1) = next r w; (bs, st, n) = stats_writer sz 0 0 as
      in case p of
           None \<Rightarrow> ((bs, None), w1)
         | Some m \<Rightarrow>
             (if st \<noteq> 0 then ((bs, None), w1)
              else ((bs @ fst (stats_writer sz st n (write_error r 500 ''panic'' (Panicked m))), None), w1)))"

definition access_log :: "'w server \<Rightarrow> 'w web_handler \<Rightarrow> 'w web_handler" where
  "access_log s next r w =
     (case sv_logger s of
        None \<Rightarrow> next r w
      | Some logger \<Rightarrow>
          (let (started, w1) = sv_now s w; ((as, p), w2) = next r w1; (bs, st, n) = stats_writer (sv_size s) 0 0 as
           in case p of
                Some m \<Rightarrow> ((bs, Some m), w2)
              | None \<Rightarrow>
                  (let (ended, w3) = sv_now s w2
                   in ((bs, None),
                       logger \<lparr>le_request_id = request_id r, le_method = hq_method r, le_uri = hq_uri r,
                         le_status = (if st = 0 then 200 else st), le_bytes = n, le_duration = ended - started,
                         le_remote = hq_remote r, le_agent = header ''User-Agent'' r\<rparr> w3))))"

definition identify :: "'w server \<Rightarrow> 'w web_handler \<Rightarrow> 'w web_handler" where
  "identify s next r w =
     (let i = request_id r; at = (\<lambda>i. r\<lparr>hq_ctx_id := with_request_id (hq_ctx_id r) i\<rparr>)
      in case validate_request_id_value i of
           Some e \<Rightarrow>
             (let (j, w1) = sv_generator s w
              in ((Set_Header ''X-Request-Id'' j # write_error (at j) 400 ''invalid_request_id'' (Request_Error e), None), w1))
         | None \<Rightarrow>
             (let (j, w1) = (if i = [] then sv_generator s w else (i, w)); ((as, p), w2) = next (at j) w1
              in ((Set_Header ''X-Request-Id'' j # as, p), w2)))"

definition mux :: "'w server \<Rightarrow> 'w web_handler \<Rightarrow> 'w web_handler \<Rightarrow> 'w web_handler \<Rightarrow> 'w web_handler" where
  "mux s health ready api r w =
     (case mux_target r of
        To_Star \<Rightarrow> (([Set_Header ''Connection'' ''close'', Write_Header 400], None), w)
      | To_Redirect p \<Rightarrow>
          (let (permanent, location, page) = sv_redirect s p r
           in (([Set_Header ''Location'' location, Write_Header (if permanent then 301 else 307), Write (Plain page)], None), w))
      | To_Health \<Rightarrow> health r w
      | To_Ready \<Rightarrow> ready r w
      | To_Api \<Rightarrow> api r w
      | To_None \<Rightarrow>
          (([Set_Header ''Content-Type'' ''text/plain; charset=utf-8'', Set_Header ''X-Content-Type-Options'' ''nosniff'',
             Write_Header 404, Write (Plain ''404 page not found'')], None), w))"

definition serve :: "'w server \<Rightarrow> 'w web_handler \<Rightarrow> 'w web_handler \<Rightarrow> 'w web_handler \<Rightarrow> 'w web_handler" where
  "serve s health ready api =
     identify s (access_log s (recovering (sv_size s) (security_headers (cors (sv_origins s)
       (mux s health ready (body_limit (sv_max_bytes s) (with_api_auth s api)))))))"

definition serve_http :: "'w server \<Rightarrow> 'w gateway \<Rightarrow> 'w web_handler" where
  "serve_http s g = serve s (handle_health g) (handle_ready g) (handle_api g)"

text \<open>\<open>New\<close> wants a store and fills in the version, the clock, the generator and the limit.\<close>

definition new_server ::
  "bool \<Rightarrow> ('w \<Rightarrow> gtime \<times> 'w) \<Rightarrow> ('w \<Rightarrow> string \<times> 'w) \<Rightarrow> ('w \<Rightarrow> gtime \<times> 'w) option \<Rightarrow> ('w \<Rightarrow> string \<times> 'w) option \<Rightarrow>
   'w server \<times> 'w gateway \<Rightarrow> ('w server \<times> 'w gateway) option" where
  "new_server has_store std_now std_id given_now given_id cfg =
     (let (s, g) = cfg; t = (case given_now of None \<Rightarrow> std_now | Some f \<Rightarrow> f)
      in if \<not> has_store then None
         else Some (s\<lparr>sv_now := t, sv_generator := (case given_id of None \<Rightarrow> std_id | Some f \<Rightarrow> f),
                      sv_max_bytes := (if sv_max_bytes s = 0 then 33554432 else sv_max_bytes s)\<rparr>,
                    g\<lparr>gw_version := (if gw_version g = [] then ''dev'' else gw_version g), gw_now := t\<rparr>))"

subsection \<open>Lemmas on responses\<close>

fun first_status :: "act list \<Rightarrow> nat option" where
  "first_status [] = None"
| "first_status (Set_Header k v # as) = first_status as"
| "first_status (Write_Header n # as) = Some n"
| "first_status (Write b # as) = Some 200"
| "first_status (Flush # as) = Some 200"

definition sent_status :: "act list \<Rightarrow> nat" where
  "sent_status as = (case first_status as of None \<Rightarrow> 200 | Some n \<Rightarrow> n)"

fun last_header :: "string \<Rightarrow> act list \<Rightarrow> string option" where
  "last_header k [] = None"
| "last_header k (Set_Header j v # as) = (case last_header k as of Some x \<Rightarrow> Some x | None \<Rightarrow> if j = k then Some v else None)"
| "last_header k (a # as) = None"

lemma respond_from_status:
  "ans_status (respond_from st hs bs as) = (case st of Some n \<Rightarrow> n | None \<Rightarrow> sent_status as)"
  by (induction st hs bs as rule: respond_from.induct) (auto simp: sent_status_def split: option.splits)

lemma respond_status [simp]: "ans_status (respond as) = sent_status as"
  by (simp add: respond_def respond_from_status)

lemma respond_from_header:
  "mget (ans_headers (respond_from st hs bs as)) k =
    (case st of Some n \<Rightarrow> mget hs k | None \<Rightarrow> (case last_header k as of Some v \<Rightarrow> v | None \<Rightarrow> mget hs k))"
  by (induction st hs bs as rule: respond_from.induct) (auto split: option.splits)

lemma first_status_append: "first_status (as @ bs) = (case first_status as of Some n \<Rightarrow> Some n | None \<Rightarrow> first_status bs)"
  by (induction as rule: first_status.induct) auto

text \<open>What a handler is expected to do: no request id of its own, no status 0, nothing flushed before it is begun.\<close>

fun begun_before_flush :: "act list \<Rightarrow> bool" where
  "begun_before_flush [] = True"
| "begun_before_flush (Set_Header k v # as) = begun_before_flush as"
| "begun_before_flush (Flush # as) = False"
| "begun_before_flush (a # as) = True"

definition polite :: "act list \<Rightarrow> bool" where
  "polite as \<longleftrightarrow> Write_Header 0 \<notin> set as \<and> (\<forall>v. Set_Header ''X-Request-Id'' v \<notin> set as) \<and> begun_before_flush as"

lemma begun_append: "begun_before_flush as \<Longrightarrow> begun_before_flush bs \<Longrightarrow> begun_before_flush (as @ bs)"
  by (induction as rule: begun_before_flush.induct) auto

lemma polite_append: "polite as \<Longrightarrow> polite bs \<Longrightarrow> polite (as @ bs)"
  by (auto simp: polite_def begun_append)

lemma polite_simps [simp]:
  "polite []"
  "polite (Set_Header k v # as) \<longleftrightarrow> k \<noteq> ''X-Request-Id'' \<and> polite as"
  by (auto simp: polite_def)

lemma polite_json [simp]: "n \<noteq> 0 \<Longrightarrow> polite (write_json_status n b)"
  by (auto simp: polite_def write_json_status_def)

lemma polite_error [simp]: "n \<noteq> 0 \<Longrightarrow> polite (write_error r n code e)"
  by (simp add: write_error_def)

lemma polite_method [simp]: "polite (write_method_not_allowed r methods)"
  by (simp add: write_method_not_allowed_def)

lemma last_header_None: "\<forall>v. Set_Header k v \<notin> set as \<Longrightarrow> last_header k as = None"
  by (induction k as rule: last_header.induct) auto

text \<open>The response a stats writer passes on is the one it was given.\<close>

lemma stats_writer_late:
  "st \<noteq> 0 \<Longrightarrow> stats_writer sz st n as = (filter (\<lambda>a. \<forall>k. a \<noteq> Write_Header k) as, st, n + (\<Sum>a\<leftarrow>as. case a of Write b \<Rightarrow> int (sz b) | _ \<Rightarrow> 0))"
  by (induction as arbitrary: n) (auto split: act.splits)

lemma stats_writer_polite:
  assumes "polite as" and "stats_writer sz 0 n as = (bs, st, m)"
  shows "polite bs \<and> first_status bs = first_status as \<and> st = (case first_status as of None \<Rightarrow> 0 | Some k \<Rightarrow> k)"
  using assms
proof (induction as arbitrary: n bs)
  case (Cons a as)
  show ?case
  proof (cases a)
    case (Set_Header k v)
    then show ?thesis using Cons by (auto split: prod.splits)
  next
    case (Write_Header k)
    then show ?thesis using Cons.prems by (auto simp: polite_def stats_writer_late)
  next
    case (Write b)
    then show ?thesis using Cons.prems by (auto simp: polite_def stats_writer_late)
  next
    case Flush
    then show ?thesis using Cons.prems by (simp add: polite_def)
  qed
qed simp

fun answer_status :: "'a answer \<Rightarrow> nat" where
  "answer_status (Refused n c e) = n"
| "answer_status (Answered n x) = n"

fun reply_status :: "reply \<Rightarrow> nat" where
  "reply_status (ReplyError n c b) = n"
| "reply_status (ReplyRun n rep d) = n"
| "reply_status (ReplyPreview j) = 200"

lemma polite_answer: "0 < answer_status a \<Longrightarrow> polite (write_answer r f a)"
  by (cases a) (auto simp: write_answer_def)

lemma polite_run_reply: "0 < reply_status x \<Longrightarrow> polite (write_run_reply r x)"
  by (cases x) (auto simp: write_run_reply_def)

lemma polite_frames: "polite (concat (map (\<lambda>f. [Write (Frame f), Flush]) fs))"
  by (induction fs) (auto simp: polite_def)

lemma polite_events_reply: "(\<And>a. x = Event_Page a \<Longrightarrow> 0 < answer_status a) \<Longrightarrow> polite (write_events_reply r x)"
  by (cases x) (auto simp: write_events_reply_def polite_answer polite_frames)

lemma with_param_status: "(\<And>x. 0 < answer_status (f x)) \<Longrightarrow> 0 < answer_status (with_param c v f)"
  by (auto simp: with_param_def split: sum.splits)

lemma unless_status: "0 < answer_status a \<Longrightarrow> 0 < answer_status (unless c e a)"
  by (auto simp: unless_def split: option.splits)

lemma list_page_status: "0 < answer_status (list_page c xs q)"
  unfolding list_page_def by (auto intro!: with_param_status simp: Let_def split: prod.splits)

lemma list_sessions_status: "0 < answer_status (list_sessions q d)"
  unfolding list_sessions_def Let_def
  by (intro with_param_status unless_status) (auto split: prod.splits sum.splits option.splits)

lemma list_runs_status: "0 < answer_status (list_runs cfg counter q w)"
  unfolding list_runs_def Let_def
  by (cases "rc_lister cfg")
    (auto simp: count_runs_def intro!: with_param_status unless_status split: prod.splits sum.splits option.splits)

lemma create_session_status: "0 < answer_status (fst (create_session d st))"
  unfolding create_session_def Let_def by (auto split: sum.splits option.splits prod.splits decode_error.splits)

lemma start_run_status: "0 < reply_status (fst (start_run cfg ids d w))"
  unfolding start_run_def Let_def decode_reply_def
  by (auto split: option.splits sum.splits prod.splits decode_error.splits)

lemma retry_run_status: "0 < reply_status (fst (retry_run cfg ids i w))"
  unfolding retry_run_def Let_def by (auto split: option.splits sum.splits prod.splits)

lemma run_events_status: "get_run_events cfg u q accept i evs runs w = (Event_Page a, w1) \<Longrightarrow> 0 < answer_status a"
  unfolding get_run_events_def Let_def by (auto split: option.splits sum.splits prod.splits if_splits)

lemma run_transcript_status: "0 < answer_status (fst (get_run_transcript cfg st u q i w))"
  unfolding get_run_transcript_def Let_def by (auto split: option.splits sum.splits prod.splits if_splits)

lemma perform_polite: "polite (fst (perform g e r w))"
proof (cases e)
  case (Provider_Detail name)
  then show ?thesis
    by (auto simp: perform_def get_provider_def intro!: polite_answer unless_status split: option.splits)
next
  case Model_List
  then show ?thesis
    by (auto simp: perform_def list_models_def Let_def intro!: polite_answer list_page_status)
next
  case (Session_Detail i)
  then show ?thesis by (auto simp: perform_def get_session_def intro!: polite_answer split: sum.splits)
next
  case (Run_Detail i)
  then show ?thesis by (auto simp: perform_def get_run_def intro!: polite_answer split: sum.splits option.splits)
next
  case (Run_Cancel i)
  then show ?thesis
    by (auto simp: perform_def cancel_run_def intro!: polite_answer split: sum.splits option.splits prod.splits)
next
  case (Run_Events i)
  then show ?thesis by (auto simp: perform_def intro!: polite_events_reply dest: run_events_status split: prod.splits)
next
  case Open_Api
  then show ?thesis by (simp add: perform_def polite_def)
next
  case Session_Create
  have "polite (write_answer r Session_Reply (fst (create_session (decode_body (gw_decode_session g) r) (gw_db g w))))"
    by (intro polite_answer create_session_status)
  then show ?thesis by (simp add: perform_def Session_Create case_prod_beta Let_def)
next
  case Run_Start
  have "polite (write_run_reply r (fst (start_run (gw_runs g) (request_ids r) (decode_body (gw_decode_start g) r) w)))"
    by (intro polite_run_reply start_run_status)
  then show ?thesis by (simp add: perform_def Run_Start case_prod_beta Let_def)
next
  case (Run_Retry i)
  have "polite (write_run_reply r (fst (retry_run (gw_runs g) (request_ids r) i w)))"
    by (intro polite_run_reply retry_run_status)
  then show ?thesis by (simp add: perform_def Run_Retry case_prod_beta Let_def)
next
  case (Run_Transcript i)
  have "polite (write_answer r Transcript
      (fst (get_run_transcript (gw_events g) (\<lambda>w. fst (gw_db g w)) (gw_lower g) (hq_query r) i w)))"
    by (intro polite_answer run_transcript_status)
  then show ?thesis by (simp add: perform_def Run_Transcript case_prod_beta Let_def)
qed (auto simp: perform_def list_providers_def intro!: polite_answer list_page_status list_sessions_status list_runs_status)

lemma handle_api_polite: "polite (fst (fst (handle_api g r w)))"
  using perform_polite [of g "route (hq_method r) (hq_path r)" r w] by (simp add: handle_api_def case_prod_beta Let_def)

lemma handle_health_polite: "polite (fst (fst (handle_health g r w)))"
  by (simp add: handle_health_def case_prod_beta Let_def)

lemma handle_ready_polite: "polite (fst (fst (handle_ready g r w)))"
  by (simp add: handle_ready_def case_prod_beta Let_def split: option.split)

subsection \<open>The chain around any polite handlers\<close>

lemma polite_status: "polite as \<Longrightarrow> first_status as \<noteq> Some 0"
  by (induction as rule: first_status.induct) (auto simp: polite_def)

lemma recovering_quiet:
  assumes "polite (fst (fst (h r w)))" and "recovering sz h r w = ((bs, p), w1)"
  shows "p = None \<and> polite bs \<and>
    sent_status bs = (if snd (fst (h r w)) \<noteq> None \<and> first_status (fst (fst (h r w))) = None then 500
      else sent_status (fst (fst (h r w))))"
proof -
  obtain as q w2 where h: "h r w = ((as, q), w2)" by (metis prod.collapse)
  obtain cs st n where t: "stats_writer sz 0 0 as = (cs, st, n)" by (metis prod.collapse)
  obtain es x where e: "stats_writer sz 0 n (write_error r 500 ''panic'' (Panicked (the q))) = (es, x)"
    by (metis prod.collapse)
  have a: "polite as" using assms(1) h by simp
  note c = stats_writer_polite [OF a t]
  have f: "polite es \<and> first_status es = Some 500"
    using stats_writer_polite [of "write_error r 500 ''panic'' (Panicked (the q))" sz n es "fst x" "snd x"] e
    by (auto simp: write_error_def write_json_status_def polite_def)
  note z = polite_status [OF a]
  show ?thesis
    using assms(2) h t c e f z
    by (auto simp: recovering_def Let_def sent_status_def first_status_append polite_append split: option.splits if_splits prod.splits)
qed

lemma recovering_returns:
  assumes "polite (fst (fst (h r w)))"
  shows "polite (fst (fst (recovering sz h r w))) \<and> snd (fst (recovering sz h r w)) = None"
  using recovering_quiet [where h = h and r = r and w = w and sz = sz, OF assms] by (metis prod.collapse)

lemma access_log_records:
  assumes "access_log s h r w = ((bs, p), w')" and "\<And>w1. polite (fst (fst (h r w1))) \<and> snd (fst (h r w1)) = None"
  shows "p = None \<and> polite bs \<and> (\<exists>w1. sent_status bs = sent_status (fst (fst (h r w1)))) \<and>
    (\<forall>logger. sv_logger s = Some logger \<longrightarrow>
      (\<exists>e w1. w' = logger e w1 \<and> le_status e = sent_status bs \<and> le_request_id e = request_id r))"
proof (cases "sv_logger s")
  case None
  then show ?thesis using assms(1) assms(2) [of w] by (auto simp: access_log_def intro!: exI [of _ w])
next
  case (Some logger)
  obtain started w1 where n: "sv_now s w = (started, w1)" by (metis prod.collapse)
  obtain as q w2 where h: "h r w1 = ((as, q), w2)" by (metis prod.collapse)
  obtain cs st k where t: "stats_writer (sv_size s) 0 0 as = (cs, st, k)" by (metis prod.collapse)
  have a: "polite as" "q = None" using assms(2) [of w1] h by auto
  note c = stats_writer_polite [OF a(1) t]
  have e: "\<exists>w2. sent_status cs = sent_status (fst (fst (h r w2)))"
    using h c by (intro exI [of _ w1]) (simp add: sent_status_def)
  have st: "(if st = 0 then 200 else st) = sent_status cs"
    using c polite_status [OF a(1)] by (auto simp: sent_status_def split: option.splits)
  obtain entry w3 where "bs = cs" "p = None" "w' = logger entry w3" "le_status entry = sent_status cs" "le_request_id entry = request_id r"
    using assms(1) n h t st a(2) Some by (auto simp: access_log_def Let_def split: prod.splits)
  then show ?thesis using e c Some by auto
qed

text \<open>Any three handlers that leave the request id, the status 0 and the flushing to the chain.\<close>

locale site =
  fixes health ready api :: "'w web_handler"
  assumes health_polite: "polite (fst (fst (health r w)))"
    and ready_polite: "polite (fst (fst (ready r w)))"
    and api_polite: "polite (fst (fst (api r w)))"
begin

lemma auth_polite: "polite (fst (fst (body_limit k (with_api_auth s api) r w)))"
  using api_polite by (simp add: body_limit_def with_api_auth_def)

lemma mux_polite: "polite (fst (fst (mux s health ready (body_limit k (with_api_auth s api)) r w)))"
  using health_polite ready_polite auth_polite [of k s]
  by (auto simp: mux_def polite_def split: target.split prod.split)

lemma cors_polite: "polite (fst (fst (cors os (mux s health ready (body_limit k (with_api_auth s api))) r w)))"
  using mux_polite [of s k r w] by (auto simp: cors_def Let_def polite_def split: prod.split)

lemma secured_polite:
  "polite (fst (fst (security_headers (cors os (mux s health ready (body_limit k (with_api_auth s api)))) r w)))"
  using cors_polite [of os s k r w] by (auto simp: security_headers_def split: prod.split)

lemma answered:
  assumes "serve s health ready api r w = ((as, p), w')"
  defines "i \<equiv> request_id r"
  defines "j \<equiv> if i = [] \<or> validate_request_id_value i \<noteq> None then fst (sv_generator s w) else i"
  shows "p = None \<and> mget (ans_headers (respond as)) ''X-Request-Id'' = j \<and>
    (\<forall>logger. sv_logger s = Some logger \<longrightarrow> validate_request_id_value i = None \<longrightarrow>
      (\<exists>e w1. w' = logger e w1 \<and> le_status e = ans_status (respond as) \<and>
        le_request_id e = request_id (r\<lparr>hq_ctx_id := with_request_id (hq_ctx_id r) j\<rparr>)))"
proof -
  let ?h = "recovering (sv_size s) (security_headers (cors (sv_origins s)
       (mux s health ready (body_limit (sv_max_bytes s) (with_api_auth s api)))))"
  have q: "polite (fst (fst (?h r w))) \<and> snd (fst (?h r w)) = None" for r w
    by (rule recovering_returns) (rule secured_polite)
  have h: "respond (Set_Header ''X-Request-Id'' v # bs) = respond (Set_Header ''X-Request-Id'' v # bs) \<and>
      mget (ans_headers (respond (Set_Header ''X-Request-Id'' v # bs))) ''X-Request-Id'' = v" if "polite bs" for v bs
    using that by (simp add: respond_def respond_from_header last_header_None polite_def)
  show ?thesis
  proof (cases "validate_request_id_value i")
    case (Some e)
    then have "\<exists>x y. as = Set_Header ''X-Request-Id'' j # write_error x 400 ''invalid_request_id'' y \<and> p = None"
      using assms(1) by (auto simp: serve_def identify_def i_def j_def Let_def split: prod.splits)
    then show ?thesis using Some h by auto
  next
    case None
    let ?r = "r\<lparr>hq_ctx_id := with_request_id (hq_ctx_id r) j\<rparr>"
    define w1 where "w1 = (if i = [] then snd (sv_generator s w) else w)"
    have g: "(if i = [] then sv_generator s w else (i, w)) = (j, w1)"
      using None by (simp add: j_def w1_def prod_eq_iff)
    obtain bs where b: "access_log s ?h ?r w1 = ((bs, p), w')" "as = Set_Header ''X-Request-Id'' j # bs"
      using assms(1) None unfolding serve_def identify_def i_def [symmetric] Let_def g by (auto split: prod.splits)
    show ?thesis using access_log_records [OF b(1) q] h by (auto simp: b(2) sent_status_def)
  qed
qed

end

interpretation kkode: site "handle_health g" "handle_ready g" "handle_api g" for g
  by unfold_locales (simp_all add: handle_health_polite handle_ready_polite handle_api_polite)

subsection \<open>Properties\<close>

text \<open>
  C15: every answer of the server carries a request id: the one the client sent, trimmed, if it sent one of at most 128
  bytes, and a fresh one otherwise; no handler's panic gets past the server, whatever the handlers do, and the access
  log is told, for every request with an acceptable id, exactly the status that was sent and that id.
\<close>

theorem every_request_identified:
  assumes "site health ready api" and "hq_ctx_id r = None"
    and "\<And>w. trim_space (fst (sv_generator s w)) = fst (sv_generator s w) \<and> fst (sv_generator s w) \<noteq> []"
    and "serve s health ready api r w = ((as, p), w')"
  shows "let i = trim_space (header ''X-Request-Id'' r);
      j = (if i = [] \<or> 128 < length i then fst (sv_generator s w) else i)
    in p = None \<and> mget (ans_headers (respond as)) ''X-Request-Id'' = j \<and>
      (\<forall>logger. sv_logger s = Some logger \<longrightarrow> length i \<le> 128 \<longrightarrow>
        (\<exists>e w1. w' = logger e w1 \<and> le_status e = ans_status (respond as) \<and> le_request_id e = j))"
proof -
  let ?i = "trim_space (header ''X-Request-Id'' r)"
  let ?j = "if ?i = [] \<or> 128 < length ?i then fst (sv_generator s w) else ?i"
  have i: "request_id r = ?i" using assms(2) by (simp add: request_id_def request_id_from_request_def)
  have v: "validate_request_id_value ?i = None \<longleftrightarrow> length ?i \<le> 128"
    by (auto simp: validate_request_id_value_def guard_def maxRequestIDBytes_def)
  define j where "j = ?j"
  have "trim_space j = j" "j \<noteq> []" using assms(3) by (auto simp: j_def)
  then have "request_id (r\<lparr>hq_ctx_id := with_request_id (hq_ctx_id r) j\<rparr>) = j"
    using assms(2) by (simp add: request_id_def with_request_id_def request_id_from_request_def Let_def)
  then have "p = None \<and> mget (ans_headers (respond as)) ''X-Request-Id'' = j \<and>
      (\<forall>logger. sv_logger s = Some logger \<longrightarrow> length ?i \<le> 128 \<longrightarrow>
        (\<exists>e w1. w' = logger e w1 \<and> le_status e = ans_status (respond as) \<and> le_request_id e = j))"
    using site.answered [OF assms(1,4)] unfolding i v not_le j_def [symmetric] by simp
  then show ?thesis unfolding Let_def j_def .
qed

text \<open>What a request without the key meets instead of the API.\<close>

lemma limit_refuses:
  assumes "sv_key s \<noteq> []" and "bearer_token (header ''Authorization'' r) \<noteq> sv_key s"
    and "\<not> (sv_allow_local s \<and> is_local_request (hq_remote r))"
  shows "body_limit k (with_api_auth s api) (r\<lparr>hq_ctx_id := c\<rparr>) w = body_limit k (with_api_auth s api') (r\<lparr>hq_ctx_id := c\<rparr>) w"
    and "\<exists>x n code e. body_limit k (with_api_auth s api) (r\<lparr>hq_ctx_id := c\<rparr>) w = ((write_error x n code e, None), w) \<and> n \<in> {401, 413}"
  using assms by (auto simp: body_limit_def with_api_auth_def header_def)

lemma mux_target_ctx [simp]: "mux_target (r\<lparr>hq_ctx_id := c\<rparr>) = mux_target r"
  by (simp add: mux_target_def Let_def)

lemma chain_refuses:
  assumes "sv_key s \<noteq> []" and "bearer_token (header ''Authorization'' r) \<noteq> sv_key s"
    and "\<not> (sv_allow_local s \<and> is_local_request (hq_remote r))" and "mux_target r = To_Api"
  shows "\<exists>as n. security_headers (cors os (mux s health ready (body_limit k (with_api_auth s api)))) (r\<lparr>hq_ctx_id := c\<rparr>) w =
    ((as, None), w) \<and> polite as \<and> first_status as = Some n \<and> n \<in> {204, 401, 413}"
proof -
  obtain x n code e where b: "body_limit k (with_api_auth s api) (r\<lparr>hq_ctx_id := c\<rparr>) w = ((write_error x n code e, None), w)" "n \<in> {401, 413}"
    using limit_refuses(2) [OF assms(1-3)] by metis
  have "mux s health ready (body_limit k (with_api_auth s api)) (r\<lparr>hq_ctx_id := c\<rparr>) w = ((write_error x n code e, None), w)"
    using b(1) assms(4) by (simp add: mux_def)
  moreover have "polite (write_error x n code e) \<and> first_status (write_error x n code e) = Some n"
    using b(2) by (auto simp: polite_def write_error_def write_json_status_def)
  ultimately show ?thesis using b(2)
    by (auto simp: security_headers_def cors_def Let_def first_status_append polite_def)
qed

lemma refused_alike:
  assumes "sv_key s \<noteq> []" and "bearer_token (header ''Authorization'' r) \<noteq> sv_key s"
    and "\<not> (sv_allow_local s \<and> is_local_request (hq_remote r))"
  shows "serve s health ready api r w = serve s health ready api' r w"
proof -
  have m: "mux s health ready (body_limit k (with_api_auth s api)) (r\<lparr>hq_ctx_id := c\<rparr>) w =
      mux s health ready (body_limit k (with_api_auth s api')) (r\<lparr>hq_ctx_id := c\<rparr>) w" for k c w
    using limit_refuses(1) [OF assms] by (simp add: mux_def split: target.split)
  have c: "cors os (mux s health ready (body_limit k (with_api_auth s api))) (r\<lparr>hq_ctx_id := c\<rparr>) w =
      cors os (mux s health ready (body_limit k (with_api_auth s api'))) (r\<lparr>hq_ctx_id := c\<rparr>) w" for os k c w
    by (auto simp: cors_def Let_def m)
  let ?H = "\<lambda>f. recovering (sv_size s) (security_headers (cors (sv_origins s)
       (mux s health ready (body_limit (sv_max_bytes s) (with_api_auth s f)))))"
  have h: "?H api (r\<lparr>hq_ctx_id := c\<rparr>) w = ?H api' (r\<lparr>hq_ctx_id := c\<rparr>) w" for c w
    by (simp add: recovering_def security_headers_def c)
  have a: "access_log s (?H api) (r\<lparr>hq_ctx_id := c\<rparr>) w = access_log s (?H api') (r\<lparr>hq_ctx_id := c\<rparr>) w" for c w
    by (auto simp: access_log_def h split: option.split prod.split)
  show ?thesis
    by (auto simp: serve_def identify_def Let_def a split: option.split prod.split)
qed

lemma refused_status:
  assumes "sv_key s \<noteq> []" and "bearer_token (header ''Authorization'' r) \<noteq> sv_key s"
    and "\<not> (sv_allow_local s \<and> is_local_request (hq_remote r))" and "mux_target r = To_Api"
  shows "ans_status (respond (fst (fst (serve s health ready api r w)))) \<in> {204, 400, 401, 413}"
proof -
  let ?h = "recovering (sv_size s) (security_headers (cors (sv_origins s)
     (mux s health ready (body_limit (sv_max_bytes s) (with_api_auth s api)))))"
  have h: "polite (fst (fst (?h (r\<lparr>hq_ctx_id := c\<rparr>) w))) \<and> snd (fst (?h (r\<lparr>hq_ctx_id := c\<rparr>) w)) = None \<and>
      sent_status (fst (fst (?h (r\<lparr>hq_ctx_id := c\<rparr>) w))) \<in> {204, 401, 413}" for c w
    using chain_refuses [OF assms, of "sv_origins s" health ready "sv_max_bytes s" api c w]
      recovering_quiet [of "security_headers (cors (sv_origins s) (mux s health ready (body_limit (sv_max_bytes s) (with_api_auth s api))))"
        "r\<lparr>hq_ctx_id := c\<rparr>" w "sv_size s"]
    by (metis (no_types, lifting) fst_conv snd_conv prod.collapse sent_status_def option.simps(5))
  have l: "sent_status (fst (fst (access_log s ?h (r\<lparr>hq_ctx_id := c\<rparr>) w))) \<in> {204, 401, 413}" for c w
    using access_log_records [of s ?h "r\<lparr>hq_ctx_id := c\<rparr>" w] h by (metis prod.collapse)
  show ?thesis
  proof (cases "validate_request_id_value (request_id r)")
    case None
    then obtain c w1 where e: "sent_status (fst (fst (serve s health ready api r w))) =
        sent_status (fst (fst (access_log s ?h (r\<lparr>hq_ctx_id := c\<rparr>) w1)))"
      unfolding serve_def identify_def by (auto simp: Let_def case_prod_beta sent_status_def)
    show ?thesis using l [of c w1] unfolding respond_status e by blast
  next
    case (Some e)
    then show ?thesis
      by (simp add: serve_def identify_def Let_def case_prod_beta sent_status_def write_error_def write_json_status_def)
  qed
qed

text \<open>
  C14: when a key is set, a request that neither presents it as a bearer token nor comes from an exempted local
  address does not reach the API: the answer and every effect are the same whatever the API would do, and the status
  is 401, or 413 for a body that is too large, 204 for a preflight request, 400 for an unacceptable request id.
\<close>

theorem unauthorized_requests_inert:
  assumes "sv_key s \<noteq> []" and "bearer_token (header ''Authorization'' r) \<noteq> sv_key s"
    and "\<not> (sv_allow_local s \<and> is_local_request (hq_remote r))"
  shows "serve s health ready api r w = serve s health ready api' r w \<and>
    (mux_target r = To_Api \<longrightarrow>
      ans_status (respond (fst (fst (serve s health ready api r w)))) \<in> {204, 400, 401, 413})"
  using refused_alike [OF assms] refused_status [OF assms] by blast

subsection \<open>The index and the routes\<close>

definition api_parts :: "string \<Rightarrow> string list" where
  "api_parts path = split_path (trim_slashes (trim_prefix ''/api/v1'' path))"

definition fills :: "string \<Rightarrow> string \<Rightarrow> bool" where
  "fills t p \<longleftrightarrow>
     (if t = ''{session_id}'' then validate_session_id_text p = None
      else if t = ''{run_id}'' then validate_run_id_text p = None
      else t = ''{provider}'' \<or> p = t)"

definition serves :: "endpoint \<Rightarrow> bool" where
  "serves e \<longleftrightarrow> (case e of Wrong_Method ms \<Rightarrow> False | No_Endpoint \<Rightarrow> False | Bad_Id c x \<Rightarrow> False | _ \<Rightarrow> True)"

lemma serves_simps [simp]:
  "\<not> serves (Wrong_Method ms)" "\<not> serves No_Endpoint" "\<not> serves (Bad_Id c x)" "serves Api_Index" "serves Open_Api"
  "serves (Provider_Detail i)" "serves Provider_List" "serves Model_List" "serves Session_List" "serves Session_Create"
  "serves (Session_Detail i)" "serves Run_List" "serves Run_Start" "serves (Run_Detail i)" "serves (Run_Cancel i)"
  "serves (Run_Events i)" "serves (Run_Transcript i)" "serves (Run_Retry i)"
  by (simp_all add: serves_def)

lemma index_operations:
  "map (\<lambda>(n, m, t). (m, api_parts t)) (filter (\<lambda>(n, m, t). has_prefix ''/api/v1'' t) api_index_operations) =
    [(''GET'', []), (''GET'', [''models'']), (''GET'', [''openapi.yaml'']), (''GET'', [''providers'', ''{provider}'']),
     (''GET'', [''providers'']), (''POST'', [''runs'', ''{run_id}'', ''cancel'']), (''GET'', [''runs'', ''{run_id}'']),
     (''GET'', [''runs'', ''{run_id}'', ''events'']), (''POST'', [''runs'', ''{run_id}'', ''retry'']), (''POST'', [''runs'']),
     (''GET'', [''runs'', ''{run_id}'', ''transcript'']), (''GET'', [''runs'']), (''POST'', [''sessions'']),
     (''GET'', [''sessions'', ''{session_id}'']), (''GET'', [''sessions''])]"
  by code_simp

lemma fills_simps [simp]:
  "fills ''{session_id}'' p \<longleftrightarrow> validate_session_id_text p = None"
  "fills ''{run_id}'' p \<longleftrightarrow> validate_run_id_text p = None"
  "fills ''{provider}'' p" "fills ''models'' p \<longleftrightarrow> p = ''models''" "fills ''openapi.yaml'' p \<longleftrightarrow> p = ''openapi.yaml''"
  "fills ''providers'' p \<longleftrightarrow> p = ''providers''" "fills ''runs'' p \<longleftrightarrow> p = ''runs''"
  "fills ''sessions'' p \<longleftrightarrow> p = ''sessions''" "fills ''cancel'' p \<longleftrightarrow> p = ''cancel''"
  "fills ''events'' p \<longleftrightarrow> p = ''events''" "fills ''retry'' p \<longleftrightarrow> p = ''retry''"
  "fills ''transcript'' p \<longleftrightarrow> p = ''transcript''"
  by (auto simp: fills_def)

lemma five_shapes:
  obtains "xs = []" | a where "xs = [a]" | a b where "xs = [a, b]" | a b c where "xs = [a, b, c]"
    | a b c d ys where "xs = a # b # c # d # ys"
  by (cases xs; cases "tl xs"; cases "tl (tl xs)"; cases "tl (tl (tl xs))") auto


subsection \<open>Witnesses\<close>

definition demo_server :: "log_entry list server" where
  "demo_server =
     \<lparr>sv_key = ''k'', sv_allow_local = True, sv_origins = [], sv_generator = (\<lambda>w. (''req_1'', w)), sv_max_bytes = 100,
      sv_logger = Some (\<lambda>e w. e # w), sv_now = (\<lambda>w. (7, w)), sv_redirect = (\<lambda>p r. (True, p, [])), sv_size = (\<lambda>b. 0)\<rparr>"

definition demo_gateway :: "log_entry list gateway" where
  "demo_gateway =
     \<lparr>gw_version = ''dev'', gw_commit = [], gw_providers = [], gw_db = (\<lambda>w. (demo_db, demo_world)), gw_set_db = (\<lambda>st w. w),
      gw_runs = \<lparr>rc_starter = None, rc_validator = None, rc_lister = None, rc_getter = None, rc_previewer = None, rc_default_mcp = []\<rparr>,
      gw_counter = None, gw_canceler = None,
      gw_events = \<lparr>ec_getter = None, ec_lister = None, ec_run_feed = None, ec_run_unsubscribe = (\<lambda>i c w. w),
        ec_event_feed = None, ec_event_unsubscribe = (\<lambda>i c w. w), ec_now = (\<lambda>w. (7, w))\<rparr>,
      gw_now = (\<lambda>w. (7, w)), gw_lower = id, gw_fold = (=),
      gw_decode_session = (\<lambda>b l. Inl (BadJson [])), gw_decode_start = (\<lambda>b l. Inl (BadJson [])), gw_feed = (\<lambda>r. ([], [])),
      gw_ping = (\<lambda>w. None)\<rparr>"

definition demo_http :: http_request where
  "demo_http =
     \<lparr>hq_method = ''GET'', hq_uri = ''/api/v1/sessions'', hq_escaped = ''/api/v1/sessions'', hq_path = ''/api/v1/sessions'',
      hq_query = (\<lambda>k. []), hq_headers = [(''X-Request-Id'', '' abc '')], hq_remote = ''10.0.0.1:4000'', hq_length = 0,
      hq_body = Some [], hq_limit = None, hq_ctx_id = None\<rparr>"

theorem every_request_identified_witness:
  "\<exists>as e. serve_http demo_server demo_gateway demo_http [] = ((as, None), [e]) \<and>
    mget (ans_headers (respond as)) ''X-Request-Id'' = ''abc'' \<and> le_status e = ans_status (respond as) \<and> le_request_id e = ''abc''"
proof -
  obtain as p w' where g: "serve demo_server (handle_health demo_gateway) (handle_ready demo_gateway) (handle_api demo_gateway) demo_http [] =
      ((as, p), w')" by (metis prod.collapse)
  have "trim_space (header ''X-Request-Id'' demo_http) = ''abc''" "trim_space ''req_1'' = ''req_1''" by code_simp+
  moreover have "length (snd (serve demo_server (handle_health demo_gateway) (handle_ready demo_gateway) (handle_api demo_gateway)
      demo_http [])) = 1" by code_simp
  moreover have "hq_ctx_id demo_http = None" "sv_logger demo_server = Some (\<lambda>e w. e # w)"
    "\<And>w. fst (sv_generator demo_server w) = ''req_1''" by (simp_all add: demo_http_def demo_server_def)
  ultimately show ?thesis
    using every_request_identified [OF kkode.site_axioms _ _ g] g by (auto simp: serve_http_def Let_def)
qed

theorem unauthorized_requests_inert_witness:
  "ans_status (respond (fst (fst (serve_http demo_server demo_gateway demo_http [])))) \<in> {204, 400, 401, 413} \<and>
    serve_http demo_server demo_gateway demo_http [] =
      serve demo_server (handle_health demo_gateway) (handle_ready demo_gateway) (\<lambda>r w. (([], Some ''down''), [])) demo_http []"
proof -
  have k: "sv_key demo_server \<noteq> []" "bearer_token (header ''Authorization'' demo_http) \<noteq> sv_key demo_server"
    "\<not> (sv_allow_local demo_server \<and> is_local_request (hq_remote demo_http))" "mux_target demo_http = To_Api"
    by code_simp+
  show ?thesis unfolding serve_http_def
    using unauthorized_requests_inert [OF k(1-3), of _ _ "handle_api demo_gateway" "[]" "\<lambda>r w. (([], Some ''down''), [])"] k(4) by blast
qed

end
