(* ===== verification/Http_Transport.thy ===== *)
theory Http_Transport
  imports Go_Runes Llm_Types
begin

section \<open>Package httptransport: calls of a provider's HTTP API\<close>

text \<open>
  \<open>providers/internal/httptransport/httptransport.go\<close>: retries with backoff, bounded response bodies, JSON requests and
  the reader of server-sent events. The network, the clock and the context are the operations of a \<open>transport\<close> over a
  state of any type.
\<close>

subsection \<open>Requests and responses\<close>

record http_out =
  ho_method :: string
  ho_endpoint :: string
  ho_headers :: smap
  ho_payload :: string

text \<open>A body is the bytes that arrive and, if reading fails after them, the error.\<close>

record http_body =
  hb_data :: string
  hb_error :: "string option"

record http_in =
  hi_status :: int
  hi_status_text :: string
  hi_headers :: "(string \<times> string list) list"
  hi_body :: http_body

definition in_header :: "string \<Rightarrow> http_in \<Rightarrow> string" where
  "in_header k res = (case map_of (hi_headers res) k of Some (v # vs) \<Rightarrow> v | _ \<Rightarrow> [])"

record http_error =
  he_label :: string
  he_status_text :: string
  he_status :: int
  he_body :: string

datatype transport_error =
    Transport string
  | Retryable_Status string
  | Context_Done
  | Bad_Request string
  | Body_Failed string
  | Body_Too_Large string int
  | Status_Error http_error

definition DefaultMaxResponseBodyBytes :: int where "DefaultMaxResponseBodyBytes = 33554432"
definition MaxSSEEventBytes :: int where "MaxSSEEventBytes = 4194304"

definition http_error_text :: "http_error \<Rightarrow> string" where
  "http_error_text e =
     (let label = trim_space (he_label e); l = (if label = [] then ''provider request'' else label)
      in if he_body e = [] then l @ '' returned '' @ he_status_text e
         else l @ '' returned '' @ he_status_text e @ '': '' @ he_body e)"

definition is_success_status :: "int \<Rightarrow> bool" where
  "is_success_status n \<longleftrightarrow> 200 \<le> n \<and> n < 300"

definition is_retryable_status :: "int \<Rightarrow> bool" where
  "is_retryable_status n \<longleftrightarrow> n = 429 \<or> 500 \<le> n"

definition error_from_response :: "string \<Rightarrow> http_in option \<Rightarrow> string \<Rightarrow> http_error" where
  "error_from_response label res body =
     (case res of
        None \<Rightarrow> \<lparr>he_label = label, he_status_text = ''no response'', he_status = 0, he_body = []\<rparr>
      | Some r \<Rightarrow> \<lparr>he_label = label, he_status_text = hi_status_text r, he_status = hi_status r, he_body = body\<rparr>)"

subsection \<open>Bounded bodies\<close>

fun drop_to_valid :: "nat \<Rightarrow> string \<Rightarrow> string" where
  "drop_to_valid 0 s = []"
| "drop_to_valid (Suc n) s = (if utf8_valid (take (Suc n) s) then take (Suc n) s else drop_to_valid n s)"

definition truncate_utf8_bytes :: "string \<Rightarrow> int \<Rightarrow> string" where
  "truncate_utf8_bytes s lim =
     (if lim \<le> 0 then [] else if int (length s) \<le> lim then s else drop_to_valid (nat lim) s)"

text \<open>The reader stops one byte past the limit, so an error further on is not met.\<close>

definition read_response_body :: "http_body \<Rightarrow> int \<Rightarrow> string + string \<times> bool" where
  "read_response_body b lim =
     (let m = (if lim \<le> 0 then DefaultMaxResponseBodyBytes else lim)
      in if m < int (length (hb_data b)) then Inr (truncate_utf8_bytes (take (nat (m + 1)) (hb_data b)) m, True)
         else (case hb_error b of Some e \<Rightarrow> Inl e | None \<Rightarrow> Inr (hb_data b, False)))"

definition append_truncated_marker :: "string \<Rightarrow> bool \<Rightarrow> string" where
  "append_truncated_marker body truncated = (if truncated then body @ '' [truncated]'' else body)"

definition body_too_large :: "string \<Rightarrow> int \<Rightarrow> transport_error" where
  "body_too_large label lim =
     Body_Too_Large (if trim_space label = [] then ''provider response'' else label)
       (if lim \<le> 0 then DefaultMaxResponseBodyBytes else lim)"

subsection \<open>Retries\<close>

record retry_config =
  rx_max :: int
  rx_min_backoff :: int
  rx_max_backoff :: int

definition normalize_retry :: "retry_config \<Rightarrow> retry_config" where
  "normalize_retry c =
     \<lparr>rx_max = (if rx_max c = 0 then 2 else rx_max c),
      rx_min_backoff = (if rx_min_backoff c = 0 then 250000000 else rx_min_backoff c),
      rx_max_backoff = (if rx_max_backoff c = 0 then 2000000000 else rx_max_backoff c)\<rparr>"

text \<open>
  Sending a request, waiting (whether the context ended first), what package time makes of a duration and of an
  HTTP date, and the clock.
\<close>

record 'w transport =
  tp_send :: "http_out \<Rightarrow> 'w \<Rightarrow> (string + http_in) \<times> 'w"
  tp_wait :: "int \<Rightarrow> 'w \<Rightarrow> bool \<times> 'w"
  tp_duration :: "string \<Rightarrow> int option"
  tp_date :: "string \<Rightarrow> gtime option"
  tp_now :: "'w \<Rightarrow> gtime \<times> 'w"

definition parse_retry_after :: "'w transport \<Rightarrow> string \<Rightarrow> 'w \<Rightarrow> int option \<times> 'w" where
  "parse_retry_after tp value w =
     (let v = trim_space value
      in if v = [] then (None, w)
         else (case tp_duration tp (v @ ''s'') of
                 Some d \<Rightarrow> (Some d, w)
               | None \<Rightarrow>
                   (case tp_date tp v of
                      None \<Rightarrow> (None, w) | Some t \<Rightarrow> (let (n, w1) = tp_now tp w in (Some (t - n), w1)))))"

definition retry_backoff :: "'w transport \<Rightarrow> retry_config \<Rightarrow> nat \<Rightarrow> string \<Rightarrow> 'w \<Rightarrow> int \<times> 'w" where
  "retry_backoff tp c attempt retry_after w =
     (case parse_retry_after tp retry_after w of
        (Some d, w1) \<Rightarrow> (if rx_max_backoff c < d then rx_max_backoff c else if d < 0 then 0 else d, w1)
      | (None, w1) \<Rightarrow>
          (let b = wrap64 (rx_min_backoff c * 2 ^ (attempt - 1))
           in (if rx_max_backoff c < b then rx_max_backoff c else b, w1)))"

text \<open>Attempt \<open>i\<close> with \<open>k\<close> attempts left, the last error and the server's wish for the next wait.\<close>

fun retry_loop ::
  "'w transport \<Rightarrow> retry_config \<Rightarrow> http_out \<Rightarrow> nat \<Rightarrow> nat \<Rightarrow> transport_error \<Rightarrow> string \<Rightarrow> 'w \<Rightarrow> (transport_error + http_in) \<times> 'w" where
  "retry_loop tp c req 0 i e retry_after w = (Inl e, w)"
| "retry_loop tp c req (Suc k) i e retry_after w =
     (let (gone, ra, w2) =
        (if 0 < i
         then (let (b, w1) = retry_backoff tp c i retry_after w; (g, w2) = tp_wait tp b w1 in (g, [], w2))
         else (False, retry_after, w))
      in if gone then (Inl Context_Done, w2)
         else (case tp_send tp req w2 of
                 (Inl x, w3) \<Rightarrow> retry_loop tp c req k (Suc i) (Transport x) ra w3
               | (Inr res, w3) \<Rightarrow>
                   (if is_retryable_status (hi_status res) \<and> 0 < k
                    then retry_loop tp c req k (Suc i) (Retryable_Status (hi_status_text res)) (in_header ''Retry-After'' res) w3
                    else (Inr res, w3))))"

definition retry_attempts :: "retry_config \<Rightarrow> nat" where
  "retry_attempts c = (let n = wrap64 (rx_max (normalize_retry c) + 1) in if n < 1 then 1 else nat n)"

definition do_with_retry :: "'w transport \<Rightarrow> http_out \<Rightarrow> retry_config \<Rightarrow> 'w \<Rightarrow> (transport_error + http_in) \<times> 'w" where
  "do_with_retry tp req c w = retry_loop tp (normalize_retry c) req (retry_attempts c) 0 Context_Done [] w"

subsection \<open>JSON requests\<close>

text \<open>\<open>http.Header.Set\<close>: the canonical form of a key, and the last value wins.\<close>

definition header_byte :: "char \<Rightarrow> bool" where
  "header_byte c \<longleftrightarrow>
     (let n = of_char c :: nat
      in 48 \<le> n \<and> n \<le> 57 \<or> 65 \<le> n \<and> n \<le> 90 \<or> 97 \<le> n \<and> n \<le> 122 \<or> c \<in> set ''!#$%&*+-.^_`|~'' \<or> n = 39)"

fun canonical_from :: "bool \<Rightarrow> string \<Rightarrow> string" where
  "canonical_from up [] = []"
| "canonical_from up (c # cs) = (if up then upper_char c else lower_char c) # canonical_from (c = CHR ''-'') cs"

definition canonical_key :: "string \<Rightarrow> string" where
  "canonical_key k = (if list_all header_byte k then canonical_from True k else k)"

definition set_header :: "string \<Rightarrow> string \<Rightarrow> smap \<Rightarrow> smap" where
  "set_header k v hs = mset_kv hs (canonical_key k) v"

text \<open>
  \<open>json.Marshal\<close> and what \<open>http.NewRequest\<close> accepts are arguments; the configured headers come last and can replace the
  others.
\<close>

record marshaller =
  ms_marshal :: "jval \<Rightarrow> string option"
  ms_request_error :: "string \<Rightarrow> string \<Rightarrow> string option"

definition new_json_request ::
  "marshaller \<Rightarrow> string \<Rightarrow> string \<Rightarrow> string \<Rightarrow> smap \<Rightarrow> jval option \<Rightarrow> string \<Rightarrow> transport_error + http_out" where
  "new_json_request ms meth endpoint api_key headers body accept =
     (case (case body of None \<Rightarrow> Some [] | Some b \<Rightarrow> ms_marshal ms b) of
        None \<Rightarrow> Inl (Bad_Request ''json'')
      | Some payload \<Rightarrow>
          (case ms_request_error ms meth endpoint of
             Some e \<Rightarrow> Inl (Bad_Request e)
           | None \<Rightarrow>
               (let h1 = (if body \<noteq> None then set_header ''Content-Type'' ''application/json'' [] else []);
                    h2 = (if accept \<noteq> [] then set_header ''Accept'' accept h1 else h1);
                    h3 = (if api_key \<noteq> [] then set_header ''Authorization'' (''Bearer '' @ api_key) h2 else h2)
                in Inr \<lparr>ho_method = meth, ho_endpoint = endpoint, ho_headers = fold (\<lambda>(k, v). set_header k v) headers h3,
                        ho_payload = payload\<rparr>)))"

definition do_json_raw ::
  "'w transport \<Rightarrow> marshaller \<Rightarrow> string \<Rightarrow> string \<Rightarrow> string \<Rightarrow> smap \<Rightarrow> jval option \<Rightarrow> string \<Rightarrow> 'w \<Rightarrow> (transport_error + string) \<times> 'w" where
  "do_json_raw tp ms meth endpoint api_key headers body label w =
     (case new_json_request ms meth endpoint api_key headers body [] of
        Inl e \<Rightarrow> (Inl e, w)
      | Inr req \<Rightarrow>
          (case tp_send tp req w of
             (Inl e, w1) \<Rightarrow> (Inl (Transport e), w1)
           | (Inr res, w1) \<Rightarrow>
               (case read_response_body (hi_body res) DefaultMaxResponseBodyBytes of
                  Inl e \<Rightarrow> (Inl (Body_Failed e), w1)
                | Inr (data, truncated) \<Rightarrow>
                    (if hi_status res < 200 \<or> 300 \<le> hi_status res
                     then (Inl (Status_Error (error_from_response (if label = [] then endpoint else label) (Some res)
                             (append_truncated_marker data truncated))), w1)
                     else if truncated then (Inl (body_too_large label DefaultMaxResponseBodyBytes), w1)
                     else (Inr data, w1)))))"

subsection \<open>Server-sent events\<close>

text \<open>
  \<open>bufio.Scanner\<close> with a limit: the lines, and whether one of them, with its line break, does not fit the buffer; what
  is left at the end, or before a read error, is a line of its own.
\<close>

function scan_lines :: "nat \<Rightarrow> string \<Rightarrow> string list \<times> bool" where
  "scan_lines limit s =
     (let l = takeWhile (\<lambda>c. c \<noteq> CHR 0x0A) s; rest = drop (length l) s
      in if s = [] then ([], False)
         else if limit \<le> length l then ([], True)
         else (let line = trim_suffix [CHR 0x0D] l
               in if rest = [] then ([line], False)
                  else (let (ls, b) = scan_lines limit (tl rest) in (line # ls, b))))"
  by pat_completeness auto
termination
  by (relation "measure (\<lambda>(limit, s). length s)") (auto simp: length_greater_0_conv [symmetric] simp del: length_greater_0_conv)

declare scan_lines.simps [simp del]

datatype sse_error = Line_Too_Long | Read_Failed string | Event_Too_Large

record sse_state =
  ss_event :: string
  ss_data :: "string list"
  ss_bytes :: int

text \<open>The handler says whether to go on; so does the context, before it is called.\<close>

definition sse_flush :: "('w \<Rightarrow> bool) \<Rightarrow> (string \<Rightarrow> string \<Rightarrow> 'w \<Rightarrow> bool \<times> 'w) \<Rightarrow> sse_state \<Rightarrow> 'w \<Rightarrow> bool \<times> 'w" where
  "sse_flush done handle st w =
     (if ss_data st = [] then (True, w)
      else (let data = join newline (ss_data st)
            in if data = ''[DONE]'' then (False, w) else if done w then (False, w) else handle (ss_event st) data w))"

fun sse_lines ::
  "('w \<Rightarrow> bool) \<Rightarrow> (string \<Rightarrow> string \<Rightarrow> 'w \<Rightarrow> bool \<times> 'w) \<Rightarrow> sse_error option \<Rightarrow> string list \<Rightarrow> sse_state \<Rightarrow> 'w \<Rightarrow> sse_error option \<times> 'w" where
  "sse_lines done handle ending [] st w =
     (case ending of Some e \<Rightarrow> (Some e, w) | None \<Rightarrow> (None, snd (sse_flush done handle st w)))"
| "sse_lines done handle ending (l # ls) st w =
     (if l = [] then
        (let (go, w1) = sse_flush done handle st w
         in if go then sse_lines done handle ending ls \<lparr>ss_event = [], ss_data = [], ss_bytes = 0\<rparr> w1 else (None, w1))
      else if has_prefix '':'' l then sse_lines done handle ending ls st w
      else if has_prefix ''event:'' l then
        sse_lines done handle ending ls (st\<lparr>ss_event := trim_space (trim_prefix ''event:'' l)\<rparr>) w
      else if has_prefix ''data:'' l then
        (let v = trim_space (trim_prefix ''data:'' l);
             n = ss_bytes st + int (length v) + (if ss_data st \<noteq> [] then 1 else 0)
         in if MaxSSEEventBytes < n then (Some Event_Too_Large, w)
            else sse_lines done handle ending ls (st\<lparr>ss_data := ss_data st @ [v], ss_bytes := n\<rparr>) w)
      else sse_lines done handle ending ls st w)"

definition read_sse ::
  "('w \<Rightarrow> bool) \<Rightarrow> (string \<Rightarrow> string \<Rightarrow> 'w \<Rightarrow> bool \<times> 'w) \<Rightarrow> http_body \<Rightarrow> 'w \<Rightarrow> sse_error option \<times> 'w" where
  "read_sse done handle b w =
     (let (ls, too_long) = scan_lines (nat MaxSSEEventBytes) (hb_data b);
          ending = (if too_long then Some Line_Too_Long else map_option Read_Failed (hb_error b))
      in sse_lines done handle ending ls \<lparr>ss_event = [], ss_data = [], ss_bytes = 0\<rparr> w)"

subsection \<open>How often and how long\<close>

text \<open>The same transport, with a record of the waits and a count of the requests sent.\<close>

definition counted :: "'w transport \<Rightarrow> ('w \<times> int list \<times> nat) transport" where
  "counted tp =
     \<lparr>tp_send = (\<lambda>q (w, ds, n). let (x, w1) = tp_send tp q w in (x, (w1, ds, Suc n))),
      tp_wait = (\<lambda>d (w, ds, n). let (g, w1) = tp_wait tp d w in (g, (w1, ds @ [d], n))),
      tp_duration = tp_duration tp, tp_date = tp_date tp,
      tp_now = (\<lambda>(w, ds, n). let (t, w1) = tp_now tp w in (t, (w1, ds, n)))\<rparr>"

lemma counted_backoff:
  "retry_backoff (counted tp) c i ra (w, ds, n) = (let (b, w1) = retry_backoff tp c i ra w in (b, (w1, ds, n)))"
  by (auto simp: retry_backoff_def parse_retry_after_def counted_def Let_def split: option.split prod.split)

lemma backoff_le: "0 \<le> rx_max_backoff c \<Longrightarrow> fst (retry_backoff tp c i ra w) \<le> rx_max_backoff c"
  by (auto simp: retry_backoff_def Let_def split: prod.split option.split)

lemma backoff_nonneg:
  assumes "0 \<le> rx_max_backoff c" and "0 \<le> rx_min_backoff c" and "rx_min_backoff c * 2 ^ (i - 1) < 2 ^ 63"
  shows "0 \<le> fst (retry_backoff tp c i ra w)"
proof -
  define m where "m = rx_min_backoff c * 2 ^ (i - 1)"
  have "0 \<le> m" using assms(2) by (simp add: m_def)
  moreover have "m < 2 ^ 63" using assms(3) by (simp add: m_def)
  ultimately have "wrap64 m = m" by (intro wrap64_id) auto
  then have "wrap64 (rx_min_backoff c * 2 ^ (i - 1)) = m" "0 \<le> m" using \<open>0 \<le> m\<close> by (simp_all add: m_def)
  then show ?thesis
    using assms(1,2) by (auto simp: retry_backoff_def Let_def split: prod.split option.split)
qed

lemma retry_loop_counted:
  assumes "retry_loop (counted tp) c req k i e ra (w, ds, n) = (r, (w', ds', n'))"
  shows "retry_loop tp c req k i e ra w = (r, w') \<and>
    n \<le> n' \<and> n' \<le> n + k \<and> (i = 0 \<and> 0 < k \<longrightarrow> n < n') \<and>
    (\<exists>es. ds' = ds @ es \<and> (\<forall>d \<in> set es. \<exists>j ra w. i \<le> j \<and> j < i + k \<and> d = fst (retry_backoff tp c j ra w))) \<and>
    (\<forall>res. r = Inr res \<longrightarrow> is_retryable_status (hi_status res) \<longrightarrow> n' = n + k) \<and>
    (\<forall>x. r = Inl x \<longrightarrow> x = Context_Done \<or> n' = n + k \<and> (k = 0 \<and> x = e \<or> (\<exists>y. x = Transport y)))"
  using assms
proof (induction k arbitrary: i e ra w ds n)
  case (Suc k)
  obtain gone ra1 w2 es where wait:
    "(if 0 < i then (let (b, w1) = retry_backoff tp c i ra w; (g, w2) = tp_wait tp b w1 in (g, [], w2)) else (False, ra, w)) =
      (gone, ra1, w2)"
    "(if 0 < i then (let (b, w1) = retry_backoff (counted tp) c i ra (w, ds, n); (g, w2) = tp_wait (counted tp) b w1 in (g, [], w2))
      else (False, ra, (w, ds, n))) = (gone, ra1, (w2, ds @ es, n))"
    "\<forall>d \<in> set es. d = fst (retry_backoff tp c i ra w)" "gone \<longrightarrow> 0 < i"
  proof (cases "0 < i")
    case False
    then show ?thesis using that [of False ra w "[]"] by simp
  next
    case True
    obtain b w1 where b: "retry_backoff tp c i ra w = (b, w1)" by (metis prod.collapse)
    obtain g w2 where g: "tp_wait tp b w1 = (g, w2)" by (metis prod.collapse)
    have "retry_backoff (counted tp) c i ra (w, ds, n) = (b, (w1, ds, n))" by (simp add: counted_backoff b)
    moreover have "tp_wait (counted tp) b (w1, ds, n) = (g, (w2, ds @ [b], n))" by (simp add: counted_def g)
    ultimately show ?thesis using that [of g "[]" w2 "[b]"] b g True by simp
  qed
  obtain x w3 where send: "tp_send tp req w2 = (x, w3)" by (metis prod.collapse)
  then have sent: "tp_send (counted tp) req (w2, ds @ es, n) = (x, (w3, ds @ es, Suc n))"
    by (simp add: counted_def)
  note l = Suc.prems [unfolded retry_loop.simps wait(2)]
  have here: "\<exists>j ra w. i \<le> j \<and> j < i + Suc k \<and> d = fst (retry_backoff tp c j ra w)" if "d \<in> set es" for d
    using wait(3) that by (intro exI [of _ i] exI [of _ ra] exI [of _ w]) auto
  have later: "\<exists>j ra w. i \<le> j \<and> j < i + Suc k \<and> d = fst (retry_backoff tp c j ra w)"
    if "\<exists>j ra w. Suc i \<le> j \<and> j < Suc i + k \<and> d = fst (retry_backoff tp c j ra w)" for d
    using that by (metis Suc_leD add_Suc add_Suc_right)
  consider "gone" | y where "\<not> gone" "x = Inl y"
    | res where "\<not> gone" "x = Inr res" "is_retryable_status (hi_status res)" "0 < k"
    | res where "\<not> gone" "x = Inr res" "\<not> (is_retryable_status (hi_status res) \<and> 0 < k)"
    by (cases x) auto
  then show ?case
  proof cases
    case 1
    then show ?thesis using l wait(1,4) here by (auto simp: Let_def)
  next
    case 2
    then have "retry_loop (counted tp) c req k (Suc i) (Transport y) ra1 (w3, ds @ es, Suc n) = (r, (w', ds', n'))"
      using l sent by (simp add: Let_def)
    from Suc.IH [OF this] show ?thesis using 2 wait(1) send here later by (auto simp: Let_def)
  next
    case 3
    then have "retry_loop (counted tp) c req k (Suc i) (Retryable_Status (hi_status_text res)) (in_header ''Retry-After'' res)
        (w3, ds @ es, Suc n) = (r, (w', ds', n'))"
      using l sent by (simp add: Let_def)
    from Suc.IH [OF this] show ?thesis using 3 wait(1) send here later by (auto simp: Let_def)
  next
    case 4
    then show ?thesis using l sent send wait(1) here by (auto simp: Let_def)
  qed
qed auto

text \<open>
  C26: a provider is called at least once and at most as often as the normalized configuration says; every wait is at most
  the configured maximum, and none is negative unless doubling the minimum overflows; a response that asks for a
  retry is returned only when no attempt is left; and an error means that the context ended or the last attempt
  failed to reach the provider. Counting changes nothing.
\<close>

theorem provider_retries_bounded:
  assumes "do_with_retry (counted tp) req c (w, [], 0) = (r, (w', ds, n))"
  defines "x \<equiv> normalize_retry c"
  shows "do_with_retry tp req c w = (r, w') \<and> 0 < n \<and> n \<le> retry_attempts c \<and>
    (0 \<le> rx_max_backoff x \<longrightarrow> (\<forall>d \<in> set ds. d \<le> rx_max_backoff x)) \<and>
    (0 \<le> rx_max_backoff x \<and> 0 \<le> rx_min_backoff x \<and> rx_min_backoff x * 2 ^ (retry_attempts c - 2) < 2 ^ 63 \<longrightarrow>
      (\<forall>d \<in> set ds. 0 \<le> d)) \<and>
    (case r of Inr res \<Rightarrow> is_retryable_status (hi_status res) \<longrightarrow> n = retry_attempts c
     | Inl e \<Rightarrow> e = Context_Done \<or> n = retry_attempts c \<and> (\<exists>y. e = Transport y))"
proof -
  have a: "0 < retry_attempts c" by (simp add: retry_attempts_def Let_def)
  note l = retry_loop_counted [OF assms(1) [unfolded do_with_retry_def, folded x_def]]
  have "0 \<le> d" if d: "d \<in> set ds" and p: "0 \<le> rx_max_backoff x" "0 \<le> rx_min_backoff x"
    "rx_min_backoff x * 2 ^ (retry_attempts c - 2) < 2 ^ 63" for d
  proof -
    obtain j ra v where j: "j < retry_attempts c" "d = fst (retry_backoff tp x j ra v)" using l d by auto
    have "(2::int) ^ (j - 1) \<le> 2 ^ (retry_attempts c - 2)" using j(1) by (intro power_increasing) auto
    then have "rx_min_backoff x * 2 ^ (j - 1) < 2 ^ 63"
      using p(2,3) mult_left_mono [of "2 ^ (j - 1)" "2 ^ (retry_attempts c - 2)" "rx_min_backoff x"] by linarith
    then show ?thesis unfolding j(2) by (rule backoff_nonneg [OF p(1,2)])
  qed
  moreover have "d \<le> rx_max_backoff x" if "d \<in> set ds" "0 \<le> rx_max_backoff x" for d
    using l that backoff_le by fastforce
  ultimately show ?thesis using l a by (auto simp: do_with_retry_def x_def split: sum.split)
qed

text \<open>The default minimum, doubled 36 times, is a negative number of nanoseconds: no wait at all.\<close>

lemma backoff_overflows:
  "fst (retry_backoff tp \<lparr>rx_max = 40, rx_min_backoff = 250000000, rx_max_backoff = 2000000000\<rparr> 37 [] w) = -1266874889709551616"
  by (simp add: retry_backoff_def parse_retry_after_def wrap64_def)

text \<open>The service is down twice: 250 and 500 milliseconds, then an answer.\<close>

definition demo_response :: "int \<Rightarrow> http_in" where
  "demo_response n = \<lparr>hi_status = n, hi_status_text = [], hi_headers = [], hi_body = \<lparr>hb_data = [], hb_error = None\<rparr>\<rparr>"

definition demo_transport :: "int list transport" where
  "demo_transport =
     \<lparr>tp_send = (\<lambda>q w. (Inr (demo_response (hd w)), tl w)), tp_wait = (\<lambda>d w. (False, w)), tp_duration = (\<lambda>s. None),
      tp_date = (\<lambda>s. None), tp_now = (\<lambda>w. (0, w))\<rparr>"

definition demo_out :: http_out where
  "demo_out = \<lparr>ho_method = ''POST'', ho_endpoint = ''http://p/v1'', ho_headers = [], ho_payload = []\<rparr>"

theorem provider_retries_bounded_witness:
  "do_with_retry (counted demo_transport) demo_out \<lparr>rx_max = 0, rx_min_backoff = 0, rx_max_backoff = 0\<rparr> ([503, 429, 200], [], 0) =
      (Inr (demo_response 200), ([], [250000000, 500000000], 3)) \<and>
    do_with_retry demo_transport demo_out \<lparr>rx_max = 0, rx_min_backoff = 0, rx_max_backoff = 0\<rparr> [503, 429, 200] =
      (Inr (demo_response 200), [])"
proof -
  have e: "do_with_retry (counted demo_transport) demo_out \<lparr>rx_max = 0, rx_min_backoff = 0, rx_max_backoff = 0\<rparr> ([503, 429, 200], [], 0) =
      (Inr (demo_response 200), ([], [250000000, 500000000], 3))" by code_simp
  show ?thesis using provider_retries_bounded [OF e] e by simp
qed

end
