(* ===== verification/Sse_Client.thy ===== *)
theory Sse_Client
  imports Http_Transport Gateway_Stream
begin

section \<open>The gateway's event stream, read by the provider's reader\<close>

text \<open>
  The text \<open>writeSSEFrame\<close> and \<open>writeSSEHeartbeat\<close> put on the wire, and \<open>httptransport.ReadSSE\<close> reading it back:
  the two ends of the program that speak \<open>text/event-stream\<close> agree.
\<close>

definition sse_text :: "(run_event_dto \<Rightarrow> string) \<Rightarrow> frame \<Rightarrow> string" where
  "sse_text enc f =
     (case f of
        Heartbeat \<Rightarrow> '': heartbeat'' @ newline @ newline
      | Event_Frame e \<Rightarrow>
          ''id: '' @ dec_int (v_seq e) @ newline @ ''event: '' @ v_type e @ newline @ ''data: '' @ enc e @ newline @ newline)"

definition wire_text :: "(run_event_dto \<Rightarrow> string) \<Rightarrow> frame list \<Rightarrow> string" where
  "wire_text enc fs = concat (map (sse_text enc) fs)"

text \<open>A reader that keeps every event it is given.\<close>

definition keep_all :: "string \<Rightarrow> string \<Rightarrow> (string \<times> string) list \<Rightarrow> bool \<times> (string \<times> string) list" where
  "keep_all ev d got = (True, got @ [(ev, d)])"

subsection \<open>Lines\<close>

lemma scan_lines_line:
  assumes "CHR 0x0A \<notin> set l" and "length l < limit"
  shows "scan_lines limit (l @ newline @ s) =
    (let (ls, b) = scan_lines limit s in (trim_suffix [CHR 0x0D] l # ls, b))"
proof -
  have t: "takeWhile (\<lambda>c. c \<noteq> CHR 0x0A) (l @ CHR 0x0A # s) = l"
    using assms(1) by (subst takeWhile_append2) auto
  have "scan_lines limit (l @ CHR 0x0A # s) = (let (ls, b) = scan_lines limit s in (trim_suffix [CHR 0x0D] l # ls, b))"
    using assms(2) by (subst scan_lines.simps) (simp add: t Let_def)
  then show ?thesis by (simp add: newline_def)
qed

lemma scan_lines_Nil [simp]: "scan_lines limit [] = ([], False)"
  by (simp add: scan_lines.simps)

text \<open>A line that can follow a field name: one line, without white space around it, short enough.\<close>

definition wire_safe :: "string \<Rightarrow> bool" where
  "wire_safe s \<longleftrightarrow> CHR 0x0A \<notin> set s \<and> trim_space s = s \<and> int (length s) + 8 < MaxSSEEventBytes"

lemma no_trailing_cr:
  assumes "wire_safe s"
  shows "trim_suffix [CHR 0x0D] (p @ CHR '' '' # s) = p @ CHR '' '' # s"
proof (cases "s = []")
  case False
  have "last s \<noteq> CHR 0x0D"
  proof
    assume l: "last s = CHR 0x0D"
    have "starts_with_any go_spaces_rev (rev s)"
      using l False by (cases s rule: rev_cases) (auto simp: starts_with_any_def go_spaces_rev_def go_spaces_def has_prefix_iff)
    moreover have "s = rev (strip go_spaces_rev (rev (strip go_spaces s)))"
      using assms by (simp add: wire_safe_def trim_space_def)
    then have "rev s = strip go_spaces_rev (rev (strip go_spaces s))" by (metis rev_rev_ident)
    ultimately show False by (metis strip_none)
  qed
  then show ?thesis
    using False by (cases s rule: rev_cases) (auto simp: trim_suffix_def has_suffix_def has_prefix_iff)
qed (simp add: trim_suffix_def has_suffix_def has_prefix_iff)

fun frame_lines :: "(run_event_dto \<Rightarrow> string) \<Rightarrow> frame \<Rightarrow> string list" where
  "frame_lines enc Heartbeat = ['': heartbeat'', []]"
| "frame_lines enc (Event_Frame e) = [''id: '' @ dec_int (v_seq e), ''event: '' @ v_type e, ''data: '' @ enc e, []]"

definition frame_safe :: "(run_event_dto \<Rightarrow> string) \<Rightarrow> run_event_dto \<Rightarrow> bool" where
  "frame_safe enc e \<longleftrightarrow>
     wire_safe (v_type e) \<and> wire_safe (enc e) \<and> enc e \<noteq> ''[DONE]'' \<and> 0 \<le> v_seq e \<and> v_seq e < 2 ^ 63"

lemma scan_short:
  assumes "CHR 0x0A \<notin> set l" and "int (length l) < MaxSSEEventBytes" and "trim_suffix [CHR 0x0D] l = l"
  shows "scan_lines (nat MaxSSEEventBytes) (l @ newline @ s) =
    (let (ls, b) = scan_lines (nat MaxSSEEventBytes) s in (l # ls, b))"
  using scan_lines_line [of l "nat MaxSSEEventBytes" s] assms by (simp add: nat_less_iff zless_nat_eq_int_zless)

lemma scan_field:
  assumes "wire_safe v" and "CHR 0x0A \<notin> set p" and "length p \<le> 6"
  shows "scan_lines (nat MaxSSEEventBytes) (p @ CHR '' '' # v @ newline @ s) =
    (let (ls, b) = scan_lines (nat MaxSSEEventBytes) s in ((p @ CHR '' '' # v) # ls, b))"
  using scan_short [of "p @ CHR '' '' # v" s] assms no_trailing_cr [OF assms(1)]
  by (simp add: wire_safe_def)

lemma scan_frame:
  assumes "\<And>e. f = Event_Frame e \<Longrightarrow> frame_safe enc e"
  shows "scan_lines (nat MaxSSEEventBytes) (sse_text enc f @ s) =
    (let (ls, b) = scan_lines (nat MaxSSEEventBytes) s in (frame_lines enc f @ ls, b))"
proof (cases f)
  case Heartbeat
  have "scan_lines (nat MaxSSEEventBytes) ('': heartbeat'' @ newline @ [] @ newline @ s) =
      (let (ls, b) = scan_lines (nat MaxSSEEventBytes) s in ('': heartbeat'' # [] # ls, b))"
    by (subst scan_short, simp, simp add: MaxSSEEventBytes_def, code_simp, subst scan_short)
      (simp_all add: MaxSSEEventBytes_def trim_suffix_def has_suffix_def split: prod.split)
  then show ?thesis using Heartbeat by (simp add: sse_text_def)
next
  case (Event_Frame e)
  then have e: "wire_safe (v_type e)" "wire_safe (enc e)" "0 \<le> v_seq e" "v_seq e < 2 ^ 63"
    using assms by (auto simp: frame_safe_def)
  have n: "wire_safe (dec_int (v_seq e))"
    using trim_dec [OF e(3)] number_one_line number_short [of "v_seq e"] e(3,4) by (simp add: wire_safe_def MaxSSEEventBytes_def)
  have b: "scan_lines (nat MaxSSEEventBytes) ([] @ newline @ s) =
      (let (ls, b) = scan_lines (nat MaxSSEEventBytes) s in ([] # ls, b))" for s
    by (subst scan_short) (simp_all add: MaxSSEEventBytes_def trim_suffix_def has_suffix_def)
  show ?thesis
    using scan_field [OF n, of "''id:''"] scan_field [OF e(1), of "''event:''"] scan_field [OF e(2), of "''data:''"] b
    by (simp add: Event_Frame sse_text_def split: prod.split)
qed

subsection \<open>Reading\<close>

fun frame_event :: "(run_event_dto \<Rightarrow> string) \<Rightarrow> frame \<Rightarrow> (string \<times> string) list" where
  "frame_event enc Heartbeat = []"
| "frame_event enc (Event_Frame e) = [(v_type e, enc e)]"

lemma read_frame:
  assumes "\<And>e. f = Event_Frame e \<Longrightarrow> frame_safe enc e"
  shows "sse_lines (\<lambda>w. False) keep_all en (frame_lines enc f @ ls) \<lparr>ss_event = [], ss_data = [], ss_bytes = 0\<rparr> got =
    sse_lines (\<lambda>w. False) keep_all en ls \<lparr>ss_event = [], ss_data = [], ss_bytes = 0\<rparr> (got @ frame_event enc f)"
proof (cases f)
  case Heartbeat
  then show ?thesis by (simp add: sse_flush_def)
next
  case (Event_Frame e)
  then have "trim_space (v_type e) = v_type e" "trim_space (enc e) = enc e" "int (length (enc e)) \<le> MaxSSEEventBytes" "enc e \<noteq> ''[DONE]''"
    using assms by (auto simp: frame_safe_def wire_safe_def)
  then show ?thesis
    by (simp add: Event_Frame trim_prefix_def trim_space_blank sse_flush_def keep_all_def Let_def)
qed

lemma read_frames:
  assumes "\<And>e. Event_Frame e \<in> set fs \<Longrightarrow> frame_safe enc e"
  shows "sse_lines (\<lambda>w. False) keep_all None (concat (map (frame_lines enc) fs)) \<lparr>ss_event = [], ss_data = [], ss_bytes = 0\<rparr> got =
    (None, got @ concat (map (frame_event enc) fs))"
  using assms
proof (induction fs arbitrary: got)
  case (Cons f fs)
  have "sse_lines (\<lambda>w. False) keep_all None (concat (map (frame_lines enc) (f # fs))) \<lparr>ss_event = [], ss_data = [], ss_bytes = 0\<rparr> got =
      sse_lines (\<lambda>w. False) keep_all None (concat (map (frame_lines enc) fs)) \<lparr>ss_event = [], ss_data = [], ss_bytes = 0\<rparr>
        (got @ frame_event enc f)"
    using read_frame [of f enc None] Cons.prems by simp
  then show ?case using Cons by simp
qed (simp add: sse_flush_def)

lemma scan_frames:
  assumes "\<And>e. Event_Frame e \<in> set fs \<Longrightarrow> frame_safe enc e"
  shows "scan_lines (nat MaxSSEEventBytes) (wire_text enc fs) = (concat (map (frame_lines enc) fs), False)"
  using assms
proof (induction fs)
  case (Cons f fs)
  have "scan_lines (nat MaxSSEEventBytes) (sse_text enc f @ wire_text enc fs) =
      (let (ls, b) = scan_lines (nat MaxSSEEventBytes) (wire_text enc fs) in (frame_lines enc f @ ls, b))"
    using Cons.prems by (intro scan_frame) auto
  then show ?case using Cons by (simp add: wire_text_def)
qed (simp add: wire_text_def)

text \<open>
  C27: what the gateway's event stream writes, the provider's reader reads: from the text of any frames whose types and
  encoded events are single trimmed lines of bounded size it hands on exactly the events, each with its type and
  its JSON, in order and without an error; heartbeats are skipped.
\<close>

theorem event_stream_roundtrip:
  assumes "\<And>e. Event_Frame e \<in> set fs \<Longrightarrow> frame_safe enc e"
  shows "read_sse (\<lambda>w. False) keep_all \<lparr>hb_data = wire_text enc fs, hb_error = None\<rparr> [] =
    (None, concat (map (\<lambda>f. case f of Heartbeat \<Rightarrow> [] | Event_Frame e \<Rightarrow> [(v_type e, enc e)]) fs))"
proof -
  have "frame_event enc = (\<lambda>f. case f of Heartbeat \<Rightarrow> [] | Event_Frame e \<Rightarrow> [(v_type e, enc e)])"
    by (rule ext) (simp split: frame.split)
  then show ?thesis
    using scan_frames [OF assms] read_frames [OF assms, where got = "[]"] by (simp add: read_sse_def)
qed

definition demo_frame_event :: run_event_dto where
  "demo_frame_event = fallback_event 5 (dto_from_run demo_ended_run)"

theorem event_stream_roundtrip_witness:
  "read_sse (\<lambda>w. False) keep_all
      \<lparr>hb_data = wire_text (\<lambda>e. ''{}'') [Event_Frame demo_frame_event, Heartbeat], hb_error = None\<rparr> [] =
    (None, [(v_type demo_frame_event, ''{}'')])"
proof -
  have "frame_safe (\<lambda>e. ''{}'') demo_frame_event"
    unfolding frame_safe_def wire_safe_def MaxSSEEventBytes_def by (intro conjI) code_simp+
  then show ?thesis
    using event_stream_roundtrip [of "[Event_Frame demo_frame_event, Heartbeat]" "\<lambda>e. ''{}''"] by simp
qed

end
