(* ===== verification/Go_Json_Decode.thy ===== *)
theory Go_Json_Decode
  imports Go_Json Go_Runes Redact
begin

section \<open>Decoding JSON text\<close>

text \<open>
  What \<open>encoding/json\<close> makes of a valid text: the parts of an object or an array as the bytes they are written in
  (\<open>json.RawMessage\<close>), strings, integers, and the fields of a struct, whose names are matched up to case. A decoder is
  an option: \<open>None\<close> is an error. Of a name that occurs twice the last value other than null counts; texts are taken
  to name a member once, as encoders write them.
\<close>

subsection \<open>Parts of a text\<close>

definition raw_value :: "string \<Rightarrow> (string \<times> string) option" where
  "raw_value s =
     (let t = json_ws s
      in case json_value (2 * length t + 2) t of
           None \<Rightarrow> None | Some r \<Rightarrow> Some (take (length t - length r) t, r))"

fun raw_items :: "nat \<Rightarrow> string \<Rightarrow> string list option" where
  "raw_items 0 s = None"
| "raw_items (Suc n) s =
     (case raw_value s of
        None \<Rightarrow> None
      | Some (v, r) \<Rightarrow>
          (case json_expect CHR '','' r of
             Some r1 \<Rightarrow> map_option ((#) v) (raw_items n r1) | None \<Rightarrow> Some [v]))"

definition json_items :: "string \<Rightarrow> string list option" where
  "json_items raw =
     (case json_expect CHR ''['' raw of
        None \<Rightarrow> None
      | Some s \<Rightarrow> (case json_expect CHR '']'' s of Some r \<Rightarrow> Some [] | None \<Rightarrow> raw_items (length s) s))"

subsection \<open>Strings\<close>

definition encode_rune :: "int \<Rightarrow> string" where
  "encode_rune n =
     (let n = (if 0x10FFFF < n \<or> (0xD800 \<le> n \<and> n \<le> 0xDFFF) then 0xFFFD else n); c = (\<lambda>k. char_of (128 + (n div k) mod 64))
      in if n < 0x80 then [char_of n]
         else if n < 0x800 then [char_of (192 + n div 64), c 1]
         else if n < 0x10000 then [char_of (224 + n div 4096), c 64, c 1]
         else [char_of (240 + n div 262144), c 4096, c 64, c 1])"

definition hex_rune :: "string \<Rightarrow> int" where
  "hex_rune s =
     fold (\<lambda>c a. a * 16 + (let n = of_char c in if n \<le> (57::int) then n - 48 else if n \<le> 70 then n - 55 else n - 87)) (take 4 s) 0"

text \<open>What follows the opening quote, up to the closing one; a lone half of a surrogate pair is replaced.\<close>

function unquote_from :: "string \<Rightarrow> string" where
  "unquote_from s =
     (case s of
        [] \<Rightarrow> []
      | c # r \<Rightarrow>
          (if c = CHR 0x22 then []
           else if c = CHR 0x5C then
             (case r of
                [] \<Rightarrow> []
              | e # r1 \<Rightarrow>
                  (if e = CHR ''u'' then
                     (let a = hex_rune r1; r2 = drop 4 r1; b = hex_rune (drop 2 r2)
                      in if 0xD800 \<le> a \<and> a \<le> 0xDBFF \<and> has_prefix [CHR 0x5C, CHR ''u''] r2 \<and> 0xDC00 \<le> b \<and> b \<le> 0xDFFF
                         then encode_rune ((a - 0xD800) * 1024 + (b - 0xDC00) + 0x10000) @ unquote_from (drop 6 r2)
                         else encode_rune a @ unquote_from r2)
                   else (if e = CHR ''b'' then CHR 0x08 else if e = CHR ''f'' then CHR 0x0C else if e = CHR ''n'' then CHR 0x0A
                         else if e = CHR ''r'' then CHR 0x0D else if e = CHR ''t'' then CHR 0x09 else e) # unquote_from r1))
           else encode_rune (int (rune_value s)) @ unquote_from (drop (rune_advance s) s)))"
  by pat_completeness auto
termination
  by (relation "measure length") (auto simp: rune_advance_pos intro!: diff_less)

declare unquote_from.simps [simp del]

definition unquote :: "string \<Rightarrow> string" where
  "unquote raw = unquote_from (drop 1 raw)"

text \<open>\<open>json.Marshal\<close> of a string, with HTML escaped.\<close>

definition unicode_escape :: "nat \<Rightarrow> string" where
  "unicode_escape n =
     [CHR 0x5C, CHR ''u'', hex_digit (n div 4096), hex_digit (n div 256 mod 16), hex_digit (n div 16 mod 16), hex_digit (n mod 16)]"

function quote_from :: "string \<Rightarrow> string" where
  "quote_from s =
     (case s of
        [] \<Rightarrow> [CHR 0x22]
      | c # r \<Rightarrow>
          (let n = of_char c :: nat
           in if n < 128 then
                (if c = CHR 0x22 \<or> c = CHR 0x5C then [CHR 0x5C, c]
                 else if n = 8 then [CHR 0x5C, CHR ''b''] else if n = 12 then [CHR 0x5C, CHR ''f'']
                 else if n = 10 then [CHR 0x5C, CHR ''n''] else if n = 13 then [CHR 0x5C, CHR ''r'']
                 else if n = 9 then [CHR 0x5C, CHR ''t'']
                 else if n < 32 \<or> c = CHR ''<'' \<or> c = CHR ''>'' \<or> c = CHR ''&'' then unicode_escape n else [c]) @ quote_from r
              else (case utf8_width s of
                      None \<Rightarrow> unicode_escape 0xFFFD @ quote_from r
                    | Some k \<Rightarrow>
                        (if rune_value s = 0x2028 \<or> rune_value s = 0x2029 then unicode_escape (rune_value s) else take k s) @
                        quote_from (drop k s))))"
  by pat_completeness auto
termination
proof (relation "measure length")
  fix s c r k
  assume s: "s = (c :: char) # r" and k: "utf8_width s = Some k"
  from utf8_width_bounds [OF k] show "(drop k s, s) \<in> measure length" by (simp add: s)
qed auto

declare quote_from.simps [simp del]

definition json_quote :: "string \<Rightarrow> string" where
  "json_quote s = CHR 0x22 # quote_from s"

subsection \<open>Members and fields\<close>

fun raw_members :: "nat \<Rightarrow> string \<Rightarrow> (string \<times> string) list option" where
  "raw_members 0 s = None"
| "raw_members (Suc n) s =
     (case raw_value s of
        None \<Rightarrow> None
      | Some (k, r) \<Rightarrow>
          (case Option.bind (json_expect CHR '':'' r) raw_value of
             None \<Rightarrow> None
           | Some (v, r1) \<Rightarrow>
               (case json_expect CHR '','' r1 of
                  Some r2 \<Rightarrow> map_option ((#) (unquote k, v)) (raw_members n r2) | None \<Rightarrow> Some [(unquote k, v)])))"

text \<open>An object or null, as a struct is decoded from.\<close>

definition json_object :: "string \<Rightarrow> (string \<times> string) list option" where
  "json_object raw =
     (if json_ws raw = ''null'' then Some []
      else (case json_expect CHR ''{'' raw of
              None \<Rightarrow> None
            | Some s \<Rightarrow> (case json_expect CHR ''}'' s of Some r \<Rightarrow> Some [] | None \<Rightarrow> raw_members (length s) s)))"

text \<open>The name of a field is given in lower case; a key matches it up to Unicode case folding.\<close>

definition key_matches :: "string \<Rightarrow> string \<Rightarrow> bool" where
  "key_matches name k \<longleftrightarrow> lit_ci name k = Some []"

definition values_of :: "string \<Rightarrow> (string \<times> string) list \<Rightarrow> string list" where
  "values_of name ms = map snd (filter (\<lambda>(k, v). key_matches name k) ms)"

definition field_of :: "string \<Rightarrow> (string \<times> string) list \<Rightarrow> string option" where
  "field_of name ms = (case filter (\<lambda>v. v \<noteq> ''null'') (values_of name ms) of [] \<Rightarrow> None | vs \<Rightarrow> Some (last vs))"

definition raw_field :: "string \<Rightarrow> (string \<times> string) list \<Rightarrow> string" where
  "raw_field name ms = (case values_of name ms of [] \<Rightarrow> [] | vs \<Rightarrow> last vs)"

definition string_field :: "string \<Rightarrow> (string \<times> string) list \<Rightarrow> string option" where
  "string_field name ms =
     (case field_of name ms of
        None \<Rightarrow> Some []
      | Some v \<Rightarrow> if has_prefix [CHR 0x22] v then Some (unquote v) else None)"

definition int_literal :: "string \<Rightarrow> int option" where
  "int_literal v =
     (let d = trim_prefix ''-'' v; n = fold (\<lambda>c a. a * 10 + (of_char c - 48)) d (0::int); i = (if d = v then n else - n)
      in if d \<noteq> [] \<and> list_all json_digit d \<and> - (2 ^ 63) \<le> i \<and> i < 2 ^ 63 then Some i else None)"

definition int_field :: "string \<Rightarrow> (string \<times> string) list \<Rightarrow> int option" where
  "int_field name ms = (case field_of name ms of None \<Rightarrow> Some 0 | Some v \<Rightarrow> int_literal v)"

definition object_field :: "string \<Rightarrow> (string \<times> string) list \<Rightarrow> (string \<times> string) list option" where
  "object_field name ms = (case field_of name ms of None \<Rightarrow> Some [] | Some v \<Rightarrow> json_object v)"

definition list_field :: "string \<Rightarrow> (string \<times> string) list \<Rightarrow> string list option" where
  "list_field name ms = (case field_of name ms of None \<Rightarrow> Some [] | Some v \<Rightarrow> json_items v)"

text \<open>All elements, or an error.\<close>

fun all_some :: "'a option list \<Rightarrow> 'a list option" where
  "all_some [] = Some []"
| "all_some (x # xs) = (case x of None \<Rightarrow> None | Some a \<Rightarrow> map_option ((#) a) (all_some xs))"

text \<open>\<open>json.Unmarshal\<close> into a struct: the text is checked as a whole first.\<close>

definition unmarshal_struct :: "string \<Rightarrow> (string \<times> string) list option" where
  "unmarshal_struct s = (if json_valid s then Option.bind (raw_value s) (\<lambda>(v, r). json_object v) else None)"

lemma decoding_examples:
  "unmarshal_struct '' {\"id\": \"a\" , \"N\":[1, {}]} '' = Some [(''id'', ''\"a\"''), (''N'', ''[1, {}]'')] \<and>
   json_items ''[1, {}]'' = Some [''1'', ''{}''] \<and> key_matches ''callid'' ''CallID'' \<and> \<not> key_matches ''callid'' ''call_id''"
  by code_simp

end
