(* ===== verification/Llm_Route.thy ===== *)
theory Llm_Route
  imports Llm_Tools "HOL-Library.AList" "HOL-Library.Multiset"
begin

section \<open>Package llm: routing a request to a provider, and the provider pipeline\<close>

text \<open>
  \<open>llm/router.go\<close>, \<open>llm/pipeline.go\<close> and \<open>llm/conversion.go\<close>. A provider is its \<open>Generate\<close>; a map is the
  list of its entries in the order Go happens to iterate over them, so what a routing decides has to be shown not to
  depend on that order. The converters and callers of a pipeline are parameters, each a function or the
  nil interface.
\<close>

subsection \<open>The router\<close>

record 'w router =
  rt_providers :: "(string \<times> 'w generate option) list"
  rt_aliases :: "(string \<times> string) list"

definition new_router :: "'w router" where
  "new_router = \<lparr>rt_providers = [], rt_aliases = []\<rparr>"

definition router_register :: "string \<Rightarrow> 'w generate option \<Rightarrow> 'w router option \<Rightarrow> 'w router option" where
  "router_register name p r = map_option (\<lambda>r. r\<lparr>rt_providers := AList.update name p (rt_providers r)\<rparr>) r"

definition router_alias :: "string \<Rightarrow> string \<Rightarrow> 'w router option \<Rightarrow> 'w router option" where
  "router_alias pre provider r = map_option (\<lambda>r. r\<lparr>rt_aliases := AList.update pre provider (rt_aliases r)\<rparr>) r"

text \<open>An entry that is missing and an entry that is nil are the same to the router.\<close>

definition provider_at :: "'w router \<Rightarrow> string \<Rightarrow> 'w generate option" where
  "provider_at r name = (case map_of (rt_providers r) name of Some (Some p) \<Rightarrow> Some p | _ \<Rightarrow> None)"

fun best_alias :: "string \<Rightarrow> (string \<times> string) list \<Rightarrow> string \<times> string \<Rightarrow> string \<times> string" where
  "best_alias model [] best = best"
| "best_alias model ((pre, provider) # as) best =
     best_alias model as (if has_prefix pre model \<and> length (fst best) < length pre then (pre, provider) else best)"

definition route_default :: "(string \<Rightarrow> string) \<Rightarrow> 'w router \<Rightarrow> string \<Rightarrow> go_error + 'w generate \<times> string" where
  "route_default q r model =
     (case provider_at r ''default'' of
        Some p \<Rightarrow> Inr (p, model)
      | None \<Rightarrow> Inl (''no provider registered for model '' @ q model))"

definition route_alias :: "(string \<Rightarrow> string) \<Rightarrow> 'w router \<Rightarrow> string \<Rightarrow> go_error + 'w generate \<times> string" where
  "route_alias q r model =
     (let (pre, provider) = best_alias model (rt_aliases r) ([], [])
      in if pre \<noteq> []
         then (case provider_at r provider of
                 Some p \<Rightarrow> Inr (p, trim_prefix pre model) | None \<Rightarrow> route_default q r model)
         else route_default q r model)"

definition provider_for :: "(string \<Rightarrow> string) \<Rightarrow> 'w router option \<Rightarrow> string \<Rightarrow> go_error + 'w generate \<times> string" where
  "provider_for q router model =
     (case router of
        None \<Rightarrow> Inl ''router is nil''
      | Some r \<Rightarrow>
          (case cut_at (CHR ''/'') model of
             Some (provider, rest) \<Rightarrow>
               (case provider_at r provider of Some p \<Rightarrow> Inr (p, rest) | None \<Rightarrow> route_alias q r model)
           | None \<Rightarrow> route_alias q r model))"

definition router_generate :: "(string \<Rightarrow> string) \<Rightarrow> 'w router option \<Rightarrow> 'w generate" where
  "router_generate q router req w =
     (case provider_for q router (q_model req) of
        Inl e \<Rightarrow> (Returns (None, Some e), w)
      | Inr (p, model) \<Rightarrow> p (req\<lparr>q_model := model\<rparr>) w)"

subsection \<open>Converters, callers and the pipeline\<close>

record convert_options =
  cv_operation :: string
  cv_stream :: bool

record provider_request =
  prq_operation :: string
  prq_model :: string
  prq_body :: jval
  prq_headers :: "(string \<times> string) list"
  prq_metadata :: "(string \<times> string) list"
  prq_stream :: bool
  prq_raw :: jval

record provider_result =
  prs_provider :: string
  prs_model :: string
  prs_body :: string
  prs_headers :: "(string \<times> string list) list"
  prs_raw :: jval

type_synonym 'w request_converter = "request \<Rightarrow> convert_options \<Rightarrow> 'w \<Rightarrow> (go_error + provider_request) \<times> 'w"
type_synonym 'w response_converter = "provider_result \<Rightarrow> 'w \<Rightarrow> (go_error + response option) \<times> 'w"
type_synonym 'w provider_caller = "provider_request \<Rightarrow> 'w \<Rightarrow> (go_error + provider_result) \<times> 'w"
type_synonym ('w, 's) stream_caller = "provider_request \<Rightarrow> 'w \<Rightarrow> (go_error + 's) \<times> 'w"

text \<open>The Korean texts of the errors, as bytes.\<close>

definition caller_required :: string where
  "caller_required =
     ''provider caller'' @ [CHR 0xEA, CHR 0xB0, CHR 0x80] @ '' '' @ [CHR 0xED, CHR 0x95, CHR 0x84, CHR 0xEC,
     CHR 0x9A, CHR 0x94, CHR 0xED, CHR 0x95, CHR 0xB4, CHR 0xEC, CHR 0x9A, CHR 0x94]"

definition call_failed :: string where
  "call_failed =
     ''provider source '' @ [CHR 0xED, CHR 0x98, CHR 0xB8, CHR 0xEC, CHR 0xB6, CHR 0x9C] @ '' '' @ [CHR 0xEC,
     CHR 0x8B, CHR 0xA4, CHR 0xED, CHR 0x8C, CHR 0xA8, CHR 0xEC, CHR 0x98, CHR 0x88, CHR 0xEC, CHR 0x9A,
     CHR 0x94] @ '': ''"

definition response_converter_required :: string where
  "response_converter_required =
     ''provider response converter'' @ [CHR 0xEA, CHR 0xB0, CHR 0x80] @ '' '' @ [CHR 0xED, CHR 0x95, CHR 0x84,
     CHR 0xEC, CHR 0x9A, CHR 0x94, CHR 0xED, CHR 0x95, CHR 0xB4, CHR 0xEC, CHR 0x9A, CHR 0x94]"

definition convert_response_failed :: string where
  "convert_response_failed =
     ''provider '' @ [CHR 0xEC, CHR 0x9D, CHR 0x91, CHR 0xEB, CHR 0x8B, CHR 0xB5] @ '' '' @ [CHR 0xEB, CHR 0xB3,
     CHR 0x80, CHR 0xED, CHR 0x99, CHR 0x98] @ '' '' @ [CHR 0xEC, CHR 0x8B, CHR 0xA4, CHR 0xED, CHR 0x8C,
     CHR 0xA8, CHR 0xEC, CHR 0x98, CHR 0x88, CHR 0xEC, CHR 0x9A, CHR 0x94] @ '': ''"

definition stream_caller_required :: string where
  "stream_caller_required =
     ''provider stream caller'' @ [CHR 0xEA, CHR 0xB0, CHR 0x80] @ '' '' @ [CHR 0xED, CHR 0x95, CHR 0x84,
     CHR 0xEC, CHR 0x9A, CHR 0x94, CHR 0xED, CHR 0x95, CHR 0xB4, CHR 0xEC, CHR 0x9A, CHR 0x94]"

definition stream_failed :: string where
  "stream_failed =
     ''provider stream source '' @ [CHR 0xED, CHR 0x98, CHR 0xB8, CHR 0xEC, CHR 0xB6, CHR 0x9C] @ '' '' @
     [CHR 0xEC, CHR 0x8B, CHR 0xA4, CHR 0xED, CHR 0x8C, CHR 0xA8, CHR 0xEC, CHR 0x98, CHR 0x88, CHR 0xEC,
     CHR 0x9A, CHR 0x94] @ '': ''"

definition request_converter_required :: string where
  "request_converter_required =
     ''provider request converter'' @ [CHR 0xEA, CHR 0xB0, CHR 0x80] @ '' '' @ [CHR 0xED, CHR 0x95, CHR 0x84,
     CHR 0xEC, CHR 0x9A, CHR 0x94, CHR 0xED, CHR 0x95, CHR 0xB4, CHR 0xEC, CHR 0x9A, CHR 0x94]"

definition convert_request_failed :: string where
  "convert_request_failed =
     ''provider '' @ [CHR 0xEC, CHR 0x9A, CHR 0x94, CHR 0xEC, CHR 0xB2, CHR 0xAD] @ '' '' @ [CHR 0xEB, CHR 0xB3,
     CHR 0x80, CHR 0xED, CHR 0x99, CHR 0x98] @ '' '' @ [CHR 0xEC, CHR 0x8B, CHR 0xA4, CHR 0xED, CHR 0x8C,
     CHR 0xA8, CHR 0xEC, CHR 0x98, CHR 0x88, CHR 0xEC, CHR 0x9A, CHR 0x94] @ '': ''"

definition request_converter_func_required :: string where
  "request_converter_func_required =
     ''provider request converter '' @ [CHR 0xED, CHR 0x95, CHR 0xA8, CHR 0xEC, CHR 0x88, CHR 0x98, CHR 0xEA,
     CHR 0xB0, CHR 0x80] @ '' '' @ [CHR 0xED, CHR 0x95, CHR 0x84, CHR 0xEC, CHR 0x9A, CHR 0x94, CHR 0xED,
     CHR 0x95, CHR 0xB4, CHR 0xEC, CHR 0x9A, CHR 0x94]"

definition response_converter_func_required :: string where
  "response_converter_func_required =
     ''provider response converter '' @ [CHR 0xED, CHR 0x95, CHR 0xA8, CHR 0xEC, CHR 0x88, CHR 0x98, CHR 0xEA,
     CHR 0xB0, CHR 0x80] @ '' '' @ [CHR 0xED, CHR 0x95, CHR 0x84, CHR 0xEC, CHR 0x9A, CHR 0x94, CHR 0xED,
     CHR 0x95, CHR 0xB4, CHR 0xEC, CHR 0x9A, CHR 0x94]"

definition caller_func_required :: string where
  "caller_func_required =
     ''provider caller '' @ [CHR 0xED, CHR 0x95, CHR 0xA8, CHR 0xEC, CHR 0x88, CHR 0x98, CHR 0xEA, CHR 0xB0,
     CHR 0x80] @ '' '' @ [CHR 0xED, CHR 0x95, CHR 0x84, CHR 0xEC, CHR 0x9A, CHR 0x94, CHR 0xED, CHR 0x95,
     CHR 0xB4, CHR 0xEC, CHR 0x9A, CHR 0x94]"

definition stream_caller_func_required :: string where
  "stream_caller_func_required =
     ''provider stream caller '' @ [CHR 0xED, CHR 0x95, CHR 0xA8, CHR 0xEC, CHR 0x88, CHR 0x98, CHR 0xEA,
     CHR 0xB0, CHR 0x80] @ '' '' @ [CHR 0xED, CHR 0x95, CHR 0x84, CHR 0xEC, CHR 0x9A, CHR 0x94, CHR 0xED,
     CHR 0x95, CHR 0xB4, CHR 0xEC, CHR 0x9A, CHR 0x94]"

definition adapter_required :: string where
  "adapter_required =
     ''provider adapter'' @ [CHR 0xEA, CHR 0xB0, CHR 0x80] @ '' '' @ [CHR 0xED, CHR 0x95, CHR 0x84, CHR 0xEC,
     CHR 0x9A, CHR 0x94, CHR 0xED, CHR 0x95, CHR 0xB4, CHR 0xEC, CHR 0x9A, CHR 0x94]"

text \<open>The adapters of a function that may be nil.\<close>

definition request_converter_func :: "'w request_converter option \<Rightarrow> 'w request_converter" where
  "request_converter_func f req opts w = (case f of None \<Rightarrow> (Inl request_converter_func_required, w) | Some g \<Rightarrow> g req opts w)"

definition response_converter_func :: "'w response_converter option \<Rightarrow> 'w response_converter" where
  "response_converter_func f res w = (case f of None \<Rightarrow> (Inl response_converter_func_required, w) | Some g \<Rightarrow> g res w)"

definition provider_caller_func :: "'w provider_caller option \<Rightarrow> 'w provider_caller" where
  "provider_caller_func f preq w = (case f of None \<Rightarrow> (Inl caller_func_required, w) | Some g \<Rightarrow> g preq w)"

definition stream_caller_func :: "('w, 's) stream_caller option \<Rightarrow> ('w, 's) stream_caller" where
  "stream_caller_func f preq w = (case f of None \<Rightarrow> (Inl stream_caller_func_required, w) | Some g \<Rightarrow> g preq w)"

definition clone_metadata :: "(string \<times> string) list \<Rightarrow> (string \<times> string) list option" where
  "clone_metadata m = (if m = [] then None else Some m)"

record ('w, 's) pipeline =
  pl_name :: string
  pl_request :: "'w request_converter option"
  pl_response :: "'w response_converter option"
  pl_caller :: "'w provider_caller option"
  pl_streamer :: "('w, 's) stream_caller option"
  pl_options :: convert_options
  pl_stream_options :: convert_options

definition pipeline_prepare_with :: "('w, 's) pipeline \<Rightarrow> request \<Rightarrow> convert_options \<Rightarrow> 'w \<Rightarrow> (go_error + provider_request) \<times> 'w" where
  "pipeline_prepare_with p req opts w =
     (case pl_request p of
        None \<Rightarrow> (Inl request_converter_required, w)
      | Some conv \<Rightarrow>
          (case conv req opts w of
             (Inl e, w1) \<Rightarrow> (Inl (convert_request_failed @ e), w1)
           | (Inr preq, w1) \<Rightarrow>
               (let preq1 = (if prq_model preq = [] then preq\<lparr>prq_model := q_model req\<rparr> else preq)
                in (Inr (if cv_stream opts then preq1\<lparr>prq_stream := True\<rparr> else preq1), w1))))"

definition pipeline_prepare :: "('w, 's) pipeline \<Rightarrow> request \<Rightarrow> 'w \<Rightarrow> (go_error + provider_request) \<times> 'w" where
  "pipeline_prepare p req w = pipeline_prepare_with p req (pl_options p) w"

definition pipeline_prepare_stream :: "('w, 's) pipeline \<Rightarrow> request \<Rightarrow> 'w \<Rightarrow> (go_error + provider_request) \<times> 'w" where
  "pipeline_prepare_stream p req w =
     (let o0 = pl_stream_options p;
          o1 = (if cv_operation o0 = [] then o0\<lparr>cv_operation := cv_operation (pl_options p)\<rparr> else o0);
          (r, w1) = pipeline_prepare_with p req (o1\<lparr>cv_stream := True\<rparr>) w
      in (map_sum id (\<lambda>preq. preq\<lparr>prq_stream := True\<rparr>) r, w1))"

definition pipeline_name :: "('w, 's) pipeline \<Rightarrow> string" where
  "pipeline_name p = (if pl_name p = [] then ''adapted-provider'' else pl_name p)"

definition normalize_result :: "('w, 's) pipeline \<Rightarrow> provider_request \<Rightarrow> provider_result \<Rightarrow> provider_result" where
  "normalize_result p preq res =
     (let r1 = (if prs_provider res = [] then res\<lparr>prs_provider := pipeline_name p\<rparr> else res)
      in if prs_model r1 = [] then r1\<lparr>prs_model := prq_model preq\<rparr> else r1)"

definition pipeline_call :: "('w, 's) pipeline \<Rightarrow> provider_request \<Rightarrow> 'w \<Rightarrow> (go_error + provider_result) \<times> 'w" where
  "pipeline_call p preq w =
     (case pl_caller p of
        None \<Rightarrow> (Inl caller_required, w)
      | Some call \<Rightarrow>
          (case call preq w of
             (Inl e, w1) \<Rightarrow> (Inl (call_failed @ e), w1)
           | (Inr res, w1) \<Rightarrow> (Inr (normalize_result p preq res), w1)))"

definition pipeline_decode :: "('w, 's) pipeline \<Rightarrow> provider_result \<Rightarrow> 'w \<Rightarrow> (go_error + response option) \<times> 'w" where
  "pipeline_decode p res w =
     (case pl_response p of
        None \<Rightarrow> (Inl response_converter_required, w)
      | Some conv \<Rightarrow>
          (case conv res w of
             (Inl e, w1) \<Rightarrow> (Inl (convert_response_failed @ e), w1)
           | (Inr resp, w1) \<Rightarrow> (Inr resp, w1)))"

definition pipeline_generate :: "('w, 's) pipeline \<Rightarrow> request \<Rightarrow> 'w \<Rightarrow> (go_error + response option) \<times> 'w" where
  "pipeline_generate p req w =
     (case pipeline_prepare p req w of
        (Inl e, w1) \<Rightarrow> (Inl e, w1)
      | (Inr preq, w1) \<Rightarrow>
          (case pipeline_call p preq w1 of
             (Inl e, w2) \<Rightarrow> (Inl e, w2)
           | (Inr res, w2) \<Rightarrow> pipeline_decode p res w2))"

definition pipeline_stream :: "('w, 's) pipeline \<Rightarrow> request \<Rightarrow> 'w \<Rightarrow> (go_error + 's) \<times> 'w" where
  "pipeline_stream p req w =
     (case pl_streamer p of
        None \<Rightarrow> (Inl stream_caller_required, w)
      | Some streamer \<Rightarrow>
          (case pipeline_prepare_stream p req w of
             (Inl e, w1) \<Rightarrow> (Inl e, w1)
           | (Inr preq, w1) \<Rightarrow>
               (case streamer preq w1 of
                  (Inl e, w2) \<Rightarrow> (Inl (stream_failed @ e), w2)
                | (Inr s, w2) \<Rightarrow> (Inr s, w2))))"

record ('w, 's) adapted_provider =
  ap_name :: string
  ap_capabilities :: capabilities
  ap_converter :: "('w request_converter \<times> 'w response_converter) option"
  ap_request :: "'w request_converter option"
  ap_response :: "'w response_converter option"
  ap_caller :: "'w provider_caller option"
  ap_streamer :: "('w, 's) stream_caller option"
  ap_options :: convert_options
  ap_stream_options :: convert_options

definition adapted_name :: "('w, 's) adapted_provider option \<Rightarrow> string" where
  "adapted_name p = (case p of None \<Rightarrow> ''adapted-provider'' | Some a \<Rightarrow> if ap_name a = [] then ''adapted-provider'' else ap_name a)"

definition adapted_request_converter :: "('w, 's) adapted_provider \<Rightarrow> 'w request_converter option" where
  "adapted_request_converter a = (case ap_request a of Some c \<Rightarrow> Some c | None \<Rightarrow> map_option fst (ap_converter a))"

definition adapted_response_converter :: "('w, 's) adapted_provider \<Rightarrow> 'w response_converter option" where
  "adapted_response_converter a = (case ap_response a of Some c \<Rightarrow> Some c | None \<Rightarrow> map_option snd (ap_converter a))"

definition adapted_pipeline :: "('w, 's) adapted_provider \<Rightarrow> ('w, 's) pipeline" where
  "adapted_pipeline a = \<lparr>pl_name = adapted_name (Some a), pl_request = adapted_request_converter a,
     pl_response = adapted_response_converter a, pl_caller = ap_caller a, pl_streamer = ap_streamer a,
     pl_options = ap_options a, pl_stream_options = ap_stream_options a\<rparr>"

definition adapted_generate :: "('w, 's) adapted_provider option \<Rightarrow> 'w generate" where
  "adapted_generate p req w =
     (case p of
        None \<Rightarrow> (Returns (None, Some adapter_required), w)
      | Some a \<Rightarrow>
          (case pipeline_generate (adapted_pipeline a) req w of
             (Inl e, w1) \<Rightarrow> (Returns (None, Some e), w1)
           | (Inr resp, w1) \<Rightarrow> (Returns (resp, None), w1)))"

definition adapted_stream :: "('w, 's) adapted_provider option \<Rightarrow> request \<Rightarrow> 'w \<Rightarrow> (go_error + 's) \<times> 'w" where
  "adapted_stream p req w =
     (case p of None \<Rightarrow> (Inl adapter_required, w) | Some a \<Rightarrow> pipeline_stream (adapted_pipeline a) req w)"

subsection \<open>The longest alias wins, in any order\<close>

definition alias_of :: "string \<Rightarrow> (string \<times> string) list \<Rightarrow> string \<times> string \<Rightarrow> bool" where
  "alias_of model as a \<longleftrightarrow> a \<in> set as \<and> fst a \<noteq> [] \<and> prefix (fst a) model"

lemma best_alias_step:
  "distinct (map fst as) \<Longrightarrow> prefix (fst best) model \<Longrightarrow>
   (best_alias model as best = best \<or> alias_of model as (best_alias model as best)) \<and>
   length (fst best) \<le> length (fst (best_alias model as best)) \<and>
   (\<forall>p v. alias_of model as (p, v) \<longrightarrow> length p \<le> length (fst (best_alias model as best)))"
proof (induction model as best rule: best_alias.induct)
  case (2 model p v as best)
  let ?b = "if has_prefix p model \<and> length (fst best) < length p then (p, v) else best"
  have b: "prefix (fst ?b) model" "distinct (map fst as)" using "2.prems" by (simp_all add: has_prefix_iff)
  note i = "2.IH" [OF b(2,1)]
  have l: "length (fst best) \<le> length (fst ?b)" "prefix p model \<Longrightarrow> length p \<le> length (fst ?b)" by (auto simp: has_prefix_iff)
  have "length p' \<le> length (fst (best_alias model as ?b))" if "alias_of model ((p, v) # as) (p', v')" for p' v'
    using that i l(2) by (cases "(p', v') = (p, v)") (auto simp: alias_of_def intro: order.trans)
  moreover have "best_alias model as ?b = best \<or> alias_of model ((p, v) # as) (best_alias model as ?b)"
    using i "2.prems"(2) by (auto simp: alias_of_def has_prefix_iff split: if_splits)
  ultimately show ?case using i l(1) by simp
qed (simp add: alias_of_def)

lemma best_alias_spec:
  assumes "distinct (map fst as)"
  shows "alias_of model as (p, v) \<Longrightarrow> alias_of model as (best_alias model as ([], []))"
    and "alias_of model as (p, v) \<Longrightarrow> length p \<le> length (fst (best_alias model as ([], [])))"
    and "(\<And>p v. \<not> alias_of model as (p, v)) \<Longrightarrow> best_alias model as ([], []) = ([], [])"
proof -
  let ?b = "best_alias model as ([], [])"
  have st: "?b = ([], []) \<or> alias_of model as ?b" "\<And>p v. alias_of model as (p, v) \<Longrightarrow> length p \<le> length (fst ?b)"
    using best_alias_step [OF assms, of "([], [])" model] by auto
  show longest: "length p \<le> length (fst ?b)" if "alias_of model as (p, v)" for p v by (rule st(2) [OF that])
  show "alias_of model as ?b" if a: "alias_of model as (p, v)" for p v
  proof -
    have "fst ?b \<noteq> []" using longest [OF a] a by (auto simp: alias_of_def)
    then have "?b \<noteq> ([], [])" by (metis fst_conv)
    then show ?thesis using st(1) by blast
  qed
  show "?b = ([], [])" if "\<And>p v. \<not> alias_of model as (p, v)" using st(1) that by (cases ?b) simp
qed

lemma best_alias_unique:
  assumes "distinct (map fst as)" and "alias_of model as (p, v)" and "\<And>p' v'. alias_of model as (p', v') \<Longrightarrow> length p' \<le> length p"
  shows "best_alias model as ([], []) = (p, v)"
proof -
  obtain p' v' where b: "best_alias model as ([], []) = (p', v')" by fastforce
  then have a: "alias_of model as (p', v')" "length p \<le> length p'" using best_alias_spec(1,2) [OF assms(1,2)] by simp_all
  then have "length p' = length p" using assms(3) by (simp add: le_antisym)
  then have "p' = p" using a(1) assms(2) by (auto simp: alias_of_def prefix_def append_eq_append_conv)
  then show ?thesis using assms(1,2) a(1) b by (auto simp: alias_of_def dest: eq_key_imp_eq_value)
qed

lemma best_alias_mset:
  assumes "distinct (map fst as)" and "mset as = mset bs"
  shows "best_alias model as ([], []) = best_alias model bs ([], [])"
proof -
  have s: "alias_of model as = alias_of model bs" using mset_eq_setD [OF assms(2)] by (auto simp: alias_of_def fun_eq_iff)
  have d: "distinct (map fst bs)" using assms by (metis mset_eq_imp_distinct_iff mset_map)
  show ?thesis
  proof (cases "\<exists>p v. alias_of model as (p, v)")
    case True
    then obtain p v where a: "alias_of model bs (p, v)" using s by auto
    obtain p' v' where b: "best_alias model bs ([], []) = (p', v')" by fastforce
    have "alias_of model as (p', v')" using best_alias_spec(1) [OF d a] b s by simp
    then have "best_alias model as ([], []) = (p', v')"
      by (rule best_alias_unique [OF assms(1)]) (use best_alias_spec(2) [OF d, of model] b s in \<open>metis fst_conv\<close>)
    then show ?thesis using b by simp
  next
    case False
    then show ?thesis using best_alias_spec(3) [OF assms(1)] best_alias_spec(3) [OF d] s by simp
  qed
qed

lemma provider_at_mset:
  assumes "distinct (map fst (rt_providers r))" and "mset (rt_providers r) = mset (rt_providers r')"
  shows "provider_at r = provider_at r'"
proof -
  have "mset (map fst (rt_providers r)) = mset (map fst (rt_providers r'))" using assms(2) by simp
  then have "distinct (map fst (rt_providers r'))" using assms(1) mset_eq_imp_distinct_iff by blast
  then have "map_of (rt_providers r) = map_of (rt_providers r')"
    using map_of_inject_set [OF assms(1)] mset_eq_setD [OF assms(2)] by blast
  then show ?thesis by (simp add: provider_at_def fun_eq_iff)
qed

text \<open>
  C19: routing a model. A model \<open>p/rest\<close> with a registered provider \<open>p\<close> goes to \<open>p\<close> as \<open>rest\<close>; any other goes to
  the provider of the longest alias that is a prefix of it, without the prefix; otherwise, also when that provider is
  not registered, to the provider named \<open>default\<close>, unchanged; otherwise it is an error. The choice does
  not depend on the order in which Go iterates over the maps.
\<close>

theorem route_deterministic:
  assumes "distinct (map fst (rt_providers r))" and "distinct (map fst (rt_aliases r))"
  shows "(\<forall>r'. mset (rt_providers r') = mset (rt_providers r) \<and> mset (rt_aliases r') = mset (rt_aliases r) \<longrightarrow>
      provider_for q (Some r') model = provider_for q (Some r) model) \<and>
    (\<forall>name rest p. model = name @ ''/'' @ rest \<and> CHR ''/'' \<notin> set name \<and> provider_at r name = Some p \<longrightarrow>
      provider_for q (Some r) model = Inr (p, rest)) \<and>
    ((\<forall>name rest. model = name @ ''/'' @ rest \<and> CHR ''/'' \<notin> set name \<longrightarrow> provider_at r name = None) \<longrightarrow>
      (\<forall>pre target rest. (pre, target) \<in> set (rt_aliases r) \<and> pre \<noteq> [] \<and> model = pre @ rest \<and>
        (\<forall>p v. alias_of model (rt_aliases r) (p, v) \<longrightarrow> length p \<le> length pre) \<longrightarrow>
        provider_for q (Some r) model =
          (case provider_at r target of Some p \<Rightarrow> Inr (p, rest) | None \<Rightarrow> route_default q r model)) \<and>
      ((\<forall>p v. \<not> alias_of model (rt_aliases r) (p, v)) \<longrightarrow> provider_for q (Some r) model = route_default q r model))"
proof (intro conjI allI impI)
  fix r' :: "'a router"
  assume m: "mset (rt_providers r') = mset (rt_providers r) \<and> mset (rt_aliases r') = mset (rt_aliases r)"
  have p: "provider_at r' = provider_at r" using provider_at_mset [OF assms(1), of r'] m by simp
  have a: "best_alias model (rt_aliases r') ([], []) = best_alias model (rt_aliases r) ([], [])"
    using best_alias_mset [OF assms(2), of "rt_aliases r'"] m by simp
  have "route_default q r' model = route_default q r model" by (simp add: route_default_def p)
  then have "route_alias q r' model = route_alias q r model" by (simp add: route_alias_def p a split: prod.split option.split)
  then show "provider_for q (Some r') model = provider_for q (Some r) model"
    by (simp add: provider_for_def p split: option.split)
next
  fix name rest p
  assume m: "model = name @ ''/'' @ rest \<and> CHR ''/'' \<notin> set name \<and> provider_at r name = Some p"
  then have "cut_at (CHR ''/'') model = Some (name, rest)" by (simp add: cut_at_Some)
  then show "provider_for q (Some r) model = Inr (p, rest)" using m by (simp add: provider_for_def)
next
  assume n: "\<forall>name rest. model = name @ ''/'' @ rest \<and> CHR ''/'' \<notin> set name \<longrightarrow> provider_at r name = None"
  have f: "provider_for q (Some r) model = route_alias q r model"
    using n by (auto simp: provider_for_def cut_at_Some split: option.splits)
  show "provider_for q (Some r) model = (case provider_at r target of Some p \<Rightarrow> Inr (p, rest) | None \<Rightarrow> route_default q r model)"
    if "(pre, target) \<in> set (rt_aliases r) \<and> pre \<noteq> [] \<and> model = pre @ rest \<and>
      (\<forall>p v. alias_of model (rt_aliases r) (p, v) \<longrightarrow> length p \<le> length pre)" for pre target rest
  proof -
    have "best_alias model (rt_aliases r) ([], []) = (pre, target)"
      by (rule best_alias_unique [OF assms(2)]) (use that in \<open>auto simp: alias_of_def\<close>)
    moreover have "trim_prefix pre model = rest" using that by (simp add: trim_prefix_def has_prefix_iff)
    ultimately show ?thesis using that f by (simp add: route_alias_def split: option.split)
  qed
  show "provider_for q (Some r) model = route_default q r model" if "\<forall>p v. \<not> alias_of model (rt_aliases r) (p, v)"
    using that f best_alias_spec(3) [OF assms(2), of model] by (simp add: route_alias_def)
qed

definition demo_router :: "unit router" where
  "demo_router = \<lparr>rt_providers = [(''a'', Some demo_gen), (''default'', Some demo_gen)],
     rt_aliases = [(''g'', ''a''), (''gpt-'', ''a'')]\<rparr>"

theorem route_deterministic_witness:
  "provider_for id (Some demo_router) ''gpt-4'' = Inr (demo_gen, ''4'') \<and>
   provider_for id (Some (demo_router\<lparr>rt_aliases := rev (rt_aliases demo_router)\<rparr>)) ''gpt-4'' = Inr (demo_gen, ''4'') \<and>
   provider_for id (Some demo_router) ''a/x/y'' = Inr (demo_gen, ''x/y'')"
proof -
  have d: "distinct (map fst (rt_providers demo_router))" "distinct (map fst (rt_aliases demo_router))" by code_simp+
  have 1: "provider_for id (Some demo_router) ''gpt-4'' = Inr (demo_gen, ''4'')"
    by (simp add: provider_for_def demo_router_def route_alias_def provider_at_def has_prefix_iff trim_prefix_def)
  have "mset (rt_aliases (demo_router\<lparr>rt_aliases := rev (rt_aliases demo_router)\<rparr>)) = mset (rt_aliases demo_router)"
    "mset (rt_providers (demo_router\<lparr>rt_aliases := rev (rt_aliases demo_router)\<rparr>)) = mset (rt_providers demo_router)" by simp_all
  then have "provider_for id (Some (demo_router\<lparr>rt_aliases := rev (rt_aliases demo_router)\<rparr>)) ''gpt-4'' =
      provider_for id (Some demo_router) ''gpt-4''"
    by (intro route_deterministic [OF d, of id "''gpt-4''", THEN conjunct1, rule_format]) simp
  moreover have "provider_at demo_router ''a'' = Some demo_gen" by (simp add: provider_at_def demo_router_def)
  then have "provider_for id (Some demo_router) (''a'' @ ''/'' @ ''x/y'') = Inr (demo_gen, ''x/y'')"
    by (intro route_deterministic [OF d, of id "''a'' @ ''/'' @ ''x/y''", THEN conjunct2, THEN conjunct1, rule_format, where name = "''a''"]) simp
  ultimately show ?thesis using 1 by simp
qed

end
