(* ===== verification/Http_Json.thy ===== *)
theory Http_Json
  imports Http_Transport Llm_Route
begin

section \<open>Package httpjson: a provider behind an HTTP JSON API\<close>

text \<open>
  \<open>providers/httpjson/client.go\<close>: a converted request is sent to the route of its operation. What package net/url does
  with an endpoint's query, JSON encoding, and the texts of errors are arguments.
\<close>

subsection \<open>Routes and templates\<close>

record http_route =
  hr_method :: string
  hr_path :: string
  hr_accept :: string
  hr_headers :: smap
  hr_query :: smap

record resolved_route =
  rr_path :: string
  rr_query :: smap

datatype call_error =
    No_Caller
  | Operation_Required
  | Unknown_Operation string
  | Path_Required
  | Template_Open string
  | Template_Value string
  | Base_Required
  | Bad_Endpoint string
  | Failed transport_error

text \<open>\<open>url.PathEscape\<close>\<close>

definition path_plain :: "char \<Rightarrow> bool" where
  "path_plain c \<longleftrightarrow>
     (let n = of_char c :: nat
      in 48 \<le> n \<and> n \<le> 57 \<or> 65 \<le> n \<and> n \<le> 90 \<or> 97 \<le> n \<and> n \<le> 122 \<or> c \<in> set ''-_.~$&+=:@'')"

definition upper_hex :: "nat \<Rightarrow> char" where
  "upper_hex n = (if n < 10 then char_of (48 + n) else char_of (55 + n))"

definition path_escape :: "string \<Rightarrow> string" where
  "path_escape s =
     concat (map (\<lambda>c. if path_plain c then [c] else [CHR ''%'', upper_hex (of_char c div 16), upper_hex (of_char c mod 16)]) s)"

text \<open>The metadata of a request is a map; a name may say so with a prefix.\<close>

definition route_template_value :: "string \<Rightarrow> provider_request \<Rightarrow> string option" where
  "route_template_value name req =
     (if name = ''model'' then (if prq_model req \<noteq> [] then Some (prq_model req) else None)
      else if name = ''operation'' then (if prq_operation req \<noteq> [] then Some (prq_operation req) else None)
      else map_of (prq_metadata req) (trim_prefix ''metadata.'' name))"

lemma after_brace:
  assumes "b # r = dropWhile P t"
  shows "length (dropWhile Q r) - Suc 0 < length t"
proof -
  have "length (b # r) \<le> length t" unfolding assms by (rule length_dropWhile_le)
  moreover have "length (dropWhile Q r) \<le> length r" by (rule length_dropWhile_le)
  ultimately show ?thesis by simp
qed

function expand_route_template :: "string \<Rightarrow> provider_request \<Rightarrow> bool \<Rightarrow> string \<Rightarrow> call_error + string" where
  "expand_route_template whole req esc t =
     (let before = takeWhile (\<lambda>c. c \<noteq> CHR ''{'') t; from_brace = dropWhile (\<lambda>c. c \<noteq> CHR ''{'') t
      in case from_brace of
           [] \<Rightarrow> Inr before
         | b # r \<Rightarrow>
             (let inside = takeWhile (\<lambda>c. c \<noteq> CHR ''}'') r; after = dropWhile (\<lambda>c. c \<noteq> CHR ''}'') r
              in if after = [] then Inl (Template_Open whole)
                 else (case route_template_value (trim_space inside) req of
                         None \<Rightarrow> Inl (Template_Value (trim_space inside))
                       | Some v \<Rightarrow>
                           map_sum id (\<lambda>out. before @ (if esc then path_escape v else v) @ out)
                             (expand_route_template whole req esc (tl after)))))"
  by pat_completeness auto
termination
  by (relation "measure (\<lambda>(whole, req, esc, t). length t)") (auto dest: after_brace)

declare expand_route_template.simps [simp del]

fun resolve_query :: "provider_request \<Rightarrow> smap \<Rightarrow> smap \<Rightarrow> call_error + smap" where
  "resolve_query req [] out = Inr out"
| "resolve_query req ((k, t) # ts) out =
     (let key = trim_space k
      in if key = [] then resolve_query req ts out
         else (case expand_route_template t req False t of
                 Inl e \<Rightarrow> Inl e | Inr v \<Rightarrow> resolve_query req ts (mset_kv out key v)))"

definition resolve_route :: "http_route \<Rightarrow> provider_request \<Rightarrow> call_error + resolved_route" where
  "resolve_route r req =
     (let path = trim_space (hr_path r)
      in if path = [] then Inl Path_Required
         else (case expand_route_template path req True path of
                 Inl e \<Rightarrow> Inl e
               | Inr p \<Rightarrow>
                   (case resolve_query req (hr_query r) [] of
                      Inl e \<Rightarrow> Inl e | Inr q \<Rightarrow> Inr \<lparr>rr_path = p, rr_query = q\<rparr>)))"

subsection \<open>The caller\<close>

record http_caller =
  hc_name :: string
  hc_base :: string
  hc_key :: string
  hc_headers :: smap
  hc_retry :: retry_config
  hc_max_bytes :: int
  hc_default_operation :: string
  hc_routes :: "(string \<times> http_route) list"

definition trim_right_slashes :: "string \<Rightarrow> string" where
  "trim_right_slashes s = rev (dropWhile (\<lambda>c. c = CHR ''/'') (rev s))"

definition new_http_caller :: "http_caller \<Rightarrow> http_caller" where
  "new_http_caller c =
     c\<lparr>hc_name := (if trim_space (hc_name c) = [] then ''http-json'' else trim_space (hc_name c)),
       hc_base := trim_right_slashes (hc_base c), hc_retry := normalize_retry (hc_retry c),
       hc_default_operation := trim_space (hc_default_operation c)\<rparr>"

definition caller_route :: "http_caller \<Rightarrow> string \<Rightarrow> call_error + http_route" where
  "caller_route c operation =
     (if operation = [] then Inl Operation_Required
      else (case map_of (hc_routes c) operation of Some r \<Rightarrow> Inr r | None \<Rightarrow> Inl (Unknown_Operation operation)))"

definition caller_endpoint ::
  "(string \<Rightarrow> smap \<Rightarrow> string + string) \<Rightarrow> http_caller \<Rightarrow> http_route \<Rightarrow> provider_request \<Rightarrow> call_error + string" where
  "caller_endpoint add_query c r req =
     (case resolve_route r req of
        Inl e \<Rightarrow> Inl e
      | Inr x \<Rightarrow>
          (let absolute = has_prefix ''http://'' (rr_path x) \<or> has_prefix ''https://'' (rr_path x)
           in if \<not> absolute \<and> hc_base c = [] then Inl Base_Required
              else (let e = (if absolute then rr_path x
                             else hc_base c @ ''/'' @ dropWhile (\<lambda>ch. ch = CHR ''/'') (rr_path x))
                    in if rr_query x = [] then Inr e
                       else (case add_query e (rr_query x) of Inl m \<Rightarrow> Inl (Bad_Endpoint m) | Inr u \<Rightarrow> Inr u))))"

definition caller_request ::
  "(string \<Rightarrow> smap \<Rightarrow> string + string) \<Rightarrow> marshaller \<Rightarrow> http_caller \<Rightarrow> http_route \<Rightarrow> provider_request \<Rightarrow> jval \<Rightarrow> call_error + http_out" where
  "caller_request add_query ms c r req body =
     (case caller_endpoint add_query c r req of
        Inl e \<Rightarrow> Inl e
      | Inr endpoint \<Rightarrow>
          (let hs = fold (\<lambda>(k, v) m. mset_kv m k v) (prq_headers req) (fold (\<lambda>(k, v) m. mset_kv m k v) (hr_headers r) (hc_headers c));
               meth = (if trim_space (hr_method r) = [] then ''POST'' else trim_space (hr_method r))
           in map_sum Failed id
                (new_json_request ms meth endpoint (hc_key c) hs (if body = JNull then None else Some body) (hr_accept r))))"

definition call_provider ::
  "(string \<Rightarrow> smap \<Rightarrow> string + string) \<Rightarrow> marshaller \<Rightarrow> 'w transport \<Rightarrow> http_caller option \<Rightarrow> provider_request \<Rightarrow> 'w \<Rightarrow>
   (call_error + provider_result) \<times> 'w" where
  "call_provider add_query ms tp caller req w =
     (case caller of
        None \<Rightarrow> (Inl No_Caller, w)
      | Some c \<Rightarrow>
          (let operation = (if trim_space (prq_operation req) = [] then hc_default_operation c else trim_space (prq_operation req));
               label = hc_name c @ '' '' @ operation
           in case caller_route c operation of
                Inl e \<Rightarrow> (Inl e, w)
              | Inr r \<Rightarrow>
                  (case caller_request add_query ms c r req (prq_body req) of
                     Inl e \<Rightarrow> (Inl e, w)
                   | Inr out \<Rightarrow>
                       (case do_with_retry tp out (hc_retry c) w of
                          (Inl e, w1) \<Rightarrow> (Inl (Failed e), w1)
                        | (Inr res, w1) \<Rightarrow>
                            (case read_response_body (hi_body res) (hc_max_bytes c) of
                               Inl e \<Rightarrow> (Inl (Failed (Body_Failed e)), w1)
                             | Inr (data, truncated) \<Rightarrow>
                                 (if \<not> is_success_status (hi_status res)
                                  then (Inl (Failed (Status_Error (error_from_response label (Some res)
                                          (append_truncated_marker data truncated)))), w1)
                                  else if truncated then (Inl (Failed (body_too_large label (hc_max_bytes c))), w1)
                                  else (Inr \<lparr>prs_provider = hc_name c, prs_model = prq_model req, prs_body = data,
                                          prs_headers = hi_headers res, prs_raw = JNull\<rparr>, w1)))))))"

subsection \<open>Streams\<close>

text \<open>The error of an event: of reading the stream, or of decoding what it carries.\<close>

datatype stream_error = Read_Error sse_error | Decode_Error string

record stream_event =
  se_type :: string
  se_delta :: string
  se_response :: "response option"
  se_tool_call :: "tool_call option"
  se_error :: "stream_error option"
  se_provider :: string
  se_event :: string
  se_raw :: raw

definition stream_event_of :: "string \<Rightarrow> string \<Rightarrow> string \<Rightarrow> stream_event" where
  "stream_event_of kind provider name =
     \<lparr>se_type = kind, se_delta = [], se_response = None, se_tool_call = None, se_error = None, se_provider = provider,
      se_event = name, se_raw = []\<rparr>"

text \<open>\<open>streamBody\<close>: a body that says nothing about streaming asks for it.\<close>

definition stream_body :: "jval \<Rightarrow> jval" where
  "stream_body b =
     (case b of JObj kvs \<Rightarrow> (if map_of kvs ''stream'' = None then JObj (kvs @ [(''stream'', JBool True)]) else b) | _ \<Rightarrow> b)"

text \<open>
  The events a stream delivers, in order; \<open>gone\<close> says whether the context has ended once so many are delivered. A stream
  that ends without an error, by \<open>[DONE]\<close> or by the end of the body, is completed.
\<close>

definition deliver :: "(nat \<Rightarrow> bool) \<Rightarrow> stream_event \<Rightarrow> stream_event list \<Rightarrow> bool \<times> stream_event list" where
  "deliver gone e es = (if gone (length es) then (False, es) else (True, es @ [e]))"

definition raw_stream :: "string \<Rightarrow> string \<Rightarrow> (nat \<Rightarrow> bool) \<Rightarrow> http_body \<Rightarrow> stream_event list" where
  "raw_stream provider operation gone b =
     (case read_sse (\<lambda>es. gone (length es))
             (\<lambda>name data. deliver gone ((stream_event_of ''unknown'' provider name)\<lparr>se_raw := data\<rparr>)) b [] of
        (Some e, es) \<Rightarrow> es @ [(stream_event_of ''error'' provider operation)\<lparr>se_error := Some (Read_Error e)\<rparr>]
      | (None, es) \<Rightarrow> es @ (if gone (length es) then [] else [stream_event_of ''completed'' provider operation]))"

definition stream_provider ::
  "(string \<Rightarrow> smap \<Rightarrow> string + string) \<Rightarrow> marshaller \<Rightarrow> 'w transport \<Rightarrow> (nat \<Rightarrow> bool) \<Rightarrow> http_caller option \<Rightarrow> provider_request \<Rightarrow> 'w \<Rightarrow>
   (call_error + stream_event list) \<times> 'w" where
  "stream_provider add_query ms tp gone caller req w =
     (case caller of
        None \<Rightarrow> (Inl No_Caller, w)
      | Some c \<Rightarrow>
          (let operation = (if trim_space (prq_operation req) = [] then hc_default_operation c else trim_space (prq_operation req))
           in case caller_route c operation of
                Inl e \<Rightarrow> (Inl e, w)
              | Inr r \<Rightarrow>
                  (let r1 = (if hr_accept r = [] then r\<lparr>hr_accept := ''text/event-stream''\<rparr> else r)
                   in case caller_request add_query ms c r1 req (stream_body (prq_body req)) of
                        Inl e \<Rightarrow> (Inl e, w)
                      | Inr out \<Rightarrow>
                          (case do_with_retry tp out (hc_retry c) w of
                             (Inl e, w1) \<Rightarrow> (Inl (Failed e), w1)
                           | (Inr res, w1) \<Rightarrow>
                               (if \<not> is_success_status (hi_status res)
                                then (let (data, truncated) = (case read_response_body (hi_body res) (hc_max_bytes c) of
                                            Inl e \<Rightarrow> ([], False) | Inr x \<Rightarrow> x)
                                      in (Inl (Failed (Status_Error (error_from_response (hc_name c @ '' '' @ operation @ '' stream'')
                                           (Some res) (append_truncated_marker data truncated)))), w1))
                                else (Inr (raw_stream (hc_name c) operation gone (hi_body res)), w1))))))"

subsection \<open>Values do not change the shape of an endpoint\<close>

text \<open>A template without what stands in braces.\<close>

function template_text :: "string \<Rightarrow> string" where
  "template_text t =
     (case dropWhile (\<lambda>c. c \<noteq> CHR ''{'') t of
        [] \<Rightarrow> t
      | b # r \<Rightarrow> takeWhile (\<lambda>c. c \<noteq> CHR ''{'') t @ template_text (tl (dropWhile (\<lambda>c. c \<noteq> CHR ''}'') r)))"
  by pat_completeness auto
termination
  by (relation "measure length") (auto dest: after_brace [OF sym])

declare template_text.simps [simp del]

definition separator :: "char \<Rightarrow> bool" where
  "separator c \<longleftrightarrow> c \<in> set ''/?#;,''"

lemma upper_hex_plain: "n < 16 \<Longrightarrow> \<not> separator (upper_hex n)"
proof -
  assume "n < 16"
  then have "n \<in> {0..<16}" by simp
  moreover have "\<forall>n \<in> set [0..<16]. \<not> separator (upper_hex n)" by code_simp
  ultimately show ?thesis by simp
qed

lemma path_escape_separators [simp]: "filter separator (path_escape s) = []"
proof -
  have "\<not> separator c" if "path_plain c" for c
    using that by (auto simp: path_plain_def separator_def Let_def)
  moreover have "\<not> separator (CHR ''%'')" by (simp add: separator_def)
  moreover have "\<not> separator (upper_hex (of_char c div 16))" "\<not> separator (upper_hex (of_char c mod 16))" for c :: char
    using nat_of_char_less_256 [of c] by (auto intro!: upper_hex_plain simp: less_mult_imp_div_less)
  ultimately show ?thesis by (simp add: path_escape_def filter_concat filter_empty_conv)
qed


definition demo_provider_request :: provider_request where
  "demo_provider_request = \<lparr>prq_operation = ''op'', prq_model = ''../x?y'', prq_body = JNull, prq_headers = [],
     prq_metadata = [(''user'', ''a/b'')], prq_stream = False, prq_raw = JNull\<rparr>"


end
