(* ===== verification/Openai_Responses.thy ===== *)
theory Openai_Responses
  imports Go_Json_Decode Http_Json
begin

section \<open>Package openai: the Responses API\<close>

text \<open>
  \<open>providers/openai\<close>: a standard request as the body of the API (\<open>client.go\<close>), the converter (\<open>conversion.go\<close>), the
  response as a standard one (\<open>parse.go\<close>) and the events of a stream (\<open>stream.go\<close>). A body is a \<open>map[string]any\<close>, with
  its members in the order they are set; a nil map is an empty one. Arguments: \<open>json.Unmarshal\<close> into an \<open>any\<close>, the
  texts of errors, and what package net/url does with an endpoint.
\<close>

subsection \<open>Tools of the provider: \<open>builtin.go\<close>\<close>

definition builtin :: "string \<Rightarrow> jmap \<Rightarrow> tool" where
  "builtin kind opts =
     \<lparr>t_kind = ToolBuiltin, t_name = kind, t_description = [], t_parameters = None, t_strict = None, t_grammar = None,
      t_provider_options = opts\<rparr>"

definition web_search_tool :: "jmap \<Rightarrow> tool" where "web_search_tool opts = builtin ''web_search_preview'' opts"
definition computer_use_tool :: "jmap \<Rightarrow> tool" where "computer_use_tool opts = builtin ''computer_use_preview'' opts"
definition code_interpreter_tool :: "jmap \<Rightarrow> tool" where "code_interpreter_tool opts = builtin ''code_interpreter'' opts"
definition image_generation_tool :: "jmap \<Rightarrow> tool" where "image_generation_tool opts = builtin ''image_generation'' opts"

definition file_search_tool :: "string list \<Rightarrow> int \<Rightarrow> tool" where
  "file_search_tool stores n =
     builtin ''file_search''
       ([(''vector_store_ids'', JArr (map JStr stores))] @ (if 0 < n then [(''max_num_results'', JInt n)] else []))"

definition mcp_tool :: "string \<Rightarrow> string \<Rightarrow> smap \<Rightarrow> tool" where
  "mcp_tool label url headers =
     builtin ''mcp''
       ([(''server_label'', JStr label), (''server_url'', JStr url)] @
        (if headers \<noteq> [] then [(''headers'', JObj (map (map_prod id JStr) headers))] else []))"

subsection \<open>The body of a request\<close>

datatype build_error =
    Model_Required
  | Bad_Raw raw
  | Missing_Result
  | Cannot_Marshal string

text \<open>The parts of a message; one that says nothing is left out.\<close>

fun build_parts :: "(raw \<Rightarrow> jval option) \<Rightarrow> content_part list \<Rightarrow> build_error + jval list" where
  "build_parts dec [] = Inr []"
| "build_parts dec (p # ps) =
     (if part_raw p \<noteq> [] then
        (case dec (part_raw p) of None \<Rightarrow> Inl (Bad_Raw (part_raw p)) | Some v \<Rightarrow> map_sum id ((#) v) (build_parts dec ps))
      else if part_text p \<noteq> [] then
        map_sum id ((#) (JObj [(''type'', JStr ''input_text''), (''text'', JStr (part_text p))])) (build_parts dec ps)
      else if part_image_url p \<noteq> [] then
        map_sum id ((#) (JObj [(''type'', JStr ''input_image''), (''image_url'', JStr (part_image_url p))])) (build_parts dec ps)
      else if part_file_id p \<noteq> [] then
        map_sum id ((#) (JObj [(''type'', JStr ''input_file''), (''file_id'', JStr (part_file_id p))])) (build_parts dec ps)
      else build_parts dec ps)"

fun build_messages :: "(raw \<Rightarrow> jval option) \<Rightarrow> message list \<Rightarrow> build_error + jval list" where
  "build_messages dec [] = Inr []"
| "build_messages dec (m # ms) =
     (case (if m_parts m = [] then Inr (JStr (m_content m)) else map_sum id JArr (build_parts dec (m_parts m))) of
        Inl e \<Rightarrow> Inl e
      | Inr c \<Rightarrow> map_sum id ((#) (JObj [(''role'', JStr (m_role m)), (''content'', c)])) (build_messages dec ms))"

definition result_output :: "tool_result \<Rightarrow> string" where
  "result_output r = (if tr_error r \<noteq> [] then ''{\"error\":'' @ json_quote (tr_error r) @ ''}'' else tr_output r)"

text \<open>\<open>buildItem\<close>: an item of the provider goes back as it came, but for the outputs of tools.\<close>

definition build_item :: "(raw \<Rightarrow> jval option) \<Rightarrow> item \<Rightarrow> build_error + jval" where
  "build_item dec i =
     (let decoded = (case dec (i_provider_raw i) of None \<Rightarrow> Inl (Bad_Raw (i_provider_raw i)) | Some v \<Rightarrow> Inr v)
      in if i_provider_raw i \<noteq> [] \<and> i_type i \<noteq> ItemFunctionOutput \<and> i_type i \<noteq> ItemCustomToolOutput then decoded
         else if i_type i = ItemFunctionOutput \<or> i_type i = ItemCustomToolOutput then
           (case i_tool_result i of
              None \<Rightarrow> Inl Missing_Result
            | Some r \<Rightarrow>
                Inr (JObj
                  [(''type'', JStr (if i_type i = ItemCustomToolOutput \<or> tr_custom r
                                    then ''custom_tool_call_output'' else ''function_call_output'')),
                   (''call_id'', JStr (tr_call_id r)), (''output'', JStr (result_output r))]))
         else if i_type i = ItemMessage then
           Inr (JObj [(''type'', JStr ''message''), (''role'', JStr (i_role i)), (''content'', JStr (i_content i))])
         else if i_provider_raw i \<noteq> [] then decoded
         else Inl (Cannot_Marshal (i_type i)))"

fun build_items :: "(raw \<Rightarrow> jval option) \<Rightarrow> item list \<Rightarrow> build_error + jval list" where
  "build_items dec [] = Inr []"
| "build_items dec (i # its) =
     (case build_item dec i of Inl e \<Rightarrow> Inl e | Inr v \<Rightarrow> map_sum id ((#) v) (build_items dec its))"

definition build_input :: "(raw \<Rightarrow> jval option) \<Rightarrow> request \<Rightarrow> build_error + jval list" where
  "build_input dec req =
     (case build_messages dec (q_messages req) of
        Inl e \<Rightarrow> Inl e | Inr ms \<Rightarrow> map_sum id ((@) ms) (build_items dec (q_input_items req)))"

definition jset :: "jmap \<Rightarrow> string \<Rightarrow> jval \<Rightarrow> jmap" where
  "jset m k v = AList.update k v m"

definition with_options :: "jmap \<Rightarrow> jmap \<Rightarrow> jmap" where
  "with_options m opts = fold (\<lambda>(k, v) m. jset m k v) opts m"

definition build_tool :: "tool \<Rightarrow> jmap" where
  "build_tool t =
     (let kind = (if t_kind t = [] then ToolFunction else t_kind t)
      in if kind = ToolBuiltin then with_options [(''type'', JStr (t_name t))] (t_provider_options t)
         else with_options
           ([(''type'', JStr kind), (''name'', JStr (t_name t))] @
            (if t_description t \<noteq> [] then [(''description'', JStr (t_description t))] else []) @
            (if kind = ToolFunction then
               (case t_parameters t of Some p \<Rightarrow> [(''parameters'', JObj p)] | None \<Rightarrow> []) @
               (case t_strict t of Some b \<Rightarrow> [(''strict'', JBool b)] | None \<Rightarrow> [])
             else if kind = ToolCustom then
               (case t_grammar t of
                  Some g \<Rightarrow> [(''grammar'', JObj [(''syntax'', JStr (g_syntax g)), (''definition'', JStr (g_definition g))])]
                | None \<Rightarrow> [])
             else []))
           (t_provider_options t))"

definition build_tool_choice :: "tool_choice \<Rightarrow> jval option" where
  "build_tool_choice c =
     (let function = (\<lambda>n. JObj [(''type'', JStr ''function''), (''name'', JStr n)])
      in if tch_mode c \<in> {ToolChoiceAuto, ToolChoiceNone, ToolChoiceRequired} then Some (JStr (tch_mode c))
         else if tch_mode c = ToolChoiceFunction then Some (function (tch_name c))
         else if tch_mode c = ToolChoiceAllowed then
           Some (JObj [(''type'', JStr ''allowed_tools''), (''mode'', JStr ''auto''),
             (''tools'', JArr (map function (tch_allowed_tools c)))])
         else None)"

definition build_text_format :: "text_format \<Rightarrow> jmap" where
  "build_text_format tf =
     (if tf_type tf = ''json_object'' then [(''type'', JStr ''json_object'')]
      else if tf_type tf = ''json_schema'' \<or> tf_type tf = [] then
        [(''type'', JStr ''json_schema''), (''name'', JStr (tf_name tf)), (''schema'', JObj (tf_schema tf)),
         (''strict'', JBool (tf_strict tf))] @
        (if tf_description tf \<noteq> [] then [(''description'', JStr (tf_description tf))] else [])
      else [(''type'', JStr (tf_type tf))])"

definition build_prompt :: "prompt_ref \<Rightarrow> jmap" where
  "build_prompt p =
     [(''id'', JStr (pr_id p))] @ (if pr_version p \<noteq> [] then [(''version'', JStr (pr_version p))] else []) @
     (if pr_variables p \<noteq> [] then [(''variables'', JObj (pr_variables p))] else [])"

definition build_reasoning :: "reasoning_config \<Rightarrow> jmap" where
  "build_reasoning r =
     (if rc_effort r \<noteq> [] then [(''effort'', JStr (rc_effort r))] else []) @
     (if rc_summary r \<noteq> [] then [(''summary'', JStr (rc_summary r))] else [])"

text \<open>A member that is set when the request has it.\<close>

definition put_if :: "bool \<Rightarrow> string \<Rightarrow> jval \<Rightarrow> jmap" where
  "put_if b k v = (if b then [(k, v)] else [])"

definition put_opt :: "string \<Rightarrow> jval option \<Rightarrow> jmap" where
  "put_opt k x = (case x of Some v \<Rightarrow> [(k, v)] | None \<Rightarrow> [])"

definition put_text :: "string \<Rightarrow> string \<Rightarrow> jmap" where
  "put_text k s = put_if (s \<noteq> []) k (JStr s)"

definition build_responses_request :: "(raw \<Rightarrow> jval option) \<Rightarrow> request \<Rightarrow> build_error + jmap" where
  "build_responses_request dec req =
     (if q_model req = [] then Inl Model_Required
      else (case build_input dec req of
              Inl e \<Rightarrow> Inl e
            | Inr input \<Rightarrow> Inr (concat
                [put_if True ''model'' (JStr (q_model req)),
                 put_text ''instructions'' (q_instructions req),
                 put_if (input \<noteq> []) ''input'' (JArr input),
                 put_opt ''prompt'' (map_option (JObj \<circ> build_prompt) (q_prompt req)),
                 put_if (q_tools req \<noteq> []) ''tools'' (JArr (map (JObj \<circ> build_tool) (q_tools req))),
                 put_opt ''tool_choice'' (build_tool_choice (q_tool_choice req)),
                 (case q_reasoning req of
                    Some r \<Rightarrow> put_if (build_reasoning r \<noteq> []) ''reasoning'' (JObj (build_reasoning r)) | None \<Rightarrow> []),
                 put_opt ''text'' (map_option (\<lambda>tf. JObj [(''format'', JObj (build_text_format tf))]) (q_text_format req)),
                 put_if (0 < q_max_output_tokens req) ''max_output_tokens'' (JInt (q_max_output_tokens req)),
                 put_if (0 < q_max_tool_calls req) ''max_tool_calls'' (JInt (q_max_tool_calls req)),
                 put_opt ''temperature'' (map_option JNum (q_temperature req)),
                 put_opt ''top_p'' (map_option JNum (q_top_p req)),
                 put_opt ''store'' (map_option JBool (q_store req)),
                 put_text ''previous_response_id'' (q_previous_response_id req),
                 put_if (q_include req \<noteq> []) ''include'' (JArr (map JStr (q_include req))),
                 put_if (q_metadata req \<noteq> []) ''metadata'' (JObj (map (map_prod id JStr) (q_metadata req))),
                 put_opt ''parallel_tool_calls'' (map_option JBool (q_parallel_tool_calls req)),
                 put_text ''safety_identifier'' (q_safety_identifier req),
                 put_text ''prompt_cache_key'' (q_prompt_cache_key req)])))"

subsection \<open>The response\<close>

datatype parse_error = Bad_Envelope | Bad_Item raw

text \<open>\<open>normalizeArguments\<close>: arguments come as a string of JSON, or as JSON itself.\<close>

definition normalize_arguments :: "raw \<Rightarrow> raw" where
  "normalize_arguments r =
     (if r = [] \<or> r = ''null'' then [] else if has_prefix [CHR 0x22] r then unquote r else r)"

text \<open>The texts of a list of objects, and the pairs of type and text.\<close>

definition texts_of :: "string \<Rightarrow> (string \<times> string) list \<Rightarrow> string list option" where
  "texts_of name ms =
     Option.bind (list_field name ms) (\<lambda>vs. all_some (map (\<lambda>v. Option.bind (json_object v) (string_field ''text'')) vs))"

definition content_of :: "(string \<times> string) list \<Rightarrow> (string \<times> string) list option" where
  "content_of ms =
     Option.bind (list_field ''content'' ms) (\<lambda>vs. all_some (map (\<lambda>v.
       Option.bind (json_object v) (\<lambda>c.
         Option.bind (string_field ''type'' c) (\<lambda>t. map_option (Pair t) (string_field ''text'' c)))) vs))"

definition parse_message :: "raw \<Rightarrow> (string \<times> string) list \<Rightarrow> item option" where
  "parse_message r ms =
     Option.bind (string_field ''role'' ms) (\<lambda>role.
       map_option (\<lambda>cs. zero_item\<lparr>i_type := ItemMessage, i_role := role,
           i_content := concat (map snd (filter (\<lambda>(t, x). t = ''output_text'' \<or> t = ''text'') cs)), i_provider_raw := r\<rparr>)
         (content_of ms))"

text \<open>The fields \<open>ID\<close>, \<open>CallID\<close> and \<open>Name\<close> have no tags: their own names are the keys.\<close>

definition call_fields :: "(string \<times> string) list \<Rightarrow> (string \<times> string \<times> string) option" where
  "call_fields ms =
     Option.bind (string_field ''id'' ms) (\<lambda>i.
       Option.bind (string_field ''callid'' ms) (\<lambda>c. map_option (\<lambda>n. (i, c, n)) (string_field ''name'' ms)))"

definition parse_function_call :: "raw \<Rightarrow> (string \<times> string) list \<Rightarrow> item option" where
  "parse_function_call r ms =
     map_option (\<lambda>(i, c, n). zero_item\<lparr>i_type := ItemFunctionCall,
         i_tool_call := Some \<lparr>tc_id = i, tc_call_id = c, tc_name = n,
           tc_arguments = normalize_arguments (raw_field ''arguments'' ms), tc_custom = False\<rparr>,
         i_provider_raw := r\<rparr>) (call_fields ms)"

definition parse_custom_call :: "raw \<Rightarrow> (string \<times> string) list \<Rightarrow> item option" where
  "parse_custom_call r ms =
     Option.bind (call_fields ms) (\<lambda>(i, c, n). map_option (\<lambda>input. zero_item\<lparr>i_type := ItemCustomToolCall,
         i_tool_call := Some \<lparr>tc_id = i, tc_call_id = c, tc_name = n, tc_arguments = json_quote input, tc_custom = True\<rparr>,
         i_provider_raw := r\<rparr>) (string_field ''input'' ms))"

definition parse_reasoning :: "raw \<Rightarrow> (string \<times> string) list \<Rightarrow> item option" where
  "parse_reasoning r ms =
     Option.bind (string_field ''id'' ms) (\<lambda>i. Option.bind (texts_of ''summary'' ms) (\<lambda>ss.
       Option.bind (texts_of ''content'' ms) (\<lambda>cs. map_option (\<lambda>e. zero_item\<lparr>i_type := ItemReasoning,
           i_reasoning := Some \<lparr>ri_id = i, ri_summary = ss, ri_text = cs, ri_encrypted_content = e, ri_raw = r\<rparr>,
           i_provider_raw := r\<rparr>) (string_field ''encrypted_content'' ms))))"

definition parse_output_item :: "raw \<Rightarrow> item option" where
  "parse_output_item r =
     Option.bind (unmarshal_struct r) (\<lambda>ms. Option.bind (string_field ''type'' ms) (\<lambda>t.
       if t = ''message'' then parse_message r ms
       else if t = ''function_call'' then parse_function_call r ms
       else if t = ''custom_tool_call'' then parse_custom_call r ms
       else if t = ''reasoning'' then parse_reasoning r ms
       else Some (zero_item\<lparr>i_type := ItemUnknown, i_provider_raw := r\<rparr>)))"

definition parse_usage :: "(string \<times> string) list \<Rightarrow> usage option" where
  "parse_usage ms =
     Option.bind (object_field ''usage'' ms) (\<lambda>u.
       Option.bind (int_field ''input_tokens'' u) (\<lambda>a. Option.bind (int_field ''output_tokens'' u) (\<lambda>b.
         Option.bind (int_field ''total_tokens'' u) (\<lambda>c.
           Option.bind (object_field ''output_tokens_details'' u) (\<lambda>d.
             map_option (\<lambda>e. \<lparr>u_input = a, u_output = b, u_total = c, u_reasoning = e\<rparr>) (int_field ''reasoning_tokens'' d))))))"

record envelope =
  env_id :: string
  env_model :: string
  env_status :: string
  env_output :: "raw list"
  env_output_text :: string
  env_previous :: string
  env_usage :: usage

definition decode_envelope :: "string \<Rightarrow> envelope option" where
  "decode_envelope data =
     Option.bind (unmarshal_struct data) (\<lambda>ms.
       Option.bind (string_field ''id'' ms) (\<lambda>i. Option.bind (string_field ''model'' ms) (\<lambda>m.
         Option.bind (string_field ''status'' ms) (\<lambda>s. Option.bind (list_field ''output'' ms) (\<lambda>os.
           Option.bind (string_field ''output_text'' ms) (\<lambda>t. Option.bind (string_field ''previous_response_id'' ms) (\<lambda>p.
             map_option (\<lambda>u. \<lparr>env_id = i, env_model = m, env_status = s, env_output = os, env_output_text = t,
               env_previous = p, env_usage = u\<rparr>) (parse_usage ms))))))))"

text \<open>The loop over the items: what it adds to the response, and the texts of the messages.\<close>

definition add_item :: "item \<Rightarrow> response \<times> string list \<Rightarrow> response \<times> string list" where
  "add_item i acc =
     (let resp = (fst acc)\<lparr>p_output := p_output (fst acc) @ [i]\<rparr>
      in case i_tool_call i of
           Some c \<Rightarrow> (resp\<lparr>p_tool_calls := p_tool_calls resp @ [c]\<rparr>, snd acc)
         | None \<Rightarrow>
             (case i_reasoning i of
                Some r \<Rightarrow> (resp\<lparr>p_reasoning := p_reasoning resp @ [r]\<rparr>, snd acc)
              | None \<Rightarrow>
                  if i_type i = ItemMessage \<and> i_content i \<noteq> [] then (resp, snd acc @ [i_content i]) else (resp, snd acc)))"

fun add_items :: "raw list \<Rightarrow> response \<times> string list \<Rightarrow> parse_error + response \<times> string list" where
  "add_items [] acc = Inr acc"
| "add_items (r # rs) acc =
     (case parse_output_item r of None \<Rightarrow> Inl (Bad_Item r) | Some i \<Rightarrow> add_items rs (add_item i acc))"

definition parse_responses_response :: "string \<Rightarrow> string \<Rightarrow> parse_error + response" where
  "parse_responses_response data provider =
     (case decode_envelope data of
        None \<Rightarrow> Inl Bad_Envelope
      | Some env \<Rightarrow>
          (case add_items (env_output env)
                  (zero_response\<lparr>p_id := env_id env, p_provider := provider, p_model := env_model env,
                     p_status := env_status env, p_text := env_output_text env,
                     p_previous_response_id := env_previous env, p_raw := data, p_usage := env_usage env\<rparr>, []) of
             Inl e \<Rightarrow> Inl e
           | Inr (resp, parts) \<Rightarrow>
               Inr (if p_text resp = [] \<and> parts \<noteq> [] then resp\<lparr>p_text := concat parts\<rparr> else resp)))"

subsection \<open>The converter\<close>

definition responses_operation :: string where "responses_operation = ''responses.create''"

text \<open>The texts of errors: of building a body, of parsing a response, and the ones of the client.\<close>

datatype openai_error =
    Build build_error
  | Parse parse_error
  | Empty_Body
  | Stream_Only
  | Other_Operation string
  | Stream_Body_Not_Map
  | Call call_error

definition convert_request :: "(openai_error \<Rightarrow> go_error) \<Rightarrow> (raw \<Rightarrow> jval option) \<Rightarrow> 'w request_converter" where
  "convert_request err dec req opts w =
     ((case build_responses_request dec req of
         Inl e \<Rightarrow> Inl (err (Build e))
       | Inr body \<Rightarrow>
           Inr \<lparr>prq_operation = (if cv_operation opts = [] then responses_operation else cv_operation opts),
             prq_model = q_model req, prq_body = JObj body, prq_headers = [],
             prq_metadata = (case clone_metadata (q_metadata req) of Some m \<Rightarrow> m | None \<Rightarrow> []),
             prq_stream = cv_stream opts, prq_raw = JNull\<rparr>), w)"

definition convert_response :: "(openai_error \<Rightarrow> go_error) \<Rightarrow> string \<Rightarrow> 'w response_converter" where
  "convert_response err name res w =
     ((if prs_body res = [] then Inl (err Empty_Body)
       else (case parse_responses_response (prs_body res) (if prs_provider res = [] then name else prs_provider res) of
               Inl e \<Rightarrow> Inl (err (Parse e)) | Inr resp \<Rightarrow> Inr (Some resp))), w)"

subsection \<open>The client\<close>

record openai_client =
  oc_base :: string
  oc_key :: string
  oc_headers :: smap
  oc_retry :: retry_config
  oc_name :: string
  oc_caller :: "http_caller option"

definition default_base_url :: string where "default_base_url = ''https://api.openai.com/v1''"

definition new_openai_client :: "string \<Rightarrow> string \<Rightarrow> smap \<Rightarrow> retry_config \<Rightarrow> string \<Rightarrow> openai_client" where
  "new_openai_client base_url key headers retry provider =
     (let base = (if trim_right_slashes base_url = [] then default_base_url else trim_right_slashes base_url);
          name = (if trim_space provider = [] then ''openai-compatible'' else trim_space provider);
          rc = normalize_retry retry
      in \<lparr>oc_base = base, oc_key = key, oc_headers = headers, oc_retry = rc, oc_name = name,
          oc_caller = Some (new_http_caller
            \<lparr>hc_name = name, hc_base = base, hc_key = key, hc_headers = headers, hc_retry = rc, hc_max_bytes = 0,
             hc_default_operation = responses_operation,
             hc_routes = [(responses_operation,
               \<lparr>hr_method = [], hr_path = ''/responses'', hr_accept = [], hr_headers = [], hr_query = []\<rparr>)]\<rparr>)\<rparr>)"

definition default_capabilities :: capabilities where
  "default_capabilities =
     \<lparr>cap_tools = True, cap_custom_tools = True, cap_reasoning = True, cap_reasoning_summaries = True,
      cap_structured_output = True, cap_streaming = True, cap_tool_choice = True, cap_parallel_tool_calls = True,
      cap_prompt_refs = True, cap_previous_response_id = True, cap_mcp = False, cap_skills = False,
      cap_custom_agents = False, cap_a2a = False, cap_routing = False\<rparr>"

definition call_openai ::
  "(string \<Rightarrow> smap \<Rightarrow> string + string) \<Rightarrow> marshaller \<Rightarrow> 'w transport \<Rightarrow> openai_client \<Rightarrow> provider_request \<Rightarrow> 'w \<Rightarrow>
   (openai_error + provider_result) \<times> 'w" where
  "call_openai add_query ms tp cl req w =
     (if prq_stream req then (Inl Stream_Only, w)
      else if prq_operation req \<noteq> [] \<and> prq_operation req \<noteq> responses_operation
      then (Inl (Other_Operation (prq_operation req)), w)
      else apfst (map_sum Call id) (call_provider add_query ms tp (oc_caller cl) req w))"

subsection \<open>Streams\<close>

text \<open>The head of an event: its type, delta, response and item. Whether \<open>output_index\<close> is a number counts as well.\<close>

definition stream_head :: "string \<Rightarrow> (string \<times> string \<times> raw \<times> raw) option" where
  "stream_head data =
     Option.bind (unmarshal_struct data) (\<lambda>ms. Option.bind (string_field ''type'' ms) (\<lambda>t.
       Option.bind (string_field ''delta'' ms) (\<lambda>d.
         map_option (\<lambda>_. (t, d, raw_field ''response'' ms, raw_field ''item'' ms)) (int_field ''output_index'' ms))))"

definition parse_stream_event :: "(openai_error \<Rightarrow> string) \<Rightarrow> string \<Rightarrow> string \<Rightarrow> raw \<Rightarrow> stream_event" where
  "parse_stream_event err provider event_name data =
     (case stream_head data of
        None \<Rightarrow> (stream_event_of ''error'' provider event_name)
                  \<lparr>se_raw := data, se_error := Some (Decode_Error (err (Parse Bad_Envelope)))\<rparr>
      | Some (t, delta, response, item) \<Rightarrow>
          (let name = (if t \<noteq> [] then t else event_name);
               ev = (stream_event_of ''unknown'' provider name)\<lparr>se_raw := data\<rparr>
           in if name \<in> {''response.created'', ''response.in_progress''} then ev\<lparr>se_type := ''started''\<rparr>
              else if name \<in> {''response.output_text.delta'', ''response.refusal.delta''}
              then ev\<lparr>se_type := ''text_delta'', se_delta := delta\<rparr>
              else if name \<in> {''response.reasoning_delta'', ''response.reasoning_summary_text.delta''}
              then ev\<lparr>se_type := ''reasoning_delta'', se_delta := delta\<rparr>
              else if name = ''response.output_item.added'' then
                (case Option.bind (parse_output_item item) i_tool_call of
                   Some c \<Rightarrow> ev\<lparr>se_type := ''tool_call'', se_tool_call := Some c\<rparr> | None \<Rightarrow> ev)
              else if name = ''response.completed'' then
                (if response = [] then ev\<lparr>se_type := ''completed''\<rparr>
                 else (case parse_responses_response response provider of
                         Inr r \<Rightarrow> ev\<lparr>se_type := ''completed'', se_response := Some r\<rparr>
                       | Inl e \<Rightarrow> ev\<lparr>se_type := ''error'', se_error := Some (Decode_Error (err (Parse e)))\<rparr>))
              else if name \<in> {''response.failed'', ''error''} then ev\<lparr>se_type := ''error''\<rparr>
              else ev))"

definition openai_events :: "(openai_error \<Rightarrow> string) \<Rightarrow> string \<Rightarrow> (nat \<Rightarrow> bool) \<Rightarrow> http_body \<Rightarrow> stream_event list" where
  "openai_events err provider gone b =
     (case read_sse (\<lambda>es. gone (length es)) (\<lambda>name data. deliver gone (parse_stream_event err provider name data)) b [] of
        (Some e, es) \<Rightarrow> es @ [(stream_event_of ''error'' provider [])\<lparr>se_error := Some (Read_Error e)\<rparr>]
      | (None, es) \<Rightarrow> es)"

definition stream_openai ::
  "(openai_error \<Rightarrow> string) \<Rightarrow> (string \<Rightarrow> string \<Rightarrow> string + string) \<Rightarrow> marshaller \<Rightarrow> 'w transport \<Rightarrow> (nat \<Rightarrow> bool) \<Rightarrow>
   openai_client \<Rightarrow> provider_request \<Rightarrow> 'w \<Rightarrow> (openai_error + stream_event list) \<times> 'w" where
  "stream_openai err join_path ms tp gone cl req w =
     (if prq_operation req \<noteq> [] \<and> prq_operation req \<noteq> responses_operation
      then (Inl (Other_Operation (prq_operation req)), w)
      else (case prq_body req of
              JObj body \<Rightarrow>
                (case join_path (oc_base cl) ''responses'' of
                   Inl e \<Rightarrow> (Inl (Call (Bad_Endpoint e)), w)
                 | Inr u \<Rightarrow>
                     (case new_json_request ms ''POST'' u (oc_key cl)
                             (fold (\<lambda>(k, v) m. mset_kv m k v) (prq_headers req) (oc_headers cl))
                             (Some (JObj (jset body ''stream'' (JBool True)))) ''text/event-stream'' of
                        Inl e \<Rightarrow> (Inl (Call (Failed e)), w)
                      | Inr out \<Rightarrow>
                          (case do_with_retry tp out (oc_retry cl) w of
                             (Inl e, w1) \<Rightarrow> (Inl (Call (Failed e)), w1)
                           | (Inr res, w1) \<Rightarrow>
                               (if is_success_status (hi_status res)
                                then (Inr (openai_events err (oc_name cl) gone (hi_body res)), w1)
                                else (let (data, truncated) = (case read_response_body (hi_body res) 0 of
                                            Inl e \<Rightarrow> ([], False) | Inr x \<Rightarrow> x)
                                      in (Inl (Call (Failed (Status_Error (error_from_response ''openai-compatible stream''
                                           (Some res) (append_truncated_marker data truncated))))), w1))))))
            | _ \<Rightarrow> (Inl Stream_Body_Not_Map, w)))"

subsection \<open>Items come back as they were sent\<close>

lemma unmarshal_struct_Nil [simp]: "unmarshal_struct [] = None"
  by code_simp

lemma parsed_message: "parse_message r ms = Some i \<Longrightarrow> i_provider_raw i = r \<and> i_type i = ItemMessage \<and> i_tool_call i = None"
  by (auto simp: parse_message_def bind_eq_Some_conv zero_item_def)

lemma parsed_call:
  "parse_function_call r ms = Some i \<Longrightarrow> i_provider_raw i = r \<and> i_type i = ItemFunctionCall \<and>
     (\<forall>c. i_tool_call i = Some c \<longrightarrow> string_field ''callid'' ms = Some (tc_call_id c))"
  by (auto simp: parse_function_call_def call_fields_def bind_eq_Some_conv zero_item_def)

lemma parsed_custom_call:
  "parse_custom_call r ms = Some i \<Longrightarrow> i_provider_raw i = r \<and> i_type i = ItemCustomToolCall \<and>
     (\<forall>c. i_tool_call i = Some c \<longrightarrow> string_field ''callid'' ms = Some (tc_call_id c))"
  by (auto simp: parse_custom_call_def call_fields_def bind_eq_Some_conv zero_item_def)

lemma parsed_reasoning: "parse_reasoning r ms = Some i \<Longrightarrow> i_provider_raw i = r \<and> i_type i = ItemReasoning \<and> i_tool_call i = None"
  by (auto simp: parse_reasoning_def bind_eq_Some_conv zero_item_def)

lemma one_of_five:
  "(if a then x1 else if b then x2 else if c then x3 else if d then x4 else x5) = y \<Longrightarrow>
     x1 = y \<or> x2 = y \<or> x3 = y \<or> x4 = y \<or> x5 = y"
  by (simp split: if_split_asm)

lemma parsed_item:
  assumes "parse_output_item r = Some i"
  shows "i_provider_raw i = r \<and> i_type i \<in> {ItemMessage, ItemFunctionCall, ItemCustomToolCall, ItemReasoning, ItemUnknown} \<and>
    (\<forall>c. i_tool_call i = Some c \<longrightarrow> (\<exists>ms. unmarshal_struct r = Some ms \<and> string_field ''callid'' ms = Some (tc_call_id c)))"
proof -
  obtain ms t where m: "unmarshal_struct r = Some ms" and
    i: "(if t = ''message'' then parse_message r ms else if t = ''function_call'' then parse_function_call r ms
         else if t = ''custom_tool_call'' then parse_custom_call r ms else if t = ''reasoning'' then parse_reasoning r ms
         else Some (zero_item\<lparr>i_type := ItemUnknown, i_provider_raw := r\<rparr>)) = Some i"
    using assms unfolding parse_output_item_def bind_eq_Some_conv by blast
  from one_of_five [OF i] consider "parse_message r ms = Some i" | "parse_function_call r ms = Some i" | "parse_custom_call r ms = Some i"
    | "parse_reasoning r ms = Some i" | "Some (zero_item\<lparr>i_type := ItemUnknown, i_provider_raw := r\<rparr>) = Some i"
    by blast
  then show ?thesis
  proof cases
    case 1
    then show ?thesis using parsed_message [OF 1] by simp
  next
    case 2
    then show ?thesis using parsed_call [OF 2] m by simp
  next
    case 3
    then show ?thesis using parsed_custom_call [OF 3] m by simp
  next
    case 4
    then show ?thesis using parsed_reasoning [OF 4] by simp
  next
    case 5
    then have "i = zero_item\<lparr>i_type := ItemUnknown, i_provider_raw := r\<rparr>" by simp
    then show ?thesis by (simp add: zero_item_def)
  qed
qed

lemma parsed_type: "i_type i \<in> {ItemMessage, ItemFunctionCall, ItemCustomToolCall, ItemReasoning, ItemUnknown} \<Longrightarrow>
    i_type i \<noteq> ItemFunctionOutput \<and> i_type i \<noteq> ItemCustomToolOutput"
  by (auto simp: ItemMessage_def ItemFunctionCall_def ItemCustomToolCall_def ItemReasoning_def ItemUnknown_def
      ItemFunctionOutput_def ItemCustomToolOutput_def)

lemma parse_output_item_raw:
  assumes "parse_output_item r = Some i"
  shows "i_provider_raw i = r" and "r \<noteq> []" and "i_type i \<noteq> ItemFunctionOutput" and "i_type i \<noteq> ItemCustomToolOutput"
  using parsed_item [OF assms] parsed_type [of i] assms by (auto simp: parse_output_item_def)

lemma string_field_absent: "\<forall>(k, v) \<in> set ms. \<not> key_matches name k \<Longrightarrow> string_field name ms = Some []"
proof -
  assume "\<forall>(k, v) \<in> set ms. \<not> key_matches name k"
  then have "filter (\<lambda>(k, v). key_matches name k) ms = []" by (auto simp: filter_empty_conv)
  then show ?thesis by (simp add: string_field_def field_of_def values_of_def)
qed

lemma list_all2_partner: "list_all2 P xs ys \<Longrightarrow> y \<in> set ys \<Longrightarrow> \<exists>x \<in> set xs. P x y"
  by (induction rule: list_all2_induct) auto

definition message_text :: "item \<Rightarrow> string" where
  "message_text i =
     (if i_tool_call i = None \<and> i_reasoning i = None \<and> i_type i = ItemMessage then i_content i else [])"

lemma add_items_spec:
  "add_items rs acc = Inr (resp, parts) \<Longrightarrow>
     \<exists>its. list_all2 (\<lambda>r i. parse_output_item r = Some i) rs its \<and>
       p_output resp = p_output (fst acc) @ its \<and> p_text resp = p_text (fst acc) \<and> p_id resp = p_id (fst acc) \<and>
       p_tool_calls resp = p_tool_calls (fst acc) @ List.map_filter i_tool_call its \<and>
       concat parts = concat (snd acc) @ concat (map message_text its)"
proof (induction rs acc rule: add_items.induct)
  case (2 r rs acc)
  then obtain i where i: "parse_output_item r = Some i" by (auto split: option.splits)
  with "2.prems" have "add_items rs (add_item i acc) = Inr (resp, parts)" by simp
  from "2.IH" [OF i this] obtain its where its:
    "list_all2 (\<lambda>r i. parse_output_item r = Some i) rs its" "p_output resp = p_output (fst (add_item i acc)) @ its"
    "p_text resp = p_text (fst (add_item i acc))" "p_id resp = p_id (fst (add_item i acc))"
    "p_tool_calls resp = p_tool_calls (fst (add_item i acc)) @ List.map_filter i_tool_call its"
    "concat parts = concat (snd (add_item i acc)) @ concat (map message_text its)"
    by blast
  have "p_output (fst (add_item i acc)) = p_output (fst acc) @ [i]"
    "p_text (fst (add_item i acc)) = p_text (fst acc)" "p_id (fst (add_item i acc)) = p_id (fst acc)"
    "p_tool_calls (fst (add_item i acc)) = p_tool_calls (fst acc) @ List.map_filter i_tool_call [i]"
    "concat (snd (add_item i acc)) = concat (snd acc) @ message_text i"
    by (auto simp: add_item_def message_text_def Let_def map_filter_simps split: option.split)
  then show ?case using its i by (intro exI [of _ "i # its"]) (simp add: map_filter_simps split: option.split)
qed auto

lemma parse_responses_response_spec:
  assumes "parse_responses_response data provider = Inr resp"
  shows "\<exists>env. decode_envelope data = Some env \<and>
    list_all2 (\<lambda>r i. parse_output_item r = Some i) (env_output env) (p_output resp) \<and>
    p_tool_calls resp = List.map_filter i_tool_call (p_output resp) \<and> p_id resp = env_id env \<and>
    p_text resp = (if env_output_text env \<noteq> [] then env_output_text env else concat (map message_text (p_output resp)))"
proof -
  obtain env where e: "decode_envelope data = Some env"
    using assms by (auto simp: parse_responses_response_def split: option.splits)
  let ?r0 = "zero_response\<lparr>p_id := env_id env, p_provider := provider, p_model := env_model env, p_status := env_status env,
    p_text := env_output_text env, p_previous_response_id := env_previous env, p_raw := data, p_usage := env_usage env\<rparr>"
  obtain r1 parts where a: "add_items (env_output env) (?r0, []) = Inr (r1, parts)"
    and resp: "resp = (if p_text r1 = [] \<and> parts \<noteq> [] then r1\<lparr>p_text := concat parts\<rparr> else r1)"
    using assms e by (auto simp: parse_responses_response_def split: sum.splits)
  have s: "list_all2 (\<lambda>r i. parse_output_item r = Some i) (env_output env) (p_output r1)"
    "p_text r1 = env_output_text env" "p_id r1 = env_id env" "p_tool_calls r1 = List.map_filter i_tool_call (p_output r1)"
    "concat parts = concat (map message_text (p_output r1))"
    using add_items_spec [OF a] by (auto simp: zero_response_def)
  have "parts = [] \<Longrightarrow> concat (map message_text (p_output r1)) = []" using s(5) by simp
  then show ?thesis using e s resp by (intro exI [of _ env]) (auto simp del: concat_eq_Nil_conv)
qed

lemma build_items_append:
  "build_items dec (xs @ ys) =
     (case build_items dec xs of Inl e \<Rightarrow> Inl e | Inr a \<Rightarrow> map_sum id ((@) a) (build_items dec ys))"
proof (induction xs)
  case Nil
  show ?case by (cases "build_items dec ys") auto
next
  case (Cons x xs)
  then show ?case by (cases "build_item dec x"; cases "build_items dec xs"; cases "build_items dec ys") auto
qed

lemma build_items_parsed:
  "list_all2 (\<lambda>r i. parse_output_item r = Some i) rs its \<Longrightarrow> map dec rs = map Some vs \<Longrightarrow> build_items dec its = Inr vs"
proof (induction rs its arbitrary: vs rule: list_all2_induct)
  case (Cons r rs i its)
  then obtain v vs' where "vs = v # vs'" "dec r = Some v" "map dec rs = map Some vs'" by (cases vs) auto
  then show ?case using Cons parse_output_item_raw [OF Cons.hyps(1)] by (simp add: build_item_def)
qed simp

definition output_object :: "tool_result \<Rightarrow> jval" where
  "output_object r =
     JObj [(''type'', JStr (if tr_custom r then ''custom_tool_call_output'' else ''function_call_output'')),
       (''call_id'', JStr (tr_call_id r)), (''output'', JStr (result_output r))]"

lemma build_items_results: "build_items dec (map result_item rs) = Inr (map output_object rs)"
  by (induction rs)
    (auto simp: build_item_def result_item_def output_object_def item_type_for_result_def zero_item_def
      ItemFunctionOutput_def ItemCustomToolOutput_def)

text \<open>
  C24: a turn of the tool loop on the Responses API. The text of a parsed response is the one it brings or else that of
  its messages in order, its tool calls are those of its items in order, and the next request's input is the input so
  far, then every item of the response as the API wrote it, decoded, then the output of each tool, in the order of the
  calls, under the call id of its result; the messages are not sent again, and the response is named as the one before.
\<close>

theorem next_turn_replays:
  assumes "parse_responses_response data provider = Inr resp" and "decode_envelope data = Some env"
    and "map dec (env_output env) = map Some vs" and "build_items dec (q_input_items q) = Inr us"
  shows "p_text resp = (if env_output_text env \<noteq> [] then env_output_text env else concat (map message_text (p_output resp))) \<and>
    map i_provider_raw (p_output resp) = env_output env \<and>
    p_tool_calls resp = List.map_filter i_tool_call (p_output resp) \<and>
    build_input dec (next_request q resp results) = Inr (us @ vs @ map output_object results) \<and>
    q_previous_response_id (next_request q resp results) = env_id env"
proof -
  have s: "list_all2 (\<lambda>r i. parse_output_item r = Some i) (env_output env) (p_output resp)"
    "p_tool_calls resp = List.map_filter i_tool_call (p_output resp)" "p_id resp = env_id env"
    "p_text resp = (if env_output_text env \<noteq> [] then env_output_text env else concat (map message_text (p_output resp)))"
    using parse_responses_response_spec [OF assms(1)] assms(2) by auto
  have "map i_provider_raw (p_output resp) = env_output env"
    using s(1) by (induction rule: list_all2_induct) (simp_all add: parse_output_item_raw)
  moreover have "build_items dec (p_output resp) = Inr vs" by (rule build_items_parsed [OF s(1) assms(3)])
  then have "build_input dec (next_request q resp results) = Inr (us @ vs @ map output_object results)"
    using assms(4) by (simp add: build_input_def next_request_def build_items_append build_items_results)
  ultimately show ?thesis using s by (simp add: next_request_def)
qed

definition demo_item :: raw where
  "demo_item = ''{\"type\":\"function_call\",\"call_id\":\"c1\",\"name\":\"f\",\"arguments\":\"{}\"}''"

definition demo_data :: string where
  "demo_data = ''{\"id\":\"r\",\"output\":['' @ demo_item @ '']}''"

definition demo_env :: envelope where
  "demo_env = \<lparr>env_id = ''r'', env_model = [], env_status = [], env_output = [demo_item], env_output_text = [],
     env_previous = [], env_usage = zero_usage\<rparr>"

definition demo_call :: tool_call where
  "demo_call = \<lparr>tc_id = [], tc_call_id = [], tc_name = ''f'', tc_arguments = ''{}'', tc_custom = False\<rparr>"

definition demo_resp :: response where
  "demo_resp = zero_response\<lparr>p_id := ''r'', p_provider := ''o'', p_raw := demo_data,
     p_output := [zero_item\<lparr>i_type := ItemFunctionCall, i_tool_call := Some demo_call, i_provider_raw := demo_item\<rparr>],
     p_tool_calls := [demo_call]\<rparr>"

lemma demo_decoded: "decode_envelope demo_data = Some demo_env"
  by code_simp

lemma demo_members:
  "unmarshal_struct demo_item =
     Some [(''type'', ''\"function_call\"''), (''call_id'', ''\"c1\"''), (''name'', ''\"f\"''), (''arguments'', ''\"{}\"'')]"
  by code_simp

lemma demo_fields:
  "let ms = [(''type'', ''\"function_call\"''), (''call_id'', ''\"c1\"''), (''name'', ''\"f\"''), (''arguments'', ''\"{}\"'')]
   in string_field ''type'' ms = Some ItemFunctionCall \<and> call_fields ms = Some ([], [], ''f'') \<and>
      normalize_arguments (raw_field ''arguments'' ms) = ''{}'' \<and> list_all (\<lambda>(k, v). \<not> key_matches ''callid'' k) ms"
  by code_simp

lemma demo_parsed: "parse_responses_response demo_data ''o'' = Inr demo_resp"
proof -
  have "parse_output_item demo_item = Some (zero_item\<lparr>i_type := ItemFunctionCall, i_tool_call := Some demo_call, i_provider_raw := demo_item\<rparr>)"
    using demo_fields by (simp add: parse_output_item_def demo_members Let_def ItemFunctionCall_def parse_function_call_def demo_call_def)
  then show ?thesis
    by (simp add: parse_responses_response_def demo_decoded demo_env_def add_item_def demo_resp_def zero_response_def zero_item_def
        zero_usage_def Let_def)
qed

theorem next_turn_replays_witness:
  "build_input (\<lambda>r. Some (JStr r)) (next_request zero_request demo_resp [zero_result\<lparr>tr_output := ''ok''\<rparr>]) =
     Inr [JStr demo_item, JObj [(''type'', JStr ''function_call_output''), (''call_id'', JStr []), (''output'', JStr ''ok'')]]"
proof -
  have "map (\<lambda>r. Some (JStr r)) (env_output demo_env) = map Some [JStr demo_item]" by (simp add: demo_env_def)
  moreover have "build_items (\<lambda>r. Some (JStr r)) (q_input_items zero_request) = Inr []" by (simp add: zero_request_def)
  ultimately show ?thesis
    using next_turn_replays [OF demo_parsed demo_decoded, of "\<lambda>r. Some (JStr r)" "[JStr demo_item]" zero_request "[]"
      "[zero_result\<lparr>tr_output := ''ok''\<rparr>]"]
    by (simp add: output_object_def zero_result_def result_output_def)
qed

text \<open>
  C25: the call ids of the API are lost. The Responses API names the id of a call \<open>call_id\<close>; the fields of
  \<open>parseOutputItem\<close> have no tag for it. If no member of an item of the response is named \<open>callid\<close>, in any case, then
  every tool call of the parsed response has an empty call id, and every result that carries the id of its call, as the
  tool registry fills it in, goes back to the API with an empty \<open>call_id\<close>.
\<close>

theorem call_ids_lost:
  assumes "parse_responses_response data provider = Inr resp" and "decode_envelope data = Some env"
    and "\<forall>r \<in> set (env_output env). \<forall>ms. unmarshal_struct r = Some ms \<longrightarrow> (\<forall>(k, v) \<in> set ms. \<not> key_matches ''callid'' k)"
    and "list_all2 (\<lambda>c x. tr_call_id x = tc_call_id c) (p_tool_calls resp) results"
  shows "(\<forall>c \<in> set (p_tool_calls resp). tc_call_id c = []) \<and>
    (\<forall>v \<in> set (map output_object results). \<exists>t out. v = JObj [(''type'', t), (''call_id'', JStr []), (''output'', out)])"
proof -
  have s: "list_all2 (\<lambda>r i. parse_output_item r = Some i) (env_output env) (p_output resp)"
    "p_tool_calls resp = List.map_filter i_tool_call (p_output resp)"
    using parse_responses_response_spec [OF assms(1)] assms(2) by auto
  have empty: "tc_call_id c = []" if c: "c \<in> set (p_tool_calls resp)" for c
  proof -
    obtain i where i: "i \<in> set (p_output resp)" "i_tool_call i = Some c" using c s(2) by (auto simp: map_filter_def)
    obtain r where r: "r \<in> set (env_output env)" "parse_output_item r = Some i"
      using list_all2_partner [OF s(1) i(1)] by blast
    obtain ms where ms: "unmarshal_struct r = Some ms" "string_field ''callid'' ms = Some (tc_call_id c)"
      using parsed_item [OF r(2)] i(2) by blast
    then have "string_field ''callid'' ms = Some []" using assms(3) r(1) by (intro string_field_absent) blast
    then show ?thesis using ms(2) by simp
  qed
  have "tr_call_id x = []" if "x \<in> set results" for x
    using list_all2_partner [OF assms(4) that] empty by auto
  then show ?thesis using empty by (auto simp: output_object_def)
qed

theorem call_ids_lost_witness:
  "tc_call_id (hd (p_tool_calls demo_resp)) = [] \<and> p_tool_calls demo_resp \<noteq> []"
proof -
  have "\<forall>r \<in> set (env_output demo_env). \<forall>ms. unmarshal_struct r = Some ms \<longrightarrow> (\<forall>(k, v) \<in> set ms. \<not> key_matches ''callid'' k)"
    using demo_fields by (simp add: demo_env_def demo_members Let_def)
  moreover have "list_all2 (\<lambda>c x. tr_call_id x = tc_call_id c) (p_tool_calls demo_resp) [zero_result]"
    by (simp add: demo_resp_def demo_call_def zero_result_def)
  ultimately have "\<forall>c \<in> set (p_tool_calls demo_resp). tc_call_id c = []"
    using call_ids_lost [OF demo_parsed demo_decoded, of "[zero_result]"] by blast
  then show ?thesis by (simp add: demo_resp_def)
qed

end
