(* ===== verification/Spec2Isabelle.thy ===== *)
theory Spec2Isabelle
  imports Run_Concurrency Session_Assets Runtime Workspace_Tools Gateway_Server Sse_Client Openai_Responses
begin

text \<open>
  A model of kkode, a coding-agent runtime in Go, and its correctness properties.

  The program. A client asks the HTTP gateway (\<open>src/gateway\<close>) to run a prompt in a session. The gateway authenticates,
  validates and sanitizes the request and hands it to the run manager, which claims the run's id in the SQLite store
  (\<open>src/session\<close>), starts a goroutine for it, bounds how many run at once, records every change of status as a durable
  event and publishes it on the event bus. The goroutine calls the runtime (\<open>src/runtime\<close>): it loads or creates the
  session, builds the request from the session's history, and runs the agent (\<open>src/agent\<close>), which checks guardrails
  and runs the tool loop of \<open>src/llm\<close> against a provider chosen by the router. The tools act on a workspace
  directory (\<open>src/workspace\<close>) and on the session's todo list. What the agent did is appended to the session as one turn
  with its events. Clients read sessions, runs, events and transcripts through the listings and the event stream.

  Conventions. A Go string is a list of bytes (\<open>string\<close>), so \<open>length\<close> is Go's \<open>len\<close>; a map is an association list, a nil
  map or slice the empty list; \<open>time.Time\<close> is a number of nanoseconds with 0 for the zero time; an \<open>int\<close> is an \<open>int\<close>, wrapped
  with \<open>wrap64\<close> where overflow can occur. A struct is a record with the code's fields in their order, an error a
  constructor of a datatype, a fallible operation a sum or an option. The clock and the random source are streams
  in a \<open>world\<close> that is threaded through the operations. Functions keep the code's names in snake case.

  The theories, from the bottom.

  Prelude. \<open>Go_Base\<close> (strings, maps, \<open>TrimSpace\<close>, times, ids), \<open>Go_Runes\<close> (UTF-8), \<open>Go_Path\<close> (\<open>path/filepath\<close>), \<open>Go_Json\<close>
  (\<open>json.Valid\<close>), \<open>Go_Json_Decode\<close> (\<open>json.Unmarshal\<close> into structs, on the text), \<open>Go_Net\<close> (\<open>net.ParseIP\<close>, \<open>SplitHostPort\<close>, \<open>strings.Fields\<close>), \<open>Sha256\<close> (\<open>crypto/sha256\<close>, for the ids of
  idempotent runs), \<open>File_System\<close> (package \<open>os\<close> over a map from paths to nodes).

  Package llm. \<open>Llm_Types\<close>: \<open>types.go\<close>, \<open>validate.go\<close>, \<open>prompt.go\<close>, \<open>model.go\<close>. \<open>Llm_Tools\<close>: \<open>tools.go\<close>; the tool loop extends
  the conversation by the answers to the calls and is bounded by its iterations, and parallel execution is an
  interleaving relation that never gets stuck. \<open>Llm_Route\<close>: \<open>router.go\<close>, \<open>pipeline.go\<close>, \<open>conversion.go\<close>; routing does not
  depend on the order of Go's maps. \<open>Redact\<close>: \<open>redact.go\<close>; redacted text matches no secret pattern.

  Providers. \<open>Http_Transport\<close>: \<open>httptransport.go\<close>; retries are bounded in number and in length of each wait. \<open>Http_Json\<close>:
  \<open>httpjson/client.go\<close>; what a request brings cannot change the shape of an endpoint. \<open>Openai_Responses\<close>:
  \<open>openai/client.go\<close>, \<open>parse.go\<close>, \<open>conversion.go\<close>, \<open>stream.go\<close>; how a turn of the tool loop is sent back, and the call ids that it loses.
  \<open>Sse_Client\<close>: the reader of event streams reads back what the gateway's stream writes.

  Package session. \<open>Session_Types\<close>: the records and the tables of the schema. \<open>Run_Store\<close>: the run and event tables of
  \<open>sqlite_store.go\<close>; the keys hold after every operation, claims are exclusive, event numbers have no gaps.
  \<open>Session_Store\<close>: sessions, turns, events, todos, checkpoints, artifacts; \<open>Session_Laws\<close>, \<open>Session_History\<close> and
  \<open>Session_Assets\<close> hold their invariants, the round trip of saving and loading, and the refinement of appending a turn
  to one atomic step on a map from ids to sessions. \<open>Session_Ops\<close>: \<open>fork.go\<close>, \<open>compact.go\<close>, \<open>todo_tools.go\<close>. \<open>Session_Contract\<close>:
  what the runtime and the todo tools rely on, as the locales \<open>session_view\<close>, \<open>todo_store\<close> and \<open>turn_store\<close>, which the
  SQLite store provides (\<open>sqv\<close>, \<open>sqt\<close>, \<open>sqr\<close>); \<open>durable_runs\<close> in \<open>Run_Store\<close> is the same for the run tables (\<open>sq\<close>).

  Packages agent and runtime. \<open>Agent\<close>: guardrails, tracing, one run of an agent. \<open>Runtime\<close>: \<open>runtime.go\<close>; a run that
  returns has stored exactly its turn and events (locale \<open>run_invariant\<close>, interpreted on the store's invariant).

  Package workspace. \<open>Workspace\<close>: \<open>workspace.go\<close>, file by file. \<open>Workspace_Patch\<close>: the patch format, its parser and its
  application, a refinement of updating a map from paths to contents. \<open>Workspace_Checkpoint\<close>: \<open>checkpoint.go\<close>.
  \<open>Workspace_Tools\<close>: the tools a model sees and the command runner; nothing they do leaves the root.

  Package gateway. \<open>Gateway_Types\<close>: run records and conversions of \<open>dto.go\<close>. \<open>Event_Bus\<close>: \<open>event_bus.go\<close>. \<open>Gateway_Request\<close>:
  \<open>context_blocks.go\<close>, \<open>request_id.go\<close> and the handlers that start, validate, preview and retry a run. \<open>Run_Manager\<close>:
  \<open>run_manager.go\<close>, one function per locked region; \<open>Run_Lifecycle\<close>: what its operations do one at a time;
  \<open>Run_Concurrency\<close>: its goroutines as threads of a step relation whose steps are the locked regions, with reachability
  and invariants by rule induction. \<open>Gateway_Pages\<close>: query parameters and listings (locale \<open>listing\<close>, with the four
  listings as interpretations). \<open>Gateway_Stream\<close>: the event page and the server-sent event stream (locale \<open>event_log\<close>,
  interpreted on the manager's events). \<open>Gateway_Transcript\<close>: the transcript of a run. \<open>Gateway_Server\<close>: the middleware,
  authentication, the routes (locale \<open>site\<close>, interpreted on the gateway's own handlers).

  Bounds and fuel. Recursions that Go's code bounds itself use that bound: the tool loop its iteration limit, a retried
  transaction its attempts, \<open>ipv6_groups\<close> the eight groups of an address. \<open>json_valid\<close> has twice the length of the text
  as fuel, which \<open>json_fuel\<close> shows to be enough. The recovery of stale runs loops until a query comes back empty: it
  has fuel, and \<open>recovery_closes_stale_runs\<close> shows that one round more than there are active runs suffices.
  \<open>follow_pages\<close>, the client of a listing, ends within one page more than there are rows (\<open>pages_visit_everything\<close>).

  Parameters. What is not in the repository is an argument: providers and their streams, guardrail policies, tool
  handlers that are not the program's own, Unicode case folding of non-ASCII text, \<open>filepath.Match\<close>, the regular
  expressions a user supplies, the process that \<open>os/exec\<close> runs, the outcome of JSON decoding of request bodies and tool
  arguments, what arrives on a stream's channels, the sizes of encoded response bodies, the redirect that
  \<open>http.ServeMux\<close> answers for an unclean path; for the providers, the HTTP client and its clock, JSON encoding, decoding into
  an untyped value, \<open>net/url\<close>, and the parsers of dates and durations.

  Not modelled. The clients of the routing service and of command line programs (\<open>providers/omniroute\<close>, \<open>copilot\<close>,
  \<open>codexcli\<close>), MCP and language
  tooling (\<open>src/tools\<close>, \<open>gateway/lsp.go\<close>, \<open>gateway/mcp_probe.go\<close>): traffic with other processes through libraries. The
  assembly in \<open>src/app\<close> and \<open>src/cmd\<close>: flags, environment variables and literal tables. Gateway handlers to which
  \<open>handleAPI\<close> does not route (resources, files, git, artifacts, todos, checkpoints, export, statistics, prompts): they
  cannot be reached by a request. In what is modelled: symbolic links, permissions and other processes that change the
  files; SQLite's own locking, beyond a transaction failing as busy; JSON's nesting limit; memory exhaustion; the
  flushing and the loss of a response on its way to the client.
\<close>

end
